(* ===== verification/Logic_Ast.thy ===== *)
theory Logic_Ast
  imports Prelude
begin

text \<open>
  \<open>crates/catalerum-logic\<close>: the error type (\<open>error.rs\<close>), the closed graph vocabulary
  (\<open>schema.rs\<close>) and the abstract syntax of a desugared program (\<open>ast.rs\<close>). The code's
  error payloads are formatted messages; here each message is a constructor carrying the
  values the format string interpolates.
\<close>

section \<open>Abstract syntax (ast.rs)\<close>

type_synonym val = string

datatype trm = Var string | Const val

record atom =
  pred :: string
  args :: "trm list"

datatype cmp_op = Eq | Ne | Lt | Le | Gt | Ge | IEq | Like

datatype literal = LAtom atom bool | LCmp cmp_op trm trm

record rule =
  head :: atom
  body :: "literal list"

record query =
  q_body :: "literal list"
  columns :: "string list"

record program =
  rules :: "rule list"
  goal :: query

fun split_body :: "literal list \<Rightarrow> atom list \<times> (cmp_op \<times> trm \<times> trm) list" where
  "split_body [] = ([], [])"
| "split_body (LAtom a neg # ls) = (let (as, cs) = split_body ls in (a # as, cs))"
| "split_body (LCmp op l r # ls) = (let (as, cs) = split_body ls in (as, (op, l, r) # cs))"

definition is_anonymous :: "string \<Rightarrow> bool" where
  "is_anonymous name \<longleftrightarrow> starts_with ''_G'' name"

fun push_term_var :: "trm \<Rightarrow> string list \<Rightarrow> string list" where
  "push_term_var (Var v) out = (if \<not> is_anonymous v \<and> v \<notin> set out then out @ [v] else out)"
| "push_term_var (Const c) out = out"

section \<open>Errors (error.rs)\<close>

text \<open>\<open>Panic\<close> stands for the two \<open>expect\<close> calls of the evaluator; it is not a variant of
  the code's enum.\<close>

datatype 'm logic_error = ParseError nat 'm | NoQueryGoal | ValidateError 'm | EvalError 'm | Panic

section \<open>The graph vocabulary (schema.rs)\<close>

definition LABELS :: "string list" where
  "LABELS = [''Person'', ''Org'', ''Topic'', ''Project'', ''Place'', ''Event'', ''File'',
     ''Note'', ''Task'', ''Conversation'', ''Calendar'', ''Bucket'', ''Email'', ''Memory'',
     ''Document'', ''Message'']"

definition EDGE_TYPES :: "string list" where
  "EDGE_TYPES = [''ATTENDS'', ''ABOUT'', ''MENTIONS'', ''STORED_IN'', ''SCHEDULED_IN'',
     ''FOLLOWS'', ''RELATES_TO'', ''DERIVED_FROM'', ''REFERENCES'']"

definition BASE_RELATIONS :: "(string \<times> nat) list" where
  "BASE_RELATIONS = [(''node'', 2), (''edge'', 3), (''prop'', 3)]"

definition BUILTIN_PREDS :: "string list" where
  "BUILTIN_PREDS = [''ieq'', ''like'']"

definition label_sugar :: "string \<Rightarrow> string option" where
  "label_sugar name = List.find (\<lambda>l. eq_ignore_ascii_case l name) LABELS"

definition edge_sugar :: "string \<Rightarrow> string option" where
  "edge_sugar name = List.find (\<lambda>e. eq_ignore_ascii_case e name) EDGE_TYPES"

definition is_reserved_pred :: "string \<Rightarrow> bool" where
  "is_reserved_pred name \<longleftrightarrow>
     list_ex (\<lambda>(n, a). n = name) BASE_RELATIONS \<or> name \<in> set BUILTIN_PREDS
     \<or> label_sugar name \<noteq> None \<or> edge_sugar name \<noteq> None"

definition base_arity :: "string \<Rightarrow> nat option" where
  "base_arity name = map_option snd (List.find (\<lambda>(n, a). n = name) BASE_RELATIONS)"

section \<open>Facts about the syntax and the vocabulary\<close>

definition atoms_of :: "literal list \<Rightarrow> atom list" where
  "atoms_of ls = fst (split_body ls)"

definition cmps_of :: "literal list \<Rightarrow> (cmp_op \<times> trm \<times> trm) list" where
  "cmps_of ls = snd (split_body ls)"

lemma split_body_eq: "split_body ls = (atoms_of ls, cmps_of ls)"
  by (simp add: atoms_of_def cmps_of_def)

lemma atoms_of_simps [simp]:
  "atoms_of [] = []"
  "atoms_of (LAtom a n # ls) = a # atoms_of ls"
  "atoms_of (LCmp op l r # ls) = atoms_of ls"
  by (simp_all add: atoms_of_def split: prod.splits)

lemma cmps_of_simps [simp]:
  "cmps_of [] = []"
  "cmps_of (LAtom a n # ls) = cmps_of ls"
  "cmps_of (LCmp op l r # ls) = (op, l, r) # cmps_of ls"
  by (simp_all add: cmps_of_def split: prod.splits)

lemma set_atoms_of: "set (atoms_of ls) = {a. \<exists>n. LAtom a n \<in> set ls}"
  by (induction ls rule: split_body.induct) auto

lemma set_cmps_of: "set (cmps_of ls) = {(op, l, r). LCmp op l r \<in> set ls}"
  by (induction ls rule: split_body.induct) auto

lemma length_split_body: "length (atoms_of ls) + length (cmps_of ls) = length ls"
  by (induction ls rule: split_body.induct) auto

text \<open>The kept and the desugared vocabulary are told apart by case: every label and edge
  type has an upper-case letter.\<close>

lemma find_Some_mem: "List.find P xs = Some x \<Longrightarrow> x \<in> set xs \<and> P x"
  by (induction xs) (auto split: if_splits)

lemma label_sugar_Some: "label_sugar n = Some l \<Longrightarrow> l \<in> set LABELS \<and> eq_ignore_ascii_case l n"
  by (auto simp: label_sugar_def dest: find_Some_mem)

lemma edge_sugar_Some: "edge_sugar n = Some e \<Longrightarrow> e \<in> set EDGE_TYPES \<and> eq_ignore_ascii_case e n"
  by (auto simp: edge_sugar_def dest: find_Some_mem)

lemma base_arity_simps [simp]:
  "base_arity ''node'' = Some 2" "base_arity ''edge'' = Some 3" "base_arity ''prop'' = Some 3"
  by (simp_all add: base_arity_def BASE_RELATIONS_def)

lemma base_arity_None: "n \<notin> {''node'', ''edge'', ''prop''} \<Longrightarrow> base_arity n = None"
  by (auto simp: base_arity_def BASE_RELATIONS_def)

lemma base_relations_reserved [simp]:
  "is_reserved_pred ''node''" "is_reserved_pred ''edge''" "is_reserved_pred ''prop''"
  by (simp_all add: is_reserved_pred_def BASE_RELATIONS_def)

lemma is_anonymous_iff: "is_anonymous v \<longleftrightarrow> (\<exists>r. v = ''_G'' @ r)"
  by (simp add: is_anonymous_def starts_with_iff)

lemma set_push_term_var:
  "set (push_term_var t out) = set out \<union> {v. t = Var v \<and> \<not> is_anonymous v}"
  by (cases t) auto

lemma distinct_push_term_var [simp]: "distinct (push_term_var t out) = distinct out"
  by (cases t) auto

text \<open>Unfolded for closed runs.\<close>

declare is_anonymous_def [run] is_reserved_pred_def [run] LABELS_def [run] EDGE_TYPES_def [run]
  BASE_RELATIONS_def [run] BUILTIN_PREDS_def [run] label_sugar_def [run] edge_sugar_def [run]
  base_arity_def [run]

end
