(* ===== verification/Logic_Lex.thy ===== *)
theory Logic_Lex
  imports Logic_Ast
begin

text \<open>
  The hand-written tokenizer, \<open>crates/catalerum-logic/src/lex.rs\<close>. The code scans a
  \<open>Vec<char>\<close> with an index \<open>i\<close>; a model function takes the suffix \<open>chars[i..]\<close> and
  returns the suffix left, so \<open>chars.get(i + 1)\<close> is the second character of its argument.
  A HOL character is a code point below 256; on those the definitions agree with the code.
\<close>

section \<open>Tokens\<close>

datatype tok =
    TIdent string | TVar string | TStr string | TNum string
  | LParen | RParen | Comma | Dot | ColonDash | QueryArrow
  | TEq | TNe | TLt | TLe | TGt | TGe

record token =
  tok :: tok
  line :: nat

datatype logic_msg =
    StrayColon | StrayQuestion | StrayBang | StrayMinus | UnexpectedChar char
  | InvalidEscape char | UnterminatedEscape | NewlineInString | UnterminatedString
  | ExpectedFound string tok | ExpectedEnd string | ExpectedNeck "tok option"
  | ExpectedLiteral "tok option" | ExpectedPredicate "tok option" | ExpectedTerm "tok option"
  | ExpectedCmp "tok option" | BareFact string | SecondGoal | SugarArity string nat
  | TooManyRules | QueryTooLarge | RuleTooLarge string | ProgramTooLarge
  | ReservedHead string | BaseArity string nat nat | ArityClash string nat nat
  | UnknownPredicate string "string option" | UnboundHead string string
  | UnboundCmp string "string option"
  | TooManyFacts nat nat | IterationBudget nat | DeadlineExceeded | JoinTooLarge nat
  | DerivedBudget nat

type_synonym lerr = "logic_msg logic_error"

definition lex_err :: "nat \<Rightarrow> logic_msg \<Rightarrow> lerr" where
  "lex_err ln m = ParseError ln m"

section \<open>The scanners\<close>

definition escape_char :: "char \<Rightarrow> char option" where
  "escape_char e =
     (if e = CHR 0x22 then Some (CHR 0x22)
      else if e = CHR 0x5C then Some (CHR 0x5C)
      else if e = CHR ''n'' then Some (CHR 0x0A)
      else if e = CHR ''t'' then Some (CHR 0x09)
      else None)"

text \<open>\<open>lex_string\<close> on the characters after the opening quote.\<close>

fun lex_string :: "nat \<Rightarrow> string \<Rightarrow> lerr + string \<times> string" where
  "lex_string ln [] = Inl (lex_err ln UnterminatedString)"
| "lex_string ln (c # cs) =
     (if c = CHR 0x22 then Inr ([], cs)
      else if c = CHR 0x5C then
        (case cs of
           [] \<Rightarrow> Inl (lex_err ln UnterminatedEscape)
         | e # cs' \<Rightarrow>
             (case escape_char e of
                None \<Rightarrow> Inl (lex_err ln (InvalidEscape e))
              | Some x \<Rightarrow> bindE (lex_string ln cs') (\<lambda>(s, r). Inr (x # s, r))))
      else if c = CHR 0x0A then Inl (lex_err ln NewlineInString)
      else bindE (lex_string ln cs) (\<lambda>(s, r). Inr (c # s, r)))"

fun next_is_digit :: "string \<Rightarrow> bool" where
  "next_is_digit [] = False"
| "next_is_digit (c # cs) = is_ascii_digit c"

text \<open>The optional fraction: a dot only when a digit follows it.\<close>

definition lex_fraction :: "string \<Rightarrow> string \<times> string" where
  "lex_fraction cs =
     (case cs of
        d # r \<Rightarrow>
          if d = CHR ''.'' \<and> next_is_digit r
          then (d # takeWhile is_ascii_digit r, dropWhile is_ascii_digit r)
          else ([], cs)
      | [] \<Rightarrow> ([], []))"

definition lex_number :: "string \<Rightarrow> string \<times> string" where
  "lex_number cs =
     (let (sign, r) = (case cs of c # r \<Rightarrow> if c = CHR ''-'' then ([c], r) else ([], cs) | [] \<Rightarrow> ([], []));
          whole = takeWhile is_ascii_digit r;
          (frac, rest) = lex_fraction (dropWhile is_ascii_digit r)
      in (sign @ whole @ frac, rest))"

definition is_ident_char :: "char \<Rightarrow> bool" where
  "is_ident_char c \<longleftrightarrow> c = CHR ''_'' \<or> is_ascii_alphanumeric c"

definition lex_ident :: "string \<Rightarrow> string \<times> string" where
  "lex_ident cs = (takeWhile is_ident_char cs, dropWhile is_ident_char cs)"

lemma lex_string_shorter: "lex_string ln cs = Inr (s, r) \<Longrightarrow> length r < length cs"
proof (induction ln cs arbitrary: s r rule: lex_string.induct)
  case (2 ln c cs)
  from "2.prems" "2.IH" show ?case
    by (fastforce split: if_splits list.splits option.splits)
qed simp

lemma lex_fraction_shorter: "length (snd (lex_fraction cs)) \<le> length cs"
  by (auto simp: lex_fraction_def split: list.splits intro: le_SucI order_trans[OF length_dropWhile_le])

lemma lex_number_shorter:
  assumes "c = CHR ''-'' \<or> is_ascii_digit c" "lex_number (c # cs) = (n, r)"
  shows "length r \<le> length cs"
proof -
  have *: "length (snd (lex_fraction (dropWhile P xs))) \<le> length xs" for P xs
    using lex_fraction_shorter length_dropWhile_le order_trans by blast
  from assms show ?thesis
    using *[of is_ascii_digit cs]
    by (auto simp: lex_number_def Let_def split: if_splits prod.splits)
qed

lemma lex_ident_shorter:
  "is_ident_char c \<Longrightarrow> lex_ident (c # cs) = (n, r) \<Longrightarrow> length r \<le> length cs"
  by (auto simp: lex_ident_def intro: length_dropWhile_le)

lemma ident_start_is_ident_char:
  "c = CHR ''_'' \<or> is_ascii_uppercase c \<Longrightarrow> is_ident_char c"
  "is_ascii_lowercase c \<Longrightarrow> is_ident_char c"
  by (auto simp: is_ident_char_def is_ascii_alphanumeric_def)

section \<open>The tokenizer\<close>

text \<open>One turn of the main loop at line \<open>ln\<close>: the arms of the \<open>match\<close> on \<open>chars[i]\<close> in
  their order, each giving what it pushes and where the scan goes on.\<close>

datatype lex_step = NextLine string | Skip string | Push tok string | Stop lerr

definition lex_pair :: "char \<Rightarrow> tok \<Rightarrow> string \<Rightarrow> lex_step \<Rightarrow> lex_step" where
  "lex_pair second t cs other =
     (case cs of d # ds \<Rightarrow> if d = second then Push t ds else other | [] \<Rightarrow> other)"

definition lex_step :: "nat \<Rightarrow> char \<Rightarrow> string \<Rightarrow> lex_step" where
  "lex_step ln c cs =
     (if c = CHR 0x0A then NextLine cs
      else if is_whitespace c then Skip cs
      else if c = CHR ''%'' then Skip (dropWhile (\<lambda>d. d \<noteq> CHR 0x0A) cs)
      else if c = CHR ''('' then Push LParen cs
      else if c = CHR '')'' then Push RParen cs
      else if c = CHR '','' then Push Comma cs
      else if c = CHR ''.'' then Push Dot cs
      else if c = CHR '':'' then lex_pair (CHR ''-'') ColonDash cs (Stop (lex_err ln StrayColon))
      else if c = CHR ''?'' then lex_pair (CHR ''-'') QueryArrow cs (Stop (lex_err ln StrayQuestion))
      else if c = CHR ''='' then Push TEq cs
      else if c = CHR ''!'' then lex_pair (CHR ''='') TNe cs (Stop (lex_err ln StrayBang))
      else if c = CHR ''<'' then lex_pair (CHR ''='') TLe cs (Push TLt cs)
      else if c = CHR ''>'' then lex_pair (CHR ''='') TGe cs (Push TGt cs)
      else if c = CHR 0x22 then
        (case lex_string ln cs of Inl e \<Rightarrow> Stop e | Inr (s, r) \<Rightarrow> Push (TStr s) r)
      else if c = CHR ''-'' \<or> is_ascii_digit c then
        (if c = CHR ''-'' \<and> \<not> next_is_digit cs then Stop (lex_err ln StrayMinus)
         else (case lex_number (c # cs) of (n, r) \<Rightarrow> Push (TNum n) r))
      else if c = CHR ''_'' \<or> is_ascii_uppercase c then
        (case lex_ident (c # cs) of (n, r) \<Rightarrow> Push (TVar n) r)
      else if is_ascii_lowercase c then
        (case lex_ident (c # cs) of (n, r) \<Rightarrow> Push (TIdent n) r)
      else Stop (lex_err ln (UnexpectedChar c)))"

fun step_rest :: "lex_step \<Rightarrow> string" where
  "step_rest (NextLine r) = r"
| "step_rest (Skip r) = r"
| "step_rest (Push t r) = r"
| "step_rest (Stop e) = []"

lemma lex_pair_shorter:
  "length (step_rest other) \<le> length cs \<Longrightarrow> length (step_rest (lex_pair d t cs other)) \<le> length cs"
  by (auto simp: lex_pair_def split: list.splits)

lemma lex_string_step_shorter:
  "length (step_rest (case lex_string ln cs of Inl e \<Rightarrow> Stop e | Inr (s, r) \<Rightarrow> Push (TStr s) r)) \<le> length cs"
  by (auto split: sum.splits dest: lex_string_shorter)

lemma lex_number_step_shorter:
  "c = CHR ''-'' \<or> is_ascii_digit c \<Longrightarrow>
   length (step_rest (if bad then Stop e else (case lex_number (c # cs) of (n, r) \<Rightarrow> Push (TNum n) r)))
     \<le> length cs"
  by (simp split: prod.split add: lex_number_shorter)

lemma lex_ident_step_shorter:
  "is_ident_char c \<Longrightarrow>
   length (step_rest (case lex_ident (c # cs) of (n, r) \<Rightarrow> Push (f n) r)) \<le> length cs"
  by (simp split: prod.split add: lex_ident_shorter)

lemma lex_step_shorter: "length (step_rest (lex_step ln c cs)) \<le> length cs"
  unfolding lex_step_def
  by (intro if_cases[where P = "\<lambda>s. length (step_rest s) \<le> length cs"] lex_pair_shorter
        lex_string_step_shorter lex_number_step_shorter lex_ident_step_shorter)
     (simp_all only: step_rest.simps length_dropWhile_le list.size le0 order_refl
        ident_start_is_ident_char)

function lex_from :: "nat \<Rightarrow> string \<Rightarrow> lerr + token list" where
  "lex_from ln [] = Inr []"
| "lex_from ln (c # cs) =
     (case lex_step ln c cs of
        NextLine r \<Rightarrow> lex_from (ln + 1) r
      | Skip r \<Rightarrow> lex_from ln r
      | Push t r \<Rightarrow> bindE (lex_from ln r) (\<lambda>ts. Inr (\<lparr>tok = t, line = ln\<rparr> # ts))
      | Stop e \<Rightarrow> Inl e)"
  by pat_completeness auto
termination
proof (relation "measure (\<lambda>(ln, cs). length cs)", goal_cases)
  case (2 ln c cs r)
  then show ?case using lex_step_shorter[of ln c cs] by simp
next
  case (3 ln c cs r)
  then show ?case using lex_step_shorter[of ln c cs] by simp
next
  case (4 ln c cs t r)
  then show ?case using lex_step_shorter[of ln c cs] by simp
qed simp

definition lex :: "string \<Rightarrow> lerr + token list" where
  "lex src = lex_from 1 src"


section \<open>Well-formed tokens and their printed form\<close>

fun wf_number :: "string \<Rightarrow> bool" where
  "wf_number n =
     (let r = (if n \<noteq> [] \<and> hd n = CHR ''-'' then tl n else n);
          rest = dropWhile is_ascii_digit r
      in next_is_digit r \<and>
         (rest = [] \<or> hd rest = CHR ''.'' \<and> tl rest \<noteq> [] \<and> list_all is_ascii_digit (tl rest)))"

fun wf_tok :: "tok \<Rightarrow> bool" where
  "wf_tok (TIdent n) \<longleftrightarrow> n \<noteq> [] \<and> is_ascii_lowercase (hd n) \<and> list_all is_ident_char n"
| "wf_tok (TVar n) \<longleftrightarrow>
     n \<noteq> [] \<and> (hd n = CHR ''_'' \<or> is_ascii_uppercase (hd n)) \<and> list_all is_ident_char n"
| "wf_tok (TNum n) \<longleftrightarrow> wf_number n"
| "wf_tok _ \<longleftrightarrow> True"

definition render_char :: "char \<Rightarrow> string" where
  "render_char c =
     (if c = CHR 0x22 then [CHR 0x5C, CHR 0x22]
      else if c = CHR 0x5C then [CHR 0x5C, CHR 0x5C]
      else if c = CHR 0x0A then [CHR 0x5C, CHR ''n'']
      else [c])"

fun render_tok :: "tok \<Rightarrow> string" where
  "render_tok (TIdent n) = n"
| "render_tok (TVar n) = n"
| "render_tok (TStr s) = CHR 0x22 # concat (map render_char s) @ [CHR 0x22]"
| "render_tok (TNum n) = n"
| "render_tok LParen = ''(''"
| "render_tok RParen = '')''"
| "render_tok Comma = '',''"
| "render_tok Dot = ''.''"
| "render_tok ColonDash = '':-''"
| "render_tok QueryArrow = ''?-''"
| "render_tok TEq = ''=''"
| "render_tok TNe = ''!=''"
| "render_tok TLt = ''<''"
| "render_tok TLe = ''<=''"
| "render_tok TGt = ''>''"
| "render_tok TGe = ''>=''"

definition render :: "tok list \<Rightarrow> string" where
  "render ts = concat (map (\<lambda>t. render_tok t @ '' '') ts)"

lemma render_simps [simp]:
  "render [] = []" "render (t # ts) = render_tok t @ CHR '' '' # render ts"
  by (simp_all add: render_def)

subsection \<open>Scanning a printed token\<close>

definition specials :: "char list" where
  "specials = [CHR 0x0A, CHR ''%'', CHR ''('', CHR '')'', CHR '','', CHR ''.'', CHR '':'',
     CHR ''?'', CHR ''='', CHR ''!'', CHR ''<'', CHR ''>'', CHR 0x22]"

lemma lower_not_special:
  assumes "is_ascii_lowercase c"
  shows "c \<notin> set specials" "c \<noteq> CHR ''-''" "c \<noteq> CHR ''_''" "\<not> is_whitespace c"
    "\<not> is_ascii_digit c" "\<not> is_ascii_uppercase c"
  using assms
  by (auto simp: specials_def is_ascii_lowercase_def is_whitespace_def is_ascii_digit_def
        is_ascii_uppercase_def)

lemma var_start_not_special:
  assumes "c = CHR ''_'' \<or> is_ascii_uppercase c"
  shows "c \<notin> set specials" "c \<noteq> CHR ''-''" "\<not> is_whitespace c" "\<not> is_ascii_digit c"
  using assms
  by (auto simp: specials_def is_ascii_uppercase_def is_whitespace_def is_ascii_digit_def)

lemma num_start_not_special:
  assumes "c = CHR ''-'' \<or> is_ascii_digit c"
  shows "c \<notin> set specials" "\<not> is_whitespace c"
  using assms by (auto simp: specials_def is_whitespace_def is_ascii_digit_def)

lemma space_not_ident [simp]: "\<not> is_ident_char (CHR '' '')" "\<not> is_ascii_digit (CHR '' '')"
  by (simp_all add: is_ident_char_def is_ascii_alphanumeric_def is_ascii_digit_def
        is_ascii_uppercase_def is_ascii_lowercase_def)

lemma lex_ident_printed:
  "list_all is_ident_char n \<Longrightarrow> lex_ident (n @ CHR '' '' # r) = (n, CHR '' '' # r)"
  by (auto simp: lex_ident_def list_all_iff)

lemma lex_fraction_printed:
  "f = [] \<or> hd f = CHR ''.'' \<and> tl f \<noteq> [] \<and> list_all is_ascii_digit (tl f) \<Longrightarrow>
   lex_fraction (f @ CHR '' '' # r) = (f, CHR '' '' # r)"
proof (cases f)
  case (Cons d ds)
  assume "f = [] \<or> hd f = CHR ''.'' \<and> tl f \<noteq> [] \<and> list_all is_ascii_digit (tl f)"
  with Cons obtain e es where "d = CHR ''.''" "ds = e # es" "list_all is_ascii_digit ds"
    by (cases ds) auto
  with Cons show ?thesis by (auto simp: lex_fraction_def list_all_iff)
qed (simp add: lex_fraction_def)

lemma dropWhile_printed:
  "dropWhile is_ascii_digit (u @ CHR '' '' # r) = dropWhile is_ascii_digit u @ CHR '' '' # r"
  by (induction u) auto

lemma takeWhile_printed:
  "takeWhile is_ascii_digit (u @ CHR '' '' # r) = takeWhile is_ascii_digit u"
  by (induction u) auto

lemma lex_number_printed:
  assumes "wf_number n"
  shows "lex_number (n @ CHR '' '' # r) = (n, CHR '' '' # r)"
proof -
  define u where "u = (if n \<noteq> [] \<and> hd n = CHR ''-'' then tl n else n)"
  have frac: "lex_fraction (dropWhile is_ascii_digit u @ CHR '' '' # r)
      = (dropWhile is_ascii_digit u, CHR '' '' # r)"
    using assms by (intro lex_fraction_printed) (simp add: u_def Let_def)
  have "n \<noteq> []" using assms by (cases n) (auto simp: Let_def)
  then obtain c cs where "n = c # cs" by (cases n) auto
  with frac show ?thesis
    by (auto simp: lex_number_def u_def Let_def dropWhile_printed takeWhile_printed)
qed

lemma lex_string_printed:
  "lex_string ln (concat (map render_char s) @ CHR 0x22 # r) = Inr (s, r)"
  by (induction s) (auto simp: render_char_def escape_char_def)

lemma lex_step_printed_ident:
  assumes "wf_tok (TIdent n)" "n = c # cs"
  shows "lex_step ln c (cs @ CHR '' '' # r) = Push (TIdent n) (CHR '' '' # r)"
  using assms lower_not_special[of c] lex_ident_printed[of n r]
  by (simp add: lex_step_def specials_def)

lemma lex_step_printed_var:
  assumes "wf_tok (TVar n)" "n = c # cs"
  shows "lex_step ln c (cs @ CHR '' '' # r) = Push (TVar n) (CHR '' '' # r)"
  using assms var_start_not_special[of c] lex_ident_printed[of n r]
  by (simp add: lex_step_def specials_def)

lemma next_is_digit_append [simp]: "next_is_digit (u @ CHR '' '' # r) = next_is_digit u"
  by (cases u) auto

lemma lex_step_printed_num:
  assumes "wf_tok (TNum n)" "n = c # cs"
  shows "lex_step ln c (cs @ CHR '' '' # r) = Push (TNum n) (CHR '' '' # r)"
proof -
  have start: "c = CHR ''-'' \<or> is_ascii_digit c" "\<not> (c = CHR ''-'' \<and> \<not> next_is_digit cs)"
    using assms by (auto simp: Let_def split: if_splits)
  have "lex_number (c # cs @ CHR '' '' # r) = (n, CHR '' '' # r)"
    using assms lex_number_printed[of n r] by simp
  with start show ?thesis
    using num_start_not_special[OF start(1)] by (simp add: lex_step_def specials_def)
qed

lemma lex_step_space [simp]: "lex_step ln (CHR '' '') r = Skip r"
  by (simp add: lex_step_def is_whitespace_def)

lemma lex_from_printed:
  assumes "wf_tok t"
  shows "lex_from ln (render_tok t @ CHR '' '' # r)
    = bindE (lex_from ln r) (\<lambda>ts. Inr (\<lparr>tok = t, line = ln\<rparr> # ts))"
proof (cases t)
  case (TIdent n)
  with assms obtain c cs where "n = c # cs" by (cases n) auto
  with TIdent assms lex_step_printed_ident[of n c cs ln r] show ?thesis
    by (simp del: wf_tok.simps)
next
  case (TVar n)
  with assms obtain c cs where "n = c # cs" by (cases n) auto
  with TVar assms lex_step_printed_var[of n c cs ln r] show ?thesis
    by (simp del: wf_tok.simps)
next
  case (TNum n)
  with assms obtain c cs where "n = c # cs" by (cases n) (auto simp: Let_def)
  with TNum assms lex_step_printed_num[of n c cs ln r] show ?thesis
    by (simp del: wf_tok.simps)
next
  case (TStr s)
  then show ?thesis
    using lex_string_printed[of ln s "CHR '' '' # r"]
    by (simp add: lex_step_def is_whitespace_def)
qed (simp_all add: lex_step_def is_whitespace_def lex_pair_def)

lemma lex_render:
  "list_all wf_tok ts \<Longrightarrow> lex_from ln (render ts) = Inr (map (\<lambda>t. \<lparr>tok = t, line = ln\<rparr>) ts)"
  by (induction ts) (simp_all add: lex_from_printed)

subsection \<open>Every token scanned is well formed\<close>

definition step_ok :: "lex_step \<Rightarrow> bool" where
  "step_ok s \<longleftrightarrow> (case s of Push t r \<Rightarrow> wf_tok t | _ \<Rightarrow> True)"

lemma step_ok_simps [simp]:
  "step_ok (NextLine r)" "step_ok (Skip r)" "step_ok (Stop e)" "step_ok (Push t r) = wf_tok t"
  by (simp_all add: step_ok_def)

lemma lex_pair_ok: "wf_tok t \<Longrightarrow> step_ok other \<Longrightarrow> step_ok (lex_pair d t cs other)"
  by (simp add: lex_pair_def split: list.split)

lemma lex_string_step_ok:
  "step_ok (case lex_string ln cs of Inl e \<Rightarrow> Stop e | Inr (s, r) \<Rightarrow> Push (TStr s) r)"
  by (simp split: sum.split prod.split)

lemma lex_fraction_wf:
  "lex_fraction cs = (f, r) \<Longrightarrow>
   f = [] \<or> (\<exists>e es. f = CHR ''.'' # e # es \<and> list_all is_ascii_digit (e # es))"
proof (cases cs)
  case (Cons d ds)
  assume f: "lex_fraction cs = (f, r)"
  show ?thesis
  proof (cases "d = CHR ''.'' \<and> next_is_digit ds")
    case True
    then obtain e es where "ds = e # es" "is_ascii_digit e" by (cases ds) auto
    with True Cons f show ?thesis
      by (auto simp: lex_fraction_def list_all_iff dest: set_takeWhileD)
  next
    case False
    with f Cons show ?thesis by (auto simp: lex_fraction_def split: if_splits)
  qed
qed (simp add: lex_fraction_def)

lemma dropWhile_whole:
  assumes "lex_fraction cs = (f, r)"
  shows "dropWhile is_ascii_digit (takeWhile is_ascii_digit u @ f) = f"
proof -
  have "dropWhile is_ascii_digit f = f"
    using lex_fraction_wf[OF assms] by (auto simp: is_ascii_digit_def)
  then show ?thesis
    by (subst dropWhile_append2) (auto dest: set_takeWhileD)
qed

lemma next_is_digit_whole:
  "next_is_digit u \<Longrightarrow> next_is_digit (takeWhile is_ascii_digit u @ f)"
  by (cases u) auto

lemma digit_not_minus: "is_ascii_digit c \<Longrightarrow> c \<noteq> CHR ''-''"
  by (auto simp: is_ascii_digit_def)

lemma lex_number_wf:
  assumes "c = CHR ''-'' \<or> is_ascii_digit c" "\<not> (c = CHR ''-'' \<and> \<not> next_is_digit cs)"
    and n: "lex_number (c # cs) = (n, r)"
  shows "wf_number n"
proof -
  define u where "u = (if c = CHR ''-'' then cs else c # cs)"
  obtain f where f: "lex_fraction (dropWhile is_ascii_digit u) = (f, r)"
    and n_eq: "n = (if c = CHR ''-'' then [c] else []) @ takeWhile is_ascii_digit u @ f"
    using n by (auto simp: lex_number_def u_def Let_def split: prod.splits if_splits)
  have u: "next_is_digit u" using assms by (auto simp: u_def)
  have hd: "c \<noteq> CHR ''-'' \<Longrightarrow> hd (takeWhile is_ascii_digit u @ f) \<noteq> CHR ''-''"
    using u by (cases u) (auto simp: u_def digit_not_minus)
  have strip: "(if n \<noteq> [] \<and> hd n = CHR ''-'' then tl n else n) = takeWhile is_ascii_digit u @ f"
    using hd n_eq by auto
  show ?thesis
    unfolding wf_number.simps strip Let_def dropWhile_whole[OF f]
    using lex_fraction_wf[OF f] next_is_digit_whole[OF u] by auto
qed

lemma lex_number_step_ok:
  "c = CHR ''-'' \<or> is_ascii_digit c \<Longrightarrow>
   step_ok (if c = CHR ''-'' \<and> \<not> next_is_digit cs then Stop e
            else (case lex_number (c # cs) of (n, r) \<Rightarrow> Push (TNum n) r))"
  by (simp split: prod.split add: lex_number_wf del: wf_number.simps)

lemma lex_ident_wf:
  "is_ident_char c \<Longrightarrow> lex_ident (c # cs) = (n, r) \<Longrightarrow>
   n \<noteq> [] \<and> hd n = c \<and> list_all is_ident_char n"
  by (auto simp: lex_ident_def list_all_iff dest: set_takeWhileD)

lemma lex_var_step_ok:
  "c = CHR ''_'' \<or> is_ascii_uppercase c \<Longrightarrow>
   step_ok (case lex_ident (c # cs) of (n, r) \<Rightarrow> Push (TVar n) r)"
  by (auto split: prod.split dest!: lex_ident_wf[rotated] simp: ident_start_is_ident_char)

lemma lex_ident_step_ok:
  "is_ascii_lowercase c \<Longrightarrow> step_ok (case lex_ident (c # cs) of (n, r) \<Rightarrow> Push (TIdent n) r)"
  by (auto split: prod.split dest!: lex_ident_wf[rotated] simp: ident_start_is_ident_char)

lemma lex_step_ok: "step_ok (lex_step ln c cs)"
  unfolding lex_step_def
  by (intro if_cases[where P = step_ok] lex_pair_ok lex_string_step_ok lex_number_step_ok
        lex_var_step_ok lex_ident_step_ok)
     (simp_all only: step_ok_simps wf_tok.simps)

lemma lex_from_wf: "lex_from ln cs = Inr ts \<Longrightarrow> list_all (wf_tok \<circ> tok) ts"
proof (induction ln cs arbitrary: ts rule: lex_from.induct)
  case (2 ln c cs)
  then show ?case
    using lex_step_ok[of ln c cs] by (auto split: lex_step.splits)
qed simp

text \<open>
  Line numbers never decrease along the tokens, and none is below the starting line.
\<close>

lemma lex_from_lines:
  "lex_from ln cs = Inr ts \<Longrightarrow> sorted (map line ts) \<and> (\<forall>t\<in>set ts. ln \<le> line t)"
proof (induction ln cs arbitrary: ts rule: lex_from.induct)
  case (2 ln c cs)
  from "2.prems" "2.IH" show ?case
    by (cases "lex_step ln c cs") (fastforce dest: Suc_leD)+
qed simp

text \<open>Unfolded for closed runs.\<close>

declare lex_def [run] lex_step_def [run] lex_ident_def [run] is_ident_char_def [run]
  lex_pair_def [run] lex_number_def [run]

end
