(* ===== verification/Rust_Num.thy ===== *)
theory Rust_Num
  imports Complex_Main Prelude
begin

text \<open>
  The parts of Rust's number library the program uses on strings: \<open>str::parse\<close> for
  \<open>i64\<close> and \<open>f64\<close>, \<open>partial_cmp\<close> on \<open>f64\<close> and \<open>Display\<close> for both. A finite double is
  its sign and its magnitude as an exact rational; parsing rounds to the nearest double,
  ties to the even significand, and \<open>Display\<close> prints the shortest decimal that parses back
  to the same double, without an exponent.
\<close>

section \<open>Integers\<close>

definition digit_val :: "char \<Rightarrow> int" where
  "digit_val c = int (code c) - 48"

definition digits_val :: "string \<Rightarrow> int" where
  "digits_val ds = foldl (\<lambda>n d. 10 * n + digit_val d) 0 ds"

definition split_sign :: "string \<Rightarrow> bool \<times> string" where
  "split_sign s =
     (case s of c # r \<Rightarrow> if c = CHR ''-'' then (True, r) else if c = CHR ''+'' then (False, r) else (False, s)
      | [] \<Rightarrow> (False, []))"

definition parse_i64 :: "string \<Rightarrow> int option" where
  "parse_i64 s =
     (let (neg, ds) = split_sign s;
          v = (if neg then - digits_val ds else digits_val ds)
      in if ds \<noteq> [] \<and> list_all is_ascii_digit ds \<and> - (2 ^ 63) \<le> v \<and> v < 2 ^ 63
         then Some v else None)"

definition show_int :: "int \<Rightarrow> string" where
  "show_int i = (if i < 0 then CHR ''-'' # show_uint (- i) else show_uint i)"

section \<open>Doubles\<close>

datatype f64 = NaN | Infinite bool | Finite bool rat

definition pow2 :: "int \<Rightarrow> rat" where
  "pow2 e = (if 0 \<le> e then 2 ^ nat e else 1 / 2 ^ nat (- e))"

definition pow10 :: "int \<Rightarrow> rat" where
  "pow10 e = (if 0 \<le> e then 10 ^ nat e else 1 / 10 ^ nat (- e))"

function int_log :: "int \<Rightarrow> int \<Rightarrow> int" where
  "int_log b n = (if b < 2 \<or> n < b then 0 else 1 + int_log b (n div b))"
  by pat_completeness auto
termination
  by (relation "measure (\<lambda>(b, n). nat n)") (auto simp: zdiv_mono2 int_div_less_self)

declare int_log.simps [simp del]

text \<open>The largest \<open>k\<close> with \<open>b ^ k \<le> q\<close>, where \<open>pow k\<close> is \<open>b ^ k\<close>.\<close>

definition floor_log :: "int \<Rightarrow> (int \<Rightarrow> rat) \<Rightarrow> rat \<Rightarrow> int" where
  "floor_log b pow q =
     (let (n, d) = quotient_of q; k = int_log b n - int_log b d
      in if pow k \<le> q then k else k - 1)"

definition round_half_even :: "rat \<Rightarrow> int" where
  "round_half_even q =
     (let f = \<lfloor>q\<rfloor>; r = q - of_int f
      in if r < 1 / 2 \<or> r = 1 / 2 \<and> even f then f else f + 1)"

text \<open>The magnitude of the nearest double, \<open>None\<close> for an overflow to infinity.\<close>

definition round_f64 :: "rat \<Rightarrow> rat option" where
  "round_f64 q =
     (if q \<le> 0 then Some 0
      else let e = max (floor_log 2 pow2 q - 52) (- 1074);
               v = of_int (round_half_even (q / pow2 e)) * pow2 e
           in if pow2 1024 \<le> v then None else Some v)"

definition split_exp :: "string \<Rightarrow> string \<times> int option" where
  "split_exp s =
     (let m = takeWhile (\<lambda>c. to_ascii_lowercase c \<noteq> CHR ''e'') s;
          r = drop (length m) s
      in case r of
           [] \<Rightarrow> (m, Some 0)
         | _ # r' \<Rightarrow>
             (let (neg, ds) = split_sign r'
              in (m, if ds \<noteq> [] \<and> list_all is_ascii_digit ds
                     then Some (if neg then - digits_val ds else digits_val ds)
                     else None)))"

definition parse_f64 :: "string \<Rightarrow> f64 option" where
  "parse_f64 s =
     (let (neg, r) = split_sign s; low = map to_ascii_lowercase r
      in if low = ''inf'' \<or> low = ''infinity'' then Some (Infinite neg)
         else if low = ''nan'' then Some NaN
         else let (m, ex) = split_exp r;
                  whole = takeWhile (\<lambda>c. c \<noteq> CHR ''.'') m;
                  frac = drop (Suc (length whole)) m;
                  ds = whole @ frac
              in case ex of
                   None \<Rightarrow> None
                 | Some e \<Rightarrow>
                     if ds \<noteq> [] \<and> list_all is_ascii_digit ds
                     then Some (case round_f64 (of_int (digits_val ds) * pow10 (e - int (length frac))) of
                                  None \<Rightarrow> Infinite neg | Some v \<Rightarrow> Finite neg v)
                     else None)"

definition signed :: "bool \<Rightarrow> rat \<Rightarrow> rat" where
  "signed neg v = (if neg then - v else v)"

text \<open>\<open>partial_cmp\<close>: nothing compares with a NaN, and the two zeros are equal.\<close>

fun f64_cmp :: "f64 \<Rightarrow> f64 \<Rightarrow> ordering option" where
  "f64_cmp NaN y = None"
| "f64_cmp x NaN = None"
| "f64_cmp (Infinite a) (Infinite b) = Some (if a = b then Equal else if a then Less else Greater)"
| "f64_cmp (Infinite a) (Finite n v) = Some (if a then Less else Greater)"
| "f64_cmp (Finite n v) (Infinite b) = Some (if b then Greater else Less)"
| "f64_cmp (Finite n v) (Finite m w) =
     Some (if signed n v < signed m w then Less
           else if signed n v = signed m w then Equal else Greater)"

text \<open>The shortest decimal \<open>d * 10 ^ p\<close> that rounds to \<open>v\<close>: from one significant digit
  up, the neighbours of \<open>v\<close> with that many digits, the nearer one when both round to it and
  the upper one at a tie.\<close>

definition shortest_at :: "rat \<Rightarrow> int \<Rightarrow> (int \<times> int) option" where
  "shortest_at v p =
     (let x = v / pow10 p; lo = \<lfloor>x\<rfloor>; hi = \<lceil>x\<rceil>;
          ok = (\<lambda>d. round_f64 (of_int d * pow10 p) = Some v)
      in if ok hi \<and> (\<not> ok lo \<or> of_int hi - x \<le> x - of_int lo) then Some (hi, p)
         else if ok lo then Some (lo, p) else None)"

fun shortest_from :: "rat \<Rightarrow> int \<Rightarrow> nat \<Rightarrow> (int \<times> int)" where
  "shortest_from v p 0 = (\<lfloor>v / pow10 p\<rfloor>, p)"
| "shortest_from v p (Suc n) =
     (case shortest_at v p of Some dp \<Rightarrow> dp | None \<Rightarrow> shortest_from v (p - 1) n)"

definition show_decimal :: "int \<Rightarrow> int \<Rightarrow> string" where
  "show_decimal d p =
     (let ds = show_int d
      in if 0 \<le> p then ds @ replicate (nat p) (CHR ''0'')
         else let k = nat (- p);
                  padded = replicate (k + 1 - length ds) (CHR ''0'') @ ds
              in take (length padded - k) padded @ CHR ''.'' # drop (length padded - k) padded)"

definition strip_zeros :: "int \<times> int \<Rightarrow> int \<times> int" where
  "strip_zeros dp = (case dp of (d, p) \<Rightarrow> if d mod 10 = 0 then (d div 10, p + 1) else (d, p))"

fun show_f64 :: "f64 \<Rightarrow> string" where
  "show_f64 NaN = ''NaN''"
| "show_f64 (Infinite neg) = (if neg then ''-inf'' else ''inf'')"
| "show_f64 (Finite neg v) =
     (if neg then ''-'' else []) @
     (if v = 0 then ''0''
      else case strip_zeros (shortest_from v (floor_log 10 pow10 v) 17) of (d, p) \<Rightarrow> show_decimal d p)"

section \<open>Integers print and parse back\<close>

lemma digit_val_char_of: "0 \<le> n \<Longrightarrow> n < 10 \<Longrightarrow> digit_val (char_of (nat (48 + n))) = n"
  by (simp add: digit_val_def nat_add_distrib)

lemma digits_val_append: "digits_val (xs @ [d]) = 10 * digits_val xs + digit_val d"
  by (simp add: digits_val_def)

lemma digits_val_single: "digits_val [d] = digit_val d"
  by (simp add: digits_val_def)

lemma digits_val_show_uint [simp]: "0 \<le> n \<Longrightarrow> digits_val (show_uint n) = n"
proof (induction n rule: show_uint.induct)
  case (1 n)
  then show ?case
    by (subst show_uint.simps)
       (simp add: digits_val_append digits_val_single digit_val_char_of)
qed

lemma is_ascii_digit_char_of: "0 \<le> n \<Longrightarrow> n < 10 \<Longrightarrow> is_ascii_digit (char_of (nat (48 + n)))"
  by (simp add: is_ascii_digit_def nat_add_distrib)

lemma show_uint_digits: "0 \<le> n \<Longrightarrow> show_uint n \<noteq> [] \<and> list_all is_ascii_digit (show_uint n)"
proof (induction n rule: show_uint.induct)
  case (1 n)
  then show ?case
    by (subst (1 2) show_uint.simps) (auto simp: is_ascii_digit_char_of)
qed

lemma split_sign_digits:
  "ds \<noteq> [] \<Longrightarrow> list_all is_ascii_digit ds \<Longrightarrow> split_sign ds = (False, ds)"
  by (cases ds) (auto simp: split_sign_def is_ascii_digit_def)

lemma parse_show_i64:
  assumes "- (2 ^ 63) \<le> i" "i < 2 ^ 63"
  shows "parse_i64 (show_int i) = Some i"
proof (cases "i < 0")
  case True
  with assms show ?thesis
    using show_uint_digits[of "- i"]
    by (simp add: parse_i64_def show_int_def split_sign_def)
next
  case False
  with assms show ?thesis
    using show_uint_digits[of i] split_sign_digits[of "show_uint i"]
    by (simp add: parse_i64_def show_int_def)
qed

end
