(* ===== verification/Logic_Parse.thy ===== *)
theory Logic_Parse
  imports Logic_Lex Rust_Num
begin

text \<open>
  The recursive-descent parser, \<open>crates/catalerum-logic/src/parse.rs\<close>: the parser state is
  the token vector, the position in it and the counter of anonymous variables; every method
  of \<open>impl Parser\<close> is a function from the state to an error or a result with the new state.
\<close>

section \<open>Parser state and primitive moves\<close>

record parser =
  p_tokens :: "token list"
  p_pos :: nat
  p_anon :: nat

type_synonym 'a presult = "lerr + 'a \<times> parser"

definition peek :: "parser \<Rightarrow> tok option" where
  "peek p = (if p_pos p < length (p_tokens p) then Some (tok (p_tokens p ! p_pos p)) else None)"

definition cur_line :: "parser \<Rightarrow> nat" where
  "cur_line p =
     (if p_pos p < length (p_tokens p) then line (p_tokens p ! p_pos p)
      else if p_tokens p = [] then 1 else line (last (p_tokens p)))"

definition bump :: "parser \<Rightarrow> tok option \<times> parser" where
  "bump p = (case peek p of None \<Rightarrow> (None, p) | Some t \<Rightarrow> (Some t, p\<lparr>p_pos := p_pos p + 1\<rparr>))"

definition perr :: "nat \<Rightarrow> logic_msg \<Rightarrow> lerr" where
  "perr lin m = ParseError lin m"

definition expect :: "tok \<Rightarrow> string \<Rightarrow> parser \<Rightarrow> unit presult" where
  "expect want what p =
     (case bump p of
        (Some t, p') \<Rightarrow> if t = want then Inr ((), p') else Inl (perr (cur_line p') (ExpectedFound what t))
      | (None, p') \<Rightarrow> Inl (perr (cur_line p') (ExpectedEnd what)))"

definition advances :: "parser \<Rightarrow> parser \<Rightarrow> bool" where
  "advances p p' \<longleftrightarrow> p_tokens p' = p_tokens p \<and> p_pos p \<le> p_pos p'"

definition remaining :: "parser \<Rightarrow> nat" where
  "remaining p = length (p_tokens p) - p_pos p"

definition consumes :: "parser \<Rightarrow> parser \<Rightarrow> bool" where
  "consumes p p' \<longleftrightarrow> p_tokens p' = p_tokens p \<and> p_pos p < p_pos p' \<and> p_pos p < length (p_tokens p)"

lemma advances_refl [simp]: "advances p p"
  by (simp add: advances_def)

lemma advances_trans [trans]: "advances p q \<Longrightarrow> advances q r \<Longrightarrow> advances p r"
  by (auto simp: advances_def)

lemma consumes_advances [trans]: "consumes p q \<Longrightarrow> advances q r \<Longrightarrow> consumes p r"
  by (auto simp: advances_def consumes_def)

lemma advances_consumes [trans]: "advances p q \<Longrightarrow> consumes q r \<Longrightarrow> consumes p r"
  by (auto simp: advances_def consumes_def)

lemma consumes_imp_advances: "consumes p q \<Longrightarrow> advances p q"
  by (auto simp: advances_def consumes_def)

lemma consumes_trans: "consumes p q \<Longrightarrow> consumes q r \<Longrightarrow> consumes p r"
  by (auto simp: consumes_def)

lemma consumes_remaining: "consumes p q \<Longrightarrow> remaining q < remaining p"
  by (auto simp: consumes_def remaining_def)

lemma bump_None: "bump p = (None, p') \<Longrightarrow> p' = p"
  by (auto simp: bump_def split: option.splits)

lemma bump_Some: "bump p = (Some t, p') \<Longrightarrow> consumes p p'"
  by (auto simp: bump_def peek_def consumes_def split: option.splits if_splits)

lemma bump_peek: "peek p = Some t \<Longrightarrow> consumes p (snd (bump p))"
  by (auto simp: bump_def peek_def consumes_def split: if_splits)

lemma expect_consumes: "expect w s p = Inr (u, p') \<Longrightarrow> consumes p p'"
  by (auto simp: expect_def split: prod.splits option.splits if_splits dest: bump_Some)

section \<open>Terms, atoms and literals\<close>

definition canonical_number :: "string \<Rightarrow> string" where
  "canonical_number text =
     (case parse_i64 text of
        Some i \<Rightarrow> show_int i
      | None \<Rightarrow> (case parse_f64 text of Some f \<Rightarrow> show_f64 f | None \<Rightarrow> text))"

definition parse_term :: "parser \<Rightarrow> trm presult" where
  "parse_term p =
     (case bump p of
        (Some (TVar v), p') \<Rightarrow>
          if v = ''_''
          then Inr (Var (''_G'' @ show_nat (p_anon p')), p'\<lparr>p_anon := p_anon p' + 1\<rparr>)
          else Inr (Var v, p')
      | (Some (TStr s), p') \<Rightarrow> Inr (Const s, p')
      | (Some (TNum n), p') \<Rightarrow> Inr (Const (canonical_number n), p')
      | (other, p') \<Rightarrow> Inl (perr (cur_line p') (ExpectedTerm other)))"

definition parse_cmp_op :: "parser \<Rightarrow> cmp_op presult" where
  "parse_cmp_op p =
     (case bump p of
        (Some TEq, p') \<Rightarrow> Inr (Eq, p')
      | (Some TNe, p') \<Rightarrow> Inr (Ne, p')
      | (Some TLt, p') \<Rightarrow> Inr (Lt, p')
      | (Some TLe, p') \<Rightarrow> Inr (Le, p')
      | (Some TGt, p') \<Rightarrow> Inr (Gt, p')
      | (Some TGe, p') \<Rightarrow> Inr (Ge, p')
      | (other, p') \<Rightarrow> Inl (perr (cur_line p') (ExpectedCmp other)))"

lemma parse_term_consumes:
  "parse_term p = Inr (t, p') \<Longrightarrow> consumes p p'"
  by (auto simp: parse_term_def consumes_def
      split: prod.splits option.splits tok.splits if_splits dest!: bump_Some)

lemma parse_cmp_op_consumes:
  "parse_cmp_op p = Inr (t, p') \<Longrightarrow> consumes p p'"
  by (auto simp: parse_cmp_op_def split: prod.splits option.splits tok.splits dest!: bump_Some)

text \<open>\<open>while peek is a comma: bump, push(term)\<close>.\<close>

function arg_loop :: "parser \<Rightarrow> trm list presult" where
  "arg_loop p =
     (if peek p = Some Comma
      then bindE (parse_term (snd (bump p))) (\<lambda>(t, p1).
             bindE (arg_loop p1) (\<lambda>(ts, p2). Inr (t # ts, p2)))
      else Inr ([], p))"
  by pat_completeness auto
termination
  by (relation "measure remaining")
     (auto intro: consumes_remaining consumes_trans dest!: parse_term_consumes bump_peek)

declare arg_loop.simps [simp del]

lemma arg_loop_advances: "arg_loop p = Inr (ts, p') \<Longrightarrow> advances p p'"
proof (induction p arbitrary: ts p' rule: arg_loop.induct)
  case (1 p)
  show ?case
  proof (cases "peek p = Some Comma")
    case True
    with "1.prems" obtain x p1 xs where x: "parse_term (snd (bump p)) = Inr (x, p1)"
      and xs: "arg_loop p1 = Inr (xs, p')"
      by (subst (asm) arg_loop.simps) auto
    have "consumes p p1" using bump_peek[OF True] parse_term_consumes[OF x] by (rule consumes_trans)
    moreover have "advances p1 p'" using "1.IH"[OF True x refl xs] .
    ultimately show ?thesis by (blast intro: consumes_imp_advances consumes_advances)
  next
    case False
    with "1.prems" show ?thesis by (subst (asm) arg_loop.simps) simp
  qed
qed

definition parse_args :: "parser \<Rightarrow> trm list presult" where
  "parse_args p =
     (if peek p = Some RParen then Inr ([], p)
      else bindE (parse_term p) (\<lambda>(t, p1). bindE (arg_loop p1) (\<lambda>(ts, p2). Inr (t # ts, p2))))"

definition raw_atom :: "parser \<Rightarrow> atom presult" where
  "raw_atom p =
     (case bump p of
        (Some (TIdent name), p1) \<Rightarrow>
          bindE (expect LParen ''(' after a predicate name'' p1) (\<lambda>(_, p2).
          bindE (parse_args p2) (\<lambda>(as, p3).
          bindE (expect RParen '')' to close the argument list'' p3) (\<lambda>(_, p4).
            Inr (\<lparr>pred = name, args = as\<rparr>, p4))))
      | (other, p1) \<Rightarrow> Inl (perr (cur_line p1) (ExpectedPredicate other)))"

definition atom_lit :: "atom \<Rightarrow> literal" where
  "atom_lit a = LAtom a False"

definition desugar :: "parser \<Rightarrow> atom \<Rightarrow> lerr + literal" where
  "desugar p a =
     (if pred a \<in> set BUILTIN_PREDS then
        (case args a of
           [l, r] \<Rightarrow> Inr (LCmp (if pred a = ''ieq'' then IEq else Like) l r)
         | _ \<Rightarrow> Inl (perr (cur_line p) (SugarArity (pred a) 2)))
      else case label_sugar (pred a) of
        Some label \<Rightarrow>
          (case args a of
             [x] \<Rightarrow> Inr (atom_lit \<lparr>pred = ''node'', args = [x, Const label]\<rparr>)
           | _ \<Rightarrow> Inl (perr (cur_line p) (SugarArity (pred a) 1)))
      | None \<Rightarrow>
          (case edge_sugar (pred a) of
             Some etype \<Rightarrow>
               (case args a of
                  [f, t] \<Rightarrow> Inr (atom_lit \<lparr>pred = ''edge'', args = [f, Const etype, t]\<rparr>)
                | _ \<Rightarrow> Inl (perr (cur_line p) (SugarArity (pred a) 2)))
           | None \<Rightarrow> Inr (atom_lit a)))"

fun starts_term :: "tok option \<Rightarrow> bool" where
  "starts_term (Some (TVar v)) = True"
| "starts_term (Some (TStr s)) = True"
| "starts_term (Some (TNum n)) = True"
| "starts_term _ = False"

definition parse_literal :: "parser \<Rightarrow> literal presult" where
  "parse_literal p =
     (case peek p of
        Some (TIdent _) \<Rightarrow>
          bindE (raw_atom p) (\<lambda>(a, p1). bindE (desugar p1 a) (\<lambda>l. Inr (l, p1)))
      | other \<Rightarrow>
          (if starts_term other
           then bindE (parse_term p) (\<lambda>(l, p1).
                bindE (parse_cmp_op p1) (\<lambda>(op, p2).
                bindE (parse_term p2) (\<lambda>(r, p3). Inr (LCmp op l r, p3))))
           else Inl (perr (cur_line p) (ExpectedLiteral other))))"

lemma parse_args_advances: "parse_args p = Inr (ts, p') \<Longrightarrow> advances p p'"
  by (auto simp: parse_args_def advances_def consumes_def split: if_splits prod.splits
      dest!: parse_term_consumes arg_loop_advances)

lemma raw_atom_consumes:
  assumes "raw_atom p = Inr (a, p')"
  shows "consumes p p'"
proof -
  from assms obtain name p1 p2 p3 as where
    "bump p = (Some (TIdent name), p1)" "expect LParen ''(' after a predicate name'' p1 = Inr ((), p2)"
    "parse_args p2 = Inr (as, p3)" "expect RParen '')' to close the argument list'' p3 = Inr ((), p')"
    by (auto simp: raw_atom_def split: prod.splits option.splits tok.splits)
  then show ?thesis
    by (meson bump_Some consumes_trans consumes_advances expect_consumes parse_args_advances)
qed

lemma parse_literal_consumes:
  "parse_literal p = Inr (l, p') \<Longrightarrow> consumes p p'"
  by (auto simp: parse_literal_def split: option.splits tok.splits if_splits prod.splits
      dest!: raw_atom_consumes parse_term_consumes parse_cmp_op_consumes intro: consumes_trans)

section \<open>Bodies, rules and the program\<close>

text \<open>\<open>while peek is a comma: bump, push(literal)\<close>.\<close>

function body_loop :: "parser \<Rightarrow> literal list presult" where
  "body_loop p =
     (if peek p = Some Comma
      then bindE (parse_literal (snd (bump p))) (\<lambda>(l, p1).
             bindE (body_loop p1) (\<lambda>(ls, p2). Inr (l # ls, p2)))
      else Inr ([], p))"
  by pat_completeness auto
termination
  by (relation "measure remaining")
     (auto intro: consumes_remaining consumes_trans dest!: parse_literal_consumes bump_peek)

declare body_loop.simps [simp del]

definition parse_body :: "parser \<Rightarrow> literal list presult" where
  "parse_body p = bindE (parse_literal p) (\<lambda>(l, p1). bindE (body_loop p1) (\<lambda>(ls, p2). Inr (l # ls, p2)))"

lemma body_loop_advances: "body_loop p = Inr (ls, p') \<Longrightarrow> advances p p'"
proof (induction p arbitrary: ls p' rule: body_loop.induct)
  case (1 p)
  show ?case
  proof (cases "peek p = Some Comma")
    case True
    with "1.prems" obtain x p1 xs where x: "parse_literal (snd (bump p)) = Inr (x, p1)"
      and xs: "body_loop p1 = Inr (xs, p')"
      by (subst (asm) body_loop.simps) auto
    have "consumes p p1" using bump_peek[OF True] parse_literal_consumes[OF x] by (rule consumes_trans)
    moreover have "advances p1 p'" using "1.IH"[OF True x refl xs] .
    ultimately show ?thesis by (blast intro: consumes_imp_advances consumes_advances)
  next
    case False
    with "1.prems" show ?thesis by (subst (asm) body_loop.simps) simp
  qed
qed

lemma parse_body_consumes:
  "parse_body p = Inr (ls, p') \<Longrightarrow> consumes p p'"
  by (auto simp: parse_body_def split: prod.splits intro: consumes_advances
      dest!: parse_literal_consumes body_loop_advances)

definition parse_rule :: "parser \<Rightarrow> rule presult" where
  "parse_rule p =
     bindE (raw_atom p) (\<lambda>(h, p1).
       if peek p1 = Some ColonDash then
         bindE (parse_body (snd (bump p1))) (\<lambda>(b, p2).
         bindE (expect Dot ''.' after the rule body'' p2) (\<lambda>(_, p3).
           Inr (\<lparr>head = h, body = b\<rparr>, p3)))
       else if peek p1 = Some Dot then Inl (perr (cur_line p1) (BareFact (pred h)))
       else Inl (perr (cur_line p1) (ExpectedNeck (peek p1))))"

lemma parse_rule_consumes:
  assumes "parse_rule p = Inr (r, p')"
  shows "consumes p p'"
proof -
  from assms obtain h p1 b p2 where
    "raw_atom p = Inr (h, p1)" "peek p1 = Some ColonDash"
    "parse_body (snd (bump p1)) = Inr (b, p2)" "expect Dot ''.' after the rule body'' p2 = Inr ((), p')"
    by (auto simp: parse_rule_def split: if_splits)
  then show ?thesis
    by (meson bump_peek consumes_trans expect_consumes parse_body_consumes raw_atom_consumes)
qed

text \<open>The output columns: the named variables of the goal, in order of first appearance.\<close>

fun literal_terms :: "literal \<Rightarrow> trm list" where
  "literal_terms (LAtom a n) = args a"
| "literal_terms (LCmp op l r) = [l, r]"

definition query_columns :: "literal list \<Rightarrow> string list" where
  "query_columns b = foldl (\<lambda>cols l. foldl (\<lambda>cs t. push_term_var t cs) cols (literal_terms l)) [] b"

function program_loop :: "parser \<Rightarrow> rule list \<Rightarrow> query option \<Rightarrow> (rule list \<times> query option) presult" where
  "program_loop p rs q =
     (case peek p of
        None \<Rightarrow> Inr ((rs, q), p)
      | Some t \<Rightarrow>
          (if t = QueryArrow then
             bindE (parse_body (snd (bump p))) (\<lambda>(b, p1).
             bindE (expect Dot ''.' after the query goal'' p1) (\<lambda>(_, p2).
               if q \<noteq> None then Inl (perr (cur_line p2) SecondGoal)
               else program_loop p2 rs (Some \<lparr>q_body = b, columns = query_columns b\<rparr>)))
           else bindE (parse_rule p) (\<lambda>(r, p1). program_loop p1 (rs @ [r]) q)))"
  by pat_completeness auto
termination
proof (relation "measure (\<lambda>(p, rs, q). remaining p)", goal_cases)
  case (2 p rs q t b b1 p1 u u1 p2)
  then have "consumes (snd (bump p)) p1" "consumes p1 p2" "consumes p (snd (bump p))"
    by (auto intro: parse_body_consumes expect_consumes bump_peek)
  then show ?case by (auto intro: consumes_remaining consumes_trans)
next
  case (3 p rs q t r r1 p1)
  then show ?case by (auto intro: consumes_remaining parse_rule_consumes)
qed simp

declare program_loop.simps [simp del]

definition parse_tokens :: "token list \<Rightarrow> lerr + program" where
  "parse_tokens ts =
     bindE (program_loop \<lparr>p_tokens = ts, p_pos = 0, p_anon = 0\<rparr> [] None) (\<lambda>((rs, q), p).
       case q of None \<Rightarrow> Inl NoQueryGoal | Some g \<Rightarrow> Inr \<lparr>rules = rs, goal = g\<rparr>)"

definition parse_program :: "string \<Rightarrow> lerr + program" where
  "parse_program src = bindE (lex src) parse_tokens"

text \<open>Unfolded for closed runs.\<close>

declare peek_def [run] cur_line_def [run] bump_def [run] perr_def [run] expect_def [run]
  canonical_number_def [run] parse_term_def [run] parse_cmp_op_def [run] arg_loop.simps [run]
  parse_args_def [run] raw_atom_def [run] atom_lit_def [run] desugar_def [run]
  parse_literal_def [run] body_loop.simps [run] parse_body_def [run] parse_rule_def [run]
  query_columns_def [run] program_loop.simps [run] parse_tokens_def [run]
  parse_program_def [run]

end
