(* ===== verification/Logic_Validate.thy ===== *)
theory Logic_Validate
  imports Logic_Parse
begin

text \<open>
  The static checks of \<open>crates/catalerum-logic/src/validate.rs\<close>, in the order the code runs
  them and with the first violation as the error, and what passing them means.
\<close>

section \<open>The checks\<close>

definition MAX_RULES :: nat where "MAX_RULES = 64"
definition MAX_BODY_LITERALS :: nat where "MAX_BODY_LITERALS = 32"
definition MAX_TOTAL_LITERALS :: nat where "MAX_TOTAL_LITERALS = 512"

definition verr :: "logic_msg \<Rightarrow> lerr" where
  "verr m = ValidateError m"

text \<open>\<open>body_atoms\<close>, \<open>atom_vars\<close> and \<open>positive_body_vars\<close>.\<close>

fun body_atoms :: "literal list \<Rightarrow> atom list" where
  "body_atoms [] = []"
| "body_atoms (LAtom a n # ls) = a # body_atoms ls"
| "body_atoms (LCmp op l r # ls) = body_atoms ls"

fun term_var :: "trm \<Rightarrow> string option" where
  "term_var (Var v) = Some v"
| "term_var (Const c) = None"

definition atom_vars :: "atom \<Rightarrow> string list" where
  "atom_vars a = List.map_filter term_var (args a)"

definition positive_body_vars :: "literal list \<Rightarrow> string list" where
  "positive_body_vars b = foldl (\<lambda>vs a. foldl (\<lambda>us v. hs_insert v us) vs (atom_vars a)) [] (body_atoms b)"

definition check_size :: "program \<Rightarrow> lerr + unit" where
  "check_size p =
     bindE (guardE (length (rules p) \<le> MAX_RULES) (verr TooManyRules)) (\<lambda>_.
     bindE (guardE (length (q_body (goal p)) \<le> MAX_BODY_LITERALS) (verr QueryTooLarge)) (\<lambda>_.
     bindE (foldE (\<lambda>total r.
              bindE (guardE (length (body r) \<le> MAX_BODY_LITERALS) (verr (RuleTooLarge (pred (head r))))) (\<lambda>_.
                Inr (total + length (body r))))
            (length (q_body (goal p))) (rules p)) (\<lambda>total.
       guardE (total \<le> MAX_TOTAL_LITERALS) (verr ProgramTooLarge))))"

definition check_reserved_heads :: "program \<Rightarrow> lerr + unit" where
  "check_reserved_heads p =
     forE (\<lambda>r. guardE (\<not> is_reserved_pred (pred (head r))) (verr (ReservedHead (pred (head r))))) (rules p)"

definition all_atoms :: "program \<Rightarrow> atom list" where
  "all_atoms p = concat (map (\<lambda>r. head r # body_atoms (body r)) (rules p)) @ body_atoms (q_body (goal p))"

definition check_arity :: "(string \<rightharpoonup> nat) \<Rightarrow> atom \<Rightarrow> lerr + (string \<rightharpoonup> nat)" where
  "check_arity seen a =
     (let arity = length (args a) in
      bindE (case base_arity (pred a) of
               Some base \<Rightarrow> guardE (arity = base) (verr (BaseArity (pred a) base arity))
             | None \<Rightarrow> Inr ()) (\<lambda>_.
        case seen (pred a) of
          Some prev \<Rightarrow> if prev \<noteq> arity then Inl (verr (ArityClash (pred a) prev arity))
                       else Inr (seen(pred a \<mapsto> arity))
        | None \<Rightarrow> Inr (seen(pred a \<mapsto> arity))))"

definition check_arities :: "program \<Rightarrow> lerr + unit" where
  "check_arities p = bindE (foldE check_arity Map.empty (all_atoms p)) (\<lambda>_. Inr ())"

definition known_preds :: "program \<Rightarrow> string list" where
  "known_preds p = [''node'', ''edge'', ''prop''] @ map (pred \<circ> head) (rules p)"

definition check_known_body :: "program \<Rightarrow> string option \<Rightarrow> literal list \<Rightarrow> lerr + unit" where
  "check_known_body p ctx b =
     forE (\<lambda>a. guardE (pred a \<in> set (known_preds p)) (verr (UnknownPredicate (pred a) ctx))) (body_atoms b)"

definition check_known_predicates :: "program \<Rightarrow> lerr + unit" where
  "check_known_predicates p =
     bindE (forE (\<lambda>r. check_known_body p (Some (pred (head r))) (body r)) (rules p)) (\<lambda>_.
       check_known_body p None (q_body (goal p)))"

definition check_cmp_vars :: "literal list \<Rightarrow> string list \<Rightarrow> string option \<Rightarrow> lerr + unit" where
  "check_cmp_vars b bound ctx =
     forE (\<lambda>(op, l, r). forE (\<lambda>t. case t of
             Var v \<Rightarrow> guardE (v \<in> set bound) (verr (UnboundCmp v ctx))
           | Const c \<Rightarrow> Inr ()) [l, r]) (snd (split_body b))"

definition check_range_rule :: "rule \<Rightarrow> lerr + unit" where
  "check_range_rule r =
     (let bound = positive_body_vars (body r) in
      bindE (forE (\<lambda>v. guardE (v \<in> set bound) (verr (UnboundHead (pred (head r)) v))) (atom_vars (head r))) (\<lambda>_.
        check_cmp_vars (body r) bound (Some (pred (head r)))))"

definition check_range_restriction :: "program \<Rightarrow> lerr + unit" where
  "check_range_restriction p =
     bindE (forE check_range_rule (rules p)) (\<lambda>_.
       check_cmp_vars (q_body (goal p)) (positive_body_vars (q_body (goal p))) None)"

definition check :: "program \<Rightarrow> lerr + unit" where
  "check p =
     bindE (check_size p) (\<lambda>_.
     bindE (check_reserved_heads p) (\<lambda>_.
     bindE (check_arities p) (\<lambda>_.
     bindE (check_known_predicates p) (\<lambda>_.
       check_range_restriction p))))"

text \<open>The crate's entry points (\<open>lib.rs\<close>).\<close>

definition parse :: "string \<Rightarrow> lerr + program" where
  "parse src = bindE (parse_program src) (\<lambda>p. bindE (check p) (\<lambda>_. Inr p))"

definition validate :: "string \<Rightarrow> lerr + unit" where
  "validate src = bindE (parse src) (\<lambda>_. Inr ())"

section \<open>What a checked program satisfies\<close>

definition body_vars :: "literal list \<Rightarrow> string set" where
  "body_vars b = {v. \<exists>a \<in> set (atoms_of b). Var v \<in> set (args a)}"

definition cmp_vars :: "literal list \<Rightarrow> string set" where
  "cmp_vars b = {v. \<exists>(op, l, r) \<in> set (cmps_of b). Var v = l \<or> Var v = r}"

definition safe_rule :: "rule \<Rightarrow> bool" where
  "safe_rule r \<longleftrightarrow> (\<forall>v. Var v \<in> set (args (head r)) \<longrightarrow> v \<in> body_vars (body r))
     \<and> cmp_vars (body r) \<subseteq> body_vars (body r)"

definition head_preds :: "program \<Rightarrow> string set" where
  "head_preds p = (\<lambda>r. pred (head r)) ` set (rules p)"

definition program_atoms :: "program \<Rightarrow> atom set" where
  "program_atoms p =
     {a. \<exists>r \<in> set (rules p). a = head r \<or> a \<in> set (atoms_of (body r))} \<union> set (atoms_of (q_body (goal p)))"

definition well_formed :: "program \<Rightarrow> bool" where
  "well_formed p \<longleftrightarrow>
     length (rules p) \<le> 64 \<and> length (q_body (goal p)) \<le> 32 \<and>
     (\<forall>r \<in> set (rules p). length (body r) \<le> 32) \<and>
     length (q_body (goal p)) + (\<Sum>r\<leftarrow>rules p. length (body r)) \<le> 512 \<and>
     (\<forall>n \<in> head_preds p. \<not> is_reserved_pred n) \<and>
     (\<exists>ar. ar ''node'' = 2 \<and> ar ''edge'' = 3 \<and> ar ''prop'' = 3 \<and>
        (\<forall>a \<in> program_atoms p. length (args a) = ar (pred a))) \<and>
     (\<forall>b \<in> insert (q_body (goal p)) (body ` set (rules p)). \<forall>a \<in> set (atoms_of b).
        pred a \<in> {''node'', ''edge'', ''prop''} \<union> head_preds p) \<and>
     (\<forall>r \<in> set (rules p). safe_rule r) \<and>
     cmp_vars (q_body (goal p)) \<subseteq> body_vars (q_body (goal p))"

lemma body_atoms_eq: "body_atoms b = atoms_of b"
  by (induction b rule: body_atoms.induct) auto

lemma set_atom_vars: "set (atom_vars a) = {v. Var v \<in> set (args a)}"
proof -
  have "term_var t = Some v \<longleftrightarrow> t = Var v" for t v by (cases t) auto
  moreover have "set (List.map_filter f xs) = {y. \<exists>x \<in> set xs. f x = Some y}"
    for f :: "trm \<Rightarrow> string option" and xs
    by (induction xs) (auto simp: map_filter_simps split: option.splits)
  ultimately show ?thesis by (simp add: atom_vars_def)
qed

lemma set_foldl_hs_insert: "set (foldl (\<lambda>us v. hs_insert v us) vs xs) = set vs \<union> set xs"
  by (induction xs arbitrary: vs) auto

lemma set_positive_body_vars: "set (positive_body_vars b) = body_vars b"
proof -
  have "set (foldl (\<lambda>vs a. foldl (\<lambda>us v. hs_insert v us) vs (atom_vars a)) vs as)
      = set vs \<union> {v. \<exists>a \<in> set as. Var v \<in> set (args a)}" for vs as
    by (induction as arbitrary: vs) (auto simp: set_foldl_hs_insert set_atom_vars)
  then show ?thesis by (simp add: positive_body_vars_def body_vars_def body_atoms_eq)
qed

lemma check_size_iff:
  "check_size p = Inr u \<longleftrightarrow>
     length (rules p) \<le> 64 \<and> length (q_body (goal p)) \<le> 32 \<and>
     (\<forall>r \<in> set (rules p). length (body r) \<le> 32) \<and>
     length (q_body (goal p)) + (\<Sum>r\<leftarrow>rules p. length (body r)) \<le> 512"
proof -
  have "foldE (\<lambda>total r. bindE (guardE (length (body r) \<le> m) (f r)) (\<lambda>_. Inr (total + length (body r)))) t rs
      = Inr t' \<longleftrightarrow> (\<forall>r \<in> set rs. length (body r) \<le> m) \<and> t' = t + (\<Sum>r\<leftarrow>rs. length (body r))"
    for m t t' rs and f :: "rule \<Rightarrow> lerr"
    by (induction rs arbitrary: t) auto
  then show ?thesis
    by (auto simp: check_size_def MAX_RULES_def MAX_BODY_LITERALS_def MAX_TOTAL_LITERALS_def)
qed

lemma check_reserved_iff:
  "check_reserved_heads p = Inr u \<longleftrightarrow> (\<forall>n \<in> head_preds p. \<not> is_reserved_pred n)"
  by (simp add: check_reserved_heads_def head_preds_def)

lemma check_arity_fold:
  "(\<exists>seen'. foldE check_arity seen as = Inr seen') \<longleftrightarrow>
     (\<exists>ar. (\<forall>n k. seen n = Some k \<longrightarrow> ar n = k) \<and> (\<forall>a \<in> set as. length (args a) = ar (pred a)))
     \<and> (\<forall>a \<in> set as. \<forall>b. base_arity (pred a) = Some b \<longrightarrow> length (args a) = b)"
proof (induction as arbitrary: seen)
  case Nil
  have "\<exists>ar. \<forall>n k. seen n = Some k \<longrightarrow> ar n = k"
    by (rule exI[of _ "\<lambda>n. the (seen n)"]) simp
  then show ?case by simp
next
  case (Cons a as)
  let ?base = "\<forall>b. base_arity (pred a) = Some b \<longrightarrow> length (args a) = b"
  let ?ok = "?base \<and> (\<forall>k. seen (pred a) = Some k \<longrightarrow> k = length (args a))"
  have step: "check_arity seen a = Inr s \<longleftrightarrow> ?ok \<and> s = seen(pred a \<mapsto> length (args a))" for s
    by (auto simp: check_arity_def Let_def split: option.splits)
  have "(\<exists>s'. foldE check_arity seen (a # as) = Inr s') \<longleftrightarrow>
      ?ok \<and> (\<exists>s'. foldE check_arity (seen(pred a \<mapsto> length (args a))) as = Inr s')"
    by (auto simp: step)
  also have "\<dots> \<longleftrightarrow> ?ok \<and> (\<exists>ar. (\<forall>n k. (seen(pred a \<mapsto> length (args a))) n = Some k \<longrightarrow> ar n = k)
      \<and> (\<forall>a \<in> set as. length (args a) = ar (pred a)))
      \<and> (\<forall>a \<in> set as. \<forall>b. base_arity (pred a) = Some b \<longrightarrow> length (args a) = b)"
    by (simp only: Cons.IH)
  also have "\<dots> \<longleftrightarrow> (\<exists>ar. (\<forall>n k. seen n = Some k \<longrightarrow> ar n = k) \<and> (\<forall>a \<in> set (a # as). length (args a) = ar (pred a)))
     \<and> (\<forall>a \<in> set (a # as). \<forall>b. base_arity (pred a) = Some b \<longrightarrow> length (args a) = b)"
  proof (rule iffI, goal_cases)
    case 1
    then obtain ar where ok: ?ok and bs: "\<forall>a \<in> set as. \<forall>b. base_arity (pred a) = Some b \<longrightarrow> length (args a) = b"
      and ar: "\<forall>n k. (seen(pred a \<mapsto> length (args a))) n = Some k \<longrightarrow> ar n = k"
        "\<forall>a \<in> set as. length (args a) = ar (pred a)" by blast
    have "ar (pred a) = length (args a)" using ar(1) by simp
    moreover have "ar n = k" if "seen n = Some k" for n k
      using ar(1) ok that by (cases "n = pred a") auto
    ultimately have "(\<forall>n k. seen n = Some k \<longrightarrow> ar n = k) \<and> (\<forall>a \<in> set (a # as). length (args a) = ar (pred a))"
      using ar(2) by simp
    moreover have "\<forall>c \<in> set (a # as). \<forall>b. base_arity (pred c) = Some b \<longrightarrow> length (args c) = b"
      using ok bs by simp
    ultimately show ?case by blast
  next
    case 2
    then obtain ar where ar: "\<forall>n k. seen n = Some k \<longrightarrow> ar n = k"
      "\<forall>a \<in> set (a # as). length (args a) = ar (pred a)"
      and bs: "\<forall>a \<in> set (a # as). \<forall>b. base_arity (pred a) = Some b \<longrightarrow> length (args a) = b" by blast
    have "\<forall>n k. (seen(pred a \<mapsto> length (args a))) n = Some k \<longrightarrow> ar n = k"
      using ar by simp
    moreover have ?ok using ar bs by simp
    moreover have "\<forall>c \<in> set as. length (args c) = ar (pred c)" using ar(2) by simp
    moreover have "\<forall>c \<in> set as. \<forall>b. base_arity (pred c) = Some b \<longrightarrow> length (args c) = b"
      using bs by simp
    ultimately show ?case by blast
  qed
  finally show ?case .
qed

lemma set_all_atoms: "set (all_atoms p) = program_atoms p"
  by (auto simp: all_atoms_def program_atoms_def body_atoms_eq)

lemma base_arity_cases:
  "base_arity n = Some b \<longleftrightarrow> n = ''node'' \<and> b = 2 \<or> n = ''edge'' \<and> b = 3 \<or> n = ''prop'' \<and> b = 3"
  by (cases "n \<in> {''node'', ''edge'', ''prop''}") (auto simp: base_arity_None)

lemma check_arities_iff:
  "check_arities p = Inr u \<longleftrightarrow>
     (\<exists>ar. ar ''node'' = 2 \<and> ar ''edge'' = 3 \<and> ar ''prop'' = 3 \<and>
        (\<forall>a \<in> program_atoms p. length (args a) = ar (pred a)))"
    (is "_ \<longleftrightarrow> ?R")
proof -
  have "check_arities p = Inr u \<longleftrightarrow> (\<exists>s. foldE check_arity Map.empty (all_atoms p) = Inr s)"
    by (auto simp: check_arities_def)
  also have "\<dots> \<longleftrightarrow> (\<exists>ar. \<forall>a \<in> program_atoms p. length (args a) = ar (pred a))
     \<and> (\<forall>a \<in> program_atoms p. \<forall>b. base_arity (pred a) = Some b \<longrightarrow> length (args a) = b)"
    by (simp add: check_arity_fold set_all_atoms)
  also have "\<dots> \<longleftrightarrow> ?R"
  proof
    assume L: "(\<exists>ar. \<forall>a \<in> program_atoms p. length (args a) = ar (pred a))
     \<and> (\<forall>a \<in> program_atoms p. \<forall>b. base_arity (pred a) = Some b \<longrightarrow> length (args a) = b)"
    then obtain ar where ar: "\<forall>a \<in> program_atoms p. length (args a) = ar (pred a)" by blast
    let ?ar = "\<lambda>n. case base_arity n of Some b \<Rightarrow> b | None \<Rightarrow> ar n"
    have "\<forall>a \<in> program_atoms p. length (args a) = ?ar (pred a)"
      using L ar by (auto split: option.splits)
    then show ?R by (intro exI[of _ ?ar]) simp
  next
    assume ?R
    then show "(\<exists>ar. \<forall>a \<in> program_atoms p. length (args a) = ar (pred a))
     \<and> (\<forall>a \<in> program_atoms p. \<forall>b. base_arity (pred a) = Some b \<longrightarrow> length (args a) = b)"
      by (auto simp: base_arity_cases)
  qed
  finally show ?thesis .
qed

lemma check_known_iff:
  "check_known_predicates p = Inr u \<longleftrightarrow>
     (\<forall>b \<in> insert (q_body (goal p)) (body ` set (rules p)). \<forall>a \<in> set (atoms_of b).
        pred a \<in> {''node'', ''edge'', ''prop''} \<union> head_preds p)"
  by (auto simp: check_known_predicates_def check_known_body_def known_preds_def body_atoms_eq head_preds_def)

lemma check_cmp_vars_iff:
  "check_cmp_vars b bound ctx = Inr u \<longleftrightarrow> cmp_vars b \<subseteq> set bound"
proof -
  have "check_cmp_vars b bound ctx = Inr u \<longleftrightarrow>
      (\<forall>(op, l, r) \<in> set (cmps_of b). \<forall>v. Var v = l \<or> Var v = r \<longrightarrow> v \<in> set bound)"
    by (auto simp: check_cmp_vars_def split_body_eq split: trm.splits)
  then show ?thesis by (fastforce simp: cmp_vars_def)
qed

lemma check_range_rule_iff: "check_range_rule r = Inr u \<longleftrightarrow> safe_rule r"
  by (auto simp: check_range_rule_def safe_rule_def set_positive_body_vars set_atom_vars
      check_cmp_vars_iff Let_def)

lemma check_ok_iff: "check p = Inr u \<longleftrightarrow> well_formed p"
  by (auto simp: check_def well_formed_def check_size_iff check_reserved_iff check_arities_iff
      check_known_iff check_range_restriction_def check_range_rule_iff check_cmp_vars_iff
      set_positive_body_vars simp del: insert_iff Un_iff)

text \<open>Unfolded for closed runs.\<close>

declare MAX_RULES_def [run] MAX_BODY_LITERALS_def [run] MAX_TOTAL_LITERALS_def [run]
  verr_def [run] atom_vars_def [run] positive_body_vars_def [run] check_size_def [run]
  check_reserved_heads_def [run] all_atoms_def [run] check_arity_def [run]
  check_arities_def [run] known_preds_def [run] check_known_body_def [run]
  check_known_predicates_def [run] check_cmp_vars_def [run] check_range_rule_def [run]
  check_range_restriction_def [run] check_def [run] parse_def [run] validate_def [run]

end
