(* ===== verification/Logic_Eval.thy ===== *)
theory Logic_Eval
  imports Logic_Validate
begin

text \<open>
  The bottom-up semi-naive evaluator, \<open>crates/catalerum-logic/src/eval.rs\<close>. A hash map from
  predicate names to hash sets of tuples is an association list of duplicate-free lists;
  Rust leaves the iteration order of both open and the model takes insertion order, which
  only the order of the result rows can show. A binding is a partial map. The clock the
  deadline is compared with is a parameter: \<open>clock k\<close> is the reading of \<open>Instant::now()\<close>
  in round \<open>k\<close>.
\<close>

section \<open>Facts and limits\<close>

type_synonym tuple = "val list"
type_synonym db = "(string \<times> tuple list) list"
type_synonym binding = "string \<rightharpoonup> val"

definition facts_new :: db where
  "facts_new = []"

definition facts_add :: "string \<Rightarrow> tuple \<Rightarrow> db \<Rightarrow> db" where
  "facts_add n t f =
     AList.update n (hs_insert t (case map_of f n of None \<Rightarrow> [] | Some ts \<Rightarrow> ts)) f"

definition facts_node :: "string \<Rightarrow> string \<Rightarrow> db \<Rightarrow> db" where
  "facts_node i label f = facts_add ''node'' [i, label] f"

definition facts_edge :: "string \<Rightarrow> string \<Rightarrow> string \<Rightarrow> db \<Rightarrow> db" where
  "facts_edge a etype b f = facts_add ''edge'' [a, etype, b] f"

definition facts_prop :: "string \<Rightarrow> string \<Rightarrow> string \<Rightarrow> db \<Rightarrow> db" where
  "facts_prop i key value f = facts_add ''prop'' [i, key, value] f"

definition facts_len :: "db \<Rightarrow> nat" where
  "facts_len f = sum_list (map (length \<circ> snd) f)"

definition facts_is_empty :: "db \<Rightarrow> bool" where
  "facts_is_empty f = list_all (\<lambda>kv. snd kv = []) f"

record limits =
  max_facts :: nat
  max_derived :: nat
  max_iterations :: nat
  deadline :: "nat option"

definition default_limits :: limits where
  "default_limits =
     \<lparr>max_facts = 1000000, max_derived = 500000, max_iterations = 1000, deadline = None\<rparr>"

record eval_output =
  out_columns :: "string list"
  out_rows :: "string list list"

section \<open>Comparisons\<close>

definition compare_ord :: "val \<Rightarrow> val \<Rightarrow> ordering" where
  "compare_ord l r =
     (case (parse_f64 l, parse_f64 r) of
        (Some a, Some b) \<Rightarrow> (case f64_cmp a b of Some oo \<Rightarrow> oo | None \<Rightarrow> Equal)
      | _ \<Rightarrow> str_cmp l r)"

fun holds_cmp :: "cmp_op \<Rightarrow> val \<Rightarrow> val \<Rightarrow> bool" where
  "holds_cmp Eq l r = (l = r)"
| "holds_cmp Ne l r = (l \<noteq> r)"
| "holds_cmp IEq l r = eq_ignore_ascii_case l r"
| "holds_cmp Like l r = str_contains (to_lowercase l) (to_lowercase r)"
| "holds_cmp Lt l r = (compare_ord l r = Less)"
| "holds_cmp Le l r = (compare_ord l r \<noteq> Greater)"
| "holds_cmp Gt l r = (compare_ord l r = Greater)"
| "holds_cmp Ge l r = (compare_ord l r \<noteq> Less)"

definition sat_cmp :: "cmp_op \<Rightarrow> val option \<Rightarrow> val option \<Rightarrow> bool" where
  "sat_cmp op l r = (case (l, r) of (Some x, Some y) \<Rightarrow> holds_cmp op x y | _ \<Rightarrow> False)"

fun resolve :: "trm \<Rightarrow> binding \<Rightarrow> val option" where
  "resolve (Const c) b = Some c"
| "resolve (Var v) b = b v"

definition cmps_hold :: "(cmp_op \<times> trm \<times> trm) list \<Rightarrow> binding \<Rightarrow> bool" where
  "cmps_hold cs b = list_all (\<lambda>(op, l, r). sat_cmp op (resolve l b) (resolve r b)) cs"

section \<open>Joins\<close>

fun unify_loop :: "trm list \<Rightarrow> tuple \<Rightarrow> binding \<Rightarrow> binding option" where
  "unify_loop (Const c # as) (v # vs) b = (if c \<noteq> v then None else unify_loop as vs b)"
| "unify_loop (Var x # as) (v # vs) b =
     (case b x of
        Some e \<Rightarrow> if e \<noteq> v then None else unify_loop as vs b
      | None \<Rightarrow> unify_loop as vs (b(x \<mapsto> v)))"
| "unify_loop _ _ b = Some b"

definition unify :: "trm list \<Rightarrow> tuple \<Rightarrow> binding \<Rightarrow> binding option" where
  "unify as t b = (if length as \<noteq> length t then None else unify_loop as t b)"

text \<open>The two nested loops over the bindings so far and the tuples of the relation, each push
  checked against the cap.\<close>

fun join_tuples :: "nat \<Rightarrow> trm list \<Rightarrow> binding \<Rightarrow> tuple list \<Rightarrow> binding list \<Rightarrow> lerr + binding list" where
  "join_tuples cap as b [] acc = Inr acc"
| "join_tuples cap as b (t # ts) acc =
     (case unify as t b of
        None \<Rightarrow> join_tuples cap as b ts acc
      | Some nb \<Rightarrow>
          if length (acc @ [nb]) > cap then Inl (EvalError (JoinTooLarge cap))
          else join_tuples cap as b ts (acc @ [nb]))"

fun join_bindings :: "nat \<Rightarrow> trm list \<Rightarrow> tuple list \<Rightarrow> binding list \<Rightarrow> binding list \<Rightarrow> lerr + binding list" where
  "join_bindings cap as rel [] acc = Inr acc"
| "join_bindings cap as rel (b # bs) acc =
     bindE (join_tuples cap as b rel acc) (\<lambda>acc'. join_bindings cap as rel bs acc')"

fun join_loop :: "nat \<Rightarrow> (nat \<Rightarrow> string \<Rightarrow> tuple list option) \<Rightarrow> nat \<Rightarrow> atom list \<Rightarrow> binding list
    \<Rightarrow> lerr + binding list" where
  "join_loop cap rel_at i [] bs = Inr bs"
| "join_loop cap rel_at i (a # as) bs =
     (case rel_at i (pred a) of
        None \<Rightarrow> Inr []
      | Some rel \<Rightarrow>
          bindE (join_bindings cap (args a) rel bs []) (\<lambda>acc.
            case acc of [] \<Rightarrow> Inr [] | _ \<Rightarrow> join_loop cap rel_at (i + 1) as acc))"

definition join_atoms :: "atom list \<Rightarrow> limits \<Rightarrow> (nat \<Rightarrow> string \<Rightarrow> tuple list option) \<Rightarrow> lerr + binding list" where
  "join_atoms as lm rel_at = join_loop (max_derived lm) rel_at 0 as [Map.empty]"

section \<open>Deriving head tuples\<close>

definition rel_full :: "string \<Rightarrow> db \<Rightarrow> db \<Rightarrow> tuple list option" where
  "rel_full n edb idb = (case map_of idb n of Some ts \<Rightarrow> Some ts | None \<Rightarrow> map_of edb n)"

fun head_value :: "binding \<Rightarrow> trm \<Rightarrow> val" where
  "head_value b (Const c) = c"
| "head_value b (Var v) = (case b v of Some x \<Rightarrow> x | None \<Rightarrow> [])"

definition head_tuples :: "atom \<Rightarrow> binding list \<Rightarrow> (cmp_op \<times> trm \<times> trm) list \<Rightarrow> tuple list" where
  "head_tuples h bs cs = map (\<lambda>b. map (head_value b) (args h)) (filter (cmps_hold cs) bs)"

definition derive_full :: "rule \<Rightarrow> db \<Rightarrow> db \<Rightarrow> limits \<Rightarrow> lerr + tuple list" where
  "derive_full r edb idb lm =
     (case split_body (body r) of (as, cs) \<Rightarrow>
        bindE (join_atoms as lm (\<lambda>_ n. rel_full n edb idb)) (\<lambda>bs. Inr (head_tuples (head r) bs cs)))"

definition derive_delta :: "rule \<Rightarrow> db \<Rightarrow> db \<Rightarrow> db \<Rightarrow> limits \<Rightarrow> lerr + tuple list" where
  "derive_delta r edb idb delta lm =
     (case split_body (body r) of (as, cs) \<Rightarrow>
        foldE (\<lambda>out j.
            bindE (join_atoms as lm (\<lambda>i n. if i = j then map_of delta n else rel_full n edb idb)) (\<lambda>bs.
              Inr (out @ head_tuples (head r) bs cs)))
          [] (filter (\<lambda>i. map_of idb (pred (as ! i)) \<noteq> None) [0..<length as]))"

section \<open>The fixpoint loop\<close>

record eval_state =
  es_idb :: db
  es_delta :: db
  es_derived :: nat

definition add_tuple :: "limits \<Rightarrow> string \<Rightarrow> eval_state \<Rightarrow> tuple \<Rightarrow> lerr + eval_state" where
  "add_tuple lm n st t =
     (case map_of (es_idb st) n of
        None \<Rightarrow> Inl Panic
      | Some ts \<Rightarrow>
          if t \<in> set ts then Inr st
          else if es_derived st + 1 > max_derived lm then Inl (EvalError (DerivedBudget (max_derived lm)))
          else (case map_of (es_delta st) n of
                  None \<Rightarrow> Inl Panic
                | Some ds \<Rightarrow>
                    Inr \<lparr>es_idb = AList.update n (hs_insert t ts) (es_idb st),
                         es_delta = AList.update n (hs_insert t ds) (es_delta st),
                         es_derived = es_derived st + 1\<rparr>))"

definition check_deadline :: "limits \<Rightarrow> nat \<Rightarrow> lerr + unit" where
  "check_deadline lm now =
     (case deadline lm of
        Some dl \<Rightarrow> guardE (\<not> dl \<le> now) (EvalError DeadlineExceeded)
      | None \<Rightarrow> Inr ())"

definition empty_rels :: "program \<Rightarrow> db" where
  "empty_rels p = map (\<lambda>n. (n, [])) (remdups (map (pred \<circ> head) (rules p)))"

definition apply_rule :: "(rule \<Rightarrow> db \<Rightarrow> lerr + tuple list) \<Rightarrow> limits \<Rightarrow> eval_state \<Rightarrow> rule \<Rightarrow> lerr + eval_state" where
  "apply_rule derive lm st r =
     bindE (derive r (es_idb st)) (\<lambda>ts. foldE (add_tuple lm (pred (head r))) st ts)"

definition seed_round :: "program \<Rightarrow> db \<Rightarrow> limits \<Rightarrow> lerr + eval_state" where
  "seed_round p edb lm =
     foldE (apply_rule (\<lambda>r idb. derive_full r edb idb lm) lm)
       \<lparr>es_idb = empty_rels p, es_delta = empty_rels p, es_derived = 0\<rparr> (rules p)"

definition delta_round :: "program \<Rightarrow> db \<Rightarrow> limits \<Rightarrow> eval_state \<Rightarrow> lerr + eval_state" where
  "delta_round p edb lm st =
     foldE (apply_rule (\<lambda>r idb. derive_delta r edb idb (es_delta st) lm) lm)
       (st\<lparr>es_delta := empty_rels p\<rparr>) (rules p)"

function fixpoint_loop :: "program \<Rightarrow> db \<Rightarrow> limits \<Rightarrow> (nat \<Rightarrow> nat) \<Rightarrow> nat \<Rightarrow> eval_state \<Rightarrow> lerr + eval_state" where
  "fixpoint_loop p edb lm clock n st =
     (if facts_is_empty (es_delta st) then Inr st
      else if n + 1 > max_iterations lm then Inl (EvalError (IterationBudget (max_iterations lm)))
      else bindE (check_deadline lm (clock (n + 1))) (\<lambda>_.
           bindE (delta_round p edb lm st) (\<lambda>st'. fixpoint_loop p edb lm clock (n + 1) st')))"
  by pat_completeness auto
termination
  by (relation "measure (\<lambda>(p, edb, lm, clock, n, st). max_iterations lm - n)") auto

declare fixpoint_loop.simps [simp del]

definition query_row :: "string list \<Rightarrow> binding \<Rightarrow> string list" where
  "query_row cols b = map (\<lambda>c. case b c of Some x \<Rightarrow> x | None \<Rightarrow> []) cols"

definition query_rows :: "query \<Rightarrow> binding list \<Rightarrow> string list list" where
  "query_rows q bs =
     foldl (\<lambda>rows b. if cmps_hold (snd (split_body (q_body q))) b
                     then hs_insert (query_row (columns q) b) rows else rows) [] bs"

definition eval :: "program \<Rightarrow> db \<Rightarrow> limits \<Rightarrow> (nat \<Rightarrow> nat) \<Rightarrow> lerr + eval_output" where
  "eval p facts lm clock =
     bindE (guardE (\<not> facts_len facts > max_facts lm) (EvalError (TooManyFacts (facts_len facts) (max_facts lm)))) (\<lambda>_.
     bindE (seed_round p facts lm) (\<lambda>st0.
     bindE (fixpoint_loop p facts lm clock 0 st0) (\<lambda>st.
     bindE (join_atoms (fst (split_body (q_body (goal p)))) lm (\<lambda>_ n. rel_full n facts (es_idb st))) (\<lambda>bs.
       Inr \<lparr>out_columns = columns (goal p), out_rows = query_rows (goal p) bs\<rparr>))))"

text \<open>Unfolded for closed runs.\<close>

declare facts_new_def [run] facts_add_def [run] facts_node_def [run] facts_edge_def [run]
  facts_prop_def [run] facts_len_def [run] facts_is_empty_def [run] default_limits_def [run]
  sat_cmp_def [run] cmps_hold_def [run] unify_def [run] join_atoms_def [run] rel_full_def [run]
  head_tuples_def [run] derive_full_def [run] derive_delta_def [run] add_tuple_def [run]
  check_deadline_def [run] empty_rels_def [run] apply_rule_def [run] seed_round_def [run]
  delta_round_def [run] fixpoint_loop.simps [run] query_row_def [run] query_rows_def [run]
  eval_def [run]

end
