(* ===== verification/Logic_Join.thy ===== *)
theory Logic_Join
  imports Logic_Eval
begin

text \<open>
  The join against its meaning: a list of bindings is read through total valuations, and
  \<open>join_atoms\<close> returns exactly the ways to satisfy the atoms, when it returns.
\<close>

section \<open>Valuations\<close>

type_synonym valuation = "string \<Rightarrow> val"

fun eval_term :: "valuation \<Rightarrow> trm \<Rightarrow> val" where
  "eval_term \<sigma> (Var v) = \<sigma> v"
| "eval_term \<sigma> (Const c) = c"

definition tv :: "binding \<Rightarrow> valuation" where
  "tv b = (\<lambda>v. case b v of Some x \<Rightarrow> x | None \<Rightarrow> [])"

definition consistent :: "binding \<Rightarrow> valuation \<Rightarrow> bool" where
  "consistent b \<sigma> \<longleftrightarrow> (\<forall>v x. b v = Some x \<longrightarrow> \<sigma> v = x)"

definition vars_of :: "trm list \<Rightarrow> string set" where
  "vars_of ts = {v. Var v \<in> set ts}"

lemma vars_of_simps [simp]:
  "vars_of [] = {}" "vars_of (Var v # ts) = insert v (vars_of ts)" "vars_of (Const c # ts) = vars_of ts"
  by (auto simp: vars_of_def)

lemma head_value_tv: "head_value b = eval_term (tv b)"
  by (rule ext, case_tac x) (auto simp: tv_def)

lemma consistent_tv [simp]: "consistent b (tv b)"
  by (simp add: consistent_def tv_def)

lemma consistent_empty [simp]: "consistent Map.empty \<sigma>"
  by (simp add: consistent_def)

lemma consistent_map_le: "map_le b b' \<Longrightarrow> consistent b' \<sigma> \<Longrightarrow> consistent b \<sigma>"
  by (auto simp: consistent_def map_le_def dom_def)

lemma consistent_agree:
  assumes "consistent b \<sigma>" "vars_of ts \<subseteq> dom b" "t \<in> set ts"
  shows "eval_term \<sigma> t = eval_term (tv b) t"
  using assms by (cases t) (auto simp: consistent_def tv_def vars_of_def)

lemma consistent_agree_map:
  "consistent b \<sigma> \<Longrightarrow> vars_of ts \<subseteq> dom b \<Longrightarrow> map (eval_term \<sigma>) ts = map (eval_term (tv b)) ts"
  by (simp add: consistent_agree)

lemma resolve_bound: "vars_of [t] \<subseteq> dom b \<Longrightarrow> resolve t b = Some (eval_term (tv b) t)"
  by (cases t) (auto simp: tv_def)

definition cmps_true :: "(cmp_op \<times> trm \<times> trm) list \<Rightarrow> valuation \<Rightarrow> bool" where
  "cmps_true cs \<sigma> \<longleftrightarrow> (\<forall>(op, l, r) \<in> set cs. holds_cmp op (eval_term \<sigma> l) (eval_term \<sigma> r))"

lemma cmps_hold_iff:
  assumes "consistent b \<sigma>" "\<forall>(op, l, r) \<in> set cs. vars_of [l, r] \<subseteq> dom b"
  shows "cmps_hold cs b \<longleftrightarrow> cmps_true cs \<sigma>"
proof -
  have "sat_cmp op (resolve l b) (resolve r b) = holds_cmp op (eval_term \<sigma> l) (eval_term \<sigma> r)"
    if "(op, l, r) \<in> set cs" for op l r
  proof -
    have v: "vars_of [l] \<subseteq> dom b" "vars_of [r] \<subseteq> dom b"
      using assms(2) that by (auto simp: vars_of_def)
    then show ?thesis
      using consistent_agree[OF assms(1) v(1), of l] consistent_agree[OF assms(1) v(2), of r]
      by (simp add: sat_cmp_def resolve_bound)
  qed
  then show ?thesis by (fastforce simp: cmps_hold_def cmps_true_def list_all_iff)
qed

section \<open>Unification\<close>

lemma map_le_upd: "b x = None \<Longrightarrow> map_le (b(x \<mapsto> v)) b' \<Longrightarrow> map_le b b' \<and> b' x = Some v"
  by (auto simp: map_le_def dom_def split: if_splits)

lemma unify_loop_sound:
  "length as = length t \<Longrightarrow> unify_loop as t b = Some b' \<Longrightarrow>
   map_le b b' \<and> vars_of as \<subseteq> dom b' \<and> map (eval_term (tv b')) as = t"
proof (induction as t b rule: unify_loop.induct)
  case (2 x as v vs b)
  show ?case
  proof (cases "b x")
    case None
    have u: "unify_loop as vs (b(x \<mapsto> v)) = Some b'" using 2(4) None by simp
    have l: "length as = length vs" using 2(3) by simp
    note ih = 2(1)[OF None l u]
    from map_le_upd[of b x v b'] None ih show ?thesis by (auto simp: tv_def)
  next
    case (Some e)
    have u: "e = v" "unify_loop as vs b = Some b'" using 2(4) Some by (auto split: if_splits)
    have l: "length as = length vs" using 2(3) by simp
    have nn: "\<not> e \<noteq> v" using u(1) by simp
    note ih = 2(2)[OF Some nn l u(2)]
    then have "b' x = Some v" using Some u(1) by (auto simp: map_le_def dom_def)
    with ih show ?thesis by (auto simp: tv_def)
  qed
qed (auto split: if_splits)

lemma unify_sound:
  "unify as t b = Some b' \<Longrightarrow>
   map_le b b' \<and> vars_of as \<subseteq> dom b' \<and> map (eval_term (tv b')) as = t"
  using unify_loop_sound by (auto simp: unify_def split: if_splits)

lemma unify_loop_complete:
  "consistent b \<sigma> \<Longrightarrow> map (eval_term \<sigma>) as = t \<Longrightarrow> \<exists>b'. unify_loop as t b = Some b' \<and> consistent b' \<sigma>"
proof (induction as t b rule: unify_loop.induct)
  case (2 x as v vs b)
  have v: "\<sigma> x = v" and rest: "map (eval_term \<sigma>) as = vs" using 2(4) by auto
  show ?case
  proof (cases "b x")
    case None
    have "consistent (b(x \<mapsto> v)) \<sigma>" using 2(3) v by (auto simp: consistent_def)
    from 2(1)[OF None this rest] show ?thesis by (simp only: unify_loop.simps None option.case)
  next
    case (Some e)
    have e: "e = v" using 2(3) v Some by (auto simp: consistent_def)
    then have nn: "\<not> e \<noteq> v" by simp
    from 2(2)[OF Some nn 2(3) rest] e show ?thesis by (simp only: unify_loop.simps Some option.case) simp
  qed
qed (auto)

lemma unify_complete:
  "consistent b \<sigma> \<Longrightarrow> map (eval_term \<sigma>) as = t \<Longrightarrow> \<exists>b'. unify as t b = Some b' \<and> consistent b' \<sigma>"
  using unify_loop_complete[of b \<sigma> as t] by (auto simp: unify_def)

section \<open>The join\<close>

text \<open>What one atom does to the bindings, without the cap.\<close>

definition extend :: "trm list \<Rightarrow> tuple list \<Rightarrow> binding list \<Rightarrow> binding list" where
  "extend as rel bs = concat (map (\<lambda>b. List.map_filter (\<lambda>t. unify as t b) rel) bs)"

lemma join_tuples_eq:
  "length acc \<le> cap \<Longrightarrow>
   join_tuples cap as b ts acc =
     (let ext = List.map_filter (\<lambda>t. unify as t b) ts
      in if length acc + length ext \<le> cap then Inr (acc @ ext) else Inl (EvalError (JoinTooLarge cap)))"
  by (induction ts arbitrary: acc) (auto simp: map_filter_simps Let_def split: option.splits)

lemma join_bindings_eq:
  "length acc \<le> cap \<Longrightarrow>
   join_bindings cap as rel bs acc =
     (if length acc + length (extend as rel bs) \<le> cap then Inr (acc @ extend as rel bs)
      else Inl (EvalError (JoinTooLarge cap)))"
proof (induction bs arbitrary: acc)
  case (Cons b bs)
  then show ?case
    by (cases "length acc + length (List.map_filter (\<lambda>t. unify as t b) rel) \<le> cap")
       (auto simp: join_tuples_eq Let_def extend_def)
qed (simp add: extend_def)

lemma set_map_filter: "set (List.map_filter f xs) = {y. \<exists>x \<in> set xs. f x = Some y}"
  by (induction xs) (auto simp: map_filter_simps split: option.splits)

lemma set_extend:
  "set (extend as rel bs) = {b'. \<exists>b \<in> set bs. \<exists>t \<in> set rel. unify as t b = Some b'}"
  by (auto simp: extend_def set_map_filter)

definition rset :: "(nat \<Rightarrow> string \<Rightarrow> tuple list option) \<Rightarrow> nat \<Rightarrow> string \<Rightarrow> tuple set" where
  "rset rel_at i n = (case rel_at i n of None \<Rightarrow> {} | Some ts \<Rightarrow> set ts)"

fun sat_at :: "(nat \<Rightarrow> string \<Rightarrow> tuple set) \<Rightarrow> nat \<Rightarrow> atom list \<Rightarrow> valuation \<Rightarrow> bool" where
  "sat_at R i [] \<sigma> = True"
| "sat_at R i (a # as) \<sigma> = (map (eval_term \<sigma>) (args a) \<in> R i (pred a) \<and> sat_at R (i + 1) as \<sigma>)"

definition atoms_vars :: "atom list \<Rightarrow> string set" where
  "atoms_vars as = (\<Union>a \<in> set as. vars_of (args a))"

lemma sat_at_nth:
  "sat_at R i as \<sigma> \<longleftrightarrow> (\<forall>k < length as. map (eval_term \<sigma>) (args (as ! k)) \<in> R (i + k) (pred (as ! k)))"
proof (induction as arbitrary: i)
  case (Cons a as)
  have "(\<forall>k < length (a # as). map (eval_term \<sigma>) (args ((a # as) ! k)) \<in> R (i + k) (pred ((a # as) ! k)))
    \<longleftrightarrow> map (eval_term \<sigma>) (args a) \<in> R i (pred a)
      \<and> (\<forall>k < length as. map (eval_term \<sigma>) (args (as ! k)) \<in> R (i + 1 + k) (pred (as ! k)))"
    by (auto simp: less_Suc_eq_0_disj)
  with Cons show ?case by simp
qed simp

lemma sat_at_uniform:
  "sat_at (\<lambda>_. M) i as \<sigma> \<longleftrightarrow> (\<forall>a \<in> set as. map (eval_term \<sigma>) (args a) \<in> M (pred a))"
  by (induction as arbitrary: i) auto

text \<open>A successful step of the loop, in two cases.\<close>

lemma join_loop_Cons:
  "join_loop cap rel_at i (a # as) bs = Inr bs' \<longleftrightarrow>
     (rel_at i (pred a) = None \<and> bs' = [])
     \<or> (\<exists>rel. rel_at i (pred a) = Some rel \<and> length (extend (args a) rel bs) \<le> cap
         \<and> (if extend (args a) rel bs = [] then bs' = []
            else join_loop cap rel_at (i + 1) as (extend (args a) rel bs) = Inr bs'))"
  by (auto simp: join_bindings_eq split: option.splits list.splits if_splits)

lemma join_loop_sound:
  "join_loop cap rel_at i as bs = Inr bs' \<Longrightarrow> b \<in> set bs' \<Longrightarrow>
   \<exists>b0 \<in> set bs. map_le b0 b \<and> atoms_vars as \<subseteq> dom b \<and> sat_at (rset rel_at) i as (tv b)"
proof (induction as arbitrary: i bs)
  case Nil
  then have "b \<in> set bs" by simp
  then show ?case by (intro bexI[of _ b]) (simp_all add: atoms_vars_def)
next
  case (Cons a as)
  then obtain rel where rel: "rel_at i (pred a) = Some rel"
    and loop: "join_loop cap rel_at (i + 1) as (extend (args a) rel bs) = Inr bs'"
    unfolding join_loop_Cons by (auto split: if_splits)
  from Cons.IH[OF loop Cons.prems(2)] obtain b1 where
    b1: "b1 \<in> set (extend (args a) rel bs)" "map_le b1 b" "atoms_vars as \<subseteq> dom b"
    "sat_at (rset rel_at) (i + 1) as (tv b)" by blast
  then obtain b0 t where b0: "b0 \<in> set bs" "t \<in> set rel" "unify (args a) t b0 = Some b1"
    by (auto simp: set_extend)
  note u = unify_sound[OF b0(3)]
  have "map (eval_term (tv b)) (args a) = t"
    using u consistent_agree_map[of b1 "tv b" "args a"] consistent_map_le[OF b1(2)] by simp
  moreover have "map_le b0 b" using u b1(2) map_le_trans by blast
  moreover have "vars_of (args a) \<subseteq> dom b" using u map_le_implies_dom_le[OF b1(2)] by blast
  ultimately have "sat_at (rset rel_at) i (a # as) (tv b)" "atoms_vars (a # as) \<subseteq> dom b"
    using b0(2) b1(3,4) rel by (simp_all add: atoms_vars_def rset_def[of _ i])
  with \<open>map_le b0 b\<close> b0(1) show ?case by blast
qed

lemma join_loop_complete:
  "join_loop cap rel_at i as bs = Inr bs' \<Longrightarrow> b0 \<in> set bs \<Longrightarrow> consistent b0 \<sigma> \<Longrightarrow>
   sat_at (rset rel_at) i as \<sigma> \<Longrightarrow> \<exists>b \<in> set bs'. consistent b \<sigma>"
proof (induction as arbitrary: i bs b0)
  case (Cons a as)
  from Cons.prems(4) obtain rel where rel: "rel_at i (pred a) = Some rel"
    and mem: "map (eval_term \<sigma>) (args a) \<in> set rel"
    by (auto simp: rset_def split: option.splits)
  obtain b1 where b1: "unify (args a) (map (eval_term \<sigma>) (args a)) b0 = Some b1" "consistent b1 \<sigma>"
    using unify_complete[OF Cons.prems(3) refl] by blast
  then have mem1: "b1 \<in> set (extend (args a) rel bs)" using mem Cons.prems(2) by (auto simp: set_extend)
  then have ne: "extend (args a) rel bs \<noteq> []" by auto
  have "join_loop cap rel_at (i + 1) as (extend (args a) rel bs) = Inr bs'"
    using Cons.prems(1) rel ne unfolding join_loop_Cons by simp
  from Cons.IH[OF this mem1 b1(2)] Cons.prems(4) show ?case by simp
qed auto

lemma join_atoms_sound:
  "join_atoms as lm rel_at = Inr bs \<Longrightarrow> b \<in> set bs \<Longrightarrow>
   atoms_vars as \<subseteq> dom b \<and> sat_at (rset rel_at) 0 as (tv b)"
  using join_loop_sound by (fastforce simp: join_atoms_def)

lemma join_atoms_complete:
  "join_atoms as lm rel_at = Inr bs \<Longrightarrow> sat_at (rset rel_at) 0 as \<sigma> \<Longrightarrow> \<exists>b \<in> set bs. consistent b \<sigma>"
  using join_loop_complete[where ?b0.0 = Map.empty] by (fastforce simp: join_atoms_def)

section \<open>Projected bindings\<close>

text \<open>
  For a safe conjunction, the bindings that pass the comparisons, read at terms whose
  variables are bound, are the satisfying valuations read there.
\<close>

lemma body_vars_eq: "body_vars b = atoms_vars (atoms_of b)"
  by (auto simp: body_vars_def atoms_vars_def vars_of_def)

lemma cmp_vars_bound:
  "cmp_vars b \<subseteq> D \<Longrightarrow> \<forall>(op, l, r) \<in> set (cmps_of b). vars_of [l, r] \<subseteq> D"
  by (fastforce simp: cmp_vars_def vars_of_def)

lemma join_projection:
  assumes bs: "join_atoms (atoms_of b) lm rel_at = Inr bs"
    and safe: "cmp_vars b \<subseteq> body_vars b" "vars_of ts \<subseteq> body_vars b"
  shows "(\<lambda>\<beta>. map (head_value \<beta>) ts) ` {\<beta> \<in> set bs. cmps_hold (cmps_of b) \<beta>}
    = {map (eval_term \<sigma>) ts | \<sigma>. sat_at (rset rel_at) 0 (atoms_of b) \<sigma> \<and> cmps_true (cmps_of b) \<sigma>}"
    (is "?L = ?R")
proof
  have dom: "body_vars b \<subseteq> dom \<beta>" if "\<beta> \<in> set bs" for \<beta>
    using join_atoms_sound[OF bs that] by (simp add: body_vars_eq)
  have cmps: "cmps_hold (cmps_of b) \<beta> \<longleftrightarrow> cmps_true (cmps_of b) \<sigma>" if "\<beta> \<in> set bs" "consistent \<beta> \<sigma>" for \<beta> \<sigma>
    using cmps_hold_iff[OF that(2) cmp_vars_bound] safe(1) dom[OF that(1)] by blast
  show "?L \<subseteq> ?R"
  proof
    fix t assume "t \<in> ?L"
    then obtain \<beta> where \<beta>: "\<beta> \<in> set bs" "cmps_hold (cmps_of b) \<beta>" "t = map (head_value \<beta>) ts" by auto
    then have "t = map (eval_term (tv \<beta>)) ts" by (simp add: head_value_tv)
    moreover have "sat_at (rset rel_at) 0 (atoms_of b) (tv \<beta>)" using join_atoms_sound[OF bs \<beta>(1)] by simp
    moreover have "cmps_true (cmps_of b) (tv \<beta>)" using cmps[OF \<beta>(1) consistent_tv] \<beta>(2) by simp
    ultimately show "t \<in> ?R" by blast
  qed
  show "?R \<subseteq> ?L"
  proof
    fix t assume "t \<in> ?R"
    then obtain \<sigma> where \<sigma>: "t = map (eval_term \<sigma>) ts" "sat_at (rset rel_at) 0 (atoms_of b) \<sigma>"
      "cmps_true (cmps_of b) \<sigma>" by blast
    then obtain \<beta> where \<beta>: "\<beta> \<in> set bs" "consistent \<beta> \<sigma>" using join_atoms_complete[OF bs] by blast
    have "t = map (head_value \<beta>) ts"
      using \<sigma>(1) consistent_agree_map[OF \<beta>(2)] safe(2) dom[OF \<beta>(1)] by (simp add: head_value_tv)
    with \<beta> cmps[OF \<beta>] \<sigma>(3) show "t \<in> ?L" by blast
  qed
qed

end
