(* ===== verification/Logic_Fixpoint.thy ===== *)
theory Logic_Fixpoint
  imports Logic_Join
begin

text \<open>
  The semi-naive rounds against the least model of the rules. A round adds exactly what
  one application of the rules to the tuples so far can add; its delta is exactly what it
  added; when a round adds nothing the relations are closed, hence the least model.
\<close>

section \<open>The least model\<close>

definition rels :: "db \<Rightarrow> string \<Rightarrow> tuple set" where
  "rels d n = (case map_of d n of None \<Rightarrow> {} | Some ts \<Rightarrow> set ts)"

definition sat_body :: "(string \<Rightarrow> tuple set) \<Rightarrow> literal list \<Rightarrow> valuation \<Rightarrow> bool" where
  "sat_body M b \<sigma> \<longleftrightarrow>
     (\<forall>a \<in> set (atoms_of b). map (eval_term \<sigma>) (args a) \<in> M (pred a)) \<and> cmps_true (cmps_of b) \<sigma>"

inductive holds :: "program \<Rightarrow> db \<Rightarrow> string \<Rightarrow> tuple \<Rightarrow> bool" for p f where
  fact: "n \<notin> head_preds p \<Longrightarrow> t \<in> rels f n \<Longrightarrow> holds p f n t"
| rule: "r \<in> set (rules p) \<Longrightarrow>
         (\<And>a. a \<in> set (atoms_of (body r)) \<Longrightarrow> holds p f (pred a) (map (eval_term \<sigma>) (args a))) \<Longrightarrow>
         cmps_true (cmps_of (body r)) \<sigma> \<Longrightarrow>
         holds p f (pred (head r)) (map (eval_term \<sigma>) (args (head r)))"

definition model :: "program \<Rightarrow> db \<Rightarrow> string \<Rightarrow> tuple set" where
  "model p f n = {t. holds p f n t}"

text \<open>The relations one round sees: derived ones first, then the given facts.\<close>

definition full :: "program \<Rightarrow> db \<Rightarrow> (string \<Rightarrow> tuple set) \<Rightarrow> string \<Rightarrow> tuple set" where
  "full p f I n = (if n \<in> head_preds p then I n else rels f n)"

definition heads :: "rule \<Rightarrow> (valuation \<Rightarrow> bool) \<Rightarrow> tuple set" where
  "heads r P = {map (eval_term \<sigma>) (args (head r)) | \<sigma>. P \<sigma>}"

definition closed :: "program \<Rightarrow> db \<Rightarrow> (string \<Rightarrow> tuple set) \<Rightarrow> (string \<Rightarrow> tuple set) \<Rightarrow> bool" where
  "closed p f I J \<longleftrightarrow>
     (\<forall>r \<in> set (rules p). heads r (sat_body (full p f I) (body r)) \<subseteq> J (pred (head r)))"

lemma heads_mono: "(\<And>\<sigma>. P \<sigma> \<Longrightarrow> Q \<sigma>) \<Longrightarrow> heads r P \<subseteq> heads r Q"
  by (auto simp: heads_def)

lemma sat_body_mono: "(\<And>n. M n \<subseteq> N n) \<Longrightarrow> sat_body M b \<sigma> \<Longrightarrow> sat_body N b \<sigma>"
  by (auto simp: sat_body_def)

lemma full_mono: "(\<And>n. I n \<subseteq> J n) \<Longrightarrow> full p f I n \<subseteq> full p f J n"
  by (auto simp: full_def)

lemma head_in_preds: "r \<in> set (rules p) \<Longrightarrow> pred (head r) \<in> head_preds p"
  by (simp add: head_preds_def)

lemma model_closed: "closed p f (model p f) (model p f)"
proof -
  have "full p f (model p f) n \<subseteq> model p f n" for n
    by (auto simp: full_def model_def intro: holds.fact)
  then have "sat_body (model p f) b \<sigma>" if "sat_body (full p f (model p f)) b \<sigma>" for b \<sigma>
    using sat_body_mono that by blast
  then show ?thesis
    by (fastforce simp: closed_def heads_def model_def sat_body_def intro: holds.rule)
qed

lemma model_least:
  assumes "closed p f I I" "holds p f n t" shows "t \<in> full p f I n"
  using assms(2)
proof (induction rule: holds.induct)
  case (fact n t)
  then show ?case by (simp add: full_def)
next
  case (rule r \<sigma>)
  then have "sat_body (full p f I) (body r) \<sigma>" by (simp add: sat_body_def)
  with assms(1) rule.hyps(1) show ?case by (auto simp: closed_def heads_def full_def head_preds_def)
qed

text \<open>Relations that are closed and sound are the model.\<close>

lemma full_eq_model:
  assumes "closed p f I I" "\<And>n. I n \<subseteq> model p f n" shows "full p f I n = model p f n"
proof
  show "full p f I n \<subseteq> model p f n" using assms(2) by (auto simp: full_def model_def intro: holds.fact)
  show "model p f n \<subseteq> full p f I n" using model_least[OF assms(1)] by (auto simp: model_def)
qed

section \<open>One rule\<close>

definition keyed :: "program \<Rightarrow> db \<Rightarrow> bool" where
  "keyed p d \<longleftrightarrow> distinct (map fst d) \<and> dom (map_of d) = head_preds p"

lemma keyed_some: "keyed p d \<Longrightarrow> n \<in> head_preds p \<Longrightarrow> \<exists>ts. map_of d n = Some ts"
  by (metis domD keyed_def)

lemma keyed_none: "keyed p d \<Longrightarrow> map_of d n = None \<longleftrightarrow> n \<notin> head_preds p"
  by (auto simp: keyed_def)

lemma keyed_update: "keyed p d \<Longrightarrow> n \<in> head_preds p \<Longrightarrow> keyed p (AList.update n ts d)"
  by (auto simp: keyed_def update_conv' distinct_update)

lemma rels_update: "rels (AList.update n ts d) = (rels d)(n := set ts)"
  by (intro ext) (simp add: rels_def update_conv')

lemma keyed_is_empty: "keyed p d \<Longrightarrow> facts_is_empty d \<longleftrightarrow> (\<forall>n. rels d n = {})"
proof -
  assume "keyed p d"
  then have "map_of d n = Some ts \<longleftrightarrow> (n, ts) \<in> set d" for n ts by (simp add: keyed_def)
  then show ?thesis
    by (fastforce simp: facts_is_empty_def list_all_iff rels_def split: option.splits)
qed

lemma rel_full_eq: "keyed p idb \<Longrightarrow> rset (\<lambda>_ n. rel_full n f idb) i n = full p f (rels idb) n"
  by (auto simp: rset_def rel_full_def full_def rels_def keyed_def split: option.splits)

lemma derive_full_set:
  assumes "derive_full r f idb lm = Inr ts" "safe_rule r" "keyed p idb"
  shows "set ts = heads r (sat_body (full p f (rels idb)) (body r))"
proof -
  from assms(1) obtain bs where bs: "join_atoms (atoms_of (body r)) lm (\<lambda>_ n. rel_full n f idb) = Inr bs"
    and ts: "ts = head_tuples (head r) bs (cmps_of (body r))"
    by (auto simp: derive_full_def split_body_eq)
  have safe: "cmp_vars (body r) \<subseteq> body_vars (body r)" "vars_of (args (head r)) \<subseteq> body_vars (body r)"
    using assms(2) by (auto simp: safe_rule_def vars_of_def)
  have R: "rset (\<lambda>_ n. rel_full n f idb) = (\<lambda>_. full p f (rels idb))"
    by (intro ext) (simp add: rel_full_eq[OF assms(3)])
  have "set ts = (\<lambda>\<beta>. map (head_value \<beta>) (args (head r))) ` {\<beta> \<in> set bs. cmps_hold (cmps_of (body r)) \<beta>}"
    by (auto simp: ts head_tuples_def)
  also have "\<dots> = {map (eval_term \<sigma>) (args (head r)) | \<sigma>.
      sat_at (\<lambda>_. full p f (rels idb)) 0 (atoms_of (body r)) \<sigma> \<and> cmps_true (cmps_of (body r)) \<sigma>}"
    using join_projection[OF bs safe] by (simp only: R)
  finally show ?thesis by (simp add: heads_def sat_body_def sat_at_uniform)
qed

text \<open>The valuations a delta pass adds: satisfying ones with a derived atom in the delta.\<close>

definition touches :: "program \<Rightarrow> db \<Rightarrow> literal list \<Rightarrow> valuation \<Rightarrow> bool" where
  "touches p delta b \<sigma> \<longleftrightarrow>
     (\<exists>a \<in> set (atoms_of b). pred a \<in> head_preds p \<and> map (eval_term \<sigma>) (args a) \<in> rels delta (pred a))"

lemma foldE_collect:
  "foldE (\<lambda>out j. bindE (g j) (\<lambda>bs. Inr (out @ h bs))) out js = Inr ts \<Longrightarrow>
   (\<forall>j \<in> set js. \<exists>bs. g j = Inr bs) \<and> set ts = set out \<union> (\<Union>j \<in> set js. \<Union>bs \<in> {bs. g j = Inr bs}. set (h bs))"
  by (induction js arbitrary: out) auto

lemma all_one_exception:
  assumes "j < n" "A j \<Longrightarrow> B j"
  shows "(\<forall>k < n. if k = j then A k else B k) \<longleftrightarrow> (\<forall>k < n. B k) \<and> A (j :: nat)"
  using assms by metis

lemma ex_filtered_nth:
  "(\<exists>j \<in> {j. j < length xs \<and> Q (xs ! j)}. R (xs ! j)) \<longleftrightarrow> (\<exists>a \<in> set xs. Q a \<and> R a)"
  using nth_mem by (fastforce simp: in_set_conv_nth)

lemma heads_UN: "(\<Union>j \<in> J. heads r (\<lambda>\<sigma>. P \<sigma> \<and> Q j \<sigma>)) = heads r (\<lambda>\<sigma>. P \<sigma> \<and> (\<exists>j \<in> J. Q j \<sigma>))"
  by (auto simp: heads_def)

lemma delta_position:
  assumes "keyed p idb" "keyed p delta" "\<And>n. rels delta n \<subseteq> rels idb n" "j < length as"
    "pred (as ! j) \<in> head_preds p"
  shows "sat_at (rset (\<lambda>i n. if i = j then map_of delta n else rel_full n f idb)) 0 as \<sigma> \<longleftrightarrow>
    (\<forall>a \<in> set as. map (eval_term \<sigma>) (args a) \<in> full p f (rels idb) (pred a))
    \<and> map (eval_term \<sigma>) (args (as ! j)) \<in> rels delta (pred (as ! j))"
proof -
  have "rset (\<lambda>i n. if i = j then map_of delta n else rel_full n f idb) i n
      = (if i = j then rels delta n else full p f (rels idb) n)" for i n
    using rel_full_eq[OF assms(1), of f i n] by (auto simp: rset_def rels_def)
  then have "sat_at (rset (\<lambda>i n. if i = j then map_of delta n else rel_full n f idb)) 0 as \<sigma> \<longleftrightarrow>
      (\<forall>k < length as. if k = j then map (eval_term \<sigma>) (args (as ! k)) \<in> rels delta (pred (as ! k))
         else map (eval_term \<sigma>) (args (as ! k)) \<in> full p f (rels idb) (pred (as ! k)))"
    by (auto simp: sat_at_nth)
  also have "\<dots> \<longleftrightarrow> (\<forall>k < length as. map (eval_term \<sigma>) (args (as ! k)) \<in> full p f (rels idb) (pred (as ! k)))
      \<and> map (eval_term \<sigma>) (args (as ! j)) \<in> rels delta (pred (as ! j))"
    using assms(3,5) by (intro all_one_exception[OF assms(4)]) (auto simp: full_def)
  finally show ?thesis by (simp only: all_set_conv_all_nth)
qed

lemma derive_delta_set:
  assumes "derive_delta r f idb delta lm = Inr ts" "safe_rule r"
    and "keyed p idb" "keyed p delta" "\<And>n. rels delta n \<subseteq> rels idb n"
  shows "set ts = heads r (\<lambda>\<sigma>. sat_body (full p f (rels idb)) (body r) \<sigma> \<and> touches p delta (body r) \<sigma>)"
proof -
  let ?as = "atoms_of (body r)"
  let ?js = "filter (\<lambda>i. map_of idb (pred (?as ! i)) \<noteq> None) [0..<length ?as]"
  let ?g = "\<lambda>j. join_atoms ?as lm (\<lambda>i n. if i = j then map_of delta n else rel_full n f idb)"
  let ?h = "\<lambda>bs. head_tuples (head r) bs (cmps_of (body r))"
  let ?D = "\<lambda>j \<sigma>. map (eval_term \<sigma>) (args (?as ! j)) \<in> rels delta (pred (?as ! j))"
  have col: "\<forall>j \<in> set ?js. \<exists>bs. ?g j = Inr bs"
    "set ts = (\<Union>j \<in> set ?js. \<Union>bs \<in> {bs. ?g j = Inr bs}. set (?h bs))"
    using foldE_collect[of ?g ?h "[]" ?js ts] assms(1) by (simp_all add: derive_delta_def split_body_eq)
  have js: "set ?js = {j. j < length ?as \<and> pred (?as ! j) \<in> head_preds p}"
    using keyed_none[OF assms(3)] by auto
  have safe: "cmp_vars (body r) \<subseteq> body_vars (body r)" "vars_of (args (head r)) \<subseteq> body_vars (body r)"
    using assms(2) by (auto simp: safe_rule_def vars_of_def)
  have one: "set (?h bs) = heads r (\<lambda>\<sigma>. sat_body (full p f (rels idb)) (body r) \<sigma> \<and> ?D j \<sigma>)"
    if j: "j \<in> set ?js" and bs: "?g j = Inr bs" for j bs
  proof -
    have jj: "j < length ?as" "pred (?as ! j) \<in> head_preds p" using j js by auto
    have "set (?h bs) = (\<lambda>\<beta>. map (head_value \<beta>) (args (head r))) ` {\<beta> \<in> set bs. cmps_hold (cmps_of (body r)) \<beta>}"
      by (auto simp: head_tuples_def)
    with join_projection[OF bs safe] delta_position[OF assms(3-5) jj, of f] show ?thesis
      by (auto simp: heads_def sat_body_def)
  qed
  have "set ts = (\<Union>j \<in> set ?js. heads r (\<lambda>\<sigma>. sat_body (full p f (rels idb)) (body r) \<sigma> \<and> ?D j \<sigma>))"
  proof -
    have "(\<Union>bs \<in> {bs. ?g j = Inr bs}. set (?h bs))
        = heads r (\<lambda>\<sigma>. sat_body (full p f (rels idb)) (body r) \<sigma> \<and> ?D j \<sigma>)" if "j \<in> set ?js" for j
    proof -
      from col(1) that obtain bs where bs: "?g j = Inr bs" by blast
      then have "{bs. ?g j = Inr bs} = {bs}" by auto
      with one[OF that bs] show ?thesis by simp
    qed
    then show ?thesis unfolding col(2) by (rule SUP_cong[OF refl])
  qed
  also have "\<dots> = heads r (\<lambda>\<sigma>. sat_body (full p f (rels idb)) (body r) \<sigma> \<and> (\<exists>j \<in> set ?js. ?D j \<sigma>))"
    by (rule heads_UN)
  also have "(\<lambda>\<sigma>. \<exists>j \<in> set ?js. ?D j \<sigma>) = touches p delta (body r)"
    unfolding js touches_def by (intro ext) (rule ex_filtered_nth)
  finally show ?thesis by (simp add: fun_eq_iff)
qed

end
