(* ===== verification/Logic_Rounds.thy ===== *)
theory Logic_Rounds
  imports Logic_Fixpoint
begin

text \<open>
  Rounds of the fixpoint loop: what adding tuples, applying a rule and a whole round do to
  the relations and to the delta, the loop invariant, and the loop's exit.
\<close>

section \<open>Adding tuples\<close>

definition st_ok :: "program \<Rightarrow> eval_state \<Rightarrow> bool" where
  "st_ok p st \<longleftrightarrow> keyed p (es_idb st) \<and> keyed p (es_delta st)
     \<and> (\<forall>n. rels (es_delta st) n \<subseteq> rels (es_idb st) n)"

text \<open>From one state to a later one of the same round: relations grow, and the delta
  collects exactly what was new.\<close>

definition grow :: "eval_state \<Rightarrow> eval_state \<Rightarrow> bool" where
  "grow st st' \<longleftrightarrow>
     (\<forall>n. rels (es_idb st) n \<subseteq> rels (es_idb st') n
        \<and> rels (es_delta st') n = rels (es_delta st) n \<union> (rels (es_idb st') n - rels (es_idb st) n))"

lemma grow_refl [simp]: "grow st st"
  by (simp add: grow_def)

lemma grow_trans: "grow a b \<Longrightarrow> grow b c \<Longrightarrow> grow a c"
  unfolding grow_def by (intro allI conjI) (blast+)

lemma grow_sub: "grow a b \<Longrightarrow> rels (es_idb a) n \<subseteq> rels (es_idb b) n"
  by (simp add: grow_def)

lemma add_tuple_effect:
  assumes "add_tuple lm n st t = Inr st'" "st_ok p st" "n \<in> head_preds p"
  shows "st_ok p st' \<and> grow st st' \<and>
    rels (es_idb st') = (rels (es_idb st))(n := insert t (rels (es_idb st) n))"
proof -
  obtain ts ds where ts: "map_of (es_idb st) n = Some ts" and ds: "map_of (es_delta st) n = Some ds"
    using keyed_some assms(2,3) by (meson st_ok_def)
  show ?thesis
  proof (cases "t \<in> set ts")
    case True
    then have "st' = st" using assms(1) ts by (simp add: add_tuple_def)
    moreover have "insert t (rels (es_idb st) n) = rels (es_idb st) n" using True ts by (auto simp: rels_def)
    ultimately show ?thesis using assms(2) by simp
  next
    case False
    then have st': "st' = \<lparr>es_idb = AList.update n (hs_insert t ts) (es_idb st),
                         es_delta = AList.update n (hs_insert t ds) (es_delta st),
                         es_derived = es_derived st + 1\<rparr>"
      using assms(1) ts ds by (simp add: add_tuple_def split: if_splits)
    have r: "rels (es_idb st) n = set ts" "rels (es_delta st) n = set ds" using ts ds by (simp_all add: rels_def)
    have R: "rels (es_idb st') = (rels (es_idb st))(n := insert t (rels (es_idb st) n))"
      "rels (es_delta st') = (rels (es_delta st))(n := insert t (rels (es_delta st) n))"
      using r by (simp_all add: st' rels_update)
    moreover have "grow st st'" unfolding grow_def R using False r assms(2) by (auto simp: st_ok_def)
    moreover have "st_ok p st'"
      unfolding st_ok_def R using assms(2,3) by (auto simp: st_ok_def st' keyed_update)
    ultimately show ?thesis by simp
  qed
qed

lemma add_tuples_effect:
  "foldE (add_tuple lm n) st ts = Inr st' \<Longrightarrow> st_ok p st \<Longrightarrow> n \<in> head_preds p \<Longrightarrow>
   st_ok p st' \<and> grow st st' \<and> rels (es_idb st') = (rels (es_idb st))(n := rels (es_idb st) n \<union> set ts)"
proof (induction ts arbitrary: st)
  case (Cons t ts)
  from Cons.prems(1) obtain s1 where s1: "add_tuple lm n st t = Inr s1"
    and rest: "foldE (add_tuple lm n) s1 ts = Inr st'" by auto
  note e = add_tuple_effect[OF s1 Cons.prems(2,3)]
  then have ih: "st_ok p st' \<and> grow s1 st' \<and> rels (es_idb st') = (rels (es_idb s1))(n := rels (es_idb s1) n \<union> set ts)"
    using Cons.IH[OF rest] Cons.prems(3) by blast
  have "rels (es_idb st') = (rels (es_idb st))(n := rels (es_idb st) n \<union> set (t # ts))"
    using ih e by simp
  with ih e show ?case using grow_trans by blast
qed simp

lemma apply_rule_effect:
  assumes "apply_rule derive lm st r = Inr st'" "st_ok p st" "r \<in> set (rules p)"
  obtains ts where "derive r (es_idb st) = Inr ts" "st_ok p st'" "grow st st'"
    "rels (es_idb st') = (rels (es_idb st))(pred (head r) := rels (es_idb st) (pred (head r)) \<union> set ts)"
  using assms add_tuples_effect[OF _ assms(2) head_in_preds[OF assms(3)]]
  by (auto simp: apply_rule_def)

section \<open>A round\<close>

text \<open>
  A round applies every rule; \<open>Dv r I\<close> stands for the set of head tuples its derivation
  yields when the relations are \<open>I\<close>.
\<close>

lemma round_effect:
  assumes "foldE (apply_rule derive lm) st rs = Inr st'" "st_ok p st" "set rs \<subseteq> set (rules p)"
    and inv: "Q st"
    and Q: "\<And>s s' r. r \<in> set rs \<Longrightarrow> st_ok p s \<Longrightarrow> Q s \<Longrightarrow> apply_rule derive lm s r = Inr s' \<Longrightarrow> Q s'"
    and D: "\<And>s r ts. r \<in> set rs \<Longrightarrow> st_ok p s \<Longrightarrow> Q s \<Longrightarrow> derive r (es_idb s) = Inr ts \<Longrightarrow>
              set ts = Dv r (rels (es_idb s))"
    and sound: "\<And>(s :: eval_state) r. r \<in> set rs \<Longrightarrow> (\<And>n. rels (es_idb s) n \<subseteq> M n) \<Longrightarrow>
              Dv r (rels (es_idb s)) \<subseteq> M (pred (head r))"
    and mono: "\<And>r I J. (\<And>n. I n \<subseteq> J n) \<Longrightarrow> Dv r I \<subseteq> Dv r J"
  shows "st_ok p st' \<and> grow st st' \<and> Q st'
    \<and> (\<forall>r \<in> set rs. Dv r (rels (es_idb st)) \<subseteq> rels (es_idb st') (pred (head r)))
    \<and> ((\<forall>n. rels (es_idb st) n \<subseteq> M n) \<longrightarrow> (\<forall>n. rels (es_idb st') n \<subseteq> M n))"
  using assms(1-4) Q D sound
proof (induction rs arbitrary: st)
  case (Cons r rs)
  from Cons.prems(1) obtain s1 where s1: "apply_rule derive lm st r = Inr s1"
    and rest: "foldE (apply_rule derive lm) s1 rs = Inr st'" by auto
  have r: "r \<in> set (rules p)" using Cons.prems(3) by simp
  from apply_rule_effect[OF s1 Cons.prems(2) r] obtain ts where
    ts: "derive r (es_idb st) = Inr ts" "st_ok p s1" "grow st s1"
    and I: "rels (es_idb s1) = (rels (es_idb st))(pred (head r) := rels (es_idb st) (pred (head r)) \<union> set ts)" by blast
  have q1: "Q s1" using Cons.prems(5)[OF _ Cons.prems(2,4) s1] by simp
  have dv: "set ts = Dv r (rels (es_idb st))" using Cons.prems(6)[OF _ Cons.prems(2,4) ts(1)] by simp
  have ih: "st_ok p st' \<and> grow s1 st' \<and> Q st'
    \<and> (\<forall>r \<in> set rs. Dv r (rels (es_idb s1)) \<subseteq> rels (es_idb st') (pred (head r)))
    \<and> ((\<forall>n. rels (es_idb s1) n \<subseteq> M n) \<longrightarrow> (\<forall>n. rels (es_idb st') n \<subseteq> M n))"
  proof (rule Cons.IH[OF rest ts(2) _ q1], goal_cases)
    case 1
    show ?case using Cons.prems(3) by simp
  next
    case 2
    then show ?case using Cons.prems(5) by (meson list.set_intros(2))
  next
    case 3
    then show ?case using Cons.prems(6) by (meson list.set_intros(2))
  next
    case 4
    then show ?case using Cons.prems(7) by (meson list.set_intros(2))
  qed
  have g: "grow st st'" using grow_trans[OF ts(3)] ih by blast
  have "Dv r (rels (es_idb st)) \<subseteq> rels (es_idb s1) (pred (head r))" unfolding I dv by simp
  then have h: "Dv r (rels (es_idb st)) \<subseteq> rels (es_idb st') (pred (head r))"
    using grow_sub[of s1 st' "pred (head r)"] ih by blast
  have t: "Dv r' (rels (es_idb st)) \<subseteq> rels (es_idb st') (pred (head r'))" if "r' \<in> set rs" for r'
    using mono[of "rels (es_idb st)" "rels (es_idb s1)" r'] grow_sub[OF ts(3)] ih that by blast
  have m: "\<forall>n. rels (es_idb st') n \<subseteq> M n" if M: "\<forall>n. rels (es_idb st) n \<subseteq> M n"
  proof -
    have "set ts \<subseteq> M (pred (head r))" using Cons.prems(7)[of r st] M dv by simp
    then have "\<forall>n. rels (es_idb s1) n \<subseteq> M n" unfolding I using M by simp
    with ih show ?thesis by blast
  qed
  show ?case using ih g h t m by auto
qed simp


definition delta_sub :: "db \<Rightarrow> eval_state \<Rightarrow> bool" where
  "delta_sub delta st \<longleftrightarrow> (\<forall>n. rels delta n \<subseteq> rels (es_idb st) n)"

text \<open>The first round derives from the facts alone.\<close>

lemma keyed_empty_rels: "keyed p (empty_rels p)"
  by (auto simp: keyed_def empty_rels_def head_preds_def comp_def dom_def map_of_map_restrict
      distinct_map restrict_map_def)

lemma rels_empty_rels: "rels (empty_rels p) n = {}"
proof -
  have "map_of (empty_rels p) n \<in> {None, Some []}"
    by (auto simp: empty_rels_def map_of_map_restrict restrict_map_def)
  then show ?thesis by (auto simp: rels_def)
qed

lemma full_empty_le_model: "full p f (\<lambda>_. {}) n \<subseteq> model p f n"
  by (auto simp: full_def model_def intro: holds.fact)

lemma heads_full_mono:
  assumes "\<And>n. I n \<subseteq> J n"
  shows "heads r (sat_body (full p f I) b) \<subseteq> heads r (sat_body (full p f J) b)"
proof (rule heads_mono)
  fix \<sigma> assume "sat_body (full p f I) b \<sigma>"
  then show "sat_body (full p f J) b \<sigma>" by (rule sat_body_mono[rotated]) (rule full_mono[OF assms])
qed

lemma heads_sound:
  assumes "r \<in> set (rules p)" "\<And>n. I n \<subseteq> model p f n"
  shows "heads r (sat_body (full p f I) (body r)) \<subseteq> model p f (pred (head r))"
  using heads_full_mono[of I "model p f" r p f "body r", OF assms(2)] model_closed[of p f] assms(1)
  unfolding closed_def by blast

text \<open>
  The loop invariant: the tuples are sound, and what the rules give from the tuples older
  than the delta is already there.
\<close>

definition seminaive :: "program \<Rightarrow> db \<Rightarrow> eval_state \<Rightarrow> bool" where
  "seminaive p f st \<longleftrightarrow> st_ok p st \<and> (\<forall>n. rels (es_idb st) n \<subseteq> model p f n)
     \<and> closed p f (\<lambda>n. rels (es_idb st) n - rels (es_delta st) n) (rels (es_idb st))"

lemma seed_round_effect:
  assumes "seed_round p f lm = Inr st" "\<forall>r \<in> set (rules p). safe_rule r"
  shows "seminaive p f st \<and> (\<forall>n. rels (es_delta st) n = rels (es_idb st) n)"
proof -
  let ?s0 = "\<lparr>es_idb = empty_rels p, es_delta = empty_rels p, es_derived = 0\<rparr>"
  let ?Dv = "\<lambda>r I. heads r (sat_body (full p f I) (body r))"
  have ok0: "st_ok p ?s0" by (simp add: st_ok_def keyed_empty_rels)
  have e: "st_ok p st \<and> grow ?s0 st \<and> True
    \<and> (\<forall>r \<in> set (rules p). ?Dv r (rels (es_idb ?s0)) \<subseteq> rels (es_idb st) (pred (head r)))
    \<and> ((\<forall>n. rels (es_idb ?s0) n \<subseteq> model p f n) \<longrightarrow> (\<forall>n. rels (es_idb st) n \<subseteq> model p f n))"
  proof (rule round_effect[where Q = "\<lambda>_. True" and p = p and M = "model p f" and Dv = ?Dv])
    show "foldE (apply_rule (\<lambda>r idb. derive_full r f idb lm) lm) ?s0 (rules p) = Inr st"
      using assms(1) by (simp add: seed_round_def)
    show "set ts = ?Dv r (rels (es_idb s))"
      if "r \<in> set (rules p)" "st_ok p s" "derive_full r f (es_idb s) lm = Inr ts" for s r ts
      using that derive_full_set assms(2) by (auto simp: st_ok_def)
    show "?Dv r (rels (es_idb s)) \<subseteq> model p f (pred (head r))"
      if "r \<in> set (rules p)" "\<And>n. rels (es_idb s) n \<subseteq> model p f n" for s r
      using that by (rule heads_sound)
    show "?Dv r I \<subseteq> ?Dv r J" if "\<And>n. I n \<subseteq> J n" for r I J
      using that by (rule heads_full_mono)
  qed (simp_all add: ok0)
  have d: "rels (es_delta st) n = rels (es_idb st) n" for n
    using e by (auto simp: grow_def rels_empty_rels)
  moreover have "closed p f (\<lambda>n. {}) (rels (es_idb st))"
    using e by (simp add: closed_def rels_empty_rels[abs_def])
  ultimately show ?thesis using e by (simp add: seminaive_def rels_empty_rels)
qed

lemmas seed_round_seminaive = conjunct1[OF seed_round_effect]
lemmas seed_delta = spec[OF conjunct2[OF seed_round_effect]]

section \<open>Delta rounds and the loop\<close>

lemma touches_or_old:
  assumes "sat_body (full p f I) b \<sigma>" "\<not> touches p d b \<sigma>"
  shows "sat_body (full p f (\<lambda>n. I n - rels d n)) b \<sigma>"
  using assms by (auto simp: sat_body_def touches_def full_def)

lemma delta_round_effect:
  assumes "delta_round p f lm st = Inr st'" "\<forall>r \<in> set (rules p). safe_rule r" "seminaive p f st"
  shows "seminaive p f st' \<and> (\<forall>n. rels (es_idb st) n \<subseteq> rels (es_idb st') n)
    \<and> (\<forall>n. rels (es_delta st') n = rels (es_idb st') n - rels (es_idb st) n)"
proof -
  let ?d = "es_delta st"
  let ?s0 = "st\<lparr>es_delta := empty_rels p\<rparr>"
  let ?Q = "\<lambda>s. \<forall>n. rels ?d n \<subseteq> rels (es_idb s) n"
  let ?Dv = "\<lambda>r I. heads r (\<lambda>\<sigma>. sat_body (full p f I) (body r) \<sigma> \<and> touches p ?d (body r) \<sigma>)"
  have ok: "st_ok p st" and sound: "\<forall>n. rels (es_idb st) n \<subseteq> model p f n"
    and old: "closed p f (\<lambda>n. rels (es_idb st) n - rels ?d n) (rels (es_idb st))"
    using assms(3) by (simp_all add: seminaive_def)
  have ok0: "st_ok p ?s0" using ok by (simp add: st_ok_def keyed_empty_rels rels_empty_rels)
  have e: "st_ok p st' \<and> grow ?s0 st' \<and> ?Q st'
    \<and> (\<forall>r \<in> set (rules p). ?Dv r (rels (es_idb ?s0)) \<subseteq> rels (es_idb st') (pred (head r)))
    \<and> ((\<forall>n. rels (es_idb ?s0) n \<subseteq> model p f n) \<longrightarrow> (\<forall>n. rels (es_idb st') n \<subseteq> model p f n))"
  proof (rule round_effect[where Q = ?Q and p = p and M = "model p f" and Dv = ?Dv])
    show "foldE (apply_rule (\<lambda>r idb. derive_delta r f idb ?d lm) lm) ?s0 (rules p) = Inr st'"
      using assms(1) by (simp add: delta_round_def)
    show "?Q s'" if "r \<in> set (rules p)" "st_ok p s" "?Q s"
      "apply_rule (\<lambda>r idb. derive_delta r f idb ?d lm) lm s r = Inr s'" for s s' r
      using apply_rule_effect[OF that(4,2,1)] that(3) grow_sub by (metis order_trans)
    show "set ts = ?Dv r (rels (es_idb s))"
      if "r \<in> set (rules p)" "st_ok p s" "?Q s" "derive_delta r f (es_idb s) ?d lm = Inr ts" for s r ts
      using that derive_delta_set[OF that(4)] assms(2) ok by (simp add: st_ok_def)
    show "?Dv r (rels (es_idb s)) \<subseteq> model p f (pred (head r))"
      if "r \<in> set (rules p)" "\<And>n. rels (es_idb s) n \<subseteq> model p f n" for s r
      using heads_sound[of r p "rels (es_idb s)" f, OF that] by (auto simp: heads_def)
    show "?Dv r I \<subseteq> ?Dv r J" if "\<And>n. I n \<subseteq> J n" for r I J
    proof (rule heads_mono)
      fix \<sigma> assume a: "sat_body (full p f I) (body r) \<sigma> \<and> touches p ?d (body r) \<sigma>"
      then have "sat_body (full p f J) (body r) \<sigma>" by (intro sat_body_mono[OF full_mono[OF that]]) simp
      with a show "sat_body (full p f J) (body r) \<sigma> \<and> touches p ?d (body r) \<sigma>" by simp
    qed
    show "?Q ?s0" using ok by (simp add: st_ok_def)
  qed (simp_all add: ok0)
  have delta: "rels (es_delta st') n = rels (es_idb st') n - rels (es_idb st) n" for n
    using e by (simp add: grow_def rels_empty_rels)
  have up: "rels (es_idb st) n \<subseteq> rels (es_idb st') n" for n using e by (simp add: grow_def)
  have "heads r (sat_body (full p f (rels (es_idb st))) (body r)) \<subseteq> rels (es_idb st') (pred (head r))"
    if r: "r \<in> set (rules p)" for r
  proof
    fix t assume "t \<in> heads r (sat_body (full p f (rels (es_idb st))) (body r))"
    then obtain \<sigma> where \<sigma>: "t = map (eval_term \<sigma>) (args (head r))" "sat_body (full p f (rels (es_idb st))) (body r) \<sigma>"
      by (auto simp: heads_def)
    show "t \<in> rels (es_idb st') (pred (head r))"
    proof (cases "touches p ?d (body r) \<sigma>")
      case True
      then have "t \<in> ?Dv r (rels (es_idb ?s0))" using \<sigma> by (auto simp: heads_def)
      with e r show ?thesis by blast
    next
      case False
      from touches_or_old[OF \<sigma>(2) False] have "t \<in> rels (es_idb st) (pred (head r))"
        using old r \<sigma>(1) by (auto simp: closed_def heads_def)
      with up show ?thesis by blast
    qed
  qed
  moreover have "rels (es_idb st') n - rels (es_delta st') n = rels (es_idb st) n" for n
    using delta[of n] up[of n] by blast
  ultimately have "closed p f (\<lambda>n. rels (es_idb st') n - rels (es_delta st') n) (rels (es_idb st'))"
    by (simp add: closed_def)
  with e sound up delta show ?thesis by (simp add: seminaive_def)
qed

lemma fixpoint_loop_exit:
  "fixpoint_loop p f lm clock n st = Inr st' \<Longrightarrow> \<forall>r \<in> set (rules p). safe_rule r \<Longrightarrow> seminaive p f st \<Longrightarrow>
   seminaive p f st' \<and> facts_is_empty (es_delta st')"
proof (induction p f lm clock n st rule: fixpoint_loop.induct)
  case (1 p f lm clock n st)
  show ?case
  proof (cases "facts_is_empty (es_delta st)")
    case True
    then show ?thesis using 1(2-4) by (simp add: fixpoint_loop.simps)
  next
    case False
    with 1(2) obtain s where n: "\<not> n + 1 > max_iterations lm" and c: "check_deadline lm (clock (n + 1)) = Inr ()"
      and s: "delta_round p f lm st = Inr s" and rest: "fixpoint_loop p f lm clock (n + 1) s = Inr st'"
      by (subst (asm) fixpoint_loop.simps) (auto split: if_splits)
    have "seminaive p f s" using delta_round_effect[OF s 1(3,4)] by blast
    from 1(1)[OF False n c s rest 1(3) this] show ?thesis .
  qed
qed

text \<open>When the loop stops, the relations are the least model.\<close>

lemma fixpoint_model:
  assumes "seed_round p f lm = Inr st0" "fixpoint_loop p f lm clock 0 st0 = Inr st"
    "\<forall>r \<in> set (rules p). safe_rule r"
  shows "st_ok p st \<and> full p f (rels (es_idb st)) = model p f"
proof -
  have s: "seminaive p f st" and e: "facts_is_empty (es_delta st)"
    using fixpoint_loop_exit[OF assms(2,3) seed_round_seminaive[OF assms(1,3)]] by simp_all
  then have "rels (es_delta st) n = {}" for n
    using keyed_is_empty[of p "es_delta st"] by (simp add: seminaive_def st_ok_def)
  then have "closed p f (rels (es_idb st)) (rels (es_idb st))" using s by (simp add: seminaive_def)
  then show ?thesis using s full_eq_model by (simp add: seminaive_def fun_eq_iff)
qed

end
