(* ===== verification/Logic_Total.thy ===== *)
theory Logic_Total
  imports Logic_Rounds
begin

text \<open>
  Termination of the evaluation with a result: the tuples that can be derived range over a
  finite active domain, so limits above explicit bounds are never met; and whatever the
  limits, a checked program ends in a result or in one of the limit errors.
\<close>

section \<open>The active domain\<close>

definition active_domain :: "program \<Rightarrow> db \<Rightarrow> val set" where
  "active_domain p f =
     {v. \<exists>(n, ts) \<in> set f. \<exists>t \<in> set ts. v \<in> set t} \<union> {c. \<exists>r \<in> set (rules p). Const c \<in> set (args (head r))}"

definition val_count :: "program \<Rightarrow> db \<Rightarrow> nat" where
  "val_count p f =
     sum_list (map (\<lambda>e. sum_list (map length (snd e))) f) + sum_list (map (\<lambda>r. length (args (head r))) (rules p))"

definition tuple_bound :: "program \<Rightarrow> db \<Rightarrow> nat" where
  "tuple_bound p f = sum_list (map (\<lambda>r. val_count p f ^ length (args (head r))) (rules p))"

definition derived_bound :: "program \<Rightarrow> db \<Rightarrow> nat" where
  "derived_bound p f = length (rules p) * tuple_bound p f"

definition join_bound :: "program \<Rightarrow> db \<Rightarrow> literal list \<Rightarrow> nat" where
  "join_bound p f b = (facts_len f + tuple_bound p f + 1) ^ length (atoms_of b)"

definition generous :: "program \<Rightarrow> db \<Rightarrow> limits \<Rightarrow> bool" where
  "generous p f lm \<longleftrightarrow>
     facts_len f \<le> max_facts lm \<and> deadline lm = None \<and> derived_bound p f \<le> max_iterations lm
     \<and> derived_bound p f \<le> max_derived lm
     \<and> list_all (\<lambda>b. join_bound p f b \<le> max_derived lm) (q_body (goal p) # map body (rules p))"

lemma card_UN_list: "finite (\<Union>x \<in> set xs. A x) \<and> card (\<Union>x \<in> set xs. A x) \<le> sum_list (map g xs)"
  if "\<And>x. x \<in> set xs \<Longrightarrow> finite (A x) \<and> card (A x) \<le> g x" for g :: "'a \<Rightarrow> nat"
  using that
proof (induction xs)
  case (Cons x xs)
  have "card (A x \<union> (\<Union>y \<in> set xs. A y)) \<le> card (A x) + card (\<Union>y \<in> set xs. A y)" by (rule card_Un_le)
  with Cons show ?case by fastforce
qed simp

lemma active_domain_card: "finite (active_domain p f) \<and> card (active_domain p f) \<le> val_count p f"
proof -
  let ?A = "\<Union>e \<in> set f. \<Union>t \<in> set (snd e). set t"
  let ?B = "\<Union>r \<in> set (rules p). {c. Const c \<in> set (args (head r))}"
  have one: "finite {c. Const c \<in> set ts} \<and> card {c. Const c \<in> set ts} \<le> length ts" for ts
  proof -
    have "{c. Const c \<in> set ts} \<subseteq> (\<lambda>t. case t of Const c \<Rightarrow> c | Var v \<Rightarrow> v) ` set ts" by force
    then show ?thesis by (meson List.finite_set card_image_le card_length card_mono finite_imageI finite_subset order_trans)
  qed
  have b: "finite ?B \<and> card ?B \<le> sum_list (map (\<lambda>r. length (args (head r))) (rules p))"
    by (rule card_UN_list) (rule one)
  have "finite (\<Union>t \<in> set (snd e). set t) \<and> card (\<Union>t \<in> set (snd e). set t) \<le> sum_list (map length (snd e))"
    for e :: "string \<times> tuple list"
    by (rule card_UN_list) (meson List.finite_set card_length)
  then have a: "finite ?A \<and> card ?A \<le> sum_list (map (\<lambda>e. sum_list (map length (snd e))) f)"
    by (rule card_UN_list[of f])
  have "active_domain p f = ?A \<union> ?B" by (auto simp: active_domain_def) force
  moreover have "card (?A \<union> ?B) \<le> val_count p f"
    using a b card_Un_le[of ?A ?B] unfolding val_count_def by linarith
  moreover have "finite (?A \<union> ?B)" using a b by blast
  ultimately show ?thesis by simp
qed

definition domain_tuples :: "program \<Rightarrow> db \<Rightarrow> tuple set" where
  "domain_tuples p f =
     (\<Union>r \<in> set (rules p). {t. set t \<subseteq> active_domain p f \<and> length t = length (args (head r))})"

lemma domain_tuples_card: "finite (domain_tuples p f) \<and> card (domain_tuples p f) \<le> tuple_bound p f"
  unfolding domain_tuples_def tuple_bound_def
proof (rule card_UN_list)
  fix r
  show "finite {t. set t \<subseteq> active_domain p f \<and> length t = length (args (head r))} \<and>
    card {t. set t \<subseteq> active_domain p f \<and> length t = length (args (head r))} \<le> val_count p f ^ length (args (head r))"
    using active_domain_card[of p f]
    by (auto simp: card_lists_length_eq finite_lists_length_eq intro: power_mono)
qed

lemma model_active:
  assumes "\<forall>r \<in> set (rules p). safe_rule r" "holds p f n t"
  shows "set t \<subseteq> active_domain p f \<and> (n \<in> head_preds p \<longrightarrow> t \<in> domain_tuples p f)"
  using assms(2)
proof (induction rule: holds.induct)
  case (fact n t)
  then show ?case
    by (fastforce simp: active_domain_def rels_def dest!: map_of_SomeD split: option.splits)
next
  case (rule r \<sigma>)
  have "\<sigma> v \<in> active_domain p f" if "Var v \<in> set (args (head r))" for v
  proof -
    obtain a where a: "a \<in> set (atoms_of (body r))" "Var v \<in> set (args a)"
    proof -
      have "safe_rule r" using assms(1) rule.hyps(1) by blast
      then show thesis using that \<open>Var v \<in> set (args (head r))\<close> by (auto simp: safe_rule_def body_vars_def)
    qed
    then have "set (map (eval_term \<sigma>) (args a)) \<subseteq> active_domain p f" using rule.IH by blast
    with a(2) show ?thesis by force
  qed
  moreover have "c \<in> active_domain p f" if "Const c \<in> set (args (head r))" for c
    using that rule.hyps(1) by (auto simp: active_domain_def)
  ultimately have "eval_term \<sigma> t \<in> active_domain p f" if "t \<in> set (args (head r))" for t
    using that by (cases t) auto
  then have "set (map (eval_term \<sigma>) (args (head r))) \<subseteq> active_domain p f" by auto
  then show ?case using rule.hyps(1) by (auto simp: domain_tuples_def)
qed

section \<open>Counting\<close>

definition distinct_rels :: "db \<Rightarrow> bool" where
  "distinct_rels d \<longleftrightarrow> (\<forall>n ts. map_of d n = Some ts \<longrightarrow> distinct ts)"

lemma facts_len_Cons [simp]: "facts_len (e # d) = length (snd e) + facts_len d"
  by (simp add: facts_len_def)

lemma facts_len_get: "map_of d n = Some ts \<Longrightarrow> length ts \<le> facts_len d"
  by (induction d) (auto split: if_splits)

lemma facts_len_update:
  "map_of d n = Some ts \<Longrightarrow> facts_len (AList.update n ts' d) + length ts = facts_len d + length ts'"
  by (induction d) (auto split: if_splits)

lemma facts_len_card:
  assumes "keyed p d" "distinct_rels d"
  shows "facts_len d = (\<Sum>n \<in> head_preds p. card (rels d n))"
proof -
  have "facts_len d = (\<Sum>n \<in> fst ` set d. card (rels d n))"
    if "distinct (map fst d)" "distinct_rels d" for d :: db
    using that
  proof (induction d)
    case (Cons e d)
    obtain n ts where e: "e = (n, ts)" by force
    have new: "n \<notin> fst ` set d" using Cons.prems(1) e by auto
    then have none: "map_of d n = None" by (simp add: map_of_eq_None_iff)
    have dd: "distinct_rels d"
      unfolding distinct_rels_def
    proof (intro allI impI)
      fix m us assume m: "map_of d m = Some us"
      then have "m \<noteq> n" using none by auto
      with m have "map_of (e # d) m = Some us" by (simp add: e)
      with Cons.prems(2) show "distinct us" by (simp only: distinct_rels_def)
    qed
    have "map_of (e # d) n = Some ts" by (simp add: e)
    then have dts: "distinct ts" using Cons.prems(2) by (simp only: distinct_rels_def)
    have "(\<Sum>m \<in> fst ` set d. card (rels (e # d) m)) = (\<Sum>m \<in> fst ` set d. card (rels d m))"
      using new by (intro sum.cong) (auto simp: rels_def e)
    then show ?case
      using new Cons.IH dd Cons.prems(1) dts by (simp add: e rels_def[of _ n] distinct_card)
  qed (simp add: facts_len_def)
  moreover have "fst ` set d = head_preds p" using assms(1) by (simp add: keyed_def dom_map_of_conv_image_fst)
  ultimately show ?thesis using assms by (simp add: keyed_def)
qed

section \<open>Rounds return\<close>

definition counted :: "program \<Rightarrow> db \<Rightarrow> eval_state \<Rightarrow> bool" where
  "counted p f st \<longleftrightarrow> st_ok p st \<and> (\<forall>n. rels (es_idb st) n \<subseteq> model p f n)
     \<and> distinct_rels (es_idb st) \<and> distinct_rels (es_delta st) \<and> es_derived st = facts_len (es_idb st)"

lemma rels_card_bound:
  assumes "\<forall>r \<in> set (rules p). safe_rule r" "\<And>n. rels d n \<subseteq> model p f n" "n \<in> head_preds p"
  shows "card (rels d n) \<le> tuple_bound p f"
proof -
  have "rels d n \<subseteq> domain_tuples p f"
  proof
    fix t assume "t \<in> rels d n"
    then have "holds p f n t" using assms(2)[of n] by (auto simp: model_def)
    with model_active[OF assms(1)] assms(3) show "t \<in> domain_tuples p f" by blast
  qed
  then show ?thesis using domain_tuples_card[of p f] card_mono order_trans by blast
qed

lemma counted_bound:
  assumes "\<forall>r \<in> set (rules p). safe_rule r" "counted p f st"
  shows "es_derived st \<le> derived_bound p f"
proof -
  have "es_derived st = (\<Sum>n \<in> head_preds p. card (rels (es_idb st) n))"
    using assms(2) facts_len_card by (simp add: counted_def st_ok_def)
  also have "\<dots> \<le> (\<Sum>n \<in> head_preds p. tuple_bound p f)"
    using rels_card_bound[OF assms(1)] assms(2) by (intro sum_mono) (auto simp: counted_def)
  also have "\<dots> = card (head_preds p) * tuple_bound p f" by simp
  also have "card (head_preds p) \<le> length (rules p)"
    unfolding head_preds_def using card_image_le card_length by (metis List.finite_set order_trans)
  finally show ?thesis by (simp add: derived_bound_def)
qed

lemma distinct_rels_update:
  "distinct_rels d \<Longrightarrow> distinct ts \<Longrightarrow> distinct_rels (AList.update n ts d)"
  by (auto simp: distinct_rels_def update_conv')

text \<open>One push: it fails only on the budget, and an unmet budget lets it through.\<close>

lemma add_tuple_counted:
  assumes "counted p f st" "n \<in> head_preds p" "t \<in> model p f n"
  shows "(\<exists>st'. add_tuple lm n st t = Inr st' \<and> counted p f st')
    \<or> add_tuple lm n st t = Inl (EvalError (DerivedBudget (max_derived lm)))
      \<and> (\<exists>st'. counted p f st' \<and> es_derived st' = es_derived st + 1 \<and> max_derived lm < es_derived st')"
proof -
  have ok: "st_ok p st" using assms(1) by (simp add: counted_def)
  obtain ts ds where ts: "map_of (es_idb st) n = Some ts" and ds: "map_of (es_delta st) n = Some ds"
    using keyed_some ok assms(2) by (meson st_ok_def)
  let ?st = "\<lparr>es_idb = AList.update n (hs_insert t ts) (es_idb st),
     es_delta = AList.update n (hs_insert t ds) (es_delta st), es_derived = es_derived st + 1\<rparr>"
  show ?thesis
  proof (cases "t \<in> set ts")
    case True
    then have "add_tuple lm n st t = Inr st" using ts by (simp add: add_tuple_def)
    with assms(1) show ?thesis by blast
  next
    case False
    let ?lm = "lm\<lparr>max_derived := es_derived st + 1\<rparr>"
    have "add_tuple ?lm n st t = Inr ?st" using False ts ds by (simp add: add_tuple_def)
    note e = add_tuple_effect[OF this ok assms(2)]
    have "facts_len (es_idb ?st) = es_derived st + 1"
      using facts_len_update[OF ts, of "hs_insert t ts"] False assms(1)
      by (simp add: hs_insert_def counted_def)
    moreover have "distinct_rels (es_idb ?st)" "distinct_rels (es_delta ?st)"
      using assms(1) ts ds by (auto simp: counted_def intro!: distinct_rels_update) (auto simp: distinct_rels_def)
    moreover have "\<forall>m. rels (es_idb ?st) m \<subseteq> model p f m"
      using conjunct2[OF conjunct2[OF e]] assms by (simp add: counted_def)
    ultimately have c: "counted p f ?st" using e by (simp add: counted_def)
    have "add_tuple lm n st t = (if es_derived st + 1 > max_derived lm
        then Inl (EvalError (DerivedBudget (max_derived lm))) else Inr ?st)"
      using False ts ds by (simp add: add_tuple_def)
    with c show ?thesis by (cases "es_derived st + 1 > max_derived lm") (auto intro!: exI[of _ ?st])
  qed
qed

text \<open>The two outcomes of a step: a good state, or a limit error that generous limits exclude.\<close>

definition limit_error :: "program \<Rightarrow> db \<Rightarrow> limits \<Rightarrow> lerr \<Rightarrow> bool" where
  "limit_error p f lm e \<longleftrightarrow> (\<exists>m. e = EvalError m) \<and> \<not> generous p f lm"

definition outcome :: "('a \<Rightarrow> bool) \<Rightarrow> ('e \<Rightarrow> bool) \<Rightarrow> 'e + 'a \<Rightarrow> bool" where
  "outcome P Q m \<longleftrightarrow> (case m of Inl e \<Rightarrow> Q e | Inr x \<Rightarrow> P x)"

lemma outcome_simps [simp]: "outcome P Q (Inr x) = P x" "outcome P Q (Inl e) = Q e"
  by (simp_all add: outcome_def)

lemma outcome_bind: "outcome P' Q m \<Longrightarrow> (\<And>x. m = Inr x \<Longrightarrow> P' x \<Longrightarrow> outcome P Q (f x)) \<Longrightarrow> outcome P Q (bindE m f)"
  by (cases m) auto

lemma outcome_fold:
  "P s \<Longrightarrow> (\<And>t x. x \<in> set xs \<Longrightarrow> P t \<Longrightarrow> outcome P Q (f t x)) \<Longrightarrow> outcome P Q (foldE f s xs)"
  by (induction xs arbitrary: s) (auto intro!: outcome_bind)

lemma length_extend:
  assumes "length rel \<le> W" shows "length (extend as rel bs) \<le> length bs * W"
proof -
  have "length (List.map_filter g rel) \<le> length rel" for g :: "tuple \<Rightarrow> binding option"
    by (simp add: List.map_filter_def)
  then have "length (List.map_filter (\<lambda>t. unify as t b) rel) \<le> W" for b
    using assms order_trans by blast
  then show ?thesis
    by (induction bs) (auto simp: extend_def intro: add_mono)
qed

lemma join_loop_error: "join_loop cap rel_at i as bs = Inl e \<Longrightarrow> e = EvalError (JoinTooLarge cap)"
  by (induction as arbitrary: i bs)
     (auto simp: bindE_Inl_iff join_bindings_eq neq_Nil_conv split: option.splits list.splits if_splits)

lemma join_loop_total:
  assumes "\<And>i n ts. rel_at i n = Some ts \<Longrightarrow> length ts \<le> W"
  shows "length bs * (W + 1) ^ length as \<le> cap \<Longrightarrow> \<exists>bs'. join_loop cap rel_at i as bs = Inr bs'"
proof (induction as arbitrary: i bs)
  case (Cons a as)
  show ?case
  proof (cases "rel_at i (pred a)")
    case (Some rel)
    have le: "length (extend (args a) rel bs) \<le> length bs * W"
      by (rule length_extend) (rule assms[OF Some])
    have one: "1 \<le> (W + 1) ^ length as" by simp
    have "length (extend (args a) rel bs) * (W + 1) ^ length as \<le> length bs * (W + 1) ^ length (a # as)"
    proof -
      have "length bs * W \<le> length bs * (W + 1)" by simp
      with le have "length (extend (args a) rel bs) \<le> length bs * (W + 1)" by linarith
      from mult_le_mono1[OF this, of "(W + 1) ^ length as"] show ?thesis by (simp only: mult.assoc list.size power_Suc add_Suc_right add_0_right)
    qed
    then have rest: "length (extend (args a) rel bs) * (W + 1) ^ length as \<le> cap" using Cons.prems by linarith
    have "length (extend (args a) rel bs) \<le> length (extend (args a) rel bs) * (W + 1) ^ length as"
      using mult_le_mono2[OF one] by (metis mult.right_neutral)
    then have cap: "length (extend (args a) rel bs) \<le> cap" using rest by linarith
    from Cons.IH[OF rest, of "i + 1"] obtain bs' where
      "join_loop cap rel_at (i + 1) as (extend (args a) rel bs) = Inr bs'" by blast
    with Some cap have "join_loop cap rel_at i (a # as) bs = Inr bs'"
      if "extend (args a) rel bs \<noteq> []"
      unfolding join_loop_Cons using that by simp
    moreover have "join_loop cap rel_at i (a # as) bs = Inr []" if "extend (args a) rel bs = []"
      unfolding join_loop_Cons using that Some by simp
    ultimately show ?thesis by blast
  qed simp
qed simp

lemma join_atoms_outcome:
  assumes b: "b \<in> insert (q_body (goal p)) (body ` set (rules p))"
    and short: "\<And>i n ts. rel_at i n = Some ts \<Longrightarrow> length ts \<le> facts_len f + tuple_bound p f"
  shows "outcome (\<lambda>_. True) (limit_error p f lm) (join_atoms (atoms_of b) lm rel_at)"
proof (cases "join_atoms (atoms_of b) lm rel_at")
  case (Inl e)
  then have "e = EvalError (JoinTooLarge (max_derived lm))" by (simp add: join_atoms_def join_loop_error)
  moreover have "\<not> generous p f lm"
  proof
    assume "generous p f lm"
    then have "join_bound p f b \<le> max_derived lm" using b by (auto simp: generous_def list_all_iff)
    then have "length [Map.empty :: binding] * (facts_len f + tuple_bound p f + 1) ^ length (atoms_of b) \<le> max_derived lm"
      by (simp add: join_bound_def)
    then have "\<exists>bs'. join_loop (max_derived lm) rel_at 0 (atoms_of b) [Map.empty] = Inr bs'"
      by (intro join_loop_total[of rel_at]) (rule short)
    then obtain bs' where "join_loop (max_derived lm) rel_at 0 (atoms_of b) [Map.empty] = Inr bs'" by blast
    with Inl show False by (simp add: join_atoms_def)
  qed
  ultimately show ?thesis using Inl by (simp add: limit_error_def)
qed simp

lemma counted_rel_short:
  assumes "\<forall>r \<in> set (rules p). safe_rule r" "\<And>n. rels d n \<subseteq> model p f n" "keyed p d" "distinct_rels d"
    "map_of d n = Some ts"
  shows "length ts \<le> tuple_bound p f"
proof -
  have "n \<in> head_preds p" using assms(3,5) by (auto simp: keyed_def)
  moreover have "length ts = card (rels d n)" using assms(4,5) by (simp add: distinct_rels_def rels_def distinct_card)
  ultimately show ?thesis using rels_card_bound[OF assms(1,2)] by simp
qed

lemma rel_full_short:
  assumes "\<forall>r \<in> set (rules p). safe_rule r" "counted p f st" "rel_full n f (es_idb st) = Some ts"
  shows "length ts \<le> facts_len f + tuple_bound p f"
proof (cases "map_of (es_idb st) n")
  case None
  then show ?thesis using assms(3) facts_len_get[of f n ts] by (simp add: rel_full_def)
next
  case (Some us)
  then have "length us \<le> tuple_bound p f"
    using counted_rel_short[OF assms(1), of "es_idb st" f n us] assms(2) by (simp add: counted_def st_ok_def)
  with Some assms(3) show ?thesis by (simp add: rel_full_def)
qed

end
