(* ===== verification/Logic_Print.thy ===== *)
theory Logic_Print
  imports Logic_Parse
begin

text \<open>
  A printer for programs and the two halves of the round trip: what the parser returns can
  be printed, and what is printed parses back to the same program. The printer writes the
  desugared form, so a parsed program is the fixed point of printing and parsing.
\<close>

section \<open>Printing\<close>

fun toks_term :: "trm \<Rightarrow> tok list" where
  "toks_term (Var v) = [TVar v]"
| "toks_term (Const c) = [TStr c]"

definition toks_rest :: "('a \<Rightarrow> tok list) \<Rightarrow> 'a list \<Rightarrow> tok list" where
  "toks_rest f xs = concat (map (\<lambda>x. Comma # f x) xs)"

fun toks_seq :: "('a \<Rightarrow> tok list) \<Rightarrow> 'a list \<Rightarrow> tok list" where
  "toks_seq f [] = []"
| "toks_seq f (x # xs) = f x @ toks_rest f xs"

definition toks_atom :: "atom \<Rightarrow> tok list" where
  "toks_atom a = TIdent (pred a) # LParen # toks_seq toks_term (args a) @ [RParen]"

fun toks_cmp :: "cmp_op \<Rightarrow> trm \<Rightarrow> trm \<Rightarrow> tok list" where
  "toks_cmp Eq l r = toks_term l @ TEq # toks_term r"
| "toks_cmp Ne l r = toks_term l @ TNe # toks_term r"
| "toks_cmp Lt l r = toks_term l @ TLt # toks_term r"
| "toks_cmp Le l r = toks_term l @ TLe # toks_term r"
| "toks_cmp Gt l r = toks_term l @ TGt # toks_term r"
| "toks_cmp Ge l r = toks_term l @ TGe # toks_term r"
| "toks_cmp IEq l r = toks_atom \<lparr>pred = ''ieq'', args = [l, r]\<rparr>"
| "toks_cmp Like l r = toks_atom \<lparr>pred = ''like'', args = [l, r]\<rparr>"

fun toks_literal :: "literal \<Rightarrow> tok list" where
  "toks_literal (LAtom a n) = toks_atom a"
| "toks_literal (LCmp op l r) = toks_cmp op l r"

definition toks_body :: "literal list \<Rightarrow> tok list" where
  "toks_body ls = toks_seq toks_literal ls"

definition toks_rule :: "rule \<Rightarrow> tok list" where
  "toks_rule r = toks_atom (head r) @ ColonDash # toks_body (body r) @ [Dot]"

definition toks_program :: "program \<Rightarrow> tok list" where
  "toks_program p = concat (map toks_rule (rules p)) @ QueryArrow # toks_body (q_body (goal p)) @ [Dot]"

definition show_program :: "program \<Rightarrow> string" where
  "show_program p = render (toks_program p)"

section \<open>Printable programs\<close>

fun wf_term :: "trm \<Rightarrow> bool" where
  "wf_term (Var v) \<longleftrightarrow> wf_tok (TVar v) \<and> v \<noteq> ''_''"
| "wf_term (Const c) \<longleftrightarrow> True"

definition wf_atom :: "atom \<Rightarrow> bool" where
  "wf_atom a \<longleftrightarrow> wf_tok (TIdent (pred a)) \<and> list_all wf_term (args a)"

definition base_form :: "string \<Rightarrow> bool" where
  "base_form n \<longleftrightarrow> n \<notin> set BUILTIN_PREDS \<and> label_sugar n = None \<and> edge_sugar n = None"

fun wf_literal :: "literal \<Rightarrow> bool" where
  "wf_literal (LAtom a neg) \<longleftrightarrow> \<not> neg \<and> wf_atom a \<and> base_form (pred a)"
| "wf_literal (LCmp op l r) \<longleftrightarrow> wf_term l \<and> wf_term r"

definition wf_body :: "literal list \<Rightarrow> bool" where
  "wf_body ls \<longleftrightarrow> ls \<noteq> [] \<and> list_all wf_literal ls"

definition wf_program :: "program \<Rightarrow> bool" where
  "wf_program p \<longleftrightarrow>
     list_all (\<lambda>r. wf_atom (head r) \<and> wf_body (body r)) (rules p)
     \<and> wf_body (q_body (goal p)) \<and> columns (goal p) = query_columns (q_body (goal p))"

section \<open>Reading what was printed\<close>

definition p_rest :: "parser \<Rightarrow> tok list" where
  "p_rest p = map tok (drop (p_pos p) (p_tokens p))"

definition reads :: "(parser \<Rightarrow> 'a presult) \<Rightarrow> parser \<Rightarrow> 'a \<Rightarrow> tok list \<Rightarrow> bool" where
  "reads f p x r \<longleftrightarrow> (\<exists>p'. f p = Inr (x, p') \<and> p_rest p' = r)"

lemma peek_rest: "peek p = (case p_rest p of [] \<Rightarrow> None | t # ts \<Rightarrow> Some t)"
proof (cases "p_pos p < length (p_tokens p)")
  case True
  then show ?thesis by (simp add: peek_def p_rest_def Cons_nth_drop_Suc[symmetric])
qed (simp add: peek_def p_rest_def)

lemma bump_rest:
  assumes "p_rest p = t # ts"
  shows "\<exists>p'. bump p = (Some t, p') \<and> p_rest p' = ts"
proof -
  have len: "p_pos p < length (p_tokens p)" using assms by (cases "p_pos p < length (p_tokens p)") (auto simp: p_rest_def)
  then have "p_rest (p\<lparr>p_pos := p_pos p + 1\<rparr>) = ts"
    using assms by (simp add: p_rest_def Cons_nth_drop_Suc[symmetric])
  with assms show ?thesis by (simp add: bump_def peek_rest)
qed

lemma expect_reads: "p_rest p = t # ts \<Longrightarrow> reads (expect t what) p () ts"
  using bump_rest[of p t ts] by (auto simp: reads_def expect_def)

lemma term_reads:
  assumes "wf_term t" "p_rest p = toks_term t @ r"
  shows "reads parse_term p t r"
proof (cases t)
  case (Var v)
  with assms bump_rest[of p "TVar v" r] show ?thesis by (auto simp: reads_def parse_term_def)
next
  case (Const c)
  with assms bump_rest[of p "TStr c" r] show ?thesis by (auto simp: reads_def parse_term_def)
qed

text \<open>What may follow a sequence: anything but a comma.\<close>

definition ends :: "tok list \<Rightarrow> bool" where
  "ends r \<longleftrightarrow> (case r of [] \<Rightarrow> True | t # ts \<Rightarrow> t \<noteq> Comma)"

lemma ends_simps [simp]: "ends []" "ends (t # ts) = (t \<noteq> Comma)"
  by (simp_all add: ends_def)

lemma arg_loop_reads:
  "list_all wf_term ts \<Longrightarrow> p_rest p = toks_rest toks_term ts @ r \<Longrightarrow> ends r \<Longrightarrow> reads arg_loop p ts r"
proof (induction ts arbitrary: p)
  case Nil
  then show ?case
    by (subst reads_def, subst arg_loop.simps) (auto simp: toks_rest_def peek_rest ends_def split: list.splits)
next
  case (Cons t ts)
  then have "p_rest p = Comma # toks_term t @ toks_rest toks_term ts @ r"
    by (simp add: toks_rest_def)
  then obtain p1 where p1: "peek p = Some Comma" "bump p = (Some Comma, p1)"
    and r1: "p_rest p1 = toks_term t @ toks_rest toks_term ts @ r"
    using bump_rest[of p] by (auto simp: peek_rest)
  from term_reads[OF _ r1] Cons.prems obtain p2 where
    p2: "parse_term p1 = Inr (t, p2)" "p_rest p2 = toks_rest toks_term ts @ r"
    by (auto simp: reads_def)
  with Cons obtain p3 where "arg_loop p2 = Inr (ts, p3)" "p_rest p3 = r"
    by (force simp: reads_def)
  with p1 p2 show ?case by (subst reads_def, subst arg_loop.simps) simp
qed

lemma args_reads:
  assumes "list_all wf_term ts" "p_rest p = toks_seq toks_term ts @ RParen # r"
  shows "reads parse_args p ts (RParen # r)"
proof (cases ts)
  case Nil
  with assms show ?thesis by (simp add: reads_def parse_args_def peek_rest)
next
  case (Cons t us)
  have "peek p \<noteq> Some RParen"
    using assms Cons by (cases t) (auto simp: peek_rest)
  moreover obtain p1 where p1: "parse_term p = Inr (t, p1)" "p_rest p1 = toks_rest toks_term us @ RParen # r"
    using term_reads[of t p] assms Cons by (force simp: reads_def)
  moreover have "reads arg_loop p1 us (RParen # r)"
    using arg_loop_reads[of us p1] p1 assms Cons by simp
  ultimately show ?thesis using Cons by (auto simp: reads_def parse_args_def)
qed

lemma atom_reads:
  assumes "list_all wf_term (args a)" "p_rest p = toks_atom a @ r"
  shows "reads raw_atom p a r"
proof -
  obtain p1 where p1: "bump p = (Some (TIdent (pred a)), p1)"
    "p_rest p1 = LParen # toks_seq toks_term (args a) @ RParen # r"
    using bump_rest[of p] assms by (force simp: toks_atom_def)
  obtain p2 where p2: "expect LParen ''(' after a predicate name'' p1 = Inr ((), p2)"
    "p_rest p2 = toks_seq toks_term (args a) @ RParen # r"
    using expect_reads[OF p1(2)] by (auto simp: reads_def)
  obtain p3 where p3: "parse_args p2 = Inr (args a, p3)" "p_rest p3 = RParen # r"
    using args_reads[OF assms(1) p2(2)] by (auto simp: reads_def)
  obtain p4 where "expect RParen '')' to close the argument list'' p3 = Inr ((), p4)" "p_rest p4 = r"
    using expect_reads[OF p3(2)] by (auto simp: reads_def)
  with p1 p2 p3 show ?thesis by (simp add: reads_def raw_atom_def)
qed

lemma desugar_base: "base_form (pred a) \<Longrightarrow> desugar p a = Inr (LAtom a False)"
  by (simp add: desugar_def base_form_def atom_lit_def)

lemma desugar_builtin:
  "desugar p \<lparr>pred = ''ieq'', args = [l, r]\<rparr> = Inr (LCmp IEq l r)"
  "desugar p \<lparr>pred = ''like'', args = [l, r]\<rparr> = Inr (LCmp Like l r)"
  by (simp_all add: desugar_def BUILTIN_PREDS_def)

lemma ident_literal_reads:
  assumes "list_all wf_term (args a)" "p_rest p = toks_atom a @ r" "\<And>q. desugar q a = Inr l"
  shows "reads parse_literal p l r"
proof -
  have "peek p = Some (TIdent (pred a))" using assms by (simp add: toks_atom_def peek_rest)
  with atom_reads[OF assms(1,2)] assms(3) show ?thesis
    by (auto simp: reads_def parse_literal_def)
qed

lemma infix_literal_reads:
  assumes "wf_term l" "wf_term r" "p_rest p = toks_term l @ t # toks_term r @ rs"
    and t: "\<And>q us. p_rest q = t # us \<Longrightarrow> reads parse_cmp_op q op us"
  shows "reads parse_literal p (LCmp op l r) rs"
proof -
  have peek: "starts_term (peek p)" "\<And>i. peek p \<noteq> Some (TIdent i)"
    using assms(3) by (cases l; simp add: peek_rest)+
  obtain p1 where p1: "parse_term p = Inr (l, p1)" "p_rest p1 = t # toks_term r @ rs"
    using term_reads[OF assms(1,3)] by (auto simp: reads_def)
  obtain p2 where p2: "parse_cmp_op p1 = Inr (op, p2)" "p_rest p2 = toks_term r @ rs"
    using t[OF p1(2)] by (auto simp: reads_def)
  obtain p3 where "parse_term p2 = Inr (r, p3)" "p_rest p3 = rs"
    using term_reads[OF assms(2) p2(2)] by (auto simp: reads_def)
  with p1 p2 peek show ?thesis
    by (cases "peek p"; cases "the (peek p)") (auto simp: reads_def parse_literal_def)
qed

lemma cmp_op_reads:
  "p_rest p = TEq # r \<Longrightarrow> reads parse_cmp_op p Eq r"
  "p_rest p = TNe # r \<Longrightarrow> reads parse_cmp_op p Ne r"
  "p_rest p = TLt # r \<Longrightarrow> reads parse_cmp_op p Lt r"
  "p_rest p = TLe # r \<Longrightarrow> reads parse_cmp_op p Le r"
  "p_rest p = TGt # r \<Longrightarrow> reads parse_cmp_op p Gt r"
  "p_rest p = TGe # r \<Longrightarrow> reads parse_cmp_op p Ge r"
  by (auto simp: reads_def parse_cmp_op_def dest!: bump_rest)

lemma literal_reads:
  assumes "wf_literal l" "p_rest p = toks_literal l @ r"
  shows "reads parse_literal p l r"
proof (cases l)
  case (LAtom a n)
  with assms show ?thesis
    by (auto intro!: ident_literal_reads[of a] simp: wf_atom_def desugar_base)
next
  case (LCmp op a b)
  with assms show ?thesis
    by (cases op)
       (auto intro: infix_literal_reads cmp_op_reads
         ident_literal_reads[of "\<lparr>pred = ''ieq'', args = [a, b]\<rparr>"]
         ident_literal_reads[of "\<lparr>pred = ''like'', args = [a, b]\<rparr>"] simp: desugar_builtin)
qed

lemma body_loop_reads:
  "list_all wf_literal ls \<Longrightarrow> p_rest p = toks_rest toks_literal ls @ r \<Longrightarrow> ends r \<Longrightarrow>
   reads body_loop p ls r"
proof (induction ls arbitrary: p)
  case Nil
  then show ?case
    by (subst reads_def, subst body_loop.simps) (auto simp: toks_rest_def peek_rest ends_def split: list.splits)
next
  case (Cons l ls)
  then have "p_rest p = Comma # toks_literal l @ toks_rest toks_literal ls @ r"
    by (simp add: toks_rest_def)
  then obtain p1 where p1: "peek p = Some Comma" "bump p = (Some Comma, p1)"
    and r1: "p_rest p1 = toks_literal l @ toks_rest toks_literal ls @ r"
    using bump_rest[of p] by (auto simp: peek_rest)
  from literal_reads[OF _ r1] Cons.prems obtain p2 where
    p2: "parse_literal p1 = Inr (l, p2)" "p_rest p2 = toks_rest toks_literal ls @ r"
    by (auto simp: reads_def)
  with Cons obtain p3 where "body_loop p2 = Inr (ls, p3)" "p_rest p3 = r"
    by (force simp: reads_def)
  with p1 p2 show ?case by (subst reads_def, subst body_loop.simps) simp
qed

lemma body_reads:
  assumes "wf_body ls" "p_rest p = toks_body ls @ r" "ends r"
  shows "reads parse_body p ls r"
proof -
  obtain l ms where ls: "ls = l # ms" using assms by (cases ls) (auto simp: wf_body_def)
  obtain p1 where p1: "parse_literal p = Inr (l, p1)" "p_rest p1 = toks_rest toks_literal ms @ r"
    using literal_reads[of l p] assms ls by (force simp: reads_def wf_body_def toks_body_def)
  have "reads body_loop p1 ms r"
    using body_loop_reads[of ms p1] p1 assms ls by (simp add: wf_body_def)
  with p1 ls show ?thesis by (auto simp: reads_def parse_body_def)
qed

lemma rule_reads:
  assumes "wf_atom (head ru)" "wf_body (body ru)" "p_rest p = toks_rule ru @ r"
  shows "reads parse_rule p ru r"
proof -
  obtain p1 where p1: "raw_atom p = Inr (head ru, p1)" "p_rest p1 = ColonDash # toks_body (body ru) @ Dot # r"
    using atom_reads[of "head ru" p] assms by (force simp: reads_def wf_atom_def toks_rule_def)
  obtain p2 where p2: "bump p1 = (Some ColonDash, p2)" "p_rest p2 = toks_body (body ru) @ Dot # r"
    using bump_rest[OF p1(2)] by auto
  obtain p3 where p3: "parse_body p2 = Inr (body ru, p3)" "p_rest p3 = Dot # r"
    using body_reads[OF assms(2) p2(2)] by (auto simp: reads_def)
  obtain p4 where "expect Dot ''.' after the rule body'' p3 = Inr ((), p4)" "p_rest p4 = r"
    using expect_reads[OF p3(2)] by (auto simp: reads_def)
  with p1 p2 p3 show ?thesis by (simp add: reads_def parse_rule_def peek_rest)
qed

lemma goal_reads:
  assumes "wf_body b" "p_rest p = QueryArrow # toks_body b @ [Dot]"
  shows "reads (\<lambda>p. program_loop p rs None) p (rs, Some \<lparr>q_body = b, columns = query_columns b\<rparr>) []"
proof -
  obtain p1 where p1: "bump p = (Some QueryArrow, p1)" "p_rest p1 = toks_body b @ [Dot]"
    using bump_rest[OF assms(2)] by auto
  obtain p2 where p2: "parse_body p1 = Inr (b, p2)" "p_rest p2 = [Dot]"
    using body_reads[OF assms(1) p1(2)] by (auto simp: reads_def)
  obtain p3 where p3: "expect Dot ''.' after the query goal'' p2 = Inr ((), p3)" "p_rest p3 = []"
    using expect_reads[OF p2(2)] by (auto simp: reads_def)
  have "program_loop p3 rs q = Inr ((rs, q), p3)" for q
    using p3(2) by (subst program_loop.simps) (simp add: peek_rest)
  with p1 p2 p3 assms(2) show ?thesis
    by (subst reads_def, subst program_loop.simps) (simp add: peek_rest)
qed

lemma toks_rule_nonempty: "\<exists>i ts. toks_rule r = TIdent i # ts"
  by (simp add: toks_rule_def toks_atom_def)

lemma program_loop_reads:
  assumes "list_all (\<lambda>r. wf_atom (head r) \<and> wf_body (body r)) us" "wf_body b"
    "p_rest p = concat (map toks_rule us) @ QueryArrow # toks_body b @ [Dot]"
  shows "reads (\<lambda>p. program_loop p rs None) p (rs @ us, Some \<lparr>q_body = b, columns = query_columns b\<rparr>) []"
  using assms
proof (induction us arbitrary: p rs)
  case Nil
  then show ?case by (simp add: goal_reads)
next
  case (Cons u us)
  obtain p1 where p1: "parse_rule p = Inr (u, p1)"
    "p_rest p1 = concat (map toks_rule us) @ QueryArrow # toks_body b @ [Dot]"
    using rule_reads[of u p] Cons.prems by (force simp: reads_def)
  moreover have "\<exists>i. peek p = Some (TIdent i)"
    using Cons.prems toks_rule_nonempty[of u] by (auto simp: peek_rest)
  ultimately have "program_loop p rs None = program_loop p1 (rs @ [u]) None"
    by (subst program_loop.simps) auto
  with Cons.IH[of p1 "rs @ [u]"] Cons.prems p1 show ?case by (simp add: reads_def)
qed

lemma wf_toks_term: "wf_term t \<Longrightarrow> list_all wf_tok (toks_term t)"
  by (cases t) auto

lemma wf_toks_seq:
  "list_all P xs \<Longrightarrow> (\<And>x. P x \<Longrightarrow> list_all wf_tok (f x)) \<Longrightarrow> list_all wf_tok (toks_seq f xs)"
  by (cases xs) (auto simp: toks_rest_def list_all_iff)

lemma wf_toks_atom: "wf_atom a \<Longrightarrow> list_all wf_tok (toks_atom a)"
  using wf_toks_seq[of wf_term "args a" toks_term] by (simp add: toks_atom_def wf_atom_def wf_toks_term)

lemma wf_builtin_ident: "wf_tok (TIdent ''ieq'')" "wf_tok (TIdent ''like'')"
  "wf_tok (TIdent ''node'')" "wf_tok (TIdent ''edge'')"
  by (simp_all add: is_ascii_lowercase_def is_ident_char_def is_ascii_alphanumeric_def)

lemma wf_toks_literal: "wf_literal l \<Longrightarrow> list_all wf_tok (toks_literal l)"
proof (cases l)
  case (LCmp op a b)
  assume "wf_literal l"
  with LCmp show ?thesis
    by (cases op) (simp_all add: wf_toks_term wf_toks_atom wf_atom_def wf_builtin_ident del: wf_tok.simps(1))
qed (simp add: wf_toks_atom)

lemma wf_toks_body: "wf_body b \<Longrightarrow> list_all wf_tok (toks_body b)"
  using wf_toks_seq[of wf_literal b toks_literal]
  by (simp add: toks_body_def wf_body_def wf_toks_literal)

lemma wf_toks_program: "wf_program p \<Longrightarrow> list_all wf_tok (toks_program p)"
  unfolding wf_program_def toks_program_def
  by (auto simp: list_all_iff toks_rule_def dest!: wf_toks_body wf_toks_atom)

lemma parse_show: "wf_program p \<Longrightarrow> parse_program (show_program p) = Inr p"
proof -
  assume wf: "wf_program p"
  let ?ts = "map (\<lambda>t. \<lparr>tok = t, line = 1\<rparr>) (toks_program p)"
  have "lex (show_program p) = Inr ?ts"
    using lex_render[OF wf_toks_program[OF wf]] by (simp add: lex_def show_program_def)
  moreover have "reads (\<lambda>p. program_loop p [] None) \<lparr>p_tokens = ?ts, p_pos = 0, p_anon = 0\<rparr>
      ([] @ rules p, Some \<lparr>q_body = q_body (goal p), columns = query_columns (q_body (goal p))\<rparr>) []"
    using wf by (intro program_loop_reads)
      (auto simp: wf_program_def p_rest_def toks_program_def comp_def)
  moreover have "\<lparr>q_body = q_body (goal p), columns = query_columns (q_body (goal p))\<rparr> = goal p"
    using wf by (simp add: wf_program_def)
  ultimately show ?thesis by (auto simp: reads_def parse_program_def parse_tokens_def)
qed

section \<open>What the parser returns is printable\<close>

definition good :: "parser \<Rightarrow> bool" where
  "good p \<longleftrightarrow> list_all (wf_tok \<circ> tok) (p_tokens p)"

lemma good_mono: "consumes p p' \<Longrightarrow> good p' = good p" "advances p p' \<Longrightarrow> good p' = good p"
  by (simp_all add: good_def consumes_def advances_def)

lemma good_bump: "good p \<Longrightarrow> bump p = (Some t, p') \<Longrightarrow> wf_tok t"
  by (auto simp: good_def bump_def peek_def list_all_length split: option.splits if_splits)

lemma good_bump_snd: "good p \<Longrightarrow> peek p = Some t \<Longrightarrow> good (snd (bump p))"
  by (simp add: good_mono(1)[OF bump_peek])

lemma show_uint_ident: "0 \<le> n \<Longrightarrow> list_all is_ident_char (show_uint n)"
  using show_uint_digits[of n] by (auto simp: list_all_iff is_ident_char_def is_ascii_alphanumeric_def)

lemma fresh_anonymous: "wf_term (Var (''_G'' @ show_nat n)) \<and> is_anonymous (''_G'' @ show_nat n)"
  using show_uint_ident[of "int n"]
  by (simp add: show_nat_def is_anonymous_def is_ident_char_def is_ascii_alphanumeric_def
      is_ascii_uppercase_def)

lemma parse_term_wf:
  assumes "good p" "parse_term p = Inr (t, p')"
  shows "wf_term t"
proof -
  obtain q u where b: "bump p = (u, q)" by (cases "bump p")
  with assms show ?thesis
    using fresh_anonymous[of "p_anon q"] good_bump[of p _ q]
    by (cases u; cases "the u") (auto simp: parse_term_def split: if_splits simp del: wf_tok.simps(2))
qed

lemma arg_loop_wf: "good p \<Longrightarrow> arg_loop p = Inr (ts, p') \<Longrightarrow> list_all wf_term ts"
proof (induction p arbitrary: ts p' rule: arg_loop.induct)
  case (1 p)
  show ?case
  proof (cases "peek p = Some Comma")
    case True
    with "1.prems" obtain x p1 xs where x: "parse_term (snd (bump p)) = Inr (x, p1)"
      and xs: "arg_loop p1 = Inr (xs, p')" and ts: "ts = x # xs"
      by (subst (asm) arg_loop.simps) auto
    have "good (snd (bump p))" using good_bump_snd[OF "1.prems"(1) True] .
    moreover from this have "good p1" using good_mono(1)[OF parse_term_consumes[OF x]] by simp
    ultimately show ?thesis
      using parse_term_wf[OF _ x] "1.IH"[OF True x refl _ xs] ts by simp
  next
    case False
    with "1.prems" show ?thesis by (subst (asm) arg_loop.simps) simp
  qed
qed

lemma parse_args_wf: "good p \<Longrightarrow> parse_args p = Inr (ts, p') \<Longrightarrow> list_all wf_term ts"
  by (auto simp: parse_args_def split: if_splits dest: parse_term_wf
      dest!: arg_loop_wf[rotated] simp: good_mono(1)[OF parse_term_consumes])

lemma raw_atom_wf:
  assumes "good p" "raw_atom p = Inr (a, p')"
  shows "wf_atom a"
proof -
  from assms(2) obtain name p1 p2 p3 as where
    b: "bump p = (Some (TIdent name), p1)" "expect LParen ''(' after a predicate name'' p1 = Inr ((), p2)"
    "parse_args p2 = Inr (as, p3)" and a: "a = \<lparr>pred = name, args = as\<rparr>"
    by (auto simp: raw_atom_def split: prod.splits option.splits tok.splits)
  have "good p2" using assms(1) b(1,2) by (simp add: good_mono(1)[OF bump_Some] good_mono(1)[OF expect_consumes])
  with b a show ?thesis
    using good_bump[OF assms(1) b(1)] parse_args_wf by (simp add: wf_atom_def)
qed

lemma base_form_node_edge [simp]: "base_form ''node''" "base_form ''edge''"
  by (simp_all add: base_form_def BUILTIN_PREDS_def label_sugar_def edge_sugar_def LABELS_def
      EDGE_TYPES_def eq_ignore_ascii_case_def to_ascii_lowercase_def is_ascii_uppercase_def)

lemma desugar_wf:
  assumes "wf_atom a" "desugar p a = Inr l"
  shows "wf_literal l"
  using assms wf_builtin_ident
  by (auto simp: desugar_def atom_lit_def wf_atom_def base_form_def[of "pred a"]
      split: if_splits list.splits option.splits simp del: wf_tok.simps(1))

lemma parse_literal_wf:
  assumes "good p" "parse_literal p = Inr (l, p')"
  shows "wf_literal l"
proof (cases "\<exists>i. peek p = Some (TIdent i)")
  case True
  with assms obtain a where "raw_atom p = Inr (a, p')" "desugar p' a = Inr l"
    by (auto simp: parse_literal_def)
  then show ?thesis using raw_atom_wf[OF assms(1)] desugar_wf by blast
next
  case False
  then have "starts_term (peek p)" using assms(2)
    by (auto simp: parse_literal_def split: option.splits tok.splits if_splits)
  with False assms(2) obtain a p1 op p2 b p3 where
    t: "parse_term p = Inr (a, p1)" "parse_cmp_op p1 = Inr (op, p2)" "parse_term p2 = Inr (b, p3)"
    and l: "l = LCmp op a b"
    by (auto simp: parse_literal_def split: option.splits tok.splits)
  have "good p2" using assms(1) t by (simp add: good_mono(1)[OF parse_term_consumes] good_mono(1)[OF parse_cmp_op_consumes])
  with t l assms(1) show ?thesis by (auto intro: parse_term_wf)
qed

lemma body_loop_wf: "good p \<Longrightarrow> body_loop p = Inr (ls, p') \<Longrightarrow> list_all wf_literal ls"
proof (induction p arbitrary: ls p' rule: body_loop.induct)
  case (1 p)
  show ?case
  proof (cases "peek p = Some Comma")
    case True
    with "1.prems" obtain x p1 xs where x: "parse_literal (snd (bump p)) = Inr (x, p1)"
      and xs: "body_loop p1 = Inr (xs, p')" and ls: "ls = x # xs"
      by (subst (asm) body_loop.simps) auto
    have "good (snd (bump p))" using good_bump_snd[OF "1.prems"(1) True] .
    moreover from this have "good p1" using good_mono(1)[OF parse_literal_consumes[OF x]] by simp
    ultimately show ?thesis
      using parse_literal_wf[OF _ x] "1.IH"[OF True x refl _ xs] ls by simp
  next
    case False
    with "1.prems" show ?thesis by (subst (asm) body_loop.simps) simp
  qed
qed

lemma parse_body_wf:
  assumes "good p" "parse_body p = Inr (ls, p')"
  shows "wf_body ls"
proof -
  from assms(2) obtain l p1 ms where l: "parse_literal p = Inr (l, p1)"
    and ms: "body_loop p1 = Inr (ms, p')" "ls = l # ms"
    by (auto simp: parse_body_def)
  have "good p1" using assms(1) good_mono(1)[OF parse_literal_consumes[OF l]] by simp
  with ms parse_literal_wf[OF assms(1) l] show ?thesis by (auto simp: wf_body_def dest: body_loop_wf)
qed

lemma parse_rule_wf:
  assumes "good p" "parse_rule p = Inr (r, p')"
  shows "wf_atom (head r) \<and> wf_body (body r)"
proof -
  from assms(2) obtain h p1 b p2 where
    h: "raw_atom p = Inr (h, p1)" "peek p1 = Some ColonDash" "parse_body (snd (bump p1)) = Inr (b, p2)"
    and r: "r = \<lparr>head = h, body = b\<rparr>"
    by (auto simp: parse_rule_def split: if_splits)
  have "good p1" using assms(1) good_mono(1)[OF raw_atom_consumes[OF h(1)]] by simp
  with h r raw_atom_wf[OF assms(1) h(1)] show ?thesis by (auto intro: parse_body_wf good_bump_snd)
qed

definition wf_clauses :: "rule list \<Rightarrow> query option \<Rightarrow> bool" where
  "wf_clauses rs q \<longleftrightarrow> list_all (\<lambda>r. wf_atom (head r) \<and> wf_body (body r)) rs
     \<and> (\<forall>g. q = Some g \<longrightarrow> wf_body (q_body g) \<and> columns g = query_columns (q_body g))"

lemma program_loop_wf:
  "good p \<Longrightarrow> wf_clauses rs q \<Longrightarrow> program_loop p rs q = Inr ((rs', q'), p') \<Longrightarrow> wf_clauses rs' q'"
proof (induction p rs q rule: program_loop.induct)
  case (1 p rs q)
  consider (None) "peek p = None" | (Goal) "peek p = Some QueryArrow"
    | (Rule) t where "peek p = Some t" "t \<noteq> QueryArrow" by (cases "peek p") auto
  then show ?case
  proof cases
    case None
    with "1.prems" show ?thesis by (subst (asm) program_loop.simps) simp
  next
    case Goal
    with "1.prems"(3) obtain b p1 p2 where
      b: "parse_body (snd (bump p)) = Inr (b, p1)" and d: "expect Dot ''.' after the query goal'' p1 = Inr ((), p2)"
      and q: "q = None" and rec: "program_loop p2 rs (Some \<lparr>q_body = b, columns = query_columns b\<rparr>) = Inr ((rs', q'), p')"
      by (subst (asm) program_loop.simps) (auto split: if_splits)
    have g: "good (snd (bump p))" using good_bump_snd[OF "1.prems"(1) Goal] .
    then have "good p2" using b d by (simp add: good_mono(1)[OF parse_body_consumes] good_mono(1)[OF expect_consumes])
    moreover have "wf_clauses rs (Some \<lparr>q_body = b, columns = query_columns b\<rparr>)"
      using "1.prems"(2) parse_body_wf[OF g b] by (simp add: wf_clauses_def)
    ultimately show ?thesis using "1.IH"(1)[OF Goal refl b refl d refl] q rec by simp
  next
    case Rule
    with "1.prems"(3) obtain r p1 where
      r: "parse_rule p = Inr (r, p1)" and rec: "program_loop p1 (rs @ [r]) q = Inr ((rs', q'), p')"
      by (subst (asm) program_loop.simps) auto
    have "good p1" using "1.prems"(1) good_mono(1)[OF parse_rule_consumes[OF r]] by simp
    moreover have "wf_clauses (rs @ [r]) q"
      using "1.prems"(2) parse_rule_wf[OF "1.prems"(1) r] by (simp add: wf_clauses_def)
    ultimately show ?thesis using "1.IH"(2)[OF Rule(1,2) r refl] rec by simp
  qed
qed

lemma parse_program_wf:
  assumes "parse_program src = Inr p"
  shows "wf_program p"
proof -
  from assms obtain ts rs g p' where ts: "lex src = Inr ts"
    and loop: "program_loop \<lparr>p_tokens = ts, p_pos = 0, p_anon = 0\<rparr> [] None = Inr ((rs, Some g), p')"
    and p: "p = \<lparr>rules = rs, goal = g\<rparr>"
    by (auto simp: parse_program_def parse_tokens_def split: option.splits)
  have "good \<lparr>p_tokens = ts, p_pos = 0, p_anon = 0\<rparr>"
    using lex_from_wf[of 1 src ts] ts by (simp add: good_def lex_def)
  from program_loop_wf[OF this _ loop] p show ?thesis
    by (simp add: wf_clauses_def wf_program_def)
qed

end
