(* ===== verification/Logic_Correct.thy ===== *)
theory Logic_Correct
  imports Logic_Total Logic_Print
begin

text \<open>
  The evaluator end to end: the answers are exactly the satisfying valuations in the least
  model, and an evaluation of a checked program ends in answers or in a limit error.
\<close>

section \<open>How a round ends\<close>

definition checked :: "program \<Rightarrow> bool" where
  "checked p \<longleftrightarrow> (\<forall>r \<in> set (rules p). safe_rule r)
     \<and> cmp_vars (q_body (goal p)) \<subseteq> body_vars (q_body (goal p))"

lemma check_checked: "check p = Inr u \<Longrightarrow> checked p"
  by (simp add: check_ok_iff well_formed_def checked_def)

lemma add_tuples_outcome:
  assumes "checked p" "counted p f st" "n \<in> head_preds p" "set ts \<subseteq> model p f n"
  shows "outcome (counted p f) (limit_error p f lm) (foldE (add_tuple lm n) st ts)"
proof (rule outcome_fold)
  fix s t assume t: "t \<in> set ts" and s: "counted p f s"
  have "es_derived s' \<le> derived_bound p f" if "counted p f s'" for s'
    using counted_bound that assms(1) by (simp add: checked_def)
  then have "\<not> generous p f lm" if "counted p f s'" "max_derived lm < es_derived s'" for s'
    using that by (force simp: generous_def)
  then show "outcome (counted p f) (limit_error p f lm) (add_tuple lm n s t)"
    using add_tuple_counted[OF s assms(3) subsetD[OF assms(4) t], of lm]
    by (auto simp del: One_nat_def simp: limit_error_def)
qed (rule assms(2))

lemma derive_full_outcome:
  assumes "checked p" "counted p f st" "r \<in> set (rules p)"
  shows "outcome (\<lambda>ts. set ts \<subseteq> model p f (pred (head r))) (limit_error p f lm) (derive_full r f (es_idb st) lm)"
proof -
  have "outcome (\<lambda>_. True) (limit_error p f lm) (derive_full r f (es_idb st) lm)"
    unfolding derive_full_def split_body_eq prod.case using assms
    by (intro outcome_bind[OF join_atoms_outcome]) (auto simp: checked_def intro: rel_full_short)
  moreover have "set ts \<subseteq> model p f (pred (head r))" if "derive_full r f (es_idb st) lm = Inr ts" for ts
    using derive_full_set[OF that, of p] heads_sound[OF assms(3), of "rels (es_idb st)" f] assms
    by (auto simp: checked_def counted_def st_ok_def)
  ultimately show ?thesis by (cases "derive_full r f (es_idb st) lm") auto
qed

definition delta_ok :: "program \<Rightarrow> db \<Rightarrow> db \<Rightarrow> eval_state \<Rightarrow> bool" where
  "delta_ok p f delta st \<longleftrightarrow> counted p f st \<and> keyed p delta \<and> distinct_rels delta
     \<and> (\<forall>n. rels delta n \<subseteq> rels (es_idb st) n)"

lemma derive_delta_outcome:
  assumes "checked p" "delta_ok p f delta st" "r \<in> set (rules p)"
  shows "outcome (\<lambda>ts. set ts \<subseteq> model p f (pred (head r))) (limit_error p f lm)
           (derive_delta r f (es_idb st) delta lm)"
proof -
  have c: "counted p f st" and d: "keyed p delta" "distinct_rels delta" "\<And>n. rels delta n \<subseteq> rels (es_idb st) n"
    using assms(2) by (simp_all add: delta_ok_def)
  have safe: "\<forall>r \<in> set (rules p). safe_rule r" using assms(1) by (simp add: checked_def)
  have "rels delta n \<subseteq> model p f n" for n using d(3)[of n] c by (auto simp: counted_def)
  then have short: "length ts \<le> facts_len f + tuple_bound p f" if "map_of delta n = Some ts" for n ts
    using counted_rel_short[OF safe _ d(1,2) that] by (meson trans_le_add2)
  have one: "outcome (\<lambda>_. True) (limit_error p f lm)
      (join_atoms (atoms_of (body r)) lm (\<lambda>i n. if i = j then map_of delta n else rel_full n f (es_idb st)))" for j
    using assms(3) short rel_full_short[OF safe c] by (intro join_atoms_outcome) (auto split: if_splits)
  have "outcome (\<lambda>_. True) (limit_error p f lm) (derive_delta r f (es_idb st) delta lm)"
    unfolding derive_delta_def split_body_eq prod.case
    by (rule outcome_fold) (simp, rule outcome_bind[OF one], simp)
  moreover have "set ts \<subseteq> model p f (pred (head r))" if "derive_delta r f (es_idb st) delta lm = Inr ts" for ts
    using derive_delta_set[OF that _ _ d(1,3)] heads_sound[OF assms(3), of "rels (es_idb st)" f]
      safe assms(3) c by (auto simp: counted_def st_ok_def heads_def)
  ultimately show ?thesis by (cases "derive_delta r f (es_idb st) delta lm") auto
qed

lemma distinct_empty_rels: "distinct_rels (empty_rels p)"
  by (auto simp: distinct_rels_def empty_rels_def dest!: map_of_SomeD)

lemma seed_round_outcome:
  assumes "checked p"
  shows "outcome (counted p f) (limit_error p f lm) (seed_round p f lm)"
  unfolding seed_round_def
proof (rule outcome_fold)
  have "facts_len (empty_rels p) = 0" by (simp add: facts_len_def empty_rels_def comp_def)
  then show "counted p f \<lparr>es_idb = empty_rels p, es_delta = empty_rels p, es_derived = 0\<rparr>"
    by (simp add: counted_def st_ok_def keyed_empty_rels rels_empty_rels distinct_empty_rels)
next
  fix s r assume r: "r \<in> set (rules p)" and s: "counted p f s"
  show "outcome (counted p f) (limit_error p f lm) (apply_rule (\<lambda>r idb. derive_full r f idb lm) lm s r)"
    unfolding apply_rule_def
    by (rule outcome_bind[OF derive_full_outcome[OF assms s r]]) (rule add_tuples_outcome[OF assms s head_in_preds[OF r]])
qed

lemma delta_round_outcome:
  assumes "checked p" "counted p f st"
  shows "outcome (counted p f) (limit_error p f lm) (delta_round p f lm st)"
proof -
  have "outcome (delta_ok p f (es_delta st)) (limit_error p f lm) (delta_round p f lm st)"
    unfolding delta_round_def
  proof (rule outcome_fold)
    show "delta_ok p f (es_delta st) (st\<lparr>es_delta := empty_rels p\<rparr>)"
      using assms(2) by (simp add: delta_ok_def counted_def st_ok_def keyed_empty_rels rels_empty_rels distinct_empty_rels)
  next
    fix s r assume r: "r \<in> set (rules p)" and s: "delta_ok p f (es_delta st) s"
    have c: "counted p f s" using s by (simp add: delta_ok_def)
    let ?m = "apply_rule (\<lambda>r idb. derive_delta r f idb (es_delta st) lm) lm s r"
    have "outcome (counted p f) (limit_error p f lm) ?m"
      unfolding apply_rule_def
      by (rule outcome_bind[OF derive_delta_outcome[OF assms(1) s r]])
         (rule add_tuples_outcome[OF assms(1) c head_in_preds[OF r]])
    moreover have "delta_ok p f (es_delta st) s'" if "?m = Inr s'" "counted p f s'" for s'
    proof -
      have "st_ok p s" using c by (simp add: counted_def)
      from apply_rule_effect[OF that(1) this r] have "grow s s'" by blast
      with s that(2) show ?thesis unfolding delta_ok_def grow_def by blast
    qed
    ultimately show "outcome (delta_ok p f (es_delta st)) (limit_error p f lm) ?m" by (cases ?m) auto
  qed
  then show ?thesis by (cases "delta_round p f lm st") (auto simp: delta_ok_def)
qed

section \<open>The loop and the evaluator\<close>

text \<open>Every round with a delta has derived something new, so the count of derived tuples
  bounds the number of rounds.\<close>

lemma counted_progress:
  assumes "counted p f st" "\<not> facts_is_empty (es_delta st)"
    and "\<And>n. rels I n \<subseteq> rels (es_idb st) n" "\<And>n. rels (es_delta st) n = rels (es_idb st) n - rels I n"
    and "keyed p I" "distinct_rels I"
  shows "facts_len I < es_derived st"
proof -
  have k: "keyed p (es_delta st)" "keyed p (es_idb st)" "distinct_rels (es_idb st)"
    using assms(1) by (simp_all add: counted_def st_ok_def)
  obtain n where n: "rels (es_delta st) n \<noteq> {}" using assms(2) keyed_is_empty[OF k(1)] by blast
  have fin: "finite (rels (es_idb st) m)" for m by (simp add: rels_def split: option.splits)
  have hn: "n \<in> head_preds p"
    using n keyed_none[OF k(1), of n] by (auto simp: rels_def split: option.splits)
  have "rels I n \<subset> rels (es_idb st) n" using n assms(3,4) by blast
  then have "card (rels I n) < card (rels (es_idb st) n)" by (rule psubset_card_mono[OF fin])
  moreover have "card (rels I m) \<le> card (rels (es_idb st) m)" for m by (rule card_mono[OF fin assms(3)])
  moreover have "finite (head_preds p)" by (simp add: head_preds_def)
  ultimately have "(\<Sum>m \<in> head_preds p. card (rels I m)) < (\<Sum>m \<in> head_preds p. card (rels (es_idb st) m))"
    using hn by (intro sum_strict_mono_ex1) auto
  then show ?thesis using facts_len_card[OF assms(5,6)] facts_len_card[OF k(2,3)] assms(1)
    by (simp add: counted_def)
qed

lemma fixpoint_outcome:
  "checked p \<Longrightarrow> seminaive p f st \<Longrightarrow> counted p f st \<Longrightarrow>
   facts_is_empty (es_delta st) \<or> n < es_derived st \<Longrightarrow>
   outcome (counted p f) (limit_error p f lm) (fixpoint_loop p f lm clock n st)"
proof (induction p f lm clock n st rule: fixpoint_loop.induct)
  case (1 p f lm clock n st)
  have safe: "\<forall>r \<in> set (rules p). safe_rule r" using 1(2) by (simp add: checked_def)
  show ?case
  proof (cases "facts_is_empty (es_delta st)")
    case True
    then show ?thesis using 1(4) by (subst fixpoint_loop.simps) simp
  next
    case False
    have le: "es_derived st \<le> derived_bound p f" by (rule counted_bound[OF safe 1(4)])
    have budget: "limit_error p f lm (EvalError (IterationBudget (max_iterations lm)))" if "n + 1 > max_iterations lm"
      using that le 1(5) False by (simp add: limit_error_def generous_def)
    have dl: "outcome (\<lambda>_. True) (limit_error p f lm) (check_deadline lm now)" for now
      by (auto simp: check_deadline_def guardE_def limit_error_def generous_def split: option.splits)
    have rest: "outcome (counted p f) (limit_error p f lm) (fixpoint_loop p f lm clock (n + 1) s)"
      if n: "\<not> n + 1 > max_iterations lm" and u: "check_deadline lm (clock (n + 1)) = Inr u"
        and s: "delta_round p f lm st = Inr s" and cs: "counted p f s" for u s
    proof -
      note e = delta_round_effect[OF s safe 1(3)]
      have "keyed p (es_idb st)" "distinct_rels (es_idb st)" "facts_len (es_idb st) = es_derived st"
        using 1(4) by (simp_all add: counted_def st_ok_def)
      then have "facts_is_empty (es_delta s) \<or> n + 1 < es_derived s"
        using counted_progress[OF cs, of "es_idb st"] e 1(5) False by fastforce
      with e show ?thesis using 1(1)[OF False n u s 1(2) _ cs] by blast
    qed
    show ?thesis
      using False budget rest
      by (subst fixpoint_loop.simps)
         (auto intro!: outcome_bind[OF dl] outcome_bind[OF delta_round_outcome[OF 1(2,4)]])
  qed
qed

lemma eval_outcome:
  assumes "checked p"
  shows "outcome (\<lambda>_. True) (limit_error p f lm) (eval p f lm clock)"
proof -
  have safe: "\<forall>r \<in> set (rules p). safe_rule r" using assms by (simp add: checked_def)
  have first: "outcome (\<lambda>_. True) (limit_error p f lm)
      (guardE (\<not> facts_len f > max_facts lm) (EvalError (TooManyFacts (facts_len f) (max_facts lm))))"
    by (auto simp: guardE_def limit_error_def generous_def)
  have loop: "outcome (counted p f) (limit_error p f lm) (fixpoint_loop p f lm clock 0 st)"
    if "seed_round p f lm = Inr st" "counted p f st" for st
  proof -
    note s = seed_round_seminaive[OF that(1) safe]
    have "0 < es_derived st" if "\<not> facts_is_empty (es_delta st)"
    proof -
      have "rels (es_delta st) n = rels (es_idb st) n - rels (empty_rels p) n" for n
        using seed_delta[OF \<open>seed_round p f lm = Inr st\<close> safe] by (simp add: rels_empty_rels)
      then have "facts_len (empty_rels p) < es_derived st"
        by (intro counted_progress[OF \<open>counted p f st\<close> that])
           (simp_all add: rels_empty_rels keyed_empty_rels distinct_empty_rels)
      then show ?thesis by simp
    qed
    with fixpoint_outcome[OF assms s that(2), of 0] show ?thesis by blast
  qed
  have join: "outcome (\<lambda>_. True) (limit_error p f lm)
      (join_atoms (fst (split_body (q_body (goal p)))) lm (\<lambda>_ n. rel_full n f (es_idb st)))"
    if "counted p f st" for st
    using rel_full_short[OF safe that] by (simp add: split_body_eq) (intro join_atoms_outcome, auto)
  show ?thesis
    unfolding eval_def
    by (rule outcome_bind[OF first], rule outcome_bind[OF seed_round_outcome[OF assms]],
        rule outcome_bind[OF loop], assumption, assumption, rule outcome_bind[OF join], assumption, simp)
qed

section \<open>The answers\<close>

definition answers :: "program \<Rightarrow> db \<Rightarrow> string list set" where
  "answers p f = {map \<sigma> (columns (goal p)) | \<sigma>. sat_body (model p f) (q_body (goal p)) \<sigma>}"

lemma query_rows_set:
  "distinct (query_rows q bs) \<and>
   set (query_rows q bs) = query_row (columns q) ` {b \<in> set bs. cmps_hold (cmps_of (q_body q)) b}"
proof -
  have "distinct (foldl (\<lambda>rows b. if P b then hs_insert (g b) rows else rows) rows bs) = distinct rows
    \<and> set (foldl (\<lambda>rows b. if P b then hs_insert (g b) rows else rows) rows bs) = set rows \<union> g ` {b \<in> set bs. P b}"
    for P and g :: "binding \<Rightarrow> string list" and rows
    by (induction bs arbitrary: rows) auto
  then show ?thesis by (simp add: query_rows_def split_body_eq)
qed

lemma eval_answers:
  assumes "checked p" "set (columns (goal p)) \<subseteq> body_vars (q_body (goal p))" "eval p f lm clock = Inr out"
  shows "out_columns out = columns (goal p) \<and> distinct (out_rows out) \<and> set (out_rows out) = answers p f"
proof -
  have safe: "\<forall>r \<in> set (rules p). safe_rule r" using assms(1) by (simp add: checked_def)
  from assms(3) obtain st0 st bs where s0: "seed_round p f lm = Inr st0"
    and st: "fixpoint_loop p f lm clock 0 st0 = Inr st"
    and bs: "join_atoms (atoms_of (q_body (goal p))) lm (\<lambda>_ n. rel_full n f (es_idb st)) = Inr bs"
    and out: "out = \<lparr>out_columns = columns (goal p), out_rows = query_rows (goal p) bs\<rparr>"
    by (auto simp: eval_def split_body_eq)
  note m = fixpoint_model[OF s0 st safe]
  let ?ts = "map Var (columns (goal p))"
  have R: "rset (\<lambda>_ n. rel_full n f (es_idb st)) = (\<lambda>_. model p f)"
    using m rel_full_eq[of p "es_idb st" f] by (intro ext) (simp add: st_ok_def)
  have "query_row (columns (goal p)) = (\<lambda>\<beta>. map (head_value \<beta>) ?ts)"
    by (simp add: query_row_def fun_eq_iff)
  then have "set (query_rows (goal p) bs) = (\<lambda>\<beta>. map (head_value \<beta>) ?ts) `
      {\<beta> \<in> set bs. cmps_hold (cmps_of (q_body (goal p))) \<beta>}"
    by (simp only: query_rows_set)
  also have "\<dots> = {map (eval_term \<sigma>) ?ts | \<sigma>. sat_at (\<lambda>_. model p f) 0 (atoms_of (q_body (goal p))) \<sigma>
      \<and> cmps_true (cmps_of (q_body (goal p))) \<sigma>}"
  proof -
    have "vars_of ?ts \<subseteq> body_vars (q_body (goal p))" using assms(2) by (auto simp: vars_of_def)
    from join_projection[OF bs _ this] assms(1) show ?thesis by (simp only: R checked_def)
  qed
  finally have "set (query_rows (goal p) bs) = answers p f"
    by (simp add: answers_def sat_body_def sat_at_uniform comp_def)
  with out query_rows_set show ?thesis by simp
qed

end
