(* ===== verification/Logic_Results.thy ===== *)
theory Logic_Results
  imports Logic_Correct
begin

text \<open>
  What the Datalog crate promises its callers, stated over its two entry points
  \<open>parse\<close> and \<open>eval\<close> of \<open>crates/catalerum-logic/src/lib.rs\<close>, and a small recursive program
  on which the statements are run.
\<close>

section \<open>Parsed programs\<close>

lemma set_query_columns:
  "set (query_columns b) = {v. \<not> is_anonymous v \<and> (\<exists>l \<in> set b. Var v \<in> set (literal_terms l))}
   \<and> distinct (query_columns b)"
proof -
  have inner: "set (foldl (\<lambda>cs t. push_term_var t cs) cols ts)
      = set cols \<union> {v. \<not> is_anonymous v \<and> Var v \<in> set ts}
    \<and> (distinct cols \<longrightarrow> distinct (foldl (\<lambda>cs t. push_term_var t cs) cols ts))" for cols ts
    by (induction ts arbitrary: cols) (auto simp: set_push_term_var)
  have "set (foldl (\<lambda>cols l. foldl (\<lambda>cs t. push_term_var t cs) cols (literal_terms l)) cols b)
      = set cols \<union> {v. \<not> is_anonymous v \<and> (\<exists>l \<in> set b. Var v \<in> set (literal_terms l))}
    \<and> (distinct cols \<longrightarrow> distinct (foldl (\<lambda>cols l. foldl (\<lambda>cs t. push_term_var t cs) cols (literal_terms l)) cols b))"
    for cols
  proof (induction b arbitrary: cols)
    case (Cons l b)
    show ?case using Cons.IH inner[of cols "literal_terms l"] by (simp only: foldl_Cons list.set) blast
  qed simp
  from this[of "[]"] show ?thesis by (simp add: query_columns_def)
qed

lemma literal_terms_bound:
  "cmp_vars b \<subseteq> body_vars b \<Longrightarrow> l \<in> set b \<Longrightarrow> Var v \<in> set (literal_terms l) \<Longrightarrow> v \<in> body_vars b"
proof (cases l)
  case (LAtom a n)
  assume "l \<in> set b" "Var v \<in> set (literal_terms l)"
  with LAtom show ?thesis by (auto simp: body_vars_def set_atoms_of)
next
  case (LCmp op x y)
  assume a: "cmp_vars b \<subseteq> body_vars b" "l \<in> set b" "Var v \<in> set (literal_terms l)"
  then have "(op, x, y) \<in> set (cmps_of b)" "Var v = x \<or> Var v = y" using LCmp by (auto simp: set_cmps_of)
  then have "v \<in> cmp_vars b" unfolding cmp_vars_def by blast
  with a(1) show ?thesis by blast
qed

lemma parse_goal:
  assumes "parse src = Inr p"
  shows "checked p" "set (columns (goal p)) \<subseteq> body_vars (q_body (goal p))" "distinct (columns (goal p))"
    "parse_program src = Inr p" "well_formed p" "wf_program p"
proof -
  show p: "parse_program src = Inr p" and wf: "well_formed p"
    using assms by (auto simp: parse_def check_ok_iff)
  show c: "checked p" using wf by (simp add: checked_def well_formed_def)
  show w: "wf_program p" by (rule parse_program_wf[OF p])
  then have q: "columns (goal p) = query_columns (q_body (goal p))" by (simp add: wf_program_def)
  show "distinct (columns (goal p))" using q set_query_columns by simp
  show "set (columns (goal p)) \<subseteq> body_vars (q_body (goal p))"
    using c literal_terms_bound by (auto simp: q set_query_columns checked_def)
qed

section \<open>Monotonicity\<close>

lemma holds_mono:
  assumes "holds p f n t" "\<And>n. rels f n \<subseteq> rels g n" shows "holds p g n t"
  using assms(1)
proof (induction rule: holds.induct)
  case (fact n t)
  then show ?case using assms(2)[of n] by (blast intro: holds.fact)
next
  case (rule r \<sigma>)
  then show ?case by (blast intro: holds.rule)
qed

lemma answers_mono:
  assumes "\<And>n. rels f n \<subseteq> rels g n" shows "answers p f \<subseteq> answers p g"
proof -
  have "model p f n \<subseteq> model p g n" for n using holds_mono[OF _ assms] by (auto simp: model_def)
  then have "sat_body (model p g) b \<sigma>" if "sat_body (model p f) b \<sigma>" for b \<sigma>
    using sat_body_mono that by blast
  then show ?thesis by (auto simp: answers_def)
qed

section \<open>A recursive program\<close>

definition reach_src :: string where
  "reach_src = ''reach(X, Y) :- references(X, Y). reach(X, Y) :- references(X, Z), reach(Z, Y).
   ?- reach(\"a\", Y).''"

definition reach_prog :: program where
  "reach_prog = \<lparr>rules =
     [\<lparr>head = \<lparr>pred = ''reach'', args = [Var ''X'', Var ''Y'']\<rparr>,
       body = [LAtom \<lparr>pred = ''edge'', args = [Var ''X'', Const ''REFERENCES'', Var ''Y'']\<rparr> False]\<rparr>,
      \<lparr>head = \<lparr>pred = ''reach'', args = [Var ''X'', Var ''Y'']\<rparr>,
       body = [LAtom \<lparr>pred = ''edge'', args = [Var ''X'', Const ''REFERENCES'', Var ''Z'']\<rparr> False,
               LAtom \<lparr>pred = ''reach'', args = [Var ''Z'', Var ''Y'']\<rparr> False]\<rparr>],
     goal = \<lparr>q_body = [LAtom \<lparr>pred = ''reach'', args = [Const ''a'', Var ''Y'']\<rparr> False],
             columns = [''Y'']\<rparr>\<rparr>"

definition reach_facts :: db where
  "reach_facts =
     facts_edge ''a'' ''REFERENCES'' ''b'' (facts_edge ''b'' ''REFERENCES'' ''c'' facts_new)"

definition swapped_facts :: db where
  "swapped_facts =
     facts_edge ''b'' ''REFERENCES'' ''c'' (facts_edge ''a'' ''REFERENCES'' ''b'' facts_new)"

definition tight_limits :: limits where
  "tight_limits = \<lparr>max_facts = 10, max_derived = 2, max_iterations = 5, deadline = None\<rparr>"

lemma reach_parse_program: "parse_program reach_src = Inr reach_prog"
  by (simp add: reach_src_def reach_prog_def run)

lemma reach_check: "check reach_prog = Inr ()"
  by (simp add: reach_prog_def run)

lemma reach_parse: "parse reach_src = Inr reach_prog"
  by (simp add: parse_def reach_parse_program reach_check)

lemma reach_eval:
  "eval reach_prog reach_facts default_limits (\<lambda>_. 0)
     = Inr \<lparr>out_columns = [''Y''], out_rows = [[''b''], [''c'']]\<rparr>"
  by (simp add: reach_prog_def reach_facts_def run)

lemma swapped_eval:
  "eval reach_prog swapped_facts default_limits (\<lambda>_. 0)
     = Inr \<lparr>out_columns = [''Y''], out_rows = [[''b''], [''c'']]\<rparr>"
  by (simp add: reach_prog_def swapped_facts_def run)

lemma reach_eval_tight:
  "eval reach_prog reach_facts tight_limits (\<lambda>_. 0) = Inl (EvalError (DerivedBudget 2))"
  by (simp add: reach_prog_def reach_facts_def tight_limits_def run)

lemma reach_facts_len: "facts_len reach_facts = 2"
  by (simp add: reach_facts_def run)

lemma reach_tuple_bound: "tuple_bound reach_prog reach_facts = 200"
  by (simp add: reach_prog_def reach_facts_def run val_count_def tuple_bound_def)

lemma reach_generous: "generous reach_prog reach_facts default_limits"
  by (simp add: generous_def derived_bound_def join_bound_def reach_facts_len reach_tuple_bound)
     (simp add: reach_prog_def default_limits_def)

lemma reach_not_generous: "\<not> generous reach_prog reach_facts tight_limits"
  by (simp add: generous_def derived_bound_def reach_tuple_bound) (simp add: reach_prog_def tight_limits_def)

lemma reach_facts_rels: "rels reach_facts n = rels swapped_facts n"
  by (auto simp: rels_def reach_facts_def swapped_facts_def run)

section \<open>The properties\<close>

text \<open>C1: the evaluator is sound and complete. When the evaluation of a parsed program
  returns, its columns are the goal's, its rows are duplicate-free, and the rows are exactly
  the values of the columns under the valuations that satisfy the goal in the least model of
  the rules over the facts.\<close>

theorem eval_exact:
  assumes "parse src = Inr p" "eval p f lm clock = Inr out"
  shows "out_columns out = columns (goal p) \<and> distinct (out_rows out) \<and> set (out_rows out) = answers p f"
  by (rule eval_answers[OF parse_goal(1,2)[OF assms(1)] assms(2)])

theorem eval_exact_witness: "answers reach_prog reach_facts = {[''b''], [''c'']}"
  using eval_exact[OF reach_parse reach_eval] by simp

text \<open>C34: evaluation terminates with a result. Under limits above the explicit bounds of
  \<open>generous\<close>, whatever the clock reads, a parsed program has an answer.\<close>

theorem eval_returns:
  assumes "parse src = Inr p" "generous p f lm"
  shows "\<exists>out. eval p f lm clock = Inr out"
  using eval_outcome[OF parse_goal(1)[OF assms(1)], of f lm clock] assms(2)
  by (cases "eval p f lm clock") (auto simp: limit_error_def)

theorem eval_returns_witness: "\<exists>out. eval reach_prog reach_facts default_limits (\<lambda>n. n) = Inr out"
  by (rule eval_returns[OF reach_parse reach_generous])

text \<open>An evaluation that fails, fails on a resource limit: it is an \<open>Eval\<close> error, never one
  of the two \<open>expect\<close> panics, and only under limits that are not generous.\<close>

theorem eval_fails_only_on_limits:
  assumes "parse src = Inr p" "eval p f lm clock = Inl e"
  shows "(\<exists>m. e = EvalError m) \<and> \<not> generous p f lm"
  using eval_outcome[OF parse_goal(1)[OF assms(1)], of f lm clock] assms(2) by (simp add: limit_error_def)

theorem eval_fails_only_on_limits_witness:
  "(\<exists>m. (EvalError (DerivedBudget 2) :: lerr) = EvalError m) \<and> \<not> generous reach_prog reach_facts tight_limits"
  by (rule eval_fails_only_on_limits[OF reach_parse reach_eval_tight])

text \<open>The answer does not depend on the order facts were added in, on the limits or on the
  clock: two runs over the same relations that both return, return the same rows.\<close>

theorem eval_deterministic:
  assumes "parse src = Inr p" "\<And>n. rels f n = rels g n"
    and "eval p f lm clock = Inr a" "eval p g lm' clock' = Inr b"
  shows "out_columns a = out_columns b \<and> set (out_rows a) = set (out_rows b)"
proof -
  have "answers p f = answers p g" using answers_mono[of f g p] answers_mono[of g f p] assms(2) by auto
  then show ?thesis
    using eval_answers[OF parse_goal(1,2)[OF assms(1)] assms(3)]
      eval_answers[OF parse_goal(1,2)[OF assms(1)] assms(4)] by simp
qed

theorem eval_deterministic_witness:
  "set [[''b''], [''c'']] = set (out_rows \<lparr>out_columns = [''Y''], out_rows = [[''b''], [''c'']]\<rparr>)"
  using eval_deterministic[OF reach_parse reach_facts_rels reach_eval swapped_eval] by simp

text \<open>The language is positive. Adding facts to the relations never removes a row from the
  answer of a program that returns on both.\<close>

theorem eval_monotone:
  assumes "parse src = Inr p" "\<And>n. rels f n \<subseteq> rels g n"
    and "eval p f lm clock = Inr a" "eval p g lm' clock' = Inr b"
  shows "set (out_rows a) \<subseteq> set (out_rows b)"
  using eval_answers[OF parse_goal(1,2)[OF assms(1)] assms(3)]
    eval_answers[OF parse_goal(1,2)[OF assms(1)] assms(4)] answers_mono[of f g p, OF assms(2)] by simp

theorem eval_monotone_witness: "set (out_rows \<lparr>out_columns = [''Y''], out_rows = [[''b''], [''c'']]\<rparr>)
    \<subseteq> set [[''b''], [''c'']]"
proof -
  have "rels reach_facts n \<subseteq> rels swapped_facts n" for n by (simp add: reach_facts_rels)
  from eval_monotone[OF reach_parse this reach_eval swapped_eval] show ?thesis by simp
qed

text \<open>The semi-naive loop computes the least model. When seeding and looping return, a
  tuple is in a derived relation exactly when the rules derive it from the facts.\<close>

theorem fixpoint_least_model:
  assumes "check p = Inr u" "seed_round p f lm = Inr st0" "fixpoint_loop p f lm clock 0 st0 = Inr st"
    and "n \<in> head_preds p"
  shows "(t \<in> rels (es_idb st) n) = holds p f n t"
proof -
  have "\<forall>r \<in> set (rules p). safe_rule r" using check_checked[OF assms(1)] by (simp add: checked_def)
  from fixpoint_model[OF assms(2,3) this] assms(4) show ?thesis
    by (auto simp: full_def model_def fun_eq_iff split: if_splits)
qed

definition reach_state :: eval_state where
  "reach_state = \<lparr>es_idb = [(''reach'', [[''b'', ''c''], [''a'', ''b''], [''a'', ''c'']])],
     es_delta = [(''reach'', [])], es_derived = 3\<rparr>"

definition reach_seed :: eval_state where
  "reach_seed = \<lparr>es_idb = [(''reach'', [[''b'', ''c''], [''a'', ''b''], [''a'', ''c'']])],
     es_delta = [(''reach'', [[''b'', ''c''], [''a'', ''b''], [''a'', ''c'']])], es_derived = 3\<rparr>"

theorem fixpoint_least_model_witness: "holds reach_prog reach_facts ''reach'' [''a'', ''c'']"
proof -
  have "seed_round reach_prog reach_facts default_limits = Inr reach_seed"
    by (simp add: reach_prog_def reach_facts_def reach_seed_def run)
  moreover have "fixpoint_loop reach_prog reach_facts default_limits (\<lambda>_. 0) 0 reach_seed = Inr reach_state"
    by (simp add: reach_prog_def reach_facts_def reach_seed_def reach_state_def run)
  moreover have "''reach'' \<in> head_preds reach_prog" by (simp add: head_preds_def reach_prog_def)
  ultimately have "([''a'', ''c''] \<in> rels (es_idb reach_state) ''reach'') = holds reach_prog reach_facts ''reach'' [''a'', ''c'']"
    by (rule fixpoint_least_model[OF reach_check])
  then show ?thesis by (simp add: rels_def reach_state_def)
qed

text \<open>C35: the authoring-time check decides well-formedness: a source validates exactly when it
  parses to a program within the size limits, whose heads are not reserved, with one arity
  per predicate and the base arities respected, over known predicates, and range-restricted.\<close>

theorem validate_iff_well_formed:
  "validate src = Inr () \<longleftrightarrow> (\<exists>p. parse_program src = Inr p \<and> well_formed p)"
  by (auto simp: validate_def parse_def check_ok_iff)

text \<open>C38: printing is a right inverse of parsing. Every program of the shape the parser can
  return is returned for its own printed form.\<close>

theorem parse_show_program:
  assumes "wf_program p" shows "parse_program (show_program p) = Inr p"
  by (rule parse_show[OF assms])

theorem parse_show_program_witness: "parse_program (show_program reach_prog) = Inr reach_prog"
  by (rule parse_show_program[OF parse_goal(6)[OF reach_parse]])

text \<open>A program that was accepted stays accepted after printing, as the same program; the
  printed form of what was parsed is a normal form of the source.\<close>

theorem parse_normal_form:
  assumes "parse src = Inr p" shows "parse (show_program p) = Inr p"
  using parse_show[OF parse_goal(6)[OF assms]] parse_goal(5)[OF assms] by (simp add: parse_def check_ok_iff)

theorem parse_normal_form_witness: "parse (show_program reach_prog) = Inr reach_prog"
  by (rule parse_normal_form[OF reach_parse])

text \<open>The tokens of any source are printable, and scanning the printed tokens gives the
  same tokens back.\<close>

theorem lex_normal_form:
  assumes "lex src = Inr ts" shows "lex (render (map tok ts)) = Inr (map (\<lambda>t. t\<lparr>line := 1\<rparr>) ts)"
proof -
  have "list_all wf_tok (map tok ts)"
    using lex_from_wf[of 1 src ts] assms by (simp add: lex_def list_all_iff)
  then show ?thesis using lex_render[of "map tok ts" 1] by (simp add: lex_def comp_def)
qed

theorem lex_normal_form_witness:
  "lex (render [TIdent ''p'', LParen, TVar ''X'', RParen, Dot])
     = Inr (map (\<lambda>t. \<lparr>tok = t, line = 1\<rparr>) [TIdent ''p'', LParen, TVar ''X'', RParen, Dot])"
  using lex_normal_form[of "''p(X) % head'' @ [CHR 0x0A] @ ''.''"
    "[\<lparr>tok = TIdent ''p'', line = 1\<rparr>, \<lparr>tok = LParen, line = 1\<rparr>, \<lparr>tok = TVar ''X'', line = 1\<rparr>,
      \<lparr>tok = RParen, line = 1\<rparr>, \<lparr>tok = Dot, line = 2\<rparr>]"]
  by (simp add: run)

end
