(* ===== verification/Cap_Glob.thy ===== *)
theory Cap_Glob
  imports Prelude
begin

text \<open>
  The selector globs of \<open>crates/catalerum-core/src/capability.rs\<close>: the two-pointer matcher
  within a segment and the segment-wise \<open>glob_covers\<close>. The matcher is compared with the
  declarative meaning of a glob, where \<open>*\<close> stands for any run of characters.
\<close>

section \<open>Within a segment\<close>

definition star :: char where
  "star = CHR ''*''"

function seg_loop :: "string \<Rightarrow> string \<Rightarrow> nat \<Rightarrow> nat \<Rightarrow> nat option \<Rightarrow> nat \<Rightarrow> nat option" where
  "seg_loop p v pi vi st mark =
     (if vi < length v then
        if pi < length p \<and> p ! pi = v ! vi then seg_loop p v (pi + 1) (vi + 1) st mark
        else if pi < length p \<and> p ! pi = star then seg_loop p v (pi + 1) vi (Some pi) vi
        else (case st of
                Some sp \<Rightarrow> seg_loop p v (sp + 1) (mark + 1) st (mark + 1)
              | None \<Rightarrow> None)
      else Some pi)"
  by pat_completeness auto

text \<open>
  Termination does not need the loop's invariant \<open>mark \<le> vi\<close>: a state that violates it can
  only turn into one that keeps it.
\<close>

termination
  by (relation "measures [\<lambda>(p, v, pi, vi, st, mark). if vi < mark then 1 else 0,
        \<lambda>(p, v, pi, vi, st, mark). length v - mark,
        \<lambda>(p, v, pi, vi, st, mark). length v - vi,
        \<lambda>(p, v, pi, vi, st, mark). length p - pi]") auto

declare seg_loop.simps [simp del]

lemma seg_loop_done: "\<not> vi < length v \<Longrightarrow> seg_loop p v pi vi st mark = Some pi"
  by (subst seg_loop.simps) simp

lemma seg_loop_literal:
  "vi < length v \<Longrightarrow> pi < length p \<and> p ! pi = v ! vi \<Longrightarrow>
   seg_loop p v pi vi st mark = seg_loop p v (pi + 1) (vi + 1) st mark"
  by (subst seg_loop.simps) simp

lemma seg_loop_star:
  "vi < length v \<Longrightarrow> \<not> (pi < length p \<and> p ! pi = v ! vi) \<Longrightarrow> pi < length p \<and> p ! pi = star \<Longrightarrow>
   seg_loop p v pi vi st mark = seg_loop p v (pi + 1) vi (Some pi) vi"
  by (subst seg_loop.simps) simp

lemma seg_loop_retry:
  "vi < length v \<Longrightarrow> \<not> (pi < length p \<and> p ! pi = v ! vi) \<Longrightarrow> \<not> (pi < length p \<and> p ! pi = star) \<Longrightarrow>
   seg_loop p v pi vi (Some sp) mark = seg_loop p v (sp + 1) (mark + 1) (Some sp) (mark + 1)"
  by (subst seg_loop.simps) auto

fun skip_stars :: "string \<Rightarrow> string" where
  "skip_stars [] = []"
| "skip_stars (c # p) = (if c = star then skip_stars p else c # p)"

definition segment_matches :: "string \<Rightarrow> string \<Rightarrow> bool" where
  "segment_matches p v =
     (case seg_loop p v 0 0 None 0 of
        None \<Rightarrow> False
      | Some pi \<Rightarrow> skip_stars (drop pi p) = [])"

section \<open>The meaning of a glob\<close>

fun glob :: "string \<Rightarrow> string \<Rightarrow> bool" where
  "glob [] v = (v = [])"
| "glob (c # p) v =
     (if c = star then (\<exists>k \<le> length v. glob p (drop k v))
      else (case v of [] \<Rightarrow> False | d # w \<Rightarrow> c = d \<and> glob p w))"

lemma glob_star: "glob (star # p) v \<longleftrightarrow> (\<exists>u w. v = u @ w \<and> glob p w)"
proof
  assume "glob (star # p) v"
  then obtain k where "glob p (drop k v)" by auto
  then show "\<exists>u w. v = u @ w \<and> glob p w" by (metis append_take_drop_id)
next
  assume "\<exists>u w. v = u @ w \<and> glob p w"
  then obtain u w where "v = u @ w" "glob p w" by blast
  then show "glob (star # p) v" by (auto intro!: exI[of _ "length u"])
qed

lemma glob_lit: "c \<noteq> star \<Longrightarrow> glob (c # p) v \<longleftrightarrow> (\<exists>w. v = c # w \<and> glob p w)"
  by (auto split: list.splits)

declare glob.simps(2) [simp del]

lemma glob_star_skip: "glob (star # p) w \<Longrightarrow> glob (star # p) (u @ w)"
  unfolding glob_star by (metis append.assoc)

lemma glob_star_step: "glob (star # p) v \<longleftrightarrow> glob p v \<or> (\<exists>d w. v = d # w \<and> glob (star # p) w)"
proof
  assume "glob (star # p) v"
  then obtain u w where v: "v = u @ w" "glob p w" by (auto simp: glob_star)
  show "glob p v \<or> (\<exists>d w. v = d # w \<and> glob (star # p) w)"
  proof (cases u)
    case (Cons d u')
    then have "v = d # (u' @ w)" "glob (star # p) (u' @ w)" using v glob_star by auto
    then show ?thesis by blast
  qed (use v in simp)
next
  assume "glob p v \<or> (\<exists>d w. v = d # w \<and> glob (star # p) w)"
  then show "glob (star # p) v" unfolding glob_star by (metis append_Cons append_Nil)
qed

lemma glob_star_none: "glob p v \<Longrightarrow> glob (star # p) v"
  using glob_star_step by blast

lemma glob_char: "glob p w \<Longrightarrow> glob (c # p) (c # w)"
  by (cases "c = star") (auto simp: glob_lit glob_star intro: exI[of _ "[c]"])

lemma glob_lits: "glob q w \<Longrightarrow> glob (l @ q) (l @ w)"
  by (induction l) (auto intro: glob_char)

lemma glob_lits_iff: "star \<notin> set l \<Longrightarrow> glob (l @ q) v \<longleftrightarrow> (\<exists>w. v = l @ w \<and> glob q w)"
  by (induction l arbitrary: v) (auto simp: glob_lit)

lemma glob_nil: "glob p [] \<longleftrightarrow> skip_stars p = []"
proof (induction p)
  case (Cons c p)
  then show ?case by (cases "c = star") (auto simp: glob_star glob_lit)
qed simp

lemma glob_literal: "star \<notin> set p \<Longrightarrow> glob p v \<longleftrightarrow> v = p"
  using glob_lits_iff[of p "[]" v] by auto

text \<open>Reading a pattern that is matched as a value: globbing is transitive.\<close>

lemma glob_split: "glob (p @ q) v \<Longrightarrow> \<exists>x y. v = x @ y \<and> glob p x \<and> glob q y"
proof (induction p arbitrary: v)
  case (Cons c p)
  show ?case
  proof (cases "c = star")
    case True
    with Cons.prems obtain u w where v: "v = u @ w" "glob (p @ q) w" by (auto simp: glob_star)
    from Cons.IH[OF v(2)] obtain x y where xy: "w = x @ y" "glob p x" "glob q y" by blast
    then have "v = (u @ x) @ y" "glob (c # p) (u @ x)" using v True by (auto simp: glob_star)
    with xy(3) show ?thesis by blast
  next
    case False
    with Cons.prems obtain w where v: "v = c # w" "glob (p @ q) w" by (auto simp: glob_lit)
    from Cons.IH[OF v(2)] obtain x y where "w = x @ y" "glob p x" "glob q y" by blast
    then have "v = (c # x) @ y" "glob (c # p) (c # x)" "glob q y" using v False by (auto simp: glob_lit)
    then show ?thesis by blast
  qed
qed simp

lemma glob_trans: "glob p q \<Longrightarrow> glob q v \<Longrightarrow> glob p v"
proof (induction p arbitrary: q v)
  case (Cons c p)
  show ?case
  proof (cases "c = star")
    case True
    with Cons.prems(1) obtain u w where q: "q = u @ w" "glob p w" by (auto simp: glob_star)
    with Cons.prems(2) obtain x y where "v = x @ y" "glob w y" using glob_split by blast
    with Cons.IH[OF q(2)] True show ?thesis by (auto simp: glob_star)
  next
    case False
    with Cons.prems(1) obtain w where q: "q = c # w" "glob p w" by (auto simp: glob_lit)
    with Cons.prems(2) False obtain y where "v = c # y" "glob w y" by (auto simp: glob_lit)
    with Cons.IH[OF q(2)] False show ?thesis by (auto simp: glob_lit)
  qed
qed auto

section \<open>The matcher is sound\<close>

text \<open>A star that was seen, with what still has to match from its mark.\<close>

definition retry :: "string \<Rightarrow> string \<Rightarrow> nat option \<Rightarrow> nat \<Rightarrow> bool" where
  "retry p v st mark \<longleftrightarrow>
     (case st of None \<Rightarrow> False | Some sp \<Rightarrow> sp < length p \<and> p ! sp = star \<and> glob (drop sp p) (drop mark v))"

lemma drop_star: "sp < length p \<Longrightarrow> p ! sp = star \<Longrightarrow> drop sp p = star # drop (sp + 1) p"
  by (metis Cons_nth_drop_Suc Suc_eq_plus1)

lemma drop_value: "vi < length v \<Longrightarrow> drop vi v = v ! vi # drop (vi + 1) v"
  by (metis Cons_nth_drop_Suc Suc_eq_plus1)

lemma seg_loop_sound:
  assumes "seg_loop p v pi vi st mark = Some r" "skip_stars (drop r p) = []"
    and "glob (drop pi p) (drop vi v) \<Longrightarrow> glob p v"
    and "\<And>sp. st = Some sp \<Longrightarrow> sp < length p \<and> p ! sp = star"
    and "\<And>k. retry p v st (mark + k) \<Longrightarrow> glob p v"
  shows "glob p v"
  using assms
proof (induction p v pi vi st mark rule: seg_loop.induct)
  case (1 p v pi vi st mark)
  note loop = 1(4)[unfolded seg_loop.simps[of p v pi vi]]
  show ?case
  proof (cases "vi < length v")
    case False
    with loop have "r = pi" by simp
    then have "glob (drop pi p) (drop vi v)" using False 1(5) by (simp add: glob_nil)
    then show ?thesis by (rule 1(6))
  next
    case vi: True
    note dv = drop_value[OF vi]
    show ?thesis
    proof (cases "pi < length p \<and> p ! pi = v ! vi")
      case True
      have "glob p v" if "glob (drop (pi + 1) p) (drop (vi + 1) v)"
      proof (rule 1(6))
        show "glob (drop pi p) (drop vi v)"
          using glob_char[OF that, of "v ! vi"] drop_value[of pi p] dv True by simp
      qed
      then show ?thesis using loop vi True 1(1)[OF vi True _ 1(5) _ 1(7,8)] by simp
    next
      case lit: False
      show ?thesis
      proof (cases "pi < length p \<and> p ! pi = star")
        case True
        have d: "drop pi p = star # drop (pi + 1) p" using drop_star True by blast
        have a: "glob p v" if "glob (drop (pi + 1) p) (drop vi v)"
          using that by (intro 1(6)) (simp only: d glob_star_none)
        have b: "glob p v" if "retry p v (Some pi) (vi + k)" for k
        proof (rule 1(6))
          have e: "take k (drop vi v) @ drop (vi + k) v = drop vi v"
            using append_take_drop_id[of k "drop vi v"] by (simp add: add.commute)
          have "glob (star # drop (pi + 1) p) (drop (vi + k) v)" using that by (simp add: retry_def d)
          from glob_star_skip[OF this, of "take k (drop vi v)"] show "glob (drop pi p) (drop vi v)"
            unfolding e d .
        qed
        have "seg_loop p v (pi + 1) vi (Some pi) vi = Some r" using loop vi lit True by simp
        from 1(2)[OF vi lit True this 1(5) a _ b] True show ?thesis by simp
      next
        case nostar: False
        with loop vi lit obtain sp where st: "st = Some sp" by (auto split: option.splits)
        have sp: "sp < length p" "p ! sp = star" using 1(7)[OF st] by auto
        have next_loop: "seg_loop p v (sp + 1) (mark + 1) st (mark + 1) = Some r"
          using loop vi lit nostar st by simp
        have a: "glob p v" if "glob (drop (sp + 1) p) (drop (mark + 1) v)"
        proof (rule 1(8)[of 1])
          show "retry p v st (mark + 1)"
            using that sp by (simp add: retry_def st drop_star[OF sp] glob_star_none del: drop_Suc)
        qed
        have b: "glob p v" if "retry p v st (mark + 1 + k)" for k
          using 1(8)[of "Suc k"] that by (simp add: add.assoc)
        show ?thesis
        proof (rule 1(3)[OF vi lit nostar st next_loop 1(5)])
          show "glob (drop (sp + 1) p) (drop (mark + 1) v) \<Longrightarrow> glob p v" by (rule a)
          show "\<And>sq. st = Some sq \<Longrightarrow> sq < length p \<and> p ! sq = star" by (rule 1(7))
          show "\<And>k. retry p v st (mark + 1 + k) \<Longrightarrow> glob p v" by (rule b)
        qed
      qed
    qed
  qed
qed

lemma segment_matches_sound: "segment_matches p v \<Longrightarrow> glob p v"
proof -
  assume "segment_matches p v"
  then obtain r where r: "seg_loop p v 0 0 None 0 = Some r" "skip_stars (drop r p) = []"
    by (auto simp: segment_matches_def split: option.splits)
  show ?thesis by (rule seg_loop_sound[OF r]) (auto simp: retry_def)
qed

section \<open>The matcher is complete on star-free values\<close>

text \<open>Taking the first place where the literals after a star fit loses nothing.\<close>

lemma glob_greedy:
  assumes "star \<notin> set l" "glob (star # l @ star # q) (l @ w)" shows "glob (star # q) w"
proof -
  from assms(2) obtain u x where ux: "l @ w = u @ x" "glob (l @ star # q) x" by (auto simp: glob_star)
  then obtain y where y: "x = l @ y" "glob (star # q) y" using glob_lits_iff[OF assms(1)] by blast
  have e: "l @ w = (u @ l) @ y" using ux(1) y(1) by simp
  then have "length y \<le> length w" by (metis add_le_cancel_left le_add2 length_append add.assoc)
  then have "w = drop (length l) (u @ l) @ y"
    using e by (metis append_eq_conv_conj drop_append le_add2 length_append diff_is_0_eq drop0)
  then show ?thesis using glob_star_skip[OF y(2)] by metis
qed

definition alive :: "string \<Rightarrow> string \<Rightarrow> nat \<Rightarrow> nat \<Rightarrow> nat option \<Rightarrow> nat \<Rightarrow> bool" where
  "alive p v pi vi st mark \<longleftrightarrow> vi \<le> length v \<and>
     (case st of
        None \<Rightarrow> glob (drop pi p) (drop vi v)
      | Some sp \<Rightarrow> sp < length p \<and> p ! sp = star \<and> glob (drop sp p) (drop mark v)
          \<and> (\<exists>l. star \<notin> set l \<and> drop (sp + 1) p = l @ drop pi p \<and> drop mark v = l @ drop vi v))"

lemma alive_Some:
  "alive p v pi vi (Some sp) mark \<Longrightarrow>
   \<exists>l. star \<notin> set l \<and> vi \<le> length v \<and> sp < length p \<and> p ! sp = star \<and> drop (sp + 1) p = l @ drop pi p
     \<and> drop mark v = l @ drop vi v \<and> glob (star # l @ drop pi p) (l @ drop vi v)"
  by (auto simp: alive_def drop_star)

lemma alive_literal:
  assumes "alive p v pi vi st mark" "vi < length v" "pi < length p" "p ! pi = v ! vi" "star \<notin> set v"
  shows "alive p v (pi + 1) (vi + 1) st mark"
proof -
  have c: "v ! vi \<noteq> star" using assms(2,5) nth_mem by metis
  have d: "drop pi p = v ! vi # drop (pi + 1) p" "drop vi v = v ! vi # drop (vi + 1) v"
    using drop_value[of pi p] drop_value[of vi v] assms(2-4) by simp_all
  show ?thesis
  proof (cases st)
    case None
    then show ?thesis using assms(1,2) c by (simp add: alive_def d glob_lit del: drop_Suc)
  next
    case (Some sp)
    with alive_Some assms(1) obtain l where l: "star \<notin> set l" "sp < length p" "p ! sp = star"
      "drop (sp + 1) p = l @ drop pi p" "drop mark v = l @ drop vi v" by blast
    then have "star \<notin> set (l @ [v ! vi])" "drop (sp + 1) p = (l @ [v ! vi]) @ drop (pi + 1) p"
      "drop mark v = (l @ [v ! vi]) @ drop (vi + 1) v" using c d by simp_all
    then show ?thesis using assms(1,2) Some unfolding alive_def by auto
  qed
qed

lemma alive_new_star:
  assumes "alive p v pi vi st mark" "pi < length p" "p ! pi = star"
  shows "alive p v (pi + 1) vi (Some pi) vi"
proof -
  have d: "drop pi p = star # drop (pi + 1) p" by (rule drop_star[OF assms(2,3)])
  have "glob (drop pi p) (drop vi v)"
  proof (cases st)
    case None
    then show ?thesis using assms(1) by (simp add: alive_def)
  next
    case (Some sp)
    with alive_Some assms(1) obtain l where "star \<notin> set l" "glob (star # l @ drop pi p) (l @ drop vi v)" by blast
    then show ?thesis unfolding d using glob_greedy by blast
  qed
  then show ?thesis using assms by (auto simp: alive_def intro!: exI[of _ "[]"])
qed

lemma glob_mismatch:
  "vi < length v \<Longrightarrow> \<not> (pi < length p \<and> p ! pi = v ! vi) \<Longrightarrow> \<not> (pi < length p \<and> p ! pi = star) \<Longrightarrow>
   \<not> glob (drop pi p) (drop vi v)"
  by (cases "pi < length p") (auto simp: drop_value[of vi v] drop_value[of pi p] glob_lit)

lemma alive_retry:
  assumes "alive p v pi vi (Some sp) mark" "\<not> glob (drop pi p) (drop vi v)"
  shows "alive p v (sp + 1) (mark + 1) (Some sp) (mark + 1)"
proof -
  from alive_Some[OF assms(1)] obtain l where l: "star \<notin> set l" "sp < length p" "p ! sp = star"
    "drop (sp + 1) p = l @ drop pi p" "drop mark v = l @ drop vi v"
    "glob (star # l @ drop pi p) (l @ drop vi v)" by blast
  have "\<not> glob (l @ drop pi p) (l @ drop vi v)" using assms(2) glob_lits_iff[OF l(1)] by simp
  with iffD1[OF glob_star_step l(6)] obtain d w where w: "l @ drop vi v = d # w" "glob (star # l @ drop pi p) w"
    by blast
  have m: "mark < length v" using w(1) l(5) by (metis drop_eq_Nil leI list.distinct(1))
  then have "w = drop (mark + 1) v" using w(1) l(5) drop_value[OF m] by simp
  moreover have "glob (star # drop (sp + 1) p) w" using w(2) l(4) by simp
  ultimately show ?thesis using l(2,3) m by (simp add: alive_def drop_star)
qed

lemma seg_loop_complete:
  "alive p v pi vi st mark \<Longrightarrow> star \<notin> set v \<Longrightarrow>
   \<exists>r. seg_loop p v pi vi st mark = Some r \<and> skip_stars (drop r p) = []"
proof (induction p v pi vi st mark rule: seg_loop.induct)
  case (1 p v pi vi st mark)
  show ?case
  proof (cases "vi < length v")
    case False
    have "glob (drop pi p) []"
    proof (cases st)
      case None
      then show ?thesis using 1(4) False by (simp add: alive_def)
    next
      case (Some sp)
      with alive_Some 1(4) False obtain l where l: "star \<notin> set l" "glob (star # l @ drop pi p) l" by fastforce
      then obtain u w where "l = u @ w" "glob (l @ drop pi p) w" by (auto simp: glob_star)
      then obtain y where "l = u @ l @ y" "glob (drop pi p) y" using glob_lits_iff[OF l(1)] by blast
      then show ?thesis by (metis append_self_conv append_self_conv2 append_is_Nil_conv length_append add_eq_self_zero length_0_conv add.left_commute)
    qed
    then show ?thesis by (simp add: seg_loop_done[OF False] glob_nil)
  next
    case vi: True
    show ?thesis
    proof (cases "pi < length p \<and> p ! pi = v ! vi")
      case True
      then show ?thesis using 1(1)[OF vi True alive_literal[OF 1(4) vi _ _ 1(5)] 1(5)]
        by (simp only: seg_loop_literal[OF vi True])
    next
      case lit: False
      show ?thesis
      proof (cases "pi < length p \<and> p ! pi = star")
        case True
        then show ?thesis using 1(2)[OF vi lit True alive_new_star[OF 1(4)] 1(5)]
          by (simp only: seg_loop_star[OF vi lit True])
      next
        case nostar: False
        note mis = glob_mismatch[OF vi lit nostar]
        then obtain sp where st: "st = Some sp" using 1(4) by (cases st) (auto simp: alive_def)
        have "alive p v (sp + 1) (mark + 1) st (mark + 1)" using alive_retry[of p v pi vi sp mark] 1(4) mis st by simp
        from 1(3)[OF vi lit nostar st this 1(5)] show ?thesis
          by (simp only: st seg_loop_retry[OF vi lit nostar])
      qed
    qed
  qed
qed

lemma segment_matches_iff:
  assumes "star \<notin> set v" shows "segment_matches p v \<longleftrightarrow> glob p v"
proof
  assume "glob p v"
  then have "alive p v 0 0 None 0" by (simp add: alive_def)
  from seg_loop_complete[OF this assms] show "segment_matches p v" by (auto simp: segment_matches_def)
qed (rule segment_matches_sound)

end
