(* ===== verification/Json.thy ===== *)
theory Json
  imports Rust_Num
begin

text \<open>
  JSON values as \<open>serde_json::Value\<close> has them: a number is a \<open>u64\<close>, a negative \<open>i64\<close> or an
  \<open>f64\<close>, and an object is a \<open>BTreeMap\<close>, kept as its entries in key order. Equality is the
  derived \<open>PartialEq\<close>: numbers of different kinds differ, floats compare as floats.
\<close>

datatype num_rep = PosInt nat | NegInt int | Float f64

datatype json = JNull | JBool bool | JNum num_rep | JStr string | JArr "json list"
  | JObj "(string \<times> json) list"

fun num_eq :: "num_rep \<Rightarrow> num_rep \<Rightarrow> bool" where
  "num_eq (PosInt a) (PosInt b) = (a = b)"
| "num_eq (NegInt a) (NegInt b) = (a = b)"
| "num_eq (Float a) (Float b) = (f64_cmp a b = Some Equal)"
| "num_eq _ _ = False"

fun json_eq :: "json \<Rightarrow> json \<Rightarrow> bool" and json_eqs :: "json list \<Rightarrow> json list \<Rightarrow> bool"
  and json_eqo :: "(string \<times> json) list \<Rightarrow> (string \<times> json) list \<Rightarrow> bool" where
  "json_eq JNull b = (b = JNull)"
| "json_eq (JBool x) b = (b = JBool x)"
| "json_eq (JNum m) b = (case b of JNum n \<Rightarrow> num_eq m n | _ \<Rightarrow> False)"
| "json_eq (JStr s) b = (b = JStr s)"
| "json_eq (JArr xs) b = (case b of JArr ys \<Rightarrow> json_eqs xs ys | _ \<Rightarrow> False)"
| "json_eq (JObj m) b = (case b of JObj n \<Rightarrow> json_eqo m n | _ \<Rightarrow> False)"
| "json_eqs [] ys = (ys = [])"
| "json_eqs (x # xs) ys = (case ys of [] \<Rightarrow> False | y # zs \<Rightarrow> json_eq x y \<and> json_eqs xs zs)"
| "json_eqo [] n = (n = [])"
| "json_eqo (kx # m) n =
     (case n of [] \<Rightarrow> False | ky # n' \<Rightarrow> fst kx = fst ky \<and> json_eq (snd kx) (snd ky) \<and> json_eqo m n')"

lemma f64_eq_trans: "f64_cmp a b = Some Equal \<Longrightarrow> f64_cmp b c = Some Equal \<Longrightarrow> f64_cmp a c = Some Equal"
  by (cases a; cases b; cases c) (auto split: if_splits)

lemma num_eq_trans: "num_eq a b \<Longrightarrow> num_eq b c \<Longrightarrow> num_eq a c"
  by (cases a; cases b; cases c) (auto intro: f64_eq_trans)

lemma json_eq_trans:
  "json_eq a b \<Longrightarrow> json_eq b c \<Longrightarrow> json_eq a c"
  "json_eqs as bs \<Longrightarrow> json_eqs bs cs \<Longrightarrow> json_eqs as cs"
  "json_eqo am bm \<Longrightarrow> json_eqo bm cm \<Longrightarrow> json_eqo am cm"
  by (induction a b and as bs and am bm arbitrary: c and cs and cm rule: json_eq_json_eqs_json_eqo.induct)
     (auto split: json.splits list.splits intro: num_eq_trans)

text \<open>A parsed value holds no NaN; such values equal themselves.\<close>

fun no_nan :: "json \<Rightarrow> bool" where
  "no_nan (JNum n) = (n \<noteq> Float NaN)"
| "no_nan (JArr xs) = list_all no_nan xs"
| "no_nan (JObj m) = list_all (\<lambda>kx. no_nan (snd kx)) m"
| "no_nan _ = True"

lemma f64_eq_refl: "a \<noteq> NaN \<Longrightarrow> f64_cmp a a = Some Equal"
  by (cases a) auto

lemma num_eq_refl: "n \<noteq> Float NaN \<Longrightarrow> num_eq n n"
  by (cases n) (auto intro: f64_eq_refl)

lemma json_eqs_refl: "list_all (\<lambda>x. json_eq x x) xs \<Longrightarrow> json_eqs xs xs"
  by (induction xs) auto

lemma json_eqo_refl: "list_all (\<lambda>kx. json_eq (snd kx) (snd kx)) m \<Longrightarrow> json_eqo m m"
  by (induction m) auto

lemma json_eq_refl: "no_nan a \<Longrightarrow> json_eq a a"
proof (induction a rule: no_nan.induct)
  case (2 xs)
  then show ?case by (auto simp: list_all_iff intro!: json_eqs_refl)
next
  case (3 m)
  then show ?case by (auto simp: list_all_iff intro!: json_eqo_refl)
qed (auto intro: num_eq_refl)

end
