(* ===== verification/Capability.thy ===== *)
theory Capability
  imports Cap_Glob Json "HOL-Library.Word"
begin

text \<open>
  Capabilities, \<open>crates/catalerum-core/src/capability.rs\<close>: actions, resources with glob
  selectors, the request-time and the mint-time cover relations, constraint subsumption and
  \<open>attenuate\<close>. A \<open>BTreeMap\<close> of constraints is its list of entries in key order; instants are
  integers (nanoseconds).
\<close>

section \<open>Selectors\<close>

function glob_loop :: "string list \<Rightarrow> string list \<Rightarrow> nat \<Rightarrow> bool" where
  "glob_loop pat val i =
     (if i < length pat then
        if pat ! i = ''*'' then
          (if i + 1 = length pat then True
           else if i \<ge> length val then False
           else glob_loop pat val (i + 1))
        else if i \<ge> length val \<or> \<not> segment_matches (pat ! i) (val ! i) then False
        else glob_loop pat val (i + 1)
      else length pat = length val)"
  by pat_completeness auto
termination
  by (relation "measure (\<lambda>(pat, val, i). length pat - i)") auto

declare glob_loop.simps [simp del]

definition glob_covers :: "string \<Rightarrow> string \<Rightarrow> bool" where
  "glob_covers pattern v =
     (if pattern = ''*'' then True
      else glob_loop (split_on (CHR ''/'') pattern) (split_on (CHR ''/'') v) 0)"

section \<open>Actions, resources, capabilities\<close>

datatype action = Any | Read | Write | Delete | Use | Run | Query | Search | Expose

definition action_covers :: "action \<Rightarrow> action \<Rightarrow> bool" where
  "action_covers held requested \<longleftrightarrow> held = Any \<or> held = requested"

record resource =
  res_domain :: string
  selector :: "string option"

definition resource_domain :: "string \<Rightarrow> resource" where
  "resource_domain d = \<lparr>res_domain = d, selector = None\<rparr>"

definition resource_new :: "string \<Rightarrow> string \<Rightarrow> resource" where
  "resource_new d s = \<lparr>res_domain = d, selector = Some s\<rparr>"

definition resource_any :: resource where
  "resource_any = \<lparr>res_domain = ''*'', selector = None\<rparr>"

definition resource_covers :: "resource \<Rightarrow> resource \<Rightarrow> bool" where
  "resource_covers held requested =
     (if res_domain held \<noteq> ''*'' \<and> res_domain held \<noteq> res_domain requested then False
      else (case (selector held, selector requested) of
              (None, _) \<Rightarrow> True
            | (Some _, None) \<Rightarrow> False
            | (Some h, Some r) \<Rightarrow> glob_covers h r))"

record capability =
  action :: action
  resource :: resource
  cap_constraints :: "(string \<times> json) list"

definition capability_new :: "action \<Rightarrow> resource \<Rightarrow> capability" where
  "capability_new a r = \<lparr>action = a, resource = r, cap_constraints = []\<rparr>"

definition cap_covers :: "capability \<Rightarrow> capability \<Rightarrow> bool" where
  "cap_covers held requested \<longleftrightarrow>
     action_covers (action held) (action requested) \<and> resource_covers (resource held) (resource requested)"

section \<open>Constraints\<close>

record time_window =
  tw_start :: int
  tw_end :: int

definition window_contains :: "time_window \<Rightarrow> int \<Rightarrow> bool" where
  "window_contains w now \<longleftrightarrow> tw_start w \<le> now \<and> now < tw_end w"

record constraints =
  env_allow :: "string list"
  rate_limit :: "32 word option"
  cost_limit :: "f64 option"
  time_window :: "time_window option"
  dry_run :: bool
  requires_approval :: "string list"

definition default_constraints :: constraints where
  "default_constraints = \<lparr>env_allow = [], rate_limit = None, cost_limit = None,
     time_window = None, dry_run = False, requires_approval = []\<rparr>"

definition has_unenforced :: "constraints \<Rightarrow> bool" where
  "has_unenforced c \<longleftrightarrow> env_allow c \<noteq> [] \<or> rate_limit c \<noteq> None \<or> requires_approval c \<noteq> []"

definition constraint_value_subsumes :: "json \<Rightarrow> json \<Rightarrow> bool" where
  "constraint_value_subsumes parent child =
     (if json_eq parent child then True
      else (case (parent, child) of
              (JArr ps, JArr cs) \<Rightarrow> list_all (\<lambda>item. list_ex (\<lambda>p. json_eq p item) ps) cs
            | _ \<Rightarrow> False))"

definition constraints_subsume :: "capability \<Rightarrow> capability \<Rightarrow> bool" where
  "constraints_subsume parent child =
     list_all (\<lambda>(key, pv). case map_of (cap_constraints child) key of
                             None \<Rightarrow> False
                           | Some cv \<Rightarrow> constraint_value_subsumes pv cv)
       (cap_constraints parent)"

definition escalating_constraint_key :: "capability \<Rightarrow> capability \<Rightarrow> string option" where
  "escalating_constraint_key parent child =
     map_option fst (List.find (\<lambda>(key, pv). case map_of (cap_constraints child) key of
                                  Some cv \<Rightarrow> \<not> constraint_value_subsumes pv cv
                                | None \<Rightarrow> True)
                       (cap_constraints parent))"

definition covers_for_attenuation :: "capability \<Rightarrow> capability \<Rightarrow> bool" where
  "covers_for_attenuation parent child \<longleftrightarrow> cap_covers parent child \<and> constraints_subsume parent child"

section \<open>Grants and attenuation\<close>

record grant =
  grant_id :: nat
  grant_workspace :: nat
  grant_name :: string
  capabilities :: "capability list"
  grant_constraints :: constraints

definition allows :: "grant \<Rightarrow> capability \<Rightarrow> bool" where
  "allows g requested = list_ex (\<lambda>held. cap_covers held requested) (capabilities g)"

record attenuation_error =
  err_action :: action
  err_domain :: string
  err_selector :: "string option"
  err_constraint :: "string option"

text \<open>\<open>Iterator::find_map\<close>.\<close>

fun find_map :: "('a \<Rightarrow> 'b option) \<Rightarrow> 'a list \<Rightarrow> 'b option" where
  "find_map f [] = None"
| "find_map f (x # xs) = (case f x of Some y \<Rightarrow> Some y | None \<Rightarrow> find_map f xs)"

definition attenuate :: "capability list \<Rightarrow> capability \<Rightarrow> attenuation_error + capability" where
  "attenuate parent child =
     (if list_ex (\<lambda>p. covers_for_attenuation p child) parent then Inr child
      else Inl \<lparr>err_action = action child, err_domain = res_domain (resource child),
                err_selector = selector (resource child),
                err_constraint = find_map (\<lambda>p. escalating_constraint_key p child)
                                   (filter (\<lambda>p. cap_covers p child) parent)\<rparr>)"

end
