(* ===== verification/Cap_Attenuate.thy ===== *)
theory Cap_Attenuate
  imports Capability
begin

text \<open>
  Attenuation never escalates: what a minted capability authorizes, some capability it was
  minted from authorizes. The proof goes through the declarative reading of a selector as a
  list of segment globs, which composes as long as the parent's selector does not end in a
  pattern the matcher reads loosely; the two ways in which it may are shown to escalate.
\<close>

section \<open>Selectors as lists of globs\<close>

fun covers_segs :: "string list \<Rightarrow> string list \<Rightarrow> bool" where
  "covers_segs [] vs = (vs = [])"
| "covers_segs (s # ps) vs =
     (s = [star] \<and> ps = [] \<or> (case vs of [] \<Rightarrow> False | v # ws \<Rightarrow> glob s v \<and> covers_segs ps ws))"

lemma glob_any: "glob [star] v"
  by (auto simp: glob_star)

lemma star_text: "''*'' = [star]"
  by (simp add: star_def)

lemma glob_loop_sound:
  "glob_loop pat val i \<Longrightarrow> i \<le> length val \<Longrightarrow> covers_segs (drop i pat) (drop i val)"
proof (induction pat val i rule: glob_loop.induct)
  case (1 pat val i)
  note loop = 1(3)[unfolded glob_loop.simps[of pat val i]]
  show ?case
  proof (cases "i < length pat")
    case False
    with loop 1(4) show ?thesis by simp
  next
    case i: True
    have dp: "drop i pat = pat ! i # drop (i + 1) pat" using i by (metis Cons_nth_drop_Suc Suc_eq_plus1)
    show ?thesis
    proof (cases "pat ! i = ''*'' \<and> i + 1 = length pat")
      case True
      then show ?thesis by (simp add: dp star_text)
    next
      case False
      with loop i have v: "i < length val" "glob_loop pat val (i + 1)"
        and m: "pat ! i = ''*'' \<or> segment_matches (pat ! i) (val ! i)"
        by (auto split: if_splits)
      have dv: "drop i val = val ! i # drop (i + 1) val" using v(1) by (metis Cons_nth_drop_Suc Suc_eq_plus1)
      have g: "glob (pat ! i) (val ! i)" using m segment_matches_sound glob_any by (auto simp: star_text)
      have "covers_segs (drop (i + 1) pat) (drop (i + 1) val)"
      proof (cases "pat ! i = ''*''")
        case True
        then show ?thesis using 1(1)[OF i True _ _ v(2)] v(1) False by simp
      next
        case False
        then show ?thesis using 1(2)[OF i False _ v(2)] v(1) m by simp
      qed
      then show ?thesis by (simp add: dp dv g)
    qed
  qed
qed

lemma glob_loop_complete:
  "covers_segs (drop i pat) (drop i val) \<Longrightarrow> i \<le> length val \<Longrightarrow> \<forall>v \<in> set val. star \<notin> set v \<Longrightarrow>
   i \<le> length pat \<Longrightarrow> glob_loop pat val i"
proof (induction pat val i rule: glob_loop.induct)
  case (1 pat val i)
  show ?case
  proof (cases "i < length pat")
    case False
    with 1(3,4,6) show ?thesis by (subst glob_loop.simps) auto
  next
    case i: True
    have dp: "drop i pat = pat ! i # drop (i + 1) pat" using i by (metis Cons_nth_drop_Suc Suc_eq_plus1)
    show ?thesis
    proof (cases "pat ! i = ''*'' \<and> i + 1 = length pat")
      case True
      then show ?thesis using i by (subst glob_loop.simps) simp
    next
      case False
      with 1(3) i obtain w ws where dv: "drop i val = w # ws" "glob (pat ! i) w" "covers_segs (drop (i + 1) pat) ws"
        unfolding dp by (auto simp: star_text split: list.splits)
      then have v: "i < length val" by (metis drop_eq_Nil list.distinct(1) not_le)
      then have w: "w = val ! i" "ws = drop (i + 1) val" using dv(1) by (metis Cons_nth_drop_Suc Suc_eq_plus1 list.inject)+
      have seg: "segment_matches (pat ! i) (val ! i)"
        using segment_matches_iff 1(5) v dv(2) w by simp
      have rest: "glob_loop pat val (i + 1)"
      proof (cases "pat ! i = ''*''")
        case True
        then show ?thesis using 1(1)[OF i True _ _ _ _ 1(5)] False v dv(3) w i by simp
      next
        case False
        then show ?thesis using 1(2)[OF i False _ _ _ 1(5)] seg v dv(3) w i by simp
      qed
      then show ?thesis using i v seg False by (subst glob_loop.simps) simp
    qed
  qed
qed

abbreviation segs :: "string \<Rightarrow> string list" where
  "segs \<equiv> split_on (CHR ''/'')"

lemma segs_star: "segs ''*'' = [[star]]"
  by (simp add: star_def)

lemma glob_covers_sound: "glob_covers p v \<Longrightarrow> covers_segs (segs p) (segs v)"
proof (cases "p = ''*''")
  case True
  then show ?thesis unfolding True segs_star by simp
next
  case False
  assume "glob_covers p v"
  with False have "glob_loop (segs p) (segs v) 0" by (simp add: glob_covers_def)
  from glob_loop_sound[OF this] show ?thesis by simp
qed

lemma glob_covers_iff:
  assumes "star \<notin> set v" shows "glob_covers p v \<longleftrightarrow> covers_segs (segs p) (segs v)"
proof
  assume c: "covers_segs (segs p) (segs v)"
  have "star \<notin> set x" if "x \<in> set (segs v)" for x using split_on_pieces[OF that] assms by blast
  with c glob_loop_complete[of 0 "segs p" "segs v"] show "glob_covers p v" by (simp add: glob_covers_def)
qed (rule glob_covers_sound)

section \<open>Composition\<close>

definition all_stars :: "string \<Rightarrow> bool" where
  "all_stars s \<longleftrightarrow> s \<noteq> [] \<and> list_all (\<lambda>c. c = star) s"

fun tame :: "string list \<Rightarrow> bool" where
  "tame [] = True"
| "tame [s] = (s = [star] \<or> \<not> all_stars s)"
| "tame (s # t # ps) = ((ps = [] \<and> t = [star] \<longrightarrow> \<not> all_stars s) \<and> tame (t # ps))"

definition tame_selector :: "string option \<Rightarrow> bool" where
  "tame_selector s = (case s of None \<Rightarrow> True | Some p \<Rightarrow> tame (segs p))"

lemma glob_of_stars: "glob s w \<Longrightarrow> list_all (\<lambda>c. c = star) w \<Longrightarrow> list_all (\<lambda>c. c = star) s"
proof (induction s arbitrary: w)
  case (Cons c s)
  show ?case
  proof (cases "c = star")
    case True
    with Cons.prems(1) obtain u x where "w = u @ x" "glob s x" by (auto simp: glob_star)
    with Cons.IH Cons.prems(2) True show ?thesis by simp
  next
    case False
    with Cons.prems show ?thesis by (auto simp: glob_lit)
  qed
qed simp

lemma glob_star_only: "glob s [star] \<Longrightarrow> all_stars s"
  using glob_of_stars[of s "[star]"] by (auto simp: all_stars_def)

lemma covers_segs_trans:
  "covers_segs P Q \<Longrightarrow> covers_segs Q V \<Longrightarrow> tame P \<Longrightarrow> covers_segs P V"
proof (induction P arbitrary: Q V)
  case (Cons s P)
  show ?case
  proof (cases "s = [star] \<and> P = []")
    case False
    with Cons.prems(1) obtain q Q' where Q: "Q = q # Q'" "glob s q" "covers_segs P Q'"
      by (auto split: list.splits)
    have "\<not> (q = [star] \<and> Q' = [])"
    proof
      assume q: "q = [star] \<and> Q' = []"
      then have s: "all_stars s" using Q(2) glob_star_only by blast
      have "P = [] \<or> P = [[star]]" using Q(3) q by (cases P) auto
      then show False using s False Cons.prems(3) by auto
    qed
    with Cons.prems(2) Q(1) obtain v V' where V: "V = v # V'" "glob q v" "covers_segs Q' V'"
      by (auto split: list.splits)
    have "tame P" using Cons.prems(3) by (cases P) auto
    from Cons.IH[OF Q(3) V(3) this] glob_trans[OF Q(2) V(2)] V(1) show ?thesis by simp
  qed simp
qed simp

text \<open>A request is concrete when its selector, if any, has no star.\<close>

definition concrete :: "capability \<Rightarrow> bool" where
  "concrete c = (case selector (resource c) of None \<Rightarrow> True | Some s \<Rightarrow> star \<notin> set s)"

lemma resource_covers_trans:
  assumes "resource_covers p c" "resource_covers c r" "tame_selector (selector p)"
    and "\<And>s. selector r = Some s \<Longrightarrow> star \<notin> set s"
  shows "resource_covers p r"
proof (cases "selector p")
  case None
  then show ?thesis using assms(1,2) by (auto simp: resource_covers_def split: if_splits)
next
  case (Some ps)
  with assms(1) obtain cs where c: "selector c = Some cs" "glob_covers ps cs"
    by (auto simp: resource_covers_def split: if_splits option.splits)
  with assms(2) obtain rs where r: "selector r = Some rs" "glob_covers cs rs"
    by (auto simp: resource_covers_def split: if_splits option.splits)
  have "covers_segs (segs ps) (segs rs)"
    using covers_segs_trans[OF glob_covers_sound[OF c(2)] glob_covers_sound[OF r(2)]] assms(3) Some
    by (simp add: tame_selector_def)
  then have "glob_covers ps rs" using glob_covers_iff assms(4)[OF r(1)] by blast
  then show ?thesis using assms(1,2) Some c(1) r(1) by (auto simp: resource_covers_def split: if_splits)
qed

lemma cap_covers_trans:
  assumes "cap_covers p c" "cap_covers c r" "tame_selector (selector (resource p))" "concrete r"
  shows "cap_covers p r"
proof -
  have "resource_covers (resource p) (resource r)"
    using assms by (intro resource_covers_trans[of "resource p" "resource c" "resource r"])
      (auto simp: cap_covers_def concrete_def)
  then show ?thesis using assms(1,2) by (auto simp: cap_covers_def action_covers_def)
qed

section \<open>Constraints\<close>

lemma subsumes_items:
  assumes "constraint_value_subsumes p c" "c = JArr cs" "x \<in> set cs" "p = JArr ps"
  shows "\<exists>y \<in> set ps. json_eq y x"
proof (cases "json_eq p c")
  case True
  have "json_eqs ps cs \<Longrightarrow> x \<in> set cs \<Longrightarrow> \<exists>y \<in> set ps. json_eq y x" for ps cs
    by (induction ps arbitrary: cs) (auto split: list.splits)
  with True assms show ?thesis by simp
next
  case False
  then show ?thesis using assms by (auto simp: constraint_value_subsumes_def list_all_iff list_ex_iff)
qed

lemma json_eq_arr: "json_eq a (JArr bs) \<Longrightarrow> \<exists>as. a = JArr as"
  by (cases a) (auto split: json.splits)

lemma subsumes_trans:
  assumes "constraint_value_subsumes a b" "constraint_value_subsumes b c"
  shows "constraint_value_subsumes a c"
proof (cases "json_eq a b \<and> json_eq b c")
  case True
  then show ?thesis using json_eq_trans(1) by (auto simp: constraint_value_subsumes_def)
next
  case False
  have arrs: "\<exists>as bs cs. a = JArr as \<and> b = JArr bs \<and> c = JArr cs"
  proof (cases "json_eq a b")
    case True
    with False assms(2) obtain bs cs where "b = JArr bs" "c = JArr cs"
      by (auto simp: constraint_value_subsumes_def split: json.splits)
    with True json_eq_arr show ?thesis by blast
  next
    case f: False
    with assms(1) obtain as bs where ab: "a = JArr as" "b = JArr bs"
      by (auto simp: constraint_value_subsumes_def split: json.splits)
    with assms(2) have "\<exists>cs. c = JArr cs"
      by (auto simp: constraint_value_subsumes_def split: json.splits if_splits)
    with ab show ?thesis by blast
  qed
  then obtain as bs cs where e: "a = JArr as" "b = JArr bs" "c = JArr cs" by blast
  have "\<exists>y \<in> set as. json_eq y x" if x: "x \<in> set cs" for x
  proof -
    obtain z where z: "z \<in> set bs" "json_eq z x" using subsumes_items[OF assms(2) e(3) x e(2)] by blast
    obtain y where "y \<in> set as" "json_eq y z" using subsumes_items[OF assms(1) e(2) z(1) e(1)] by blast
    then show ?thesis using json_eq_trans(1)[OF _ z(2)] by blast
  qed
  then show ?thesis using e by (auto simp: constraint_value_subsumes_def list_all_iff list_ex_iff)
qed

lemma constraints_subsume_iff:
  "constraints_subsume p c \<longleftrightarrow>
     (\<forall>(k, pv) \<in> set (cap_constraints p). \<exists>cv. map_of (cap_constraints c) k = Some cv \<and> constraint_value_subsumes pv cv)"
  by (auto simp: constraints_subsume_def list_all_iff split: option.splits)

lemma constraints_subsume_trans:
  assumes "constraints_subsume p c" "constraints_subsume c d" shows "constraints_subsume p d"
  unfolding constraints_subsume_iff
proof (clarify)
  fix k pv assume "(k, pv) \<in> set (cap_constraints p)"
  then obtain cv where cv: "map_of (cap_constraints c) k = Some cv" "constraint_value_subsumes pv cv"
    using assms(1) by (auto simp: constraints_subsume_iff)
  from map_of_SomeD[OF cv(1)] obtain dv where "map_of (cap_constraints d) k = Some dv" "constraint_value_subsumes cv dv"
    using assms(2) by (auto simp: constraints_subsume_iff)
  then show "\<exists>dv. map_of (cap_constraints d) k = Some dv \<and> constraint_value_subsumes pv dv"
    using subsumes_trans[OF cv(2)] by blast
qed

lemma escalating_key_None: "escalating_constraint_key p c = None \<longleftrightarrow> constraints_subsume p c"
proof -
  have "(case m of Some cv \<Rightarrow> \<not> Q cv | None \<Rightarrow> True) = (\<not> (\<exists>cv. m = Some cv \<and> Q cv))"
    for m :: "json option" and Q by (cases m) auto
  then show ?thesis
    by (auto simp: escalating_constraint_key_def constraints_subsume_iff find_None_iff)
qed

lemma find_map_None: "find_map f xs = None \<longleftrightarrow> (\<forall>x \<in> set xs. f x = None)"
  by (induction xs) (auto split: option.splits)

lemma find_map_Some: "find_map f xs = Some y \<Longrightarrow> \<exists>x \<in> set xs. f x = Some y"
  by (induction xs) (auto split: option.splits)

section \<open>The properties\<close>

definition no_escalation :: "capability list \<Rightarrow> capability \<Rightarrow> bool" where
  "no_escalation parent child \<longleftrightarrow>
     (\<forall>req. concrete req \<longrightarrow> cap_covers child req \<longrightarrow>
        (\<exists>p \<in> set parent. cap_covers p req \<and> constraints_subsume p child))"

lemma attenuate_Inr: "attenuate parent child = Inr c \<longleftrightarrow>
    c = child \<and> (\<exists>p \<in> set parent. covers_for_attenuation p child)"
  by (auto simp: attenuate_def list_ex_iff)

lemma attenuate_sound:
  assumes "attenuate parent child = Inr c" "list_all (\<lambda>p. tame_selector (selector (resource p))) parent"
  shows "no_escalation parent c"
proof -
  from assms(1) obtain p where p: "p \<in> set parent" "cap_covers p child" "constraints_subsume p child" and c: "c = child"
    by (auto simp: attenuate_Inr covers_for_attenuation_def)
  have "tame_selector (selector (resource p))" using assms(2) p(1) by (auto simp: list_all_iff)
  then show ?thesis using p cap_covers_trans[of p child] unfolding no_escalation_def c by blast
qed

text \<open>C2: attenuation is sound. When \<open>attenuate\<close> confers a capability from parents whose
  selectors are tame, every concrete request it authorizes is authorized by one of the
  parents, under constraints the child keeps at least as tight.\<close>

theorem attenuate_no_escalation:
  assumes "attenuate parent child = Inr c" "list_all (\<lambda>p. tame_selector (selector (resource p))) parent"
    and "concrete req" "cap_covers c req"
  shows "\<exists>p \<in> set parent. cap_covers p req \<and> constraints_subsume p c"
  using attenuate_sound[OF assms(1,2)] assms(3,4) unfolding no_escalation_def by blast

definition out_parent :: capability where
  "out_parent = \<lparr>action = Write, resource = resource_new ''storage'' ''local/out/*'',
     cap_constraints = [(''env'', JArr [JStr ''dev'', JStr ''test''])]\<rparr>"

definition out_child :: capability where
  "out_child = \<lparr>action = Write, resource = resource_new ''storage'' ''local/out/*.log'',
     cap_constraints = [(''env'', JArr [JStr ''dev'']), (''max'', JNum (PosInt 3))]\<rparr>"

definition out_request :: capability where
  "out_request = capability_new Write (resource_new ''storage'' ''local/out/app.log'')"

lemmas cap_run = segment_matches_def seg_loop.simps glob_covers_def glob_loop.simps resource_covers_def
  action_covers_def cap_covers_def resource_new_def capability_new_def attenuate_def covers_for_attenuation_def
  constraints_subsume_def constraint_value_subsumes_def escalating_constraint_key_def star_def
  tame_selector_def all_stars_def concrete_def

theorem attenuate_no_escalation_witness:
  "\<exists>p \<in> set [out_parent]. cap_covers p out_request \<and> constraints_subsume p out_child"
proof (rule attenuate_no_escalation)
  show "attenuate [out_parent] out_child = Inr out_child"
    by (simp add: cap_run out_parent_def out_child_def)
  show "list_all (\<lambda>p. tame_selector (selector (resource p))) [out_parent]"
    by (simp add: cap_run out_parent_def)
  show "concrete out_request" by (simp add: cap_run out_request_def)
  show "cap_covers out_child out_request" by (simp add: cap_run out_child_def out_request_def)
qed

text \<open>Attenuation composes. A capability minted from capabilities that were themselves
  minted from a grandparent authorizes no concrete request the grandparent does not, however
  long the chain of mints.\<close>

theorem attenuate_chain:
  assumes "attenuate parent child = Inr c" "list_all (\<lambda>p. attenuate grand p = Inr p) parent"
    and "list_all (\<lambda>p. tame_selector (selector (resource p))) (grand @ parent)"
    and "concrete req" "cap_covers c req"
  shows "\<exists>g \<in> set grand. cap_covers g req \<and> constraints_subsume g c"
proof -
  from assms(1) obtain p where p: "p \<in> set parent" "cap_covers p child" "constraints_subsume p child" "c = child"
    by (auto simp: attenuate_Inr covers_for_attenuation_def)
  have ga: "attenuate grand p = Inr p" and tp: "tame_selector (selector (resource p))"
    using p(1) assms(2,3) by (auto simp: list_all_iff)
  have r: "cap_covers p req" using cap_covers_trans[OF p(2) _ tp assms(4)] assms(5) p(4) by simp
  have "no_escalation grand p" using attenuate_sound[OF ga] assms(3) by simp
  with r assms(4) obtain g where g: "g \<in> set grand" "cap_covers g req" "constraints_subsume g p"
    unfolding no_escalation_def by blast
  with constraints_subsume_trans[OF g(3) p(3)] p(4) show ?thesis by blast
qed

definition out_root :: capability where
  "out_root = \<lparr>action = Any, resource = resource_domain ''storage'', cap_constraints = []\<rparr>"

theorem attenuate_chain_witness:
  "\<exists>g \<in> set [out_root]. cap_covers g out_request \<and> constraints_subsume g out_child"
proof (rule attenuate_chain)
  show "attenuate [out_parent] out_child = Inr out_child"
    by (simp add: cap_run out_parent_def out_child_def)
  show "list_all (\<lambda>p. attenuate [out_root] p = Inr p) [out_parent]"
    by (simp add: cap_run out_parent_def out_root_def resource_domain_def)
  show "list_all (\<lambda>p. tame_selector (selector (resource p))) ([out_root] @ [out_parent])"
    by (simp add: cap_run out_parent_def out_root_def resource_domain_def)
  show "concrete out_request" by (simp add: cap_run out_request_def)
  show "cap_covers out_child out_request" by (simp add: cap_run out_child_def out_request_def)
qed

text \<open>A refused mint names its reason. Without a constraint key, no parent covers the
  child's action and resource; with one, a parent covers them but imposes that key, and the
  child drops it or loosens its value.\<close>

theorem attenuate_error_reason:
  assumes "attenuate parent child = Inl e"
  shows "(case err_constraint e of
            None \<Rightarrow> \<not> list_ex (\<lambda>p. cap_covers p child) parent
          | Some k \<Rightarrow> list_ex (\<lambda>p. cap_covers p child \<and> list_ex (\<lambda>(key, pv). key = k \<and>
               (case map_of (cap_constraints child) k of
                  None \<Rightarrow> True | Some cv \<Rightarrow> \<not> constraint_value_subsumes pv cv)) (cap_constraints p)) parent)
    \<and> err_action e = action child \<and> err_selector e = selector (resource child)"
proof -
  from assms have no: "\<And>p. p \<in> set parent \<Longrightarrow> cap_covers p child \<Longrightarrow> \<not> constraints_subsume p child"
    and e: "e = \<lparr>err_action = action child, err_domain = res_domain (resource child),
      err_selector = selector (resource child), err_constraint = find_map (\<lambda>p. escalating_constraint_key p child)
        (filter (\<lambda>p. cap_covers p child) parent)\<rparr>"
    by (auto simp: attenuate_def list_ex_iff covers_for_attenuation_def split: if_splits)
  show ?thesis
  proof (cases "err_constraint e")
    case None
    then have "\<forall>p \<in> set parent. cap_covers p child \<longrightarrow> constraints_subsume p child"
      by (simp add: e find_map_None escalating_key_None)
    then show ?thesis using no None e by (auto simp: list_ex_iff)
  next
    case (Some k)
    then obtain p where p: "p \<in> set parent" "cap_covers p child" "escalating_constraint_key p child = Some k"
      by (auto simp: e dest!: find_map_Some)
    then obtain pv where "(k, pv) \<in> set (cap_constraints p)"
      "case map_of (cap_constraints child) k of Some cv \<Rightarrow> \<not> constraint_value_subsumes pv cv | None \<Rightarrow> True"
      by (fastforce simp: escalating_constraint_key_def find_Some_iff in_set_conv_nth)
    then have "list_ex (\<lambda>(key, pv). key = k \<and> (case map_of (cap_constraints child) k of
        None \<Rightarrow> True | Some cv \<Rightarrow> \<not> constraint_value_subsumes pv cv)) (cap_constraints p)"
      by (auto simp: list_ex_iff split: option.splits intro!: bexI[of _ "(k, pv)"])
    with p Some e show ?thesis by (auto simp: list_ex_iff)
  qed
qed

theorem attenuate_error_reason_witness:
  "list_ex (\<lambda>p. cap_covers p out_request \<and> list_ex (\<lambda>(key, pv). key = ''env'' \<and>
      (case map_of (cap_constraints out_request) ''env'' of
         None \<Rightarrow> True | Some cv \<Rightarrow> \<not> constraint_value_subsumes pv cv)) (cap_constraints p)) [out_parent]"
  using attenuate_error_reason[of "[out_parent]" out_request
      "\<lparr>err_action = Write, err_domain = ''storage'', err_selector = Some ''local/out/app.log'',
        err_constraint = Some ''env''\<rparr>"]
  by (simp add: cap_run out_parent_def out_request_def)

section \<open>Holding is enough\<close>

lemma seg_loop_self: "i \<le> length p \<Longrightarrow> seg_loop p p i i None 0 = Some (length p)"
proof (induction "length p - i" arbitrary: i)
  case 0
  then show ?case by (simp add: seg_loop_done)
next
  case (Suc n)
  then show ?case using seg_loop_literal[of i p i p None 0] by simp
qed

lemma segment_matches_self: "segment_matches p p"
  using seg_loop_self[of 0 p] by (simp add: segment_matches_def)

lemma glob_loop_self: "glob_loop pat pat i"
proof (induction "length pat - i" arbitrary: i)
  case 0
  then show ?case by (subst glob_loop.simps) simp
next
  case (Suc n)
  then have "glob_loop pat pat (i + 1)" by simp
  with Suc.hyps(2) show ?case by (subst glob_loop.simps) (simp add: segment_matches_self)
qed

lemma cap_covers_self: "cap_covers c c"
  by (auto simp: cap_covers_def action_covers_def resource_covers_def glob_covers_def glob_loop_self
      split: option.splits)

text \<open>A holder can confer exactly what it holds, whatever its selector and constraints: a
  capability among the parents' attenuates to itself.\<close>

theorem attenuate_held:
  assumes "c \<in> set parent" "list_all (\<lambda>(k, v). no_nan v) (cap_constraints c)"
    and "distinct (map fst (cap_constraints c))"
  shows "attenuate parent c = Inr c"
proof -
  have "map_of (cap_constraints c) k = Some v \<and> constraint_value_subsumes v v"
    if "(k, v) \<in> set (cap_constraints c)" for k v
    using that assms(2,3) by (auto simp: constraint_value_subsumes_def list_all_iff json_eq_refl)
  then have "constraints_subsume c c" unfolding constraints_subsume_iff by blast
  then show ?thesis using assms(1) cap_covers_self by (auto simp: attenuate_Inr covers_for_attenuation_def)
qed

theorem attenuate_held_witness: "attenuate [out_root, out_parent] out_parent = Inr out_parent"
  by (rule attenuate_held) (simp_all add: out_parent_def)

section \<open>Where attenuation escalates\<close>

text \<open>
  A parent selector ending in two stars covers the child selector that ends in one, because
  the child's star is read as a segment; but the child's trailing star then matches any
  remainder, which the parent's does not.
\<close>

definition double_star :: capability where
  "double_star = capability_new Read (resource_new ''storage'' ''a/**'')"

definition single_star :: capability where
  "single_star = capability_new Read (resource_new ''storage'' ''a/*'')"

definition deep_request :: capability where
  "deep_request = capability_new Read (resource_new ''storage'' ''a/b/c'')"

lemma double_star_escalates:
  "attenuate [double_star] single_star = Inr single_star \<and> cap_covers single_star deep_request
   \<and> \<not> cap_covers double_star deep_request"
  by (simp add: cap_run double_star_def single_star_def deep_request_def)

text \<open>
  The matcher tries a literal before a star, so a star in the value uses up the pattern's
  star: a narrower glob is refused although every name it matches is covered.
\<close>

lemma literal_before_star:
  "\<not> glob_covers ''*.org'' ''*.en.org'' \<and> glob ''*.org'' ''*.en.org''"
proof -
  have "glob (star # ''.org'') (''*.en'' @ ''.org'')"
    by (rule glob_star_skip, rule glob_star_none) (simp add: glob_literal star_def)
  then have "glob ''*.org'' ''*.en.org''" by (simp add: star_def)
  then show ?thesis by (simp add: cap_run)
qed

text \<open>A host glob is anchored. On a star-free name without a slash, the selector \<open>*.d\<close>
  covers exactly the names that end in \<open>.d\<close>, so never the apex \<open>d\<close> nor a look-alike.\<close>

theorem host_glob_exact:
  assumes "star \<notin> set d" "CHR ''/'' \<notin> set d" "star \<notin> set v" "CHR ''/'' \<notin> set v"
  shows "glob_covers (''*.'' @ d) v = (\<exists>x. v = x @ ''.'' @ d)"
proof -
  have "segs (''*.'' @ d) = [star # CHR ''.'' # d]" using assms(2) by (simp add: split_on_single star_def)
  moreover have "segs v = [v]" using assms(4) by (rule split_on_single)
  moreover have "glob (star # CHR ''.'' # d) v = (\<exists>x. v = x @ ''.'' @ d)"
    using glob_literal[of "CHR ''.'' # d"] assms(1) unfolding glob_star by (simp add: star_def)
  ultimately show ?thesis using glob_covers_iff[OF assms(3)] by (simp add: star_def)
qed

theorem host_glob_exact_witness:
  "glob_covers (''*.'' @ ''wiki.org'') ''en.wiki.org'' = (\<exists>x. ''en.wiki.org'' = x @ ''.'' @ ''wiki.org'')"
  by (rule host_glob_exact) (simp_all add: star_def)

text \<open>Within a segment, the two-pointer matcher decides the glob relation, in which a star
  is any run of characters, for every pattern and every star-free value; on any value what it
  accepts is right.\<close>

theorem segment_matches_exact:
  "(segment_matches p v \<longrightarrow> glob p v) \<and> (star \<notin> set v \<longrightarrow> segment_matches p v = glob p v)"
  using segment_matches_sound segment_matches_iff by blast

theorem segment_matches_exact_witness: "segment_matches ''a*b*c'' ''axxbybc'' = glob ''a*b*c'' ''axxbybc''"
  using segment_matches_exact[of "''a*b*c''" "''axxbybc''"] by (simp add: star_def)

end
