(* ===== verification/Iam_Roles.thy ===== *)
theory Iam_Roles
  imports Cap_Attenuate
begin

text \<open>
  Roles and their base authority, \<open>crates/catalerum-iam/src/capability.rs\<close>, and the
  organisation gates of \<open>crates/catalerum-iam/src/org.rs\<close>.
\<close>

section \<open>Workspace roles\<close>

datatype role = Owner | Admin | Member | Viewer

definition STANDARD_DOMAINS :: "string list" where
  "STANDARD_DOMAINS = [''calendar'', ''storage'', ''email'', ''notes'', ''tasks'', ''links'',
     ''graph'', ''vector'', ''skill'', ''memory'', ''profile'', ''channel'', ''agent'',
     ''automation'', ''conversation'', ''web'', ''ui'', ''db'']"

fun base_capabilities :: "role \<Rightarrow> capability list" where
  "base_capabilities Owner = [capability_new Any resource_any]"
| "base_capabilities Admin = [capability_new Any resource_any]"
| "base_capabilities Member =
     concat (map (\<lambda>d. [capability_new Read (resource_domain d), capability_new Write (resource_domain d)])
       STANDARD_DOMAINS)
     @ [capability_new Query (resource_domain ''graph''), capability_new Search (resource_domain ''vector''),
        capability_new Search (resource_domain ''web''), capability_new Use (resource_domain ''skill'')]"
| "base_capabilities Viewer =
     map (\<lambda>d. capability_new Read (resource_domain d)) STANDARD_DOMAINS
     @ [capability_new Query (resource_domain ''graph''), capability_new Search (resource_domain ''vector''),
        capability_new Search (resource_domain ''web'')]"

fun role_str :: "role \<Rightarrow> string" where
  "role_str Owner = ''owner''"
| "role_str Admin = ''admin''"
| "role_str Member = ''member''"
| "role_str Viewer = ''viewer''"

definition role_grant :: "nat \<Rightarrow> role \<Rightarrow> grant" where
  "role_grant workspace r = \<lparr>grant_id = 0, grant_workspace = workspace,
     grant_name = ''role:'' @ role_str r, capabilities = base_capabilities r,
     grant_constraints = default_constraints\<rparr>"

definition role_allows :: "role \<Rightarrow> capability \<Rightarrow> bool" where
  "role_allows r requested = list_ex (\<lambda>held. cap_covers held requested) (base_capabilities r)"

fun is_admin :: "role \<Rightarrow> bool" where
  "is_admin Owner = True"
| "is_admin Admin = True"
| "is_admin Member = False"
| "is_admin Viewer = False"

definition role_from_str :: "string \<Rightarrow> string + role" where
  "role_from_str s =
     (if s = ''owner'' then Inr Owner
      else if s = ''admin'' then Inr Admin
      else if s = ''member'' then Inr Member
      else if s = ''viewer'' then Inr Viewer
      else Inl (''unknown role: '' @ s))"

section \<open>Organisation roles and creation policies\<close>

datatype org_role = OrgOwner | OrgAdmin | OrgMember

datatype creation_policy = Disabled | Admins | Members

fun org_role_str :: "org_role \<Rightarrow> string" where
  "org_role_str OrgOwner = ''owner''"
| "org_role_str OrgAdmin = ''admin''"
| "org_role_str OrgMember = ''member''"

definition org_role_from_str :: "string \<Rightarrow> string + org_role" where
  "org_role_from_str s =
     (if s = ''owner'' then Inr OrgOwner
      else if s = ''admin'' then Inr OrgAdmin
      else if s = ''member'' then Inr OrgMember
      else Inl (''unknown org role: '' @ s))"

definition is_org_owner :: "org_role \<Rightarrow> bool" where
  "is_org_owner r \<longleftrightarrow> r = OrgOwner"

definition is_org_admin :: "org_role \<Rightarrow> bool" where
  "is_org_admin r \<longleftrightarrow> r = OrgOwner \<or> r = OrgAdmin"

definition org_admin_or_owner :: "org_role option \<Rightarrow> bool" where
  "org_admin_or_owner r = (case r of Some OrgOwner \<Rightarrow> True | Some OrgAdmin \<Rightarrow> True | _ \<Rightarrow> False)"

definition org_any_member :: "org_role option \<Rightarrow> bool" where
  "org_any_member r \<longleftrightarrow> r \<noteq> None"

fun workspace_creation_allowed :: "creation_policy \<Rightarrow> org_role option \<Rightarrow> bool" where
  "workspace_creation_allowed Disabled caller = False"
| "workspace_creation_allowed Admins caller = org_admin_or_owner caller"
| "workspace_creation_allowed Members caller = org_any_member caller"

fun organisation_creation_allowed :: "creation_policy \<Rightarrow> bool \<Rightarrow> bool" where
  "organisation_creation_allowed Disabled somewhere = False"
| "organisation_creation_allowed Members somewhere = True"
| "organisation_creation_allowed Admins somewhere = somewhere"

section \<open>What a role confers\<close>

lemma covers_domain:
  "cap_covers (capability_new a (resource_domain d)) c \<longleftrightarrow>
     (a = Any \<or> a = action c) \<and> (d = ''*'' \<or> d = res_domain (resource c))"
  by (auto simp: cap_covers_def capability_new_def resource_domain_def action_covers_def resource_covers_def)

lemma covers_any: "cap_covers (capability_new Any resource_any) c"
  by (simp add: cap_covers_def capability_new_def resource_any_def action_covers_def resource_covers_def)

lemma no_star_domain: "''*'' \<notin> set STANDARD_DOMAINS"
  by (simp add: STANDARD_DOMAINS_def)

lemma domains_covered:
  assumes "''*'' \<notin> set ds"
  shows "list_ex (\<lambda>h. cap_covers h c) (map (\<lambda>d. capability_new a (resource_domain d)) ds)
      \<longleftrightarrow> (a = Any \<or> a = action c) \<and> res_domain (resource c) \<in> set ds"
    "list_ex (\<lambda>h. cap_covers h c)
       (concat (map (\<lambda>d. [capability_new a (resource_domain d), capability_new b (resource_domain d)]) ds))
      \<longleftrightarrow> (a = Any \<or> a = action c \<or> b = Any \<or> b = action c) \<and> res_domain (resource c) \<in> set ds"
  using assms by (induction ds) (auto simp: covers_domain)

lemma role_allows_viewer:
  "role_allows Viewer c \<longleftrightarrow>
     (action c = Read \<and> res_domain (resource c) \<in> set STANDARD_DOMAINS)
     \<or> (action c = Query \<and> res_domain (resource c) = ''graph'')
     \<or> (action c = Search \<and> res_domain (resource c) \<in> {''vector'', ''web''})"
  unfolding role_allows_def base_capabilities.simps list_ex_append domains_covered[OF no_star_domain]
  by (auto simp: covers_domain)

lemma role_allows_member:
  "role_allows Member c \<longleftrightarrow>
     (action c \<in> {Read, Write} \<and> res_domain (resource c) \<in> set STANDARD_DOMAINS)
     \<or> (action c = Query \<and> res_domain (resource c) = ''graph'')
     \<or> (action c = Search \<and> res_domain (resource c) \<in> {''vector'', ''web''})
     \<or> (action c = Use \<and> res_domain (resource c) = ''skill'')"
  unfolding role_allows_def base_capabilities.simps list_ex_append domains_covered[OF no_star_domain]
  by (auto simp: covers_domain)

lemma role_allows_admin: "role_allows Owner c \<and> role_allows Admin c"
  by (simp add: role_allows_def covers_any)

lemma base_capabilities_tame:
  "list_all (\<lambda>p. tame_selector (selector (resource p))) (base_capabilities r)"
  by (cases r) (auto simp: list_all_iff tame_selector_def capability_new_def resource_domain_def resource_any_def)

section \<open>The properties\<close>

text \<open>C37: what a role authorizes. Owner and Admin authorize everything; a Member reads and
  writes the standard domains and may query the graph, search vectors and the web and use
  skills; a Viewer only the reads among these. So no role but Owner and Admin ever authorizes
  deleting, running on the host or exposing over MCP.\<close>

theorem role_authority:
  "role_allows r c =
     (is_admin r
      \<or> action c \<in> (if r = Member then {Read, Write} else {Read}) \<and> res_domain (resource c) \<in> set STANDARD_DOMAINS
      \<or> action c = Query \<and> res_domain (resource c) = ''graph''
      \<or> action c = Search \<and> res_domain (resource c) \<in> {''vector'', ''web''}
      \<or> r = Member \<and> action c = Use \<and> res_domain (resource c) = ''skill'')"
  by (cases r) (simp_all add: role_allows_admin role_allows_member role_allows_viewer)

text \<open>A user can never confer more than the role's base set. When every capability of a grant
  was attenuated from a role's base capabilities, every concrete request the grant allows is
  one the role allows.\<close>

theorem grant_within_role:
  assumes "list_all (\<lambda>c. attenuate (base_capabilities r) c = Inr c) (capabilities g)"
    and "concrete req" "allows g req"
  shows "role_allows r req"
proof -
  from assms(3) obtain c where c: "c \<in> set (capabilities g)" "cap_covers c req"
    by (auto simp: allows_def list_ex_iff)
  have "attenuate (base_capabilities r) c = Inr c" using assms(1) c(1) by (auto simp: list_all_iff)
  from attenuate_sound[OF this base_capabilities_tame] assms(2) c(2) show ?thesis
    unfolding no_escalation_def role_allows_def list_ex_iff by blast
qed

definition notes_grant :: grant where
  "notes_grant = \<lparr>grant_id = 7, grant_workspace = 1, grant_name = ''notes'',
     capabilities = [capability_new Write (resource_new ''notes'' ''inbox/*'')],
     grant_constraints = default_constraints\<rparr>"

theorem grant_within_role_witness:
  "role_allows Member (capability_new Write (resource_new ''notes'' ''inbox/today''))"
proof (rule grant_within_role[where g = notes_grant])
  show "list_all (\<lambda>c. attenuate (base_capabilities Member) c = Inr c) (capabilities notes_grant)"
    by (simp add: notes_grant_def STANDARD_DOMAINS_def cap_run resource_domain_def)
  show "concrete (capability_new Write (resource_new ''notes'' ''inbox/today''))"
    by (simp add: cap_run)
  show "allows notes_grant (capability_new Write (resource_new ''notes'' ''inbox/today''))"
    by (simp add: allows_def notes_grant_def cap_run)
qed

lemma role_hierarchy:
  "role_allows Viewer c \<Longrightarrow> role_allows Member c" "role_allows Member c \<Longrightarrow> role_allows Admin c"
  by (auto simp: role_allows_viewer role_allows_member role_allows_admin)

lemma role_str_roundtrip: "role_from_str s = Inr r \<longleftrightarrow> s = role_str r"
  by (cases r) (auto simp: role_from_str_def)

lemma org_role_str_roundtrip: "org_role_from_str s = Inr r \<longleftrightarrow> s = org_role_str r"
  by (cases r) (auto simp: org_role_from_str_def)

text \<open>Role names are read back exactly: a string parses to a role when, and only when, it is
  that role's canonical name, for workspace and organisation roles alike.\<close>

theorem role_names_exact:
  "(role_from_str s = Inr r) = (s = role_str r) \<and> (org_role_from_str s = Inr q) = (s = org_role_str q)"
  by (simp add: role_str_roundtrip org_role_str_roundtrip)

lemma creation_gates:
  "workspace_creation_allowed p None = False"
  "workspace_creation_allowed p (Some OrgMember) \<Longrightarrow> workspace_creation_allowed p (Some OrgAdmin)"
  "workspace_creation_allowed Admins c \<Longrightarrow> workspace_creation_allowed Members c"
  by (cases p; simp add: org_admin_or_owner_def org_any_member_def split: option.splits org_role.splits)+

end
