(* ===== verification/Iam_Token.thy ===== *)
theory Iam_Token
  imports Prelude "HOL-Library.Word"
begin

text \<open>
  Opaque tokens, \<open>crates/catalerum-iam/src/token.rs\<close>: the unpadded URL-safe base64 of random
  bytes, with the random bytes and the SHA-256 digest as parameters; and the magic-link URL
  of \<open>crates/catalerum-iam/src/magic.rs\<close>.
\<close>

unbundle bit_operations_syntax

definition TOKEN_BYTES :: nat where
  "TOKEN_BYTES = 32"

definition ALPHABET :: string where
  "ALPHABET = ''ABCDEFGHIJKLMNOPQRSTUVWXYZabcdefghijklmnopqrstuvwxyz0123456789-_''"

definition sextet :: "32 word \<Rightarrow> nat \<Rightarrow> char" where
  "sextet n k = ALPHABET ! unat (drop_bit k n AND 0x3f)"

definition join_bytes :: "8 word \<Rightarrow> 8 word \<Rightarrow> 8 word \<Rightarrow> 32 word" where
  "join_bytes b0 b1 b2 =
     (push_bit 16 (ucast b0)) OR (push_bit 8 (ucast b1)) OR (ucast b2)"

fun encode_url_safe :: "8 word list \<Rightarrow> string" where
  "encode_url_safe [] = []"
| "encode_url_safe [b0] = (let n = join_bytes b0 0 0 in [sextet n 18, sextet n 12])"
| "encode_url_safe [b0, b1] =
     (let n = join_bytes b0 b1 0 in [sextet n 18, sextet n 12, sextet n 6])"
| "encode_url_safe (b0 # b1 # b2 # bs) =
     (let n = join_bytes b0 b1 b2 in
      [sextet n 18, sextet n 12, sextet n 6, sextet n 0] @ encode_url_safe bs)"

definition generate_bytes :: "(nat \<Rightarrow> 8 word list) \<Rightarrow> nat \<Rightarrow> string" where
  "generate_bytes rng n = encode_url_safe (rng n)"

definition generate :: "(nat \<Rightarrow> 8 word list) \<Rightarrow> string" where
  "generate rng = generate_bytes rng TOKEN_BYTES"

definition hex_digit :: "8 word \<Rightarrow> char" where
  "hex_digit d = ''0123456789abcdef'' ! unat d"

definition hash_token :: "(string \<Rightarrow> 8 word list) \<Rightarrow> string \<Rightarrow> string" where
  "hash_token sha256 token =
     concat (map (\<lambda>b. [hex_digit (drop_bit 4 b), hex_digit (b AND 0xf)]) (sha256 token))"

definition render_url :: "string \<Rightarrow> string \<Rightarrow> string" where
  "render_url base_url token =
     trim_end_by (\<lambda>c. c = CHR ''/'') base_url @ ''/auth/magic'' @ ''?token='' @ token"

section \<open>Decoding\<close>

fun index_of :: "'a \<Rightarrow> 'a list \<Rightarrow> nat" where
  "index_of x [] = 0"
| "index_of x (y # ys) = (if x = y then 0 else index_of x ys + 1)"

lemma index_of_nth: "distinct xs \<Longrightarrow> i < length xs \<Longrightarrow> index_of (xs ! i) xs = i"
  by (induction xs arbitrary: i) (auto simp: nth_Cons split: nat.splits)

definition value_of :: "char \<Rightarrow> 32 word" where
  "value_of c = of_nat (index_of c ALPHABET)"

text \<open>A reference decoder: it joins the six-bit groups of up to four characters.\<close>

fun decode_url_safe :: "string \<Rightarrow> 8 word list" where
  "decode_url_safe [c0, c1] =
     (let n = push_bit 18 (value_of c0) OR push_bit 12 (value_of c1) in [ucast (drop_bit 16 n)])"
| "decode_url_safe [c0, c1, c2] =
     (let n = push_bit 18 (value_of c0) OR push_bit 12 (value_of c1) OR push_bit 6 (value_of c2)
      in [ucast (drop_bit 16 n), ucast (drop_bit 8 n)])"
| "decode_url_safe (c0 # c1 # c2 # c3 # cs) =
     (let n = push_bit 18 (value_of c0) OR push_bit 12 (value_of c1) OR push_bit 6 (value_of c2) OR value_of c3
      in [ucast (drop_bit 16 n), ucast (drop_bit 8 n), ucast n] @ decode_url_safe cs)"
| "decode_url_safe _ = []"

lemma alphabet_distinct: "distinct ALPHABET"
  by (simp add: ALPHABET_def)

lemma alphabet_length: "length ALPHABET = 64"
  by (simp add: ALPHABET_def)

lemma sextet_bound: "unat (w AND 0x3f :: 32 word) < 64"
proof -
  have "w AND 0x3f \<le> 0x3f" by (rule word_and_le1)
  then have "unat (w AND 0x3f) \<le> unat (0x3f :: 32 word)" by (simp only: word_le_nat_alt)
  then show ?thesis by simp
qed

lemma value_sextet: "value_of (sextet n k) = drop_bit k n AND 0x3f"
  using index_of_nth[OF alphabet_distinct, of "unat (drop_bit k n AND 0x3f)"] sextet_bound[of "drop_bit k n"]
  by (simp add: value_of_def sextet_def alphabet_length)

lemma mask6: "(0x3f :: 32 word) = mask 6"
  by (simp add: mask_eq_exp_minus_1)

lemma regroup4:
  "push_bit 18 (drop_bit 18 n AND 0x3f) OR push_bit 12 (drop_bit 12 n AND 0x3f)
     OR push_bit 6 (drop_bit 6 n AND 0x3f) OR (drop_bit 0 n AND 0x3f) = take_bit 24 (n :: 32 word)"
  unfolding mask6
  by (rule bit_word_eqI, rename_tac i, case_tac "i < 12"; case_tac "i < 18"; auto simp: bit_simps)

lemma regroup3:
  "push_bit 18 (drop_bit 18 n AND 0x3f) OR push_bit 12 (drop_bit 12 n AND 0x3f)
     OR push_bit 6 (drop_bit 6 n AND 0x3f) = push_bit 6 (take_bit 18 (drop_bit 6 (n :: 32 word)))"
  unfolding mask6
  by (rule bit_word_eqI, rename_tac i, case_tac "i < 12"; case_tac "i < 18"; auto simp: bit_simps)

lemma regroup2:
  "push_bit 18 (drop_bit 18 n AND 0x3f) OR push_bit 12 (drop_bit 12 n AND 0x3f)
     = push_bit 12 (take_bit 12 (drop_bit 12 (n :: 32 word)))"
  unfolding mask6
  by (rule bit_word_eqI, rename_tac i, case_tac "i < 12"; case_tac "i < 18"; auto simp: bit_simps)

lemma bytes_of_join:
  "ucast (drop_bit 16 (take_bit 24 (join_bytes b0 b1 b2))) = b0"
  "ucast (drop_bit 8 (take_bit 24 (join_bytes b0 b1 b2))) = b1"
  "ucast (take_bit 24 (join_bytes b0 b1 b2)) = b2"
  by (rule bit_word_eqI; auto simp: join_bytes_def bit_simps dest: bit_imp_le_length)+

lemma bytes_of_join3:
  "ucast (drop_bit 16 (push_bit 6 (take_bit 18 (drop_bit 6 (join_bytes b0 b1 b2))))) = b0"
  "ucast (drop_bit 8 (push_bit 6 (take_bit 18 (drop_bit 6 (join_bytes b0 b1 b2))))) = b1"
  by (rule bit_word_eqI; auto simp: join_bytes_def bit_simps dest: bit_imp_le_length)+

lemma bytes_of_join2:
  "ucast (drop_bit 16 (push_bit 12 (take_bit 12 (drop_bit 12 (join_bytes b0 b1 b2))))) = b0"
  by (rule bit_word_eqI; auto simp: join_bytes_def bit_simps dest: bit_imp_le_length)

lemma decode_encode: "decode_url_safe (encode_url_safe bs) = bs"
proof (induction bs rule: encode_url_safe.induct)
  case (2 b0)
  show ?case
    by (simp only: encode_url_safe.simps Let_def decode_url_safe.simps value_sextet regroup2 bytes_of_join2)
next
  case (3 b0 b1)
  show ?case
    by (simp only: encode_url_safe.simps Let_def decode_url_safe.simps value_sextet regroup3 bytes_of_join3)
next
  case (4 b0 b1 b2 bs)
  have "decode_url_safe (encode_url_safe (b0 # b1 # b2 # bs))
      = b0 # b1 # b2 # decode_url_safe (encode_url_safe bs)"
    by (simp only: encode_url_safe.simps Let_def append.simps decode_url_safe.simps value_sextet
        regroup4 bytes_of_join)
  with 4 show ?case by simp
qed simp

text \<open>The length and the alphabet of an encoded token.\<close>

lemma sextet_alphabet: "sextet n k \<in> set ALPHABET"
  unfolding sextet_def using sextet_bound alphabet_length by (metis nth_mem)

lemma encode_alphabet: "set (encode_url_safe bs) \<subseteq> set ALPHABET"
  by (induction bs rule: encode_url_safe.induct) (auto simp: Let_def sextet_alphabet)

lemma encode_length: "length (encode_url_safe bs) = (4 * length bs + 2) div 3"
  by (induction bs rule: encode_url_safe.induct) (auto simp: Let_def)

section \<open>The properties\<close>

text \<open>Encoding loses nothing and stays URL-safe. The encoder has a left inverse, so distinct
  random bytes give distinct tokens; every character is in the URL-safe alphabet without
  padding; and \<open>n\<close> bytes take \<open>ceil(4n/3)\<close> characters.\<close>

theorem encode_url_safe_faithful:
  "decode_url_safe (encode_url_safe bs) = bs \<and> set (encode_url_safe bs) \<subseteq> set ALPHABET
   \<and> length (encode_url_safe bs) = (4 * length bs + 2) div 3"
  by (simp add: decode_encode encode_alphabet encode_length)

lemma render_url_trims:
  "render_url (base @ replicate n (CHR ''/'')) token = render_url base token"
proof -
  have "dropWhile (\<lambda>c. c = CHR ''/'') (replicate n (CHR ''/'') @ s) = dropWhile (\<lambda>c. c = CHR ''/'') s" for s
    by (induction n) auto
  then show ?thesis by (simp add: render_url_def trim_end_by_def)
qed

end
