(* ===== verification/Iam_Service.thy ===== *)
theory Iam_Service
  imports Iam_Store Iam_Token
begin

text \<open>
  The identity service of \<open>crates/catalerum-iam/src/service.rs\<close> and the session rules of
  \<open>session.rs\<close>, over any store. The clock reading and the drawn randomness (tokens and ids)
  of a call are arguments; an \<open>await\<close> is a state-passing step, in the order of the code.
\<close>

section \<open>Sessions and principals (session.rs)\<close>

definition seconds :: "int \<Rightarrow> int" where
  "seconds n = n * 1000000000"

definition DEFAULT_SESSION_TTL :: int where
  "DEFAULT_SESSION_TTL = seconds (12 * 3600)"

definition DEFAULT_LOGIN_TOKEN_TTL :: int where
  "DEFAULT_LOGIN_TOKEN_TTL = seconds (24 * 3600)"

definition duration_days :: "int \<Rightarrow> int" where
  "duration_days d = seconds (d * 86400)"

definition is_valid_at :: "session \<Rightarrow> int \<Rightarrow> bool" where
  "is_valid_at s now \<longleftrightarrow> now < s_expires s"

record principal =
  p_user :: nat
  p_workspace :: nat
  p_role :: role
  p_grant :: "nat option"

definition session_principal :: "session \<Rightarrow> principal" where
  "session_principal s = \<lparr>p_user = s_user s, p_workspace = s_workspace s, p_role = s_role s, p_grant = s_grant s\<rparr>"

definition principal_new :: "nat \<Rightarrow> nat \<Rightarrow> role \<Rightarrow> principal" where
  "principal_new u w r = \<lparr>p_user = u, p_workspace = w, p_role = r, p_grant = None\<rparr>"

section \<open>Configuration and constants\<close>

record iam_config =
  base_url :: string
  session_ttl :: int
  login_ttl :: int

definition DEFAULT_ORGANISATION_ID :: nat where
  "DEFAULT_ORGANISATION_ID = 0xdef00000000040008000000000000000"

definition DEFAULT_WORKSPACE_NAME :: string where "DEFAULT_WORKSPACE_NAME = ''Default''"
definition DEFAULT_WORKSPACE_SLUG :: string where "DEFAULT_WORKSPACE_SLUG = ''default''"
definition DEFAULT_ADMIN_EMAIL :: string where "DEFAULT_ADMIN_EMAIL = ''admin@localhost''"
definition DEFAULT_ADMIN_NAME :: string where "DEFAULT_ADMIN_NAME = ''Admin''"

definition default_config :: iam_config where
  "default_config = \<lparr>base_url = ''http://localhost:8787'', session_ttl = DEFAULT_SESSION_TTL,
     login_ttl = DEFAULT_LOGIN_TOKEN_TTL\<rparr>"

definition with_base_url :: "string \<Rightarrow> iam_config \<Rightarrow> iam_config" where
  "with_base_url u c = c\<lparr>base_url := trim_end_by (\<lambda>x. x = CHR ''/'') u\<rparr>"

section \<open>Workspaces, users, memberships\<close>

definition svc_create_workspace :: "'s iam_ops \<Rightarrow> nat \<Rightarrow> string \<Rightarrow> string \<Rightarrow> ('s, workspace) iam" where
  "svc_create_workspace ops fresh name slug =
     create_workspace ops \<lparr>ws_id = fresh, ws_organisation = DEFAULT_ORGANISATION_ID, ws_name = name,
       ws_slug = slug, archived_at = None\<rparr>"

definition svc_create_user :: "'s iam_ops \<Rightarrow> nat \<Rightarrow> string \<Rightarrow> string \<Rightarrow> ('s, user) iam" where
  "svc_create_user ops fresh e name =
     create_user ops \<lparr>user_id = fresh, email = e, display_name = name, sso_subject = None\<rparr>"

definition create_sso_user :: "'s iam_ops \<Rightarrow> nat \<Rightarrow> string \<Rightarrow> string \<Rightarrow> subject \<Rightarrow> ('s, user) iam" where
  "create_sso_user ops fresh e name su =
     create_user ops \<lparr>user_id = fresh, email = e, display_name = name, sso_subject = Some su\<rparr>"

definition add_membership :: "'s iam_ops \<Rightarrow> nat \<Rightarrow> nat \<Rightarrow> role \<Rightarrow> ('s, membership) iam" where
  "add_membership ops w u r =
     (let m = \<lparr>m_workspace = w, m_user = u, m_role = r\<rparr>
      in bindM (upsert_membership ops m) (\<lambda>_. ret m))"

section \<open>Single sign-on\<close>

record sso_identity =
  id_subject :: subject
  id_email :: "string option"
  email_verified :: bool
  id_display :: "string option"

datatype sso_deny_reason = ProvisioningDisabled | NoVerifiedEmail | EmailAlreadyLinked

datatype sso_resolution = Existing user | Provisioned user | Denied sso_deny_reason

definition usable_email :: "sso_identity \<Rightarrow> bool \<Rightarrow> string option" where
  "usable_email identity trust_email =
     (case id_email identity of
        None \<Rightarrow> None
      | Some e \<Rightarrow> (let t = trim e in
          if t \<noteq> [] \<and> (email_verified identity \<or> trust_email) then Some t else None))"

definition provision :: "'s iam_ops \<Rightarrow> nat \<Rightarrow> sso_identity \<Rightarrow> bool \<Rightarrow> string option \<Rightarrow> ('s, sso_resolution) iam" where
  "provision ops fresh identity jit_enabled usable =
     (if \<not> jit_enabled then ret (Denied ProvisioningDisabled)
      else (case usable of
              None \<Rightarrow> ret (Denied NoVerifiedEmail)
            | Some e \<Rightarrow>
                (let display = (case id_display identity of
                                  Some d \<Rightarrow> if trim d \<noteq> [] then d else e
                                | None \<Rightarrow> e)
                 in bindM (create_sso_user ops fresh e display (id_subject identity)) (\<lambda>u.
                      ret (Provisioned u)))))"

definition resolve_sso_identity ::
    "'s iam_ops \<Rightarrow> nat \<Rightarrow> sso_identity \<Rightarrow> bool \<Rightarrow> bool \<Rightarrow> ('s, sso_resolution) iam" where
  "resolve_sso_identity ops fresh identity jit_enabled trust_email =
     bindM (get_user_by_sso ops (id_subject identity)) (\<lambda>bound.
       case bound of
         Some u \<Rightarrow> ret (Existing u)
       | None \<Rightarrow>
           (let usable = usable_email identity trust_email in
            case usable of
              None \<Rightarrow> provision ops fresh identity jit_enabled usable
            | Some e \<Rightarrow>
                bindM (get_user_by_email_ci ops e) (\<lambda>found.
                  case found of
                    Some existing \<Rightarrow>
                      (if sso_subject existing \<noteq> None then ret (Denied EmailAlreadyLinked)
                       else bindM (bind_sso_subject ops (user_id existing) (id_subject identity)) (\<lambda>u.
                              ret (Existing u)))
                  | None \<Rightarrow> provision ops fresh identity jit_enabled usable)))"

section \<open>Issuing sessions\<close>

definition issue_session_with_ttl ::
    "'s iam_ops \<Rightarrow> int \<Rightarrow> string \<Rightarrow> nat \<Rightarrow> nat \<Rightarrow> role \<Rightarrow> nat option \<Rightarrow> int \<Rightarrow> ('s, session) iam" where
  "issue_session_with_ttl ops now tok w u r gr ttl =
     (let s = \<lparr>s_token = tok, s_user = u, s_workspace = w, s_role = r, s_grant = gr,
               s_created = now, s_expires = now + ttl\<rparr>
      in bindM (create_session ops s) (\<lambda>_. ret s))"

definition issue_session_with_ttl_days ::
    "'s iam_ops \<Rightarrow> int \<Rightarrow> string \<Rightarrow> nat \<Rightarrow> nat \<Rightarrow> role \<Rightarrow> nat option \<Rightarrow> int \<Rightarrow> ('s, session) iam" where
  "issue_session_with_ttl_days ops now tok w u r gr days =
     issue_session_with_ttl ops now tok w u r gr (duration_days (max days 1))"

definition issue_session_with_role ::
    "'s iam_ops \<Rightarrow> iam_config \<Rightarrow> int \<Rightarrow> string \<Rightarrow> nat \<Rightarrow> nat \<Rightarrow> role \<Rightarrow> ('s, session) iam" where
  "issue_session_with_role ops cfg now tok w u r =
     issue_session_with_ttl ops now tok w u r None (session_ttl cfg)"

definition issue_session ::
    "'s iam_ops \<Rightarrow> iam_config \<Rightarrow> int \<Rightarrow> string \<Rightarrow> nat \<Rightarrow> nat \<Rightarrow> ('s, session) iam" where
  "issue_session ops cfg now tok w u =
     bindM (get_workspace ops w) (\<lambda>ws.
       if (case ws of Some row \<Rightarrow> archived_at row \<noteq> None | None \<Rightarrow> False)
       then fail (Forbidden (''this workspace is archived and cannot be logged into; an '' @
              ''organisation admin must restore it first''))
       else bindM (get_membership ops w u) (\<lambda>m.
         case m of
           None \<Rightarrow> fail (Unauthorized ''user is not a member of this workspace'')
         | Some row \<Rightarrow> issue_session_with_role ops cfg now tok w u (m_role row)))"

section \<open>Verifying bearers\<close>

text \<open>
  \<open>strip_bearer\<close> slices the value at byte 7, which panics (\<open>None\<close>) inside a character;
  characters from code point 128 on take two bytes in UTF-8.
\<close>

definition utf8_len :: "char \<Rightarrow> nat" where
  "utf8_len c = (if code c < 128 then 1 else 2)"

fun split_at_byte :: "nat \<Rightarrow> string \<Rightarrow> (string \<times> string) option" where
  "split_at_byte k [] = (if k = 0 then Some ([], []) else None)"
| "split_at_byte k (c # cs) =
     (if k = 0 then Some ([], c # cs)
      else if k < utf8_len c then None
      else map_option (\<lambda>(l, r). (c # l, r)) (split_at_byte (k - utf8_len c) cs))"

definition strip_bearer :: "string \<Rightarrow> string option" where
  "strip_bearer x =
     (let v = trim x in
      if sum_list (map utf8_len v) \<ge> 7
      then (case split_at_byte 7 v of
              None \<Rightarrow> None
            | Some (l, r) \<Rightarrow> if eq_ignore_ascii_case l ''bearer '' then Some (trim r) else Some v)
      else Some v)"

definition verify_session :: "'s iam_ops \<Rightarrow> int \<Rightarrow> string \<Rightarrow> ('s, session) iam" where
  "verify_session ops now tok =
     bindM (get_session ops tok) (\<lambda>found.
       case found of
         None \<Rightarrow> fail (Unauthorized ''unknown session token'')
       | Some s \<Rightarrow>
           if \<not> is_valid_at s now
           then (\<lambda>st. case delete_session ops tok st of
                        (_, st') \<Rightarrow> (Inl (Unauthorized ''session expired''), st'))
           else ret s)"

definition verify_bearer :: "'s iam_ops \<Rightarrow> int \<Rightarrow> string \<Rightarrow> ('s, principal) iam" where
  "verify_bearer ops now bearer =
     (case strip_bearer bearer of
        None \<Rightarrow> fail Panicked
      | Some tok \<Rightarrow>
          if tok = [] then fail (Unauthorized ''missing bearer token'')
          else bindM (verify_session ops now tok) (\<lambda>s. ret (session_principal s)))"

definition revoke_session :: "'s iam_ops \<Rightarrow> string \<Rightarrow> ('s, bool) iam" where
  "revoke_session ops tok =
     (case strip_bearer tok of
        None \<Rightarrow> fail Panicked
      | Some t \<Rightarrow> delete_session ops t)"

definition svc_purge_expired_sessions :: "'s iam_ops \<Rightarrow> int \<Rightarrow> ('s, nat) iam" where
  "svc_purge_expired_sessions ops now = purge_expired_sessions ops now"

section \<open>One-time login\<close>

record magic_link =
  ml_token :: string
  ml_user :: nat
  ml_workspace :: nat
  ml_expires :: int
  ml_url :: string

definition issue_login_token_with_ttl ::
    "'s iam_ops \<Rightarrow> iam_config \<Rightarrow> int \<Rightarrow> string \<Rightarrow> nat \<Rightarrow> nat \<Rightarrow> int \<Rightarrow> ('s, magic_link) iam" where
  "issue_login_token_with_ttl ops cfg now tok w u ttl =
     (let row = \<lparr>lt_token = tok, lt_user = u, lt_workspace = w, lt_created = now,
                 lt_expires = now + ttl, lt_consumed = None\<rparr>
      in bindM (create_login_token ops row) (\<lambda>_.
           ret \<lparr>ml_token = tok, ml_user = u, ml_workspace = w, ml_expires = lt_expires row,
                ml_url = render_url (base_url cfg) tok\<rparr>))"

definition issue_login_token ::
    "'s iam_ops \<Rightarrow> iam_config \<Rightarrow> int \<Rightarrow> string \<Rightarrow> nat \<Rightarrow> nat \<Rightarrow> ('s, magic_link) iam" where
  "issue_login_token ops cfg now tok w u = issue_login_token_with_ttl ops cfg now tok w u (login_ttl cfg)"

definition svc_consume_login_token :: "'s iam_ops \<Rightarrow> int \<Rightarrow> string \<Rightarrow> ('s, login_token) iam" where
  "svc_consume_login_token ops now tok =
     bindM (consume_login_token ops tok now) (\<lambda>row.
       if lt_expires row \<le> now then fail (Unauthorized ''login token expired'') else ret row)"

text \<open>The two halves of a redemption read the clock once each, at \<open>t1\<close> and \<open>t2\<close>.\<close>

definition redeem_login_token ::
    "'s iam_ops \<Rightarrow> iam_config \<Rightarrow> int \<Rightarrow> int \<Rightarrow> string \<Rightarrow> string \<Rightarrow> ('s, session) iam" where
  "redeem_login_token ops cfg t1 t2 fresh tok =
     bindM (svc_consume_login_token ops t1 tok) (\<lambda>row.
       issue_session ops cfg t2 fresh (lt_workspace row) (lt_user row))"

section \<open>The development login\<close>

definition ensure_dev_owner :: "'s iam_ops \<Rightarrow> nat \<Rightarrow> nat \<Rightarrow> ('s, workspace \<times> user \<times> role) iam" where
  "ensure_dev_owner ops fresh_ws fresh_user =
     bindM (bindM (get_workspace_by_slug ops DEFAULT_WORKSPACE_SLUG) (\<lambda>found.
              case found of
                Some w \<Rightarrow> ret w
              | None \<Rightarrow> svc_create_workspace ops fresh_ws DEFAULT_WORKSPACE_NAME DEFAULT_WORKSPACE_SLUG)) (\<lambda>w.
     bindM (bindM (get_user_by_email ops DEFAULT_ADMIN_EMAIL) (\<lambda>found.
              case found of
                Some u \<Rightarrow> ret u
              | None \<Rightarrow> svc_create_user ops fresh_user DEFAULT_ADMIN_EMAIL DEFAULT_ADMIN_NAME)) (\<lambda>u.
     bindM (bindM (get_membership ops (ws_id w) (user_id u)) (\<lambda>found.
              case found of
                Some m \<Rightarrow> ret (m_role m)
              | None \<Rightarrow> bindM (add_membership ops (ws_id w) (user_id u) Owner) (\<lambda>_. ret Owner))) (\<lambda>r.
       ret (w, u, r))))"

definition ensure_dev_login ::
    "'s iam_ops \<Rightarrow> iam_config \<Rightarrow> int \<Rightarrow> nat \<Rightarrow> nat \<Rightarrow> string \<Rightarrow> ('s, magic_link) iam" where
  "ensure_dev_login ops cfg now fresh_ws fresh_user tok =
     bindM (ensure_dev_owner ops fresh_ws fresh_user) (\<lambda>(w, u, _).
       issue_login_token ops cfg now tok (ws_id w) (user_id u))"

definition ensure_session_with_token ::
    "'s iam_ops \<Rightarrow> int \<Rightarrow> nat \<Rightarrow> nat \<Rightarrow> role \<Rightarrow> string \<Rightarrow> int \<Rightarrow> ('s, session) iam" where
  "ensure_session_with_token ops now w u r tok ttl =
     bindM (purge_expired_sessions ops now) (\<lambda>_.
     bindM (get_session ops tok) (\<lambda>found.
       case found of
         Some existing \<Rightarrow>
           (if s_workspace existing = w \<and> s_user existing = u then ret existing
            else fail (Conflict ''dev authorization token is already bound to another principal''))
       | None \<Rightarrow>
           (let s = \<lparr>s_token = tok, s_user = u, s_workspace = w, s_role = r, s_grant = None,
                     s_created = now, s_expires = now + ttl\<rparr>
            in bindM (create_session ops s) (\<lambda>_. ret s))))"

definition ensure_dev_authorization_token ::
    "'s iam_ops \<Rightarrow> int \<Rightarrow> nat \<Rightarrow> nat \<Rightarrow> string \<Rightarrow> int \<Rightarrow> ('s, session) iam" where
  "ensure_dev_authorization_token ops now fresh_ws fresh_user x ttl =
     (let tok = trim x in
      if tok = [] then fail (Invalid ''dev authorization token is empty'')
      else bindM (ensure_dev_owner ops fresh_ws fresh_user) (\<lambda>(w, u, r).
             ensure_session_with_token ops now (ws_id w) (user_id u) r tok ttl))"

definition ensure_dev_authorization_token_days ::
    "'s iam_ops \<Rightarrow> int \<Rightarrow> nat \<Rightarrow> nat \<Rightarrow> string \<Rightarrow> int \<Rightarrow> ('s, session) iam" where
  "ensure_dev_authorization_token_days ops now fresh_ws fresh_user x days =
     ensure_dev_authorization_token ops now fresh_ws fresh_user x (duration_days (max days 1))"

end
