(* ===== verification/Iam_Contract.thy ===== *)
theory Iam_Contract
  imports Iam_Service
begin

text \<open>
  The contract between the identity service and its store, as locales: what each operation of
  the \<open>IamStore\<close> trait does to an abstract view of the rows. The service's guarantees are
  proved inside the locales, once for every store that keeps the contract, and the in-memory
  store is shown to keep it.
\<close>

section \<open>The abstract view\<close>

record iam_view =
  vw_workspaces :: "nat \<rightharpoonup> workspace"
  vw_users :: "nat \<rightharpoonup> user"
  vw_members :: "nat \<times> nat \<rightharpoonup> membership"
  vw_sessions :: "string \<rightharpoonup> session"
  vw_tokens :: "string \<rightharpoonup> login_token"

definition live_at :: "int \<Rightarrow> (string \<rightharpoonup> session) \<Rightarrow> (string \<rightharpoonup> session)" where
  "live_at now m = (\<lambda>t. case m t of Some s \<Rightarrow> if s_expires s > now then Some s else None | None \<Rightarrow> None)"

section \<open>The laws\<close>

locale store_view =
  fixes ops :: "'s iam_ops" and view :: "'s \<Rightarrow> iam_view" and ok :: "'s \<Rightarrow> bool"

locale session_store = store_view +
  assumes get_session_law: "ok s \<Longrightarrow> get_session ops t s = (Inr (vw_sessions (view s) t), s)"
    and create_session_law: "ok s \<Longrightarrow> \<exists>s'. create_session ops x s = (Inr (), s') \<and> ok s'
          \<and> view s' = (view s)\<lparr>vw_sessions := (vw_sessions (view s))(s_token x \<mapsto> x)\<rparr>"
    and delete_session_law: "ok s \<Longrightarrow> \<exists>s'. delete_session ops t s = (Inr (vw_sessions (view s) t \<noteq> None), s') \<and> ok s'
          \<and> view s' = (view s)\<lparr>vw_sessions := (vw_sessions (view s))(t := None)\<rparr>"
    and purge_law: "ok s \<Longrightarrow> \<exists>n s'. purge_expired_sessions ops now s = (Inr n, s') \<and> ok s'
          \<and> view s' = (view s)\<lparr>vw_sessions := live_at now (vw_sessions (view s))\<rparr>"

locale login_store = store_view +
  assumes create_login_token_law: "ok s \<Longrightarrow> \<exists>s'. create_login_token ops x s = (Inr (), s') \<and> ok s'
          \<and> view s' = (view s)\<lparr>vw_tokens := (vw_tokens (view s))(lt_token x \<mapsto> x)\<rparr>"
    and consume_unknown: "ok s \<Longrightarrow> vw_tokens (view s) t = None \<Longrightarrow> consume_login_token ops t now s = (Inl NotFound, s)"
    and consume_used: "ok s \<Longrightarrow> vw_tokens (view s) t = Some row \<Longrightarrow> lt_consumed row \<noteq> None \<Longrightarrow>
          consume_login_token ops t now s = (Inl TokenConsumed, s)"
    and consume_fresh: "ok s \<Longrightarrow> vw_tokens (view s) t = Some row \<Longrightarrow> lt_consumed row = None \<Longrightarrow>
          \<exists>s'. consume_login_token ops t now s = (Inr row, s') \<and> ok s'
            \<and> view s' = (view s)\<lparr>vw_tokens := (vw_tokens (view s))(t \<mapsto> row\<lparr>lt_consumed := Some now\<rparr>)\<rparr>"

locale directory_store = store_view +
  assumes get_workspace_law: "ok s \<Longrightarrow> get_workspace ops w s = (Inr (vw_workspaces (view s) w), s)"
    and get_membership_law: "ok s \<Longrightarrow> get_membership ops w m s = (Inr (vw_members (view s) (w, m)), s)"
    and by_sso_law: "ok s \<Longrightarrow> \<exists>r. get_user_by_sso ops su s = (Inr r, s)
          \<and> (case r of Some u \<Rightarrow> sso_subject u = Some su \<and> vw_users (view s) (user_id u) = Some u
                     | None \<Rightarrow> \<forall>u \<in> ran (vw_users (view s)). sso_subject u \<noteq> Some su)"
    and by_email_ci_law: "ok s \<Longrightarrow> \<exists>r. get_user_by_email_ci ops e s = (Inr r, s)
          \<and> (case r of Some u \<Rightarrow> eq_ignore_ascii_case (email u) e \<and> vw_users (view s) (user_id u) = Some u
                     | None \<Rightarrow> \<forall>u \<in> ran (vw_users (view s)). \<not> eq_ignore_ascii_case (email u) e)"
    and bind_law: "ok s \<Longrightarrow> vw_users (view s) i = Some u \<Longrightarrow> \<forall>v \<in> ran (vw_users (view s)). sso_subject v \<noteq> Some su \<Longrightarrow>
          \<exists>s'. bind_sso_subject ops i su s = (Inr (u\<lparr>sso_subject := Some su\<rparr>), s') \<and> ok s'
            \<and> view s' = (view s)\<lparr>vw_users := (vw_users (view s))(i \<mapsto> u\<lparr>sso_subject := Some su\<rparr>)\<rparr>"
    and create_user_law: "ok s \<Longrightarrow> vw_users (view s) (user_id u) = None \<Longrightarrow>
          \<forall>v \<in> ran (vw_users (view s)). email v \<noteq> email u \<Longrightarrow>
          \<exists>s'. create_user ops u s = (Inr u, s') \<and> ok s'
            \<and> view s' = (view s)\<lparr>vw_users := (vw_users (view s))(user_id u \<mapsto> u)\<rparr>"

text \<open>What the other operations leave alone: the sessions and the login tokens.\<close>

definition directory_only :: "('s \<Rightarrow> iam_view) \<Rightarrow> ('s \<Rightarrow> bool) \<Rightarrow> ('s, 'a) iam \<Rightarrow> bool" where
  "directory_only view ok m \<longleftrightarrow> (\<forall>s. ok s \<longrightarrow> ok (snd (m s))
     \<and> vw_sessions (view (snd (m s))) = vw_sessions (view s) \<and> vw_tokens (view (snd (m s))) = vw_tokens (view s))"

locale iam_store = session_store + login_store + directory_store +
  assumes create_workspace_frame: "directory_only view ok (create_workspace ops w)"
    and by_slug_frame: "directory_only view ok (get_workspace_by_slug ops sl)"
    and by_email_frame: "directory_only view ok (get_user_by_email ops e)"
    and create_user_frame: "directory_only view ok (create_user ops x)"
    and bind_frame: "directory_only view ok (bind_sso_subject ops i su)"
    and upsert_frame: "directory_only view ok (upsert_membership ops m)"

section \<open>Sessions live and die\<close>

context session_store
begin

lemma issue_then_view:
  assumes "ok s"
  shows "\<exists>s'. issue_session_with_ttl ops now tok w u r gr ttl s
      = (Inr \<lparr>s_token = tok, s_user = u, s_workspace = w, s_role = r, s_grant = gr, s_created = now,
           s_expires = now + ttl\<rparr>, s') \<and> ok s'
    \<and> view s' = (view s)\<lparr>vw_sessions := (vw_sessions (view s))(tok \<mapsto> \<lparr>s_token = tok, s_user = u,
         s_workspace = w, s_role = r, s_grant = gr, s_created = now, s_expires = now + ttl\<rparr>)\<rparr>"
proof -
  let ?x = "\<lparr>s_token = tok, s_user = u, s_workspace = w, s_role = r, s_grant = gr, s_created = now,
     s_expires = now + ttl\<rparr>"
  from create_session_law[OF assms, of ?x] obtain s' where
    "create_session ops ?x s = (Inr (), s')" "ok s'"
    "view s' = (view s)\<lparr>vw_sessions := (vw_sessions (view s))(tok \<mapsto> ?x)\<rparr>" by auto
  then show ?thesis by (auto simp: issue_session_with_ttl_def Let_def)
qed

lemma verify_live:
  assumes "ok s" "strip_bearer b = Some t" "t \<noteq> []" "vw_sessions (view s) t = Some x" "now < s_expires x"
  shows "verify_bearer ops now b s = (Inr (session_principal x), s)"
  using assms by (simp add: verify_bearer_def verify_session_def bindM_def get_session_law is_valid_at_def ret_def)

lemma verify_unknown:
  assumes "ok s" "strip_bearer b = Some t" "t \<noteq> []" "vw_sessions (view s) t = None"
  shows "verify_bearer ops now b s = (Inl (Unauthorized ''unknown session token''), s)"
  using assms by (simp add: verify_bearer_def verify_session_def bindM_def get_session_law fail_def)

lemma verify_expired:
  assumes "ok s" "strip_bearer b = Some t" "t \<noteq> []" "vw_sessions (view s) t = Some x" "s_expires x \<le> now"
  shows "\<exists>s'. verify_bearer ops now b s = (Inl (Unauthorized ''session expired''), s') \<and> ok s'
    \<and> view s' = (view s)\<lparr>vw_sessions := (vw_sessions (view s))(t := None)\<rparr>"
proof -
  from delete_session_law[OF assms(1), of t] obtain s' where
    "delete_session ops t s = (Inr (vw_sessions (view s) t \<noteq> None), s')" "ok s'"
    "view s' = (view s)\<lparr>vw_sessions := (vw_sessions (view s))(t := None)\<rparr>" by blast
  then show ?thesis
    using assms by (auto simp: verify_bearer_def verify_session_def bindM_def get_session_law is_valid_at_def)
qed

text \<open>The answer of the verifier, from the view alone.\<close>

lemma verify_iff:
  assumes "ok s" "strip_bearer b = Some t" "t \<noteq> []"
  shows "fst (verify_bearer ops now b s) = Inr p \<longleftrightarrow>
    (\<exists>x. vw_sessions (view s) t = Some x \<and> now < s_expires x \<and> p = session_principal x)"
proof (cases "vw_sessions (view s) t")
  case None
  then show ?thesis using verify_unknown[OF assms] by simp
next
  case (Some x)
  then show ?thesis
    using verify_live[OF assms Some, of now] verify_expired[OF assms Some, of now] by (cases "now < s_expires x") auto
qed

lemma revoke_then_unknown:
  assumes "ok s" "strip_bearer b = Some t"
  shows "\<exists>s'. revoke_session ops b s = (Inr (vw_sessions (view s) t \<noteq> None), s') \<and> ok s'
    \<and> vw_sessions (view s') t = None"
  using delete_session_law[OF assms(1), of t] assms(2) by (auto simp: revoke_session_def)

end

section \<open>One-time login\<close>

context login_store
begin

lemma consume_cases:
  assumes "ok s"
  shows "\<exists>r s'. svc_consume_login_token ops now t s = (r, s') \<and> ok s' \<and>
    (case vw_tokens (view s) t of
       None \<Rightarrow> r = Inl NotFound \<and> s' = s
     | Some row \<Rightarrow>
         (if lt_consumed row \<noteq> None then r = Inl TokenConsumed \<and> s' = s
          else r = (if lt_expires row \<le> now then Inl (Unauthorized ''login token expired'') else Inr row)
            \<and> view s' = (view s)\<lparr>vw_tokens := (vw_tokens (view s))(t \<mapsto> row\<lparr>lt_consumed := Some now\<rparr>)\<rparr>))"
proof (cases "vw_tokens (view s) t")
  case None
  then show ?thesis using consume_unknown[OF assms None, of now] assms
    by (simp add: svc_consume_login_token_def bindM_def)
next
  case (Some row)
  show ?thesis
  proof (cases "lt_consumed row = None")
    case True
    from consume_fresh[OF assms Some True, of now] obtain s' where
      "consume_login_token ops t now s = (Inr row, s')" "ok s'"
      "view s' = (view s)\<lparr>vw_tokens := (vw_tokens (view s))(t \<mapsto> row\<lparr>lt_consumed := Some now\<rparr>)\<rparr>" by blast
    then show ?thesis using Some True by (simp add: svc_consume_login_token_def bindM_def ret_def fail_def)
  next
    case False
    then show ?thesis using consume_used[OF assms Some False, of now] Some assms
      by (simp add: svc_consume_login_token_def bindM_def)
  qed
qed

lemma consume_spends:
  assumes "ok s" "svc_consume_login_token ops now t s = (Inr row, s')"
  shows "ok s' \<and> vw_tokens (view s') t = Some (row\<lparr>lt_consumed := Some now\<rparr>) \<and> now < lt_expires row
    \<and> vw_tokens (view s) t = Some row \<and> lt_consumed row = None
    \<and> view s' = (view s)\<lparr>vw_tokens := (vw_tokens (view s))(t \<mapsto> row\<lparr>lt_consumed := Some now\<rparr>)\<rparr>"
  using consume_cases[OF assms(1), of now t] assms(2) by (auto split: option.splits if_splits)

lemma consume_spent:
  assumes "ok s" "vw_tokens (view s) t = Some row" "lt_consumed row \<noteq> None"
  shows "svc_consume_login_token ops now t s = (Inl TokenConsumed, s)"
  using consume_cases[OF assms(1), of now t] assms(2,3) by auto

end

section \<open>Single sign-on\<close>

context directory_store
begin

lemma provision_effect:
  assumes ok: "ok s" and fresh: "vw_users (view s) n = None"
    and none: "\<forall>e. usable = Some e \<longrightarrow> (\<forall>v \<in> ran (vw_users (view s)). \<not> eq_ignore_ascii_case (email v) e)"
  shows "\<exists>r s'. provision ops n idn jit usable s = (Inr r, s') \<and> ok s' \<and>
    (case r of
       Existing u \<Rightarrow> False
     | Provisioned u \<Rightarrow> jit \<and> usable = Some (email u) \<and> user_id u = n \<and> sso_subject u = Some (id_subject idn)
         \<and> view s' = (view s)\<lparr>vw_users := (vw_users (view s))(n \<mapsto> u)\<rparr>
     | Denied d \<Rightarrow> s' = s \<and> d = (if jit then NoVerifiedEmail else ProvisioningDisabled) \<and> (jit \<longrightarrow> usable = None))"
proof (cases "jit \<and> usable \<noteq> None")
  case False
  then show ?thesis using ok by (cases jit) (auto simp: provision_def ret_def)
next
  case True
  then obtain e where e: "usable = Some e" and j: jit by auto
  define x where "x = \<lparr>user_id = n, email = e, display_name = (case id_display idn of
      Some d \<Rightarrow> if trim d \<noteq> [] then d else e | None \<Rightarrow> e), sso_subject = Some (id_subject idn)\<rparr>"
  have "email v \<noteq> e" if "v \<in> ran (vw_users (view s))" for v
    using none e that by (auto simp: eq_ignore_ascii_case_def)
  then obtain s' where "create_user ops x s = (Inr x, s')" "ok s'"
    "view s' = (view s)\<lparr>vw_users := (vw_users (view s))(n \<mapsto> x)\<rparr>"
    using create_user_law[OF ok, of x] fresh by (auto simp: x_def)
  then show ?thesis
    using e j by (auto simp: provision_def create_sso_user_def bindM_def Let_def x_def ret_def)
qed

lemma resolve_effect:
  assumes ok: "ok s" and fresh: "vw_users (view s) n = None"
  shows "\<exists>r s'. resolve_sso_identity ops n idn jit trust s = (Inr r, s') \<and> ok s' \<and>
    (case r of
       Existing u \<Rightarrow> sso_subject u = Some (id_subject idn) \<and> vw_users (view s') (user_id u) = Some u
         \<and> (s' = s \<or> (\<exists>v e. usable_email idn trust = Some e \<and> eq_ignore_ascii_case (email v) e
              \<and> vw_users (view s) (user_id v) = Some v \<and> sso_subject v = None \<and> user_id u = user_id v
              \<and> view s' = (view s)\<lparr>vw_users := (vw_users (view s))(user_id v \<mapsto> u)\<rparr>
              \<and> (\<forall>x \<in> ran (vw_users (view s)). sso_subject x \<noteq> Some (id_subject idn))))
     | Provisioned u \<Rightarrow> jit \<and> usable_email idn trust = Some (email u) \<and> user_id u = n
         \<and> sso_subject u = Some (id_subject idn)
         \<and> view s' = (view s)\<lparr>vw_users := (vw_users (view s))(n \<mapsto> u)\<rparr>
         \<and> (\<forall>x \<in> ran (vw_users (view s)). sso_subject x \<noteq> Some (id_subject idn))
     | Denied d \<Rightarrow> s' = s)"
proof -
  obtain b where b: "get_user_by_sso ops (id_subject idn) s = (Inr b, s)"
    and bl: "case b of Some u \<Rightarrow> sso_subject u = Some (id_subject idn) \<and> vw_users (view s) (user_id u) = Some u
       | None \<Rightarrow> \<forall>u \<in> ran (vw_users (view s)). sso_subject u \<noteq> Some (id_subject idn)"
    using by_sso_law[OF ok] by blast
  show ?thesis
  proof (cases b)
    case (Some u)
    then show ?thesis using b bl ok by (simp add: resolve_sso_identity_def bindM_def ret_def)
  next
    case nb: None
    then have free: "\<forall>u \<in> ran (vw_users (view s)). sso_subject u \<noteq> Some (id_subject idn)" using bl by simp
    show ?thesis
    proof (cases "usable_email idn trust")
      case None
      obtain d where "provision ops n idn jit None s = (Inr (Denied d), s)"
        by (cases jit) (auto simp: provision_def ret_def)
      then show ?thesis using b nb None ok by (simp add: resolve_sso_identity_def bindM_def)
    next
      case (Some e)
      obtain f where f: "get_user_by_email_ci ops e s = (Inr f, s)"
        and fl: "case f of Some u \<Rightarrow> eq_ignore_ascii_case (email u) e \<and> vw_users (view s) (user_id u) = Some u
          | None \<Rightarrow> \<forall>u \<in> ran (vw_users (view s)). \<not> eq_ignore_ascii_case (email u) e"
        using by_email_ci_law[OF ok] by blast
      show ?thesis
      proof (cases f)
        case None
        with fl have "\<forall>e'. Some e = Some e' \<longrightarrow> (\<forall>v \<in> ran (vw_users (view s)). \<not> eq_ignore_ascii_case (email v) e')"
          by simp
        from provision_effect[OF ok fresh this, of idn jit] obtain r s' where
          "provision ops n idn jit (Some e) s = (Inr r, s')" "ok s'"
          "case r of Existing u \<Rightarrow> False
           | Provisioned u \<Rightarrow> jit \<and> Some e = Some (email u) \<and> user_id u = n \<and> sso_subject u = Some (id_subject idn)
               \<and> view s' = (view s)\<lparr>vw_users := (vw_users (view s))(n \<mapsto> u)\<rparr>
           | Denied d \<Rightarrow> s' = s \<and> d = (if jit then NoVerifiedEmail else ProvisioningDisabled) \<and> (jit \<longrightarrow> Some e = None)"
          by blast
        then show ?thesis using b nb Some f None free
          by (auto simp: resolve_sso_identity_def bindM_def split: sso_resolution.splits)
      next
        case (Some v)
        show ?thesis
        proof (cases "sso_subject v = None")
          case False
          then show ?thesis using b nb \<open>usable_email idn trust = Some e\<close> f Some ok
            by (simp add: resolve_sso_identity_def bindM_def ret_def)
        next
          case True
          have v: "vw_users (view s) (user_id v) = Some v" "eq_ignore_ascii_case (email v) e"
            using fl Some by simp_all
          from bind_law[OF ok v(1) free] obtain s' where
            s': "bind_sso_subject ops (user_id v) (id_subject idn) s = (Inr (v\<lparr>sso_subject := Some (id_subject idn)\<rparr>), s')"
              "ok s'" "view s' = (view s)\<lparr>vw_users := (vw_users (view s))(user_id v \<mapsto> v\<lparr>sso_subject := Some (id_subject idn)\<rparr>)\<rparr>"
            by blast
          have run: "resolve_sso_identity ops n idn jit trust s
              = (Inr (Existing (v\<lparr>sso_subject := Some (id_subject idn)\<rparr>)), s')"
            using b nb \<open>usable_email idn trust = Some e\<close> f Some True s'(1)
            by (simp add: resolve_sso_identity_def bindM_def ret_def)
          show ?thesis
            unfolding run using s'(2,3) v True free \<open>usable_email idn trust = Some e\<close>
            by (auto intro!: exI[of _ v])
        qed
      qed
    qed
  qed
qed

end

section \<open>Issuing into a workspace, and spent tokens\<close>

text \<open>What a step keeps, whether it succeeds or fails.\<close>

definition keeps :: "('s \<Rightarrow> bool) \<Rightarrow> ('s, 'a) iam \<Rightarrow> bool" where
  "keeps I m \<longleftrightarrow> (\<forall>s. I s \<longrightarrow> I (snd (m s)))"

lemma keepsD: "keeps I m \<Longrightarrow> I s \<Longrightarrow> I (snd (m s))"
  by (simp add: keeps_def)

lemma keeps_ret: "keeps I (ret x)" "keeps I (fail e)"
  by (simp_all add: keeps_def)

lemma keeps_bind:
  assumes "keeps I m" "\<And>x. keeps I (f x)" shows "keeps I (bindM m f)"
  unfolding keeps_def
proof (intro allI impI)
  fix s assume "I s"
  then have 1: "I (snd (m s))" using assms(1) by (simp add: keeps_def)
  show "I (snd (bindM m f s))"
  proof (cases "m s")
    case (Pair r s1)
    show ?thesis
    proof (cases r)
      case (Inl e)
      then show ?thesis using Pair 1 by simp
    next
      case (Inr x)
      then have "I (snd (f x s1))" using assms(2)[of x] Pair 1 by (simp add: keeps_def)
      then show ?thesis using Pair Inr by simp
    qed
  qed
qed

text \<open>The calls an API may make between two redemptions of the token \<open>t\<close>: any public operation of
  the service, where a newly minted token is never \<open>t\<close> again.\<close>

inductive svc_step :: "'s iam_ops \<Rightarrow> string \<Rightarrow> 's \<Rightarrow> 's \<Rightarrow> bool" for ops t where
  workspace: "svc_step ops t s (snd (svc_create_workspace ops n name slug s))"
| user: "svc_step ops t s (snd (svc_create_user ops n e name s))"
| member: "svc_step ops t s (snd (add_membership ops w u r s))"
| sso: "svc_step ops t s (snd (resolve_sso_identity ops n idn jit trust s))"
| issue: "svc_step ops t s (snd (issue_session ops cfg now tok w u s))"
| issue_ttl: "svc_step ops t s (snd (issue_session_with_ttl ops now tok w u r gr ttl s))"
| verify: "svc_step ops t s (snd (verify_bearer ops now b s))"
| revoke: "svc_step ops t s (snd (revoke_session ops b s))"
| purge: "svc_step ops t s (snd (svc_purge_expired_sessions ops now s))"
| mint: "tok \<noteq> t \<Longrightarrow> svc_step ops t s (snd (issue_login_token_with_ttl ops cfg now tok w u ttl s))"
| consume: "svc_step ops t s (snd (svc_consume_login_token ops now x s))"
| redeem: "svc_step ops t s (snd (redeem_login_token ops cfg now now' fresh x s))"
| dev_login: "tok \<noteq> t \<Longrightarrow> svc_step ops t s (snd (ensure_dev_login ops cfg now n n' tok s))"
| dev_token: "svc_step ops t s (snd (ensure_dev_authorization_token ops now n n' x ttl s))"

definition spent :: "('s \<Rightarrow> iam_view) \<Rightarrow> ('s \<Rightarrow> bool) \<Rightarrow> string \<Rightarrow> 's \<Rightarrow> bool" where
  "spent view ok t s \<longleftrightarrow> ok s \<and> (\<exists>row. vw_tokens (view s) t = Some row \<and> lt_consumed row \<noteq> None)"

lemma spent_directory: "directory_only view ok m \<Longrightarrow> keeps (spent view ok t) m"
  by (simp add: directory_only_def keeps_def spent_def)

context iam_store
begin

lemma spent_reads:
  "keeps (spent view ok t) (get_workspace ops w)" "keeps (spent view ok t) (get_membership ops w m)"
  "keeps (spent view ok t) (get_user_by_sso ops su)" "keeps (spent view ok t) (get_user_by_email_ci ops e)"
  "keeps (spent view ok t) (get_session ops x)"
proof -
  show "keeps (spent view ok t) (get_user_by_sso ops su)"
    using by_sso_law[of _ su] unfolding keeps_def spent_def by fastforce
  show "keeps (spent view ok t) (get_user_by_email_ci ops e)"
    using by_email_ci_law[of _ e] unfolding keeps_def spent_def by fastforce
qed (simp_all add: keeps_def spent_def get_workspace_law get_membership_law get_session_law)

lemma spent_sessions:
  "keeps (spent view ok t) (create_session ops y)" "keeps (spent view ok t) (delete_session ops x)"
  "keeps (spent view ok t) (purge_expired_sessions ops now)"
  using create_session_law[of _ y] delete_session_law[of _ x] purge_law[of _ now]
  unfolding keeps_def spent_def by fastforce+

lemma spent_create_token: "lt_token y \<noteq> t \<Longrightarrow> keeps (spent view ok t) (create_login_token ops y)"
  using create_login_token_law[of _ y] unfolding keeps_def spent_def by fastforce

lemma spent_consume: "keeps (spent view ok t) (svc_consume_login_token ops now x)"
  unfolding keeps_def
proof (intro allI impI)
  fix s assume sp: "spent view ok t s"
  then have "ok s" by (simp add: spent_def)
  from consume_cases[OF this, of now x] obtain r s' where
    run: "svc_consume_login_token ops now x s = (r, s')" and ok': "ok s'" and
    c: "case vw_tokens (view s) x of None \<Rightarrow> r = Inl NotFound \<and> s' = s
     | Some row \<Rightarrow> (if lt_consumed row \<noteq> None then r = Inl TokenConsumed \<and> s' = s
          else r = (if lt_expires row \<le> now then Inl (Unauthorized ''login token expired'') else Inr row)
            \<and> view s' = (view s)\<lparr>vw_tokens := (vw_tokens (view s))(x \<mapsto> row\<lparr>lt_consumed := Some now\<rparr>)\<rparr>)"
    by blast
  show "spent view ok t (snd (svc_consume_login_token ops now x s))"
    using sp ok' c unfolding run spent_def by (auto split: option.splits if_splits)
qed

lemmas spent_dir = spent_directory[OF create_workspace_frame] spent_directory[OF by_slug_frame]
  spent_directory[OF by_email_frame] spent_directory[OF create_user_frame]
  spent_directory[OF bind_frame] spent_directory[OF upsert_frame]

lemmas spent_basic = spent_reads spent_sessions spent_dir keeps_ret

lemma spent_issue_ttl: "keeps (spent view ok t) (issue_session_with_ttl ops now tok w u r gr ttl)"
  unfolding issue_session_with_ttl_def Let_def by (intro keeps_bind spent_basic)

lemma spent_issue: "keeps (spent view ok t) (issue_session ops cfg now tok w u)"
  unfolding issue_session_def issue_session_with_role_def
  by (intro keeps_bind spent_basic) (auto intro!: keeps_bind spent_basic spent_issue_ttl split: option.splits)

lemma spent_member: "keeps (spent view ok t) (add_membership ops w u r)"
  unfolding add_membership_def Let_def by (intro keeps_bind spent_basic)

lemma spent_provision: "keeps (spent view ok t) (provision ops n idn jit us)"
  unfolding provision_def create_sso_user_def Let_def
  by (auto intro!: keeps_bind spent_basic split: option.splits)

lemma spent_sso: "keeps (spent view ok t) (resolve_sso_identity ops n idn jit trust)"
  unfolding resolve_sso_identity_def Let_def
  by (intro keeps_bind spent_basic)
     (auto intro!: keeps_bind spent_basic spent_provision split: option.splits)

lemma spent_verify: "keeps (spent view ok t) (verify_bearer ops now b)"
proof -
  have "keeps (spent view ok t) (\<lambda>st. case delete_session ops x st of (r, st') \<Rightarrow> (Inl e, st'))" for x and e :: iam_error
    using spent_sessions(2)[of t x] by (simp add: keeps_def split_beta)
  then show ?thesis
    unfolding verify_bearer_def verify_session_def
    by (auto intro!: keeps_bind spent_basic split: option.splits)
qed

lemma spent_owner: "keeps (spent view ok t) (ensure_dev_owner ops n n')"
  unfolding ensure_dev_owner_def svc_create_workspace_def svc_create_user_def
  by (auto intro!: keeps_bind spent_basic spent_member split: option.splits)

lemma spent_step: "svc_step ops t s s' \<Longrightarrow> spent view ok t s \<Longrightarrow> spent view ok t s'"
proof -
  assume step: "svc_step ops t s s'" and sp: "spent view ok t s"
  have mint: "keeps (spent view ok t) (issue_login_token_with_ttl ops cfg now tok w u ttl)" if "tok \<noteq> t"
    for cfg now tok w u ttl
    unfolding issue_login_token_with_ttl_def Let_def
    by (intro keeps_bind spent_create_token keeps_ret) (simp add: that)
  from step show ?thesis
  proof cases
    case (dev_login tok cfg now n n')
    have "keeps (spent view ok t) (ensure_dev_login ops cfg now n n' tok)"
      unfolding ensure_dev_login_def issue_login_token_def
      using mint[OF dev_login(2)] spent_owner by (auto intro!: keeps_bind)
    then show ?thesis using dev_login(1) sp by (simp add: keeps_def)
  next
    case (dev_token now n n' x ttl)
    have "keeps (spent view ok t) (ensure_dev_authorization_token ops now n n' x ttl)"
      unfolding ensure_dev_authorization_token_def ensure_session_with_token_def Let_def
      by (auto intro!: keeps_bind spent_basic spent_owner split: option.splits)
    then show ?thesis using dev_token sp by (simp add: keeps_def)
  next
    case (revoke b)
    have "keeps (spent view ok t) (revoke_session ops b)"
      unfolding revoke_session_def by (auto intro!: spent_basic split: option.splits)
    then show ?thesis using revoke sp by (simp add: keeps_def)
  next
    case (redeem cfg now now' fresh x)
    have "keeps (spent view ok t) (redeem_login_token ops cfg now now' fresh x)"
      unfolding redeem_login_token_def by (intro keeps_bind spent_consume spent_issue)
    then show ?thesis using redeem sp by (simp add: keeps_def)
  qed (auto simp: svc_create_workspace_def svc_create_user_def svc_purge_expired_sessions_def
      intro!: keepsD[where I = "spent view ok t" and s = s] sp spent_dir spent_member spent_sso spent_issue spent_issue_ttl spent_verify
        spent_sessions spent_consume mint)
qed

lemma spent_reachable: "(svc_step ops t)\<^sup>*\<^sup>* s s' \<Longrightarrow> spent view ok t s \<Longrightarrow> spent view ok t s'"
  by (induction rule: rtranclp_induct) (auto intro: spent_step)

lemma single_use:
  assumes "ok s" "svc_consume_login_token ops now t s = (Inr row, s1)" "(svc_step ops t)\<^sup>*\<^sup>* s1 s2"
  shows "svc_consume_login_token ops now' t s2 = (Inl TokenConsumed, s2)"
proof -
  have "spent view ok t s1" using consume_spends[OF assms(1,2)] by (simp add: spent_def)
  from spent_reachable[OF assms(3) this] show ?thesis using consume_spent by (auto simp: spent_def)
qed

lemma issue_gate:
  assumes "ok s" "issue_session ops cfg now tok w u s = (Inr x, s')"
  shows "\<exists>m. vw_members (view s) (w, u) = Some m \<and> s_role x = m_role m \<and> s_grant x = None
    \<and> s_user x = u \<and> s_workspace x = w \<and> s_token x = tok
    \<and> (\<forall>row. vw_workspaces (view s) w = Some row \<longrightarrow> archived_at row = None)
    \<and> ok s' \<and> view s' = (view s)\<lparr>vw_sessions := (vw_sessions (view s))(tok \<mapsto> x)\<rparr>"
proof -
  have na: "\<not> (case vw_workspaces (view s) w of Some row \<Rightarrow> archived_at row \<noteq> None | None \<Rightarrow> False)"
    using assms by (auto simp: issue_session_def bindM_def get_workspace_law fail_def)
  then obtain m where m: "vw_members (view s) (w, u) = Some m"
    using assms by (cases "vw_members (view s) (w, u)")
      (auto simp: issue_session_def bindM_def get_workspace_law get_membership_law fail_def)
  have "issue_session_with_ttl ops now tok w u (m_role m) None (session_ttl cfg) s = (Inr x, s')"
    using assms na m by (simp add: issue_session_def issue_session_with_role_def bindM_def get_workspace_law
        get_membership_law)
  moreover obtain s'' where "issue_session_with_ttl ops now tok w u (m_role m) None (session_ttl cfg) s
      = (Inr \<lparr>s_token = tok, s_user = u, s_workspace = w, s_role = m_role m, s_grant = None, s_created = now,
           s_expires = now + session_ttl cfg\<rparr>, s'')" "ok s''"
    "view s'' = (view s)\<lparr>vw_sessions := (vw_sessions (view s))(tok \<mapsto> \<lparr>s_token = tok, s_user = u,
         s_workspace = w, s_role = m_role m, s_grant = None, s_created = now, s_expires = now + session_ttl cfg\<rparr>)\<rparr>"
    using issue_then_view[OF assms(1)] by blast
  ultimately show ?thesis using m na by (auto split: option.splits)
qed

end

end
