(* ===== verification/Iam_Memory.thy ===== *)
theory Iam_Memory
  imports Iam_Contract
begin

text \<open>
  The in-memory store of \<open>crates/catalerum-iam/src/store/memory.rs\<close> keeps the contract of the
  \<open>IamStore\<close> trait, so every guarantee proved against the contract holds of the service
  running over it. The properties of the identity service are stated here.
\<close>

section \<open>The store keeps the contract\<close>

definition mem_ok :: "mem_store \<Rightarrow> bool" where
  "mem_ok g \<longleftrightarrow> distinct (map fst (sessions g)) \<and> distinct (map fst (users g))
     \<and> (\<forall>(i, u) \<in> set (users g). user_id u = i)"

definition mem_view :: "mem_store \<Rightarrow> iam_view" where
  "mem_view g = \<lparr>vw_workspaces = map_of (workspaces g), vw_users = map_of (users g),
     vw_members = map_of (memberships g), vw_sessions = map_of (sessions g), vw_tokens = map_of (login_tokens g)\<rparr>"

lemma mem_ok_new: "mem_ok mem_new"
  by (simp add: mem_ok_def mem_new_def)

lemma map_of_live:
  "distinct (map fst xs) \<Longrightarrow> map_of (filter (\<lambda>(t, s). s_expires s > now) xs) = live_at now (map_of xs)"
proof (induction xs)
  case (Cons e xs)
  obtain t s where e: "e = (t, s)" by force
  have "map_of xs t = None" using Cons.prems e by (simp add: map_of_eq_None_iff)
  then show ?case using Cons e by (auto simp: live_at_def fun_eq_iff split: option.splits)
qed (simp add: live_at_def fun_eq_iff)

lemma find_user:
  assumes "mem_ok g" "List.find P (map snd (users g)) = Some u"
  shows "P u \<and> map_of (users g) (user_id u) = Some u"
proof -
  from assms(2) have "P u" "u \<in> snd ` set (users g)"
    by (auto simp: find_Some_iff in_set_conv_nth image_iff) (metis nth_mem snd_conv)+
  then obtain i where i: "(i, u) \<in> set (users g)" by force
  then have "user_id u = i" using assms(1) by (auto simp: mem_ok_def)
  with i assms(1) \<open>P u\<close> show ?thesis by (simp add: mem_ok_def)
qed

lemma find_no_user:
  assumes "mem_ok g" "List.find P (map snd (users g)) = None" "u \<in> ran (map_of (users g))"
  shows "\<not> P u"
proof -
  have "u \<in> snd ` set (users g)" using assms(1,3) by (auto simp: mem_ok_def ran_distinct)
  with assms(2) show ?thesis by (auto simp: find_None_iff)
qed

lemma no_user_list_ex:
  assumes "mem_ok g" "\<forall>v \<in> ran (map_of (users g)). \<not> P v" shows "\<not> list_ex (\<lambda>(i, v). P v) (users g)"
  using assms by (auto simp: list_ex_iff mem_ok_def ran_distinct)

lemma set_update_cases: "e \<in> set (AList.update k v d) \<Longrightarrow> e \<in> set d \<or> e = (k, v)"
  by (induction d) (auto split: if_splits)

lemma mem_ok_update_user:
  "mem_ok g \<Longrightarrow> user_id u = i \<Longrightarrow> mem_ok (g\<lparr>users := AList.update i u (users g)\<rparr>)"
  by (auto simp: mem_ok_def distinct_update dest!: set_update_cases)

interpretation mem: session_store mem_ops mem_view mem_ok
proof
  fix s t x and now :: int
  assume ok: "mem_ok s"
  show "get_session mem_ops t s = (Inr (vw_sessions (mem_view s) t), s)"
    by (simp add: mem_ops_def mem_get_session_def mem_view_def)
  show "\<exists>s'. create_session mem_ops x s = (Inr (), s') \<and> mem_ok s'
      \<and> mem_view s' = mem_view s\<lparr>vw_sessions := (vw_sessions (mem_view s))(s_token x \<mapsto> x)\<rparr>"
    using ok by (simp add: mem_ops_def mem_create_session_def mem_ok_def mem_view_def update_conv' distinct_update)
  show "\<exists>s'. delete_session mem_ops t s = (Inr (vw_sessions (mem_view s) t \<noteq> None), s') \<and> mem_ok s'
      \<and> mem_view s' = mem_view s\<lparr>vw_sessions := (vw_sessions (mem_view s))(t := None)\<rparr>"
    using ok by (simp add: mem_ops_def mem_delete_session_def mem_ok_def mem_view_def delete_conv' distinct_delete)
  show "\<exists>n s'. purge_expired_sessions mem_ops now s = (Inr n, s') \<and> mem_ok s'
      \<and> mem_view s' = mem_view s\<lparr>vw_sessions := live_at now (vw_sessions (mem_view s))\<rparr>"
    using ok map_of_live[of "sessions s" now]
    by (auto simp: mem_ops_def mem_purge_expired_sessions_def mem_ok_def mem_view_def Let_def distinct_map_filter)
qed

interpretation mem: login_store mem_ops mem_view mem_ok
  by unfold_locales
     (auto simp: mem_ops_def mem_create_login_token_def mem_consume_login_token_def mem_ok_def mem_view_def
        update_conv')

interpretation mem: directory_store mem_ops mem_view mem_ok
proof
  fix s w m i su e and u x :: user
  assume ok: "mem_ok s"
  show "get_workspace mem_ops w s = (Inr (vw_workspaces (mem_view s) w), s)"
    by (simp add: mem_ops_def mem_get_workspace_def mem_view_def)
  show "get_membership mem_ops w m s = (Inr (vw_members (mem_view s) (w, m)), s)"
    by (simp add: mem_ops_def mem_get_membership_def mem_view_def)
  have find: "\<exists>r. (Inr (List.find P (map snd (users s))) :: iam_error + user option, s) = (Inr r, s) \<and>
      (case r of None \<Rightarrow> \<forall>u\<in>ran (map_of (users s)). \<not> P u
       | Some u \<Rightarrow> P u \<and> map_of (users s) (user_id u) = Some u)" for P
    using find_user[OF ok, of P] find_no_user[OF ok, of P]
    by (cases "List.find P (map snd (users s))") auto
  show "\<exists>r. get_user_by_sso mem_ops su s = (Inr r, s) \<and>
      (case r of None \<Rightarrow> \<forall>u\<in>ran (vw_users (mem_view s)). sso_subject u \<noteq> Some su
       | Some u \<Rightarrow> sso_subject u = Some su \<and> vw_users (mem_view s) (user_id u) = Some u)"
    using find[of "\<lambda>u. sso_subject u = Some su"]
    by (simp only: mem_ops_def mem_get_user_by_sso_def mem_view_def iam_ops.simps iam_view.simps)
  show "\<exists>r. get_user_by_email_ci mem_ops e s = (Inr r, s) \<and>
      (case r of None \<Rightarrow> \<forall>u\<in>ran (vw_users (mem_view s)). \<not> eq_ignore_ascii_case (email u) e
       | Some u \<Rightarrow> eq_ignore_ascii_case (email u) e \<and> vw_users (mem_view s) (user_id u) = Some u)"
    using find[of "\<lambda>u. eq_ignore_ascii_case (email u) e"]
    by (simp only: mem_ops_def mem_get_user_by_email_ci_def mem_view_def iam_ops.simps iam_view.simps)
  show "\<exists>s'. bind_sso_subject mem_ops i su s = (Inr (u\<lparr>sso_subject := Some su\<rparr>), s') \<and> mem_ok s'
      \<and> mem_view s' = mem_view s\<lparr>vw_users := (vw_users (mem_view s))(i \<mapsto> u\<lparr>sso_subject := Some su\<rparr>)\<rparr>"
    if "vw_users (mem_view s) i = Some u" "\<forall>v\<in>ran (vw_users (mem_view s)). sso_subject v \<noteq> Some su"
  proof -
    have i: "map_of (users s) i = Some u" using that(1) by (simp add: mem_view_def)
    then have "user_id u = i" using ok by (auto simp: mem_ok_def dest!: map_of_SomeD)
    then have "mem_ok (s\<lparr>users := AList.update i (u\<lparr>sso_subject := Some su\<rparr>) (users s)\<rparr>)"
      using mem_ok_update_user[OF ok, of "u\<lparr>sso_subject := Some su\<rparr>" i] by simp
    moreover have "\<not> list_ex (\<lambda>(j, v). user_id v \<noteq> i \<and> sso_subject v = Some su) (users s)"
      using no_user_list_ex[OF ok, of "\<lambda>v. user_id v \<noteq> i \<and> sso_subject v = Some su"] that(2)
      by (simp add: mem_view_def)
    ultimately show ?thesis using i
      by (simp add: mem_ops_def mem_bind_sso_subject_def Let_def mem_view_def update_conv')
  qed
  show "\<exists>s'. create_user mem_ops x s = (Inr x, s') \<and> mem_ok s'
      \<and> mem_view s' = mem_view s\<lparr>vw_users := (vw_users (mem_view s))(user_id x \<mapsto> x)\<rparr>"
    if "\<forall>v\<in>ran (vw_users (mem_view s)). email v \<noteq> email x"
    using no_user_list_ex[OF ok, of "\<lambda>v. email v = email x"] that mem_ok_update_user[OF ok refl, of x]
    by (simp add: mem_ops_def mem_create_user_def mem_view_def update_conv')
qed

interpretation mem: iam_store mem_ops mem_view mem_ok
proof
  show "directory_only mem_view mem_ok (create_workspace mem_ops w)" for w
    by (auto simp: directory_only_def mem_ops_def mem_create_workspace_def mem_ok_def mem_view_def)
  show "directory_only mem_view mem_ok (get_workspace_by_slug mem_ops sl)" for sl
    by (auto simp: directory_only_def mem_ops_def mem_get_workspace_by_slug_def)
  show "directory_only mem_view mem_ok (get_user_by_email mem_ops e)" for e
    by (auto simp: directory_only_def mem_ops_def mem_get_user_by_email_def)
  show "directory_only mem_view mem_ok (create_user mem_ops x)" for x
    using mem_ok_update_user by (auto simp: directory_only_def mem_ops_def mem_create_user_def mem_view_def)
  show "directory_only mem_view mem_ok (bind_sso_subject mem_ops i su)" for i su
    unfolding directory_only_def
  proof (intro allI impI)
    fix s assume ok: "mem_ok s"
    have "user_id u = i" if "map_of (users s) i = Some u" for u
      using that ok by (auto simp: mem_ok_def dest!: map_of_SomeD)
    then show "mem_ok (snd (bind_sso_subject mem_ops i su s))
      \<and> vw_sessions (mem_view (snd (bind_sso_subject mem_ops i su s))) = vw_sessions (mem_view s)
      \<and> vw_tokens (mem_view (snd (bind_sso_subject mem_ops i su s))) = vw_tokens (mem_view s)"
      using ok mem_ok_update_user[OF ok, of "u\<lparr>sso_subject := Some su\<rparr>" i for u]
      by (auto simp: mem_ops_def mem_bind_sso_subject_def Let_def mem_view_def split: option.splits)
  qed
  show "directory_only mem_view mem_ok (upsert_membership mem_ops m)" for m
    by (auto simp: directory_only_def mem_ops_def mem_upsert_membership_def mem_ok_def mem_view_def)
qed

section \<open>Bearer strings\<close>

definition plain :: "char \<Rightarrow> bool" where
  "plain c \<longleftrightarrow> code c < 128 \<and> \<not> is_whitespace c"

lemma alphabet_plain: "c \<in> set ALPHABET \<Longrightarrow> plain c"
proof -
  have "list_all plain ALPHABET" by (simp add: ALPHABET_def plain_def is_whitespace_def)
  then show "c \<in> set ALPHABET \<Longrightarrow> plain c" by (simp add: list_all_iff)
qed

lemma dropWhile_none: "(\<And>x. x \<in> set xs \<Longrightarrow> \<not> P x) \<Longrightarrow> dropWhile P xs = xs"
  by (cases xs) auto

lemma trim_plain: "list_all plain v \<Longrightarrow> trim v = v"
proof -
  assume v: "list_all plain v"
  have "dropWhile is_whitespace v = v" "dropWhile is_whitespace (rev v) = rev v"
    by (rule dropWhile_none; use v in \<open>simp add: list_all_iff plain_def\<close>)+
  then show ?thesis by (simp add: trim_def trim_end_by_def)
qed

lemma trim_bearer: "list_all plain v \<Longrightarrow> v \<noteq> [] \<Longrightarrow> trim (''Bearer '' @ v) = ''Bearer '' @ v"
proof -
  assume v: "list_all plain v" "v \<noteq> []"
  have w: "\<not> is_whitespace (CHR ''B'')" by (simp add: is_whitespace_def)
  have "\<not> is_whitespace (last v)" using v by (simp add: list_all_iff plain_def)
  then have "dropWhile is_whitespace (rev v @ rest) = rev v @ rest" for rest
    using v(2) by (cases v rule: rev_cases) auto
  then show ?thesis using w by (simp add: trim_def trim_end_by_def)
qed

lemma utf8_plain: "list_all plain v \<Longrightarrow> sum_list (map utf8_len v) = length v"
  by (induction v) (auto simp: utf8_len_def plain_def)

lemma split_at_byte_plain:
  "list_all (\<lambda>c. code c < 128) v \<Longrightarrow> k \<le> length v \<Longrightarrow> split_at_byte k v = Some (take k v, drop k v)"
proof (induction v arbitrary: k)
  case (Cons c v)
  then show ?case by (cases k) (auto simp: utf8_len_def)
qed simp

lemma lower_not_space: "plain c \<Longrightarrow> to_ascii_lowercase c \<noteq> CHR '' ''"
proof
  assume "plain c" and e: "to_ascii_lowercase c = CHR '' ''"
  then have ne: "c \<noteq> CHR '' ''" by (auto simp: plain_def is_whitespace_def)
  with e have up: "is_ascii_uppercase c" by (auto simp: to_ascii_lowercase_def split: if_splits)
  then have "code (char_of (code c + 32) :: char) = code c + 32" by (simp add: is_ascii_uppercase_def)
  moreover have "char_of (code c + 32) = CHR '' ''" using e up by (simp add: to_ascii_lowercase_def)
  ultimately have "code c + 32 = code (CHR '' '')" by metis
  with up show False by (simp add: is_ascii_uppercase_def)
qed

lemma strip_bearer_raw:
  assumes "list_all plain v" shows "strip_bearer v = Some v"
proof (cases "length v \<ge> 7")
  case False
  then show ?thesis using trim_plain[OF assms] utf8_plain[OF assms] by (simp add: strip_bearer_def Let_def)
next
  case True
  have "take 7 v ! 6 \<in> set v" using True by simp
  then have "plain (take 7 v ! 6)" using assms by (metis list_all_iff)
  then have "to_ascii_lowercase (take 7 v ! 6) \<noteq> CHR '' ''"
    by (rule lower_not_space)
  then have "map to_ascii_lowercase (take 7 v) ! 6 \<noteq> map to_ascii_lowercase ''bearer '' ! 6"
    using True by (simp add: to_ascii_lowercase_def is_ascii_uppercase_def)
  then have "\<not> eq_ignore_ascii_case (take 7 v) ''bearer ''"
    unfolding eq_ignore_ascii_case_def by metis
  moreover have "split_at_byte 7 v = Some (take 7 v, drop 7 v)"
    using True assms by (intro split_at_byte_plain) (auto simp: list_all_iff plain_def)
  ultimately show ?thesis using trim_plain[OF assms] utf8_plain[OF assms] True
    by (simp add: strip_bearer_def Let_def)
qed

lemma strip_bearer_prefixed:
  assumes "list_all plain v" "v \<noteq> []" shows "strip_bearer (''Bearer '' @ v) = Some v"
proof -
  have "split_at_byte 7 (''Bearer '' @ v) = Some (take 7 (''Bearer '' @ v), drop 7 (''Bearer '' @ v))"
    using assms by (intro split_at_byte_plain) (auto simp: list_all_iff plain_def)
  moreover have "eq_ignore_ascii_case ''Bearer '' ''bearer ''"
    by (simp add: run)
  ultimately show ?thesis using trim_bearer[OF assms] trim_plain[OF assms(1)]
    by (simp add: strip_bearer_def Let_def utf8_len_def)
qed

text \<open>
  Slicing at byte 7 panics when that byte is inside a character: a bearer of six ASCII
  characters and one of two bytes.
\<close>

lemma strip_bearer_panics: "fst (verify_bearer ops now (''abcdef'' @ [CHR 0xE9]) s) = Inl Panicked"
  by (simp add: verify_bearer_def strip_bearer_def utf8_len_def run)

section \<open>The properties\<close>

lemma generated_plain: "list_all plain (generate rng)"
  using encode_alphabet alphabet_plain by (auto simp: generate_def generate_bytes_def list_all_iff)

lemma generated_nonempty: "length (rng TOKEN_BYTES) = TOKEN_BYTES \<Longrightarrow> generate rng \<noteq> []"
  using encode_length[of "rng TOKEN_BYTES"] by (auto simp: generate_def generate_bytes_def TOKEN_BYTES_def)

text \<open>C5: an issued session verifies to its principal until it expires. Over the in-memory store,
  the bearer of a session issued with a generated token is accepted, with or without the
  \<open>Bearer\<close> prefix, at every instant before \<open>now + ttl\<close>, and resolves to exactly the user,
  workspace, role and grant it was issued for.\<close>

theorem issued_session_verifies:
  assumes "mem_ok g" "length (rng TOKEN_BYTES) = TOKEN_BYTES" "now' < now + ttl"
    and "issue_session_with_ttl mem_ops now (generate rng) w u r gr ttl g = (Inr x, g')"
  shows "fst (verify_bearer mem_ops now' (generate rng) g')
      = Inr \<lparr>p_user = u, p_workspace = w, p_role = r, p_grant = gr\<rparr>
    \<and> fst (verify_bearer mem_ops now' (''Bearer '' @ generate rng) g')
      = Inr \<lparr>p_user = u, p_workspace = w, p_role = r, p_grant = gr\<rparr>"
proof -
  note pl = generated_plain[of rng] and ne = generated_nonempty[of rng, OF assms(2)]
  from mem.issue_then_view[OF assms(1), of now "generate rng" w u r gr ttl] assms(4)
  have ok: "mem_ok g'" and v: "vw_sessions (mem_view g') (generate rng) = Some \<lparr>s_token = generate rng, s_user = u,
      s_workspace = w, s_role = r, s_grant = gr, s_created = now, s_expires = now + ttl\<rparr>" by auto
  show ?thesis
    using mem.verify_live[OF ok strip_bearer_raw[OF pl] ne v, of now']
      mem.verify_live[OF ok strip_bearer_prefixed[OF pl ne] ne v, of now'] assms(3)
    by (simp add: session_principal_def)
qed

definition zero_rng :: "nat \<Rightarrow> 8 word list" where
  "zero_rng n = replicate n 0"

definition zero_session :: session where
  "zero_session = \<lparr>s_token = generate zero_rng, s_user = 1, s_workspace = 2, s_role = Member, s_grant = Some 9,
     s_created = 0, s_expires = 10\<rparr>"

lemma zero_issue:
  "issue_session_with_ttl mem_ops 0 (generate zero_rng) 2 1 Member (Some 9) 10 mem_new
     = (Inr zero_session, mem_new\<lparr>sessions := [(generate zero_rng, zero_session)]\<rparr>)"
  by (simp add: issue_session_with_ttl_def bindM_def mem_ops_def mem_create_session_def mem_new_def
      zero_session_def Let_def ret_def)

theorem issued_session_verifies_witness:
  "fst (verify_bearer mem_ops 9 (''Bearer '' @ generate zero_rng) (mem_new\<lparr>sessions := [(generate zero_rng, zero_session)]\<rparr>))
     = Inr \<lparr>p_user = 1, p_workspace = 2, p_role = Member, p_grant = Some 9\<rparr>"
  using issued_session_verifies[OF mem_ok_new _ _ zero_issue, of 9]
  by (simp add: zero_rng_def TOKEN_BYTES_def)

text \<open>The verifier accepts nothing else. A bearer is resolved to a principal exactly when the
  store holds a session under the stripped token that has not expired, and then to that
  session's principal.\<close>

theorem verify_bearer_exact:
  assumes "mem_ok g"
  shows "(fst (verify_bearer mem_ops now b g) = Inr p) =
    (\<exists>t x. strip_bearer b = Some t \<and> t \<noteq> [] \<and> map_of (sessions g) t = Some x
       \<and> now < s_expires x \<and> p = session_principal x)"
proof (cases "strip_bearer b")
  case None
  then show ?thesis by (simp add: verify_bearer_def)
next
  case (Some t)
  show ?thesis
  proof (cases "t = []")
    case True
    then show ?thesis using Some by (simp add: verify_bearer_def)
  next
    case False
    from mem.verify_iff[OF assms Some False, of now p] Some False show ?thesis by (simp add: mem_view_def)
  qed
qed

theorem verify_bearer_exact_witness:
  "fst (verify_bearer mem_ops 9 ''nope'' mem_new) \<noteq> Inr (principal_new 1 2 Viewer)"
  using verify_bearer_exact[OF mem_ok_new, of 9 "''nope''" "principal_new 1 2 Viewer"]
  by (simp add: mem_new_def)

text \<open>Logging out is final. Whatever was in the store, after \<open>revoke_session\<close> a bearer of the
  revoked token is unauthorized at every instant, and revoking reports whether it existed.\<close>

theorem revoked_session_rejected:
  assumes "mem_ok g" "strip_bearer b = Some t" "t \<noteq> []" "revoke_session mem_ops b g = (res, g')"
  shows "res = Inr (map_of (sessions g) t \<noteq> None)
    \<and> fst (verify_bearer mem_ops now b g') = Inl (Unauthorized ''unknown session token'')"
proof -
  from mem.revoke_then_unknown[OF assms(1,2)] assms(4)
  have "res = Inr (vw_sessions (mem_view g) t \<noteq> None)" "mem_ok g'" "vw_sessions (mem_view g') t = None" by auto
  with mem.verify_unknown[OF _ assms(2,3), of g' now] show ?thesis by (simp add: mem_view_def)
qed

theorem revoked_session_rejected_witness:
  "fst (verify_bearer mem_ops 5 ''t'' (mem_new\<lparr>sessions := []\<rparr>)) = Inl (Unauthorized ''unknown session token'')"
proof -
  let ?x = "zero_session\<lparr>s_token := ''t''\<rparr>"
  let ?g = "mem_new\<lparr>sessions := [(''t'', ?x)]\<rparr>"
  have ok: "mem_ok ?g" by (simp add: mem_ok_def mem_new_def)
  have strip: "strip_bearer ''t'' = Some ''t''" by (rule strip_bearer_raw) (simp add: plain_def run)
  have "revoke_session mem_ops ''t'' ?g = (Inr True, mem_new\<lparr>sessions := []\<rparr>)"
    by (simp add: revoke_session_def strip mem_ops_def mem_delete_session_def)
  from revoked_session_rejected[OF ok strip _ this, of 5] show ?thesis by simp
qed

text \<open>C6: a login token works once. After a successful redemption, and any sequence of public
  operations of the service in which the same token is not minted again, a second redemption
  is refused as consumed and changes nothing.\<close>

theorem login_token_single_use:
  assumes "mem_ok g" "svc_consume_login_token mem_ops now t g = (Inr row, g1)"
    and "(svc_step mem_ops t)\<^sup>*\<^sup>* g1 g2"
  shows "redeem_login_token mem_ops cfg t1 t2 fresh t g2 = (Inl TokenConsumed, g2)"
  using mem.single_use[OF assms, of t1] by (simp add: redeem_login_token_def)

definition one_token :: "int option \<Rightarrow> mem_store" where
  "one_token c = mem_new\<lparr>login_tokens := [(''k'', \<lparr>lt_token = ''k'', lt_user = 1, lt_workspace = 2,
     lt_created = 0, lt_expires = 10, lt_consumed = c\<rparr>)]\<rparr>"

theorem login_token_single_use_witness:
  "redeem_login_token mem_ops default_config 6 6 ''f'' ''k'' (one_token (Some 5)) = (Inl TokenConsumed, one_token (Some 5))"
proof -
  have ok: "mem_ok (one_token None)" by (simp add: one_token_def mem_ok_def mem_new_def)
  have "svc_consume_login_token mem_ops 5 ''k'' (one_token None) = (Inr \<lparr>lt_token = ''k'', lt_user = 1,
      lt_workspace = 2, lt_created = 0, lt_expires = 10, lt_consumed = None\<rparr>, one_token (Some 5))"
    by (simp add: svc_consume_login_token_def bindM_def mem_ops_def mem_consume_login_token_def one_token_def mem_new_def ret_def)
  moreover have "(svc_step mem_ops ''k'')\<^sup>*\<^sup>* (one_token (Some 5)) (one_token (Some 5))" by simp
  ultimately show ?thesis by (rule login_token_single_use[OF ok])
qed

text \<open>The login gate. A session issued through membership is for a member, carries that
  membership's role and no grant, and is never into an archived workspace; what it stores is
  the one session row.\<close>

theorem issue_session_gate:
  assumes "mem_ok g" "issue_session mem_ops cfg now tok w u g = (Inr x, g')"
  shows "(\<exists>m. map_of (memberships g) (w, u) = Some m \<and> s_role x = m_role m \<and> s_grant x = None
      \<and> s_user x = u \<and> s_workspace x = w)
    \<and> \<not> (\<exists>row. map_of (workspaces g) w = Some row \<and> archived_at row \<noteq> None)
    \<and> map_of (sessions g') = (map_of (sessions g))(tok \<mapsto> x)"
  using mem.issue_gate[OF assms] by (auto simp: mem_view_def)

definition member_store :: mem_store where
  "member_store = mem_new\<lparr>memberships := [((2, 1), \<lparr>m_workspace = 2, m_user = 1, m_role = Viewer\<rparr>)]\<rparr>"

definition viewer_session :: session where
  "viewer_session = \<lparr>s_token = ''t'', s_user = 1, s_workspace = 2, s_role = Viewer, s_grant = None,
     s_created = 0, s_expires = session_ttl default_config\<rparr>"

theorem issue_session_gate_witness: "\<exists>m. map_of (memberships member_store) (2, 1) = Some m \<and> Viewer = m_role m"
proof -
  have ok: "mem_ok member_store" by (simp add: member_store_def mem_ok_def mem_new_def)
  have "issue_session mem_ops default_config 0 ''t'' 2 1 member_store
      = (Inr viewer_session, member_store\<lparr>sessions := [(''t'', viewer_session)]\<rparr>)"
    by (simp add: issue_session_def issue_session_with_role_def issue_session_with_ttl_def bindM_def mem_ops_def
        mem_get_workspace_def mem_get_membership_def mem_create_session_def member_store_def mem_new_def
        viewer_session_def Let_def ret_def)
  from issue_session_gate[OF ok this] show ?thesis by (auto simp: viewer_session_def)
qed

text \<open>C36: single sign-on resolves safely. An accepted identity ends in the user that carries its
  subject. An existing account is adopted only when the store held that subject already, or
  through a usable email (verified, or trusted by the operator) on an account with no
  subject, and a known subject never gets a second account; a new account only with
  just-in-time provisioning on and a usable email; a denial changes nothing.\<close>

theorem sso_resolution_safe:
  assumes "mem_ok g" "map_of (users g) n = None"
    and "resolve_sso_identity mem_ops n idn jit trust g = (Inr r, g')"
  shows "mem_ok g' \<and> (case r of
      Existing u \<Rightarrow> sso_subject u = Some (id_subject idn) \<and> map_of (users g') (user_id u) = Some u
        \<and> (g' = g \<or> (\<exists>v e. usable_email idn trust = Some e \<and> eq_ignore_ascii_case (email v) e
             \<and> map_of (users g) (user_id u) = Some v \<and> sso_subject v = None
             \<and> list_all (\<lambda>(i, x). sso_subject x \<noteq> Some (id_subject idn)) (users g)))
    | Provisioned u \<Rightarrow> jit \<and> usable_email idn trust = Some (email u) \<and> sso_subject u = Some (id_subject idn)
        \<and> map_of (users g') = (map_of (users g))(n \<mapsto> u)
        \<and> list_all (\<lambda>(i, x). sso_subject x \<noteq> Some (id_subject idn)) (users g)
    | Denied d \<Rightarrow> g' = g)"
proof -
  have ran: "list_all (\<lambda>(i, x). P x) (users g) \<longleftrightarrow> (\<forall>x \<in> ran (map_of (users g)). P x)" for P
    using assms(1) by (auto simp: list_all_iff mem_ok_def ran_distinct)
  from mem.resolve_effect[OF assms(1), of n idn jit trust] assms(2,3) show ?thesis
    by (auto simp: mem_view_def ran split: sso_resolution.splits)
qed

definition alice :: sso_identity where
  "alice = \<lparr>id_subject = \<lparr>issuer = ''idp'', sub = ''42''\<rparr>, id_email = Some '' a@b.c '', email_verified = True,
     id_display = None\<rparr>"

definition alice_user :: user where
  "alice_user = \<lparr>user_id = 5, email = ''a@b.c'', display_name = ''a@b.c'',
     sso_subject = Some \<lparr>issuer = ''idp'', sub = ''42''\<rparr>\<rparr>"

theorem sso_resolution_safe_witness:
  "map_of (users (mem_new\<lparr>users := [(5, alice_user)]\<rparr>)) = (map_of (users mem_new))(5 \<mapsto> alice_user)"
proof -
  have "resolve_sso_identity mem_ops 5 alice True False mem_new
      = (Inr (Provisioned alice_user), mem_new\<lparr>users := [(5, alice_user)]\<rparr>)"
    by (simp add: resolve_sso_identity_def bindM_def mem_ops_def mem_get_user_by_sso_def mem_get_user_by_email_ci_def
        mem_new_def alice_def alice_user_def usable_email_def provision_def create_sso_user_def mem_create_user_def
        Let_def ret_def run)
  from sso_resolution_safe[OF mem_ok_new _ this] show ?thesis by (simp add: mem_new_def)
qed

end
