(* ===== verification/Auto_Model.thy ===== *)
theory Auto_Model
  imports Capability
begin

text \<open>
  The vocabulary of automations: triggers, actions and the typed spec
  (\<open>crates/catalerum-automation/src/lib.rs\<close>), the nodes and edges of a graph automation
  (\<open>graph.rs\<close>), the events that fire a run (\<open>trigger.rs\<close>) and the durable rows of a run and
  its steps (\<open>crates/catalerum-core/src/model.rs\<close>). Where a variant of one enum has the name of
  a variant of another, the constructor here carries a prefix (\<open>On\<close> for a trigger, \<open>Ev\<close> for
  an event, \<open>N\<close> for a node).
\<close>

section \<open>JSON access\<close>

text \<open>\<open>Value::get\<close>, \<open>as_bool\<close>, \<open>as_str\<close>, \<open>as_object\<close> and the insertion of a \<open>BTreeMap\<close>.\<close>

fun obj_get :: "json \<Rightarrow> string \<Rightarrow> json option" where
  "obj_get (JObj m) k = map_of m k"
| "obj_get _ k = None"

fun as_bool :: "json \<Rightarrow> bool option" where
  "as_bool (JBool b) = Some b"
| "as_bool _ = None"

fun as_str :: "json \<Rightarrow> string option" where
  "as_str (JStr s) = Some s"
| "as_str _ = None"

fun as_object :: "json \<Rightarrow> (string \<times> json) list option" where
  "as_object (JObj m) = Some m"
| "as_object _ = None"

fun map_insert :: "string \<Rightarrow> json \<Rightarrow> (string \<times> json) list \<Rightarrow> (string \<times> json) list" where
  "map_insert k v [] = [(k, v)]"
| "map_insert k v ((k', v') # m) =
     (case str_cmp k k' of Less \<Rightarrow> (k, v) # (k', v') # m
      | Equal \<Rightarrow> (k, v) # m
      | Greater \<Rightarrow> (k', v') # map_insert k v m)"

section \<open>Triggers\<close>

datatype trigger =
    CalendarEvent (lead: "json option") (cal_filter: "json option")
  | StorageObject string string "string option" "string list"
  | Schedule string "string option"
  | OnWebhook string
  | GraphQuery string "json option"
  | ChannelMessage string "json option"
  | CollectEmail string "string option" "json option" "string option" "json option" "json option"
  | CollectCalendar string "string option" "json option" "string option" "json option" "json option"
  | CollectSql string string "string option" "string option" "json option"
  | TaskMoved string string
  | OnSignal string

fun trigger_kind :: "trigger \<Rightarrow> string" where
  "trigger_kind (CalendarEvent _ _) = ''calendar_event''"
| "trigger_kind (StorageObject _ _ _ _) = ''storage_object''"
| "trigger_kind (Schedule _ _) = ''schedule''"
| "trigger_kind (OnWebhook _) = ''webhook''"
| "trigger_kind (GraphQuery _ _) = ''graph_query''"
| "trigger_kind (ChannelMessage _ _) = ''channel_message''"
| "trigger_kind (CollectEmail _ _ _ _ _ _) = ''collect_email''"
| "trigger_kind (CollectCalendar _ _ _ _ _ _) = ''collect_calendar''"
| "trigger_kind (CollectSql _ _ _ _ _) = ''collect_sql''"
| "trigger_kind (TaskMoved _ _) = ''task_moved''"
| "trigger_kind (OnSignal _) = ''trigger''"

fun is_collect :: "trigger \<Rightarrow> bool" where
  "is_collect (CollectEmail _ _ _ _ _ _) = True"
| "is_collect (CollectCalendar _ _ _ _ _ _) = True"
| "is_collect (CollectSql _ _ _ _ _) = True"
| "is_collect _ = False"

fun collect_connection :: "trigger \<Rightarrow> string option" where
  "collect_connection (CollectEmail c _ _ _ _ _) = Some c"
| "collect_connection (CollectCalendar c _ _ _ _ _) = Some c"
| "collect_connection (CollectSql c _ _ _ _) = Some c"
| "collect_connection _ = None"

fun commit_on :: "trigger \<Rightarrow> string option" where
  "commit_on (CollectEmail _ _ _ co _ _) = co"
| "commit_on (CollectCalendar _ _ _ co _ _) = co"
| "commit_on (CollectSql _ _ _ co _) = co"
| "commit_on _ = None"

fun collect_every :: "trigger \<Rightarrow> json option" where
  "collect_every (CollectEmail _ _ _ _ _ ev) = ev"
| "collect_every (CollectCalendar _ _ _ _ _ ev) = ev"
| "collect_every (CollectSql _ _ _ _ ev) = ev"
| "collect_every _ = None"

fun backfill_window :: "trigger \<Rightarrow> json option" where
  "backfill_window (CollectEmail _ _ _ _ bw _) = bw"
| "backfill_window (CollectCalendar _ _ _ _ bw _) = bw"
| "backfill_window _ = None"

datatype trigger_event =
    EvTaskMoved string string
  | EvWebhook string
  | EvChannelMessage string "string option" "string option"
  | EvStorageObject string string string "string option"
  | EvTrigger string "json option"

section \<open>Actions\<close>

datatype action_kind =
    LlmAgent | RunProfile | RunSkill | CreateEvent | UpdateEvent | WriteEmail | WriteEvent
  | LabelEmail | MarkEmailRead | MoveObject | WriteObject | RunCommand | OpenTerminal
  | TerminalWrite | TerminalRead | PersistTerminal | CloseTerminal | CreateNote | EditNote
  | CreateTask | MoveTask | CreateChatThread | Notify | Summarize | IndexDocument
  | ReindexObjects | FetchUrl | WebSearch | HtmlToMarkdown | ExtractHtml | SqlQuery | CallWebhook

definition is_idempotent :: "action_kind \<Rightarrow> bool" where
  "is_idempotent k \<longleftrightarrow> k \<in> {WriteEmail, WriteEvent, WriteObject, MarkEmailRead, IndexDocument,
     ReindexObjects, HtmlToMarkdown, ExtractHtml, FetchUrl, WebSearch}"

record act =
  act_kind :: action_kind
  params :: "(string \<times> json) list"

section \<open>Graphs\<close>

datatype node_kind =
    NTrigger trigger
  | NAction act
  | NCode string string
  | NCondition string string
  | NForEach string string "string option" "nat option"
  | NLoopEnd string

record node =
  node_id :: string
  node_kind :: node_kind

record edge =
  e_from :: string
  e_to :: string
  from_port :: string
  to_port :: string

record graph =
  nodes :: "node list"
  edges :: "edge list"

fun tag :: "node_kind \<Rightarrow> string" where
  "tag (NTrigger _) = ''trigger''"
| "tag (NAction _) = ''action''"
| "tag (NCode _ _) = ''code''"
| "tag (NCondition _ _) = ''condition''"
| "tag (NForEach _ _ _ _) = ''for_each''"
| "tag (NLoopEnd _) = ''loop_end''"

definition is_trigger :: "node \<Rightarrow> bool" where
  "is_trigger n \<longleftrightarrow> (case node_kind n of NTrigger _ \<Rightarrow> True | _ \<Rightarrow> False)"

definition MAX_LOOP_ITERATIONS :: nat where "MAX_LOOP_ITERATIONS = 1000"
definition MAX_LOOP_BODY_NODES :: nat where "MAX_LOOP_BODY_NODES = 256"

record region =
  for_each :: string
  loop_end :: string
  reg_body :: "string list"
  source :: string
  item :: string
  index :: "string option"
  max_iterations :: "nat option"

section \<open>Automations, runs and steps\<close>

record automation =
  aut_id :: nat
  aut_workspace :: nat
  aut_name :: string
  enabled :: bool
  triggers :: "json list"
  aut_condition :: "json option"
  actions :: "json list"
  aut_spec :: "json option"
  aut_grant :: "nat option"

datatype run_status = RunRunning | RunSucceeded | RunFailed | RunCancelled

datatype step_status = Running | Succeeded | Failed | Skipped

record ('e) run_row =
  run_id :: nat
  run_workspace :: nat
  run_automation :: nat
  run_status :: run_status
  run_grant :: "nat option"
  run_trigger :: "json option"
  run_error :: "'e option"
  run_job :: "nat option"

record ('e) step_row =
  step_id :: nat
  step_run :: nat
  step_workspace :: nat
  ordinal :: int
  step_action :: json
  step_status :: step_status
  step_output :: "json option"
  step_error :: "'e option"

text \<open>The parsed form of a linear automation.\<close>

record spec =
  spec_triggers :: "trigger list"
  spec_condition :: "json option"
  spec_actions :: "act list"

end
