(* ===== verification/Auto_Graph.thy ===== *)
theory Auto_Graph
  imports Auto_Model
begin

text \<open>
  The pure helpers of a graph automation (\<open>crates/catalerum-automation/src/graph.rs\<close>): lookup
  and adjacency, Kahn's topological order, bounded reachability, the resolution of loop regions
  and the authoring-time validation. A message of the source is a constructor of the error
  type. Degrees are integers: \<open>usize\<close> arithmetic in a release build wraps below zero, and both
  a wrapped and a negative degree are only ever compared with zero.
\<close>

datatype graph_error =
    DuplicateNode string | EdgeFromUnknown string | EdgeToUnknown string | NoTriggerNode
  | EdgeIntoTrigger string | CollectNotAlone | CommitOnUnknown string string
  | CommitOnNotAction string string | ConditionPort string string | Cycle
  | EmptyItem string | EmptySource string | EmptyIndex string | SameLoopVariable string string
  | TooManyIterations string nat | NoLoopEnd string | ManyLoopEnds string
  | EmptyLoopBody string string | LoopBodyTooLong string nat | TriggerInBody string string
  | NestedLoop string string | EdgeFromOutside string string string
  | EdgeLeavingBody string string string | HeadEdgeOutside string string
  | EndEdgeOutside string string | OrphanLoopEnd string string

section \<open>Lookup\<close>

definition ids :: "graph \<Rightarrow> string list" where
  "ids g = map node_id (nodes g)"

definition lookup_node :: "graph \<Rightarrow> string \<Rightarrow> node option" where
  "lookup_node g i = List.find (\<lambda>n. node_id n = i) (nodes g)"

definition out_edges :: "graph \<Rightarrow> string \<Rightarrow> string option \<Rightarrow> edge list" where
  "out_edges g i port =
     filter (\<lambda>e. e_from e = i \<and> (case port of None \<Rightarrow> True | Some p \<Rightarrow> from_port e = p)) (edges g)"

fun first_seen :: "string list \<Rightarrow> string list \<Rightarrow> string list" where
  "first_seen seen [] = []"
| "first_seen seen (x # xs) =
     (if x \<in> set seen then first_seen seen xs else x # first_seen (x # seen) xs)"

definition upstream :: "graph \<Rightarrow> string \<Rightarrow> string list" where
  "upstream g i = first_seen [] (map e_from (filter (\<lambda>e. e_to e = i) (edges g)))"

definition trigger_specs :: "graph \<Rightarrow> trigger list" where
  "trigger_specs g =
     List.map_filter (\<lambda>n. case node_kind n of NTrigger t \<Rightarrow> Some t | _ \<Rightarrow> None) (nodes g)"

section \<open>Topological order\<close>

text \<open>The counted edges are those whose two endpoints are nodes.\<close>

definition counted :: "graph \<Rightarrow> edge list" where
  "counted g = filter (\<lambda>e. e_from e \<in> set (ids g) \<and> e_to e \<in> set (ids g)) (edges g)"

definition in_degree :: "graph \<Rightarrow> string \<Rightarrow> int" where
  "in_degree g i = int (length (filter (\<lambda>e. e_to e = i) (counted g)))"

definition targets :: "graph \<Rightarrow> string \<Rightarrow> string list" where
  "targets g i = map e_to (filter (\<lambda>e. e_from e = i) (counted g))"

fun relax :: "string list \<Rightarrow> (string \<Rightarrow> int) \<Rightarrow> string list \<Rightarrow> (string \<Rightarrow> int) \<times> string list" where
  "relax [] deg queue = (deg, queue)"
| "relax (t # ts) deg queue =
     (let d = deg t - 1
      in relax ts (deg(t := d)) (if d = 0 then queue @ [t] else queue))"

lemma targets_ids: "set (targets g i) \<subseteq> set (ids g)"
  by (auto simp: targets_def counted_def)

lemma relax_measure:
  assumes "finite K" "set ts \<subseteq> K" "relax ts deg queue = (deg', queue')"
  shows "length queue' + card {k \<in> K. deg' k > 0} \<le> length queue + card {k \<in> K. deg k > 0}"
  using assms(2,3)
proof (induction ts arbitrary: deg queue)
  case (Cons t ts)
  let ?deg = "deg(t := deg t - 1)" and ?q = "if deg t - 1 = 0 then queue @ [t] else queue"
  have "length ?q + card {k \<in> K. ?deg k > 0} \<le> length queue + card {k \<in> K. deg k > 0}"
  proof (cases "deg t = 1")
    case True
    then have "{k \<in> K. deg k > 0} = insert t {k \<in> K. ?deg k > 0}" using Cons.prems(1) by auto
    moreover have "t \<notin> {k \<in> K. ?deg k > 0}" using True by simp
    ultimately show ?thesis using True assms(1) by simp
  next
    case False
    have "card {k \<in> K. ?deg k > 0} \<le> card {k \<in> K. deg k > 0}"
      using assms(1) by (intro card_mono) (auto split: if_splits)
    then show ?thesis using False by simp
  qed
  moreover have "set ts \<subseteq> K" "relax ts ?deg ?q = (deg', queue')"
    using Cons.prems by (simp_all add: Let_def)
  note Cons.IH[OF this]
  ultimately show ?case by (rule le_trans[rotated])
qed simp

function kahn :: "graph \<Rightarrow> string list \<Rightarrow> (string \<Rightarrow> int) \<Rightarrow> string list \<Rightarrow> string list" where
  "kahn g [] deg order = order"
| "kahn g (i # queue) deg order =
     (let (deg', queue') = relax (targets g i) deg queue in kahn g queue' deg' (order @ [i]))"
  by pat_completeness auto
termination
proof (relation "measure (\<lambda>(g, queue, deg, order). length queue + card {k \<in> set (ids g). deg k > 0})", goal_cases)
  case (2 g i queue deg order p deg' queue')
  then have "relax (targets g i) deg queue = (deg', queue')" by simp
  from relax_measure[OF _ targets_ids this] show ?case by simp
qed simp

definition topo_order :: "graph \<Rightarrow> graph_error + string list" where
  "topo_order g =
     (let order = kahn g (filter (\<lambda>i. in_degree g i = 0) (ids g)) (in_degree g) []
      in if length order = length (nodes g) then Inr order else Inl Cycle)"

section \<open>Reachability\<close>

text \<open>A depth-first walk over arcs that does not expand past the boundary; the stack's top is
  the head of the list, so the targets of a node are pushed in order and popped in reverse.\<close>

function dfs :: "(string \<times> string) list \<Rightarrow> string option \<Rightarrow> string list \<Rightarrow> string list \<Rightarrow> string list" where
  "dfs arcs boundary [] seen = seen"
| "dfs arcs boundary (i # stack) seen =
     (if i \<in> set seen then dfs arcs boundary stack seen
      else if boundary = Some i then dfs arcs boundary stack (i # seen)
      else dfs arcs boundary (rev (map snd (filter (\<lambda>a. fst a = i) arcs)) @ stack) (i # seen))"
  by pat_completeness auto
termination
proof (relation "measures [\<lambda>(arcs, b, stack, seen). card (fst ` set arcs - set seen),
    \<lambda>(arcs, b, stack, seen). length stack]", goal_cases)
  case (3 arcs b i stack seen)
  have "fst ` set arcs - set (i # seen) \<subseteq> fst ` set arcs - set seen" by auto
  then show ?case
    by (cases "fst ` set arcs - set (i # seen) = fst ` set arcs - set seen")
      (auto intro!: psubset_card_mono)
next
  case (4 arcs b i stack seen)
  show ?case
  proof (cases "i \<in> fst ` set arcs")
    case True
    with 4(1) have "fst ` set arcs - set (i # seen) \<subset> fst ` set arcs - set seen" by auto
    then show ?thesis by (auto intro!: psubset_card_mono)
  next
    case False
    then have "filter (\<lambda>a. fst a = i) arcs = []" by (auto simp: filter_empty_conv)
    moreover from False have "fst ` set arcs - set (i # seen) = fst ` set arcs - set seen" by auto
    ultimately show ?thesis by simp
  qed
qed auto

declare dfs.simps [simp del] kahn.simps [simp del]

definition arcs :: "graph \<Rightarrow> (string \<times> string) list" where
  "arcs g = map (\<lambda>e. (e_from e, e_to e)) (edges g)"

definition reachable_forward :: "graph \<Rightarrow> string \<Rightarrow> string \<Rightarrow> string list" where
  "reachable_forward g start boundary = dfs (arcs g) (Some boundary) [start] []"

definition reachable_backward :: "graph \<Rightarrow> string \<Rightarrow> string \<Rightarrow> string list" where
  "reachable_backward g start boundary =
     dfs (map (\<lambda>(a, b). (b, a)) (arcs g)) (Some boundary) [start] []"

section \<open>Loop regions\<close>

definition loop_ends :: "graph \<Rightarrow> node list" where
  "loop_ends g = filter (\<lambda>n. case node_kind n of NLoopEnd _ \<Rightarrow> True | _ \<Rightarrow> False) (nodes g)"

definition check_loop_vars ::
    "string \<Rightarrow> string \<Rightarrow> string \<Rightarrow> string option \<Rightarrow> nat option \<Rightarrow> graph_error + unit" where
  "check_loop_vars f src itm idx cap =
     bindE (guardE (trim itm \<noteq> []) (EmptyItem f)) (\<lambda>_.
     bindE (guardE (trim src \<noteq> []) (EmptySource f)) (\<lambda>_.
     bindE (case idx of None \<Rightarrow> Inr ()
            | Some ix \<Rightarrow> bindE (guardE (trim ix \<noteq> []) (EmptyIndex f)) (\<lambda>_.
                        guardE (ix \<noteq> itm) (SameLoopVariable f ix))) (\<lambda>_.
     case cap of None \<Rightarrow> Inr ()
     | Some m \<Rightarrow> guardE (m \<le> MAX_LOOP_ITERATIONS) (TooManyIterations f m))))"

definition paired_end :: "graph \<Rightarrow> string \<Rightarrow> graph_error + node" where
  "paired_end g f =
     (case filter (\<lambda>l. node_kind l = NLoopEnd f) (loop_ends g) of
        [] \<Rightarrow> Inl (NoLoopEnd f)
      | [one] \<Rightarrow> Inr one
      | _ \<Rightarrow> Inl (ManyLoopEnds f))"

definition region_body :: "graph \<Rightarrow> string list \<Rightarrow> string \<Rightarrow> string \<Rightarrow> string list" where
  "region_body g topo f l =
     (let forward = reachable_forward g f l; backward = reachable_backward g l f
      in filter (\<lambda>i. i \<noteq> f \<and> i \<noteq> l \<and> i \<in> set forward \<and> i \<in> set backward) topo)"

definition check_body_node :: "graph \<Rightarrow> string \<Rightarrow> string \<Rightarrow> graph_error + unit" where
  "check_body_node g f i =
     (case map_option node_kind (lookup_node g i) of
        Some (NTrigger _) \<Rightarrow> Inl (TriggerInBody f i)
      | Some (NForEach _ _ _ _) \<Rightarrow> Inl (NestedLoop f i)
      | Some (NLoopEnd _) \<Rightarrow> Inl (NestedLoop f i)
      | _ \<Rightarrow> Inr ())"

definition check_isolation :: "string \<Rightarrow> string \<Rightarrow> string list \<Rightarrow> edge \<Rightarrow> graph_error + unit" where
  "check_isolation f l body e =
     (let from_in = e_from e \<in> set body; to_in = e_to e \<in> set body
      in bindE (guardE (\<not> (to_in \<and> \<not> from_in \<and> e_from e \<noteq> f)) (EdgeFromOutside f (e_to e) (e_from e))) (\<lambda>_.
         bindE (guardE (\<not> (from_in \<and> \<not> to_in \<and> e_to e \<noteq> l)) (EdgeLeavingBody f (e_from e) (e_to e))) (\<lambda>_.
         bindE (guardE (\<not> (e_from e = f \<and> \<not> to_in)) (HeadEdgeOutside f (e_to e))) (\<lambda>_.
         guardE (\<not> (e_to e = l \<and> \<not> from_in)) (EndEdgeOutside l (e_from e))))))"

definition region_of ::
    "graph \<Rightarrow> string list \<Rightarrow> string \<Rightarrow> string \<Rightarrow> string \<Rightarrow> string option \<Rightarrow> nat option \<Rightarrow> graph_error + region" where
  "region_of g topo f src itm idx cap =
     bindE (check_loop_vars f src itm idx cap) (\<lambda>_.
     bindE (paired_end g f) (\<lambda>en.
     (let l = node_id en; body = region_body g topo f l
      in bindE (guardE (body \<noteq> []) (EmptyLoopBody f l)) (\<lambda>_.
         bindE (guardE (length body \<le> MAX_LOOP_BODY_NODES) (LoopBodyTooLong f (length body))) (\<lambda>_.
         bindE (forE (check_body_node g f) body) (\<lambda>_.
         bindE (forE (check_isolation f l body) (edges g)) (\<lambda>_.
         Inr \<lparr>for_each = f, loop_end = l, reg_body = body, source = src, item = itm,
              index = idx, max_iterations = cap\<rparr>)))))))"

fun regions_from :: "graph \<Rightarrow> string list \<Rightarrow> node list \<Rightarrow> graph_error + region list" where
  "regions_from g topo [] = Inr []"
| "regions_from g topo (n # ns) =
     (case node_kind n of
        NForEach src itm idx cap \<Rightarrow>
          bindE (region_of g topo (node_id n) src itm idx cap) (\<lambda>r.
          bindE (regions_from g topo ns) (\<lambda>rs. Inr (r # rs)))
      | _ \<Rightarrow> regions_from g topo ns)"

definition check_orphan :: "region list \<Rightarrow> node \<Rightarrow> graph_error + unit" where
  "check_orphan rs l =
     guardE (node_id l \<in> loop_end ` set rs)
       (OrphanLoopEnd (node_id l) (case node_kind l of NLoopEnd f \<Rightarrow> f | _ \<Rightarrow> []))"

definition for_each_regions :: "graph \<Rightarrow> graph_error + region list" where
  "for_each_regions g =
     (let topo = (case topo_order g of Inr t \<Rightarrow> t | Inl _ \<Rightarrow> [])
      in bindE (regions_from g topo (nodes g)) (\<lambda>rs.
         bindE (forE (check_orphan rs) (loop_ends g)) (\<lambda>_. Inr rs)))"

section \<open>Validation\<close>

fun check_unique :: "string list \<Rightarrow> node list \<Rightarrow> graph_error + unit" where
  "check_unique seen [] = Inr ()"
| "check_unique seen (n # ns) =
     (if node_id n \<in> set seen then Inl (DuplicateNode (node_id n))
      else check_unique (node_id n # seen) ns)"

definition check_endpoints :: "graph \<Rightarrow> edge \<Rightarrow> graph_error + unit" where
  "check_endpoints g e =
     bindE (guardE (e_from e \<in> set (ids g)) (EdgeFromUnknown (e_from e))) (\<lambda>_.
     guardE (e_to e \<in> set (ids g)) (EdgeToUnknown (e_to e)))"

definition trigger_nodes :: "graph \<Rightarrow> node list" where
  "trigger_nodes g = filter is_trigger (nodes g)"

definition is_collect_node :: "node \<Rightarrow> bool" where
  "is_collect_node n \<longleftrightarrow> (case node_kind n of NTrigger t \<Rightarrow> is_collect t | _ \<Rightarrow> False)"

definition check_commit_on :: "graph \<Rightarrow> node \<Rightarrow> graph_error + unit" where
  "check_commit_on g n =
     (case node_kind n of
        NTrigger t \<Rightarrow>
          (case commit_on t of
             None \<Rightarrow> Inr ()
           | Some target \<Rightarrow>
               (case map_option node_kind (lookup_node g target) of
                  None \<Rightarrow> Inl (CommitOnUnknown (node_id n) target)
                | Some (NAction _) \<Rightarrow> Inr ()
                | Some _ \<Rightarrow> Inl (CommitOnNotAction (node_id n) target)))
      | _ \<Rightarrow> Inr ())"

definition condition_ids :: "graph \<Rightarrow> string list" where
  "condition_ids g =
     map node_id (filter (\<lambda>n. case node_kind n of NCondition _ _ \<Rightarrow> True | _ \<Rightarrow> False) (nodes g))"

definition check_port :: "graph \<Rightarrow> edge \<Rightarrow> graph_error + unit" where
  "check_port g e =
     guardE (\<not> (e_from e \<in> set (condition_ids g) \<and> from_port e \<noteq> ''true'' \<and> from_port e \<noteq> ''false''))
       (ConditionPort (e_from e) (from_port e))"

definition validate_graph :: "graph \<Rightarrow> graph_error + unit" where
  "validate_graph g =
     bindE (check_unique [] (nodes g)) (\<lambda>_.
     bindE (forE (check_endpoints g) (edges g)) (\<lambda>_.
     bindE (guardE (trigger_nodes g \<noteq> []) NoTriggerNode) (\<lambda>_.
     bindE (forE (\<lambda>e. guardE (e_to e \<notin> node_id ` set (trigger_nodes g)) (EdgeIntoTrigger (e_to e))) (edges g)) (\<lambda>_.
     bindE (guardE (\<not> (list_ex is_collect_node (trigger_nodes g) \<and> length (trigger_nodes g) > 1)) CollectNotAlone) (\<lambda>_.
     bindE (forE (check_commit_on g) (nodes g)) (\<lambda>_.
     bindE (forE (check_port g) (edges g)) (\<lambda>_.
     bindE (topo_order g) (\<lambda>_.
     bindE (for_each_regions g) (\<lambda>_. Inr ())))))))))"

section \<open>Authoring diagnostics\<close>

datatype warning = NotConnected string | NoOutgoing string | NoBranch string string

definition reachable_from_triggers :: "graph \<Rightarrow> string list" where
  "reachable_from_triggers g = dfs (arcs g) None (rev (map node_id (trigger_nodes g))) []"

definition node_warnings :: "graph \<Rightarrow> node \<Rightarrow> warning list" where
  "node_warnings g n =
     (if \<not> is_trigger n \<and> node_id n \<notin> set (reachable_from_triggers g) then [NotConnected (node_id n)]
      else (if is_trigger n \<and> \<not> list_ex (\<lambda>e. e_from e = node_id n) (edges g) then [NoOutgoing (node_id n)] else []) @
        (case node_kind n of
           NCondition _ _ \<Rightarrow>
             concat (map (\<lambda>b. if list_ex (\<lambda>e. e_from e = node_id n \<and> from_port e = b) (edges g) then []
                             else [NoBranch (node_id n) b]) [''true'', ''false''])
         | _ \<Rightarrow> []))"

definition warnings :: "graph \<Rightarrow> warning list" where
  "warnings g = concat (map (node_warnings g) (nodes g))"

end
