(* ===== verification/Auto_Trigger.thy ===== *)
theory Auto_Trigger
  imports Auto_Model
begin

text \<open>
  Deciding when an automation fires: the predicate that matches a push-driven trigger against
  an event (\<open>crates/catalerum-automation/src/trigger.rs\<close>) and the clock window of a schedule
  trigger (\<open>schedule.rs\<close>). The serde decoder of a stored trigger and the croner and chrono-tz
  libraries are parameters.
\<close>

section \<open>Push-driven triggers\<close>

definition channel_text_filter :: "json option \<Rightarrow> string option" where
  "channel_text_filter flt =
     Option.bind flt (\<lambda>v. Option.bind (obj_get v ''text'') as_str)"

definition contains_ci :: "string option \<Rightarrow> string option \<Rightarrow> bool" where
  "contains_ci flt candidate =
     (case flt of None \<Rightarrow> True
      | Some f \<Rightarrow> (case candidate of None \<Rightarrow> False
                  | Some c \<Rightarrow> str_contains (to_lowercase c) (to_lowercase f)))"

text \<open>\<open>str::rsplit_once\<close>: the last occurrence of the character splits the text.\<close>

definition rsplit_once :: "char \<Rightarrow> string \<Rightarrow> (string \<times> string) option" where
  "rsplit_once c s =
     (if c \<in> set s
      then Some (rev (tl (dropWhile (\<lambda>x. x \<noteq> c) (rev s))), rev (takeWhile (\<lambda>x. x \<noteq> c) (rev s)))
      else None)"

definition key_has_extension :: "string \<Rightarrow> string list \<Rightarrow> bool" where
  "key_has_extension key extensions =
     (if extensions = [] then True
      else (case rsplit_once (CHR ''.'') (last (split_on (CHR ''/'') key)) of
              None \<Rightarrow> False
            | Some (_, ext) \<Rightarrow>
                (if ext = [] then False
                 else list_ex (\<lambda>want. eq_ignore_ascii_case (dropWhile (\<lambda>c. c = CHR ''.'') want) ext)
                        extensions)))"

fun matches :: "trigger \<Rightarrow> trigger_event \<Rightarrow> bool" where
  "matches (TaskMoved board to_column) (EvTaskMoved eb ec) = (board = eb \<and> to_column = ec)"
| "matches (OnWebhook path) (EvWebhook ep) = (path = ep)"
| "matches (OnSignal name) (EvTrigger en _) = (name = en)"
| "matches (ChannelMessage channel flt) (EvChannelMessage ec text _) =
     (channel = ec \<and> contains_ci (channel_text_filter flt) text)"
| "matches (StorageObject event bucket prefix extensions) (EvStorageObject ee eb key _) =
     (event = ee \<and> bucket = eb \<and> (case prefix of None \<Rightarrow> True | Some p \<Rightarrow> starts_with p key) \<and>
      key_has_extension key extensions)"
| "matches _ _ = False"

definition calendar_event_filter_matches ::
    "json option \<Rightarrow> string \<Rightarrow> string option \<Rightarrow> string option \<Rightarrow> bool" where
  "calendar_event_filter_matches flt summary location description =
     (case Option.bind flt as_object of
        None \<Rightarrow> True
      | Some obj \<Rightarrow>
          (let want = (\<lambda>key. Option.bind (map_of obj key) as_str)
           in contains_ci (want ''summary'') (Some summary) \<and>
              contains_ci (want ''location'') location \<and>
              contains_ci (want ''description'') description))"

text \<open>\<open>dec\<close> is the derived decoder of a stored trigger.\<close>

definition automation_matches :: "(json \<Rightarrow> trigger option) \<Rightarrow> automation \<Rightarrow> trigger_event \<Rightarrow> bool" where
  "automation_matches dec a event \<longleftrightarrow>
     enabled a \<and>
     list_ex (\<lambda>t. case dec t of Some tr \<Rightarrow> matches tr event | None \<Rightarrow> False) (triggers a)"

definition matching_automations ::
    "(json \<Rightarrow> trigger option) \<Rightarrow> automation list \<Rightarrow> trigger_event \<Rightarrow> automation list" where
  "matching_automations dec as event = filter (\<lambda>a. automation_matches dec a event) as"

section \<open>Schedules\<close>

datatype cron_error = UnknownTimezone string string | BadCron string string

record ('c, 'z) cron_lib =
  tz_utc :: 'z
  tz_named :: "string \<Rightarrow> 'z option"
  cron_new :: "string \<Rightarrow> string + 'c"
  next_occurrence :: "'c \<Rightarrow> 'z \<Rightarrow> int \<Rightarrow> int option"

definition resolve_tz :: "('c, 'z) cron_lib \<Rightarrow> string \<Rightarrow> string option \<Rightarrow> cron_error + 'z" where
  "resolve_tz L cron tz =
     (case tz of None \<Rightarrow> Inr (tz_utc L)
      | Some name \<Rightarrow> okOr (UnknownTimezone cron name) (tz_named L name))"

definition parse_cron :: "('c, 'z) cron_lib \<Rightarrow> string \<Rightarrow> cron_error + 'c" where
  "parse_cron L cron = (case cron_new L cron of Inl e \<Rightarrow> Inl (BadCron cron e) | Inr c \<Rightarrow> Inr c)"

definition validate_cron :: "('c, 'z) cron_lib \<Rightarrow> string \<Rightarrow> string option \<Rightarrow> cron_error + unit" where
  "validate_cron L cron tz =
     bindE (resolve_tz L cron tz) (\<lambda>_. bindE (parse_cron L cron) (\<lambda>_. Inr ()))"

definition due_occurrence ::
    "('c, 'z) cron_lib \<Rightarrow> string \<Rightarrow> string option \<Rightarrow> int \<Rightarrow> int \<Rightarrow> cron_error + int option" where
  "due_occurrence L cron tz after now =
     (if after \<ge> now then Inr None
      else bindE (resolve_tz L cron tz) (\<lambda>zone.
           bindE (parse_cron L cron) (\<lambda>schedule.
             case next_occurrence L schedule zone after of
               Some next \<Rightarrow> Inr (if next \<le> now then Some next else None)
             | None \<Rightarrow> Inr None)))"

definition due_in_window ::
    "('c, 'z) cron_lib \<Rightarrow> string \<Rightarrow> string option \<Rightarrow> int \<Rightarrow> int \<Rightarrow> cron_error + bool" where
  "due_in_window L cron tz after now =
     bindE (due_occurrence L cron tz after now) (\<lambda>d. Inr (d \<noteq> None))"

section \<open>The extension of a key\<close>

lemma rsplit_once_iff:
  "rsplit_once c s = Some (a, b) \<longleftrightarrow> s = a @ c # b \<and> c \<notin> set b"
proof
  assume "rsplit_once c s = Some (a, b)"
  then have c: "c \<in> set s" and a: "a = rev (tl (dropWhile (\<lambda>x. x \<noteq> c) (rev s)))"
    and b: "b = rev (takeWhile (\<lambda>x. x \<noteq> c) (rev s))"
    unfolding rsplit_once_def by (simp_all split: if_splits)
  define d where "d = dropWhile (\<lambda>x. x \<noteq> c) (rev s)"
  have ne: "d \<noteq> []" using c by (simp add: d_def dropWhile_eq_Nil_conv)
  then have h: "hd d = c" using hd_dropWhile[of "\<lambda>x. x \<noteq> c" "rev s"] by (simp add: d_def)
  have "a = rev (tl d)" by (simp only: a d_def)
  with ne h have d: "d = c # rev a" by (cases d) auto
  have "rev s = rev b @ d" by (simp only: b d_def rev_rev_ident takeWhile_dropWhile_id)
  then have "s = rev (rev b @ d)" by (rule rev_swap[THEN iffD1])
  with d have "s = a @ c # b" by simp
  moreover have "c \<notin> set b" using set_takeWhileD[of c "\<lambda>x. x \<noteq> c" "rev s"] by (auto simp: b)
  ultimately show "s = a @ c # b \<and> c \<notin> set b" by simp
next
  assume s: "s = a @ c # b \<and> c \<notin> set b"
  then have nb: "x \<noteq> c" if "x \<in> set (rev b)" for x using that by auto
  have "takeWhile (\<lambda>x. x \<noteq> c) (rev b @ c # rev a) = rev b"
    using takeWhile_append2[of "rev b" "\<lambda>x. x \<noteq> c" "c # rev a", OF nb] by simp
  moreover have "dropWhile (\<lambda>x. x \<noteq> c) (rev b @ c # rev a) = c # rev a"
    using dropWhile_append2[of "rev b" "\<lambda>x. x \<noteq> c" "c # rev a", OF nb] by simp
  ultimately show "rsplit_once c s = Some (a, b)" using s by (simp add: rsplit_once_def)
qed

lemma split_on_append: "split_on c (a @ c # b) = split_on c a @ split_on c b"
proof (induction a)
  case (Cons x a)
  then show ?case by (cases "split_on c a") auto
qed simp

lemma last_piece_append: "c \<notin> set b \<Longrightarrow> last (split_on c (a @ c # b)) = b"
  by (simp add: split_on_append split_on_single)

lemma last_piece_iff: "last (split_on c s) = p \<longleftrightarrow> c \<notin> set p \<and> (s = p \<or> (\<exists>d. s = d @ c # p))"
proof (cases "c \<in> set s")
  case True
  then obtain a b where s: "s = a @ c # b" and b: "c \<notin> set b" using split_list_last by fastforce
  have "p = b" if "s = d @ c # p" "c \<notin> set p" for d p
    using that s b last_piece_append by metis
  then show ?thesis using s b by (auto simp: last_piece_append)
next
  case False
  then show ?thesis by (auto simp: split_on_single)
qed

text \<open>
  The extension filter. A storage trigger without an allow-list accepts every key; with
  one, it accepts a key exactly when its file name (the part after the last slash) ends in a
  dot and a non-empty extension without a dot that equals an entry of the list, up to ASCII
  case and the entry's leading dots.
\<close>

theorem key_has_extension_exact:
  "key_has_extension key extensions \<longleftrightarrow>
     extensions = [] \<or>
     (\<exists>dir base ext want. (key = base @ ''.'' @ ext \<and> dir = [] \<or> key = dir @ ''/'' @ base @ ''.'' @ ext) \<and>
        CHR ''/'' \<notin> set base \<union> set ext \<and> CHR ''.'' \<notin> set ext \<and> ext \<noteq> [] \<and> want \<in> set extensions \<and>
        eq_ignore_ascii_case (dropWhile (\<lambda>c. c = CHR ''.'') want) ext)"
  (is "_ \<longleftrightarrow> _ \<or> (\<exists>dir base ext want. ?R dir base ext want)")
proof (cases "extensions = []")
  case True
  then show ?thesis by (simp add: key_has_extension_def)
next
  case False
  let ?n = "last (split_on (CHR ''/'') key)"
  have n: "CHR ''/'' \<notin> set ?n \<and> (key = ?n \<or> (\<exists>d. key = d @ CHR ''/'' # ?n))"
    using last_piece_iff by blast
  have "key_has_extension key extensions \<longleftrightarrow>
      (\<exists>base ext. rsplit_once (CHR ''.'') ?n = Some (base, ext) \<and> ext \<noteq> [] \<and>
         (\<exists>want\<in>set extensions. eq_ignore_ascii_case (dropWhile (\<lambda>c. c = CHR ''.'') want) ext))"
    using False by (auto simp: key_has_extension_def list_ex_iff split: option.splits)
  also have "\<dots> \<longleftrightarrow> (\<exists>dir base ext want. ?R dir base ext want)"
  proof
    assume "\<exists>base ext. rsplit_once (CHR ''.'') ?n = Some (base, ext) \<and> ext \<noteq> [] \<and>
         (\<exists>want\<in>set extensions. eq_ignore_ascii_case (dropWhile (\<lambda>c. c = CHR ''.'') want) ext)"
    then obtain base ext want where "?n = base @ CHR ''.'' # ext" "CHR ''.'' \<notin> set ext" "ext \<noteq> []"
      "want \<in> set extensions" "eq_ignore_ascii_case (dropWhile (\<lambda>c. c = CHR ''.'') want) ext"
      unfolding rsplit_once_iff by blast
    with n have "?R [] base ext want \<or> (\<exists>d. ?R d base ext want)" by auto
    then show "\<exists>dir base ext want. ?R dir base ext want" by blast
  next
    assume "\<exists>dir base ext want. ?R dir base ext want"
    then obtain dir base ext want where R: "?R dir base ext want" by blast
    then have "?n = base @ CHR ''.'' # ext" by (auto simp: last_piece_iff)
    with R show "\<exists>base ext. rsplit_once (CHR ''.'') ?n = Some (base, ext) \<and> ext \<noteq> [] \<and>
         (\<exists>want\<in>set extensions. eq_ignore_ascii_case (dropWhile (\<lambda>c. c = CHR ''.'') want) ext)"
      unfolding rsplit_once_iff by blast
  qed
  finally show ?thesis using False by simp
qed

section \<open>Consecutive windows\<close>

text \<open>croner's contract: the next occurrence is the least one strictly after the instant asked.\<close>

definition least_after :: "(int \<Rightarrow> bool) \<Rightarrow> int \<Rightarrow> int option \<Rightarrow> bool" where
  "least_after occ t r =
     (case r of None \<Rightarrow> (\<forall>x>t. \<not> occ x) | Some n \<Rightarrow> t < n \<and> occ n \<and> (\<forall>x. t < x \<and> x < n \<longrightarrow> \<not> occ x))"

lemma due_occurrence_ok:
  assumes "resolve_tz L cron tz = Inr z" "parse_cron L cron = Inr c"
  shows "due_occurrence L cron tz a b =
    Inr (if b \<le> a then None else (case next_occurrence L c z a of
           None \<Rightarrow> None | Some n \<Rightarrow> if n \<le> b then Some n else None))"
  using assms by (simp add: due_occurrence_def split: option.splits)

text \<open>
  One firing per occurrence. When the cron and its time zone parse and the cron library
  returns the least occurrence after an instant, a window yields an occurrence exactly when
  one lies in it (open below, closed above), and splitting a window at any instant in it
  changes nothing: the occurrence of the whole is the first part's, or else the second's. So
  consecutive scheduler ticks neither skip nor repeat an occurrence.
\<close>

theorem due_windows_compose:
  assumes "resolve_tz L cron tz = Inr z" "parse_cron L cron = Inr c"
    and "\<And>t. least_after occ t (next_occurrence L c z t)"
    and "a \<le> b" "b \<le> d"
  shows "((\<exists>n. due_occurrence L cron tz a b = Inr (Some n)) \<longleftrightarrow> (\<exists>x. occ x \<and> a < x \<and> x \<le> b)) \<and>
    due_occurrence L cron tz a d =
      bindE (due_occurrence L cron tz a b)
        (\<lambda>r. case r of Some n \<Rightarrow> Inr (Some n) | None \<Rightarrow> due_occurrence L cron tz b d)"
  using assms(3)[of a] assms(3)[of b] assms(4,5)
  by (auto simp: due_occurrence_ok[OF assms(1,2)] least_after_def split: option.splits)
     (smt (verit))+

text \<open>The hourly cron in UTC, on instants counted in seconds.\<close>

definition hourly :: "(unit, unit) cron_lib" where
  "hourly = \<lparr>tz_utc = (), tz_named = (\<lambda>_. None), cron_new = (\<lambda>_. Inr ()),
     next_occurrence = (\<lambda>_ _ t. Some ((t div 3600 + 1) * 3600))\<rparr>"

lemma hourly_least: "least_after (\<lambda>x. 3600 dvd x) t (next_occurrence hourly () () t)"
proof -
  obtain q r where q: "t div 3600 = q" and t: "t = 3600 * q + r" "0 \<le> r" "r < 3600"
    by (rule that[of "t div 3600" "t mod 3600"]) simp_all
  have "t < (t div 3600 + 1) * 3600" unfolding q using t by (simp add: distrib_right)
  moreover have "\<not> 3600 dvd x" if x: "t < x" "x < (t div 3600 + 1) * 3600" for x :: int
  proof
    assume "3600 dvd x"
    then obtain k where k: "x = 3600 * k" ..
    with x t have "q < k" "k < q + 1" unfolding q by (simp_all add: distrib_right)
    then show False by linarith
  qed
  ultimately show ?thesis by (simp add: hourly_def least_after_def)
qed

theorem due_windows_compose_witness:
  "due_occurrence hourly ''0 * * * *'' None 3000 9000 = Inr (Some 3600) \<and>
   due_occurrence hourly ''0 * * * *'' None 3600 9000 = Inr (Some 7200)"
proof -
  have r: "resolve_tz hourly ''0 * * * *'' None = Inr ()" "parse_cron hourly ''0 * * * *'' = Inr ()"
    by (simp_all add: resolve_tz_def parse_cron_def hourly_def)
  have "due_occurrence hourly ''0 * * * *'' None 3000 9000 =
      bindE (due_occurrence hourly ''0 * * * *'' None 3000 3600)
        (\<lambda>r. case r of Some n \<Rightarrow> Inr (Some n) | None \<Rightarrow> due_occurrence hourly ''0 * * * *'' None 3600 9000)"
    using due_windows_compose[OF r hourly_least, of 3000 3600 9000] by simp
  then show ?thesis by (simp add: due_occurrence_ok[OF r]) (simp add: hourly_def)
qed

end
