(* ===== verification/Auto_Spec.thy ===== *)
theory Auto_Spec
  imports Auto_Graph Auto_Trigger Logic_Validate
begin

text \<open>
  From a stored automation to what the engine drives: the linear spec
  (\<open>AutomationSpec::from_json\<close> of \<open>crates/catalerum-automation/src/lib.rs\<close>), the graph of a spec
  (\<open>Graph::from_spec\<close>), the audit JSON of a node (\<open>step_action_json\<close>), and the JSON helpers of the
  executor. The decoders and encoders serde derives are a parameter.
\<close>

record codec =
  dec_trigger :: "json \<Rightarrow> string + trigger"
  dec_action :: "json \<Rightarrow> string + act"
  dec_graph :: "json \<Rightarrow> string + graph"
  dec_event :: "json \<Rightarrow> trigger_event option"
  enc_trigger :: "trigger \<Rightarrow> json"
  enc_action :: "act \<Rightarrow> json"

section \<open>The linear spec\<close>

datatype spec_error =
    BadTrigger string | BadSchedule cron_error | BadQuery lerr | EmptyConnection | NoTriggers
  | BadAction string | NoActions

fun mapE :: "('a \<Rightarrow> 'e + 'b) \<Rightarrow> 'a list \<Rightarrow> 'e + 'b list" where
  "mapE f [] = Inr []"
| "mapE f (x # xs) = bindE (f x) (\<lambda>y. bindE (mapE f xs) (\<lambda>ys. Inr (y # ys)))"

definition with_err :: "('e \<Rightarrow> 'd) \<Rightarrow> 'e + 'a \<Rightarrow> 'd + 'a" where
  "with_err h r = (case r of Inl e \<Rightarrow> Inl (h e) | Inr x \<Rightarrow> Inr x)"

fun check_trigger :: "('c, 'z) cron_lib \<Rightarrow> trigger \<Rightarrow> spec_error + unit" where
  "check_trigger L (Schedule cron tz) = with_err BadSchedule (validate_cron L cron tz)"
| "check_trigger L (GraphQuery q _) = with_err BadQuery (validate q)"
| "check_trigger L (CollectEmail c _ _ _ _ _) = guardE (trim c \<noteq> []) EmptyConnection"
| "check_trigger L (CollectCalendar c _ _ _ _ _) = guardE (trim c \<noteq> []) EmptyConnection"
| "check_trigger L _ = Inr ()"

definition from_json ::
    "('c, 'z) cron_lib \<Rightarrow> codec \<Rightarrow> json list \<Rightarrow> json option \<Rightarrow> json list \<Rightarrow> spec_error + spec" where
  "from_json L K trs cond acts =
     bindE (with_err BadTrigger (mapE (dec_trigger K) trs)) (\<lambda>ts.
     bindE (guardE (ts \<noteq> []) NoTriggers) (\<lambda>_.
     bindE (forE (check_trigger L) ts) (\<lambda>_.
     bindE (with_err BadAction (mapE (dec_action K) acts)) (\<lambda>as.
     bindE (guardE (as \<noteq> []) NoActions) (\<lambda>_.
     Inr \<lparr>spec_triggers = ts, spec_condition = cond, spec_actions = as\<rparr>)))))"

definition parse_spec :: "('c, 'z) cron_lib \<Rightarrow> codec \<Rightarrow> automation \<Rightarrow> spec_error + spec" where
  "parse_spec L K a = from_json L K (triggers a) (aut_condition a) (actions a)"

definition validate_automation :: "('c, 'z) cron_lib \<Rightarrow> codec \<Rightarrow> automation \<Rightarrow> spec_error + unit" where
  "validate_automation L K a = bindE (parse_spec L K a) (\<lambda>_. Inr ())"

section \<open>The graph of a spec\<close>

definition graph_from_spec :: "codec \<Rightarrow> json option \<Rightarrow> (string + graph) option" where
  "graph_from_spec K sp =
     Option.bind sp (\<lambda>v. Option.bind (as_object v) (\<lambda>o'. map_option (dec_graph K) (map_of o' ''graph'')))"

section \<open>Audit JSON\<close>

fun insert_all :: "(string \<times> json) list \<Rightarrow> (string \<times> json) list \<Rightarrow> (string \<times> json) list" where
  "insert_all [] m = m"
| "insert_all ((k, v) # kvs) m = insert_all kvs (map_insert k v m)"

fun kind_fields :: "codec \<Rightarrow> node_kind \<Rightarrow> (string \<times> json) list" where
  "kind_fields K (NTrigger t) = [(''trigger'', enc_trigger K t)]"
| "kind_fields K (NAction a) = [(''action'', enc_action K a)]"
| "kind_fields K (NCode rt src) = [(''runtime'', JStr rt), (''source'', JStr src)]"
| "kind_fields K (NCondition rt src) = [(''runtime'', JStr rt), (''source'', JStr src)]"
| "kind_fields K (NForEach src itm idx cap) =
     [(''source'', JStr src), (''item'', JStr itm)] @
     (case idx of None \<Rightarrow> [] | Some i \<Rightarrow> [(''index'', JStr i)]) @
     (case cap of None \<Rightarrow> [] | Some m \<Rightarrow> [(''max_iterations'', JNum (PosInt m))])"
| "kind_fields K (NLoopEnd f) = [(''for_each'', JStr f)]"

definition step_fields :: "codec \<Rightarrow> node \<Rightarrow> (string \<times> json) list" where
  "step_fields K n =
     insert_all ([(''node'', JStr (node_id n)), (''kind'', JStr (tag (node_kind n)))] @ kind_fields K (node_kind n)) []"

definition step_action_json :: "codec \<Rightarrow> node \<Rightarrow> json" where
  "step_action_json K n = JObj (step_fields K n)"

section \<open>JSON helpers of the executor\<close>

fun is_truthy :: "json \<Rightarrow> bool" where
  "is_truthy JNull = False"
| "is_truthy (JBool b) = b"
| "is_truthy (JNum n) =
     (case n of PosInt k \<Rightarrow> k \<noteq> 0 | NegInt k \<Rightarrow> k \<noteq> 0
      | Float f \<Rightarrow> f64_cmp f (Finite False 0) \<noteq> Some Equal)"
| "is_truthy (JStr s) = (s \<noteq> [])"
| "is_truthy (JArr xs) = (xs \<noteq> [])"
| "is_truthy (JObj m) = (m \<noteq> [])"

definition branch_port :: "json \<Rightarrow> string" where
  "branch_port v = (if is_truthy v then ''true'' else ''false'')"

definition rerun_on_redelivery :: "act \<Rightarrow> bool" where
  "rerun_on_redelivery a =
     (case Option.bind (map_of (params a) ''rerun_on_redelivery'') as_bool of Some b \<Rightarrow> b | None \<Rightarrow> False)"

text \<open>\<open>str::parse\<close> at \<open>usize\<close>: decimal digits after an optional plus sign, below 2 to the 64.\<close>

definition parse_usize :: "string \<Rightarrow> nat option" where
  "parse_usize s =
     (let ds = (case s of CHR ''+'' # r \<Rightarrow> r | _ \<Rightarrow> s)
      in if ds \<noteq> [] \<and> list_all is_ascii_digit ds \<and> digits_val ds < 2 ^ 64
         then Some (nat (digits_val ds)) else None)"

fun resolve_segs :: "json \<Rightarrow> string list \<Rightarrow> json option" where
  "resolve_segs v [] = Some v"
| "resolve_segs (JObj m) (s # ss) = Option.bind (map_of m s) (\<lambda>v. resolve_segs v ss)"
| "resolve_segs (JArr xs) (s # ss) =
     Option.bind (parse_usize s) (\<lambda>i. if i < length xs then resolve_segs (xs ! i) ss else None)"
| "resolve_segs v (s # ss) = None"

definition resolve_path :: "json \<Rightarrow> string \<Rightarrow> json option" where
  "resolve_path ctx path = resolve_segs ctx (filter (\<lambda>s. s \<noteq> []) (split_on (CHR ''.'') path))"

definition redelivery_flag :: "json option \<Rightarrow> bool" where
  "redelivery_flag trig =
     (case Option.bind (Option.bind trig (\<lambda>t. obj_get t ''redelivery'')) as_bool of Some b \<Rightarrow> b | None \<Rightarrow> False)"

definition already_stored :: "json \<Rightarrow> bool" where
  "already_stored v \<longleftrightarrow> Option.bind (obj_get v ''newly_written'') as_bool = Some False"

end
