(* ===== verification/Auto_Exec.thy ===== *)
theory Auto_Exec
  imports Auto_Spec Effects
begin

text \<open>
  The automation engine (\<open>crates/catalerum-automation/src/executor.rs\<close>): a run of a linear or a
  graph automation as a sequence of calls on its ports, the durable journal (the trait
  \<open>ExecutionState\<close> of \<open>engine.rs\<close>), the action runner, the code runner and the clock. The state
  \<open>'w\<close> is whatever the ports read and write.
\<close>

section \<open>Ports and outcomes\<close>

datatype store_error = StoreNotFound | StoreConflict | StoreFailure string

datatype exec_error = Backend store_error | StateError string | Panicked

datatype fail_msg =
    RunnerError string | MalformedGraph string | InvalidGraph graph_error | InvalidSpec spec_error
  | GrantUnresolved nat exec_error | OutOfWindow time_window int | UnenforcedConstraints
  | NoOrder graph_error | ActionFailed nat | NodeFailed string | LoopFailed string
  | SourceNotArray string | TooManyItems string nat nat | OrdinalsExhausted | BodyFailed string nat

record outcome =
  oc_status :: step_status
  oc_output :: "json option"
  oc_error :: "string option"

type_synonym step = "fail_msg step_row"
type_synonym run = "fail_msg run_row"

record 'w ports =
  find_active_run_by_job :: "nat \<Rightarrow> nat \<Rightarrow> ('w, exec_error, nat option) eff"
  start_run :: "nat \<Rightarrow> automation \<Rightarrow> json option \<Rightarrow> nat option \<Rightarrow> ('w, exec_error, run) eff"
  get_run :: "nat \<Rightarrow> nat \<Rightarrow> ('w, exec_error, run) eff"
  list_steps :: "nat \<Rightarrow> nat \<Rightarrow> ('w, exec_error, step list) eff"
  add_step :: "nat \<Rightarrow> nat \<Rightarrow> int \<Rightarrow> json \<Rightarrow> ('w, exec_error, step) eff"
  finish_step :: "nat \<Rightarrow> nat \<Rightarrow> step_status \<Rightarrow> json option \<Rightarrow> fail_msg option \<Rightarrow> ('w, exec_error, step) eff"
  finish_run :: "nat \<Rightarrow> nat \<Rightarrow> run_status \<Rightarrow> fail_msg option \<Rightarrow> ('w, exec_error, run) eff"
  resolve_grant :: "nat \<Rightarrow> nat \<Rightarrow> ('w, exec_error, grant) eff"
  run_action :: "nat \<Rightarrow> act \<Rightarrow> json option \<Rightarrow> grant option \<Rightarrow> 'w \<Rightarrow> outcome \<times> 'w"
  run_code :: "string \<Rightarrow> string \<Rightarrow> json \<Rightarrow> nat \<Rightarrow> grant option \<Rightarrow> 'w \<Rightarrow> (string + json) \<times> 'w"
  utc_now :: "'w \<Rightarrow> int"

text \<open>A call that cannot fail out of band, and a reading of the state.\<close>

definition liftM :: "('w \<Rightarrow> 'a \<times> 'w) \<Rightarrow> ('w, 'e, 'a) eff" where
  "liftM m s = (case m s of (x, s') \<Rightarrow> (Inr x, s'))"

definition as_i32 :: "int \<Rightarrow> int" where
  "as_i32 k = (k + 2 ^ 31) mod 2 ^ 32 - 2 ^ 31"

definition null_or :: "json option \<Rightarrow> json" where
  "null_or v = (case v of Some x \<Rightarrow> x | None \<Rightarrow> JNull)"

section \<open>Steps\<close>

text \<open>The row of a step: reused from a prior attempt, or added.\<close>

definition open_step ::
    "'w ports \<Rightarrow> nat \<Rightarrow> nat \<Rightarrow> int \<Rightarrow> json \<Rightarrow> nat option \<Rightarrow> ('w, exec_error, nat) eff" where
  "open_step P ws rid ord a reuse =
     (case reuse of Some i \<Rightarrow> ret i
      | None \<Rightarrow> bindM (add_step P ws rid ord a) (\<lambda>s. ret (step_id s)))"

definition skip_step ::
    "'w ports \<Rightarrow> nat \<Rightarrow> nat \<Rightarrow> int \<Rightarrow> json \<Rightarrow> nat option \<Rightarrow> ('w, exec_error, unit) eff" where
  "skip_step P ws rid ord a reuse =
     bindM (open_step P ws rid ord a reuse) (\<lambda>i.
     bindM (finish_step P ws i Skipped None None) (\<lambda>_. ret ()))"

section \<open>Routing\<close>

text \<open>An edge is taken when its source succeeded and, for a condition, chose its port.\<close>

definition taken :: "(string \<rightharpoonup> bool) \<Rightarrow> (string \<rightharpoonup> string option) \<Rightarrow> edge \<Rightarrow> bool" where
  "taken succ branch e \<longleftrightarrow>
     (case succ (e_from e) of Some b \<Rightarrow> b | None \<Rightarrow> False) \<and>
     (case branch (e_from e) of Some (Some port) \<Rightarrow> port = from_port e | _ \<Rightarrow> True)"

fun add_inputs :: "(string \<rightharpoonup> json) \<Rightarrow> string list \<Rightarrow> (string \<times> json) list \<Rightarrow> (string \<times> json) list" where
  "add_inputs out [] m = m"
| "add_inputs out (u # us) m =
     add_inputs out us (case out u of Some v \<Rightarrow> map_insert u v m | None \<Rightarrow> m)"

definition gated_off :: "bool \<Rightarrow> node_kind \<Rightarrow> bool" where
  "gated_off redelivery k \<longleftrightarrow>
     redelivery \<and> (case k of NAction a \<Rightarrow> \<not> is_idempotent (act_kind a) \<and> \<not> rerun_on_redelivery a | _ \<Rightarrow> False)"

section \<open>Running one node\<close>

type_synonym result = "step_status \<times> json option \<times> fail_msg option"

definition of_code :: "string + json \<Rightarrow> result" where
  "of_code r = (case r of Inr v \<Rightarrow> (Succeeded, Some v, None) | Inl e \<Rightarrow> (Failed, None, Some (RunnerError e)))"

definition of_outcome :: "outcome \<Rightarrow> result" where
  "of_outcome r = (oc_status r, oc_output r, map_option RunnerError (oc_error r))"

definition dispatch ::
    "'w ports \<Rightarrow> nat \<Rightarrow> grant option \<Rightarrow> json \<Rightarrow> node_kind \<Rightarrow> ('w, exec_error, result) eff" where
  "dispatch P ws grant input k =
     (case k of
        NAction a \<Rightarrow> bindM (liftM (run_action P ws a (Some input) grant)) (\<lambda>r. ret (of_outcome r))
      | NCode rt src \<Rightarrow> bindM (liftM (run_code P rt src input ws grant)) (\<lambda>r. ret (of_code r))
      | NCondition rt src \<Rightarrow> bindM (liftM (run_code P rt src input ws grant)) (\<lambda>r. ret (of_code r))
      | _ \<Rightarrow> fail Panicked)"

section \<open>Loop regions\<close>

definition REGION_ORD_BASE :: int where "REGION_ORD_BASE = 1000000"

definition REGION_ORD_STRIDE :: int where
  "REGION_ORD_STRIDE = int (MAX_LOOP_ITERATIONS * MAX_LOOP_BODY_NODES)"

definition body_ord :: "nat \<Rightarrow> nat \<Rightarrow> nat \<Rightarrow> int" where
  "body_ord region_index i pos =
     REGION_ORD_BASE + int region_index * REGION_ORD_STRIDE + int i * int MAX_LOOP_BODY_NODES + int pos"

record local =
  l_output :: "string \<rightharpoonup> json"
  l_branch :: "string \<rightharpoonup> string option"
  l_succ :: "string \<rightharpoonup> bool"

definition no_local :: local where
  "no_local = \<lparr>l_output = Map.empty, l_branch = Map.empty, l_succ = Map.empty\<rparr>"

record loop_ctx =
  lc_ws :: nat
  lc_run :: nat
  lc_graph :: graph
  lc_region :: region
  lc_index :: nat
  lc_inputs :: "(string \<times> json) list"
  lc_prior :: "int \<rightharpoonup> step"
  lc_grant :: "grant option"
  lc_trigger :: "json option"
  lc_redelivery :: bool

definition is_condition :: "node_kind \<Rightarrow> bool" where
  "is_condition k \<longleftrightarrow> (case k of NCondition _ _ \<Rightarrow> True | _ \<Rightarrow> False)"

definition restore_local :: "string \<Rightarrow> node_kind \<Rightarrow> json option \<Rightarrow> local \<Rightarrow> local" where
  "restore_local b k out l =
     (let l = l\<lparr>l_succ := (l_succ l)(b \<mapsto> True)\<rparr>
      in case out of None \<Rightarrow> l
         | Some v \<Rightarrow> l\<lparr>l_branch := (if is_condition k then (l_branch l)(b \<mapsto> Some (branch_port v)) else l_branch l),
                      l_output := (l_output l)(b \<mapsto> v)\<rparr>)"

definition body_active :: "loop_ctx \<Rightarrow> string \<Rightarrow> local \<Rightarrow> bool" where
  "body_active c b l \<longleftrightarrow>
     list_ex (\<lambda>e. e_from e = for_each (lc_region c) \<and> e_to e = b) (edges (lc_graph c)) \<or>
     list_ex (\<lambda>e. e_to e = b \<and> e_from e \<in> set (reg_body (lc_region c)) \<and> taken (l_succ l) (l_branch l) e)
       (edges (lc_graph c))"

definition body_step_json :: "codec \<Rightarrow> loop_ctx \<Rightarrow> nat \<Rightarrow> node \<Rightarrow> json" where
  "body_step_json K c i n =
     JObj (insert_all [(''iteration'', JNum (PosInt i)), (''for_each'', JStr (for_each (lc_region c)))]
       (step_fields K n))"

definition body_input :: "loop_ctx \<Rightarrow> nat \<Rightarrow> json \<Rightarrow> string \<Rightarrow> local \<Rightarrow> json" where
  "body_input c i element b l =
     JObj (insert_all
       ([(''trigger'', null_or (lc_trigger c)),
         (''inputs'', JObj (add_inputs (l_output l) (upstream (lc_graph c) b) (lc_inputs c))),
         (''redelivery'', JBool (lc_redelivery c)),
         (item (lc_region c), element)] @
        (case index (lc_region c) of None \<Rightarrow> [] | Some ix \<Rightarrow> [(ix, JNum (PosInt i))])) [])"

text \<open>One body node in one iteration: a failure message, or the iteration's bookkeeping after it.\<close>

definition body_node ::
    "'w ports \<Rightarrow> codec \<Rightarrow> loop_ctx \<Rightarrow> nat \<Rightarrow> json \<Rightarrow> nat \<Rightarrow> string \<Rightarrow> local \<Rightarrow> ('w, exec_error, fail_msg + local) eff" where
  "body_node P K c i element pos b l =
     (case lookup_node (lc_graph c) b of
        None \<Rightarrow> ret (Inr l)
      | Some n \<Rightarrow>
          if body_ord (lc_index c) i pos > 2 ^ 31 - 1 then ret (Inl OrdinalsExhausted)
          else
            (let ord = body_ord (lc_index c) i pos;
                 prev = lc_prior c ord;
                 done = map_option step_status prev
             in if done = Some Succeeded then ret (Inr (restore_local b (node_kind n) (Option.bind prev step_output) l))
                else if done = Some Skipped then ret (Inr l)
                else if \<not> body_active c b l \<or> gated_off (lc_redelivery c) (node_kind n) then
                  bindM (skip_step P (lc_ws c) (lc_run c) ord (body_step_json K c i n) (map_option step_id prev))
                    (\<lambda>_. ret (Inr l))
                else
                  bindM (open_step P (lc_ws c) (lc_run c) ord (body_step_json K c i n) (map_option step_id prev)) (\<lambda>sid.
                  bindM (dispatch P (lc_ws c) (lc_grant c) (body_input c i element b l) (node_kind n)) (\<lambda>(st, out, err).
                  bindM (finish_step P (lc_ws c) sid st out err) (\<lambda>_.
                  ret (case st of
                         Succeeded \<Rightarrow> Inr (restore_local b (node_kind n) out l)
                       | Failed \<Rightarrow> Inl (case err of Some m \<Rightarrow> m | None \<Rightarrow> BodyFailed b i)
                       | _ \<Rightarrow> Inr l))))))"

fun run_body ::
    "'w ports \<Rightarrow> codec \<Rightarrow> loop_ctx \<Rightarrow> nat \<Rightarrow> json \<Rightarrow> nat \<Rightarrow> string list \<Rightarrow> local \<Rightarrow> ('w, exec_error, fail_msg + local) eff" where
  "run_body P K c i element pos [] l = ret (Inr l)"
| "run_body P K c i element pos (b # bs) l =
     bindM (body_node P K c i element pos b l) (\<lambda>r.
       case r of Inl m \<Rightarrow> ret (Inl m) | Inr l' \<Rightarrow> run_body P K c i element (Suc pos) bs l')"

definition iteration_result :: "loop_ctx \<Rightarrow> local \<Rightarrow> json" where
  "iteration_result c l =
     JObj (add_inputs (l_output l)
       (map e_from (filter (\<lambda>e. e_to e = loop_end (lc_region c)) (edges (lc_graph c)))) [])"

fun run_items ::
    "'w ports \<Rightarrow> codec \<Rightarrow> loop_ctx \<Rightarrow> nat \<Rightarrow> json list \<Rightarrow> json list \<Rightarrow> ('w, exec_error, fail_msg + json list) eff" where
  "run_items P K c i [] results = ret (Inr results)"
| "run_items P K c i (x # xs) results =
     bindM (run_body P K c i x 0 (reg_body (lc_region c)) no_local) (\<lambda>r.
       case r of Inl m \<Rightarrow> ret (Inl m)
       | Inr l \<Rightarrow> run_items P K c (Suc i) xs (results @ [iteration_result c l]))"

definition loop_items :: "region \<Rightarrow> json \<Rightarrow> fail_msg + json list" where
  "loop_items r input =
     bindE (case resolve_path input (source r) of
              Some (JArr xs) \<Rightarrow> Inr xs
            | None \<Rightarrow> Inr []
            | Some JNull \<Rightarrow> Inr []
            | Some _ \<Rightarrow> Inl (SourceNotArray (source r))) (\<lambda>xs.
     let cap = min (case max_iterations r of Some m \<Rightarrow> m | None \<Rightarrow> MAX_LOOP_ITERATIONS) MAX_LOOP_ITERATIONS
     in bindE (guardE (length xs \<le> cap) (TooManyItems (source r) (length xs) cap)) (\<lambda>_. Inr xs))"

text \<open>The results array of a loop, or its failure; the summary is the number of iterations.\<close>

definition run_for_each ::
    "'w ports \<Rightarrow> codec \<Rightarrow> loop_ctx \<Rightarrow> json \<Rightarrow> ('w, exec_error, fail_msg + json list) eff" where
  "run_for_each P K c input =
     (case loop_items (lc_region c) input of
        Inl m \<Rightarrow> ret (Inl m)
      | Inr xs \<Rightarrow>
          run_items P K (c\<lparr>lc_inputs := (case Option.bind (obj_get input ''inputs'') as_object of
                                          Some m \<Rightarrow> m | None \<Rightarrow> [])\<rparr>) 0 xs [])"

end
