(* ===== verification/Auto_Engine.thy ===== *)
theory Auto_Engine
  imports Auto_Exec
begin

text \<open>
  The two run loops of the automation engine and its entry point
  (\<open>crates/catalerum-automation/src/executor.rs\<close>, \<open>engine.rs\<close>): the walk of a graph in
  topological order, the linear list of actions under a condition, and \<open>execute_for_job\<close>, which
  opens or resumes the run, resolves its grant and gates it before either.
\<close>

section \<open>The graph walk\<close>

record flow =
  fl_output :: "string \<rightharpoonup> json"
  fl_branch :: "string \<rightharpoonup> string option"
  fl_succ :: "string \<rightharpoonup> bool"
  fl_redelivery :: bool
  fl_prior :: "int \<rightharpoonup> step"
  fl_failure :: "fail_msg option"

record graph_ctx =
  gc_ws :: nat
  gc_run :: nat
  gc_graph :: graph
  gc_regions :: "region list"
  gc_trigger :: "json option"
  gc_event :: "trigger_event option"
  gc_grant :: "grant option"

definition edge_taken :: "graph_ctx \<Rightarrow> string \<Rightarrow> flow \<Rightarrow> bool" where
  "edge_taken c i fl \<longleftrightarrow>
     list_ex (\<lambda>e. e_to e = i \<and> taken (fl_succ fl) (fl_branch fl) e) (edges (gc_graph c))"

definition is_entry :: "graph_ctx \<Rightarrow> node \<Rightarrow> bool" where
  "is_entry c n \<longleftrightarrow>
     (case node_kind n of
        NTrigger t \<Rightarrow> (case gc_event c of Some ev \<Rightarrow> matches t ev | None \<Rightarrow> True)
      | _ \<Rightarrow> False)"

definition region_internal :: "graph_ctx \<Rightarrow> string set" where
  "region_internal c = (\<Union>r\<in>set (gc_regions c). set (reg_body r) \<union> {loop_end r})"

definition node_inputs :: "graph_ctx \<Rightarrow> string \<Rightarrow> flow \<Rightarrow> json" where
  "node_inputs c i fl = JObj (add_inputs (fl_output fl) (upstream (gc_graph c) i) [])"

definition loop_input :: "graph_ctx \<Rightarrow> string \<Rightarrow> flow \<Rightarrow> json" where
  "loop_input c i fl =
     JObj (insert_all [(''trigger'', null_or (gc_trigger c)), (''inputs'', node_inputs c i fl)] [])"

definition node_input :: "graph_ctx \<Rightarrow> string \<Rightarrow> flow \<Rightarrow> json" where
  "node_input c i fl =
     JObj (insert_all [(''trigger'', null_or (gc_trigger c)), (''inputs'', node_inputs c i fl),
                       (''redelivery'', JBool (fl_redelivery fl))] [])"

text \<open>The last region of a head wins, as in a hash map built from the regions in order.\<close>

definition region_by_head :: "graph_ctx \<Rightarrow> string \<Rightarrow> (nat \<times> region) option" where
  "region_by_head c i = map_of (rev (map (\<lambda>(k, r). (for_each r, (k, r))) (enumerate 0 (gc_regions c)))) i"

definition loop_summary :: "json list \<Rightarrow> json" where
  "loop_summary xs = JObj [(''iterations'', JNum (PosInt (length xs)))]"

definition record_loop :: "string \<Rightarrow> region \<Rightarrow> fail_msg + json list \<Rightarrow> flow \<Rightarrow> flow" where
  "record_loop i r res fl =
     (case res of
        Inl m \<Rightarrow> fl\<lparr>fl_failure := Some m\<rparr>
      | Inr xs \<Rightarrow> fl\<lparr>fl_succ := (fl_succ fl)(i \<mapsto> True, loop_end r \<mapsto> True),
                    fl_output := (fl_output fl)(i \<mapsto> loop_summary xs, loop_end r \<mapsto> JArr xs)\<rparr>)"

definition loop_node ::
    "'w ports \<Rightarrow> codec \<Rightarrow> graph_ctx \<Rightarrow> int \<Rightarrow> node \<Rightarrow> flow \<Rightarrow> ('w, exec_error, flow) eff" where
  "loop_node P K c ord n fl =
     (case region_by_head c (node_id n) of
        None \<Rightarrow> fail Panicked
      | Some (ri, r) \<Rightarrow>
          (let active = edge_taken c (node_id n) fl;
               prev = fl_prior fl ord;
               fl1 = fl\<lparr>fl_prior := (fl_prior fl)(ord := None)\<rparr>
           in if map_option step_status prev = Some Skipped then ret fl1
              else if \<not> active then
                bindM (skip_step P (gc_ws c) (gc_run c) ord (step_action_json K n) (map_option step_id prev))
                  (\<lambda>_. ret fl1)
              else
                bindM (open_step P (gc_ws c) (gc_run c) ord (step_action_json K n) (map_option step_id prev)) (\<lambda>sid.
                bindM (run_for_each P K
                         \<lparr>lc_ws = gc_ws c, lc_run = gc_run c, lc_graph = gc_graph c, lc_region = r, lc_index = ri,
                          lc_inputs = [], lc_prior = fl_prior fl1, lc_grant = gc_grant c,
                          lc_trigger = gc_trigger c, lc_redelivery = fl_redelivery fl1\<rparr>
                         (loop_input c (node_id n) fl1)) (\<lambda>res.
                bindM (case res of
                         Inr xs \<Rightarrow> finish_step P (gc_ws c) sid Succeeded (Some (loop_summary xs)) None
                       | Inl m \<Rightarrow> finish_step P (gc_ws c) sid Failed None (Some m)) (\<lambda>_.
                ret (record_loop (node_id n) r res fl1))))))"

text \<open>A succeeded node publishes its output, latches a redelivery, and fixes a condition's branch.\<close>

definition record_node :: "string \<Rightarrow> node_kind \<Rightarrow> json option \<Rightarrow> flow \<Rightarrow> flow" where
  "record_node i k out fl =
     (let fl = fl\<lparr>fl_succ := (fl_succ fl)(i \<mapsto> True)\<rparr>
      in case out of None \<Rightarrow> fl
         | Some v \<Rightarrow> fl\<lparr>fl_branch := (if is_condition k then (fl_branch fl)(i \<mapsto> Some (branch_port v)) else fl_branch fl),
                       fl_redelivery := (fl_redelivery fl \<or> already_stored v),
                       fl_output := (fl_output fl)(i \<mapsto> v)\<rparr>)"

definition dispatch_node ::
    "'w ports \<Rightarrow> graph_ctx \<Rightarrow> string \<Rightarrow> node_kind \<Rightarrow> flow \<Rightarrow> ('w, exec_error, result) eff" where
  "dispatch_node P c i k fl =
     (case k of
        NTrigger _ \<Rightarrow> ret (Succeeded, Some (null_or (gc_trigger c)), None)
      | _ \<Rightarrow> dispatch P (gc_ws c) (gc_grant c) (node_input c i fl) k)"

definition outer_node ::
    "'w ports \<Rightarrow> codec \<Rightarrow> graph_ctx \<Rightarrow> int \<Rightarrow> node \<Rightarrow> flow \<Rightarrow> ('w, exec_error, flow) eff" where
  "outer_node P K c ord n fl =
     (let i = node_id n; k = node_kind n;
          active = is_entry c n \<or> edge_taken c i fl;
          prev = fl_prior fl ord;
          fl1 = fl\<lparr>fl_prior := (fl_prior fl)(ord := None)\<rparr>;
          done = map_option step_status prev
      in if done = Some Succeeded then ret (record_node i k (Option.bind prev step_output) fl1)
         else if done = Some Skipped then ret fl1
         else if \<not> active \<or> gated_off (fl_redelivery fl) k then
           bindM (skip_step P (gc_ws c) (gc_run c) ord (step_action_json K n) (map_option step_id prev))
             (\<lambda>_. ret fl1)
         else
           bindM (open_step P (gc_ws c) (gc_run c) ord (step_action_json K n) (map_option step_id prev)) (\<lambda>sid.
           bindM (dispatch_node P c i k fl1) (\<lambda>(st, out, err).
           bindM (finish_step P (gc_ws c) sid st out err) (\<lambda>_.
           ret (case st of
                  Succeeded \<Rightarrow> record_node i k out fl1
                | Failed \<Rightarrow> fl1\<lparr>fl_failure := Some (case err of Some m \<Rightarrow> m | None \<Rightarrow> NodeFailed i)\<rparr>
                | _ \<Rightarrow> fl1)))))"

definition visit ::
    "'w ports \<Rightarrow> codec \<Rightarrow> graph_ctx \<Rightarrow> nat \<Rightarrow> string \<Rightarrow> flow \<Rightarrow> ('w, exec_error, flow) eff" where
  "visit P K c k i fl =
     (case lookup_node (gc_graph c) i of
        None \<Rightarrow> ret fl
      | Some n \<Rightarrow>
          if i \<in> region_internal c then ret fl
          else if tag (node_kind n) = ''for_each'' then loop_node P K c (as_i32 (int k)) n fl
          else outer_node P K c (as_i32 (int k)) n fl)"

fun visit_all ::
    "'w ports \<Rightarrow> codec \<Rightarrow> graph_ctx \<Rightarrow> nat \<Rightarrow> string list \<Rightarrow> flow \<Rightarrow> ('w, exec_error, flow) eff" where
  "visit_all P K c k [] fl = ret fl"
| "visit_all P K c k (i # is) fl =
     bindM (visit P K c k i fl) (\<lambda>fl'.
       if fl_failure fl' \<noteq> None then ret fl' else visit_all P K c (Suc k) is fl')"

definition finish_with ::
    "'w ports \<Rightarrow> nat \<Rightarrow> nat \<Rightarrow> fail_msg option \<Rightarrow> ('w, exec_error, run) eff" where
  "finish_with P ws rid failure =
     finish_run P ws rid (if failure \<noteq> None then RunFailed else RunSucceeded) failure"

definition run_graph ::
    "'w ports \<Rightarrow> codec \<Rightarrow> nat \<Rightarrow> nat \<Rightarrow> graph \<Rightarrow> json option \<Rightarrow> grant option \<Rightarrow> (int \<rightharpoonup> step) \<Rightarrow>
     ('w, exec_error, run) eff" where
  "run_graph P K ws rid g trig grant prior =
     (case topo_order g of
        Inl e \<Rightarrow> finish_run P ws rid RunFailed (Some (NoOrder e))
      | Inr order \<Rightarrow>
          bindM (visit_all P K
                   \<lparr>gc_ws = ws, gc_run = rid, gc_graph = g,
                    gc_regions = (case for_each_regions g of Inr rs \<Rightarrow> rs | Inl _ \<Rightarrow> []),
                    gc_trigger = trig, gc_event = Option.bind trig (dec_event K), gc_grant = grant\<rparr>
                   0 order
                   \<lparr>fl_output = Map.empty, fl_branch = Map.empty, fl_succ = Map.empty,
                    fl_redelivery = redelivery_flag trig, fl_prior = prior, fl_failure = None\<rparr>)
            (\<lambda>fl. finish_with P ws rid (fl_failure fl)))"

section \<open>The linear loop\<close>

definition eval_condition ::
    "'w ports \<Rightarrow> json \<Rightarrow> json option \<Rightarrow> nat \<Rightarrow> grant option \<Rightarrow> 'w \<Rightarrow> (string + bool) \<times> 'w" where
  "eval_condition P cond trig ws grant w =
     (case (Option.bind (obj_get cond ''runtime'') as_str, Option.bind (obj_get cond ''source'') as_str) of
        (Some rt, Some src) \<Rightarrow>
          (case run_code P rt src (JObj (insert_all [(''trigger'', null_or trig), (''inputs'', JObj [])] [])) ws grant w of
             (Inl e, w') \<Rightarrow> (Inl e, w')
           | (Inr v, w') \<Rightarrow> (Inr (is_truthy v), w'))
      | _ \<Rightarrow> (Inr (is_truthy cond), w))"

record linear_ctx =
  ln_ws :: nat
  ln_run :: nat
  ln_trigger :: "json option"
  ln_grant :: "grant option"
  ln_pass :: bool

fun run_actions ::
    "'w ports \<Rightarrow> codec \<Rightarrow> linear_ctx \<Rightarrow> nat \<Rightarrow> act list \<Rightarrow> (int \<rightharpoonup> step) \<Rightarrow> bool \<Rightarrow> ('w, exec_error, fail_msg option) eff" where
  "run_actions P K c k [] prior redelivery = ret None"
| "run_actions P K c k (a # as) prior redelivery =
     (let ord = as_i32 (int k);
          prev = prior ord;
          prior' = prior(ord := None);
          done = map_option step_status prev;
          reuse = map_option step_id prev
      in if done = Some Succeeded \<or> done = Some Skipped then run_actions P K c (Suc k) as prior' redelivery
         else if \<not> ln_pass c \<or> gated_off redelivery (NAction a) then
           bindM (skip_step P (ln_ws c) (ln_run c) ord (enc_action K a) reuse)
             (\<lambda>_. run_actions P K c (Suc k) as prior' redelivery)
         else
           bindM (open_step P (ln_ws c) (ln_run c) ord (enc_action K a) reuse) (\<lambda>sid.
           bindM (liftM (run_action P (ln_ws c) a (ln_trigger c) (ln_grant c))) (\<lambda>r.
           bindM (finish_step P (ln_ws c) sid (oc_status r) (oc_output r) (map_option RunnerError (oc_error r))) (\<lambda>_.
           if oc_status r = Failed
           then ret (Some (case oc_error r of Some m \<Rightarrow> RunnerError m | None \<Rightarrow> ActionFailed k))
           else run_actions P K c (Suc k) as prior'
                  (redelivery \<or> (case oc_output r of Some v \<Rightarrow> already_stored v | None \<Rightarrow> False))))))"

definition run_linear ::
    "'w ports \<Rightarrow> codec \<Rightarrow> nat \<Rightarrow> nat \<Rightarrow> spec \<Rightarrow> json option \<Rightarrow> grant option \<Rightarrow> (int \<rightharpoonup> step) \<Rightarrow>
     ('w, exec_error, run) eff" where
  "run_linear P K ws rid sp trig grant prior =
     bindM (case spec_condition sp of
              None \<Rightarrow> ret (Inr True)
            | Some cond \<Rightarrow> liftM (eval_condition P cond trig ws grant)) (\<lambda>pass.
     case pass of
       Inl e \<Rightarrow> finish_run P ws rid RunFailed (Some (RunnerError e))
     | Inr ok \<Rightarrow>
         bindM (run_actions P K \<lparr>ln_ws = ws, ln_run = rid, ln_trigger = trig, ln_grant = grant, ln_pass = ok\<rparr>
                  0 (spec_actions sp) prior (redelivery_flag trig))
           (\<lambda>failure. finish_with P ws rid failure))"

section \<open>The entry point\<close>

definition by_ordinal :: "step list \<Rightarrow> int \<rightharpoonup> step" where
  "by_ordinal ss = map_of (rev (map (\<lambda>s. (ordinal s, s)) ss))"

definition open_run ::
    "'w ports \<Rightarrow> nat \<Rightarrow> automation \<Rightarrow> json option \<Rightarrow> nat option \<Rightarrow>
     ('w, exec_error, nat \<times> nat option \<times> (int \<rightharpoonup> step)) eff" where
  "open_run P ws a trig job =
     bindM (case job of Some j \<Rightarrow> find_active_run_by_job P ws j | None \<Rightarrow> ret None) (\<lambda>resumed.
     case resumed of
       Some rid \<Rightarrow>
         bindM (get_run P ws rid) (\<lambda>r.
         bindM (list_steps P ws rid) (\<lambda>ss. ret (rid, run_grant r, by_ordinal ss)))
     | None \<Rightarrow>
         bindM (start_run P ws a trig job) (\<lambda>r. ret (run_id r, run_grant r, Map.empty)))"

text \<open>What a run drives: its graph when the spec holds one, else the linear spec.\<close>

definition plan_of :: "('c, 'z) cron_lib \<Rightarrow> codec \<Rightarrow> automation \<Rightarrow> fail_msg + (graph + spec)" where
  "plan_of L K a =
     (case graph_from_spec K (aut_spec a) of
        Some (Inl e) \<Rightarrow> Inl (MalformedGraph e)
      | Some (Inr g) \<Rightarrow>
          (case validate_graph g of Inl e \<Rightarrow> Inl (InvalidGraph e) | Inr _ \<Rightarrow> Inr (Inl g))
      | None \<Rightarrow>
          (case parse_spec L K a of Inl e \<Rightarrow> Inl (InvalidSpec e) | Inr sp \<Rightarrow> Inr (Inr sp)))"

text \<open>The authority of a run: its recorded grant, resolved, inside its time window, and without a
  constraint the engine cannot enforce.\<close>

definition authority ::
    "'w ports \<Rightarrow> nat \<Rightarrow> nat option \<Rightarrow> 'w \<Rightarrow> (fail_msg + grant option) \<times> 'w" where
  "authority P ws gid w =
     (case gid of
        None \<Rightarrow> (Inr None, w)
      | Some i \<Rightarrow>
          (case resolve_grant P ws i w of
             (Inl e, w') \<Rightarrow> (Inl (GrantUnresolved i e), w')
           | (Inr g, w') \<Rightarrow>
               (case time_window (grant_constraints g) of
                  Some win \<Rightarrow>
                    if \<not> window_contains win (utc_now P w') then (Inl (OutOfWindow win (utc_now P w')), w')
                    else if has_unenforced (grant_constraints g) then (Inl UnenforcedConstraints, w')
                    else (Inr (Some g), w')
                | None \<Rightarrow>
                    if has_unenforced (grant_constraints g) then (Inl UnenforcedConstraints, w')
                    else (Inr (Some g), w'))))"

definition execute_for_job ::
    "'w ports \<Rightarrow> ('c, 'z) cron_lib \<Rightarrow> codec \<Rightarrow> nat \<Rightarrow> automation \<Rightarrow> json option \<Rightarrow> nat option \<Rightarrow>
     ('w, exec_error, run) eff" where
  "execute_for_job P L K ws a trig job =
     bindM (open_run P ws a trig job) (\<lambda>(rid, gid, prior).
     case plan_of L K a of
       Inl m \<Rightarrow> finish_run P ws rid RunFailed (Some m)
     | Inr plan \<Rightarrow>
         bindM (liftM (authority P ws gid)) (\<lambda>auth.
         case auth of
           Inl m \<Rightarrow> finish_run P ws rid RunFailed (Some m)
         | Inr grant \<Rightarrow>
             (case plan of
                Inl g \<Rightarrow> run_graph P K ws rid g trig grant prior
              | Inr sp \<Rightarrow> run_linear P K ws rid sp trig grant prior)))"

definition execute ::
    "'w ports \<Rightarrow> ('c, 'z) cron_lib \<Rightarrow> codec \<Rightarrow> nat \<Rightarrow> automation \<Rightarrow> json option \<Rightarrow> ('w, exec_error, run) eff" where
  "execute P L K ws a trig = execute_for_job P L K ws a trig None"

end
