(* ===== verification/Auto_Calls.thy ===== *)
theory Auto_Calls
  imports Auto_Engine
begin

text \<open>
  The side effects of a run, whatever journal and runners it is given: ports are wrapped so that
  every call of the action and the code runner is recorded, and two rules per operation follow
  which calls a computation may make. From them: nothing runs without its authority, every call
  carries the run's grant, and a redelivery re-runs only what may be re-run.
\<close>

section \<open>Recording the calls\<close>

datatype call = CallAction act "grant option" | CallCode "grant option"

definition on_fst :: "('w, 'e, 'a) eff \<Rightarrow> ('w \<times> 'c, 'e, 'a) eff" where
  "on_fst m s = (case m (fst s) of (r, w') \<Rightarrow> (r, (w', snd s)))"

definition watch :: "'w ports \<Rightarrow> ('w \<times> call list) ports" where
  "watch P = \<lparr>
     find_active_run_by_job = (\<lambda>ws j. on_fst (find_active_run_by_job P ws j)),
     start_run = (\<lambda>ws a t j. on_fst (start_run P ws a t j)),
     get_run = (\<lambda>ws i. on_fst (get_run P ws i)),
     list_steps = (\<lambda>ws i. on_fst (list_steps P ws i)),
     add_step = (\<lambda>ws i ord a. on_fst (add_step P ws i ord a)),
     finish_step = (\<lambda>ws i st out err. on_fst (finish_step P ws i st out err)),
     finish_run = (\<lambda>ws i st err. on_fst (finish_run P ws i st err)),
     resolve_grant = (\<lambda>ws i. on_fst (resolve_grant P ws i)),
     run_action = (\<lambda>ws a t g (w, cs). case run_action P ws a t g w of (r, w') \<Rightarrow> (r, (w', cs @ [CallAction a g]))),
     run_code = (\<lambda>rt src v ws g (w, cs). case run_code P rt src v ws g w of (r, w') \<Rightarrow> (r, (w', cs @ [CallCode g]))),
     utc_now = (\<lambda>s. utc_now P (fst s))\<rparr>"

text \<open>\<open>m\<close> makes only calls allowed by \<open>Q\<close>, and a value it returns satisfies \<open>R\<close>.\<close>

definition calls :: "(call \<Rightarrow> bool) \<Rightarrow> ('w \<times> call list, 'e, 'a) eff \<Rightarrow> ('a \<Rightarrow> bool) \<Rightarrow> bool" where
  "calls Q m R \<longleftrightarrow> (\<forall>s r s'. m s = (r, s') \<longrightarrow>
     (\<exists>new. snd s' = snd s @ new \<and> list_all Q new) \<and> (\<forall>x. r = Inr x \<longrightarrow> R x))"

lemma callsD:
  assumes "calls Q m R" "m s = (r, s')"
  shows "\<exists>new. snd s' = snd s @ new \<and> list_all Q new" "r = Inr x \<Longrightarrow> R x"
  using assms(1)[unfolded calls_def, rule_format, OF assms(2)] by auto

lemma callsI:
  assumes "\<And>s r s'. m s = (r, s') \<Longrightarrow> \<exists>new. snd s' = snd s @ new \<and> list_all Q new"
    and "\<And>s x s'. m s = (Inr x, s') \<Longrightarrow> R x"
  shows "calls Q m R"
  unfolding calls_def using assms by blast

named_theorems quiet

lemma calls_ret: "R x \<Longrightarrow> calls Q (ret x) R"
  by (simp add: calls_def)

lemma calls_fail: "calls Q (fail e) R"
  by (simp add: calls_def)

lemma calls_weaken: "calls Q m R \<Longrightarrow> (\<And>x. R x \<Longrightarrow> R' x) \<Longrightarrow> calls Q m R'"
  by (rule callsI) (auto dest: callsD)

lemma calls_bind:
  assumes "calls Q m S" "\<And>x. S x \<Longrightarrow> calls Q (f x) R"
  shows "calls Q (bindM m f) R"
proof (rule callsI)
  fix s r s' assume run: "bindM m f s = (r, s')"
  obtain r1 s1 where m: "m s = (r1, s1)" by (rule prod.exhaust)
  from callsD(1)[OF assms(1) m] obtain new1 where n1: "snd s1 = snd s @ new1" "list_all Q new1" by blast
  show "\<exists>new. snd s' = snd s @ new \<and> list_all Q new"
  proof (cases r1)
    case (Inl e)
    with run m n1 show ?thesis by auto
  next
    case (Inr x)
    with run m have "f x s1 = (r, s')" by simp
    from callsD(1)[OF assms(2)[OF callsD(2)[OF assms(1) m Inr]] this] obtain new2
      where "snd s' = snd s1 @ new2" "list_all Q new2" by blast
    with n1 show ?thesis by (intro exI[of _ "new1 @ new2"]) simp
  qed
next
  fix s x s' assume "bindM m f s = (Inr x, s')"
  then obtain y s1 where "m s = (Inr y, s1)" "f y s1 = (Inr x, s')" by (auto simp: bindM_Inr)
  then show "R x" using callsD(2)[OF assms(2)] callsD(2)[OF assms(1)] by blast
qed

lemma calls_on_fst: "calls Q (on_fst m) (\<lambda>_. True)"
  by (auto simp: calls_def on_fst_def split: prod.splits)

lemma calls_ports [quiet]:
  "calls Q (find_active_run_by_job (watch P) ws j) (\<lambda>_. True)"
  "calls Q (start_run (watch P) ws a t jo) (\<lambda>_. True)"
  "calls Q (get_run (watch P) ws i) (\<lambda>_. True)"
  "calls Q (list_steps (watch P) ws i) (\<lambda>_. True)"
  "calls Q (add_step (watch P) ws i ord v) (\<lambda>_. True)"
  "calls Q (finish_step (watch P) ws i st out err) (\<lambda>_. True)"
  "calls Q (finish_run (watch P) ws i rst err) (\<lambda>_. True)"
  "calls Q (resolve_grant (watch P) ws i) (\<lambda>_. True)"
  by (simp_all add: watch_def calls_on_fst)

lemma calls_action:
  "Q (CallAction a g) \<Longrightarrow> calls Q (liftM (run_action (watch P) ws a t g)) (\<lambda>_. True)"
  by (auto simp: calls_def liftM_def watch_def split: prod.splits)

lemma calls_code:
  "Q (CallCode g) \<Longrightarrow> calls Q (liftM (run_code (watch P) rt src v ws g)) (\<lambda>_. True)"
  by (auto simp: calls_def liftM_def watch_def split: prod.splits)

lemma calls_open: "calls Q (open_step (watch P) ws rid ord a reuse) (\<lambda>_. True)"
  by (auto simp: open_step_def intro!: calls_ret quiet calls_bind[OF quiet(5)] split: option.splits)

lemma calls_skip: "calls Q (skip_step (watch P) ws rid ord a reuse) (\<lambda>_. True)"
  unfolding skip_step_def by (rule calls_bind[OF calls_open]) (rule calls_bind[OF quiet(6)], rule calls_ret, simp)

section \<open>What a node may call\<close>

text \<open>The calls a node of a kind may make under a grant, gated by the redelivery latch.\<close>

definition permitted :: "bool \<Rightarrow> grant option \<Rightarrow> call \<Rightarrow> bool" where
  "permitted redelivery g c \<longleftrightarrow>
     (case c of CallCode g' \<Rightarrow> g' = g
      | CallAction a g' \<Rightarrow> g' = g \<and> (redelivery \<longrightarrow> is_idempotent (act_kind a) \<or> rerun_on_redelivery a))"

lemma permitted_mono: "permitted e g c \<Longrightarrow> (d \<longrightarrow> e) \<Longrightarrow> permitted d g c"
  by (cases c) (auto simp: permitted_def)

lemma calls_dispatch:
  "\<not> gated_off d k \<Longrightarrow> calls (permitted d g) (dispatch (watch P) ws g input k) (\<lambda>_. True)"
  unfolding dispatch_def
  by (cases k)
    (auto intro!: calls_fail calls_bind[OF calls_action] calls_bind[OF calls_code] calls_ret
      simp: permitted_def gated_off_def)

lemma calls_mono:
  assumes "calls Q m R" "\<And>c. Q c \<Longrightarrow> Q' c"
  shows "calls Q' m R"
proof (rule callsI)
  fix s r s' assume "m s = (r, s')"
  from callsD(1)[OF assms(1) this] show "\<exists>new. snd s' = snd s @ new \<and> list_all Q' new"
    using assms(2) by (auto simp: list_all_iff)
next
  fix s x s' assume "m s = (Inr x, s')"
  from callsD(2)[OF assms(1) this refl] show "R x" .
qed

lemma calls_any: "calls Q m R \<Longrightarrow> calls Q m (\<lambda>_. True)"
  by (rule calls_weaken) auto

lemma calls_finish: "calls Q (bindM (finish_step (watch P) ws i st out err) (\<lambda>_. ret x)) (\<lambda>y. y = x)"
  by (rule calls_bind[OF quiet(6)]) (simp add: calls_ret)

section \<open>Loops\<close>

lemma calls_body_node:
  "calls (permitted (lc_redelivery c) (lc_grant c)) (body_node (watch P) K c i x pos b l) (\<lambda>_. True)"
proof (cases "lookup_node (lc_graph c) b")
  case None
  then show ?thesis by (simp add: body_node_def calls_ret)
next
  case (Some n)
  show ?thesis
  proof (cases "gated_off (lc_redelivery c) (node_kind n)")
    case True
    with Some show ?thesis
      by (simp add: body_node_def Let_def calls_ret calls_bind[OF calls_skip])
  next
    case False
    with Some show ?thesis
      by (auto simp: body_node_def Let_def intro!: calls_ret calls_bind[OF calls_skip] calls_bind[OF calls_open]
          calls_bind[OF calls_dispatch[OF False]] calls_bind[OF quiet(6)])
  qed
qed

lemma calls_run_body:
  "calls (permitted (lc_redelivery c) (lc_grant c)) (run_body (watch P) K c i x pos bs l) (\<lambda>_. True)"
  by (induction bs arbitrary: pos l)
    (auto intro!: calls_ret calls_bind[OF calls_body_node] split: sum.splits)

lemma calls_run_items:
  "calls (permitted (lc_redelivery c) (lc_grant c)) (run_items (watch P) K c i xs res) (\<lambda>_. True)"
  by (induction xs arbitrary: i res)
    (auto intro!: calls_ret calls_bind[OF calls_run_body] split: sum.splits)

lemma calls_for_each:
  "calls (permitted (lc_redelivery c) (lc_grant c)) (run_for_each (watch P) K c input) (\<lambda>_. True)"
proof -
  have "calls (permitted (lc_redelivery c) (lc_grant c)) (run_items (watch P) K (c\<lparr>lc_inputs := m\<rparr>) 0 xs []) (\<lambda>_. True)"
    for m xs using calls_run_items[of "c\<lparr>lc_inputs := m\<rparr>"] by simp
  then show ?thesis unfolding run_for_each_def by (auto intro: calls_ret split: sum.splits)
qed

section \<open>The graph walk\<close>

lemma calls_loop_node:
  assumes "d \<longrightarrow> fl_redelivery fl"
  shows "calls (permitted d (gc_grant c)) (loop_node (watch P) K c ord n fl) (\<lambda>fl'. d \<longrightarrow> fl_redelivery fl')"
proof -
  have weak: "permitted (fl_redelivery fl) g x \<Longrightarrow> permitted d g x" for g x
    using assms by (auto intro: permitted_mono)
  have loop: "calls (permitted d (gc_grant c)) (run_for_each (watch P) K
      \<lparr>lc_ws = a1, lc_run = a2, lc_graph = a3, lc_region = a4, lc_index = a5, lc_inputs = a6, lc_prior = a7,
       lc_grant = gc_grant c, lc_trigger = a8, lc_redelivery = fl_redelivery fl\<rparr> input) (\<lambda>_. True)"
    for a1 a2 a3 a4 a5 a6 a7 a8 input
    by (rule calls_mono[OF calls_for_each]) (use weak in simp)
  have rec: "fl_redelivery (record_loop i r res fl') = fl_redelivery fl'" for i r res fl'
    by (simp add: record_loop_def split: sum.splits)
  show ?thesis
    unfolding loop_node_def Let_def
    by (auto intro!: calls_fail calls_ret calls_bind[OF calls_skip] calls_bind[OF calls_open] calls_bind[OF loop]
        calls_bind[OF quiet(6)] simp: assms rec split: option.splits sum.splits)
qed

lemma latch_record_node: "fl_redelivery fl \<Longrightarrow> fl_redelivery (record_node i k out fl)"
  by (simp add: record_node_def Let_def split: option.splits)

lemma calls_dispatch_node:
  assumes "d \<longrightarrow> e" "\<not> gated_off e k"
  shows "calls (permitted d (gc_grant c)) (dispatch_node (watch P) c i k fl) (\<lambda>_. True)"
proof -
  have "calls (permitted d (gc_grant c)) (dispatch (watch P) (gc_ws c) (gc_grant c) input k) (\<lambda>_. True)" for input
    by (rule calls_dispatch) (use assms in \<open>auto simp: gated_off_def split: node_kind.splits\<close>)
  then show ?thesis by (auto simp: dispatch_node_def intro: calls_ret split: node_kind.splits)
qed

lemma calls_outer_node:
  assumes "d \<longrightarrow> fl_redelivery fl"
  shows "calls (permitted d (gc_grant c)) (outer_node (watch P) K c ord n fl) (\<lambda>fl'. d \<longrightarrow> fl_redelivery fl')"
proof -
  let ?fl1 = "fl\<lparr>fl_prior := (fl_prior fl)(ord := None)\<rparr>"
  have rec: "d \<longrightarrow> fl_redelivery (record_node i k out ?fl1)" for i k out
    using assms by (auto intro: latch_record_node)
  show ?thesis
  proof (cases "gated_off (fl_redelivery fl) (node_kind n)")
    case True
    then show ?thesis using assms rec
      by (auto simp: outer_node_def Let_def intro!: calls_ret calls_bind[OF calls_skip])
  next
    case False
    show ?thesis using assms rec
      by (auto simp: outer_node_def Let_def intro!: calls_ret calls_bind[OF calls_skip] calls_bind[OF calls_open]
          calls_bind[OF calls_dispatch_node[OF assms False]] calls_bind[OF quiet(6)] split: step_status.splits)
  qed
qed

lemma calls_visit_all:
  assumes "d \<longrightarrow> fl_redelivery fl"
  shows "calls (permitted d (gc_grant c)) (visit_all (watch P) K c k is fl) (\<lambda>_. True)"
  using assms
proof (induction "is" arbitrary: k fl)
  case (Cons i "is")
  have "calls (permitted d (gc_grant c)) (visit (watch P) K c k i fl) (\<lambda>fl'. d \<longrightarrow> fl_redelivery fl')"
    using Cons.prems
    by (auto simp: visit_def intro: calls_ret calls_loop_node calls_outer_node split: option.splits)
  then show ?case using Cons.IH by (auto intro!: calls_bind calls_ret)
qed (simp add: calls_ret)

lemma calls_run_graph:
  assumes "d \<longrightarrow> redelivery_flag trig"
  shows "calls (permitted d g) (run_graph (watch P) K ws rid gr trig g prior) (\<lambda>_. True)"
proof -
  have "calls (permitted d (gc_grant \<lparr>gc_ws = ws, gc_run = rid, gc_graph = gr, gc_regions = rs, gc_trigger = trig,
        gc_event = ev, gc_grant = g\<rparr>))
      (visit_all (watch P) K \<lparr>gc_ws = ws, gc_run = rid, gc_graph = gr, gc_regions = rs, gc_trigger = trig,
        gc_event = ev, gc_grant = g\<rparr> 0 order
       \<lparr>fl_output = Map.empty, fl_branch = Map.empty, fl_succ = Map.empty,
        fl_redelivery = redelivery_flag trig, fl_prior = prior, fl_failure = None\<rparr>) (\<lambda>_. True)" for rs ev order
    by (rule calls_visit_all) (simp add: assms)
  then show ?thesis
    by (auto simp: run_graph_def finish_with_def intro!: quiet calls_bind split: sum.splits)
qed

section \<open>The linear loop\<close>

lemma calls_run_actions:
  assumes "d \<longrightarrow> redelivery"
  shows "calls (permitted d (ln_grant c)) (run_actions (watch P) K c k as prior redelivery) (\<lambda>_. True)"
  using assms
proof (induction as arbitrary: k prior redelivery)
  case (Cons a as)
  have act: "\<not> gated_off redelivery (NAction a) \<Longrightarrow> permitted d (ln_grant c) (CallAction a (ln_grant c))"
    using Cons.prems by (auto simp: permitted_def gated_off_def)
  show ?case
    using Cons by (auto simp: Let_def intro!: calls_ret calls_bind[OF calls_skip] calls_bind[OF calls_open]
        calls_bind[OF calls_action] act calls_bind[OF quiet(6)] split: option.splits)
qed (simp add: calls_ret)

lemma calls_condition: "calls (permitted d g) (liftM (eval_condition (watch P) cond trig ws g)) (\<lambda>_. True)"
  by (rule callsI)
    (auto simp: liftM_def eval_condition_def watch_def permitted_def split: prod.splits option.splits sum.splits)

lemma calls_run_linear:
  assumes "d \<longrightarrow> redelivery_flag trig"
  shows "calls (permitted d g) (run_linear (watch P) K ws rid sp trig g prior) (\<lambda>_. True)"
proof -
  have "calls (permitted d g) (run_actions (watch P) K \<lparr>ln_ws = ws, ln_run = rid, ln_trigger = trig, ln_grant = g,
      ln_pass = ok\<rparr> 0 as prior (redelivery_flag trig)) (\<lambda>_. True)" for ok as
    using calls_run_actions[OF assms, of "\<lparr>ln_ws = ws, ln_run = rid, ln_trigger = trig, ln_grant = g, ln_pass = ok\<rparr>"]
    by simp
  note acts = calls_bind[OF this]
  have cond: "calls (permitted d g) (case spec_condition sp of None \<Rightarrow> ret (Inr True)
      | Some cond \<Rightarrow> liftM (eval_condition (watch P) cond trig ws g)) (\<lambda>_. True)"
    by (auto intro: calls_ret calls_condition split: option.splits)
  show ?thesis unfolding run_linear_def finish_with_def
    by (rule calls_bind[OF cond]) (auto intro!: quiet acts split: sum.splits)
qed

end
