(* ===== verification/Auto_Gate.thy ===== *)
theory Auto_Gate
  imports Auto_Calls
begin

text \<open>
  The calls of a whole execution, over any journal and any runners: all of them come after the
  authority gate and obey the redelivery gate. The recorded calls of
  \<open>Auto_Calls\<close> say what was run.
\<close>

section \<open>The wrapped ports leave the calls alone\<close>

lemma on_fst_ret: "on_fst (ret x) = ret x" "on_fst (fail e) = fail e"
  by (simp_all add: on_fst_def fun_eq_iff)

lemma on_fst_bind: "bindM (on_fst m) (\<lambda>x. on_fst (f x)) = on_fst (bindM m f)"
  by (auto simp: on_fst_def bindM_def fun_eq_iff split: prod.splits sum.splits)

lemma watch_simps:
  "find_active_run_by_job (watch P) ws j = on_fst (find_active_run_by_job P ws j)"
  "start_run (watch P) ws a t jo = on_fst (start_run P ws a t jo)"
  "get_run (watch P) ws i = on_fst (get_run P ws i)"
  "list_steps (watch P) ws i = on_fst (list_steps P ws i)"
  "finish_run (watch P) ws i rst err = on_fst (finish_run P ws i rst err)"
  by (simp_all add: watch_def)

lemma open_run_watch: "open_run (watch P) ws a trig job = on_fst (open_run P ws a trig job)"
  unfolding open_run_def watch_simps
  by (cases job; subst on_fst_bind[symmetric]; intro arg_cong2[where f = bindM] ext refl)
    (auto simp: on_fst_ret on_fst_bind[symmetric] split: option.splits intro!: arg_cong2[where f = bindM] ext)

lemma authority_watch:
  "authority (watch P) ws gid (w, cs) = (case authority P ws gid w of (x, w') \<Rightarrow> (x, (w', cs)))"
  by (auto simp: authority_def watch_def on_fst_def split: option.splits prod.splits sum.splits)

section \<open>The authority a run acts under\<close>

definition within_authority :: "'w ports \<Rightarrow> nat \<Rightarrow> nat option \<Rightarrow> 'w \<Rightarrow> grant option \<Rightarrow> bool" where
  "within_authority P ws gid w g \<longleftrightarrow>
     (case gid of
        None \<Rightarrow> g = None
      | Some i \<Rightarrow> \<exists>gr w'. resolve_grant P ws i w = (Inr gr, w') \<and> g = Some gr \<and>
          \<not> has_unenforced (grant_constraints gr) \<and>
          (\<forall>win. time_window (grant_constraints gr) = Some win \<longrightarrow> window_contains win (utc_now P w')))"

lemma authority_within: "authority P ws gid w = (Inr g, w') \<Longrightarrow> within_authority P ws gid w g"
  by (auto simp: authority_def within_authority_def split: option.splits prod.splits sum.splits if_splits)

fun call_grant :: "call \<Rightarrow> grant option" where
  "call_grant (CallAction _ g) = g"
| "call_grant (CallCode g) = g"

lemma execute_cases:
  assumes "execute_for_job (watch P) L K ws a trig job (w, []) = (r, (w', cs))"
  obtains "cs = []"
  | rid gid prior w1 g w2 where "open_run P ws a trig job w = (Inr (rid, gid, prior), w1)"
      "authority P ws gid w1 = (Inr g, w2)" "list_all (permitted (redelivery_flag trig) g) cs"
proof -
  obtain o1 w1 where o1: "open_run P ws a trig job w = (o1, w1)" by (rule prod.exhaust)
  show thesis
  proof (cases o1)
    case (Inl e)
    with assms o1 show thesis using that(1) by (simp add: execute_for_job_def bindM_def open_run_watch on_fst_def)
  next
    case (Inr t)
    obtain rid gid prior where t: "t = (rid, gid, prior)" by (cases t)
    obtain x w2 where x: "authority P ws gid w1 = (x, w2)" by (rule prod.exhaust)
    from assms o1 Inr t x have run: "(case plan_of L K a of
        Inl m \<Rightarrow> finish_run (watch P) ws rid RunFailed (Some m) (w1, [])
      | Inr plan \<Rightarrow> (case x of
            Inl m \<Rightarrow> finish_run (watch P) ws rid RunFailed (Some m) (w2, [])
          | Inr grant \<Rightarrow> (case plan of
                Inl g \<Rightarrow> run_graph (watch P) K ws rid g trig grant prior (w2, [])
              | Inr sp \<Rightarrow> run_linear (watch P) K ws rid sp trig grant prior (w2, [])))) = (r, (w', cs))"
      by (auto simp: execute_for_job_def bindM_def open_run_watch on_fst_def liftM_def authority_watch
          split: sum.splits)
    have quiet: "cs = []" if "finish_run (watch P) ws rid RunFailed m (v, []) = (r, (w', cs))" for m v
      using that by (auto simp: watch_simps on_fst_def split: prod.splits)
    show thesis
    proof (cases "plan_of L K a")
      case (Inl m)
      with run quiet that(1) show thesis by simp
    next
      case plan: (Inr p)
      show thesis
      proof (cases x)
        case (Inl m)
        with run plan quiet that(1) show thesis by simp
      next
        case (Inr g)
        have "list_all (permitted (redelivery_flag trig) g) cs"
        proof (cases p)
          case (Inl gr)
          have "calls (permitted (redelivery_flag trig) g) (run_graph (watch P) K ws rid gr trig g prior) (\<lambda>_. True)"
            by (rule calls_run_graph) simp
          from callsD(1)[OF this] show ?thesis using run plan Inr Inl by fastforce
        next
          case lin: (Inr sp)
          have "calls (permitted (redelivery_flag trig) g) (run_linear (watch P) K ws rid sp trig g prior) (\<lambda>_. True)"
            by (rule calls_run_linear) simp
          from callsD(1)[OF this] show ?thesis using run plan Inr lin by fastforce
        qed
        with o1 \<open>o1 = Inr t\<close> t x Inr show thesis using that(2) by blast
      qed
    qed
  qed
qed

end
