(* ===== verification/Auto_Journal.thy ===== *)
theory Auto_Journal
  imports Auto_Engine
begin

text \<open>
  The durable run journal: its contract as a locale over the ports of the engine, and the
  implementation the program ships, the Postgres adapter
  (\<open>crates/catalerum-automation/src/postgres.rs\<close>) over the statements of
  \<open>AutomationRunRepo\<close> (\<open>crates/catalerum-store/src/repo.rs\<close>). A table is the list of its rows in
  insertion order, a generated UUID the next unused number, and a unique key that would be
  violated a \<open>Conflict\<close>. The time columns, which only the history view reads, are left out.
\<close>

section \<open>The tables\<close>

record journal =
  j_automations :: "(nat \<times> nat) list"
  j_runs :: "run list"
  j_steps :: "step list"
  j_grants :: "grant list"
  j_next :: nat

type_synonym 'a repo = "journal \<Rightarrow> (store_error + 'a) \<times> journal"

definition row_or :: "store_error \<Rightarrow> 'a option \<Rightarrow> store_error + 'a" where
  "row_or e r = (case r of Some x \<Rightarrow> Inr x | None \<Rightarrow> Inl e)"

definition repo_start_run ::
    "nat \<Rightarrow> nat \<Rightarrow> nat option \<Rightarrow> json option \<Rightarrow> nat option \<Rightarrow> run repo" where
  "repo_start_run ws aid gid trig job j =
     (if (aid, ws) \<notin> set (j_automations j) then (Inl StoreNotFound, j)
      else
        (let r = \<lparr>run_id = j_next j, run_workspace = ws, run_automation = aid, run_status = RunRunning,
                  run_grant = gid, run_trigger = trig, run_error = None, run_job = job\<rparr>
         in (Inr r, j\<lparr>j_runs := j_runs j @ [r], j_next := Suc (j_next j)\<rparr>)))"

definition repo_find_active_run_by_job :: "nat \<Rightarrow> nat \<Rightarrow> nat option repo" where
  "repo_find_active_run_by_job ws job j =
     (Inr (map_option run_id
        (List.find (\<lambda>r. run_workspace r = ws \<and> run_job r = Some job \<and> run_status r = RunRunning) (rev (j_runs j)))), j)"

definition repo_finish_run :: "nat \<Rightarrow> nat \<Rightarrow> run_status \<Rightarrow> fail_msg option \<Rightarrow> run repo" where
  "repo_finish_run ws i st err j =
     (let hit = (\<lambda>r. run_id r = i \<and> run_workspace r = ws);
          upd = (\<lambda>r. r\<lparr>run_status := st, run_error := err\<rparr>);
          rows = map (\<lambda>r. if hit r then upd r else r) (j_runs j)
      in (row_or StoreNotFound (map_option upd (List.find hit (j_runs j))), j\<lparr>j_runs := rows\<rparr>))"

definition repo_get_run :: "nat \<Rightarrow> nat \<Rightarrow> run repo" where
  "repo_get_run ws i j =
     (row_or StoreNotFound (List.find (\<lambda>r. run_id r = i \<and> run_workspace r = ws) (j_runs j)), j)"

definition repo_add_step :: "nat \<Rightarrow> nat \<Rightarrow> int \<Rightarrow> json \<Rightarrow> step repo" where
  "repo_add_step ws rid ord a j =
     (if \<not> list_ex (\<lambda>r. run_id r = rid \<and> run_workspace r = ws) (j_runs j) then (Inl StoreNotFound, j)
      else if list_ex (\<lambda>s. step_run s = rid \<and> ordinal s = ord) (j_steps j) then (Inl StoreConflict, j)
      else
        (let s = \<lparr>step_id = j_next j, step_run = rid, step_workspace = ws, ordinal = ord, step_action = a,
                  step_status = Running, step_output = None, step_error = None\<rparr>
         in (Inr s, j\<lparr>j_steps := j_steps j @ [s], j_next := Suc (j_next j)\<rparr>)))"

definition repo_finish_step ::
    "nat \<Rightarrow> nat \<Rightarrow> step_status \<Rightarrow> json option \<Rightarrow> fail_msg option \<Rightarrow> step repo" where
  "repo_finish_step ws i st out err j =
     (let hit = (\<lambda>s. step_id s = i \<and> step_workspace s = ws);
          upd = (\<lambda>s. s\<lparr>step_status := st, step_output := out, step_error := err\<rparr>);
          rows = map (\<lambda>s. if hit s then upd s else s) (j_steps j)
      in (row_or StoreNotFound (map_option upd (List.find hit (j_steps j))), j\<lparr>j_steps := rows\<rparr>))"

definition repo_list_steps :: "nat \<Rightarrow> nat \<Rightarrow> step list repo" where
  "repo_list_steps ws rid j =
     (Inr (sort_key ordinal (sort_key step_id (filter (\<lambda>s. step_workspace s = ws \<and> step_run s = rid) (j_steps j)))), j)"

definition repo_get_grant :: "nat \<Rightarrow> nat \<Rightarrow> grant repo" where
  "repo_get_grant ws i j =
     (row_or StoreNotFound (List.find (\<lambda>g. grant_id g = i \<and> grant_workspace g = ws) (j_grants j)), j)"

section \<open>The adapter\<close>

text \<open>The world of a worker: the journal's tables and whatever the runners act on.\<close>

record 'x world =
  tables :: journal
  outside :: 'x

definition backend :: "'a repo \<Rightarrow> ('x world, exec_error, 'a) eff" where
  "backend m w =
     (case m (tables w) of (r, j) \<Rightarrow>
        ((case r of Inl e \<Rightarrow> Inl (Backend e) | Inr x \<Rightarrow> Inr x), w\<lparr>tables := j\<rparr>))"

definition beside :: "('x \<Rightarrow> 'a \<times> 'x) \<Rightarrow> 'x world \<Rightarrow> 'a \<times> 'x world" where
  "beside m w = (case m (outside w) of (r, x) \<Rightarrow> (r, w\<lparr>outside := x\<rparr>))"

record 'x runners =
  act_on :: "nat \<Rightarrow> act \<Rightarrow> json option \<Rightarrow> grant option \<Rightarrow> 'x \<Rightarrow> outcome \<times> 'x"
  code_on :: "string \<Rightarrow> string \<Rightarrow> json \<Rightarrow> nat \<Rightarrow> grant option \<Rightarrow> 'x \<Rightarrow> (string + json) \<times> 'x"
  now_on :: "'x \<Rightarrow> int"

definition pg_ports :: "'x runners \<Rightarrow> 'x world ports" where
  "pg_ports R = \<lparr>
     find_active_run_by_job = (\<lambda>ws job. backend (repo_find_active_run_by_job ws job)),
     start_run = (\<lambda>ws a trig job. backend (repo_start_run ws (aut_id a) (aut_grant a) trig job)),
     get_run = (\<lambda>ws i. backend (repo_get_run ws i)),
     list_steps = (\<lambda>ws i. backend (repo_list_steps ws i)),
     add_step = (\<lambda>ws i ord a. backend (repo_add_step ws i ord a)),
     finish_step = (\<lambda>ws i st out err. backend (repo_finish_step ws i st out err)),
     finish_run = (\<lambda>ws i st err. backend (repo_finish_run ws i st err)),
     resolve_grant = (\<lambda>ws i. backend (repo_get_grant ws i)),
     run_action = (\<lambda>ws a t g. beside (act_on R ws a t g)),
     run_code = (\<lambda>rt src v ws g. beside (code_on R rt src v ws g)),
     utc_now = (\<lambda>w. now_on R (outside w))\<rparr>"

section \<open>The contract\<close>

text \<open>What the engine relies on: the steps of each run by ordinal, and the run rows.\<close>

record jview =
  jv_run :: "nat \<Rightarrow> run option"
  jv_steps :: "nat \<Rightarrow> int \<Rightarrow> step option"

definition put_step :: "nat \<Rightarrow> int \<Rightarrow> step \<Rightarrow> jview \<Rightarrow> jview" where
  "put_step rid ord s v = v\<lparr>jv_steps := (jv_steps v)(rid := (jv_steps v rid)(ord \<mapsto> s))\<rparr>"

locale run_journal =
  fixes P :: "'w ports"
    and view :: "'w \<Rightarrow> jview"
    and ok :: "'w \<Rightarrow> bool"
  assumes add_fresh:
      "ok w \<Longrightarrow> jv_run (view w) rid = Some r \<Longrightarrow> jv_steps (view w) rid ord = None \<Longrightarrow>
       \<exists>s w'. add_step P (run_workspace r) rid ord a w = (Inr s, w') \<and> ok w' \<and>
         ordinal s = ord \<and> step_status s = Running \<and> step_action s = a \<and> view w' = put_step rid ord s (view w)"
    and finish_known:
      "ok w \<Longrightarrow> jv_run (view w) rid = Some r \<Longrightarrow> jv_steps (view w) rid ord = Some s \<Longrightarrow>
       \<exists>s' w'. finish_step P (run_workspace r) (step_id s) st out err w = (Inr s', w') \<and> ok w' \<and>
         view w' = put_step rid ord (s\<lparr>step_status := st, step_output := out, step_error := err\<rparr>) (view w)"
    and finish_open_run:
      "ok w \<Longrightarrow> jv_run (view w) rid = Some r \<Longrightarrow>
       \<exists>r' w'. finish_run P (run_workspace r) rid rst e w = (Inr r', w') \<and> ok w' \<and>
         r' = r\<lparr>run_status := rst, run_error := e\<rparr> \<and> view w' = view w\<lparr>jv_run := (jv_run (view w))(rid \<mapsto> r')\<rparr>"
    and action_beside:
      "ok w \<Longrightarrow> run_action P ws b t g w = (oc, w') \<Longrightarrow> ok w' \<and> view w' = view w"
    and code_beside:
      "ok w \<Longrightarrow> run_code P rt src v ws g w = (res, w') \<Longrightarrow> ok w' \<and> view w' = view w"

section \<open>The tables keep the contract\<close>

definition tables_ok :: "journal \<Rightarrow> bool" where
  "tables_ok j \<longleftrightarrow>
     distinct (map run_id (j_runs j)) \<and> distinct (map step_id (j_steps j)) \<and>
     distinct (map (\<lambda>s. (step_run s, ordinal s)) (j_steps j)) \<and>
     (\<forall>r\<in>set (j_runs j). run_id r < j_next j) \<and> (\<forall>s\<in>set (j_steps j). step_id s < j_next j) \<and>
     (\<forall>s\<in>set (j_steps j). \<exists>r\<in>set (j_runs j). run_id r = step_run s \<and> run_workspace r = step_workspace s)"

definition tables_view :: "journal \<Rightarrow> jview" where
  "tables_view j =
     \<lparr>jv_run = (\<lambda>i. List.find (\<lambda>r. run_id r = i) (j_runs j)),
      jv_steps = (\<lambda>i ord. List.find (\<lambda>s. step_run s = i \<and> ordinal s = ord) (j_steps j))\<rparr>"

lemma find_append: "List.find p (xs @ ys) = (case List.find p xs of Some x \<Rightarrow> Some x | None \<Rightarrow> List.find p ys)"
  by (induction xs) auto

lemma find_set: "List.find p xs = Some x \<Longrightarrow> x \<in> set xs \<and> p x"
  by (induction xs) (auto split: if_splits)

lemma find_unique:
  assumes "x \<in> set xs" "p x" "\<And>y. y \<in> set xs \<Longrightarrow> p y \<Longrightarrow> y = x"
  shows "List.find p xs = Some x"
  using assms
proof (induction xs)
  case (Cons y xs)
  show ?case
  proof (cases "p y")
    case True
    with Cons.prems(3)[of y] show ?thesis by simp
  next
    case False
    have "x \<in> set xs" using Cons.prems(1,2) False by auto
    from Cons.IH[OF this Cons.prems(2)] have "List.find p xs = Some x"
      using Cons.prems(3) by (simp only: list.set_intros)
    with False show ?thesis by simp
  qed
qed simp

lemma find_map:
  assumes "\<And>y. y \<in> set xs \<Longrightarrow> q (f y) = q y"
  shows "List.find q (map f xs) = map_option f (List.find q xs)"
  using assms by (induction xs) auto

lemma keyed_inj:
  assumes "distinct (map k xs)" "x \<in> set xs" "y \<in> set xs" "k x = k y"
  shows "x = y"
proof -
  have "inj_on k (set xs)" using assms(1) by (simp add: distinct_map)
  from inj_onD[OF this assms(4,2,3)] show ?thesis .
qed

lemma tables_ok_map_steps:
  assumes "tables_ok j" "\<And>x. step_id (f x) = step_id x" "\<And>x. step_run (f x) = step_run x"
    "\<And>x. ordinal (f x) = ordinal x" "\<And>x. step_workspace (f x) = step_workspace x"
  shows "tables_ok (j\<lparr>j_steps := map f (j_steps j)\<rparr>)"
  using assms(1) unfolding tables_ok_def by (simp add: comp_def assms(2-))

lemma tables_ok_map_runs:
  assumes "tables_ok j" "\<And>x. run_id (f x) = run_id x" "\<And>x. run_workspace (f x) = run_workspace x"
  shows "tables_ok (j\<lparr>j_runs := map f (j_runs j)\<rparr>)"
  using assms(1) unfolding tables_ok_def by (simp add: comp_def assms(2-))

lemma repo_add_fresh:
  assumes ok: "tables_ok j" and r: "jv_run (tables_view j) rid = Some r"
    and none: "jv_steps (tables_view j) rid ord = None"
  shows "\<exists>s j'. repo_add_step (run_workspace r) rid ord a j = (Inr s, j') \<and> tables_ok j' \<and>
    ordinal s = ord \<and> step_status s = Running \<and> step_action s = a \<and> tables_view j' = put_step rid ord s (tables_view j)"
proof -
  from r have run: "r \<in> set (j_runs j)" "run_id r = rid" by (auto simp: tables_view_def dest: find_set)
  from none have free: "\<not> (step_run s = rid \<and> ordinal s = ord)" if "s \<in> set (j_steps j)" for s
    using that by (auto simp: tables_view_def find_None_iff)
  let ?s = "\<lparr>step_id = j_next j, step_run = rid, step_workspace = run_workspace r, ordinal = ord, step_action = a,
      step_status = Running, step_output = None, step_error = None\<rparr> :: step"
  let ?j = "j\<lparr>j_steps := j_steps j @ [?s], j_next := Suc (j_next j)\<rparr>"
  have "repo_add_step (run_workspace r) rid ord a j = (Inr ?s, ?j)"
    using run free by (auto simp: repo_add_step_def list_ex_iff Let_def)
  moreover have "tables_ok ?j"
  proof -
    have "(rid, ord) \<notin> (\<lambda>s. (step_run s, ordinal s)) ` set (j_steps j)" using free by auto
    moreover have "j_next j \<notin> step_id ` set (j_steps j)" using ok unfolding tables_ok_def by auto
    ultimately show ?thesis using ok run unfolding tables_ok_def by (auto intro: less_SucI)
  qed
  moreover have "tables_view ?j = put_step rid ord ?s (tables_view j)"
    using none by (auto simp: tables_view_def put_step_def find_append fun_eq_iff split: option.splits)
  ultimately show ?thesis by (intro exI[of _ ?s] exI[of _ ?j]) simp
qed

lemma repo_finish_known:
  assumes ok: "tables_ok j" and r: "jv_run (tables_view j) rid = Some r"
    and s: "jv_steps (tables_view j) rid ord = Some s"
  shows "\<exists>s' j'. repo_finish_step (run_workspace r) (step_id s) st out err j = (Inr s', j') \<and> tables_ok j' \<and>
    tables_view j' = put_step rid ord (s\<lparr>step_status := st, step_output := out, step_error := err\<rparr>) (tables_view j)"
proof -
  from r have run: "r \<in> set (j_runs j)" "run_id r = rid" by (auto simp: tables_view_def dest: find_set)
  from s have step: "s \<in> set (j_steps j)" "step_run s = rid" "ordinal s = ord"
    by (auto simp: tables_view_def dest: find_set)
  from ok step run obtain r' where "r' \<in> set (j_runs j)" "run_id r' = rid" "run_workspace r' = step_workspace s"
    unfolding tables_ok_def by auto
  moreover have "r' = r"
    by (rule keyed_inj[of run_id "j_runs j"]) (use ok run calculation in \<open>simp_all add: tables_ok_def\<close>)
  ultimately have ws: "step_workspace s = run_workspace r" by simp
  let ?hit = "\<lambda>x. step_id x = step_id s \<and> step_workspace x = run_workspace r"
  let ?upd = "\<lambda>x. x\<lparr>step_status := st, step_output := out, step_error := err\<rparr> :: step"
  let ?f = "\<lambda>x. if ?hit x then ?upd x else x"
  have only: "x = s" if "x \<in> set (j_steps j)" "step_id x = step_id s" for x
    by (rule keyed_inj[of step_id "j_steps j"]) (use ok that step(1) in \<open>simp_all add: tables_ok_def\<close>)
  have "List.find ?hit (j_steps j) = Some s" by (rule find_unique) (simp_all only: step ws only simp_thms)
  then have fin: "repo_finish_step (run_workspace r) (step_id s) st out err j =
      (Inr (?upd s), j\<lparr>j_steps := map ?f (j_steps j)\<rparr>)"
    by (simp add: repo_finish_step_def Let_def row_or_def)
  have keys: "step_id (?f x) = step_id x" "step_run (?f x) = step_run x" "ordinal (?f x) = ordinal x"
    "step_workspace (?f x) = step_workspace x" for x by auto
  have "tables_ok (j\<lparr>j_steps := map ?f (j_steps j)\<rparr>)"
    by (rule tables_ok_map_steps[OF ok]) (simp_all only: keys)
  moreover have "tables_view (j\<lparr>j_steps := map ?f (j_steps j)\<rparr>) = put_step rid ord (?upd s) (tables_view j)"
  proof -
    have "List.find (\<lambda>x. step_run x = i \<and> ordinal x = k) (map ?f (j_steps j)) =
        map_option ?f (List.find (\<lambda>x. step_run x = i \<and> ordinal x = k) (j_steps j))" for i k
      by (rule find_map) (simp only: keys)
    moreover have "map_option ?f (List.find (\<lambda>x. step_run x = i \<and> ordinal x = k) (j_steps j)) =
        (if i = rid \<and> k = ord then Some (?upd s) else List.find (\<lambda>x. step_run x = i \<and> ordinal x = k) (j_steps j))" for i k
    proof (cases "i = rid \<and> k = ord")
      case True
      with s ws show ?thesis by (simp add: tables_view_def)
    next
      case False
      have "\<not> ?hit x" if "List.find (\<lambda>x. step_run x = i \<and> ordinal x = k) (j_steps j) = Some x" for x
        using find_set[OF that] False only[of x] step by auto
      with False show ?thesis by (cases "List.find (\<lambda>x. step_run x = i \<and> ordinal x = k) (j_steps j)") auto
    qed
    ultimately show ?thesis by (auto simp: tables_view_def put_step_def fun_eq_iff simp del: if_split)
  qed
  ultimately show ?thesis using fin by blast
qed

lemma repo_finish_open_run:
  assumes ok: "tables_ok j" and r: "jv_run (tables_view j) rid = Some r"
  shows "\<exists>r' j'. repo_finish_run (run_workspace r) rid st err j = (Inr r', j') \<and> tables_ok j' \<and>
    r' = r\<lparr>run_status := st, run_error := err\<rparr> \<and> tables_view j' = (tables_view j)\<lparr>jv_run := (jv_run (tables_view j))(rid \<mapsto> r')\<rparr>"
proof -
  from r have run: "r \<in> set (j_runs j)" "run_id r = rid" by (auto simp: tables_view_def dest: find_set)
  let ?hit = "\<lambda>x. run_id x = rid \<and> run_workspace x = run_workspace r"
  let ?upd = "\<lambda>x. x\<lparr>run_status := st, run_error := err\<rparr> :: run"
  let ?f = "\<lambda>x. if ?hit x then ?upd x else x"
  have only: "x = r" if "x \<in> set (j_runs j)" "run_id x = rid" for x
    by (rule keyed_inj[of run_id "j_runs j"]) (use ok that run in \<open>simp_all add: tables_ok_def\<close>)
  have "List.find ?hit (j_runs j) = Some r" by (rule find_unique) (simp_all only: run only simp_thms)
  then have fin: "repo_finish_run (run_workspace r) rid st err j = (Inr (?upd r), j\<lparr>j_runs := map ?f (j_runs j)\<rparr>)"
    by (simp add: repo_finish_run_def Let_def row_or_def)
  have keys: "run_id (?f x) = run_id x" "run_workspace (?f x) = run_workspace x" for x by auto
  have "tables_ok (j\<lparr>j_runs := map ?f (j_runs j)\<rparr>)"
    by (rule tables_ok_map_runs[OF ok]) (simp_all only: keys)
  moreover have "tables_view (j\<lparr>j_runs := map ?f (j_runs j)\<rparr>) =
      (tables_view j)\<lparr>jv_run := (jv_run (tables_view j))(rid \<mapsto> ?upd r)\<rparr>"
  proof -
    have "List.find (\<lambda>x. run_id x = i) (map ?f (j_runs j)) = map_option ?f (List.find (\<lambda>x. run_id x = i) (j_runs j))" for i
      by (rule find_map) (simp only: keys)
    moreover have "map_option ?f (List.find (\<lambda>x. run_id x = i) (j_runs j)) =
        (if i = rid then Some (?upd r) else List.find (\<lambda>x. run_id x = i) (j_runs j))" for i
    proof (cases "i = rid")
      case True
      with r run show ?thesis by (simp add: tables_view_def)
    next
      case False
      have "\<not> ?hit x" if "List.find (\<lambda>x. run_id x = i) (j_runs j) = Some x" for x
        using find_set[OF that] False by auto
      with False show ?thesis by (cases "List.find (\<lambda>x. run_id x = i) (j_runs j)") auto
    qed
    ultimately show ?thesis by (auto simp: tables_view_def fun_eq_iff simp del: if_split)
  qed
  ultimately show ?thesis using fin by blast
qed

lemma backend_Inr: "m (tables w) = (Inr x, j) \<Longrightarrow> backend m w = (Inr x, w\<lparr>tables := j\<rparr>)"
  by (simp add: backend_def)

interpretation pg: run_journal "pg_ports R" "\<lambda>w. tables_view (tables w)" "\<lambda>w. tables_ok (tables w)"
proof (unfold_locales, goal_cases)
  case (1 w rid r ord a)
  from repo_add_fresh[OF 1] obtain s j' where "repo_add_step (run_workspace r) rid ord a (tables w) = (Inr s, j')"
    "tables_ok j'" "ordinal s = ord" "step_status s = Running" "step_action s = a"
    "tables_view j' = put_step rid ord s (tables_view (tables w))" by blast
  then show ?case by (intro exI[of _ s] exI[of _ "w\<lparr>tables := j'\<rparr>"]) (simp add: pg_ports_def backend_Inr)
next
  case (2 w rid r ord s st out err)
  from repo_finish_known[OF 2] obtain s' j' where
    "repo_finish_step (run_workspace r) (step_id s) st out err (tables w) = (Inr s', j')" "tables_ok j'"
    "tables_view j' = put_step rid ord (s\<lparr>step_status := st, step_output := out, step_error := err\<rparr>) (tables_view (tables w))"
    by blast
  then show ?case by (intro exI[of _ s'] exI[of _ "w\<lparr>tables := j'\<rparr>"]) (simp add: pg_ports_def backend_Inr)
next
  case (3 w rid r rst e)
  from repo_finish_open_run[OF 3] obtain r' j' where
    "repo_finish_run (run_workspace r) rid rst e (tables w) = (Inr r', j')" "tables_ok j'"
    "r' = r\<lparr>run_status := rst, run_error := e\<rparr>"
    "tables_view j' = (tables_view (tables w))\<lparr>jv_run := (jv_run (tables_view (tables w)))(rid \<mapsto> r')\<rparr>" by blast
  then show ?case by (intro exI[of _ r'] exI[of _ "w\<lparr>tables := j'\<rparr>"]) (simp add: pg_ports_def backend_Inr)
next
  case (4 w ws b t g oc w')
  then show ?case by (auto simp: pg_ports_def beside_def split: prod.splits)
next
  case (5 w rt src v ws g res w')
  then show ?case by (auto simp: pg_ports_def beside_def split: prod.splits)
qed

end
