(* ===== verification/Auto_Topo.thy ===== *)
theory Auto_Topo
  imports Auto_Graph
begin

text \<open>
  Kahn's algorithm and the bounded depth-first walk compute what they should: the order is a
  permutation of the node ids in which every edge goes forward, it exists exactly for an
  acyclic graph, and the walk returns the nodes reachable without passing the boundary.
\<close>

section \<open>One relaxation\<close>

lemma relax_deg:
  "relax ts deg queue = (deg', queue') \<Longrightarrow> deg' i = deg i - int (count_list ts i)"
  by (induction ts arbitrary: deg queue) (auto simp: Let_def split: if_splits)

lemma relax_queue:
  assumes "relax ts deg queue = (deg', queue')" "\<And>i. i \<in> set ts \<Longrightarrow> int (count_list ts i) \<le> deg i"
  shows "\<exists>new. queue' = queue @ new \<and> distinct new \<and> set new = {i \<in> set ts. deg' i = 0}"
  using assms
proof (induction ts arbitrary: deg queue)
  case (Cons t ts)
  let ?deg = "deg(t := deg t - 1)" and ?q = "if deg t - 1 = 0 then queue @ [t] else queue"
  have r: "relax ts ?deg ?q = (deg', queue')" using Cons.prems(1) by (simp add: Let_def)
  have "int (count_list ts i) \<le> ?deg i" if "i \<in> set ts" for i
    using Cons.prems(2)[of i] that by (auto split: if_splits)
  from Cons.IH[OF r this] obtain new where
    new: "queue' = ?q @ new" "distinct new" "set new = {i \<in> set ts. deg' i = 0}" by blast
  have t: "deg' t = deg t - 1 - int (count_list ts t)" using relax_deg[OF r, of t] by simp
  show ?case
  proof (cases "deg t - 1 = 0")
    case True
    with Cons.prems(2)[of t] have "t \<notin> set ts" by (simp add: count_list_0_iff)
    with True t new show ?thesis by (intro exI[of _ "t # new"]) (auto simp: count_list_0_iff)
  next
    case False
    have "t \<in> set ts" if "deg' t = 0" using that t False by (cases "t \<in> set ts") auto
    with False new show ?thesis by (intro exI[of _ new]) auto
  qed
qed auto

lemma in_degree_targets:
  "int (count_list (targets g i) j) = int (length (filter (\<lambda>e. e_from e = i \<and> e_to e = j) (counted g)))"
  by (simp add: targets_def count_list_eq_length_filter filter_map comp_def conj_commute eq_commute)

section \<open>The invariant of the queue\<close>

definition open_in :: "graph \<Rightarrow> string list \<Rightarrow> string \<Rightarrow> int" where
  "open_in g order i = int (length (filter (\<lambda>e. e_to e = i \<and> e_from e \<notin> set order) (counted g)))"

definition kahn_inv :: "graph \<Rightarrow> string list \<Rightarrow> (string \<Rightarrow> int) \<Rightarrow> string list \<Rightarrow> bool" where
  "kahn_inv g queue deg order \<longleftrightarrow>
     distinct (order @ queue) \<and> set (order @ queue) \<subseteq> set (ids g) \<and>
     (\<forall>i\<in>set (ids g). deg i = open_in g order i) \<and>
     (\<forall>i\<in>set (ids g). deg i = 0 \<longleftrightarrow> i \<in> set (order @ queue)) \<and>
     (\<forall>e\<in>set (counted g). \<forall>xs ys. order = xs @ e_to e # ys \<longrightarrow> e_from e \<in> set xs)"

lemma kahn_inv_start:
  assumes "distinct (ids g)"
  shows "kahn_inv g (filter (\<lambda>i. in_degree g i = 0) (ids g)) (in_degree g) []"
  using assms by (auto simp: kahn_inv_def open_in_def in_degree_def)

lemma open_in_snoc:
  assumes "i \<notin> set order"
  shows "open_in g (order @ [i]) j = open_in g order j - int (count_list (targets g i) j)"
proof -
  have "length (filter (\<lambda>e. e_to e = j \<and> e_from e \<notin> set order) es) =
      length (filter (\<lambda>e. e_to e = j \<and> e_from e \<notin> set (order @ [i])) es) +
      length (filter (\<lambda>e. e_from e = i \<and> e_to e = j) es)" for es
    using assms by (induction es) auto
  from this[of "counted g"] show ?thesis by (simp add: open_in_def in_degree_targets)
qed

lemma open_in_0: "open_in g order i = 0 \<longleftrightarrow> (\<forall>e\<in>set (counted g). e_to e = i \<longrightarrow> e_from e \<in> set order)"
  by (auto simp: open_in_def filter_empty_conv)

lemma kahn_inv_step:
  assumes "kahn_inv g (i # queue) deg order" "relax (targets g i) deg queue = (deg', queue')"
  shows "kahn_inv g queue' deg' (order @ [i])"
proof -
  note inv = assms(1)[unfolded kahn_inv_def]
  have i: "i \<notin> set order" "i \<in> set (ids g)" using inv by auto
  have deg': "deg' j = open_in g (order @ [i]) j" if "j \<in> set (ids g)" for j
    using relax_deg[OF assms(2), of j] inv that by (simp add: open_in_snoc[OF i(1)])
  have "int (count_list (targets g i) j) \<le> deg j" if "j \<in> set (targets g i)" for j
    using deg'[of j] relax_deg[OF assms(2), of j] that targets_ids[of g i] by (auto simp: open_in_def)
  from relax_queue[OF assms(2) this] obtain new where
    new: "queue' = queue @ new" "distinct new" "set new = {j \<in> set (targets g i). deg' j = 0}" by blast
  have pos: "deg j > 0" if "j \<in> set (targets g i)" for j
  proof -
    have "0 < count_list (targets g i) j" using that count_list_0_iff[of "targets g i" j] by linarith
    moreover have "0 \<le> deg' j" using deg'[of j] that targets_ids[of g i] by (auto simp: open_in_def)
    ultimately show ?thesis using relax_deg[OF assms(2), of j] by linarith
  qed
  have zero: "deg' j = 0 \<longleftrightarrow> j \<in> set ((order @ [i]) @ queue')" if j: "j \<in> set (ids g)" for j
  proof (cases "j \<in> set (targets g i)")
    case True
    with pos[OF True] inv j have "j \<notin> set order \<union> set (i # queue)" by auto
    with True new show ?thesis by auto
  next
    case False
    then have "deg' j = deg j" using relax_deg[OF assms(2), of j] by (simp add: count_list_0_iff)
    with False new inv j show ?thesis by auto
  qed
  have "set new \<inter> set (order @ i # queue) = {}"
  proof -
    have "j \<notin> set (order @ i # queue)" if "j \<in> set (targets g i)" for j
    proof -
      have j: "j \<in> set (ids g)" using that targets_ids[of g i] by blast
      have "deg j = 0 \<longleftrightarrow> j \<in> set (order @ i # queue)" using inv j by blast
      with pos[OF that] show ?thesis by simp
    qed
    with new show ?thesis by blast
  qed
  then have "distinct ((order @ [i]) @ queue')" using inv new by auto
  moreover have "set ((order @ [i]) @ queue') \<subseteq> set (ids g)"
    using inv new targets_ids[of g i] by auto
  moreover have "e_from e \<in> set xs" if "e \<in> set (counted g)" "order @ [i] = xs @ e_to e # ys" for e xs ys
  proof (cases ys rule: rev_cases)
    case Nil
    with that have x: "xs = order" "e_to e = i" by auto
    have "open_in g order i = 0" using inv i by auto
    with that x show ?thesis by (auto simp: open_in_0)
  next
    case (snoc zs z)
    with that inv show ?thesis by auto
  qed
  ultimately show ?thesis using deg' zero by (simp add: kahn_inv_def)
qed

lemma kahn_inv_end:
  "kahn_inv g queue deg order \<Longrightarrow> \<exists>deg'. kahn_inv g [] deg' (kahn g queue deg order)"
proof (induction g queue deg order rule: kahn.induct)
  case (1 g deg order)
  then show ?case by (auto simp: kahn.simps)
next
  case (2 g i queue deg order)
  obtain deg' queue' where r: "relax (targets g i) deg queue = (deg', queue')" by fastforce
  from "2.IH"[OF refl r[symmetric] kahn_inv_step[OF "2.prems" r]] r show ?case
    by (simp add: kahn.simps)
qed

section \<open>The order\<close>

definition precedes :: "graph \<Rightarrow> (string \<times> string) set" where
  "precedes g = {(a, b). \<exists>e\<in>set (edges g). e_from e = a \<and> e_to e = b \<and> a \<in> set (ids g) \<and> b \<in> set (ids g)}"

lemma precedes_counted: "(a, b) \<in> precedes g \<longleftrightarrow> (\<exists>e\<in>set (counted g). e_from e = a \<and> e_to e = b)"
  by (auto simp: precedes_def counted_def)

lemma kahn_result:
  assumes "distinct (ids g)"
  obtains deg where "kahn_inv g [] deg (kahn g (filter (\<lambda>i. in_degree g i = 0) (ids g)) (in_degree g) [])"
  using kahn_inv_end[OF kahn_inv_start[OF assms]] by blast

lemma ids_length: "length (ids g) = length (nodes g)"
  by (simp add: ids_def)

lemma topo_order_props:
  assumes "distinct (ids g)" "topo_order g = Inr order"
  shows "distinct order" "set order = set (ids g)"
    "(a, b) \<in> precedes g \<Longrightarrow> order = xs @ b # ys \<Longrightarrow> a \<in> set xs"
proof -
  obtain deg where inv: "kahn_inv g [] deg order" and len: "length order = length (ids g)"
    using assms by (auto simp: topo_order_def Let_def ids_length intro: kahn_result split: if_splits)
  show d: "distinct order" using inv by (simp add: kahn_inv_def)
  have "set order \<subseteq> set (ids g)" using inv by (simp add: kahn_inv_def)
  moreover have "card (set order) = card (set (ids g))" using d assms(1) len by (simp add: distinct_card)
  ultimately show "set order = set (ids g)" by (simp add: card_subset_eq)
  show "(a, b) \<in> precedes g \<Longrightarrow> order = xs @ b # ys \<Longrightarrow> a \<in> set xs"
    using inv by (auto simp: kahn_inv_def precedes_counted)
qed

lemma topo_order_acyclic:
  assumes "distinct (ids g)" "topo_order g = Inr order"
  shows "acyclic (precedes g)"
proof -
  have "precedes g \<subseteq> {(a, b). \<exists>i j. i < j \<and> j < length order \<and> order ! i = a \<and> order ! j = b}"
  proof (rule subrelI)
    fix a b assume ab: "(a, b) \<in> precedes g"
    then have "b \<in> set order" using topo_order_props(2)[OF assms] by (auto simp: precedes_def)
    then obtain xs ys where o: "order = xs @ b # ys" by (meson split_list)
    then have "a \<in> set xs" using topo_order_props(3)[OF assms ab] by blast
    then obtain i where "i < length xs" "xs ! i = a" by (auto simp: in_set_conv_nth)
    then have "i < length xs \<and> length xs < length order \<and> order ! i = a \<and> order ! length xs = b"
      by (simp add: o nth_append)
    then show "(a, b) \<in> {(a, b). \<exists>i j. i < j \<and> j < length order \<and> order ! i = a \<and> order ! j = b}" by blast
  qed
  moreover have "wf {(a, b). \<exists>i j. i < j \<and> j < length order \<and> order ! i = a \<and> order ! j = b}"
  proof (rule wf_subset[OF wf_measure])
    let ?ix = "\<lambda>a. THE i. i < length order \<and> order ! i = a"
    have ix: "?ix (order ! i) = i" if "i < length order" for i
      using that topo_order_props(1)[OF assms] by (intro the_equality) (auto simp: nth_eq_iff_index_eq)
    show "{(a, b). \<exists>i j. i < j \<and> j < length order \<and> order ! i = a \<and> order ! j = b} \<subseteq> measure ?ix"
      by (auto simp: ix)
  qed
  ultimately show ?thesis by (meson acyclic_subset wf_acyclic)
qed

lemma topo_order_exists:
  assumes "distinct (ids g)" "acyclic (precedes g)"
  shows "\<exists>order. topo_order g = Inr order"
proof -
  obtain deg where inv: "kahn_inv g [] deg (kahn g (filter (\<lambda>i. in_degree g i = 0) (ids g)) (in_degree g) [])"
    (is "kahn_inv g [] deg ?o") using kahn_result[OF assms(1)] .
  have "finite (precedes g)"
    by (rule finite_subset[of _ "set (ids g) \<times> set (ids g)"]) (auto simp: precedes_def)
  then have wf: "wf (precedes g)" using assms(2) by (simp add: finite_acyclic_wf)
  have all: "i \<in> set (ids g) \<longrightarrow> i \<in> set ?o" for i
  proof (induction i rule: wf_induct_rule[OF wf])
    case (1 i)
    show ?case
    proof
      assume i: "i \<in> set (ids g)"
      have "open_in g ?o i = 0"
        unfolding open_in_0
      proof (intro ballI impI)
        fix e assume "e \<in> set (counted g)" "e_to e = i"
        then have "(e_from e, i) \<in> precedes g" "e_from e \<in> set (ids g)"
          by (auto simp: precedes_counted) (simp add: counted_def)
        with 1 show "e_from e \<in> set ?o" by blast
      qed
      moreover from inv have "\<forall>i\<in>set (ids g). open_in g ?o i = 0 \<longleftrightarrow> i \<in> set ?o"
        unfolding kahn_inv_def by (metis append_Nil2)
      ultimately show "i \<in> set ?o" using i by blast
    qed
  qed
  have "set ?o = set (ids g)" using all inv by (auto simp: kahn_inv_def)
  moreover have "distinct ?o" using inv by (simp add: kahn_inv_def)
  ultimately have "length ?o = length (nodes g)" using assms(1) by (metis distinct_card ids_length)
  then show ?thesis by (simp add: topo_order_def)
qed

section \<open>Reachability\<close>

definition walk :: "(string \<times> string) list \<Rightarrow> string option \<Rightarrow> (string \<times> string) set" where
  "walk A boundary = {(x, y). (x, y) \<in> set A \<and> boundary \<noteq> Some x}"

lemma walk_targets:
  "boundary \<noteq> Some x \<Longrightarrow> set (map snd (filter (\<lambda>a. fst a = x) A)) = walk A boundary `` {x}"
  by (force simp: walk_def)

lemma dfs_sound:
  "set (dfs A b stack seen) \<subseteq> set seen \<union> (walk A b)\<^sup>* `` set stack"
proof (induction A b stack seen rule: dfs.induct)
  case (2 A b x stack seen)
  show ?case
  proof (cases "x \<in> set seen \<or> b = Some x")
    case True
    with 2(1,2) show ?thesis by (auto simp: dfs.simps)
  next
    case False
    let ?ts = "map snd (filter (\<lambda>a. fst a = x) A)"
    have "y \<in> (walk A b)\<^sup>* `` {x}" if "y \<in> (walk A b)\<^sup>* `` set ?ts" for y
      using that False walk_targets[of b x A] by (auto intro: converse_rtrancl_into_rtrancl)
    then have "(walk A b)\<^sup>* `` set (rev ?ts @ stack) \<subseteq> (walk A b)\<^sup>* `` set (x # stack)"
      by (simp only: set_append set_rev Image_Un list.set) blast
    moreover have "x \<in> (walk A b)\<^sup>* `` set (x # stack)" by auto
    moreover have "dfs A b (x # stack) seen = dfs A b (rev ?ts @ stack) (x # seen)"
      using False by (simp add: dfs.simps)
    ultimately show ?thesis using "2.IH"(3) False by (simp only: list.set) blast
  qed
qed (simp add: dfs.simps)

lemma dfs_closed:
  "set seen \<subseteq> set (dfs A b stack seen) \<and> set stack \<subseteq> set (dfs A b stack seen) \<and>
   ((\<forall>x\<in>set seen. walk A b `` {x} \<subseteq> set seen \<union> set stack) \<longrightarrow>
    (\<forall>x\<in>set (dfs A b stack seen). walk A b `` {x} \<subseteq> set (dfs A b stack seen)))"
proof (induction A b stack seen rule: dfs.induct)
  case (2 A b x stack seen)
  consider "x \<in> set seen" | "x \<notin> set seen" "b = Some x" | "x \<notin> set seen" "b \<noteq> Some x" by blast
  then show ?case
  proof cases
    case 1
    then have "insert x (set seen \<union> set stack) = set seen \<union> set stack" by blast
    with "2.IH"(1)[OF 1] 1 show ?thesis by (simp add: dfs.simps) blast
  next
    case 2
    then have "walk A b `` {x} = {}" by (simp add: walk_def)
    with "2.IH"(2)[OF 2] 2 show ?thesis by (auto simp: dfs.simps)
  next
    case 3
    let ?d = "dfs A b (rev (map snd (filter (\<lambda>a. fst a = x) A)) @ stack) (x # seen)"
    have d: "dfs A b (x # stack) seen = ?d" using 3 by (simp add: dfs.simps)
    have t: "set (rev (map snd (filter (\<lambda>a. fst a = x) A))) = walk A b `` {x}"
      using walk_targets[OF 3(2), of A] by simp
    note ih = "2.IH"(3)[OF 3, unfolded set_append t list.set]
    have "\<forall>y\<in>set ?d. walk A b `` {y} \<subseteq> set ?d"
      if h: "\<forall>y\<in>set seen. walk A b `` {y} \<subseteq> set seen \<union> set (x # stack)"
    proof -
      have "\<forall>y\<in>insert x (set seen). walk A b `` {y} \<subseteq> insert x (set seen) \<union> (walk A b `` {x} \<union> set stack)"
        using h by auto
      with ih show ?thesis by blast
    qed
    with ih show ?thesis unfolding d by simp
  qed
qed (simp add: dfs.simps)

lemma dfs_reachable: "set (dfs A b stack []) = (walk A b)\<^sup>* `` set stack"
proof
  show "set (dfs A b stack []) \<subseteq> (walk A b)\<^sup>* `` set stack"
    using dfs_sound[of A b stack "[]"] by simp
next
  note c = dfs_closed[of "[]" A b stack]
  have "y \<in> set (dfs A b stack [])" if "(x, y) \<in> (walk A b)\<^sup>*" "x \<in> set stack" for x y
    using that
  proof (induction rule: rtrancl_induct)
    case base
    with c show ?case by blast
  next
    case (step y z)
    with c show ?case by auto
  qed
  then show "(walk A b)\<^sup>* `` set stack \<subseteq> set (dfs A b stack [])" by blast
qed

end
