(* ===== verification/Auto_Valid.thy ===== *)
theory Auto_Valid
  imports Auto_Topo
begin

text \<open>
  What the authoring-time validation of a graph automation decides: a declarative account of a
  well-formed graph, in terms of acyclicity and of reachability through the edges, and the
  shape of the loop regions the executor walks.
\<close>

section \<open>Well-formed loops\<close>

definition between :: "graph \<Rightarrow> string \<Rightarrow> string \<Rightarrow> string set" where
  "between g f l = {i. i \<in> set (ids g) \<and> i \<noteq> f \<and> i \<noteq> l \<and>
     (f, i) \<in> (walk (arcs g) (Some l))\<^sup>* \<and> (l, i) \<in> (walk (map (\<lambda>(a, b). (b, a)) (arcs g)) (Some f))\<^sup>*}"

definition good_vars :: "string \<Rightarrow> string \<Rightarrow> string option \<Rightarrow> nat option \<Rightarrow> bool" where
  "good_vars src itm idx cap \<longleftrightarrow>
     trim itm \<noteq> [] \<and> trim src \<noteq> [] \<and> (\<forall>ix. idx = Some ix \<longrightarrow> trim ix \<noteq> [] \<and> ix \<noteq> itm) \<and>
     (\<forall>m. cap = Some m \<longrightarrow> m \<le> MAX_LOOP_ITERATIONS)"

definition plain_node :: "graph \<Rightarrow> string \<Rightarrow> bool" where
  "plain_node g i \<longleftrightarrow> (case map_option node_kind (lookup_node g i) of
     Some (NTrigger _) \<Rightarrow> False | Some (NForEach _ _ _ _) \<Rightarrow> False | Some (NLoopEnd _) \<Rightarrow> False | _ \<Rightarrow> True)"

definition isolated :: "graph \<Rightarrow> string \<Rightarrow> string \<Rightarrow> string set \<Rightarrow> bool" where
  "isolated g f l B \<longleftrightarrow> (\<forall>e\<in>set (edges g).
     (e_to e \<in> B \<longrightarrow> e_from e \<in> insert f B) \<and> (e_from e \<in> B \<longrightarrow> e_to e \<in> insert l B) \<and>
     (e_from e = f \<longrightarrow> e_to e \<in> B) \<and> (e_to e = l \<longrightarrow> e_from e \<in> B))"

definition good_region :: "graph \<Rightarrow> string \<Rightarrow> string \<Rightarrow> bool" where
  "good_region g f l \<longleftrightarrow>
     between g f l \<noteq> {} \<and> card (between g f l) \<le> MAX_LOOP_BODY_NODES \<and>
     (\<forall>i\<in>between g f l. plain_node g i) \<and> isolated g f l (between g f l)"

definition good_loops :: "graph \<Rightarrow> bool" where
  "good_loops g \<longleftrightarrow>
     (\<forall>n\<in>set (nodes g). \<forall>src itm idx cap. node_kind n = NForEach src itm idx cap \<longrightarrow>
        good_vars src itm idx cap \<and>
        (\<exists>en. filter (\<lambda>l. node_kind l = NLoopEnd (node_id n)) (nodes g) = [en] \<and>
              good_region g (node_id n) (node_id en))) \<and>
     (\<forall>l\<in>set (nodes g). \<forall>f. node_kind l = NLoopEnd f \<longrightarrow>
        (\<exists>n\<in>set (nodes g). node_id n = f \<and> tag (node_kind n) = ''for_each''))"

section \<open>One region\<close>

lemma check_loop_vars_ok: "check_loop_vars f src itm idx cap = Inr u \<longleftrightarrow> good_vars src itm idx cap"
  by (cases idx; cases cap) (auto simp: check_loop_vars_def good_vars_def)

lemma loop_ends_filter:
  "filter (\<lambda>l. node_kind l = NLoopEnd f) (loop_ends g) = filter (\<lambda>l. node_kind l = NLoopEnd f) (nodes g)"
  unfolding loop_ends_def filter_filter by (rule filter_cong) auto

lemma paired_end_ok:
  "paired_end g f = Inr en \<longleftrightarrow> filter (\<lambda>l. node_kind l = NLoopEnd f) (nodes g) = [en]"
  by (auto simp: paired_end_def loop_ends_filter split: list.splits)

lemma region_body_between:
  "set topo = set (ids g) \<Longrightarrow> set (region_body g topo f l) = between g f l"
  by (auto simp: region_body_def between_def Let_def reachable_forward_def reachable_backward_def dfs_reachable)

lemma region_body_card:
  assumes "set topo = set (ids g)" "distinct topo"
  shows "length (region_body g topo f l) = card (between g f l)"
proof -
  have "distinct (region_body g topo f l)" using assms(2) by (simp add: region_body_def Let_def)
  then show ?thesis using region_body_between[OF assms(1)] by (metis distinct_card)
qed

lemma check_body_node_ok: "check_body_node g f i = Inr u \<longleftrightarrow> plain_node g i"
  by (auto simp: check_body_node_def plain_node_def split: option.splits node_kind.splits)

lemma check_isolation_ok:
  "(\<forall>e\<in>set (edges g). check_isolation f l body e = Inr ()) \<longleftrightarrow> isolated g f l (set body)"
  by (auto simp: check_isolation_def isolated_def Let_def)

definition region_at :: "graph \<Rightarrow> string list \<Rightarrow> string \<Rightarrow> string \<Rightarrow> string \<Rightarrow> string \<Rightarrow> string option \<Rightarrow> nat option \<Rightarrow> region" where
  "region_at g topo f l src itm idx cap =
     \<lparr>for_each = f, loop_end = l, reg_body = region_body g topo f l, source = src, item = itm,
      index = idx, max_iterations = cap\<rparr>"

lemma region_of_ok:
  assumes "set topo = set (ids g)" "distinct topo"
  shows "region_of g topo f src itm idx cap = Inr r \<longleftrightarrow>
    good_vars src itm idx cap \<and>
    (\<exists>en. filter (\<lambda>l. node_kind l = NLoopEnd f) (nodes g) = [en] \<and> good_region g f (node_id en) \<and>
          r = region_at g topo f (node_id en) src itm idx cap)"
proof -
  have ne: "region_body g topo f l \<noteq> [] \<longleftrightarrow> between g f l \<noteq> {}" for l
    using region_body_between[OF assms(1), of f l] by auto
  show ?thesis
    unfolding region_of_def Let_def bindE_Inr_iff check_loop_vars_ok paired_end_ok forE_ok_iff
      guardE_simps check_body_node_ok check_isolation_ok ne region_body_card[OF assms]
      region_body_between[OF assms(1)] good_region_def region_at_def
    by auto
qed

section \<open>All regions\<close>

lemma regions_from_ok:
  "regions_from g topo ns = Inr rs \<longleftrightarrow>
     list_all2 (\<lambda>n r. \<exists>src itm idx cap. node_kind n = NForEach src itm idx cap \<and>
                   region_of g topo (node_id n) src itm idx cap = Inr r)
       (filter (\<lambda>n. tag (node_kind n) = ''for_each'') ns) rs"
proof (induction ns arbitrary: rs)
  case (Cons n ns)
  then show ?case by (cases "node_kind n") (auto simp: list_all2_Cons1)
qed auto

lemma regions_from_total:
  "(\<exists>rs. regions_from g topo ns = Inr rs) \<longleftrightarrow>
     (\<forall>n\<in>set ns. \<forall>src itm idx cap. node_kind n = NForEach src itm idx cap \<longrightarrow>
        (\<exists>r. region_of g topo (node_id n) src itm idx cap = Inr r))"
proof (induction ns)
  case (Cons n ns)
  then show ?case by (cases "node_kind n") auto
qed simp

lemma check_orphan_ok: "check_orphan rs l = Inr u \<longleftrightarrow> node_id l \<in> loop_end ` set rs"
  by (simp add: check_orphan_def)

lemma region_heads:
  assumes "set topo = set (ids g)" "distinct topo" "regions_from g topo ns = Inr rs" "r \<in> set rs"
  shows "\<exists>n\<in>set ns. \<exists>src itm idx cap en. node_kind n = NForEach src itm idx cap \<and> good_vars src itm idx cap \<and>
    filter (\<lambda>l. node_kind l = NLoopEnd (node_id n)) (nodes g) = [en] \<and> good_region g (node_id n) (node_id en) \<and>
    r = region_at g topo (node_id n) (node_id en) src itm idx cap"
proof -
  from assms(4) obtain i where i: "i < length rs" "rs ! i = r" by (auto simp: in_set_conv_nth)
  let ?fs = "filter (\<lambda>n. tag (node_kind n) = ''for_each'') ns"
  from assms(3) have l: "list_all2 (\<lambda>n r. \<exists>src itm idx cap. node_kind n = NForEach src itm idx cap \<and>
      region_of g topo (node_id n) src itm idx cap = Inr r) ?fs rs" by (simp add: regions_from_ok)
  from list_all2_lengthD[OF l] i(1) have len: "i < length ?fs" by simp
  then have "?fs ! i \<in> set ?fs" by (rule nth_mem)
  then have "?fs ! i \<in> set ns" unfolding set_filter by blast
  moreover from list_all2_nthD[OF l len] i(2) have "\<exists>src itm idx cap. node_kind (?fs ! i) = NForEach src itm idx cap \<and>
      region_of g topo (node_id (?fs ! i)) src itm idx cap = Inr r" by simp
  ultimately show ?thesis unfolding region_of_ok[OF assms(1,2)] by blast
qed

lemma unique_node:
  "distinct (ids g) \<Longrightarrow> n \<in> set (nodes g) \<Longrightarrow> m \<in> set (nodes g) \<Longrightarrow> node_id n = node_id m \<Longrightarrow> n = m"
  by (auto simp: ids_def distinct_map dest: inj_onD)

lemma lookup_node_iff:
  "distinct (ids g) \<Longrightarrow> lookup_node g i = Some n \<longleftrightarrow> n \<in> set (nodes g) \<and> node_id n = i"
  unfolding lookup_node_def find_Some_iff
  by (auto simp: in_set_conv_nth ids_def distinct_conv_nth)

lemma for_each_tag: "tag k = ''for_each'' \<longleftrightarrow> (\<exists>src itm idx cap. k = NForEach src itm idx cap)"
  by (cases k) auto

lemma region_for:
  assumes "set topo = set (ids g)" "distinct topo" "regions_from g topo ns = Inr rs" "n \<in> set ns"
    and "node_kind n = NForEach src itm idx cap"
  shows "\<exists>r\<in>set rs. region_of g topo (node_id n) src itm idx cap = Inr r"
  using assms(3,4)
proof (induction ns arbitrary: rs)
  case (Cons m ns)
  show ?case
  proof (cases "m = n")
    case True
    with Cons.prems assms(5) show ?thesis by auto
  next
    case False
    with Cons.prems have "n \<in> set ns" by simp
    with Cons.prems(1) show ?thesis by (cases "node_kind m") (auto dest: Cons.IH)
  qed
qed simp

lemma for_each_regions_good:
  assumes "distinct (ids g)" "topo_order g = Inr topo"
  shows "(\<exists>rs. for_each_regions g = Inr rs) \<longleftrightarrow> good_loops g"
proof -
  have t: "set topo = set (ids g)" "distinct topo" using topo_order_props[OF assms] by auto
  have r: "for_each_regions g = Inr rs \<longleftrightarrow>
      regions_from g topo (nodes g) = Inr rs \<and> (\<forall>l\<in>set (loop_ends g). node_id l \<in> loop_end ` set rs)" for rs
    using assms(2) by (auto simp: for_each_regions_def Let_def check_orphan_ok)
  have heads: "(\<exists>rs. regions_from g topo (nodes g) = Inr rs) \<longleftrightarrow>
     (\<forall>n\<in>set (nodes g). \<forall>src itm idx cap. node_kind n = NForEach src itm idx cap \<longrightarrow>
        good_vars src itm idx cap \<and>
        (\<exists>en. filter (\<lambda>l. node_kind l = NLoopEnd (node_id n)) (nodes g) = [en] \<and>
              good_region g (node_id n) (node_id en)))"
    unfolding regions_from_total region_of_ok[OF t] by blast
  have ends: "l \<in> set (loop_ends g) \<longleftrightarrow> l \<in> set (nodes g) \<and> (\<exists>f. node_kind l = NLoopEnd f)" for l
    by (auto simp: loop_ends_def split: node_kind.splits)
  have "(\<forall>l\<in>set (loop_ends g). node_id l \<in> loop_end ` set rs) \<longleftrightarrow>
     (\<forall>l\<in>set (nodes g). \<forall>f. node_kind l = NLoopEnd f \<longrightarrow>
        (\<exists>n\<in>set (nodes g). node_id n = f \<and> tag (node_kind n) = ''for_each''))"
    if rs: "regions_from g topo (nodes g) = Inr rs" for rs
  proof (intro iffI ballI allI impI)
    fix l f
    assume "\<forall>l\<in>set (loop_ends g). node_id l \<in> loop_end ` set rs"
      and l: "l \<in> set (nodes g)" "node_kind l = NLoopEnd f"
    then obtain x where x: "x \<in> set rs" "loop_end x = node_id l" using ends[of l] by force
    from region_heads[OF t rs x(1)] obtain n src itm idx cap en where
      n: "n \<in> set (nodes g)" "node_kind n = NForEach src itm idx cap"
        "filter (\<lambda>l. node_kind l = NLoopEnd (node_id n)) (nodes g) = [en]"
        "x = region_at g topo (node_id n) (node_id en) src itm idx cap" by blast
    have "en \<in> set (filter (\<lambda>l. node_kind l = NLoopEnd (node_id n)) (nodes g))" using n(3) by simp
    then have en: "en \<in> set (nodes g)" "node_kind en = NLoopEnd (node_id n)" by auto
    have "node_id en = node_id l" using x(2) n(4) by (simp add: region_at_def)
    then have "en = l" using unique_node[OF assms(1) en(1) l(1)] by simp
    with en(2) l(2) n(1,2) show "\<exists>n\<in>set (nodes g). node_id n = f \<and> tag (node_kind n) = ''for_each''"
      by (intro bexI[of _ n]) auto
  next
    fix l
    assume h: "\<forall>l\<in>set (nodes g). \<forall>f. node_kind l = NLoopEnd f \<longrightarrow>
        (\<exists>n\<in>set (nodes g). node_id n = f \<and> tag (node_kind n) = ''for_each'')"
      and "l \<in> set (loop_ends g)"
    then obtain f where l: "l \<in> set (nodes g)" "node_kind l = NLoopEnd f" using ends[of l] by blast
    with h obtain n src itm idx cap where n: "n \<in> set (nodes g)" "node_id n = f" "node_kind n = NForEach src itm idx cap"
      unfolding for_each_tag by blast
    from region_for[OF t rs n(1,3)] obtain x en where x: "x \<in> set rs"
      "filter (\<lambda>l. node_kind l = NLoopEnd (node_id n)) (nodes g) = [en]" "loop_end x = node_id en"
      unfolding region_of_ok[OF t] by (auto simp: region_at_def)
    have "l \<in> set (filter (\<lambda>l. node_kind l = NLoopEnd (node_id n)) (nodes g))" using l n(2) by simp
    then have "l = en" using x(2) by simp
    with x show "node_id l \<in> loop_end ` set rs" by (metis imageI)
  qed
  then show ?thesis unfolding r good_loops_def heads[symmetric] by blast
qed

section \<open>The whole check\<close>

definition well_formed_graph :: "graph \<Rightarrow> bool" where
  "well_formed_graph g \<longleftrightarrow>
     distinct (ids g) \<and>
     (\<forall>e\<in>set (edges g). e_from e \<in> set (ids g) \<and> e_to e \<in> set (ids g)) \<and>
     (\<exists>n\<in>set (nodes g). is_trigger n) \<and>
     (\<forall>e\<in>set (edges g). \<forall>n\<in>set (nodes g). is_trigger n \<longrightarrow> e_to e \<noteq> node_id n) \<and>
     (\<forall>n\<in>set (nodes g). is_collect_node n \<longrightarrow> filter is_trigger (nodes g) = [n]) \<and>
     (\<forall>n\<in>set (nodes g). \<forall>t i. node_kind n = NTrigger t \<and> commit_on t = Some i \<longrightarrow>
        (\<exists>m\<in>set (nodes g). node_id m = i \<and> tag (node_kind m) = ''action'')) \<and>
     (\<forall>e\<in>set (edges g). \<forall>n\<in>set (nodes g). node_id n = e_from e \<and> tag (node_kind n) = ''condition'' \<longrightarrow>
        from_port e \<in> {''true'', ''false''}) \<and>
     acyclic (precedes g) \<and>
     good_loops g"

lemma check_unique_ok: "check_unique seen ns = Inr u \<longleftrightarrow> distinct (map node_id ns) \<and> set seen \<inter> node_id ` set ns = {}"
  by (induction ns arbitrary: seen) auto

lemma collect_alone:
  assumes "distinct (ids g)"
  shows "\<not> (list_ex is_collect_node (trigger_nodes g) \<and> 1 < length (trigger_nodes g)) \<longleftrightarrow>
    (\<forall>n\<in>set (nodes g). is_collect_node n \<longrightarrow> filter is_trigger (nodes g) = [n])"
proof -
  have ct: "is_collect_node n \<Longrightarrow> is_trigger n" for n
    by (simp add: is_collect_node_def is_trigger_def split: node_kind.splits)
  show ?thesis
  proof (intro iffI ballI impI)
    fix n assume a: "\<not> (list_ex is_collect_node (trigger_nodes g) \<and> 1 < length (trigger_nodes g))"
      and n: "n \<in> set (nodes g)" "is_collect_node n"
    then have m: "n \<in> set (trigger_nodes g)" using ct by (simp add: trigger_nodes_def)
    with a n(2) have "length (trigger_nodes g) \<le> 1" by (auto simp: list_ex_iff)
    with m show "filter is_trigger (nodes g) = [n]"
      unfolding trigger_nodes_def[symmetric] by (cases "trigger_nodes g") auto
  next
    assume a: "\<forall>n\<in>set (nodes g). is_collect_node n \<longrightarrow> filter is_trigger (nodes g) = [n]"
    show "\<not> (list_ex is_collect_node (trigger_nodes g) \<and> 1 < length (trigger_nodes g))"
    proof
      assume "list_ex is_collect_node (trigger_nodes g) \<and> 1 < length (trigger_nodes g)"
      then obtain n where "n \<in> set (nodes g)" "is_collect_node n" "1 < length (trigger_nodes g)"
        by (auto simp: list_ex_iff trigger_nodes_def)
      with a show False by (simp add: trigger_nodes_def)
    qed
  qed
qed

lemma check_commit_on_ok:
  assumes "distinct (ids g)"
  shows "check_commit_on g n = Inr u \<longleftrightarrow>
    (\<forall>t i. node_kind n = NTrigger t \<and> commit_on t = Some i \<longrightarrow>
        (\<exists>m\<in>set (nodes g). node_id m = i \<and> tag (node_kind m) = ''action''))"
proof -
  have "(case map_option node_kind (lookup_node g i) of
           None \<Rightarrow> Inl e1 | Some (NAction _) \<Rightarrow> Inr () | Some _ \<Rightarrow> Inl e2) = Inr u \<longleftrightarrow>
        (\<exists>m\<in>set (nodes g). node_id m = i \<and> tag (node_kind m) = ''action'')" for i and e1 e2 :: graph_error
  proof (cases "lookup_node g i")
    case None
    then have "\<nexists>m. m \<in> set (nodes g) \<and> node_id m = i" using lookup_node_iff[OF assms, of i] by force
    then show ?thesis using None by auto
  next
    case (Some m)
    then have "m \<in> set (nodes g) \<and> node_id m = i" using lookup_node_iff[OF assms] by blast
    moreover have "\<forall>m'\<in>set (nodes g). node_id m' = i \<longrightarrow> m' = m"
      using calculation unique_node[OF assms] by blast
    ultimately show ?thesis using Some by (cases "node_kind m") force+
  qed
  then show ?thesis unfolding check_commit_on_def by (auto split: node_kind.splits option.splits)
qed

lemma check_port_ok:
  "check_port g e = Inr u \<longleftrightarrow> (\<forall>n\<in>set (nodes g). node_id n = e_from e \<and> tag (node_kind n) = ''condition'' \<longrightarrow>
        from_port e \<in> {''true'', ''false''})"
proof -
  have "tag k = ''condition'' \<longleftrightarrow> (case k of NCondition _ _ \<Rightarrow> True | _ \<Rightarrow> False)" for k
    by (cases k) auto
  then have "e_from e \<in> set (condition_ids g) \<longleftrightarrow>
      (\<exists>n\<in>set (nodes g). node_id n = e_from e \<and> tag (node_kind n) = ''condition'')"
    by (simp add: condition_ids_def image_iff) metis
  then show ?thesis by (auto simp: check_port_def)
qed

lemma validate_graph_ok: "validate_graph g = Inr () \<longleftrightarrow> well_formed_graph g"
proof (cases "distinct (ids g)")
  case d: True
  have topo: "(\<exists>t. topo_order g = Inr t) \<longleftrightarrow> acyclic (precedes g)"
    using topo_order_exists[OF d] topo_order_acyclic[OF d] by blast
  have "check_unique [] (nodes g) = Inr ()" using d by (simp add: check_unique_ok ids_def)
  moreover have "(\<forall>e\<in>set (edges g). e_to e \<notin> node_id ` set (trigger_nodes g)) \<longleftrightarrow>
      (\<forall>e\<in>set (edges g). \<forall>n\<in>set (nodes g). is_trigger n \<longrightarrow> e_to e \<noteq> node_id n)"
    by (auto simp: trigger_nodes_def)
  moreover have "trigger_nodes g \<noteq> [] \<longleftrightarrow> (\<exists>n\<in>set (nodes g). is_trigger n)"
    by (simp add: trigger_nodes_def filter_empty_conv)
  moreover have "(\<exists>t. topo_order g = Inr t \<and> (\<exists>rs. for_each_regions g = Inr rs)) \<longleftrightarrow>
      acyclic (precedes g) \<and> good_loops g"
    using topo for_each_regions_good[OF d] by blast
  ultimately show ?thesis
    unfolding validate_graph_def well_formed_graph_def
    by (simp add: check_commit_on_ok[OF d] check_port_ok check_endpoints_def
        collect_alone[OF d, simplified] d del: not_less not_le)
next
  case False
  then show ?thesis by (auto simp: validate_graph_def well_formed_graph_def check_unique_ok ids_def)
qed

section \<open>Disjoint regions\<close>

text \<open>A walk that ends in a region and starts outside it goes through the region's head.\<close>

lemma enter_region:
  assumes "isolated g f l B" "(a, x) \<in> (walk (arcs g) b)\<^sup>*" "x \<in> B" "a \<notin> B"
  shows "(a, f) \<in> (walk (arcs g) b)\<^sup>* \<and> (f, x) \<in> (walk (arcs g) b)\<^sup>*"
  using assms(2,3)
proof (induction rule: rtrancl_induct)
  case base
  with assms(4) show ?case by simp
next
  case (step y z)
  from step.hyps(2) obtain e where e: "e \<in> set (edges g)" "e_from e = y" "e_to e = z"
    by (auto simp: walk_def arcs_def)
  with assms(1) step.prems have y: "y = f \<or> y \<in> B" unfolding isolated_def by blast
  then show ?case
  proof
    assume "y = f"
    with step.hyps show ?thesis by blast
  next
    assume "y \<in> B"
    with step.IH step.hyps(2) show ?thesis by (meson rtrancl.rtrancl_into_rtrancl)
  qed
qed

lemma back_walk:
  assumes "(f, x) \<in> (walk (arcs g) b)\<^sup>*" "isolated g f l B" "x \<in> B" "h \<notin> B" "h \<noteq> f"
  shows "(x, f) \<in> (walk (map (\<lambda>(a, b). (b, a)) (arcs g)) (Some h))\<^sup>*"
proof -
  have "y = f \<or> y \<in> B \<Longrightarrow> (y, f) \<in> (walk (map (\<lambda>(a, b). (b, a)) (arcs g)) (Some h))\<^sup>*"
    if "(f, y) \<in> (walk (arcs g) b)\<^sup>*" for y
    using that
  proof (induction rule: rtrancl_induct)
    case base
    then show ?case by simp
  next
    case (step y z)
    from step.hyps(2) obtain e where e: "e \<in> set (edges g)" "e_from e = y" "e_to e = z"
      by (auto simp: walk_def arcs_def)
    show ?case
    proof (cases "z = f")
      case False
      with step.prems have z: "z \<in> B" by blast
      with assms(2) e have y: "y = f \<or> y \<in> B" unfolding isolated_def by blast
      have "z \<noteq> h" using z assms(4) by blast
      with e have "(z, y) \<in> walk (map (\<lambda>(a, b). (b, a)) (arcs g)) (Some h)"
        by (force simp: walk_def arcs_def)
      with step.IH[OF y] show ?thesis by (meson converse_rtrancl_into_rtrancl)
    qed simp
  qed
  with assms(1,3) show ?thesis by blast
qed

lemma regions_disjoint_aux:
  assumes "good_region g f l" "good_region g h m" "f \<noteq> h" "f \<noteq> m" "\<not> plain_node g f" "\<not> plain_node g h"
    and "f \<in> set (ids g)"
  shows "between g f l \<inter> between g h m = {}"
proof (rule ccontr)
  assume "between g f l \<inter> between g h m \<noteq> {}"
  then obtain x where x: "x \<in> between g f l" "x \<in> between g h m" by blast
  have nb: "h \<notin> between g f l" "f \<notin> between g h m"
    using assms(1,2,5,6) by (auto simp: good_region_def)
  have iso: "isolated g f l (between g f l)" using assms(1) by (simp add: good_region_def)
  have hx: "(h, x) \<in> (walk (arcs g) (Some m))\<^sup>*" and mx: "(m, x) \<in> (walk (map (\<lambda>(a, b). (b, a)) (arcs g)) (Some h))\<^sup>*"
    using x(2) by (simp_all add: between_def)
  from enter_region[OF iso hx x(1) nb(1)] have hf: "(h, f) \<in> (walk (arcs g) (Some m))\<^sup>*"
    and fx: "(f, x) \<in> (walk (arcs g) (Some m))\<^sup>*" by auto
  from back_walk[OF fx iso x(1) nb(1)] assms(3)
  have "(x, f) \<in> (walk (map (\<lambda>(a, b). (b, a)) (arcs g)) (Some h))\<^sup>*" by simp
  with mx have "(m, f) \<in> (walk (map (\<lambda>(a, b). (b, a)) (arcs g)) (Some h))\<^sup>*" by simp
  with hf assms(3,4,7) have "f \<in> between g h m" by (simp add: between_def)
  with nb show False by simp
qed

lemma for_each_regions_from:
  assumes "distinct (ids g)" "topo_order g = Inr topo" "for_each_regions g = Inr rs"
  shows "regions_from g topo (nodes g) = Inr rs"
  using assms by (auto simp: for_each_regions_def Let_def)

lemma regions_heads_list:
  assumes "set topo = set (ids g)" "distinct topo" "regions_from g topo ns = Inr rs"
  shows "map for_each rs = map node_id (filter (\<lambda>n. tag (node_kind n) = ''for_each'') ns)"
  using assms(3)
proof (induction ns arbitrary: rs)
  case (Cons n ns)
  then show ?case by (cases "node_kind n") (auto simp: region_of_ok[OF assms(1,2)] region_at_def)
qed simp

lemma heads_distinct:
  assumes "distinct (ids g)" "regions_from g topo (nodes g) = Inr rs" "set topo = set (ids g)" "distinct topo"
  shows "distinct (map for_each rs)"
  unfolding regions_heads_list[OF assms(3,4,2)]
  using assms(1) by (simp add: ids_def distinct_map_filter)

lemma region_facts:
  assumes "distinct (ids g)" "topo_order g = Inr topo" "for_each_regions g = Inr rs" "r \<in> set rs"
  shows "\<exists>n\<in>set (nodes g). \<exists>en\<in>set (nodes g). node_id n = for_each r \<and>
      node_kind n = NForEach (source r) (item r) (index r) (max_iterations r) \<and>
      good_vars (source r) (item r) (index r) (max_iterations r) \<and>
      node_id en = loop_end r \<and> node_kind en = NLoopEnd (for_each r) \<and>
      good_region g (for_each r) (loop_end r) \<and> reg_body r = region_body g topo (for_each r) (loop_end r)"
proof -
  have t: "set topo = set (ids g)" "distinct topo" using topo_order_props[OF assms(1,2)] by auto
  from region_heads[OF t for_each_regions_from[OF assms(1-3)] assms(4)] obtain n src itm idx cap en where
    n: "n \<in> set (nodes g)" "node_kind n = NForEach src itm idx cap" "good_vars src itm idx cap"
      "filter (\<lambda>l. node_kind l = NLoopEnd (node_id n)) (nodes g) = [en]"
      "good_region g (node_id n) (node_id en)" "r = region_at g topo (node_id n) (node_id en) src itm idx cap"
    by blast
  have "en \<in> set (filter (\<lambda>l. node_kind l = NLoopEnd (node_id n)) (nodes g))" using n(4) by simp
  then have "en \<in> set (nodes g)" "node_kind en = NLoopEnd (node_id n)" by auto
  with n show ?thesis by (intro bexI[of _ n] bexI[of _ en]) (auto simp: region_at_def)
qed

lemma not_plain:
  assumes "distinct (ids g)" "n \<in> set (nodes g)" "tag (node_kind n) \<in> {''trigger'', ''for_each'', ''loop_end''}"
  shows "\<not> plain_node g (node_id n)"
proof -
  have "lookup_node g (node_id n) = Some n" using lookup_node_iff[OF assms(1)] assms(2) by blast
  with assms(3) show ?thesis by (cases "node_kind n") (auto simp: plain_node_def)
qed

lemma regions_pairwise:
  assumes "distinct (ids g)" "topo_order g = Inr topo" "for_each_regions g = Inr rs"
    and "r \<in> set rs" "q \<in> set rs" "for_each r \<noteq> for_each q"
  shows "set (reg_body r) \<inter> set (reg_body q) = {}"
proof -
  have t: "set topo = set (ids g)" "distinct topo" using topo_order_props[OF assms(1,2)] by auto
  from region_facts[OF assms(1-4)] obtain n where n: "n \<in> set (nodes g)" "node_id n = for_each r"
    "tag (node_kind n) = ''for_each''" "good_region g (for_each r) (loop_end r)"
    "reg_body r = region_body g topo (for_each r) (loop_end r)" by auto
  from region_facts[OF assms(1-3,5)] obtain m em where m: "m \<in> set (nodes g)" "node_id m = for_each q"
    "tag (node_kind m) = ''for_each''" "good_region g (for_each q) (loop_end q)"
    "reg_body q = region_body g topo (for_each q) (loop_end q)"
    "em \<in> set (nodes g)" "node_id em = loop_end q" "tag (node_kind em) = ''loop_end''" by auto
  have "for_each r \<noteq> loop_end q" using unique_node[OF assms(1) n(1) m(6)] n(2,3) m(7,8) by auto
  moreover have "\<not> plain_node g (for_each r)" "\<not> plain_node g (for_each q)"
    using not_plain[OF assms(1) n(1)] not_plain[OF assms(1) m(1)] n(2,3) m(2,3) by auto
  moreover have "for_each r \<in> set (ids g)" using n(1,2) by (force simp: ids_def)
  ultimately have "between g (for_each r) (loop_end r) \<inter> between g (for_each q) (loop_end q) = {}"
    using regions_disjoint_aux[OF n(4) m(4) assms(6)] by blast
  then show ?thesis by (simp add: n(5) m(5) region_body_between[OF t(1)])
qed

section \<open>Properties\<close>

text \<open>
  C26: the topological order. On a graph with unique ids Kahn's algorithm returns a permutation
  of the ids in which the source of every edge between nodes comes before its target, and it
  reports a cycle exactly when the edges are not acyclic.
\<close>

theorem topo_order_exact:
  assumes "distinct (ids g)"
  shows "case topo_order g of
      Inr order \<Rightarrow> distinct order \<and> set order = set (ids g) \<and> acyclic (precedes g) \<and>
        (\<forall>(a, b)\<in>precedes g. \<forall>xs ys. order = xs @ b # ys \<longrightarrow> a \<in> set xs)
    | Inl e \<Rightarrow> e = Cycle \<and> \<not> acyclic (precedes g)"
proof (cases "topo_order g")
  case (Inl e)
  moreover have "e = Cycle" using Inl by (auto simp: topo_order_def Let_def split: if_splits)
  ultimately show ?thesis using topo_order_exists[OF assms] by auto
next
  case (Inr order)
  with topo_order_props[OF assms Inr] topo_order_acyclic[OF assms Inr] show ?thesis by auto
qed

definition note_graph :: graph where
  "note_graph = \<lparr>nodes = [
       \<lparr>node_id = ''write'', node_kind = NAction \<lparr>act_kind = CreateNote, params = []\<rparr>\<rparr>,
       \<lparr>node_id = ''start'', node_kind = NTrigger (OnSignal ''go'')\<rparr>],
     edges = [\<lparr>e_from = ''start'', e_to = ''write'', from_port = [], to_port = []\<rparr>]\<rparr>"

lemmas graph_run = ids_def topo_order_def counted_def in_degree_def targets_def kahn.simps
  note_graph_def

lemma note_graph_topo: "topo_order note_graph = Inr [''start'', ''write'']"
  by (simp add: graph_run Let_def)

theorem topo_order_exact_witness: "acyclic (precedes note_graph)"
  using topo_order_exact[of note_graph] unfolding note_graph_topo
  by (simp add: ids_def note_graph_def)

text \<open>
  C25: validation decides well-formedness. A graph validates exactly when its ids are unique, its
  edges join existing nodes, it has a trigger, no edge enters a trigger, a collect trigger
  stands alone and gates on an existing action, a condition uses only its two ports, the edges
  are acyclic, and every loop head has one loop end, sound variables, and between them a
  non-empty body of bounded size, without trigger or nested loop, that no other edge enters or
  leaves.
\<close>

theorem validate_graph_exact: "validate_graph g = Inr () \<longleftrightarrow> well_formed_graph g"
  by (rule validate_graph_ok)

text \<open>
  Loop regions. In a graph that validates, the regions resolve; each pairs a head with the
  end naming it, has a body of 1 to 256 distinct nodes closed under the edges up to head and end,
  and two regions share no body node.
\<close>

theorem loop_regions_sound:
  assumes "validate_graph g = Inr ()"
  shows "\<exists>rs. for_each_regions g = Inr rs \<and> distinct (map for_each rs) \<and>
    (\<forall>r\<in>set rs. reg_body r \<noteq> [] \<and> length (reg_body r) \<le> MAX_LOOP_BODY_NODES \<and> distinct (reg_body r) \<and>
       isolated g (for_each r) (loop_end r) (set (reg_body r)) \<and>
       (\<forall>q\<in>set rs. for_each r \<noteq> for_each q \<longrightarrow> set (reg_body r) \<inter> set (reg_body q) = {}))"
proof -
  have d: "distinct (ids g)" using assms validate_graph_ok by (simp add: well_formed_graph_def)
  from assms obtain topo rs where g: "topo_order g = Inr topo" "for_each_regions g = Inr rs"
    by (auto simp: validate_graph_def)
  have t: "set topo = set (ids g)" "distinct topo" using topo_order_props[OF d g(1)] by auto
  have "reg_body r \<noteq> [] \<and> length (reg_body r) \<le> MAX_LOOP_BODY_NODES \<and> distinct (reg_body r) \<and>
       isolated g (for_each r) (loop_end r) (set (reg_body r))" if r: "r \<in> set rs" for r
  proof -
    from region_facts[OF d g r] have gr: "good_region g (for_each r) (loop_end r)"
      and b: "reg_body r = region_body g topo (for_each r) (loop_end r)" by auto
    have "distinct (reg_body r)" using t(2) by (simp add: b region_body_def Let_def)
    with gr show ?thesis
      using region_body_between[OF t(1), of "for_each r" "loop_end r"]
        region_body_card[OF t, of "for_each r" "loop_end r"]
      by (auto simp: good_region_def b)
  qed
  then show ?thesis
    using g(2) regions_pairwise[OF d g] heads_distinct[OF d for_each_regions_from[OF d g] t] by blast
qed

definition loop_graph :: graph where
  "loop_graph = \<lparr>nodes = [
       \<lparr>node_id = ''t'', node_kind = NTrigger (OnSignal ''go'')\<rparr>,
       \<lparr>node_id = ''f'', node_kind = NForEach ''trigger.items'' ''x'' None None\<rparr>,
       \<lparr>node_id = ''b'', node_kind = NAction \<lparr>act_kind = CreateNote, params = []\<rparr>\<rparr>,
       \<lparr>node_id = ''l'', node_kind = NLoopEnd ''f''\<rparr>],
     edges = [\<lparr>e_from = ''t'', e_to = ''f'', from_port = [], to_port = []\<rparr>,
       \<lparr>e_from = ''f'', e_to = ''b'', from_port = [], to_port = []\<rparr>,
       \<lparr>e_from = ''b'', e_to = ''l'', from_port = [], to_port = []\<rparr>]\<rparr>"

lemmas loop_run = graph_run loop_graph_def for_each_regions_def region_of_def check_loop_vars_def
  paired_end_def loop_ends_def region_body_def reachable_forward_def reachable_backward_def
  arcs_def dfs.simps MAX_LOOP_BODY_NODES_def check_body_node_def lookup_node_def check_isolation_def
  check_orphan_def guardE_def trim_def trim_end_by_def is_whitespace_def

lemma loop_graph_topo: "topo_order loop_graph = Inr [''t'', ''f'', ''b'', ''l'']"
  by (simp add: graph_run loop_graph_def Let_def)

lemma loop_graph_regions: "for_each_regions loop_graph =
    Inr [\<lparr>for_each = ''f'', loop_end = ''l'', reg_body = [''b''], source = ''trigger.items'', item = ''x'',
          index = None, max_iterations = None\<rparr>]"
  unfolding for_each_regions_def loop_graph_topo
  by (simp add: loop_run Let_def)

lemma loop_graph_valid: "validate_graph loop_graph = Inr ()"
  unfolding validate_graph_def loop_graph_topo loop_graph_regions
  by (simp add: loop_graph_def check_endpoints_def ids_def trigger_nodes_def is_trigger_def
      is_collect_node_def check_commit_on_def check_port_def condition_ids_def guardE_def)

theorem loop_regions_sound_witness: "isolated loop_graph ''f'' ''l'' {''b''}"
  using loop_regions_sound[OF loop_graph_valid] unfolding loop_graph_regions by simp

end
