(* ===== verification/Auto_Walk.thy ===== *)
theory Auto_Walk
  imports Auto_Journal Auto_Valid
begin

text \<open>
  A graph run over any journal that keeps the contract \<open>run_journal\<close>: it never fails out of band,
  it journals every node outside a loop exactly once, it leaves the steps a prior attempt
  completed as they were, and it ends the run as failed only with a failed step on record.
\<close>

section \<open>The journaled steps of a run\<close>

text \<open>
  \<open>base\<close> is the step map a run starts from and \<open>m\<close> the one it has reached; \<open>H\<close> are the ordinals
  whose step is rewritten even when it was complete (loop heads), \<open>L\<close> the ordinals that must
  have been processed and \<open>U\<close> those that may have been.
\<close>

definition settled :: "step \<Rightarrow> bool" where
  "settled s \<longleftrightarrow> step_status s = Succeeded \<or> step_status s = Skipped"

definition kept :: "(int \<rightharpoonup> step) \<Rightarrow> int set \<Rightarrow> (int \<rightharpoonup> step) \<Rightarrow> bool" where
  "kept base H m \<longleftrightarrow> (\<forall>ord s. base ord = Some s \<and> settled s \<and> ord \<notin> H \<longrightarrow> m ord = Some s)"

definition sound :: "(int \<rightharpoonup> step) \<Rightarrow> int set \<Rightarrow> int set \<Rightarrow> int set \<Rightarrow> (int \<rightharpoonup> step) \<Rightarrow> bool" where
  "sound base H L U m \<longleftrightarrow>
     (\<exists>T. L \<subseteq> T \<and> T \<subseteq> U \<and> (\<forall>ord. ord \<notin> T \<longrightarrow> m ord = base ord) \<and>
        (\<forall>ord\<in>T. \<exists>s. m ord = Some s \<and> step_status s \<noteq> Failed)) \<and> kept base H m"

definition torn :: "(int \<rightharpoonup> step) \<Rightarrow> int set \<Rightarrow> int set \<Rightarrow> (int \<rightharpoonup> step) \<Rightarrow> bool" where
  "torn base H U m \<longleftrightarrow> (\<forall>ord. ord \<notin> U \<longrightarrow> m ord = base ord) \<and> kept base H m"

lemma sound_start: "sound base H {} U base"
  by (auto simp: sound_def kept_def intro: exI[of _ "{}"])

lemma sound_mono: "sound base H L U m \<Longrightarrow> L' \<subseteq> L \<Longrightarrow> U \<subseteq> U' \<Longrightarrow> sound base H L' U' m"
  unfolding sound_def by (meson subset_trans)

lemma sound_out: "sound base H L U m \<Longrightarrow> ord \<notin> U \<Longrightarrow> m ord = base ord"
  unfolding sound_def by blast

lemma sound_torn: "sound base H L U m \<Longrightarrow> torn base H U m"
  unfolding sound_def torn_def by blast

lemma torn_mono: "torn base H U m \<Longrightarrow> U \<subseteq> U' \<Longrightarrow> torn base H U' m"
  unfolding torn_def by blast

lemma sound_put:
  assumes "sound base H L U m" "ord \<notin> U" "step_status s \<noteq> Failed"
    and "\<And>s0. base ord = Some s0 \<Longrightarrow> settled s0 \<Longrightarrow> ord \<in> H"
  shows "sound base H (insert ord L) (insert ord U) (m(ord \<mapsto> s))"
proof -
  from assms(1) obtain T where T: "L \<subseteq> T" "T \<subseteq> U" "\<forall>ord. ord \<notin> T \<longrightarrow> m ord = base ord"
    "\<forall>ord\<in>T. \<exists>s. m ord = Some s \<and> step_status s \<noteq> Failed" and k: "kept base H m"
    unfolding sound_def by blast
  have "kept base H (m(ord \<mapsto> s))" using k assms(4) by (auto simp: kept_def)
  moreover have "insert ord L \<subseteq> insert ord T" "insert ord T \<subseteq> insert ord U" using T by auto
  ultimately show ?thesis using T assms(3) unfolding sound_def
    by (intro conjI exI[of _ "insert ord T"]) auto
qed

lemma torn_put:
  assumes "torn base H U m" "\<And>s0. base ord = Some s0 \<Longrightarrow> settled s0 \<Longrightarrow> ord \<in> H"
  shows "torn base H (insert ord U) (m(ord \<mapsto> s))"
  using assms by (auto simp: torn_def kept_def)

lemma sound_settled:
  assumes "sound base H L U m" "ord \<notin> U" "base ord = Some s" "settled s"
  shows "sound base H (insert ord L) (insert ord U) m"
proof -
  from assms(1) obtain T where T: "L \<subseteq> T" "T \<subseteq> U" "\<forall>ord. ord \<notin> T \<longrightarrow> m ord = base ord"
    "\<forall>ord\<in>T. \<exists>s. m ord = Some s \<and> step_status s \<noteq> Failed" and k: "kept base H m"
    unfolding sound_def by blast
  have "m ord = Some s" using T(2,3) assms(2,3) by auto
  then show ?thesis using T k assms(4) unfolding sound_def
    by (intro conjI exI[of _ "insert ord T"]) (auto simp: settled_def)
qed

text \<open>A loop: the head's step is opened, the body runs from there, and the head is finished.\<close>

lemma sound_loop:
  assumes "sound base H L U m" "sound (m(ord \<mapsto> s0)) {} L' U' m2" "ord \<notin> U'" "ord \<in> H" "step_status s \<noteq> Failed"
  shows "sound base H (insert ord L) (insert ord (U \<union> U')) (m2(ord \<mapsto> s))"
proof -
  from assms(1) obtain T where T: "L \<subseteq> T" "T \<subseteq> U" "\<forall>o'. o' \<notin> T \<longrightarrow> m o' = base o'"
    "\<forall>o'\<in>T. \<exists>s. m o' = Some s \<and> step_status s \<noteq> Failed" and k: "kept base H m"
    unfolding sound_def by blast
  from assms(2) obtain T' where T': "T' \<subseteq> U'" "\<forall>o'. o' \<notin> T' \<longrightarrow> m2 o' = (m(ord \<mapsto> s0)) o'"
    "\<forall>o'\<in>T'. \<exists>s. m2 o' = Some s \<and> step_status s \<noteq> Failed" and k': "kept (m(ord \<mapsto> s0)) {} m2"
    unfolding sound_def by blast
  have "kept base H (m2(ord \<mapsto> s))"
    using k k' assms(4) by (auto simp: kept_def)
  moreover have "\<forall>o'. o' \<notin> insert ord (T \<union> T') \<longrightarrow> (m2(ord \<mapsto> s)) o' = base o'"
    using T(3) T'(2) by auto
  moreover have "\<forall>o'\<in>insert ord (T \<union> T'). \<exists>x. (m2(ord \<mapsto> s)) o' = Some x \<and> step_status x \<noteq> Failed"
  proof
    fix o' assume "o' \<in> insert ord (T \<union> T')"
    then show "\<exists>x. (m2(ord \<mapsto> s)) o' = Some x \<and> step_status x \<noteq> Failed"
      using T(4) T'(2,3) assms(5) by (cases "o' = ord"; cases "o' \<in> T'") auto
  qed
  ultimately show ?thesis using T(1,2) T'(1) unfolding sound_def
    by (intro conjI exI[of _ "insert ord (T \<union> T')"]) auto
qed

lemma torn_loop:
  assumes "sound base H L U m" "torn (m(ord \<mapsto> s0)) {} U' m2" "ord \<in> H"
  shows "torn base H (insert ord (U \<union> U')) (m2(ord \<mapsto> s))"
proof -
  have "kept base H m" using assms(1) by (simp add: sound_def)
  moreover have "kept (m(ord \<mapsto> s0)) {} m2" using assms(2) by (simp add: torn_def)
  ultimately have "kept base H (m2(ord \<mapsto> s))" using assms(3) by (auto simp: kept_def)
  then show ?thesis using assms(2) sound_out[OF assms(1)] by (auto simp: torn_def)
qed

section \<open>Running over a journal\<close>

definition yields :: "('w, 'e, 'a) eff \<Rightarrow> 'w \<Rightarrow> ('a \<Rightarrow> 'w \<Rightarrow> bool) \<Rightarrow> bool" where
  "yields m w Q \<longleftrightarrow> (\<exists>x w'. m w = (Inr x, w') \<and> Q x w')"

lemma yields_ret [simp]: "yields (ret x) w Q \<longleftrightarrow> Q x w" "yields (Pair (Inr x)) w Q \<longleftrightarrow> Q x w"
  by (simp_all add: yields_def)

lemma yields_bind:
  "yields m w Q \<Longrightarrow> (\<And>x w'. Q x w' \<Longrightarrow> yields (f x) w' R) \<Longrightarrow> yields (bindM m f) w R"
  unfolding yields_def by (metis bindM_simps(2))

lemma yields_mono: "yields m w Q \<Longrightarrow> (\<And>x w'. Q x w' \<Longrightarrow> R x w') \<Longrightarrow> yields m w R"
  unfolding yields_def by blast

lemma digit_eq:
  fixes a b c d k :: int
  assumes "a * k + c = b * k + d" "0 \<le> c" "0 \<le> d" "c < k" "d < k"
  shows "a = b"
proof -
  have "a = (a * k + c) div k" "b = (b * k + d) div k" using assms(2-5) by auto
  with assms(1) show ?thesis by simp
qed

lemma body_ord_inj:
  assumes "body_ord r i p = body_ord r j q" "p < MAX_LOOP_BODY_NODES" "q < MAX_LOOP_BODY_NODES"
  shows "i = j \<and> p = q"
proof -
  have eq: "int i * int MAX_LOOP_BODY_NODES + int p = int j * int MAX_LOOP_BODY_NODES + int q"
    using assms(1) by (simp add: body_ord_def)
  have "int i = int j" by (rule digit_eq[OF eq]) (use assms in simp_all)
  with eq show ?thesis by simp
qed

lemma item_offset:
  assumes "i < MAX_LOOP_ITERATIONS" "p < MAX_LOOP_BODY_NODES"
  shows "int i * int MAX_LOOP_BODY_NODES + int p < REGION_ORD_STRIDE"
proof -
  have "i * MAX_LOOP_BODY_NODES + p < Suc i * MAX_LOOP_BODY_NODES" using assms(2) by simp
  also have "\<dots> \<le> MAX_LOOP_ITERATIONS * MAX_LOOP_BODY_NODES" using assms(1) by (intro mult_le_mono1) simp
  finally have "int (i * MAX_LOOP_BODY_NODES + p) < int (MAX_LOOP_ITERATIONS * MAX_LOOP_BODY_NODES)"
    by (simp only: of_nat_less_iff)
  then show ?thesis by (simp only: REGION_ORD_STRIDE_def of_nat_add of_nat_mult)
qed

lemma body_ord_blocks:
  assumes "body_ord r i p = body_ord r' j q" "i < MAX_LOOP_ITERATIONS" "j < MAX_LOOP_ITERATIONS"
    "p < MAX_LOOP_BODY_NODES" "q < MAX_LOOP_BODY_NODES"
  shows "r = r'"
proof -
  have eq: "int r * REGION_ORD_STRIDE + (int i * int MAX_LOOP_BODY_NODES + int p) =
      int r' * REGION_ORD_STRIDE + (int j * int MAX_LOOP_BODY_NODES + int q)"
    using assms(1) by (simp add: body_ord_def)
  have "int r = int r'"
    by (rule digit_eq[OF eq]) (use item_offset[OF assms(2,4)] item_offset[OF assms(3,5)] in simp_all)
  then show ?thesis by simp
qed

context run_journal
begin

definition at_steps :: "nat \<Rightarrow> nat \<Rightarrow> (int \<rightharpoonup> step) \<Rightarrow> 'w \<Rightarrow> bool" where
  "at_steps ws rid m w \<longleftrightarrow>
     ok w \<and> (\<exists>r. jv_run (view w) rid = Some r \<and> run_workspace r = ws) \<and> jv_steps (view w) rid = m"

lemma open_yields:
  assumes "at_steps ws rid m w"
  shows "yields (open_step P ws rid ord a (map_option step_id (m ord))) w
    (\<lambda>sid w'. \<exists>s. at_steps ws rid (m(ord \<mapsto> s)) w' \<and> step_id s = sid)"
proof -
  from assms obtain r where r: "ok w" "jv_run (view w) rid = Some r" "run_workspace r = ws" "jv_steps (view w) rid = m"
    by (auto simp: at_steps_def)
  show ?thesis
  proof (cases "m ord")
    case None
    from add_fresh[OF r(1,2), of ord a] None r obtain s w' where
      "add_step P ws rid ord a w = (Inr s, w')" "ok w'" "view w' = put_step rid ord s (view w)" by auto
    then show ?thesis using None r
      by (auto simp: open_step_def yields_def at_steps_def put_step_def)
  next
    case (Some s)
    then have "m(ord \<mapsto> s) = m" by (simp add: fun_upd_idem)
    with Some assms show ?thesis by (auto simp: open_step_def intro!: exI[of _ s])
  qed
qed

lemma finish_yields:
  assumes "at_steps ws rid m w" "m ord = Some s"
  shows "yields (finish_step P ws (step_id s) st out err) w
    (\<lambda>_ w'. at_steps ws rid (m(ord \<mapsto> s\<lparr>step_status := st, step_output := out, step_error := err\<rparr>)) w')"
proof -
  from assms(1) obtain r where r: "ok w" "jv_run (view w) rid = Some r" "run_workspace r = ws" "jv_steps (view w) rid = m"
    by (auto simp: at_steps_def)
  from finish_known[OF r(1,2), of ord s st out err] r assms(2) show ?thesis
    by (auto simp: yields_def at_steps_def put_step_def)
qed

lemma skip_yields:
  assumes "at_steps ws rid m w"
  shows "yields (skip_step P ws rid ord a (map_option step_id (m ord))) w
    (\<lambda>_ w'. \<exists>s. step_status s = Skipped \<and> at_steps ws rid (m(ord \<mapsto> s)) w')"
  unfolding skip_step_def
proof (rule yields_bind[OF open_yields[OF assms]], elim exE conjE)
  fix sid w' s assume s: "at_steps ws rid (m(ord \<mapsto> s)) w'" "step_id s = sid"
  show "yields (bindM (finish_step P ws sid Skipped None None) (\<lambda>_. ret ())) w'
      (\<lambda>_ w'. \<exists>s. step_status s = Skipped \<and> at_steps ws rid (m(ord \<mapsto> s)) w')"
    unfolding s(2)[symmetric]
    by (rule yields_bind[OF finish_yields[OF s(1)]])
      (auto intro!: exI[of _ "s\<lparr>step_status := Skipped, step_output := None, step_error := None\<rparr>"])
qed

lemma dispatch_yields:
  assumes "at_steps ws rid m w" "tag k \<in> {''action'', ''code'', ''condition''}"
  shows "yields (dispatch P ws' g input k) w (\<lambda>_ w'. at_steps ws rid m w')"
proof -
  have act: "yields (liftM (run_action P ws' b t g)) w (\<lambda>_ w'. at_steps ws rid m w')" for b t
    using assms(1) action_beside[of w ws' b t g]
    by (cases "run_action P ws' b t g w") (auto simp: yields_def liftM_def at_steps_def)
  have code: "yields (liftM (run_code P rt src v ws' g)) w (\<lambda>_ w'. at_steps ws rid m w')" for rt src v
    using assms(1) code_beside[of w rt src v ws' g]
    by (cases "run_code P rt src v ws' g w") (auto simp: yields_def liftM_def at_steps_def)
  show ?thesis
    using assms(2) by (cases k) (auto simp: dispatch_def intro!: yields_bind[OF act] yields_bind[OF code])
qed

text \<open>What a body step leaves: the map sound one ordinal further, or torn within the region.\<close>

definition body_post ::
    "nat \<Rightarrow> nat \<Rightarrow> (int \<rightharpoonup> step) \<Rightarrow> int set \<Rightarrow> fail_msg + 'b \<Rightarrow> 'w \<Rightarrow> bool" where
  "body_post ws rid base U r w \<longleftrightarrow>
     (\<exists>m. at_steps ws rid m w \<and> (case r of Inr _ \<Rightarrow> sound base {} {} U m | Inl _ \<Rightarrow> torn base {} U m))"

lemma body_post_mono: "body_post ws rid base U r w \<Longrightarrow> U \<subseteq> U' \<Longrightarrow> body_post ws rid base U' r w"
  unfolding body_post_def by (cases r) (auto elim: sound_mono torn_mono)

lemma body_node_yields:
  assumes at: "at_steps (lc_ws c) (lc_run c) m w" and s: "sound base {} {} U m"
    and ord: "body_ord (lc_index c) i pos \<notin> U" "lc_prior c (body_ord (lc_index c) i pos) = base (body_ord (lc_index c) i pos)"
    and n: "lookup_node (lc_graph c) b = Some n" "tag (node_kind n) \<in> {''action'', ''code'', ''condition''}"
  shows "yields (body_node P K c i x pos b l) w
    (body_post (lc_ws c) (lc_run c) base (insert (body_ord (lc_index c) i pos) U))"
proof -
  let ?o = "body_ord (lc_index c) i pos"
  have mo: "m ?o = lc_prior c ?o" using sound_out[OF s ord(1)] ord(2) by simp
  have stay: "sound base {} {} (insert ?o U) m" using s by (rule sound_mono) auto
  consider "?o > 2 ^ 31 - 1" | p where "lc_prior c ?o = Some p" "settled p" "\<not> ?o > 2 ^ 31 - 1"
    | "\<And>p. lc_prior c ?o = Some p \<Longrightarrow> \<not> settled p" "\<not> ?o > 2 ^ 31 - 1" by blast
  then show ?thesis
  proof cases
    case 1
    with n at sound_torn[OF stay] show ?thesis by (auto simp: body_node_def body_post_def)
  next
    case (2 p)
    with n at stay show ?thesis by (auto simp: body_node_def body_post_def settled_def Let_def)
  next
    case 3
    then have d: "map_option step_status (lc_prior c ?o) \<noteq> Some Succeeded" "map_option step_status (lc_prior c ?o) \<noteq> Some Skipped"
      by (auto simp: settled_def)
    have free: "base ?o = Some s0 \<Longrightarrow> settled s0 \<Longrightarrow> ?o \<in> {}" for s0 using 3(1) ord(2) by simp
    let ?a = "body_step_json K c i n" and ?re = "map_option step_id (lc_prior c ?o)"
    have skip: "yields (bindM (skip_step P (lc_ws c) (lc_run c) ?o ?a ?re) (\<lambda>_. ret (Inr l))) w
        (body_post (lc_ws c) (lc_run c) base (insert ?o U))"
      unfolding mo[symmetric]
    proof (rule yields_bind[OF skip_yields[OF at]], elim exE conjE)
      fix w' s' assume h: "step_status s' = Skipped" "at_steps (lc_ws c) (lc_run c) (m(?o \<mapsto> s')) w'"
      have "sound base {} (insert ?o {}) (insert ?o U) (m(?o \<mapsto> s'))"
        by (rule sound_put[OF s ord(1) _ free]) (simp_all add: h)
      then have "sound base {} {} (insert ?o U) (m(?o \<mapsto> s'))" by (rule sound_mono) auto
      with h show "yields (ret (Inr l)) w' (body_post (lc_ws c) (lc_run c) base (insert ?o U))"
        by (auto simp: body_post_def)
    qed
    have run: "yields (bindM (open_step P (lc_ws c) (lc_run c) ?o ?a ?re) (\<lambda>sid.
          bindM (dispatch P (lc_ws c) (lc_grant c) (body_input c i x b l) (node_kind n)) (\<lambda>(st, out, err).
          bindM (finish_step P (lc_ws c) sid st out err) (\<lambda>_.
          ret (case st of
                 Succeeded \<Rightarrow> Inr (restore_local b (node_kind n) out l)
               | Failed \<Rightarrow> Inl (case err of Some m \<Rightarrow> m | None \<Rightarrow> BodyFailed b i)
               | _ \<Rightarrow> Inr l))))) w
        (body_post (lc_ws c) (lc_run c) base (insert ?o U))"
      unfolding mo[symmetric]
    proof (rule yields_bind[OF open_yields[OF at]], elim exE conjE)
      fix sid w1 s1 assume o1: "at_steps (lc_ws c) (lc_run c) (m(?o \<mapsto> s1)) w1" "step_id s1 = sid"
      show "yields (bindM (dispatch P (lc_ws c) (lc_grant c) (body_input c i x b l) (node_kind n)) (\<lambda>(st, out, err).
          bindM (finish_step P (lc_ws c) sid st out err) (\<lambda>_.
          ret (case st of
                 Succeeded \<Rightarrow> Inr (restore_local b (node_kind n) out l)
               | Failed \<Rightarrow> Inl (case err of Some m \<Rightarrow> m | None \<Rightarrow> BodyFailed b i)
               | _ \<Rightarrow> Inr l)))) w1
        (body_post (lc_ws c) (lc_run c) base (insert ?o U))"
      proof (rule yields_bind[OF dispatch_yields[OF o1(1) n(2)]])
        fix res :: result and w2 assume w2: "at_steps (lc_ws c) (lc_run c) (m(?o \<mapsto> s1)) w2"
        obtain st out err where res: "res = (st, out, err)" by (cases res)
        let ?s = "s1\<lparr>step_status := st, step_output := out, step_error := err\<rparr>"
        have fin: "yields (finish_step P (lc_ws c) sid st out err) w2
            (\<lambda>_ w'. at_steps (lc_ws c) (lc_run c) (m(?o \<mapsto> ?s)) w')"
          using finish_yields[OF w2, of ?o s1 st out err] by (simp add: o1(2))
        have good: "sound base {} {} (insert ?o U) (m(?o \<mapsto> ?s))" if "st \<noteq> Failed"
        proof -
          have "sound base {} (insert ?o {}) (insert ?o U) (m(?o \<mapsto> ?s))"
            by (rule sound_put[OF s ord(1) _ free]) (simp_all add: that)
          then show ?thesis by (rule sound_mono) auto
        qed
        have bad: "torn base {} (insert ?o U) (m(?o \<mapsto> ?s))"
          by (rule torn_put[OF sound_torn[OF s] free])
        show "yields ((\<lambda>(st, out, err). bindM (finish_step P (lc_ws c) sid st out err) (\<lambda>_.
          ret (case st of
                 Succeeded \<Rightarrow> Inr (restore_local b (node_kind n) out l)
               | Failed \<Rightarrow> Inl (case err of Some m \<Rightarrow> m | None \<Rightarrow> BodyFailed b i)
               | _ \<Rightarrow> Inr l))) res) w2 (body_post (lc_ws c) (lc_run c) base (insert ?o U))"
          unfolding res prod.case
          by (rule yields_bind[OF fin]) (use good bad in \<open>auto simp: body_post_def split: step_status.splits\<close>)
      qed
    qed
    show ?thesis
      unfolding body_node_def n(1) option.case Let_def if_not_P[OF 3(2)] if_not_P[OF d(1)] if_not_P[OF d(2)]
      using skip run
      by (cases "\<not> body_active c b l \<or> gated_off (lc_redelivery c) (node_kind n)") (simp_all only: if_True if_False)
  qed
qed

lemma run_body_yields:
  assumes "at_steps (lc_ws c) (lc_run c) m w" "sound base {} {} U m"
    and "\<And>p. pos \<le> p \<Longrightarrow> p < pos + length bs \<Longrightarrow> body_ord (lc_index c) i p \<notin> U \<and>
      lc_prior c (body_ord (lc_index c) i p) = base (body_ord (lc_index c) i p)"
    and "\<And>b. b \<in> set bs \<Longrightarrow> \<exists>n. lookup_node (lc_graph c) b = Some n \<and> tag (node_kind n) \<in> {''action'', ''code'', ''condition''}"
  shows "yields (run_body P K c i x pos bs l) w
    (body_post (lc_ws c) (lc_run c) base (U \<union> {body_ord (lc_index c) i p | p. pos \<le> p \<and> p < pos + length bs}))"
  using assms
proof (induction bs arbitrary: pos l m w U)
  case Nil
  then show ?case by (auto simp: body_post_def intro!: exI[of _ m] elim!: sound_mono)
next
  case (Cons b bs)
  let ?o = "body_ord (lc_index c) i"
  let ?V = "U \<union> {?o p | p. pos \<le> p \<and> p < pos + length (b # bs)}"
  obtain n where n: "lookup_node (lc_graph c) b = Some n" "tag (node_kind n) \<in> {''action'', ''code'', ''condition''}"
    using Cons.prems(4)[of b] by auto
  have o: "?o pos \<notin> U" "lc_prior c (?o pos) = base (?o pos)" using Cons.prems(3)[of pos] by auto
  have V: "insert (?o pos) U \<union> {?o p | p. Suc pos \<le> p \<and> p < Suc pos + length bs} = ?V"
    by (auto simp: not_less_eq_eq[symmetric])
  show ?case
  proof (simp only: run_body.simps, rule yields_bind[OF body_node_yields[OF Cons.prems(1,2) o n]])
    fix r :: "fail_msg + local" and w' assume "body_post (lc_ws c) (lc_run c) base (insert (?o pos) U) r w'"
    then obtain m' where m': "at_steps (lc_ws c) (lc_run c) m' w'"
      "case r of Inr _ \<Rightarrow> sound base {} {} (insert (?o pos) U) m' | Inl _ \<Rightarrow> torn base {} (insert (?o pos) U) m'"
      by (auto simp: body_post_def)
    show "yields (case r of Inl m \<Rightarrow> ret (Inl m) | Inr l' \<Rightarrow> run_body P K c i x (Suc pos) bs l') w'
        (body_post (lc_ws c) (lc_run c) base ?V)"
    proof (cases r)
      case (Inl e)
      have "insert (?o pos) U \<subseteq> ?V" unfolding V[symmetric] by blast
      with Inl m' have "torn base {} ?V m'" by (auto elim: torn_mono)
      with Inl m'(1) show ?thesis by (auto simp: body_post_def)
    next
      case (Inr l')
      with m'(2) have s': "sound base {} {} (insert (?o pos) U) m'" by simp
      have fresh: "?o p \<notin> insert (?o pos) U \<and> lc_prior c (?o p) = base (?o p)"
        if "Suc pos \<le> p" "p < Suc pos + length bs" for p
        using Cons.prems(3)[of p] that by (auto simp: body_ord_def)
      have "yields (run_body P K c i x (Suc pos) bs l') w' (body_post (lc_ws c) (lc_run c) base
          (insert (?o pos) U \<union> {?o p | p. Suc pos \<le> p \<and> p < Suc pos + length bs}))"
        by (rule Cons.IH[OF m'(1) s' fresh]) (assumption | rule Cons.prems(4) list.set_intros(2))+
      then show ?thesis unfolding V Inr sum.case .
    qed
  qed
qed

definition item_ords :: "loop_ctx \<Rightarrow> nat \<Rightarrow> nat \<Rightarrow> int set" where
  "item_ords c i k = {body_ord (lc_index c) j p | j p. i \<le> j \<and> j < k \<and> p < length (reg_body (lc_region c))}"

lemma run_items_yields:
  assumes "at_steps (lc_ws c) (lc_run c) m w" "sound base {} {} U m"
    and "length (reg_body (lc_region c)) \<le> MAX_LOOP_BODY_NODES"
    and "\<And>ord. ord \<in> item_ords c i (i + length xs) \<Longrightarrow> ord \<notin> U \<and> lc_prior c ord = base ord"
    and "\<And>b. b \<in> set (reg_body (lc_region c)) \<Longrightarrow>
      \<exists>n. lookup_node (lc_graph c) b = Some n \<and> tag (node_kind n) \<in> {''action'', ''code'', ''condition''}"
  shows "yields (run_items P K c i xs res) w
    (body_post (lc_ws c) (lc_run c) base (U \<union> item_ords c i (i + length xs)))"
  using assms(1,2,4)
proof (induction xs arbitrary: i res m w U)
  case Nil
  then show ?case by (auto simp: body_post_def intro!: exI[of _ m] elim!: sound_mono)
next
  case (Cons x xs)
  let ?bs = "reg_body (lc_region c)"
  let ?now = "{body_ord (lc_index c) i p | p. 0 \<le> p \<and> p < 0 + length ?bs}"
  let ?all = "U \<union> item_ords c i (i + length (x # xs))"
  have split: "U \<union> ?now \<union> item_ords c (Suc i) (Suc i + length xs) \<subseteq> ?all"
    by (auto simp: item_ords_def) (metis Suc_leD add_Suc_right le_refl less_add_Suc1)+
  have now: "body_ord (lc_index c) i p \<notin> U \<and> lc_prior c (body_ord (lc_index c) i p) = base (body_ord (lc_index c) i p)"
    if "0 \<le> p" "p < 0 + length ?bs" for p
  proof -
    have "body_ord (lc_index c) i p \<in> item_ords c i (i + length (x # xs))"
      unfolding item_ords_def using that by (intro CollectI exI[of _ i] exI[of _ p]) simp
    with Cons.prems(3) show ?thesis by blast
  qed
  show ?case
  proof (simp only: run_items.simps, rule yields_bind[OF run_body_yields[OF Cons.prems(1,2) now assms(5)]])
    fix r :: "fail_msg + local" and w' assume "body_post (lc_ws c) (lc_run c) base (U \<union> ?now) r w'"
    then obtain m' where m': "at_steps (lc_ws c) (lc_run c) m' w'"
      "case r of Inr _ \<Rightarrow> sound base {} {} (U \<union> ?now) m' | Inl _ \<Rightarrow> torn base {} (U \<union> ?now) m'"
      unfolding body_post_def by (elim exE conjE)
    show "yields (case r of Inl m \<Rightarrow> ret (Inl m)
        | Inr l \<Rightarrow> run_items P K c (Suc i) xs (res @ [iteration_result c l])) w'
        (body_post (lc_ws c) (lc_run c) base ?all)"
    proof (cases r)
      case (Inl e)
      with m' have "torn base {} ?all m'" using split by (auto intro: torn_mono)
      with Inl m'(1) show ?thesis by (auto simp: body_post_def)
    next
      case (Inr l)
      with m'(2) have s': "sound base {} {} (U \<union> ?now) m'" by simp
      have fresh: "ord \<notin> U \<union> ?now \<and> lc_prior c ord = base ord"
        if "ord \<in> item_ords c (Suc i) (Suc i + length xs)" for ord
      proof -
        from that obtain j p where jp: "ord = body_ord (lc_index c) j p" "Suc i \<le> j" "j < Suc i + length xs" "p < length ?bs"
          by (auto simp: item_ords_def)
        then have "ord \<in> item_ords c i (i + length (x # xs))"
          unfolding item_ords_def by (intro CollectI exI[of _ j] exI[of _ p]) simp
        moreover have "ord \<notin> ?now"
        proof
          assume "ord \<in> ?now"
          then obtain q where "ord = body_ord (lc_index c) i q" "q < length ?bs" by auto
          with jp assms(3) body_ord_inj[of "lc_index c" j p i q] show False by simp
        qed
        ultimately show ?thesis using Cons.prems(3)[of ord] by (simp only: Un_iff simp_thms)
      qed
      have "yields (run_items P K c (Suc i) xs (res @ [iteration_result c l])) w'
          (body_post (lc_ws c) (lc_run c) base (U \<union> ?now \<union> item_ords c (Suc i) (Suc i + length xs)))"
        by (rule Cons.IH[OF m'(1) s' fresh])
      then have "yields (run_items P K c (Suc i) xs (res @ [iteration_result c l])) w' (body_post (lc_ws c) (lc_run c) base ?all)"
        by (rule yields_mono) (erule body_post_mono[OF _ split])
      with Inr show ?thesis by simp
    qed
  qed
qed

end

end
