(* ===== verification/Auto_Completes.thy ===== *)
theory Auto_Completes
  imports Auto_Walk
begin

text \<open>
  The outer walk of a graph run over a journal that keeps the contract, node by node up to the
  end of the run, and the guarantees for a graph that validates.
\<close>

section \<open>The ordinals a walk uses\<close>

definition blocks :: "region list \<Rightarrow> string set \<Rightarrow> int set" where
  "blocks rs X = {body_ord ri i p | ri i p. ri < length rs \<and> for_each (rs ! ri) \<in> X \<and>
     i < MAX_LOOP_ITERATIONS \<and> p < MAX_LOOP_BODY_NODES}"

definition used :: "region list \<Rightarrow> string list \<Rightarrow> nat \<Rightarrow> int set" where
  "used rs order k = {int j | j. j < k} \<union> blocks rs (set (take k order))"

definition outer_ords :: "string set \<Rightarrow> string list \<Rightarrow> nat \<Rightarrow> int set" where
  "outer_ords inner order k = {int j | j. j < k \<and> order ! j \<notin> inner}"

definition region_ords :: "nat \<Rightarrow> region \<Rightarrow> int set" where
  "region_ords ri r = {body_ord ri i p | i p. i < MAX_LOOP_ITERATIONS \<and> p < length (reg_body r)}"

lemma body_ord_base: "1000000 \<le> body_ord r i p"
  by (simp add: body_ord_def REGION_ORD_BASE_def REGION_ORD_STRIDE_def)

lemma used_fresh: "k < 1000000 \<Longrightarrow> int k \<notin> used rs order k"
proof
  assume k: "k < 1000000" and "int k \<in> used rs order k"
  then obtain r i p where "int k = body_ord r i p" by (auto simp: used_def blocks_def)
  with body_ord_base[of r i p] k show False by linarith
qed

lemma blocks_mono: "X \<subseteq> Y \<Longrightarrow> blocks rs X \<subseteq> blocks rs Y"
  by (auto simp: blocks_def)

lemma used_mono: "k \<le> k' \<Longrightarrow> used rs order k \<subseteq> used rs order k'"
proof -
  assume "k \<le> k'"
  then have "set (take k order) \<subseteq> set (take k' order)" by (rule set_take_subset_set_take)
  from blocks_mono[OF this] \<open>k \<le> k'\<close> show ?thesis by (auto simp: used_def)
qed

lemma used_Suc: "insert (int k) (used rs order k) \<subseteq> used rs order (Suc k)"
  using used_mono[of k "Suc k"] by (auto simp: used_def)

lemma outer_Suc:
  "outer_ords inner order (Suc k) \<subseteq> insert (int k) (outer_ords inner order k)"
  "order ! k \<in> inner \<Longrightarrow> outer_ords inner order (Suc k) \<subseteq> outer_ords inner order k"
  by (auto simp: outer_ords_def less_Suc_eq)

definition heads :: "graph \<Rightarrow> string list \<Rightarrow> int set" where
  "heads g order = {int j | j n. j < length order \<and> lookup_node g (order ! j) = Some n \<and> tag (node_kind n) = ''for_each''}"

context run_journal
begin

lemma run_for_each_yields:
  assumes at: "at_steps (lc_ws c) (lc_run c) m w"
    and pr: "\<And>ord. ord \<in> item_ords c 0 MAX_LOOP_ITERATIONS \<Longrightarrow> lc_prior c ord = m ord"
    and len: "length (reg_body (lc_region c)) \<le> MAX_LOOP_BODY_NODES"
    and bs: "\<And>b. b \<in> set (reg_body (lc_region c)) \<Longrightarrow>
      \<exists>n. lookup_node (lc_graph c) b = Some n \<and> tag (node_kind n) \<in> {''action'', ''code'', ''condition''}"
  shows "yields (run_for_each P K c input) w (body_post (lc_ws c) (lc_run c) m (item_ords c 0 MAX_LOOP_ITERATIONS))"
proof (cases "loop_items (lc_region c) input")
  case (Inl e)
  have "torn m {} (item_ords c 0 MAX_LOOP_ITERATIONS) m" by (simp add: torn_def kept_def)
  with Inl at show ?thesis by (auto simp: run_for_each_def body_post_def)
next
  case (Inr xs)
  then have xs: "length xs \<le> MAX_LOOP_ITERATIONS" by (auto simp: loop_items_def Let_def)
  let ?c = "c\<lparr>lc_inputs := (case Option.bind (obj_get input ''inputs'') as_object of Some m \<Rightarrow> m | None \<Rightarrow> [])\<rparr>"
  have io: "item_ords ?c i k = item_ords c i k" for i k by (simp add: item_ords_def)
  have sub: "item_ords c 0 (0 + length xs) \<subseteq> item_ords c 0 MAX_LOOP_ITERATIONS"
    using xs by (auto simp: item_ords_def intro: less_le_trans)
  have "yields (run_items P K ?c 0 xs []) w (body_post (lc_ws ?c) (lc_run ?c) m ({} \<union> item_ords ?c 0 (0 + length xs)))"
    by (rule run_items_yields) (use at pr len bs sub io in \<open>auto simp: sound_start\<close>)
  then have "yields (run_items P K ?c 0 xs []) w (body_post (lc_ws c) (lc_run c) m (item_ords c 0 MAX_LOOP_ITERATIONS))"
    by (rule yields_mono) (use body_post_mono[OF _ sub] io in simp)
  then show ?thesis by (simp add: run_for_each_def Inr)
qed

definition ended :: "nat \<Rightarrow> nat \<Rightarrow> (int \<rightharpoonup> step) \<Rightarrow> int set \<Rightarrow> 'w \<Rightarrow> bool" where
  "ended ws rid base H w \<longleftrightarrow>
     (\<exists>m. at_steps ws rid m w \<and> kept base H m \<and> (\<exists>ord s. m ord = Some s \<and> step_status s = Failed))"

definition walked :: "nat \<Rightarrow> nat \<Rightarrow> (int \<rightharpoonup> step) \<Rightarrow> int set \<Rightarrow> int set \<Rightarrow> int set \<Rightarrow> flow \<Rightarrow> 'w \<Rightarrow> bool" where
  "walked ws rid base H L U fl w \<longleftrightarrow>
     (if fl_failure fl = None
      then (\<exists>m. at_steps ws rid m w \<and> sound base H L U m \<and> (\<forall>ord. ord \<notin> U \<longrightarrow> fl_prior fl ord = base ord))
      else ended ws rid base H w)"

lemma record_node_fields [simp]:
  "fl_prior (record_node i k out fl) = fl_prior fl" "fl_failure (record_node i k out fl) = fl_failure fl"
  by (simp_all add: record_node_def Let_def split: option.splits)

lemma ended_put:
  assumes "at_steps ws rid (m(ord \<mapsto> s)) w" "step_status s = Failed" "kept base H (m(ord \<mapsto> s))"
  shows "ended ws rid base H w"
  using assms unfolding ended_def by (metis fun_upd_same)

lemma dispatch_node_yields:
  assumes "at_steps ws rid m w" "tag k \<in> {''trigger'', ''action'', ''code'', ''condition''}"
  shows "yields (dispatch_node P c i k fl) w (\<lambda>_ w'. at_steps ws rid m w')"
  using assms dispatch_yields[OF assms(1)]
  by (cases k) (auto simp: dispatch_node_def)

lemma outer_node_yields:
  assumes at: "at_steps (gc_ws c) (gc_run c) m w" and s: "sound base H L U m"
    and ord: "ord \<notin> U" "\<And>o'. o' \<notin> U \<Longrightarrow> fl_prior fl o' = base o'" and f: "fl_failure fl = None"
    and k: "tag (node_kind n) \<in> {''trigger'', ''action'', ''code'', ''condition''}"
  shows "yields (outer_node P K c ord n fl) w
    (walked (gc_ws c) (gc_run c) base H (insert ord L) (insert ord U))"
proof -
  let ?i = "node_id n" and ?k = "node_kind n" and ?prev = "fl_prior fl ord"
  let ?fl1 = "fl\<lparr>fl_prior := (fl_prior fl)(ord := None)\<rparr>"
  let ?Q = "walked (gc_ws c) (gc_run c) base H (insert ord L) (insert ord U)"
  have mo: "m ord = ?prev" "?prev = base ord" using sound_out[OF s ord(1)] ord by simp_all
  have next_ok: "?Q fl' w'" if "at_steps (gc_ws c) (gc_run c) m' w'" "sound base H (insert ord L) (insert ord U) m'"
    "fl_prior fl' = fl_prior ?fl1" "fl_failure fl' = None" for fl' w' m'
    using that ord(2) by (auto simp: walked_def)
  show ?thesis
  proof (cases "\<exists>p. ?prev = Some p \<and> settled p")
    case True
    then obtain p where p: "?prev = Some p" "settled p" by blast
    have "sound base H (insert ord L) (insert ord U) m"
      using sound_settled[OF s ord(1)] p mo by auto
    note stay = next_ok[OF at this]
    show ?thesis
    proof (cases "step_status p = Succeeded")
      case True
      with p f show ?thesis by (auto simp: outer_node_def Let_def intro!: stay)
    next
      case False
      with p f show ?thesis by (auto simp: outer_node_def Let_def settled_def intro!: stay)
    qed
  next
    case False
    then have d: "map_option step_status ?prev \<noteq> Some Succeeded" "map_option step_status ?prev \<noteq> Some Skipped"
      by (auto simp: settled_def)
    have free: "base ord = Some s0 \<Longrightarrow> settled s0 \<Longrightarrow> ord \<in> H" for s0 using False mo by auto
    let ?a = "step_action_json K n" and ?re = "map_option step_id ?prev"
    have skip: "yields (bindM (skip_step P (gc_ws c) (gc_run c) ord ?a ?re) (\<lambda>_. ret ?fl1)) w ?Q"
      unfolding mo(1)[symmetric]
    proof (rule yields_bind[OF skip_yields[OF at]], elim exE conjE)
      fix w' s' assume h: "step_status s' = Skipped" "at_steps (gc_ws c) (gc_run c) (m(ord \<mapsto> s')) w'"
      have "sound base H (insert ord L) (insert ord U) (m(ord \<mapsto> s'))"
        by (rule sound_put[OF s ord(1) _ free]) (simp_all add: h)
      from next_ok[OF h(2) this] f show "yields (ret ?fl1) w' ?Q" by simp
    qed
    have run: "yields (bindM (open_step P (gc_ws c) (gc_run c) ord ?a ?re) (\<lambda>sid.
           bindM (dispatch_node P c ?i ?k ?fl1) (\<lambda>(st, out, err).
           bindM (finish_step P (gc_ws c) sid st out err) (\<lambda>_.
           ret (case st of
                  Succeeded \<Rightarrow> record_node ?i ?k out ?fl1
                | Failed \<Rightarrow> ?fl1\<lparr>fl_failure := Some (case err of Some m \<Rightarrow> m | None \<Rightarrow> NodeFailed ?i)\<rparr>
                | _ \<Rightarrow> ?fl1))))) w ?Q"
      unfolding mo(1)[symmetric]
    proof (rule yields_bind[OF open_yields[OF at]], elim exE conjE)
      fix sid w1 s1 assume o1: "at_steps (gc_ws c) (gc_run c) (m(ord \<mapsto> s1)) w1" "step_id s1 = sid"
      show "yields (bindM (dispatch_node P c ?i ?k ?fl1) (\<lambda>(st, out, err).
           bindM (finish_step P (gc_ws c) sid st out err) (\<lambda>_.
           ret (case st of
                  Succeeded \<Rightarrow> record_node ?i ?k out ?fl1
                | Failed \<Rightarrow> ?fl1\<lparr>fl_failure := Some (case err of Some m \<Rightarrow> m | None \<Rightarrow> NodeFailed ?i)\<rparr>
                | _ \<Rightarrow> ?fl1)))) w1 ?Q"
      proof (rule yields_bind[OF dispatch_node_yields[OF o1(1) k]])
        fix res :: result and w2 assume w2: "at_steps (gc_ws c) (gc_run c) (m(ord \<mapsto> s1)) w2"
        obtain st out err where res: "res = (st, out, err)" by (cases res)
        let ?s = "s1\<lparr>step_status := st, step_output := out, step_error := err\<rparr>"
        have fin: "yields (finish_step P (gc_ws c) sid st out err) w2
            (\<lambda>_ w'. at_steps (gc_ws c) (gc_run c) (m(ord \<mapsto> ?s)) w')"
          using finish_yields[OF w2, of ord s1 st out err] by (simp add: o1(2))
        have good: "sound base H (insert ord L) (insert ord U) (m(ord \<mapsto> ?s))" if "st \<noteq> Failed"
          by (rule sound_put[OF s ord(1) _ free]) (simp_all add: that)
        have "torn base H (insert ord U) (m(ord \<mapsto> ?s))" by (rule torn_put[OF sound_torn[OF s] free])
        then have bad: "kept base H (m(ord \<mapsto> ?s))" by (simp add: torn_def)
        show "yields ((\<lambda>(st, out, err). bindM (finish_step P (gc_ws c) sid st out err) (\<lambda>_.
           ret (case st of
                  Succeeded \<Rightarrow> record_node ?i ?k out ?fl1
                | Failed \<Rightarrow> ?fl1\<lparr>fl_failure := Some (case err of Some m \<Rightarrow> m | None \<Rightarrow> NodeFailed ?i)\<rparr>
                | _ \<Rightarrow> ?fl1))) res) w2 ?Q"
          unfolding res prod.case
        proof (rule yields_bind[OF fin])
          fix x' w3 assume w3: "at_steps (gc_ws c) (gc_run c) (m(ord \<mapsto> ?s)) w3"
          show "yields (ret (case st of
                  Succeeded \<Rightarrow> record_node ?i ?k out ?fl1
                | Failed \<Rightarrow> ?fl1\<lparr>fl_failure := Some (case err of Some m \<Rightarrow> m | None \<Rightarrow> NodeFailed ?i)\<rparr>
                | _ \<Rightarrow> ?fl1)) w3 ?Q"
          proof (cases "st = Failed")
            case True
            with ended_put[OF w3 _ bad] show ?thesis by (simp add: walked_def)
          next
            case False
            from next_ok[OF w3 good[OF False]] False f show ?thesis by (auto split: step_status.splits)
          qed
        qed
      qed
    qed
    show ?thesis
      unfolding outer_node_def Let_def if_not_P[OF d(1)] if_not_P[OF d(2)]
      using skip run
      by (cases "\<not> (is_entry c n \<or> edge_taken c ?i fl) \<or> gated_off (fl_redelivery fl) ?k") (simp_all only: if_True if_False)
  qed
qed

lemma loop_node_yields:
  assumes at: "at_steps (gc_ws c) (gc_run c) m w" and s: "sound base H L U m"
    and ord: "ord \<notin> U" "\<And>o'. o' \<notin> U \<Longrightarrow> fl_prior fl o' = base o'" "ord \<in> H" and f: "fl_failure fl = None"
    and r: "region_by_head c (node_id n) = Some (ri, r)" "length (reg_body r) \<le> MAX_LOOP_BODY_NODES"
    and bs: "\<And>b. b \<in> set (reg_body r) \<Longrightarrow>
      \<exists>n. lookup_node (gc_graph c) b = Some n \<and> tag (node_kind n) \<in> {''action'', ''code'', ''condition''}"
    and blk: "region_ords ri r \<inter> insert ord U = {}"
  shows "yields (loop_node P K c ord n fl) w
    (walked (gc_ws c) (gc_run c) base H (insert ord L) (insert ord (U \<union> region_ords ri r)))"
proof -
  let ?i = "node_id n" and ?prev = "fl_prior fl ord" and ?B = "region_ords ri r"
  let ?fl1 = "fl\<lparr>fl_prior := (fl_prior fl)(ord := None)\<rparr>"
  let ?Q = "walked (gc_ws c) (gc_run c) base H (insert ord L) (insert ord (U \<union> ?B))"
  have mo: "m ord = ?prev" "?prev = base ord" using sound_out[OF s ord(1)] ord(1,2) by simp_all
  have next_ok: "?Q fl' w'" if "at_steps (gc_ws c) (gc_run c) m' w'" "sound base H (insert ord L) (insert ord (U \<union> ?B)) m'"
    "fl_prior fl' = fl_prior ?fl1" "fl_failure fl' = None" for fl' w' m'
    using that ord(2) by (auto simp: walked_def)
  have grow: "sound base H (insert ord L) (insert ord U) m' \<Longrightarrow> sound base H (insert ord L) (insert ord (U \<union> ?B)) m'" for m'
    by (erule sound_mono) auto
  show ?thesis
  proof (cases "map_option step_status ?prev = Some Skipped")
    case True
    then obtain p where p: "?prev = Some p" "settled p" by (auto simp: settled_def)
    have "sound base H (insert ord L) (insert ord U) m"
      using sound_settled[OF s ord(1)] p mo by auto
    from next_ok[OF at grow[OF this]] True f r show ?thesis by (simp add: loop_node_def Let_def)
  next
    case False
    have free: "base ord = Some s0 \<Longrightarrow> settled s0 \<Longrightarrow> ord \<in> H" for s0 by (rule ord(3))
    let ?a = "step_action_json K n" and ?re = "map_option step_id ?prev"
    have skip: "yields (bindM (skip_step P (gc_ws c) (gc_run c) ord ?a ?re) (\<lambda>_. ret ?fl1)) w ?Q"
      unfolding mo(1)[symmetric]
    proof (rule yields_bind[OF skip_yields[OF at]], elim exE conjE)
      fix w' s' assume h: "step_status s' = Skipped" "at_steps (gc_ws c) (gc_run c) (m(ord \<mapsto> s')) w'"
      have "sound base H (insert ord L) (insert ord U) (m(ord \<mapsto> s'))"
        by (rule sound_put[OF s ord(1) _ free]) (simp_all add: h)
      from next_ok[OF h(2) grow[OF this]] f show "yields (ret ?fl1) w' ?Q" by simp
    qed
    let ?lc = "\<lparr>lc_ws = gc_ws c, lc_run = gc_run c, lc_graph = gc_graph c, lc_region = r, lc_index = ri,
        lc_inputs = [], lc_prior = fl_prior ?fl1, lc_grant = gc_grant c,
        lc_trigger = gc_trigger c, lc_redelivery = fl_redelivery ?fl1\<rparr>"
    have io: "item_ords ?lc 0 MAX_LOOP_ITERATIONS = ?B" by (auto simp: item_ords_def region_ords_def)
    have run: "yields (bindM (open_step P (gc_ws c) (gc_run c) ord ?a ?re) (\<lambda>sid.
        bindM (run_for_each P K ?lc (loop_input c ?i ?fl1)) (\<lambda>res.
        bindM (case res of
                 Inr xs \<Rightarrow> finish_step P (gc_ws c) sid Succeeded (Some (loop_summary xs)) None
               | Inl m \<Rightarrow> finish_step P (gc_ws c) sid Failed None (Some m)) (\<lambda>_.
        ret (record_loop ?i r res ?fl1))))) w ?Q"
      unfolding mo(1)[symmetric]
    proof (rule yields_bind[OF open_yields[OF at]], elim exE conjE)
      fix sid w1 s1 assume o1: "at_steps (gc_ws c) (gc_run c) (m(ord \<mapsto> s1)) w1" "step_id s1 = sid"
      have pr: "lc_prior ?lc o' = (m(ord \<mapsto> s1)) o'" if "o' \<in> item_ords ?lc 0 MAX_LOOP_ITERATIONS" for o'
      proof -
        from that blk have "o' \<noteq> ord" "o' \<notin> U" unfolding io by auto
        then show ?thesis using sound_out[OF s] ord(2) by simp
      qed
      have fe: "yields (run_for_each P K ?lc (loop_input c ?i ?fl1)) w1
          (body_post (gc_ws c) (gc_run c) (m(ord \<mapsto> s1)) ?B)"
        using run_for_each_yields[of ?lc "m(ord \<mapsto> s1)" w1, OF _ pr] o1(1) r(2) bs unfolding io by simp
      show "yields (bindM (run_for_each P K ?lc (loop_input c ?i ?fl1)) (\<lambda>res.
        bindM (case res of
                 Inr xs \<Rightarrow> finish_step P (gc_ws c) sid Succeeded (Some (loop_summary xs)) None
               | Inl m \<Rightarrow> finish_step P (gc_ws c) sid Failed None (Some m)) (\<lambda>_.
        ret (record_loop ?i r res ?fl1)))) w1 ?Q"
      proof (rule yields_bind[OF fe])
        fix res :: "fail_msg + json list" and w2
        assume "body_post (gc_ws c) (gc_run c) (m(ord \<mapsto> s1)) ?B res w2"
        then obtain m2 where m2: "at_steps (gc_ws c) (gc_run c) m2 w2"
          "case res of Inr _ \<Rightarrow> sound (m(ord \<mapsto> s1)) {} {} ?B m2 | Inl _ \<Rightarrow> torn (m(ord \<mapsto> s1)) {} ?B m2"
          unfolding body_post_def by blast
        have oB: "ord \<notin> ?B" using blk by auto
        have "m2 ord = Some s1"
          using m2(2) oB by (cases res) (auto simp: torn_def dest: sound_out)
        note fin = finish_yields[OF m2(1) this, unfolded o1(2)]
        show "yields (bindM (case res of
                 Inr xs \<Rightarrow> finish_step P (gc_ws c) sid Succeeded (Some (loop_summary xs)) None
               | Inl m \<Rightarrow> finish_step P (gc_ws c) sid Failed None (Some m)) (\<lambda>_.
            ret (record_loop ?i r res ?fl1))) w2 ?Q"
        proof (cases res)
          case (Inl e)
          let ?s = "s1\<lparr>step_status := Failed, step_output := None, step_error := Some e\<rparr>"
          have "torn base H (insert ord (U \<union> ?B)) (m2(ord \<mapsto> ?s))"
            using torn_loop[OF s _ ord(3)] m2(2) Inl by auto
          then have k: "kept base H (m2(ord \<mapsto> ?s))" by (simp add: torn_def)
          show ?thesis unfolding Inl sum.case
            by (rule yields_bind[OF fin]) (use ended_put[OF _ _ k] in \<open>simp add: walked_def record_loop_def\<close>)
        next
          case (Inr xs)
          let ?s = "s1\<lparr>step_status := Succeeded, step_output := Some (loop_summary xs), step_error := None\<rparr>"
          have "sound base H (insert ord L) (insert ord (U \<union> ?B)) (m2(ord \<mapsto> ?s))"
            using sound_loop[OF s _ oB ord(3)] m2(2) Inr by auto
          note fin_ok = next_ok[OF _ this]
          show ?thesis unfolding Inr sum.case
            by (rule yields_bind[OF fin]) (use fin_ok f in \<open>simp add: record_loop_def\<close>)
        qed
      qed
    qed
    show ?thesis
      unfolding loop_node_def r(1) option.case prod.case Let_def if_not_P[OF False]
      using skip run by (cases "edge_taken c ?i fl") (simp_all only: if_True if_False not_True_eq_False not_False_eq_True)
  qed
qed

end

section \<open>The walk of a validated graph\<close>

definition planned :: "graph_ctx \<Rightarrow> string list \<Rightarrow> bool" where
  "planned c order \<longleftrightarrow> validate_graph (gc_graph c) = Inr () \<and> topo_order (gc_graph c) = Inr order \<and>
     for_each_regions (gc_graph c) = Inr (gc_regions c)"

lemma plannedD:
  assumes "planned c order"
  shows "distinct (ids (gc_graph c))" "topo_order (gc_graph c) = Inr order"
    "for_each_regions (gc_graph c) = Inr (gc_regions c)" "set order = set (ids (gc_graph c))" "distinct order"
proof -
  from assms show t: "topo_order (gc_graph c) = Inr order"
    and "for_each_regions (gc_graph c) = Inr (gc_regions c)" by (simp_all add: planned_def)
  from assms show d: "distinct (ids (gc_graph c))"
    by (simp add: planned_def validate_graph_ok well_formed_graph_def)
  from topo_order_props[OF d t] show "set order = set (ids (gc_graph c))" "distinct order" by auto
qed

lemma planned_lookup:
  assumes "planned c order" "i \<in> set order"
  obtains n where "lookup_node (gc_graph c) i = Some n" "n \<in> set (nodes (gc_graph c))" "node_id n = i"
proof -
  from assms plannedD(4)[OF assms(1)] obtain n where "n \<in> set (nodes (gc_graph c))" "node_id n = i"
    by (auto simp: ids_def)
  with that lookup_node_iff[OF plannedD(1)[OF assms(1)]] show thesis by blast
qed

lemma region_by_head_iff:
  assumes "distinct (map for_each (gc_regions c))"
  shows "region_by_head c i = Some (ri, r) \<longleftrightarrow> ri < length (gc_regions c) \<and> gc_regions c ! ri = r \<and> for_each r = i"
proof -
  let ?xs = "map (\<lambda>(k, r). (for_each r, (k, r))) (enumerate 0 (gc_regions c))"
  have "map fst ?xs = map (for_each \<circ> snd) (enumerate 0 (gc_regions c))"
    by (simp add: case_prod_beta comp_def)
  then have "map fst ?xs = map for_each (gc_regions c)"
    by (simp only: map_map[symmetric] map_snd_enumerate)
  then have "distinct (map fst (rev ?xs))" using assms by (simp only: rev_map[symmetric] distinct_rev)
  from map_of_eq_Some_iff[OF this, of i "(ri, r)"]
  have "region_by_head c i = Some (ri, r) \<longleftrightarrow> (i, (ri, r)) \<in> set ?xs"
    by (simp only: region_by_head_def set_rev)
  also have "\<dots> \<longleftrightarrow> (ri, r) \<in> set (enumerate 0 (gc_regions c)) \<and> for_each r = i" by force
  also have "\<dots> \<longleftrightarrow> ri < length (gc_regions c) \<and> gc_regions c ! ri = r \<and> for_each r = i"
    by (simp add: in_set_enumerate_eq)
  finally show ?thesis .
qed

lemma planned_region:
  assumes p: "planned c order" and n: "lookup_node (gc_graph c) i = Some n" "tag (node_kind n) = ''for_each''"
  obtains ri r where "region_by_head c i = Some (ri, r)" "ri < length (gc_regions c)"
    "gc_regions c ! ri = r" "for_each r = i"
proof -
  note d = plannedD[OF p]
  note rf = for_each_regions_from[OF d(1-3)]
  have hd: "distinct (map for_each (gc_regions c))" by (rule heads_distinct[OF d(1) rf d(4,5)])
  from n lookup_node_iff[OF d(1)] have "n \<in> set (nodes (gc_graph c))" "node_id n = i" by auto
  with n(2) have "i \<in> set (map for_each (gc_regions c))"
    unfolding regions_heads_list[OF d(4,5) rf] by auto
  then obtain ri where "ri < length (gc_regions c)" "for_each (gc_regions c ! ri) = i"
    by (auto simp: in_set_conv_nth)
  with that region_by_head_iff[OF hd] show thesis by blast
qed

lemma planned_body:
  assumes p: "planned c order" and r: "r \<in> set (gc_regions c)"
  shows "length (reg_body r) \<le> MAX_LOOP_BODY_NODES"
    and "b \<in> set (reg_body r) \<Longrightarrow> \<exists>n. lookup_node (gc_graph c) b = Some n \<and> tag (node_kind n) \<in> {''action'', ''code'', ''condition''}"
proof -
  note d = plannedD[OF p]
  from region_facts[OF d(1-3) r] have g: "good_region (gc_graph c) (for_each r) (loop_end r)"
    "reg_body r = region_body (gc_graph c) order (for_each r) (loop_end r)" by auto
  from g show "length (reg_body r) \<le> MAX_LOOP_BODY_NODES"
    using region_body_card[OF d(4,5)] by (simp add: good_region_def)
  assume "b \<in> set (reg_body r)"
  with g region_body_between[OF d(4)] have b: "plain_node (gc_graph c) b" "b \<in> set order"
    by (auto simp: good_region_def between_def d(4))
  from planned_lookup[OF p b(2)] obtain n where n: "lookup_node (gc_graph c) b = Some n" by blast
  with b(1) have "tag (node_kind n) \<in> {''action'', ''code'', ''condition''}"
    by (cases "node_kind n") (simp_all add: plain_node_def)
  with n show "\<exists>n. lookup_node (gc_graph c) b = Some n \<and> tag (node_kind n) \<in> {''action'', ''code'', ''condition''}" by blast
qed

lemma planned_end:
  assumes p: "planned c order" and n: "n \<in> set (nodes (gc_graph c))" "tag (node_kind n) = ''loop_end''"
  shows "node_id n \<in> region_internal c"
proof -
  note d = plannedD[OF p]
  have "n \<in> set (loop_ends (gc_graph c))" using n by (cases "node_kind n") (auto simp: loop_ends_def)
  with d(2,3) have "check_orphan (gc_regions c) n = Inr ()"
    by (auto simp: for_each_regions_def Let_def)
  then show ?thesis by (auto simp: check_orphan_ok region_internal_def)
qed

lemma region_ords_blocks:
  assumes "ri < length rs" "rs ! ri = r" "for_each r \<in> X" "length (reg_body r) \<le> MAX_LOOP_BODY_NODES"
  shows "region_ords ri r \<subseteq> blocks rs X"
proof
  fix ord assume "ord \<in> region_ords ri r"
  then obtain i p where "ord = body_ord ri i p" "i < MAX_LOOP_ITERATIONS" "p < length (reg_body r)"
    by (auto simp: region_ords_def)
  with assms show "ord \<in> blocks rs X"
    unfolding blocks_def by (intro CollectI exI[of _ ri] exI[of _ i] exI[of _ p]) auto
qed

lemma region_ords_fresh:
  assumes "k < 1000000" "length (reg_body r) \<le> MAX_LOOP_BODY_NODES" "rs ! ri = r" "for_each r \<notin> X"
  shows "region_ords ri r \<inter> insert (int k) ({int j | j. j < k} \<union> blocks rs X) = {}"
proof (rule ccontr)
  assume "\<not> ?thesis"
  then obtain ord where o: "ord \<in> region_ords ri r" "ord \<in> insert (int k) ({int j | j. j < k} \<union> blocks rs X)" by blast
  from o(1) obtain i p where ip: "ord = body_ord ri i p" "i < MAX_LOOP_ITERATIONS" "p < MAX_LOOP_BODY_NODES"
    using assms(2) by (auto simp: region_ords_def)
  have "\<not> ord \<le> int k" using body_ord_base[of ri i p] assms(1) ip(1) by linarith
  with o(2) have "ord \<in> blocks rs X" by auto
  then obtain r' j q where q: "ord = body_ord r' j q" "for_each (rs ! r') \<in> X" "j < MAX_LOOP_ITERATIONS" "q < MAX_LOOP_BODY_NODES"
    by (auto simp: blocks_def)
  from body_ord_blocks[of ri i p r' j q] ip q have "r' = ri" by simp
  with q(2) assms(3,4) show False by simp
qed

lemma as_i32_small: "k < 1000000 \<Longrightarrow> as_i32 (int k) = int k"
  by (simp add: as_i32_def)

end
