(* ===== verification/Auto_Finish.thy ===== *)
theory Auto_Finish
  imports Auto_Completes
begin

text \<open>
  A graph run to its end: the walk over all nodes of a validated graph, and the properties of the
  engine over the Postgres journal, fresh or resumed after a crash.
\<close>

section \<open>What a run leaves in the journal\<close>

text \<open>
  Every node outside the loop bodies has a step, at its position in the topological order, and no
  such step failed; and a step a prior attempt completed is as it was, except those of loop heads,
  which run their body again under the steps the body already has.
\<close>

definition journal_complete :: "graph \<Rightarrow> (int \<rightharpoonup> step) \<Rightarrow> bool" where
  "journal_complete g m \<longleftrightarrow>
     (case (topo_order g, for_each_regions g) of
        (Inr order, Inr rs) \<Rightarrow>
          (\<forall>k<length order. (\<forall>r\<in>set rs. order ! k \<notin> set (reg_body r) \<and> order ! k \<noteq> loop_end r) \<longrightarrow>
             (\<exists>s. m (int k) = Some s \<and> step_status s \<noteq> Failed))
      | _ \<Rightarrow> False)"

definition resumed_from :: "graph \<Rightarrow> (int \<rightharpoonup> step) \<Rightarrow> (int \<rightharpoonup> step) \<Rightarrow> bool" where
  "resumed_from g prior m \<longleftrightarrow>
     (case topo_order g of Inr order \<Rightarrow> kept prior (heads g order) m | Inl _ \<Rightarrow> False)"

lemma sound_complete:
  assumes g: "topo_order g = Inr order" "for_each_regions g = Inr (gc_regions c)"
    and s: "sound base H (outer_ords (region_internal c) order (length order)) U m"
  shows "journal_complete g m"
proof -
  have "\<exists>s. m (int k) = Some s \<and> step_status s \<noteq> Failed"
    if k: "k < length order" "\<forall>r\<in>set (gc_regions c). order ! k \<notin> set (reg_body r) \<and> order ! k \<noteq> loop_end r" for k
  proof -
    have "int k \<in> outer_ords (region_internal c) order (length order)"
      using k by (auto simp: outer_ords_def region_internal_def)
    with s show ?thesis by (auto simp: sound_def)
  qed
  then show ?thesis unfolding journal_complete_def g by simp
qed

section \<open>The whole walk\<close>

context run_journal
begin

lemma walked_mono:
  assumes "walked ws rid base H L U fl w" "L' \<subseteq> L" "U \<subseteq> U'"
  shows "walked ws rid base H L' U' fl w"
proof (cases "fl_failure fl = None")
  case True
  with assms(1) obtain m where "at_steps ws rid m w" "sound base H L U m" "\<forall>ord. ord \<notin> U \<longrightarrow> fl_prior fl ord = base ord"
    by (auto simp: walked_def)
  with True sound_mono[OF _ assms(2,3)] assms(3) show ?thesis
    unfolding walked_def if_P[OF True] by (intro exI[of _ m]) blast
next
  case False
  with assms(1) show ?thesis by (auto simp: walked_def)
qed

lemma visit_yields:
  assumes p: "planned c order" and k: "k < length order" "length order \<le> 1000000"
    and at: "at_steps (gc_ws c) (gc_run c) m w"
    and s: "sound base (heads (gc_graph c) order) (outer_ords (region_internal c) order k) (used (gc_regions c) order k) m"
    and pr: "\<And>o'. o' \<notin> used (gc_regions c) order k \<Longrightarrow> fl_prior fl o' = base o'" and f: "fl_failure fl = None"
  shows "yields (visit P K c k (order ! k) fl) w
    (walked (gc_ws c) (gc_run c) base (heads (gc_graph c) order)
       (outer_ords (region_internal c) order (Suc k)) (used (gc_regions c) order (Suc k)))"
proof -
  let ?i = "order ! k" and ?rs = "gc_regions c" and ?in = "region_internal c"
  let ?H = "heads (gc_graph c) order"
  let ?L = "outer_ords ?in order k" and ?U = "used ?rs order k"
  have small: "k < 1000000" using k by simp
  obtain n where n: "lookup_node (gc_graph c) ?i = Some n" "n \<in> set (nodes (gc_graph c))" "node_id n = ?i"
    using planned_lookup[OF p nth_mem[OF k(1)]] .
  note fresh = used_fresh[OF small, of ?rs order]
  show ?thesis
  proof (cases "?i \<in> ?in")
    case True
    have "sound base ?H (outer_ords ?in order (Suc k)) (used ?rs order (Suc k)) m"
      by (rule sound_mono[OF s outer_Suc(2)[OF True] used_mono]) simp
    moreover have "fl_prior fl o' = base o'" if "o' \<notin> used ?rs order (Suc k)" for o'
      using pr that used_mono[of k "Suc k" ?rs order] by auto
    ultimately have "walked (gc_ws c) (gc_run c) base ?H (outer_ords ?in order (Suc k)) (used ?rs order (Suc k)) fl w"
      using at f by (auto simp: walked_def)
    with True n show ?thesis by (simp add: visit_def)
  next
    case outer: False
    show ?thesis
    proof (cases "tag (node_kind n) = ''for_each''")
      case True
      obtain ri r where r: "region_by_head c ?i = Some (ri, r)" "ri < length ?rs" "?rs ! ri = r" "for_each r = ?i"
        using planned_region[OF p n(1) True] .
      have rm: "r \<in> set ?rs" using r(2,3) nth_mem by blast
      note len = planned_body(1)[OF p rm]
      have "?i \<notin> set (take k order)"
        using plannedD(5)[OF p] k(1) by (auto simp: in_set_conv_nth nth_eq_iff_index_eq)
      then have blk: "region_ords ri r \<inter> insert (int k) ?U = {}"
        unfolding used_def using region_ords_fresh[OF small len r(3), of "set (take k order)"] r(4) by simp
      have hd: "int k \<in> ?H" using k(1) n(1) True by (auto simp: heads_def)
      have "region_ords ri r \<subseteq> blocks ?rs (set (take (Suc k) order))"
        by (rule region_ords_blocks[OF r(2,3) _ len]) (use k(1) in \<open>simp add: r(4) take_Suc_conv_app_nth\<close>)
      then have sub: "insert (int k) (?U \<union> region_ords ri r) \<subseteq> used ?rs order (Suc k)"
        using used_Suc[of k ?rs order] by (auto simp: used_def)
      have "yields (loop_node P K c (int k) n fl) w
          (walked (gc_ws c) (gc_run c) base ?H (insert (int k) ?L) (insert (int k) (?U \<union> region_ords ri r)))"
        by (rule loop_node_yields[OF at s fresh pr hd f _ len planned_body(2)[OF p rm] blk]) (simp_all add: n(3) r(1))
      then have "yields (loop_node P K c (int k) n fl) w
          (walked (gc_ws c) (gc_run c) base ?H (outer_ords ?in order (Suc k)) (used ?rs order (Suc k)))"
        by (rule yields_mono) (erule walked_mono[OF _ outer_Suc(1) sub])
      with outer True n show ?thesis by (simp add: visit_def as_i32_small[OF small])
    next
      case False
      with planned_end[OF p n(2)] outer n(3)
      have tag: "tag (node_kind n) \<in> {''trigger'', ''action'', ''code'', ''condition''}"
        by (cases "node_kind n") auto
      have "yields (outer_node P K c (int k) n fl) w
          (walked (gc_ws c) (gc_run c) base ?H (insert (int k) ?L) (insert (int k) ?U))"
        by (rule outer_node_yields[OF at s fresh pr f tag])
      then have "yields (outer_node P K c (int k) n fl) w
          (walked (gc_ws c) (gc_run c) base ?H (outer_ords ?in order (Suc k)) (used ?rs order (Suc k)))"
        by (rule yields_mono) (erule walked_mono[OF _ outer_Suc(1) used_Suc])
      with outer False n show ?thesis by (simp add: visit_def as_i32_small[OF small])
    qed
  qed
qed

lemma visit_all_yields:
  assumes p: "planned c order" and len: "length order \<le> 1000000" and d: "is = drop k order"
    and w: "walked (gc_ws c) (gc_run c) base (heads (gc_graph c) order)
       (outer_ords (region_internal c) order k) (used (gc_regions c) order k) fl w"
    and f: "fl_failure fl = None" and k: "k \<le> length order"
  shows "yields (visit_all P K c k is fl) w
    (walked (gc_ws c) (gc_run c) base (heads (gc_graph c) order)
       (outer_ords (region_internal c) order (length order)) (used (gc_regions c) order (length order)))"
  using d w f k
proof (induction "is" arbitrary: k fl w)
  case Nil
  then have "k = length order" by simp
  with Nil show ?case by simp
next
  case (Cons i "is")
  from Cons.prems(1) have k: "k < length order" by (metis drop_all list.distinct(1) not_less)
  with Cons.prems(1) have i: "i = order ! k" "is = drop (Suc k) order"
    by (simp_all add: Cons_nth_drop_Suc[symmetric])
  from Cons.prems(2,3) obtain m where m: "at_steps (gc_ws c) (gc_run c) m w"
    "sound base (heads (gc_graph c) order) (outer_ords (region_internal c) order k) (used (gc_regions c) order k) m"
    "\<And>o'. o' \<notin> used (gc_regions c) order k \<Longrightarrow> fl_prior fl o' = base o'" by (auto simp: walked_def)
  show ?case
  proof (simp only: visit_all.simps, rule yields_bind[OF visit_yields[OF p k len m Cons.prems(3), folded i(1)]])
    fix fl' w' assume w': "walked (gc_ws c) (gc_run c) base (heads (gc_graph c) order)
       (outer_ords (region_internal c) order (Suc k)) (used (gc_regions c) order (Suc k)) fl' w'"
    show "yields (if fl_failure fl' \<noteq> None then ret fl' else visit_all P K c (Suc k) is fl') w'
      (walked (gc_ws c) (gc_run c) base (heads (gc_graph c) order)
       (outer_ords (region_internal c) order (length order)) (used (gc_regions c) order (length order)))"
    proof (cases "fl_failure fl' = None")
      case True
      with Cons.IH[OF i(2) w'] k show ?thesis by simp
    next
      case False
      with w' show ?thesis by (auto simp: walked_def)
    qed
  qed
qed

lemma finish_run_yields:
  assumes "at_steps ws rid m w"
  shows "yields (finish_run P ws rid st e) w
    (\<lambda>r w'. at_steps ws rid m w' \<and> jv_run (view w') rid = Some r \<and> run_status r = st \<and> run_error r = e)"
proof -
  from assms obtain r where r: "ok w" "jv_run (view w) rid = Some r" "run_workspace r = ws" "jv_steps (view w) rid = m"
    by (auto simp: at_steps_def)
  from finish_open_run[OF r(1,2), of st e] r show ?thesis by (auto simp: yields_def at_steps_def)
qed

lemma run_graph_yields:
  assumes v: "validate_graph g = Inr ()" and size: "length (nodes g) \<le> 1000000" and at: "at_steps ws rid prior w"
  shows "yields (run_graph P K ws rid g trig grant prior) w
    (\<lambda>r w'. \<exists>m. at_steps ws rid m w' \<and> jv_run (view w') rid = Some r \<and> resumed_from g prior m \<and>
       (run_status r = RunSucceeded \<and> run_error r = None \<and> journal_complete g m \<or>
        run_status r = RunFailed \<and> run_error r \<noteq> None \<and> (\<exists>ord s. m ord = Some s \<and> step_status s = Failed)))"
proof -
  from v obtain order rs where g: "topo_order g = Inr order" "for_each_regions g = Inr rs"
    by (auto simp: validate_graph_def)
  let ?c = "\<lparr>gc_ws = ws, gc_run = rid, gc_graph = g, gc_regions = rs, gc_trigger = trig,
      gc_event = Option.bind trig (dec_event K), gc_grant = grant\<rparr>"
  let ?fl = "\<lparr>fl_output = Map.empty, fl_branch = Map.empty, fl_succ = Map.empty,
      fl_redelivery = redelivery_flag trig, fl_prior = prior, fl_failure = None\<rparr>"
  have p: "planned ?c order" using v g by (simp add: planned_def)
  have "length order = length (nodes g)"
    using plannedD(1,4,5)[OF p] by (metis distinct_card graph_ctx.simps(3) ids_def length_map)
  with size have len: "length order \<le> 1000000" by simp
  have "walked (gc_ws ?c) (gc_run ?c) prior (heads (gc_graph ?c) order) (outer_ords (region_internal ?c) order 0)
      (used (gc_regions ?c) order 0) ?fl w"
    using at sound_start by (auto simp: walked_def outer_ords_def)
  from visit_all_yields[OF p len _ this]
  have all: "yields (visit_all P K ?c 0 order ?fl) w (walked ws rid prior (heads g order)
      (outer_ords (region_internal ?c) order (length order)) (used rs order (length order)))" by simp
  show ?thesis
    unfolding run_graph_def g sum.case
  proof (rule yields_bind[OF all])
    fix fl w' assume w': "walked ws rid prior (heads g order)
      (outer_ords (region_internal ?c) order (length order)) (used rs order (length order)) fl w'"
    show "yields (finish_with P ws rid (fl_failure fl)) w' (\<lambda>r w'. \<exists>m. at_steps ws rid m w' \<and>
       jv_run (view w') rid = Some r \<and> resumed_from g prior m \<and>
       (run_status r = RunSucceeded \<and> run_error r = None \<and> journal_complete g m \<or>
        run_status r = RunFailed \<and> run_error r \<noteq> None \<and> (\<exists>ord s. m ord = Some s \<and> step_status s = Failed)))"
    proof (cases "fl_failure fl = None")
      case True
      with w' obtain m where m: "at_steps ws rid m w'"
        "sound prior (heads g order) (outer_ords (region_internal ?c) order (length order)) (used rs order (length order)) m"
        by (auto simp: walked_def)
      have "resumed_from g prior m" using m(2) g by (simp add: resumed_from_def sound_def)
      moreover have "journal_complete g m"
        by (rule sound_complete[OF g(1) _ m(2)]) (simp add: g(2))
      ultimately show ?thesis
        unfolding finish_with_def True simp_thms if_False
        by (intro yields_mono[OF finish_run_yields[OF m(1)]] exI[of _ m]) simp
    next
      case False
      with w' obtain m where m: "at_steps ws rid m w'" "kept prior (heads g order) m"
        "\<exists>ord s. m ord = Some s \<and> step_status s = Failed" by (auto simp: walked_def ended_def)
      have "resumed_from g prior m" using m(2) g by (simp add: resumed_from_def)
      then show ?thesis
        unfolding finish_with_def if_P[OF False]
        by (intro yields_mono[OF finish_run_yields[OF m(1)]] exI[of _ m]) (simp add: m(3) False)
    qed
  qed
qed

end

section \<open>Properties\<close>

text \<open>
  C12: a graph run ends, and its journal tells how. Over the tables of the store, whatever the
  runners answer and whatever a crashed attempt left behind, the run of a validated graph of at
  most a million nodes (beyond that an outer ordinal meets the block of the loop bodies) returns
  the run row it wrote. It succeeded, and every node outside the loop bodies has a step that did
  not fail; or it failed with a message, and a step failed. Steps a prior attempt completed are
  untouched, those of loop heads excepted.
\<close>

theorem graph_run_completes:
  assumes "validate_graph g = Inr ()" "length (nodes g) \<le> 1000000"
    and "tables_ok (tables w)" "jv_run (tables_view (tables w)) rid = Some r0"
  shows "\<exists>r w' m. run_graph (pg_ports R) K (run_workspace r0) rid g trig grant
        (jv_steps (tables_view (tables w)) rid) w = (Inr r, w') \<and>
      tables_ok (tables w') \<and> jv_run (tables_view (tables w')) rid = Some r \<and>
      m = jv_steps (tables_view (tables w')) rid \<and> resumed_from g (jv_steps (tables_view (tables w)) rid) m \<and>
      (run_status r = RunSucceeded \<and> run_error r = None \<and> journal_complete g m \<or>
       run_status r = RunFailed \<and> run_error r \<noteq> None \<and> (\<exists>ord s. m ord = Some s \<and> step_status s = Failed))"
proof -
  have "pg.at_steps (run_workspace r0) rid (jv_steps (tables_view (tables w)) rid) w"
    using assms(3,4) by (simp add: pg.at_steps_def)
  from pg.run_graph_yields[OF assms(1,2) this, of R K trig grant] show ?thesis
    unfolding yields_def pg.at_steps_def by blast
qed

text \<open>
  A loop over an event's array of two: the trigger, the loop head and one body step per item.
\<close>

definition quiet_runners :: "unit runners" where
  "quiet_runners = \<lparr>
     act_on = (\<lambda>ws a t g x. (\<lparr>oc_status = Succeeded, oc_output = None, oc_error = None\<rparr>, x)),
     code_on = (\<lambda>rt src v ws g x. (Inr JNull, x)),
     now_on = (\<lambda>x. 0)\<rparr>"

definition one_run :: journal where
  "one_run = \<lparr>j_automations = [(7, 1)],
     j_runs = [\<lparr>run_id = 0, run_workspace = 1, run_automation = 7, run_status = RunRunning, run_grant = None,
                run_trigger = None, run_error = None, run_job = None\<rparr>],
     j_steps = [], j_grants = [], j_next = 1\<rparr>"

theorem graph_run_completes_witness:
  "\<forall>K trig. \<exists>r w'. run_graph (pg_ports quiet_runners) K 1 0 loop_graph trig None (\<lambda>_. None)
       \<lparr>tables = one_run, outside = ()\<rparr> = (Inr r, w') \<and> run_status r \<in> {RunSucceeded, RunFailed}"
proof (intro allI)
  fix K trig
  let ?w = "\<lparr>tables = one_run, outside = ()\<rparr>" and ?r = "hd (j_runs one_run)"
  have w: "length (nodes loop_graph) \<le> 1000000" "tables_ok (tables ?w)" "jv_run (tables_view (tables ?w)) 0 = Some ?r"
    "run_workspace ?r = 1" "jv_steps (tables_view (tables ?w)) 0 = (\<lambda>_. None)"
    by (simp_all add: loop_graph_def tables_ok_def tables_view_def one_run_def)
  from graph_run_completes[OF loop_graph_valid w(1-3), unfolded w(4,5), of quiet_runners K trig None]
  show "\<exists>r w'. run_graph (pg_ports quiet_runners) K 1 0 loop_graph trig None (\<lambda>_. None) ?w = (Inr r, w') \<and>
      run_status r \<in> {RunSucceeded, RunFailed}" by blast
qed

end
