(* ===== verification/Auto_Linear.thy ===== *)
theory Auto_Linear
  imports Auto_Finish
begin

text \<open>
  The linear list of actions over a journal that keeps the contract, and the whole execution of an
  automation, fresh or redelivered for the same job, over the Postgres journal.
\<close>

section \<open>The linear list\<close>

definition upto_ord :: "nat \<Rightarrow> int set" where
  "upto_ord k = {int j | j. j < k}"

lemma upto_ord_Suc: "upto_ord (Suc k) = insert (int k) (upto_ord k)"
  by (auto simp: upto_ord_def less_Suc_eq)

lemma upto_ord_fresh: "int k \<notin> upto_ord k"
  by (simp add: upto_ord_def)

lemma as_i32_ord: "k < 2 ^ 31 \<Longrightarrow> as_i32 (int k) = int k"
  by (simp add: as_i32_def)

definition linear_complete :: "nat \<Rightarrow> (int \<rightharpoonup> step) \<Rightarrow> bool" where
  "linear_complete n m \<longleftrightarrow> (\<forall>k<n. \<exists>s. m (int k) = Some s \<and> step_status s \<noteq> Failed)"

context run_journal
begin

definition listed :: "nat \<Rightarrow> nat \<Rightarrow> (int \<rightharpoonup> step) \<Rightarrow> nat \<Rightarrow> fail_msg option \<Rightarrow> 'w \<Rightarrow> bool" where
  "listed ws rid base n fm w \<longleftrightarrow>
     (if fm = None then \<exists>m. at_steps ws rid m w \<and> sound base {} (upto_ord n) (upto_ord n) m
      else ended ws rid base {} w)"

lemma action_yields:
  "at_steps ws rid m w \<Longrightarrow> yields (liftM (run_action P ws' b t g)) w (\<lambda>_ w'. at_steps ws rid m w')"
  using action_beside[of w ws' b t g]
  by (cases "run_action P ws' b t g w") (auto simp: yields_def liftM_def at_steps_def)

lemma run_actions_yields:
  assumes "at_steps (ln_ws c) (ln_run c) m w" "sound base {} (upto_ord k) (upto_ord k) m"
    and "\<And>o'. o' \<notin> upto_ord k \<Longrightarrow> prior o' = base o'" "k + length as \<le> 2 ^ 31"
  shows "yields (run_actions P K c k as prior red) w (listed (ln_ws c) (ln_run c) base (k + length as))"
  using assms
proof (induction as arbitrary: k prior red m w)
  case Nil
  then show ?case by (auto simp: listed_def)
next
  case (Cons a as)
  let ?o = "int k" and ?pr = "prior(int k := None)"
  let ?Q = "listed (ln_ws c) (ln_run c) base (k + length (a # as))"
  have o: "as_i32 (int k) = ?o" by (rule as_i32_ord) (use Cons.prems(4) in simp)
  note fresh = upto_ord_fresh[of k]
  have mo: "m ?o = prior ?o" "prior ?o = base ?o" using sound_out[OF Cons.prems(2) fresh] Cons.prems(3) fresh by simp_all
  have go: "yields (run_actions P K c (Suc k) as ?pr red') w' ?Q"
    if "at_steps (ln_ws c) (ln_run c) m' w'" "sound base {} (insert ?o (upto_ord k)) (insert ?o (upto_ord k)) m'" for m' w' red'
  proof -
    have "?pr o' = base o'" if "o' \<notin> upto_ord (Suc k)" for o' using that Cons.prems(3) by (simp add: upto_ord_Suc)
    have "yields (run_actions P K c (Suc k) as ?pr red') w' (listed (ln_ws c) (ln_run c) base (Suc k + length as))"
      by (rule Cons.IH[OF that[folded upto_ord_Suc] \<open>\<And>o'. o' \<notin> upto_ord (Suc k) \<Longrightarrow> ?pr o' = base o'\<close>])
        (use Cons.prems(4) in simp_all)
    then show ?thesis by simp
  qed
  show ?case
  proof (cases "\<exists>p. prior ?o = Some p \<and> settled p")
    case True
    then obtain p where p: "prior ?o = Some p" "settled p" by blast
    with go[OF Cons.prems(1) sound_settled[OF Cons.prems(2) fresh _ p(2)], of red] mo show ?thesis
      by (auto simp: o Let_def settled_def)
  next
    case False
    then have d: "\<not> (map_option step_status (prior ?o) = Some Succeeded \<or> map_option step_status (prior ?o) = Some Skipped)"
      by (auto simp: settled_def)
    have free: "base ?o = Some s0 \<Longrightarrow> settled s0 \<Longrightarrow> ?o \<in> {}" for s0 using False mo by auto
    let ?re = "map_option step_id (prior ?o)"
    have skip: "yields (bindM (skip_step P (ln_ws c) (ln_run c) ?o (enc_action K a) ?re)
        (\<lambda>_. run_actions P K c (Suc k) as ?pr red)) w ?Q"
      unfolding mo(1)[symmetric]
    proof (rule yields_bind[OF skip_yields[OF Cons.prems(1)]], elim exE conjE)
      fix w' s' assume h: "step_status s' = Skipped" "at_steps (ln_ws c) (ln_run c) (m(?o \<mapsto> s')) w'"
      show "yields (run_actions P K c (Suc k) as ?pr red) w' ?Q"
        by (rule go[OF h(2) sound_put[OF Cons.prems(2) fresh _ free]]) (simp_all add: h)
    qed
    have run: "yields (bindM (open_step P (ln_ws c) (ln_run c) ?o (enc_action K a) ?re) (\<lambda>sid.
        bindM (liftM (run_action P (ln_ws c) a (ln_trigger c) (ln_grant c))) (\<lambda>r.
        bindM (finish_step P (ln_ws c) sid (oc_status r) (oc_output r) (map_option RunnerError (oc_error r))) (\<lambda>_.
        if oc_status r = Failed
        then ret (Some (case oc_error r of Some m \<Rightarrow> RunnerError m | None \<Rightarrow> ActionFailed k))
        else run_actions P K c (Suc k) as ?pr
               (red \<or> (case oc_output r of Some v \<Rightarrow> already_stored v | None \<Rightarrow> False)))))) w ?Q"
      unfolding mo(1)[symmetric]
    proof (rule yields_bind[OF open_yields[OF Cons.prems(1)]], elim exE conjE, rule yields_bind[OF action_yields])
      fix sid w1 s1 assume o1: "at_steps (ln_ws c) (ln_run c) (m(?o \<mapsto> s1)) w1" "step_id s1 = sid"
      then show "at_steps (ln_ws c) (ln_run c) (m(?o \<mapsto> s1)) w1" by simp
      fix r w2 assume w2: "at_steps (ln_ws c) (ln_run c) (m(?o \<mapsto> s1)) w2"
      let ?s = "s1\<lparr>step_status := oc_status r, step_output := oc_output r, step_error := map_option RunnerError (oc_error r)\<rparr>"
      have fin: "yields (finish_step P (ln_ws c) sid (oc_status r) (oc_output r) (map_option RunnerError (oc_error r))) w2
          (\<lambda>_ w'. at_steps (ln_ws c) (ln_run c) (m(?o \<mapsto> ?s)) w')"
        using finish_yields[OF w2, of ?o s1] by (simp add: o1(2))
      have "torn base {} (insert ?o (upto_ord k)) (m(?o \<mapsto> ?s))"
        by (rule torn_put[OF sound_torn[OF Cons.prems(2)] free])
      then have bad: "kept base {} (m(?o \<mapsto> ?s))" by (simp add: torn_def)
      show "yields (bindM (finish_step P (ln_ws c) sid (oc_status r) (oc_output r) (map_option RunnerError (oc_error r))) (\<lambda>_.
          if oc_status r = Failed
          then ret (Some (case oc_error r of Some m \<Rightarrow> RunnerError m | None \<Rightarrow> ActionFailed k))
          else run_actions P K c (Suc k) as ?pr
                 (red \<or> (case oc_output r of Some v \<Rightarrow> already_stored v | None \<Rightarrow> False)))) w2 ?Q"
      proof (rule yields_bind[OF fin], goal_cases)
        case (1 x w3)
        show ?case
        proof (cases "oc_status r = Failed")
          case True
          with ended_put[OF 1 _ bad] show ?thesis by (simp add: listed_def)
        next
          case False
          show ?thesis unfolding if_not_P[OF False]
            by (rule go[OF 1 sound_put[OF Cons.prems(2) fresh _ free]]) (simp_all add: False)
        qed
      qed
    qed
    show ?thesis
      unfolding run_actions.simps Let_def o if_not_P[OF d]
      using skip run
      by (cases "\<not> ln_pass c \<or> gated_off red (NAction a)") (simp_all only: if_True if_False)
  qed
qed

lemma condition_yields:
  assumes "at_steps ws rid m w"
  shows "yields (liftM (eval_condition P cond trig ws' g)) w (\<lambda>_ w'. at_steps ws rid m w')"
proof -
  have "snd (eval_condition P cond trig ws' g w) = w \<or>
      (\<exists>rt src v. snd (eval_condition P cond trig ws' g w) = snd (run_code P rt src v ws' g w))"
    by (auto simp: eval_condition_def split: option.splits prod.splits sum.splits) (metis snd_conv)+
  moreover have "at_steps ws rid m (snd (run_code P rt src v ws' g w))" for rt src v
    using assms code_beside[of w rt src v ws' g] by (cases "run_code P rt src v ws' g w") (auto simp: at_steps_def)
  ultimately have "at_steps ws rid m (snd (eval_condition P cond trig ws' g w))" using assms by auto
  then show ?thesis
    by (cases "eval_condition P cond trig ws' g w") (auto simp: yields_def liftM_def)
qed

lemma run_linear_yields:
  assumes at: "at_steps ws rid prior w" and len: "length (spec_actions sp) \<le> 2 ^ 31"
  shows "yields (run_linear P K ws rid sp trig grant prior) w
    (\<lambda>r w'. \<exists>m. at_steps ws rid m w' \<and> jv_run (view w') rid = Some r \<and> kept prior {} m \<and>
       (run_status r = RunSucceeded \<and> run_error r = None \<and> linear_complete (length (spec_actions sp)) m \<or>
        run_status r = RunFailed \<and> run_error r \<noteq> None))"
proof -
  let ?Q = "\<lambda>r w'. \<exists>m. at_steps ws rid m w' \<and> jv_run (view w') rid = Some r \<and> kept prior {} m \<and>
       (run_status r = RunSucceeded \<and> run_error r = None \<and> linear_complete (length (spec_actions sp)) m \<or>
        run_status r = RunFailed \<and> run_error r \<noteq> None)"
  have cond: "yields (case spec_condition sp of None \<Rightarrow> ret (Inr True)
      | Some cond \<Rightarrow> liftM (eval_condition P cond trig ws grant)) w (\<lambda>_ w'. at_steps ws rid prior w')"
    using at condition_yields by (auto split: option.splits)
  show ?thesis unfolding run_linear_def
  proof (rule yields_bind[OF cond])
    fix pass :: "string + bool" and w1 assume w1: "at_steps ws rid prior w1"
    show "yields (case pass of
         Inl e \<Rightarrow> finish_run P ws rid RunFailed (Some (RunnerError e))
       | Inr ok \<Rightarrow>
           bindM (run_actions P K \<lparr>ln_ws = ws, ln_run = rid, ln_trigger = trig, ln_grant = grant, ln_pass = ok\<rparr>
                    0 (spec_actions sp) prior (redelivery_flag trig))
             (\<lambda>failure. finish_with P ws rid failure)) w1 ?Q"
    proof (cases pass)
      case (Inl e)
      show ?thesis unfolding Inl sum.case
        by (intro yields_mono[OF finish_run_yields[OF w1]] exI[of _ prior]) (simp add: kept_def)
    next
      case (Inr ok)
      let ?c = "\<lparr>ln_ws = ws, ln_run = rid, ln_trigger = trig, ln_grant = grant, ln_pass = ok\<rparr>"
      have "yields (run_actions P K ?c 0 (spec_actions sp) prior (redelivery_flag trig)) w1
          (listed (ln_ws ?c) (ln_run ?c) prior (0 + length (spec_actions sp)))"
        by (rule run_actions_yields) (use w1 len in \<open>auto simp: sound_start upto_ord_def\<close>)
      then have acts: "yields (run_actions P K ?c 0 (spec_actions sp) prior (redelivery_flag trig)) w1
          (listed ws rid prior (length (spec_actions sp)))" by simp
      show ?thesis unfolding Inr sum.case
      proof (rule yields_bind[OF acts])
        fix fm w2 assume w2: "listed ws rid prior (length (spec_actions sp)) fm w2"
        show "yields (finish_with P ws rid fm) w2 ?Q"
        proof (cases "fm = None")
          case True
          with w2 obtain m where m: "at_steps ws rid m w2"
            "sound prior {} (upto_ord (length (spec_actions sp))) (upto_ord (length (spec_actions sp))) m"
            by (auto simp: listed_def)
          have "kept prior {} m" "linear_complete (length (spec_actions sp)) m"
            using m(2) by (auto simp: sound_def linear_complete_def upto_ord_def)
          then show ?thesis
            unfolding finish_with_def True simp_thms if_False
            by (intro yields_mono[OF finish_run_yields[OF m(1)]] exI[of _ m]) simp
        next
          case False
          with w2 obtain m where m: "at_steps ws rid m w2" "kept prior {} m" by (auto simp: listed_def ended_def)
          then show ?thesis
            unfolding finish_with_def if_P[OF False]
            by (intro yields_mono[OF finish_run_yields[OF m(1)]] exI[of _ m]) (simp add: False)
        qed
      qed
    qed
  qed
qed

end

section \<open>Opening a run in the tables\<close>

lemma find_run:
  assumes "tables_ok j" "r \<in> set (j_runs j)"
  shows "jv_run (tables_view j) (run_id r) = Some r"
proof -
  have "r' = r" if "r' \<in> set (j_runs j)" "run_id r' = run_id r" for r'
    by (rule keyed_inj[of run_id "j_runs j", OF _ that(1) assms(2) that(2)]) (use assms(1) in \<open>simp add: tables_ok_def\<close>)
  with find_unique[OF assms(2), of "\<lambda>x. run_id x = run_id r"] show ?thesis by (simp add: tables_view_def)
qed

lemma by_ordinal_rows:
  assumes ok: "tables_ok j" and r: "r \<in> set (j_runs j)" "run_workspace r = ws"
  shows "by_ordinal (sort_key ordinal (sort_key step_id (filter (\<lambda>s. step_workspace s = ws \<and> step_run s = run_id r) (j_steps j)))) =
    jv_steps (tables_view j) (run_id r)"
proof
  fix ord
  let ?mine = "filter (\<lambda>s. step_workspace s = ws \<and> step_run s = run_id r) (j_steps j)"
  let ?ss = "sort_key ordinal (sort_key step_id ?mine)"
  have key: "s = s'" if "s \<in> set (j_steps j)" "s' \<in> set (j_steps j)" "step_run s = step_run s'" "ordinal s = ordinal s'" for s s'
    by (rule keyed_inj[of "\<lambda>s. (step_run s, ordinal s)" "j_steps j"]) (use ok that in \<open>simp_all add: tables_ok_def\<close>)
  have "distinct (j_steps j)" using ok by (auto simp: tables_ok_def distinct_map)
  then have d: "distinct ?ss" by (simp only: distinct_sort distinct_filter)
  have inj: "inj_on ordinal (set ?ss)" using key by (auto intro!: inj_onI)
  then have d': "distinct (map fst (rev (map (\<lambda>s. (ordinal s, s)) ?ss)))"
    using d unfolding rev_map[symmetric] map_map comp_def fst_conv by (simp only: distinct_map distinct_rev set_rev)
  have ws: "step_workspace s = ws" if "s \<in> set (j_steps j)" "step_run s = run_id r" for s
  proof -
    from ok that obtain r' where r': "r' \<in> set (j_runs j)" "run_id r' = run_id r" "run_workspace r' = step_workspace s"
      unfolding tables_ok_def by auto
    have "Some r' = Some r" by (simp only: find_run[OF ok r'(1), symmetric] find_run[OF ok r(1), symmetric] r'(2))
    with r'(3) r(2) show ?thesis by simp
  qed
  have "by_ordinal ?ss ord = Some s \<longleftrightarrow> jv_steps (tables_view j) (run_id r) ord = Some s" for s
  proof -
    have "by_ordinal ?ss ord = Some s \<longleftrightarrow> s \<in> set (j_steps j) \<and> step_run s = run_id r \<and> ordinal s = ord"
      unfolding by_ordinal_def map_of_eq_Some_iff[OF d'] using ws by auto
    also have "\<dots> \<longleftrightarrow> jv_steps (tables_view j) (run_id r) ord = Some s"
      unfolding tables_view_def jview.simps
      by (auto dest: find_set intro!: find_unique intro: key)
    finally show ?thesis .
  qed
  then show "by_ordinal ?ss ord = jv_steps (tables_view j) (run_id r) ord"
    by (metis not_None_eq)
qed

lemma start_run_tables:
  assumes ok: "tables_ok j" and a: "(aid, ws) \<in> set (j_automations j)"
  shows "\<exists>r j'. repo_start_run ws aid gid trig job j = (Inr r, j') \<and> tables_ok j' \<and> run_workspace r = ws \<and>
    jv_run (tables_view j') (run_id r) = Some r \<and> jv_steps (tables_view j') (run_id r) = Map.empty \<and>
    jv_steps (tables_view j) (run_id r) = Map.empty"
proof -
  let ?r = "\<lparr>run_id = j_next j, run_workspace = ws, run_automation = aid, run_status = RunRunning,
      run_grant = gid, run_trigger = trig, run_error = None, run_job = job\<rparr> :: run"
  let ?j = "j\<lparr>j_runs := j_runs j @ [?r], j_next := Suc (j_next j)\<rparr>"
  have none: "step_run s \<noteq> j_next j" if "s \<in> set (j_steps j)" for s
  proof -
    from ok that obtain r' where "r' \<in> set (j_runs j)" "run_id r' = step_run s" unfolding tables_ok_def by blast
    with ok show ?thesis unfolding tables_ok_def by auto
  qed
  have ok': "tables_ok ?j"
    using ok unfolding tables_ok_def by (auto intro: less_SucI)
  have "List.find (\<lambda>s. step_run s = j_next j \<and> ordinal s = ord) (j_steps j) = None" for ord
    using none by (auto simp: find_None_iff)
  then have "jv_steps (tables_view ?j) (run_id ?r) = Map.empty" "jv_steps (tables_view j) (run_id ?r) = Map.empty"
    by (auto simp: tables_view_def)
  moreover have "jv_run (tables_view ?j) (run_id ?r) = Some ?r" by (rule find_run[OF ok']) simp
  ultimately show ?thesis using ok' a
    by (intro exI[of _ ?r] exI[of _ ?j]) (simp add: repo_start_run_def Let_def)
qed

definition active_run :: "nat \<Rightarrow> nat option \<Rightarrow> journal \<Rightarrow> nat option" where
  "active_run ws job j =
     (case job of None \<Rightarrow> None
      | Some i \<Rightarrow> (case fst (repo_find_active_run_by_job ws i j) of Inr rid \<Rightarrow> rid | Inl _ \<Rightarrow> None))"

lemma open_run_tables:
  assumes ok: "tables_ok (tables w)" and a: "(aut_id a, ws) \<in> set (j_automations (tables w))"
  shows "\<exists>rid gid w1. open_run (pg_ports R) ws a trig job w = (Inr (rid, gid, jv_steps (tables_view (tables w)) rid), w1) \<and>
    pg.at_steps ws rid (jv_steps (tables_view (tables w)) rid) w1 \<and> (\<forall>i. active_run ws job (tables w) = Some i \<longrightarrow> rid = i)"
proof (cases "active_run ws job (tables w)")
  case None
  have find: "(case job of Some i \<Rightarrow> find_active_run_by_job (pg_ports R) ws i | None \<Rightarrow> ret None) w = (Inr None, w)"
    using None by (auto simp: active_run_def pg_ports_def backend_def repo_find_active_run_by_job_def split: option.splits)
  from start_run_tables[OF ok a, of "aut_grant a" trig job] obtain r j' where s:
    "repo_start_run ws (aut_id a) (aut_grant a) trig job (tables w) = (Inr r, j')" "tables_ok j'" "run_workspace r = ws"
    "jv_run (tables_view j') (run_id r) = Some r" "jv_steps (tables_view j') (run_id r) = Map.empty"
    "jv_steps (tables_view (tables w)) (run_id r) = Map.empty" by blast
  have "start_run (pg_ports R) ws a trig job w = (Inr r, w\<lparr>tables := j'\<rparr>)"
    using s(1) by (simp add: pg_ports_def backend_Inr)
  with find None s show ?thesis
    by (intro exI[of _ "run_id r"] exI[of _ "run_grant r"] exI[of _ "w\<lparr>tables := j'\<rparr>"])
      (simp add: open_run_def pg.at_steps_def)
next
  case (Some rid)
  then obtain i where i: "job = Some i" "fst (repo_find_active_run_by_job ws i (tables w)) = Inr (Some rid)"
    by (auto simp: active_run_def split: option.splits sum.splits)
  then obtain r where r: "r \<in> set (j_runs (tables w))" "run_id r = rid" "run_workspace r = ws"
    by (auto simp: repo_find_active_run_by_job_def dest!: find_set)
  note fr = find_run[OF ok r(1), unfolded r(2)]
  have only: "r' = r" if "r' \<in> set (j_runs (tables w))" "run_id r' = rid" for r'
    using find_run[OF ok that(1)] that(2) fr by simp
  have "List.find (\<lambda>r. run_id r = rid \<and> run_workspace r = ws) (j_runs (tables w)) = Some r"
    by (rule find_unique) (simp_all only: r only simp_thms)
  then have get: "get_run (pg_ports R) ws rid w = (Inr r, w)"
    by (simp add: pg_ports_def backend_def repo_get_run_def row_or_def)
  have find: "find_active_run_by_job (pg_ports R) ws i w = (Inr (Some rid), w)"
    using i(2) by (auto simp: pg_ports_def backend_def repo_find_active_run_by_job_def)
  have list: "list_steps (pg_ports R) ws rid w =
      (Inr (sort_key ordinal (sort_key step_id (filter (\<lambda>s. step_workspace s = ws \<and> step_run s = rid) (j_steps (tables w))))), w)"
    by (simp add: pg_ports_def backend_def repo_list_steps_def)
  have "open_run (pg_ports R) ws a trig job w = (Inr (rid, run_grant r, jv_steps (tables_view (tables w)) rid), w)"
    using by_ordinal_rows[OF ok r(1,3)] unfolding r(2)
    by (simp add: open_run_def i(1) find get list)
  then show ?thesis using Some ok fr r
    by (intro exI[of _ rid] exI[of _ "run_grant r"] exI[of _ w]) (simp add: pg.at_steps_def)
qed

lemma authority_tables: "authority (pg_ports R) ws gid w = (x, w') \<Longrightarrow> w' = w"
  by (auto simp: authority_def pg_ports_def backend_def repo_get_grant_def row_or_def Let_def
      split: option.splits sum.splits if_splits)

section \<open>How an execution ends\<close>

text \<open>
  How a run of a plan has ended, from the steps it started with and the steps it left: refused,
  with nothing journaled; or driven, as \<open>graph_run_completes\<close> has it for a graph, with a step for
  every action of a linear list that succeeded.
\<close>

definition ended_as :: "fail_msg + (graph + spec) \<Rightarrow> (int \<rightharpoonup> step) \<Rightarrow> (int \<rightharpoonup> step) \<Rightarrow> run \<Rightarrow> bool" where
  "ended_as plan prior m r \<longleftrightarrow>
     (case plan of
        Inl e \<Rightarrow> m = prior \<and> run_status r = RunFailed \<and> run_error r = Some e
      | Inr (Inl g) \<Rightarrow> resumed_from g prior m \<and>
          (run_status r = RunSucceeded \<and> run_error r = None \<and> journal_complete g m \<or>
           run_status r = RunFailed \<and> run_error r \<noteq> None)
      | Inr (Inr sp) \<Rightarrow> kept prior {} m \<and>
          (run_status r = RunSucceeded \<and> run_error r = None \<and> linear_complete (length (spec_actions sp)) m \<or>
           run_status r = RunFailed \<and> run_error r \<noteq> None))"

definition fits :: "fail_msg + (graph + spec) \<Rightarrow> bool" where
  "fits plan \<longleftrightarrow>
     (case plan of
        Inr (Inl g) \<Rightarrow> length (nodes g) \<le> 1000000
      | Inr (Inr sp) \<Rightarrow> length (spec_actions sp) \<le> 2 ^ 31
      | Inl _ \<Rightarrow> True)"

lemma plan_valid: "plan_of L K a = Inr (Inl g) \<Longrightarrow> validate_graph g = Inr ()"
  by (auto simp: plan_of_def split: option.splits sum.splits)

lemma ended_as_refused:
  assumes "plan_of L K a = plan" "run_status r = RunFailed" "run_error r \<noteq> None"
    and "\<And>e. plan = Inl e \<Longrightarrow> run_error r = Some e"
  shows "ended_as plan prior prior r"
proof (cases plan)
  case (Inl e)
  with assms show ?thesis by (simp add: ended_as_def)
next
  case (Inr p)
  show ?thesis
  proof (cases p)
    case (Inl g)
    with assms(1) Inr have "validate_graph g = Inr ()" by (intro plan_valid) simp
    then obtain order where "topo_order g = Inr order" by (auto simp: validate_graph_def)
    with Inl Inr assms(2,3) show ?thesis by (simp add: ended_as_def resumed_from_def kept_def)
  next
    case sp: (Inr sp)
    with Inr assms(2,3) show ?thesis by (simp add: ended_as_def kept_def)
  qed
qed

definition driven :: "fail_msg + (graph + spec) \<Rightarrow> nat \<Rightarrow> nat \<Rightarrow> (int \<rightharpoonup> step) \<Rightarrow> run \<Rightarrow> 'x world \<Rightarrow> bool" where
  "driven plan ws rid prior r w' \<longleftrightarrow>
     tables_ok (tables w') \<and> run_workspace r = ws \<and> jv_run (tables_view (tables w')) rid = Some r \<and>
     ended_as plan prior (jv_steps (tables_view (tables w')) rid) r"

lemma refused_yields:
  assumes "pg.at_steps ws rid prior w" "plan_of L K a = plan" "\<And>e'. plan = Inl e' \<Longrightarrow> e' = e"
  shows "yields (finish_run (pg_ports R) ws rid RunFailed (Some e)) w (driven plan ws rid prior)"
  by (rule yields_mono[OF pg.finish_run_yields[OF assms(1)]])
    (use assms(3) in \<open>auto simp: driven_def pg.at_steps_def intro!: ended_as_refused[OF assms(2)]\<close>)

lemma drive_yields:
  assumes at: "pg.at_steps ws rid prior w" and plan: "plan_of L K a = Inr p" "fits (Inr p)"
  shows "yields (case p of
        Inl g \<Rightarrow> run_graph (pg_ports R) K ws rid g trig grant prior
      | Inr sp \<Rightarrow> run_linear (pg_ports R) K ws rid sp trig grant prior) w (driven (Inr p) ws rid prior)"
proof (cases p)
  case (Inl g)
  have "validate_graph g = Inr ()" "length (nodes g) \<le> 1000000" using plan plan_valid Inl by (auto simp: fits_def)
  from pg.run_graph_yields[OF this at] show ?thesis unfolding Inl sum.case
    by (rule yields_mono) (auto simp: driven_def pg.at_steps_def ended_as_def)
next
  case (Inr sp)
  have "length (spec_actions sp) \<le> 2 ^ 31" using plan Inr by (simp add: fits_def)
  from pg.run_linear_yields[OF at this] show ?thesis unfolding Inr sum.case
    by (rule yields_mono) (auto simp: driven_def pg.at_steps_def ended_as_def)
qed

lemma execute_yields:
  assumes at: "pg.at_steps ws rid prior w1" and fit: "fits (plan_of L K a)"
    and o: "open_run (pg_ports R) ws a trig job w = (Inr (rid, gid, prior), w1)"
  shows "yields (execute_for_job (pg_ports R) L K ws a trig job) w (driven (plan_of L K a) ws rid prior)"
proof -
  obtain x w2 where x: "authority (pg_ports R) ws gid w1 = (x, w2)" by (rule prod.exhaust)
  with authority_tables have same: "w2 = w1" by blast
  have fin: "yields (finish_run (pg_ports R) ws rid RunFailed (Some e)) w1 (driven plan ws rid prior)"
    if "plan_of L K a = plan" "\<And>e'. plan = Inl e' \<Longrightarrow> e' = e" for plan e
    by (rule refused_yields[OF at that])
  show ?thesis
  proof (cases "plan_of L K a")
    case (Inl e)
    with fin[OF Inl, of e] o show ?thesis by (simp add: yields_def execute_for_job_def bindM_def)
  next
    case (Inr p)
    show ?thesis
    proof (cases x)
      case (Inl e)
      with fin[OF Inr, of e] o x same \<open>plan_of L K a = Inr p\<close> show ?thesis
        by (simp add: yields_def execute_for_job_def bindM_def liftM_def)
    next
      case g: (Inr grant)
      from drive_yields[OF at Inr fit[unfolded Inr], of R trig grant] o x same g Inr show ?thesis
        by (simp add: yields_def execute_for_job_def bindM_def liftM_def)
    qed
  qed
qed

end
