(* ===== verification/Auto_Run.thy ===== *)
theory Auto_Run
  imports Auto_Gate Auto_Linear
begin

text \<open>
  The properties of a whole execution: that it ends its run over the store's tables, and what it
  may do over any journal and any runners, which is the authority gate and the redelivery gate,
  and where the second leaks. The examples run over the tables of \<open>Auto_Journal\<close>.
\<close>

section \<open>Runs over the tables\<close>

text \<open>
  An automation of the store, under a grant, whose spec decodes to a given graph; and the graph
  of a trigger and one action.
\<close>

definition graph_codec :: "graph \<Rightarrow> codec" where
  "graph_codec g = \<lparr>dec_trigger = (\<lambda>_. Inl []), dec_action = (\<lambda>_. Inl []), dec_graph = (\<lambda>_. Inr g),
     dec_event = (\<lambda>_. None), enc_trigger = (\<lambda>_. JNull), enc_action = (\<lambda>_. JNull)\<rparr>"

definition note_grant :: grant where
  "note_grant = \<lparr>grant_id = 5, grant_workspace = 1, grant_name = ''notes'', capabilities = [],
     grant_constraints = default_constraints\<lparr>time_window := Some \<lparr>tw_start = 0, tw_end = 10\<rparr>\<rparr>\<rparr>"

definition note_automation :: automation where
  "note_automation = \<lparr>aut_id = 7, aut_workspace = 1, aut_name = ''note'', enabled = True, triggers = [],
     aut_condition = None, actions = [], aut_spec = Some (JObj [(''graph'', JNull)]), aut_grant = Some 5\<rparr>"

definition note_world :: "unit world" where
  "note_world = \<lparr>tables = one_run\<lparr>j_grants := [note_grant]\<rparr>, outside = ()\<rparr>"

definition one_action :: "action_kind \<Rightarrow> graph" where
  "one_action k = \<lparr>nodes = [
       \<lparr>node_id = ''t'', node_kind = NTrigger (OnSignal ''go'')\<rparr>,
       \<lparr>node_id = ''a'', node_kind = NAction \<lparr>act_kind = k, params = []\<rparr>\<rparr>],
     edges = [\<lparr>e_from = ''t'', e_to = ''a'', from_port = [], to_port = []\<rparr>]\<rparr>"

lemma one_action_order: "topo_order (one_action k) = Inr [''t'', ''a'']"
  by (simp add: graph_run one_action_def Let_def)

lemma one_action_regions: "for_each_regions (one_action k) = Inr []"
  unfolding for_each_regions_def one_action_order by (simp add: one_action_def loop_ends_def)

lemma one_action_valid: "validate_graph (one_action k) = Inr ()"
  unfolding validate_graph_def one_action_order one_action_regions
  by (simp add: one_action_def check_endpoints_def ids_def trigger_nodes_def is_trigger_def
      is_collect_node_def check_commit_on_def check_port_def condition_ids_def guardE_def)

lemma one_action_plan: "plan_of L (graph_codec (one_action k)) note_automation = Inr (Inl (one_action k))"
  by (simp add: plan_of_def graph_from_spec_def graph_codec_def note_automation_def one_action_valid)

lemmas port_run = open_run_def watch_def pg_ports_def on_fst_def backend_def beside_def
  bindM_def liftM_def authority_def row_or_def finish_with_def open_step_def skip_step_def Let_def
  repo_start_run_def repo_get_grant_def repo_add_step_def repo_finish_step_def repo_finish_run_def

lemma one_action_run:
  assumes "trig = None \<or> is_idempotent k"
  shows "\<exists>r w'. execute_for_job (watch (pg_ports quiet_runners)) L (graph_codec (one_action k)) 1 note_automation trig
    None (note_world, []) = (r, (w', [CallAction \<lparr>act_kind = k, params = []\<rparr> (Some note_grant)]))"
  unfolding execute_for_job_def one_action_plan sum.case run_graph_def one_action_order one_action_regions
  by (simp add: port_run visit_def
      region_internal_def outer_node_def is_entry_def lookup_node_def one_action_def gated_off_def
      graph_codec_def note_automation_def note_world_def one_run_def note_grant_def default_constraints_def
      has_unenforced_def window_contains_def quiet_runners_def dispatch_node_def dispatch_def
      record_node_def is_condition_def already_stored_def edge_taken_def taken_def of_outcome_def as_i32_def)
    (use assms in \<open>auto simp: redelivery_flag_def null_or_def\<close>)

section \<open>Properties\<close>

text \<open>
  C11: every execution ends the run it works on. Over the store's tables, for an automation the
  store holds, with any runners, any authority and any spec, the entry point returns the row of
  one run: the active run of its job when a crashed attempt left one, a new one otherwise. That
  run is no longer running, it carries an error exactly when it failed, a refused run journaled
  nothing, a successful one journaled every node or action it owes, and completed steps of a
  prior attempt are as they were, loop heads excepted.
\<close>

theorem execution_ends_run:
  assumes "tables_ok (tables w)" "(aut_id a, ws) \<in> set (j_automations (tables w))" "fits (plan_of L K a)"
  shows "\<exists>r w'. execute_for_job (pg_ports R) L K ws a trig job w = (Inr r, w') \<and>
      tables_ok (tables w') \<and> run_workspace r = ws \<and> jv_run (tables_view (tables w')) (run_id r) = Some r \<and>
      (\<forall>i. active_run ws job (tables w) = Some i \<longrightarrow> run_id r = i) \<and>
      ended_as (plan_of L K a) (jv_steps (tables_view (tables w)) (run_id r))
        (jv_steps (tables_view (tables w')) (run_id r)) r"
proof -
  from open_run_tables[OF assms(1,2), of R trig job] obtain rid gid w1 where o:
    "open_run (pg_ports R) ws a trig job w = (Inr (rid, gid, jv_steps (tables_view (tables w)) rid), w1)"
    "pg.at_steps ws rid (jv_steps (tables_view (tables w)) rid) w1"
    "\<forall>i. active_run ws job (tables w) = Some i \<longrightarrow> rid = i" by blast
  from execute_yields[OF o(2) assms(3) o(1)] obtain r w' where
    r: "execute_for_job (pg_ports R) L K ws a trig job w = (Inr r, w')"
      "driven (plan_of L K a) ws rid (jv_steps (tables_view (tables w)) rid) r w'"
    unfolding yields_def by blast
  have "run_id r = rid" using r(2) by (auto simp: driven_def tables_view_def dest: find_set)
  with r o(3) show ?thesis by (intro exI[of _ r] exI[of _ w']) (simp add: driven_def)
qed

definition resumed_world :: "unit world" where
  "resumed_world = \<lparr>tables = one_run\<lparr>
     j_runs := [\<lparr>run_id = 0, run_workspace = 1, run_automation = 7, run_status = RunRunning, run_grant = Some 5,
                run_trigger = None, run_error = None, run_job = Some 3\<rparr>],
     j_grants := [note_grant]\<rparr>, outside = ()\<rparr>"

theorem execution_ends_run_witness:
  "\<exists>r w'. execute_for_job (pg_ports quiet_runners) (undefined :: (unit, unit) cron_lib)
      (graph_codec (one_action CreateNote)) 1 note_automation None (Some 3) resumed_world = (Inr r, w') \<and>
    run_id r = 0 \<and> run_status r \<in> {RunSucceeded, RunFailed}"
proof -
  let ?L = "undefined :: (unit, unit) cron_lib" and ?K = "graph_codec (one_action CreateNote)"
  have h: "tables_ok (tables resumed_world)" "(aut_id note_automation, 1) \<in> set (j_automations (tables resumed_world))"
    "fits (plan_of ?L ?K note_automation)"
    by (simp_all only: one_action_plan)
      (simp_all add: tables_ok_def resumed_world_def one_run_def note_automation_def fits_def one_action_def)
  have "active_run 1 (Some 3) (tables resumed_world) = Some 0"
    by (simp add: active_run_def repo_find_active_run_by_job_def resumed_world_def)
  with execution_ends_run[OF h, of quiet_runners None "Some 3"] show ?thesis
    unfolding one_action_plan ended_as_def by auto
qed

text \<open>
  C16: nothing runs outside its authority. Whatever the journal and the runners do, every action
  and code call of an execution carries one and the same grant, the one recorded on the run it
  opened or resumed; that grant was resolved, its time window held at that moment, and it has no
  constraint the engine does not enforce. When it could not be, no call is made at all.
\<close>

theorem execution_within_authority:
  assumes "execute_for_job (watch P) L K ws a trig job (w, []) = (r, (w', cs))" "c \<in> set cs"
  shows "\<exists>rid gid prior w1. open_run P ws a trig job w = (Inr (rid, gid, prior), w1) \<and>
    within_authority P ws gid w1 (call_grant c)"
  using assms(1)
proof (cases rule: execute_cases)
  case 1
  with assms(2) show ?thesis by simp
next
  case (2 rid gid prior w1 g w2)
  then have "permitted (redelivery_flag trig) g c" using assms(2) by (simp add: list_all_iff)
  then have "call_grant c = g" by (cases c) (auto simp: permitted_def)
  with 2 authority_within[of P ws gid w1 g w2] show ?thesis by auto
qed

theorem execution_within_authority_witness:
  "\<exists>rid gid prior w1. open_run (pg_ports quiet_runners) 1 note_automation None None note_world = (Inr (rid, gid, prior), w1) \<and>
     within_authority (pg_ports quiet_runners) 1 gid w1 (Some note_grant)"
proof -
  obtain r w' where "execute_for_job (watch (pg_ports quiet_runners)) (undefined :: (unit, unit) cron_lib)
      (graph_codec (one_action CreateNote)) 1 note_automation None None (note_world, [])
      = (r, (w', [CallAction \<lparr>act_kind = CreateNote, params = []\<rparr> (Some note_grant)]))"
    using one_action_run[of None CreateNote "undefined :: (unit, unit) cron_lib"] by blast
  from execution_within_authority[OF this, of "CallAction \<lparr>act_kind = CreateNote, params = []\<rparr> (Some note_grant)"]
  show ?thesis by simp
qed

text \<open>
  C22: a redelivery repeats no effect. When the firing event is marked as a redelivery, the only
  actions an execution runs, in a graph, in its loops or in a linear list, fresh or resumed, are
  idempotent ones and those that opt back in.
\<close>

theorem redelivery_runs_idempotent_only:
  assumes "execute_for_job (watch P) L K ws a trig job (w, []) = (r, (w', cs))"
    and "redelivery_flag trig" "CallAction x g \<in> set cs"
  shows "is_idempotent (act_kind x) \<or> rerun_on_redelivery x"
  using assms(1)
proof (cases rule: execute_cases)
  case 1
  with assms(3) show ?thesis by simp
next
  case (2 rid gid prior w1 g' w2)
  then have "permitted (redelivery_flag trig) g' (CallAction x g)"
    using assms(3) by (simp add: list_all_iff)
  then show ?thesis using assms(2) by (simp add: permitted_def)
qed

theorem redelivery_runs_idempotent_only_witness:
  "redelivery_flag (Some (JObj [(''redelivery'', JBool True)])) \<and> is_idempotent WriteEmail"
proof
  show redeliver: "redelivery_flag (Some (JObj [(''redelivery'', JBool True)]))" by (simp add: redelivery_flag_def)
  obtain r w' where "execute_for_job (watch (pg_ports quiet_runners)) (undefined :: (unit, unit) cron_lib)
      (graph_codec (one_action WriteEmail)) 1 note_automation (Some (JObj [(''redelivery'', JBool True)])) None (note_world, [])
      = (r, (w', [CallAction \<lparr>act_kind = WriteEmail, params = []\<rparr> (Some note_grant)]))"
    using one_action_run[of "Some (JObj [(''redelivery'', JBool True)])" WriteEmail "undefined :: (unit, unit) cron_lib"] by (auto simp: is_idempotent_def)
  from redelivery_runs_idempotent_only[OF this redeliver, of "\<lparr>act_kind = WriteEmail, params = []\<rparr>" "Some note_grant"]
  show "is_idempotent WriteEmail" by (simp add: rerun_on_redelivery_def)
qed

section \<open>A leak after a crash\<close>

text \<open>
  The redelivery latch of a linear run does not survive a crash. An email write reports that
  its item was already stored, and a note follows it. In one go the note is skipped. When the
  worker crashes after the write's step is recorded, the redelivered run reads that step as done
  without reading its output, so the latch is not set and the note is created: the graph
  executor, which restores a completed node's output, would skip it.
\<close>

definition stored_runners :: "unit runners" where
  "stored_runners = quiet_runners\<lparr>act_on := (\<lambda>ws a t g x.
     (\<lparr>oc_status = Succeeded, oc_output = Some (JObj [(''newly_written'', JBool False)]), oc_error = None\<rparr>, x))\<rparr>"

definition mail_then_note :: spec where
  "mail_then_note = \<lparr>spec_triggers = [], spec_condition = None,
     spec_actions = [\<lparr>act_kind = WriteEmail, params = []\<rparr>, \<lparr>act_kind = CreateNote, params = []\<rparr>]\<rparr>"

definition mail_step :: step where
  "mail_step = \<lparr>step_id = 1, step_run = 0, step_workspace = 1, ordinal = 0, step_action = JNull,
     step_status = Succeeded, step_output = Some (JObj [(''newly_written'', JBool False)]), step_error = None\<rparr>"

definition crashed_run :: journal where
  "crashed_run = one_run\<lparr>j_steps := [mail_step], j_next := 2\<rparr>"

definition linear_calls :: "journal \<Rightarrow> call list" where
  "linear_calls j = snd (snd (run_linear (watch (pg_ports stored_runners)) (graph_codec (one_action WriteEmail)) 1 0
     mail_then_note None None (jv_steps (tables_view j) 0) (\<lparr>tables = j, outside = ()\<rparr>, [])))"

theorem linear_resume_refires:
  "linear_calls one_run = [CallAction \<lparr>act_kind = WriteEmail, params = []\<rparr> None] \<and>
   linear_calls crashed_run = [CallAction \<lparr>act_kind = CreateNote, params = []\<rparr> None]"
  by (simp add: linear_calls_def run_linear_def mail_then_note_def crashed_run_def one_run_def mail_step_def tables_view_def
      port_run stored_runners_def quiet_runners_def gated_off_def is_idempotent_def rerun_on_redelivery_def redelivery_flag_def
      already_stored_def as_i32_def graph_codec_def)

end
