(* ===== verification/Fetch_Policy.thy ===== *)
theory Fetch_Policy
  imports Prelude Effects "HOL-Library.Word"
begin

text \<open>
  The egress guard of server-side fetches (\<open>crates/catalerum-fetch/src/policy.rs\<close>) and the fetch
  loop it protects (\<open>http.rs\<close>): which addresses are refused, in IPv4 and through every form in
  which IPv6 embeds one, and that each hop of a redirect chain passes the guard. URLs are those
  of the \<open>url\<close> crate, a parameter, as are DNS and the HTTP client.
\<close>

unbundle bit_operations_syntax

section \<open>Addresses\<close>

datatype ip4 = IP4 "8 word" "8 word" "8 word" "8 word"

datatype ip6 = IP6 "16 word" "16 word" "16 word" "16 word" "16 word" "16 word" "16 word" "16 word"

datatype ip = V4 ip4 | V6 ip6

fun v4_is_blocked :: "ip4 \<Rightarrow> bool" where
  "v4_is_blocked (IP4 a b c d) \<longleftrightarrow>
     a = 127 \<or>
     (a = 10 \<or> (a = 172 \<and> 16 \<le> b \<and> b \<le> 31) \<or> (a = 192 \<and> b = 168)) \<or>
     (a = 169 \<and> b = 254) \<or>
     (a = 0 \<and> b = 0 \<and> c = 0 \<and> d = 0) \<or>
     (a = 255 \<and> b = 255 \<and> c = 255 \<and> d = 255) \<or>
     (224 \<le> a \<and> a \<le> 239) \<or>
     a = 0 \<or>
     (a = 100 \<and> 64 \<le> b \<and> b \<le> 127)"

definition hi_byte :: "16 word \<Rightarrow> 8 word" where
  "hi_byte s = ucast (drop_bit 8 s)"

definition lo_byte :: "16 word \<Rightarrow> 8 word" where
  "lo_byte s = ucast (s AND 0xff)"

definition v4_of :: "16 word \<Rightarrow> 16 word \<Rightarrow> ip4" where
  "v4_of s t = IP4 (hi_byte s) (lo_byte s) (hi_byte t) (lo_byte t)"

text \<open>\<open>Ipv6Addr::to_ipv4\<close> of the standard library: the mapped and the compatible form.\<close>

fun to_ipv4 :: "ip6 \<Rightarrow> ip4 option" where
  "to_ipv4 (IP6 s0 s1 s2 s3 s4 s5 s6 s7) =
     (if s0 = 0 \<and> s1 = 0 \<and> s2 = 0 \<and> s3 = 0 \<and> s4 = 0 \<and> (s5 = 0 \<or> s5 = 0xffff) then Some (v4_of s6 s7) else None)"

fun nat64_embedded_v4 :: "ip6 \<Rightarrow> ip4 option" where
  "nat64_embedded_v4 (IP6 s0 s1 s2 s3 s4 s5 s6 s7) =
     (if s0 = 0x0064 \<and> s1 = 0xff9b \<and> s2 = 0 \<and> s3 = 0 \<and> s4 = 0 \<and> s5 = 0 then Some (v4_of s6 s7) else None)"

fun sixto4_embedded_v4 :: "ip6 \<Rightarrow> ip4 option" where
  "sixto4_embedded_v4 (IP6 s0 s1 s2 s3 s4 s5 s6 s7) = (if s0 = 0x2002 then Some (v4_of s1 s2) else None)"

fun teredo_embedded_v4 :: "ip6 \<Rightarrow> ip4 option" where
  "teredo_embedded_v4 (IP6 s0 s1 s2 s3 s4 s5 s6 s7) =
     (if s0 = 0x2001 \<and> s1 = 0 then Some (v4_of (s6 XOR 0xffff) (s7 XOR 0xffff)) else None)"

definition or_else :: "'a option \<Rightarrow> 'a option \<Rightarrow> 'a option" where
  "or_else x y = (case x of Some _ \<Rightarrow> x | None \<Rightarrow> y)"

fun seg0 :: "ip6 \<Rightarrow> 16 word" where
  "seg0 (IP6 s0 s1 s2 s3 s4 s5 s6 s7) = s0"

definition v6_is_blocked :: "ip6 \<Rightarrow> bool" where
  "v6_is_blocked i =
     (if i = IP6 0 0 0 0 0 0 0 1 \<or> i = IP6 0 0 0 0 0 0 0 0 \<or> seg0 i AND 0xff00 = 0xff00 then True
      else (case or_else (or_else (or_else (to_ipv4 i) (nat64_embedded_v4 i)) (sixto4_embedded_v4 i)) (teredo_embedded_v4 i) of
              Some x \<Rightarrow> v4_is_blocked x
            | None \<Rightarrow> seg0 i AND 0xfe00 = 0xfc00 \<or> seg0 i AND 0xffc0 = 0xfe80))"

fun ip_is_blocked :: "ip \<Rightarrow> bool" where
  "ip_is_blocked (V4 x) = v4_is_blocked x"
| "ip_is_blocked (V6 x) = v6_is_blocked x"

definition first_blocked_addr :: "ip list \<Rightarrow> bool \<Rightarrow> ip option" where
  "first_blocked_addr addrs allow_private = (if allow_private then None else List.find ip_is_blocked addrs)"

definition ends_with :: "string \<Rightarrow> string \<Rightarrow> bool" where
  "ends_with s suf \<longleftrightarrow> length suf \<le> length s \<and> drop (length s - length suf) s = suf"

definition host_name_is_local :: "string \<Rightarrow> bool" where
  "host_name_is_local name =
     (let n = map to_ascii_lowercase (trim_end_by (\<lambda>c. c = CHR ''.'') name)
      in n = ''localhost'' \<or> ends_with n ''.localhost'' \<or> ends_with n ''.local'' \<or> ends_with n ''.internal'')"

section \<open>The guard\<close>

datatype host = HostV4 ip4 | HostV6 ip6 | Domain string

record 'u url_lib =
  url_parse :: "string \<Rightarrow> string + 'u"
  url_join :: "'u \<Rightarrow> string \<Rightarrow> string + 'u"
  url_text :: "'u \<Rightarrow> string"
  url_scheme :: "'u \<Rightarrow> string"
  url_host :: "'u \<Rightarrow> host option"
  url_port :: "'u \<Rightarrow> nat option"

record policy =
  allow_private_hosts :: bool
  max_bytes :: nat

datatype fetch_error =
    InvalidUrl string | UnsupportedScheme string | NoHost | BlockedIp ip | BlockedName string
  | BlockedResolved string ip | DnsFailed string | HttpFailed string | InvalidRedirect string
  | TooManyRedirects

definition validate_url :: "'u url_lib \<Rightarrow> policy \<Rightarrow> string \<Rightarrow> fetch_error + 'u" where
  "validate_url U p raw =
     (case url_parse U raw of
        Inl e \<Rightarrow> Inl (InvalidUrl e)
      | Inr u \<Rightarrow>
          bindE (guardE (url_scheme U u = ''http'' \<or> url_scheme U u = ''https'') (UnsupportedScheme (url_scheme U u))) (\<lambda>_.
          bindE (okOr NoHost (url_host U u)) (\<lambda>h.
          if allow_private_hosts p then Inr u
          else (case h of
                  HostV4 i \<Rightarrow> if ip_is_blocked (V4 i) then Inl (BlockedIp (V4 i)) else Inr u
                | HostV6 i \<Rightarrow> if ip_is_blocked (V6 i) then Inl (BlockedIp (V6 i)) else Inr u
                | Domain name \<Rightarrow> if host_name_is_local name then Inl (BlockedName name) else Inr u))))"

type_synonym 'w dns = "string \<Rightarrow> nat \<Rightarrow> ('w, string, ip list) eff"

definition lookup_host :: "'w dns \<Rightarrow> string \<Rightarrow> nat \<Rightarrow> ('w, fetch_error, ip list) eff" where
  "lookup_host D name port w =
     (case D name port w of (Inl e, w') \<Rightarrow> (Inl (DnsFailed e), w') | (Inr xs, w') \<Rightarrow> (Inr xs, w'))"

fun check_addrs :: "string \<Rightarrow> ip list \<Rightarrow> fetch_error + unit" where
  "check_addrs name [] = Inr ()"
| "check_addrs name (i # xs) = (if ip_is_blocked i then Inl (BlockedResolved name i) else check_addrs name xs)"

definition from_result :: "'e + 'a \<Rightarrow> ('w, 'e, 'a) eff" where
  "from_result r w = (r, w)"

definition guard_resolved :: "'u url_lib \<Rightarrow> 'w dns \<Rightarrow> policy \<Rightarrow> 'u \<Rightarrow> ('w, fetch_error, unit) eff" where
  "guard_resolved U D p u =
     (if allow_private_hosts p then ret ()
      else (case url_host U u of
              Some (Domain name) \<Rightarrow>
                bindM (lookup_host D name (case url_port U u of Some n \<Rightarrow> n | None \<Rightarrow> 80))
                  (\<lambda>addrs. from_result (check_addrs name addrs))
            | _ \<Rightarrow> ret ()))"

text \<open>The resolver the HTTP client connects through.\<close>

definition guarded_resolve :: "'w dns \<Rightarrow> bool \<Rightarrow> string \<Rightarrow> ('w, fetch_error, ip list) eff" where
  "guarded_resolve D allow_private name =
     bindM (lookup_host D name 0) (\<lambda>addrs.
     case first_blocked_addr addrs allow_private of
       Some bad \<Rightarrow> fail (BlockedResolved name bad)
     | None \<Rightarrow> ret addrs)"

section \<open>The fetch loop\<close>

definition MAX_REDIRECTS :: nat where "MAX_REDIRECTS = 10"

record response =
  resp_status :: nat
  resp_location :: "string option"
  resp_body :: "(string + 8 word list) list"

definition is_redirection :: "nat \<Rightarrow> bool" where
  "is_redirection s \<longleftrightarrow> 300 \<le> s \<and> s < 400"

text \<open>The client sends one request, resolving names with the function it is built with.\<close>

type_synonym ('u, 'w) client =
  "(string \<Rightarrow> ('w, fetch_error, ip list) eff) \<Rightarrow> 'u \<Rightarrow> ('w, fetch_error, response) eff"

definition vet_redirect ::
    "'u url_lib \<Rightarrow> 'w dns \<Rightarrow> policy \<Rightarrow> 'u \<Rightarrow> string \<Rightarrow> ('w, fetch_error, 'u) eff" where
  "vet_redirect U D p current location =
     (case url_join U current location of
        Inl e \<Rightarrow> fail (InvalidRedirect e)
      | Inr next \<Rightarrow>
          bindM (from_result (validate_url U p (url_text U next))) (\<lambda>u.
          bindM (guard_resolved U D p u) (\<lambda>_. ret u)))"

fun follow ::
    "'u url_lib \<Rightarrow> 'w dns \<Rightarrow> ('u, 'w) client \<Rightarrow> policy \<Rightarrow> nat \<Rightarrow> 'u \<Rightarrow> ('w, fetch_error, response) eff" where
  "follow U D C p left u =
     bindM (C (guarded_resolve D (allow_private_hosts p)) u) (\<lambda>r.
     if \<not> is_redirection (resp_status r) then ret r
     else (case resp_location r of
             None \<Rightarrow> ret r
           | Some l \<Rightarrow>
               (case left of
                  0 \<Rightarrow> fail TooManyRedirects
                | Suc left' \<Rightarrow> bindM (vet_redirect U D p u l) (\<lambda>next. follow U D C p left' next))))"

declare follow.simps [simp del]

definition fetch ::
    "'u url_lib \<Rightarrow> 'w dns \<Rightarrow> ('u, 'w) client \<Rightarrow> policy \<Rightarrow> string \<Rightarrow> ('w, fetch_error, response) eff" where
  "fetch U D C p raw =
     bindM (from_result (validate_url U p raw)) (\<lambda>u.
     bindM (guard_resolved U D p u) (\<lambda>_. follow U D C p MAX_REDIRECTS u))"

section \<open>Byte limits\<close>

text \<open>
  The body is read chunk by chunk: kept up to the cap, counted beyond it, and abandoned at four
  times the cap.
\<close>

fun read_chunks ::
    "nat \<Rightarrow> (string + 8 word list) list \<Rightarrow> 8 word list \<Rightarrow> nat \<Rightarrow> fetch_error + 8 word list \<times> nat" where
  "read_chunks cap [] got n = Inr (got, n)"
| "read_chunks cap (Inl e # cs) got n = Inl (HttpFailed e)"
| "read_chunks cap (Inr c # cs) got n =
     (let n' = n + length c;
          got' = (if length got < cap then got @ take (cap - length got) c else got)
      in if n' > min (cap * 4) (2 ^ 64 - 1) then Inr (got', n') else read_chunks cap cs got' n')"

definition is_continuation :: "8 word \<Rightarrow> bool" where
  "is_continuation b \<longleftrightarrow> b AND 0b11000000 = 0b10000000"

fun back_over :: "8 word list \<Rightarrow> nat \<Rightarrow> nat" where
  "back_over bs 0 = 0"
| "back_over bs (Suc e) = (if is_continuation (bs ! e) then back_over bs e else Suc e)"

definition lead_need :: "8 word \<Rightarrow> nat" where
  "lead_need b =
     (if b \<le> 0x7f then 1
      else if 0xc0 \<le> b \<and> b \<le> 0xdf then 2
      else if 0xe0 \<le> b \<and> b \<le> 0xef then 3
      else if 0xf0 \<le> b \<and> b \<le> 0xf7 then 4
      else 1)"

definition truncate_to_char_boundary :: "8 word list \<Rightarrow> 8 word list" where
  "truncate_to_char_boundary bs =
     (let e = back_over bs (length bs);
          e' = (if e > 0 \<and> length bs - (e - 1) < lead_need (bs ! (e - 1)) then e - 1 else e)
      in take e' bs)"

definition read_capped :: "(string + 8 word list) list \<Rightarrow> nat \<Rightarrow> fetch_error + 8 word list \<times> nat" where
  "read_capped chunks cap =
     bindE (read_chunks cap chunks [] 0) (\<lambda>(got, n).
     Inr (if n > cap then truncate_to_char_boundary got else got, n))"

text \<open>\<open>cap_str\<close>, on the UTF-8 bytes of the string.\<close>

definition is_char_boundary :: "8 word list \<Rightarrow> nat \<Rightarrow> bool" where
  "is_char_boundary bs i \<longleftrightarrow> i = 0 \<or> i = length bs \<or> (i < length bs \<and> \<not> is_continuation (bs ! i))"

fun back_to_boundary :: "8 word list \<Rightarrow> nat \<Rightarrow> nat" where
  "back_to_boundary bs 0 = 0"
| "back_to_boundary bs (Suc e) = (if is_char_boundary bs (Suc e) then Suc e else back_to_boundary bs e)"

definition cap_str :: "8 word list \<Rightarrow> nat \<Rightarrow> 8 word list" where
  "cap_str bs cap = (if length bs \<le> cap then bs else take (back_to_boundary bs cap) bs)"

end
