(* ===== verification/Fetch_Safe.thy ===== *)
theory Fetch_Safe
  imports Fetch_Policy
begin

text \<open>
  The egress guard is exact: the IPv4 addresses it refuses are those of nine blocks, an address
  IPv6 embeds is judged by the address embedded, and every request a fetch sends, the first and
  each redirect, went to a URL that passed the guard.
\<close>

section \<open>IPv4 blocks\<close>

fun addr4 :: "ip4 \<Rightarrow> nat" where
  "addr4 (IP4 a b c d) = ((unat a * 256 + unat b) * 256 + unat c) * 256 + unat d"

definition in_block :: "nat \<Rightarrow> ip4 \<times> nat \<Rightarrow> bool" where
  "in_block n blk \<longleftrightarrow> n div 2 ^ (32 - snd blk) = addr4 (fst blk) div 2 ^ (32 - snd blk)"

definition refused_blocks :: "(ip4 \<times> nat) list" where
  "refused_blocks =
     [(IP4 0 0 0 0, 8), (IP4 10 0 0 0, 8), (IP4 100 64 0 0, 10), (IP4 127 0 0 0, 8), (IP4 169 254 0 0, 16),
      (IP4 172 16 0 0, 12), (IP4 192 168 0 0, 16), (IP4 224 0 0 0, 4), (IP4 255 255 255 255, 32)]"

lemma byte_bound: "unat (a :: 8 word) < 256"
  using unsigned_less[of a] by simp

lemma byte_eq: "(a :: 8 word) = numeral k \<longleftrightarrow> unat a = unat (numeral k :: 8 word)"
  "(a :: 8 word) = 0 \<longleftrightarrow> unat a = 0"
  by (simp_all add: word_unat_eq_iff)

lemma addr4_div:
  fixes a b c d :: nat
  assumes "a < 256" "b < 256" "c < 256" "d < 256"
  defines "n \<equiv> ((a * 256 + b) * 256 + c) * 256 + d"
  shows "n div 16777216 = a" "n div 65536 = a * 256 + b" "n div 268435456 = a div 16"
    "n div 1048576 = a * 16 + b div 16" "n div 4194304 = a * 4 + b div 64"
proof -
  have 1: "n div 256 = (a * 256 + b) * 256 + c" using assms by (simp add: n_def)
  have "n div 65536 = n div 256 div 256" by (simp add: div_mult2_eq[symmetric])
  then show 2: "n div 65536 = a * 256 + b" using assms 1 by simp
  have "n div 16777216 = n div 65536 div 256" by (simp add: div_mult2_eq[symmetric])
  then show 3: "n div 16777216 = a" using assms 2 by simp
  have "n div 268435456 = n div 16777216 div 16" by (simp add: div_mult2_eq[symmetric])
  then show "n div 268435456 = a div 16" using 3 by simp
  have "n div 1048576 = n div 65536 div 16" by (simp add: div_mult2_eq[symmetric])
  then show "n div 1048576 = a * 16 + b div 16" using 2 by simp
  have "n div 4194304 = n div 65536 div 64" by (simp add: div_mult2_eq[symmetric])
  then show "n div 4194304 = a * 4 + b div 64" using 2 by simp
qed

lemma v4_blocked_nat:
  "v4_is_blocked (IP4 a b c d) \<longleftrightarrow>
     unat a \<in> {0, 10, 127} \<or> (unat a = 172 \<and> 16 \<le> unat b \<and> unat b \<le> 31) \<or> (unat a = 192 \<and> unat b = 168) \<or>
     (unat a = 169 \<and> unat b = 254) \<or> (unat a = 255 \<and> unat b = 255 \<and> unat c = 255 \<and> unat d = 255) \<or>
     (224 \<le> unat a \<and> unat a \<le> 239) \<or> (unat a = 100 \<and> 64 \<le> unat b \<and> unat b \<le> 127)"
proof -
  have "v4_is_blocked (IP4 a b c d) \<longleftrightarrow> unat a = 127 \<or>
     (unat a = 10 \<or> (unat a = 172 \<and> 16 \<le> unat b \<and> unat b \<le> 31) \<or> (unat a = 192 \<and> unat b = 168)) \<or>
     (unat a = 169 \<and> unat b = 254) \<or> (unat a = 0 \<and> unat b = 0 \<and> unat c = 0 \<and> unat d = 0) \<or>
     (unat a = 255 \<and> unat b = 255 \<and> unat c = 255 \<and> unat d = 255) \<or>
     (224 \<le> unat a \<and> unat a \<le> 239) \<or> unat a = 0 \<or> (unat a = 100 \<and> 64 \<le> unat b \<and> unat b \<le> 127)"
    by (simp add: byte_eq word_le_nat_alt)
  then show ?thesis unfolding insert_iff empty_iff by argo
qed

lemma div_eq_range:
  assumes "0 < k" shows "(x :: nat) div k = m \<longleftrightarrow> m * k \<le> x \<and> x < m * k + k"
proof
  assume "x div k = m"
  then show "m * k \<le> x \<and> x < m * k + k"
    using dividend_less_div_times[OF assms, of x] div_times_less_eq_dividend[of x k] by (auto simp: add.commute)
next
  assume "m * k \<le> x \<and> x < m * k + k"
  then show "x div k = m" by (intro div_nat_eqI) (simp_all add: mult.commute add.commute)
qed

lemma two_digits: "y < k \<Longrightarrow> q < k \<Longrightarrow> (x :: nat) * k + y = p * k + q \<longleftrightarrow> x = p \<and> y = q"
proof
  assume h: "y < k" "q < k" "x * k + y = p * k + q"
  then have "(x * k + y) div k = (p * k + q) div k" by simp
  then have "x = p" using h(1,2) by simp
  with h show "x = p \<and> y = q" by simp
qed simp

lemma refused_nat:
  fixes a b c d :: nat
  assumes "a < 256" "b < 256" "c < 256" "d < 256"
  shows "(a = 0 \<or> a = 10 \<or> a * 4 + b div 64 = 401 \<or> a = 127 \<or> a * 256 + b = 43518 \<or> a * 16 + b div 16 = 2753 \<or>
      a * 256 + b = 49320 \<or> a div 16 = 14 \<or> ((a * 256 + b) * 256 + c) * 256 + d = 4294967295) \<longleftrightarrow>
    (a \<in> {0, 10, 127} \<or> (a = 172 \<and> 16 \<le> b \<and> b \<le> 31) \<or> (a = 192 \<and> b = 168) \<or> (a = 169 \<and> b = 254) \<or>
      (a = 255 \<and> b = 255 \<and> c = 255 \<and> d = 255) \<or> (224 \<le> a \<and> a \<le> 239) \<or> (a = 100 \<and> 64 \<le> b \<and> b \<le> 127))"
proof -
  have q: "b div 64 < 4" "b div 16 < 16" using assms by auto
  have e1: "b div 64 = 1 \<longleftrightarrow> 64 \<le> b \<and> b \<le> 127" "b div 16 = 1 \<longleftrightarrow> 16 \<le> b \<and> b \<le> 31"
    by (auto simp: div_eq_range)
  have e2: "a * 4 + b div 64 = 401 \<longleftrightarrow> a = 100 \<and> b div 64 = 1"
    using two_digits[of "b div 64" 4 1 a 100] q by simp
  have e3: "a * 16 + b div 16 = 2753 \<longleftrightarrow> a = 172 \<and> b div 16 = 1"
    using two_digits[of "b div 16" 16 1 a 172] q by simp
  have e4: "a * 256 + b = 43518 \<longleftrightarrow> a = 169 \<and> b = 254"
    using two_digits[of b 256 254 a 169] assms by simp
  have e5: "a * 256 + b = 49320 \<longleftrightarrow> a = 192 \<and> b = 168"
    using two_digits[of b 256 168 a 192] assms by simp
  have e6: "a div 16 = 14 \<longleftrightarrow> 224 \<le> a \<and> a \<le> 239" by (auto simp: div_eq_range)
  have e7: "((a * 256 + b) * 256 + c) * 256 + d = 4294967295 \<longleftrightarrow> a = 255 \<and> b = 255 \<and> c = 255 \<and> d = 255"
  proof
    assume n: "((a * 256 + b) * 256 + c) * 256 + d = 4294967295"
    from addr4_div(1,2)[OF assms, unfolded n] have ab: "a = 255" "b = 255" by simp_all
    from n have "c * 256 + d = 65535" by (simp add: ab)
    with assms(3,4) have "c = 255" by linarith
    with \<open>c * 256 + d = 65535\<close> ab show "a = 255 \<and> b = 255 \<and> c = 255 \<and> d = 255" by simp
  qed simp
  show ?thesis by (simp only: e1 e2 e3 e4 e5 e6 e7 insert_iff empty_iff simp_thms) argo
qed

lemma v4_blocked_blocks: "v4_is_blocked x \<longleftrightarrow> (\<exists>blk\<in>set refused_blocks. in_block (addr4 x) blk)"
proof (cases x)
  case (IP4 a b c d)
  note b = byte_bound[of a] byte_bound[of b] byte_bound[of c] byte_bound[of d]
  obtain n where n: "n = addr4 (IP4 a b c d)" by blast
  note d = addr4_div[OF b, folded addr4.simps n]
  have blk: "in_block n (IP4 0 0 0 0, 8) \<longleftrightarrow> unat a = 0"
    "in_block n (IP4 10 0 0 0, 8) \<longleftrightarrow> unat a = 10"
    "in_block n (IP4 100 64 0 0, 10) \<longleftrightarrow> unat a * 4 + unat b div 64 = 401"
    "in_block n (IP4 127 0 0 0, 8) \<longleftrightarrow> unat a = 127"
    "in_block n (IP4 169 254 0 0, 16) \<longleftrightarrow> unat a * 256 + unat b = 43518"
    "in_block n (IP4 172 16 0 0, 12) \<longleftrightarrow> unat a * 16 + unat b div 16 = 2753"
    "in_block n (IP4 192 168 0 0, 16) \<longleftrightarrow> unat a * 256 + unat b = 49320"
    "in_block n (IP4 224 0 0 0, 4) \<longleftrightarrow> unat a div 16 = 14"
    "in_block n (IP4 255 255 255 255, 32) \<longleftrightarrow> n = 4294967295"
    by (simp_all add: in_block_def d)
  show ?thesis
    unfolding IP4 v4_blocked_nat[of a b c d] refused_nat[OF b, folded addr4.simps n, symmetric] refused_blocks_def n[symmetric]
    by (simp only: list.set bex_simps blk) blast
qed

section \<open>Embedded addresses\<close>

definition seg_of :: "8 word \<Rightarrow> 8 word \<Rightarrow> 16 word" where
  "seg_of a b = push_bit 8 (ucast a) OR ucast b"

lemma low_mask: "0xff = (mask 8 :: 16 word)"
  by (simp add: mask_eq_exp_minus_1)

lemma seg_bytes [simp]: "hi_byte (seg_of a b) = a" "lo_byte (seg_of a b) = b"
  by (rule bit_word_eqI; auto simp: hi_byte_def lo_byte_def seg_of_def low_mask bit_simps dest: bit_imp_le_length)+

lemma xor_ff [simp]: "(s XOR 0xffff) XOR 0xffff = (s :: 16 word)"
  by (simp add: xor.assoc)

fun mapped_v6 :: "ip4 \<Rightarrow> ip6" where
  "mapped_v6 (IP4 a b c d) = IP6 0 0 0 0 0 0xffff (seg_of a b) (seg_of c d)"

fun nat64_v6 :: "ip4 \<Rightarrow> ip6" where
  "nat64_v6 (IP4 a b c d) = IP6 0x0064 0xff9b 0 0 0 0 (seg_of a b) (seg_of c d)"

fun sixto4_v6 :: "ip4 \<Rightarrow> 16 word \<times> 16 word \<times> 16 word \<times> 16 word \<times> 16 word \<Rightarrow> ip6" where
  "sixto4_v6 (IP4 a b c d) (s3, s4, s5, s6, s7) = IP6 0x2002 (seg_of a b) (seg_of c d) s3 s4 s5 s6 s7"

fun teredo_v6 :: "ip4 \<Rightarrow> 16 word \<times> 16 word \<times> 16 word \<times> 16 word \<Rightarrow> ip6" where
  "teredo_v6 (IP4 a b c d) (s2, s3, s4, s5) =
     IP6 0x2001 0 s2 s3 s4 s5 (seg_of a b XOR 0xffff) (seg_of c d XOR 0xffff)"

fun compatible_v6 :: "ip4 \<Rightarrow> ip6" where
  "compatible_v6 (IP4 a b c d) = IP6 0 0 0 0 0 0 (seg_of a b) (seg_of c d)"

lemma v4_of_seg [simp]: "v4_of (seg_of a b) (seg_of c d) = IP4 a b c d"
  by (simp add: v4_of_def)

lemma embedded_cases:
  "v6_is_blocked (mapped_v6 x) = v4_is_blocked x"
  "v6_is_blocked (nat64_v6 x) = v4_is_blocked x"
  "v6_is_blocked (sixto4_v6 x rest) = v4_is_blocked x"
  "v6_is_blocked (teredo_v6 x server) = v4_is_blocked x"
  by (cases x; cases rest; cases server;
      simp add: v6_is_blocked_def or_else_def del: v4_is_blocked.simps)+

text \<open>The unspecified and the loopback address, which the guard refuses as such, embed addresses it
  refuses too.\<close>

lemma seg_of_small: "seg_of a b = 0 \<Longrightarrow> a = 0"
  using seg_bytes(1)[of a b] by (simp add: hi_byte_def)

lemma compatible_case: "v6_is_blocked (compatible_v6 x) = v4_is_blocked x"
proof (cases x)
  case (IP4 a b c d)
  show ?thesis
  proof (cases "seg_of a b = 0")
    case True
    then have "v4_is_blocked x" using seg_of_small[of a b] IP4 by simp
    then show ?thesis by (simp add: IP4 v6_is_blocked_def or_else_def del: v4_is_blocked.simps)
  next
    case False
    then show ?thesis by (simp add: IP4 v6_is_blocked_def or_else_def del: v4_is_blocked.simps)
  qed
qed

section \<open>What a fetch requests\<close>

text \<open>The world with the list of URLs requested so far, and a client that keeps it.\<close>

definition logged :: "('u, 'w \<times> 'u list) client \<Rightarrow> ('u, 'w \<times> 'u list) client" where
  "logged C res u s = C res u (fst s, snd s @ [u])"

definition keeps_log :: "('w \<times> 'u list, 'e, 'a) eff \<Rightarrow> bool" where
  "keeps_log m \<longleftrightarrow> (\<forall>s. snd (snd (m s)) = snd s)"

definition quiet_dns :: "('w \<times> 'u list) dns \<Rightarrow> bool" where
  "quiet_dns D \<longleftrightarrow> (\<forall>name port. keeps_log (D name port))"

definition quiet_client :: "('u, 'w \<times> 'u list) client \<Rightarrow> bool" where
  "quiet_client C \<longleftrightarrow> (\<forall>res u. (\<forall>name. keeps_log (res name)) \<longrightarrow> keeps_log (C res u))"

definition vetted :: "'u url_lib \<Rightarrow> 'w dns \<Rightarrow> policy \<Rightarrow> 'u \<Rightarrow> bool" where
  "vetted U D p u \<longleftrightarrow>
     (url_scheme U u = ''http'' \<or> url_scheme U u = ''https'') \<and>
     (\<exists>h. url_host U u = Some h \<and>
        (allow_private_hosts p \<or>
         (case h of
            HostV4 i \<Rightarrow> \<not> ip_is_blocked (V4 i)
          | HostV6 i \<Rightarrow> \<not> ip_is_blocked (V6 i)
          | Domain name \<Rightarrow> \<not> host_name_is_local name \<and>
              (\<exists>port s addrs s'. D name port s = (Inr addrs, s') \<and> (\<forall>a\<in>set addrs. \<not> ip_is_blocked a)))))"

lemma keeps_log_bind: "keeps_log m \<Longrightarrow> (\<And>x. keeps_log (f x)) \<Longrightarrow> keeps_log (bindM m f)"
  unfolding keeps_log_def bindM_def by (auto split: prod.splits sum.splits) (metis snd_conv)+

lemma keeps_log_basic [simp]: "keeps_log (ret x)" "keeps_log (fail e)" "keeps_log (from_result r)"
  by (simp_all add: keeps_log_def from_result_def)

lemma keeps_log_lookup: "quiet_dns D \<Longrightarrow> keeps_log (lookup_host D name port)"
  unfolding keeps_log_def quiet_dns_def lookup_host_def
  by (auto split: prod.splits sum.splits) (metis snd_conv)+

lemma keeps_log_guard: "quiet_dns D \<Longrightarrow> keeps_log (guard_resolved U D p u)"
  by (auto simp: guard_resolved_def intro!: keeps_log_bind keeps_log_lookup split: option.splits host.splits)

lemma keeps_log_resolve: "quiet_dns D \<Longrightarrow> keeps_log (guarded_resolve D ap name)"
  by (auto simp: guarded_resolve_def intro!: keeps_log_bind keeps_log_lookup split: option.splits)

lemma keeps_log_vet: "quiet_dns D \<Longrightarrow> keeps_log (vet_redirect U D p u l)"
  by (auto simp: vet_redirect_def intro!: keeps_log_bind keeps_log_guard split: sum.splits)

lemma keeps_logD: "keeps_log m \<Longrightarrow> m s = (r, s') \<Longrightarrow> snd s' = snd s"
  unfolding keeps_log_def by (metis snd_conv)

lemma check_addrs_ok: "check_addrs name xs = Inr () \<longleftrightarrow> (\<forall>a\<in>set xs. \<not> ip_is_blocked a)"
  by (induction xs) auto

lemma guard_vetted:
  assumes "validate_url U p raw = Inr u" "guard_resolved U D p u s = (Inr (), s')"
  shows "vetted U D p u"
proof -
  from assms(1) obtain h where h: "url_scheme U u = ''http'' \<or> url_scheme U u = ''https''" "url_host U u = Some h"
    "allow_private_hosts p \<or> (case h of HostV4 i \<Rightarrow> \<not> ip_is_blocked (V4 i) | HostV6 i \<Rightarrow> \<not> ip_is_blocked (V6 i)
       | Domain name \<Rightarrow> \<not> host_name_is_local name)"
    by (auto simp: validate_url_def simp del: ip_is_blocked.simps split: sum.splits if_splits host.splits)
  show ?thesis
  proof (cases "\<exists>name. h = Domain name \<and> \<not> allow_private_hosts p")
    case True
    then obtain name where n: "h = Domain name" "\<not> allow_private_hosts p" by blast
    let ?port = "case url_port U u of Some n \<Rightarrow> n | None \<Rightarrow> 80"
    from assms(2) h(2) n have "bindM (lookup_host D name ?port) (\<lambda>addrs. from_result (check_addrs name addrs)) s = (Inr (), s')"
      by (simp add: guard_resolved_def)
    then obtain addrs s1 where "lookup_host D name ?port s = (Inr addrs, s1)" "check_addrs name addrs = Inr ()"
      by (auto simp: bindM_Inr from_result_def)
    then have "D name ?port s = (Inr addrs, s1)" "\<forall>a\<in>set addrs. \<not> ip_is_blocked a"
      by (auto simp: lookup_host_def check_addrs_ok split: prod.splits sum.splits)
    with h n show ?thesis unfolding vetted_def by (simp del: ip_is_blocked.simps) blast
  next
    case False
    with h show ?thesis by (cases h) (auto simp: vetted_def simp del: ip_is_blocked.simps)
  qed
qed

lemma vet_redirect_vetted: "vet_redirect U D p u l s = (Inr v, s') \<Longrightarrow> vetted U D p v"
  by (auto simp: vet_redirect_def bindM_Inr from_result_def split: sum.splits intro: guard_vetted)

lemma follow_requests:
  assumes "quiet_dns D" "quiet_client C" "vetted U D p u"
    and "follow U D (logged C) p left u s = (r, s')"
  shows "\<exists>new. snd s' = snd s @ new \<and> length new \<le> Suc left \<and> (\<forall>x\<in>set new. vetted U D p x)"
  using assms(3,4)
proof (induction left arbitrary: u s r s')
  case (0 u)
  obtain r1 s1 where c: "logged C (guarded_resolve D (allow_private_hosts p)) u s = (r1, s1)" by (rule prod.exhaust)
  have l: "snd s1 = snd s @ [u]"
    using assms(2) keeps_log_resolve[OF assms(1)] keeps_logD[of "C (guarded_resolve D (allow_private_hosts p)) u" "(fst s, snd s @ [u])"] c
    by (auto simp: logged_def quiet_client_def)
  have "s' = s1" using 0(2) c
    by (cases r1) (auto simp: follow.simps[of _ _ _ _ 0] split: if_splits option.splits)
  with l 0(1) show ?case by (intro exI[of _ "[u]"]) simp
next
  case (Suc left u)
  obtain r1 s1 where c: "logged C (guarded_resolve D (allow_private_hosts p)) u s = (r1, s1)" by (rule prod.exhaust)
  have l: "snd s1 = snd s @ [u]"
    using assms(2) keeps_log_resolve[OF assms(1)] keeps_logD[of "C (guarded_resolve D (allow_private_hosts p)) u" "(fst s, snd s @ [u])"] c
    by (auto simp: logged_def quiet_client_def)
  show ?case
  proof (cases "\<exists>x loc. r1 = Inr x \<and> is_redirection (resp_status x) \<and> resp_location x = Some loc")
    case False
    then have "s' = s1" using Suc.prems(2) c
      by (cases r1) (auto simp: follow.simps[of _ _ _ _ "Suc left"] split: if_splits option.splits)
    with l Suc.prems(1) show ?thesis by (intro exI[of _ "[u]"]) simp
  next
    case True
    then obtain x loc where x: "r1 = Inr x" "is_redirection (resp_status x)" "resp_location x = Some loc" by blast
    obtain r2 s2 where v: "vet_redirect U D p u loc s1 = (r2, s2)" by (rule prod.exhaust)
    have l2: "snd s2 = snd s @ [u]" using keeps_logD[OF keeps_log_vet[OF assms(1)] v] l by simp
    have run: "bindM (vet_redirect U D p u loc) (\<lambda>nx. follow U D (logged C) p left nx) s1 = (r, s')"
      using Suc.prems(2) c x by (simp add: follow.simps[of _ _ _ _ "Suc left"])
    show ?thesis
    proof (cases r2)
      case (Inl e)
      with run v l2 Suc.prems(1) show ?thesis by (intro exI[of _ "[u]"]) auto
    next
      case (Inr y)
      with run v have "follow U D (logged C) p left y s2 = (r, s')" by simp
      from Suc.IH[OF vet_redirect_vetted this] v Inr obtain new where
        "snd s' = snd s2 @ new" "length new \<le> Suc left" "\<forall>x\<in>set new. vetted U D p x" by blast
      with l2 Suc.prems(1) show ?thesis by (intro exI[of _ "u # new"]) simp
    qed
  qed
qed

lemma resolve_public:
  "guarded_resolve D False name s = (Inr addrs, s') \<Longrightarrow> a \<in> set addrs \<Longrightarrow> \<not> ip_is_blocked a"
  by (auto simp: guarded_resolve_def bindM_Inr first_blocked_addr_def find_None_iff split: option.splits)

section \<open>Properties\<close>

text \<open>
  The refused IPv4 addresses. An address is refused exactly when it lies in one of nine
  blocks: 0/8, 10/8, 100.64/10, 127/8, 169.254/16, 172.16/12, 192.168/16, 224/4 and the
  broadcast address.
\<close>

theorem refused_ipv4_exact: "ip_is_blocked (V4 x) \<longleftrightarrow> (\<exists>blk\<in>set refused_blocks. in_block (addr4 x) blk)"
  by (simp add: v4_blocked_blocks del: v4_is_blocked.simps)

text \<open>
  No refused address is reachable through IPv6. An IPv4-mapped, NAT64, 6to4, Teredo or
  IPv4-compatible address is refused exactly when the address it embeds is, whatever its other
  bits.
\<close>

theorem embedded_ipv4_judged:
  "ip_is_blocked (V6 (mapped_v6 x)) = ip_is_blocked (V4 x) \<and>
   ip_is_blocked (V6 (nat64_v6 x)) = ip_is_blocked (V4 x) \<and>
   ip_is_blocked (V6 (sixto4_v6 x rest)) = ip_is_blocked (V4 x) \<and>
   ip_is_blocked (V6 (teredo_v6 x server)) = ip_is_blocked (V4 x) \<and>
   ip_is_blocked (V6 (compatible_v6 x)) = ip_is_blocked (V4 x)"
  by (simp add: embedded_cases compatible_case del: v4_is_blocked.simps)

text \<open>
  C8: every request is vetted. Whatever the pages redirect to and whatever DNS answers, a fetch
  sends at most eleven requests, each to an http or https URL whose host passed the guard: a
  public address literal, or a name that is not local and resolved to public addresses only; and
  the addresses its resolver hands the client to connect to are public, at that moment.
\<close>

theorem fetch_requests_vetted:
  assumes "quiet_dns D" "quiet_client C" "fetch U D (logged C) p raw (w, []) = (r, (w', us))"
  shows "length us \<le> 11 \<and> (\<forall>u\<in>set us. vetted U D p u) \<and>
    (allow_private_hosts p \<or> (\<forall>name s. case fst (guarded_resolve D (allow_private_hosts p) name s) of
        Inr addrs \<Rightarrow> \<forall>a\<in>set addrs. \<not> ip_is_blocked a | Inl _ \<Rightarrow> True))"
proof -
  have pub: "\<forall>name s. case fst (guarded_resolve D False name s) of
      Inr addrs \<Rightarrow> \<forall>a\<in>set addrs. \<not> ip_is_blocked a | Inl _ \<Rightarrow> True"
    by (auto split: sum.splits) (metis prod.collapse resolve_public)
  have "length us \<le> 11 \<and> (\<forall>u\<in>set us. vetted U D p u)"
  proof (cases "validate_url U p raw")
    case (Inl e)
    with assms(3) show ?thesis by (simp add: fetch_def bindM_def from_result_def)
  next
    case (Inr u)
    obtain g s1 where g: "guard_resolved U D p u (w, []) = (g, s1)" by (rule prod.exhaust)
    with keeps_logD[OF keeps_log_guard[OF assms(1)] g] have s1: "snd s1 = []" by simp
    show ?thesis
    proof (cases g)
      case (Inl e)
      with assms(3) \<open>validate_url U p raw = Inr u\<close> g s1 show ?thesis
        by (auto simp: fetch_def bindM_def from_result_def)
    next
      case (Inr v)
      with assms(3) \<open>validate_url U p raw = Inr u\<close> g
      have "follow U D (logged C) p MAX_REDIRECTS u s1 = (r, (w', us))"
        by (simp add: fetch_def bindM_def from_result_def)
      from follow_requests[OF assms(1,2) guard_vetted this] \<open>validate_url U p raw = Inr u\<close> g Inr s1
      show ?thesis by (auto simp: MAX_REDIRECTS_def)
    qed
  qed
  with pub show ?thesis by (cases "allow_private_hosts p") simp_all
qed

text \<open>A page that redirects once.\<close>

definition plain_urls :: "string url_lib" where
  "plain_urls = \<lparr>url_parse = Inr, url_join = (\<lambda>_. Inr), url_text = id, url_scheme = (\<lambda>_. ''https''),
     url_host = (\<lambda>_. Some (HostV4 (IP4 8 8 8 8))), url_port = (\<lambda>_. None)\<rparr>"

definition one_redirect :: "(string, unit \<times> string list) client" where
  "one_redirect res u s =
     (Inr (if u = ''a'' then \<lparr>resp_status = 302, resp_location = Some ''b'', resp_body = []\<rparr>
           else \<lparr>resp_status = 200, resp_location = None, resp_body = []\<rparr>), s)"

theorem fetch_requests_vetted_witness:
  "snd (snd (fetch plain_urls (\<lambda>_ _. ret []) (logged one_redirect) \<lparr>allow_private_hosts = False, max_bytes = 10\<rparr> ''a'' ((), [])))
     = [''a'', ''b''] \<and>
   vetted plain_urls (\<lambda>_ _. ret [] :: (unit \<times> string list, string, ip list) eff) \<lparr>allow_private_hosts = False, max_bytes = 10\<rparr> ''b''"
proof -
  let ?D = "\<lambda>_ _. ret [] :: (unit \<times> string list, string, ip list) eff"
  let ?p = "\<lparr>allow_private_hosts = False, max_bytes = 10\<rparr>"
  have q: "quiet_dns ?D" "quiet_client one_redirect" by (simp_all add: quiet_dns_def quiet_client_def keeps_log_def one_redirect_def)
  have run: "fetch plain_urls ?D (logged one_redirect) ?p ''a'' ((), []) =
      (Inr \<lparr>resp_status = 200, resp_location = None, resp_body = []\<rparr>, ((), [''a'', ''b'']))"
    by (simp add: fetch_def MAX_REDIRECTS_def follow.simps validate_url_def plain_urls_def guard_resolved_def guardE_def okOr_def
        from_result_def bindM_def logged_def one_redirect_def is_redirection_def vet_redirect_def)
  from fetch_requests_vetted[OF q run] run show ?thesis by simp
qed

section \<open>Cutting text\<close>

text \<open>\<open>cap_str\<close> keeps the longest prefix that ends between characters and fits.\<close>

lemma back_to_boundary_max:
  "back_to_boundary bs e \<le> e \<and> is_char_boundary bs (back_to_boundary bs e) \<and>
   (\<forall>k. back_to_boundary bs e < k \<and> k \<le> e \<longrightarrow> \<not> is_char_boundary bs k)"
  by (induction e) (auto simp: is_char_boundary_def le_Suc_eq)

lemma cap_str_longest:
  "\<exists>k. cap_str bs cap = take k bs \<and> k \<le> length bs \<and> is_char_boundary bs k \<and> length (cap_str bs cap) \<le> cap \<and>
     (\<forall>k'. k < k' \<and> k' \<le> min cap (length bs) \<longrightarrow> \<not> is_char_boundary bs k')"
proof (cases "length bs \<le> cap")
  case True
  then show ?thesis by (intro exI[of _ "length bs"]) (auto simp: cap_str_def is_char_boundary_def)
next
  case False
  with back_to_boundary_max[of bs cap] show ?thesis
    by (intro exI[of _ "back_to_boundary bs cap"]) (auto simp: cap_str_def)
qed

text \<open>
  The cut of a body at the byte cap does not: when the cap falls exactly after a character of
  more than one byte, its continuation bytes are cut off and its lead byte stays, which the lossy
  decoder turns into a replacement character.
\<close>

lemma truncate_splits_char: "read_capped [Inr [0x61, 0xc3, 0xa9, 0x62]] 3 = Inr ([0x61, 0xc3], 4)"
  by (simp add: read_capped_def truncate_to_char_boundary_def is_continuation_def lead_need_def Let_def)

end
