(* ===== verification/Bus_Lock.thy ===== *)
theory Bus_Lock
  imports Prelude
begin

text \<open>
  The bus's distributed lock (\<open>catalerum-bus/src/lock.rs\<close>): the in-process backend, and how the Valkey
  backend acquires. Every operation of the in-process backend holds the table's mutex over its whole body, so
  an interleaving of the tasks is a sequence of operations. A time is a number of nanoseconds; \<open>new_token\<close>
  draws a fresh identifier from the identifier library, so a token is an argument of the operation that draws it.
\<close>

section \<open>The lock table\<close>

datatype bus_error = Redis string | Serde string | LockNotHeld string | RelayClosed | Other string

type_synonym 'a bus_result = "bus_error + 'a"

record lock_guard =
  g_resource :: string
  g_token :: string

record held =
  h_token :: string
  h_expires_at :: nat

type_synonym lock_table = "string \<rightharpoonup> held"

definition try_acquire ::
  "lock_table \<Rightarrow> nat \<Rightarrow> string \<Rightarrow> string \<Rightarrow> nat \<Rightarrow> lock_guard option bus_result \<times> lock_table" where
  "try_acquire m now token resource ttl =
     (case m resource of
        Some h \<Rightarrow>
          if h_expires_at h > now then (Inr None, m)
          else (Inr (Some \<lparr>g_resource = resource, g_token = token\<rparr>),
                m(resource \<mapsto> \<lparr>h_token = token, h_expires_at = now + ttl\<rparr>))
      | None \<Rightarrow>
          (Inr (Some \<lparr>g_resource = resource, g_token = token\<rparr>),
           m(resource \<mapsto> \<lparr>h_token = token, h_expires_at = now + ttl\<rparr>)))"

definition release :: "lock_table \<Rightarrow> lock_guard \<Rightarrow> bool bus_result \<times> lock_table" where
  "release m g =
     (case m (g_resource g) of
        Some h \<Rightarrow> if h_token h = g_token g then (Inr True, m(g_resource g := None)) else (Inr False, m)
      | None \<Rightarrow> (Inr False, m))"

definition refresh :: "lock_table \<Rightarrow> nat \<Rightarrow> lock_guard \<Rightarrow> nat \<Rightarrow> bool bus_result \<times> lock_table" where
  "refresh m now g ttl =
     (case m (g_resource g) of
        Some h \<Rightarrow>
          if h_token h = g_token g
          then (Inr True, m(g_resource g \<mapsto> h\<lparr>h_expires_at := now + ttl\<rparr>))
          else (Inr False, m)
      | None \<Rightarrow> (Inr False, m))"

lemmas lock_defs = try_acquire_def release_def refresh_def

section \<open>Acquiring in Valkey\<close>

text \<open>\<open>SET key token NX PX ttl\<close>, the one command of an acquisition, is an argument: it takes the server's state,
  its time, the key, the value and the milliseconds to live, and answers an error, or nothing when it did not
  set the key.\<close>

type_synonym 'v set_nx = "'v \<Rightarrow> nat \<Rightarrow> string \<Rightarrow> string \<Rightarrow> nat \<Rightarrow> string option bus_result \<times> 'v"

definition lock_key :: "string \<Rightarrow> string" where
  "lock_key name = ''cat:lock:'' @ name"

definition redis_try_acquire ::
  "'v set_nx \<Rightarrow> 'v \<Rightarrow> nat \<Rightarrow> string \<Rightarrow> string \<Rightarrow> nat \<Rightarrow> lock_guard option bus_result \<times> 'v" where
  "redis_try_acquire set_nx v now token resource ttl =
     (case set_nx v now (lock_key resource) token (ttl div 1000000) of
        (Inl e, v') \<Rightarrow> (Inl e, v')
      | (Inr (Some answer), v') \<Rightarrow> (Inr (Some \<lparr>g_resource = resource, g_token = token\<rparr>), v')
      | (Inr None, v') \<Rightarrow> (Inr None, v'))"

text \<open>What Valkey documents of the command, with \<open>live v k\<close> the time the key \<open>k\<close> lapses: it sets a key that
  does not live, for the milliseconds given, and leaves one that does. When the call fails, either has happened
  or nothing.\<close>

definition sets_nx :: "'v set_nx \<Rightarrow> ('v \<Rightarrow> string \<Rightarrow> nat) \<Rightarrow> bool" where
  "sets_nx set_nx live \<longleftrightarrow>
     (\<forall>v now k x ms. case set_nx v now k x ms of
        (Inr None, v') \<Rightarrow> now < live v k \<and> live v' = live v
      | (Inr (Some answer), v') \<Rightarrow> live v k \<le> now \<and> live v' = (live v)(k := now + ms * 1000000)
      | (Inl e, v') \<Rightarrow> live v' = live v \<or> live v k \<le> now \<and> live v' = (live v)(k := now + ms * 1000000))"

section \<open>Histories of the table\<close>

datatype lock_op =
    Acquire string string nat
  | Release lock_guard
  | Refresh lock_guard nat

datatype lock_out = Acquired "lock_guard option" | Answered bool

fun lock_step :: "lock_table \<Rightarrow> nat \<Rightarrow> lock_op \<Rightarrow> lock_out bus_result \<times> lock_table" where
  "lock_step m now (Acquire token r ttl) =
     (case try_acquire m now token r ttl of (v, m') \<Rightarrow> (map_sum id Acquired v, m'))"
| "lock_step m now (Release g) = (case release m g of (v, m') \<Rightarrow> (map_sum id Answered v, m'))"
| "lock_step m now (Refresh g ttl) =
     (case refresh m now g ttl of (v, m') \<Rightarrow> (map_sum id Answered v, m'))"

type_synonym lock_history = "(nat \<times> lock_op \<times> lock_out bus_result) list"

text \<open>The tokens drawn so far, and the time of the latest operation (the history lists the latest
  first).\<close>

fun op_token :: "lock_op \<Rightarrow> string option" where
  "op_token (Acquire token r ttl) = Some token"
| "op_token (Release g) = None"
| "op_token (Refresh g ttl) = None"

definition drawn :: "lock_history \<Rightarrow> string set" where
  "drawn h = {t. \<exists>e\<in>set h. op_token (fst (snd e)) = Some t}"

definition lock_clock :: "lock_history \<Rightarrow> nat" where
  "lock_clock h = (case h of [] \<Rightarrow> 0 | (t, _) # _ \<Rightarrow> t)"

inductive lock_reach :: "lock_history \<Rightarrow> lock_table \<Rightarrow> bool" where
  start: "lock_reach [] Map.empty"
| step: "lock_reach h m \<Longrightarrow> lock_clock h \<le> now \<Longrightarrow> (\<forall>t. op_token p = Some t \<longrightarrow> t \<notin> drawn h)
    \<Longrightarrow> lock_step m now p = (v, m') \<Longrightarrow> lock_reach ((now, p, v) # h) m'"

text \<open>What a holder knows from its own calls: the end of the lease its acquisition or its last
  successful refresh gave it, and nothing once it has released the lock.\<close>

fun lease :: "lock_guard \<Rightarrow> lock_history \<Rightarrow> nat option" where
  "lease g [] = None"
| "lease g ((now, p, v) # h) =
     (case p of
        Acquire token r ttl \<Rightarrow> if v = Inr (Acquired (Some g)) then Some (now + ttl) else lease g h
      | Release g' \<Rightarrow> if g' = g \<and> v = Inr (Answered True) then None else lease g h
      | Refresh g' ttl \<Rightarrow>
          if g' = g \<and> v = Inr (Answered True) then Some (now + ttl) else lease g h)"

lemma drawn_Cons:
  "drawn ((now, p, v) # h) = (case op_token p of None \<Rightarrow> drawn h | Some t \<Rightarrow> insert t (drawn h))"
  by (auto simp: drawn_def split: option.splits)

lemma clock_Cons [simp]: "lock_clock ((now, p, v) # h) = now"
  by (simp add: lock_clock_def)

lemma try_acquire_cases:
  obtains (taken) h where "m r = Some h" "now < h_expires_at h" "try_acquire m now tok r ttl = (Inr None, m)"
  | (free) "\<And>h. m r = Some h \<Longrightarrow> h_expires_at h \<le> now"
      "try_acquire m now tok r ttl =
         (Inr (Some \<lparr>g_resource = r, g_token = tok\<rparr>), m(r \<mapsto> \<lparr>h_token = tok, h_expires_at = now + ttl\<rparr>))"
proof (cases "m r")
  case None
  then show thesis by (intro free) (auto simp: try_acquire_def)
next
  case (Some h)
  then show thesis
    by (cases "now < h_expires_at h") (auto simp: try_acquire_def not_less intro: taken free)
qed

text \<open>The table of a reachable state against the leases: every entry is the lease of the guard it
  names, every guard with a lease is in the table or its lease is over, and every token was
  drawn.\<close>

definition lock_inv :: "lock_history \<Rightarrow> lock_table \<Rightarrow> bool" where
  "lock_inv h m \<longleftrightarrow>
     (\<forall>r e. m r = Some e \<longrightarrow> h_token e \<in> drawn h
        \<and> lease \<lparr>g_resource = r, g_token = h_token e\<rparr> h = Some (h_expires_at e))
     \<and> (\<forall>g e. lease g h = Some e \<longrightarrow> g_token g \<in> drawn h
        \<and> (m (g_resource g) = Some \<lparr>h_token = g_token g, h_expires_at = e\<rparr>
           \<or> e \<le> lock_clock h \<and> (\<forall>x. m (g_resource g) = Some x \<longrightarrow> h_token x \<noteq> g_token g)))"

lemma lock_invD:
  assumes "lock_inv h m"
  shows "m r = Some e \<Longrightarrow> h_token e \<in> drawn h"
    "m r = Some e \<Longrightarrow> lease \<lparr>g_resource = r, g_token = h_token e\<rparr> h = Some (h_expires_at e)"
    "lease g h = Some t \<Longrightarrow> g_token g \<in> drawn h"
    "lease g h = Some t \<Longrightarrow> m (g_resource g) = Some \<lparr>h_token = g_token g, h_expires_at = t\<rparr>
       \<or> t \<le> lock_clock h \<and> (\<forall>x. m (g_resource g) = Some x \<longrightarrow> h_token x \<noteq> g_token g)"
  using assms unfolding lock_inv_def by blast+

lemma guard_eq_iff: "(g :: lock_guard) = g' \<longleftrightarrow> g_resource g = g_resource g' \<and> g_token g = g_token g'"
  by (cases g; cases g') simp

lemma guard_eta [simp]: "\<lparr>g_resource = g_resource g, g_token = g_token g\<rparr> = (g :: lock_guard)"
  by simp

lemma lock_inv_acquire:
  assumes inv: "lock_inv h m" and clock: "lock_clock h \<le> now" and fresh: "tok \<notin> drawn h"
    and free: "\<And>x. m r = Some x \<Longrightarrow> h_expires_at x \<le> now"
  shows "lock_inv ((now, Acquire tok r ttl, Inr (Acquired (Some \<lparr>g_resource = r, g_token = tok\<rparr>))) # h)
    (m(r \<mapsto> \<lparr>h_token = tok, h_expires_at = now + ttl\<rparr>))"
  unfolding lock_inv_def
proof (intro conjI allI impI)
  let ?m = "m(r \<mapsto> \<lparr>h_token = tok, h_expires_at = now + ttl\<rparr>)"
  let ?h = "(now, Acquire tok r ttl, Inr (Acquired (Some \<lparr>g_resource = r, g_token = tok\<rparr>))) # h"
  note D = lock_invD[OF inv]
  fix r' e assume e: "?m r' = Some e"
  show "h_token e \<in> drawn ?h" using e D(1) by (auto simp: drawn_Cons split: if_splits)
  show "lease \<lparr>g_resource = r', g_token = h_token e\<rparr> ?h = Some (h_expires_at e)"
    using e D(1,2) fresh by (auto split: if_splits)
next
  let ?m = "m(r \<mapsto> \<lparr>h_token = tok, h_expires_at = now + ttl\<rparr>)"
  let ?h = "(now, Acquire tok r ttl, Inr (Acquired (Some \<lparr>g_resource = r, g_token = tok\<rparr>))) # h"
  note D = lock_invD[OF inv]
  fix g e assume e: "lease g ?h = Some e"
  show "g_token g \<in> drawn ?h" using e D(3) by (auto simp: drawn_Cons split: if_splits)
  show "?m (g_resource g) = Some \<lparr>h_token = g_token g, h_expires_at = e\<rparr> \<or>
    e \<le> lock_clock ?h \<and> (\<forall>x. ?m (g_resource g) = Some x \<longrightarrow> h_token x \<noteq> g_token g)"
  proof (cases "g = \<lparr>g_resource = r, g_token = tok\<rparr>")
    case True
    then show ?thesis using e by simp
  next
    case False
    then have old: "lease g h = Some e" using e by (simp split: if_splits)
    have "g_token g \<noteq> tok" using D(3)[OF old] fresh by blast
    then show ?thesis
      using D(4)[OF old] clock free[of "\<lparr>h_token = g_token g, h_expires_at = e\<rparr>"]
      by (cases "g_resource g = r") auto
  qed
qed

lemma lock_inv_same:
  assumes inv: "lock_inv h m" and clock: "lock_clock h \<le> now"
    and "\<And>g. lease g ((now, p, v) # h) = lease g h"
  shows "lock_inv ((now, p, v) # h) m"
proof -
  have "drawn h \<subseteq> drawn ((now, p, v) # h)" by (auto simp: drawn_Cons split: option.splits)
  then show ?thesis
    using inv clock unfolding lock_inv_def assms(3) clock_Cons by (meson order_trans subsetD)
qed

lemma lock_inv_refresh:
  assumes inv: "lock_inv h m" and clock: "lock_clock h \<le> now"
    and x: "m (g_resource g) = Some x" "h_token x = g_token g"
  shows "lock_inv ((now, Refresh g ttl, Inr (Answered True)) # h)
    (m(g_resource g \<mapsto> x\<lparr>h_expires_at := now + ttl\<rparr>))"
  unfolding lock_inv_def
proof (intro conjI allI impI)
  note D = lock_invD[OF inv]
  let ?m = "m(g_resource g \<mapsto> x\<lparr>h_expires_at := now + ttl\<rparr>)"
  let ?h = "(now, Refresh g ttl, Inr (Answered True)) # h"
  fix r e assume e: "?m r = Some e"
  show "h_token e \<in> drawn ?h" using e D(1) D(1)[OF x(1)] by (auto simp: drawn_Cons split: if_splits)
  show "lease \<lparr>g_resource = r, g_token = h_token e\<rparr> ?h = Some (h_expires_at e)"
    using e D(2) x by (auto simp: guard_eq_iff split: if_splits)
next
  note D = lock_invD[OF inv]
  let ?m = "m(g_resource g \<mapsto> x\<lparr>h_expires_at := now + ttl\<rparr>)"
  let ?h = "(now, Refresh g ttl, Inr (Answered True)) # h"
  fix g' e assume e: "lease g' ?h = Some e"
  have own: "lease g h = Some (h_expires_at x)" using D(2)[OF x(1)] x(2) by simp
  show "g_token g' \<in> drawn ?h" using e D(3) own by (auto simp: drawn_Cons split: if_splits)
  show "?m (g_resource g') = Some \<lparr>h_token = g_token g', h_expires_at = e\<rparr> \<or>
    e \<le> lock_clock ?h \<and> (\<forall>y. ?m (g_resource g') = Some y \<longrightarrow> h_token y \<noteq> g_token g')"
  proof (cases "g' = g")
    case True
    then show ?thesis using e x by simp
  next
    case False
    then have old: "lease g' h = Some e" using e by (simp split: if_splits)
    show ?thesis
      using D(4)[OF old] clock x False
      by (cases "g_resource g' = g_resource g") (auto simp: guard_eq_iff)
  qed
qed

lemma lock_inv_release:
  assumes inv: "lock_inv h m" and clock: "lock_clock h \<le> now"
    and x: "m (g_resource g) = Some x" "h_token x = g_token g"
  shows "lock_inv ((now, Release g, Inr (Answered True)) # h) (m(g_resource g := None))"
  unfolding lock_inv_def
proof (intro conjI allI impI)
  note D = lock_invD[OF inv]
  let ?h = "(now, Release g, Inr (Answered True)) # h"
  fix r e assume e: "(m(g_resource g := None)) r = Some e"
  show "h_token e \<in> drawn ?h" using e D(1) by (auto simp: drawn_Cons split: if_splits)
  show "lease \<lparr>g_resource = r, g_token = h_token e\<rparr> ?h = Some (h_expires_at e)"
    using e D(2) by (auto simp: guard_eq_iff split: if_splits)
next
  note D = lock_invD[OF inv]
  let ?h = "(now, Release g, Inr (Answered True)) # h"
  fix g' e assume e: "lease g' ?h = Some e"
  have other: "g \<noteq> g'" and old: "lease g' h = Some e" using e by (simp_all split: if_splits)
  show "g_token g' \<in> drawn ?h" using D(3)[OF old] by (simp add: drawn_Cons)
  show "(m(g_resource g := None)) (g_resource g') = Some \<lparr>h_token = g_token g', h_expires_at = e\<rparr> \<or>
    e \<le> lock_clock ?h \<and> (\<forall>y. (m(g_resource g := None)) (g_resource g') = Some y \<longrightarrow> h_token y \<noteq> g_token g')"
    using D(4)[OF old] clock x other
    by (cases "g_resource g' = g_resource g") (auto simp: guard_eq_iff)
qed


theorem lock_inv_reach: "lock_reach h m \<Longrightarrow> lock_inv h m"
proof (induction rule: lock_reach.induct)
  case start
  show ?case by (simp add: lock_inv_def)
next
  case (step h m now p v m')
  show ?case
  proof (cases p)
    case (Acquire tok r ttl)
    show ?thesis
    proof (cases rule: try_acquire_cases[of m r now tok ttl])
      case taken
      then show ?thesis using step Acquire by (auto intro: lock_inv_same)
    next
      case free
      have "tok \<notin> drawn h" using step.hyps(3) Acquire by simp
      then show ?thesis
        using step.hyps(4) lock_inv_acquire[OF step.IH step.hyps(2) _ free(1)] free(2)
        by (auto simp: Acquire)
    qed
  next
    case (Release g)
    then show ?thesis
      using step.hyps(4) lock_inv_release[OF step.IH step.hyps(2)] lock_inv_same[OF step.IH step.hyps(2)]
      by (auto simp: release_def split: option.splits if_splits)
  next
    case (Refresh g ttl)
    show ?thesis
    proof (cases "\<exists>x. m (g_resource g) = Some x \<and> h_token x = g_token g")
      case True
      then obtain x where x: "m (g_resource g) = Some x" "h_token x = g_token g" by blast
      then have v: "v = Inr (Answered True)" and m': "m' = m(g_resource g \<mapsto> x\<lparr>h_expires_at := now + ttl\<rparr>)"
        using step.hyps(4) Refresh by (simp_all add: refresh_def)
      show ?thesis unfolding v m' Refresh by (rule lock_inv_refresh[OF step.IH step.hyps(2) x])
    next
      case False
      then show ?thesis
        using step.hyps(4) lock_inv_same[OF step.IH step.hyps(2)] Refresh
        by (auto simp: refresh_def split: option.splits if_splits)
    qed
  qed
qed

lemma running_lease_held:
  assumes "lock_reach h m" "lease g h = Some e" "lock_clock h < e"
  shows "m (g_resource g) = Some \<lparr>h_token = g_token g, h_expires_at = e\<rparr>"
  using lock_invD(4)[OF lock_inv_reach[OF assms(1)] assms(2)] assms(3) by auto

section \<open>Mutual exclusion\<close>

text \<open>C7: the lease of the in-process lock excludes. In every history of the table (times do not run
  back, tokens are fresh), while the lease a guard was given, or last refreshed to, still runs:
  every other acquisition of the resource is refused and changes nothing, another guard's release
  or refresh of it answers false and changes nothing, no other guard of the resource has a running
  lease, and the holder's own release and refresh succeed.\<close>

theorem lock_excludes:
  assumes "lock_reach h m" "lease g h = Some e" "lock_clock h \<le> now" "now < e"
  shows "try_acquire m now token (g_resource g) ttl = (Inr None, m)
    \<and> (\<forall>g'. g_resource g' = g_resource g \<and> g' \<noteq> g \<longrightarrow>
          release m g' = (Inr False, m) \<and> refresh m now g' ttl = (Inr False, m)
          \<and> (\<forall>e'. lease g' h = Some e' \<longrightarrow> e' \<le> lock_clock h))
    \<and> release m g = (Inr True, m(g_resource g := None))
    \<and> refresh m now g ttl =
         (Inr True, m(g_resource g \<mapsto> \<lparr>h_token = g_token g, h_expires_at = now + ttl\<rparr>))"
proof -
  have held: "m (g_resource g) = Some \<lparr>h_token = g_token g, h_expires_at = e\<rparr>"
    using running_lease_held assms by simp
  have other: "release m g' = (Inr False, m) \<and> refresh m now g' ttl = (Inr False, m)
      \<and> (\<forall>e'. lease g' h = Some e' \<longrightarrow> e' \<le> lock_clock h)"
    if g': "g_resource g' = g_resource g" "g' \<noteq> g" for g'
  proof -
    have ne: "g_token g' \<noteq> g_token g" using g' by (simp add: guard_eq_iff)
    have "e' \<le> lock_clock h" if "lease g' h = Some e'" for e'
      using running_lease_held[OF assms(1) that] held g'(1) ne by (fastforce simp: not_less)
    then show ?thesis using ne held g' by (simp add: lock_defs)
  qed
  have "try_acquire m now token (g_resource g) ttl = (Inr None, m)"
    "release m g = (Inr True, m(g_resource g := None))"
    "refresh m now g ttl =
      (Inr True, m(g_resource g \<mapsto> \<lparr>h_token = g_token g, h_expires_at = now + ttl\<rparr>))"
    using held assms(4) by (simp_all add: lock_defs)
  then show ?thesis using other by blast
qed

text \<open>A pod that holds the lease of a resource for 50 of 100 units while a second one asks.\<close>

definition h_ex :: lock_history where
  "h_ex = [(20, Acquire ''t2'' ''leader'' 100, Inr (Acquired None)),
           (10, Acquire ''t1'' ''leader'' 100, Inr (Acquired (Some \<lparr>g_resource = ''leader'', g_token = ''t1''\<rparr>)))]"

lemma h_ex_reach: "lock_reach h_ex [''leader'' \<mapsto> \<lparr>h_token = ''t1'', h_expires_at = 110\<rparr>]"
  unfolding h_ex_def
  by (rule lock_reach.step[OF lock_reach.step[OF lock_reach.start]])
     (auto simp: drawn_def lock_clock_def try_acquire_def)

theorem lock_excludes_witness:
  "try_acquire [''leader'' \<mapsto> \<lparr>h_token = ''t1'', h_expires_at = 110\<rparr>] 50 ''t3'' ''leader'' 7
     = (Inr None, [''leader'' \<mapsto> \<lparr>h_token = ''t1'', h_expires_at = 110\<rparr>])"
  using lock_excludes[OF h_ex_reach, of "\<lparr>g_resource = ''leader'', g_token = ''t1''\<rparr>" 110 50 "''t3''" 7]
  by (simp add: h_ex_def lock_clock_def)

text \<open>After its lease is over, and before another pod takes the lock, the former holder still
  releases and refreshes it: the table drops nothing on expiry.\<close>

lemma lapsed_guard_revives:
  assumes "lock_reach h m" "m (g_resource g) = Some \<lparr>h_token = g_token g, h_expires_at = e\<rparr>" "e \<le> now"
  shows "refresh m now g ttl =
           (Inr True, m(g_resource g \<mapsto> \<lparr>h_token = g_token g, h_expires_at = now + ttl\<rparr>))"
    and "release m g = (Inr True, m(g_resource g := None))"
  using assms by (simp_all add: lock_defs)

end
