(* ===== verification/Bus_Registry.thy ===== *)
theory Bus_Registry
  imports Bus_Lock "HOL-Library.Word"
begin

text \<open>
  The announcement registry of the bus (\<open>catalerum-bus/src/registry.rs\<close>, in-process backend), and
  the dispatch claim of the channel listener (\<open>catalerum-api/src/channel_listener.rs\<close>), a client of
  the lock that knows it by its contract alone: the in-process lock keeps the contract, and so does the Valkey
  lock, over what Valkey documents of the command it sends.
\<close>

section \<open>Announcements\<close>

type_synonym bytes = "8 word list"

record announced =
  a_value :: bytes
  a_expires_at :: nat

type_synonym registry = "string \<rightharpoonup> announced"

definition announce :: "registry \<Rightarrow> nat \<Rightarrow> string \<Rightarrow> bytes \<Rightarrow> nat \<Rightarrow> registry" where
  "announce m now key val ttl = m(key \<mapsto> \<lparr>a_value = val, a_expires_at = now + ttl\<rparr>)"

definition lookup :: "registry \<Rightarrow> nat \<Rightarrow> string \<Rightarrow> bytes option bus_result \<times> registry" where
  "lookup m now key =
     (case m key of
        Some e \<Rightarrow> if a_expires_at e > now then (Inr (Some (a_value e)), m) else (Inr None, m(key := None))
      | None \<Rightarrow> (Inr None, m))"

definition withdraw :: "registry \<Rightarrow> string \<Rightarrow> registry" where
  "withdraw m key = m(key := None)"

datatype reg_op = Announce string bytes nat | Lookup string | Withdraw string

fun reg_step :: "registry \<Rightarrow> nat \<times> reg_op \<Rightarrow> registry" where
  "reg_step m (now, Announce key val ttl) = announce m now key val ttl"
| "reg_step m (now, Lookup key) = snd (lookup m now key)"
| "reg_step m (now, Withdraw key) = withdraw m key"

text \<open>The contract: the latest announcement of the key that no withdrawal follows, with the time it
  lapses. A lookup has no part in it.\<close>

fun announcement :: "(nat \<times> reg_op) list \<Rightarrow> string \<Rightarrow> (bytes \<times> nat) option" where
  "announcement [] k = None"
| "announcement ((now, p) # h) k =
     (case p of
        Announce key val ttl \<Rightarrow> if key = k then Some (val, now + ttl) else announcement h k
      | Lookup key \<Rightarrow> announcement h k
      | Withdraw key \<Rightarrow> if key = k then None else announcement h k)"

lemma registry_follows:
  assumes "sorted (map fst ops)" "\<forall>t\<in>fst ` set ops. t \<le> now"
  shows "case announcement (rev ops) k of
           None \<Rightarrow> foldl reg_step Map.empty ops k = None
         | Some (v, e) \<Rightarrow>
             foldl reg_step Map.empty ops k = Some \<lparr>a_value = v, a_expires_at = e\<rparr>
             \<or> foldl reg_step Map.empty ops k = None \<and> e \<le> now"
  using assms
proof (induction ops arbitrary: now rule: rev_induct)
  case (snoc x ops)
  obtain t p where x: "x = (t, p)" by (cases x)
  have "\<forall>u\<in>fst ` set ops. u \<le> t" and t: "t \<le> now"
    using snoc.prems x by (auto simp: sorted_append)
  then have IH: "case announcement (rev ops) k of
      None \<Rightarrow> foldl reg_step Map.empty ops k = None
    | Some (v, e) \<Rightarrow> foldl reg_step Map.empty ops k = Some \<lparr>a_value = v, a_expires_at = e\<rparr>
        \<or> foldl reg_step Map.empty ops k = None \<and> e \<le> t"
    using snoc by (simp add: sorted_append)
  show ?case
  proof (cases p)
    case (Announce key val ttl)
    then show ?thesis
      using IH x t by (auto simp: announce_def split: option.splits)
  next
    case (Lookup key)
    then show ?thesis
      using IH x t by (auto simp: lookup_def split: option.splits if_splits)
  next
    case (Withdraw key)
    then show ?thesis
      using IH x t by (auto simp: withdraw_def split: option.splits)
  qed
qed simp

text \<open>A lookup of the registry answers the latest announcement of its key that has neither been
  withdrawn nor lapsed, after any sequence of operations whose times do not run back: what lookups
  drop on the way was already lapsed.\<close>

theorem registry_lookup_exact:
  assumes "sorted (map fst ops)" "\<forall>t\<in>fst ` set ops. t \<le> now"
  shows "fst (lookup (foldl reg_step Map.empty ops) now k) =
    Inr (case announcement (rev ops) k of
           None \<Rightarrow> None
         | Some (v, e) \<Rightarrow> if now < e then Some v else None)"
  using registry_follows[OF assms, of k] by (auto simp: lookup_def split: option.splits prod.splits)

theorem registry_lookup_exact_witness:
  "fst (lookup (foldl reg_step Map.empty
      [(0, Announce ''pod'' [1] 10), (4, Announce ''pod'' [2] 30), (12, Lookup ''pod'')]) 20 ''pod'')
     = Inr (Some [2])"
  using registry_lookup_exact[of "[(0, Announce ''pod'' [1] 10), (4, Announce ''pod'' [2] 30), (12, Lookup ''pod'')]"
      20 "''pod''"]
  by simp

section \<open>The contract of the lock, and the dispatch claim\<close>

definition second :: nat where
  "second = 1000000000"

definition DISPATCH_CLAIM_TTL :: nat where
  "DISPATCH_CLAIM_TTL = 600 * second"

record in_message =
  m_sender :: string
  m_text :: string
  m_source :: string
  m_message_id :: "string option"

definition channel_msg_claim_key :: "string \<Rightarrow> string \<Rightarrow> string \<Rightarrow> string \<Rightarrow> string" where
  "channel_msg_claim_key workspace channel source message_id =
     ''channel-msg:'' @ workspace @ '':'' @ channel @ '':'' @ source @ '':'' @ message_id"

datatype dispatch_claim = Proceed | Skip

type_synonym 'l acquire = "'l \<Rightarrow> nat \<Rightarrow> string \<Rightarrow> string \<Rightarrow> nat \<Rightarrow> lock_guard option bus_result \<times> 'l"

definition claim_dispatch ::
  "'l acquire \<Rightarrow> 'l \<Rightarrow> nat \<Rightarrow> string \<Rightarrow> string \<Rightarrow> string \<Rightarrow> in_message \<Rightarrow> dispatch_claim \<times> 'l" where
  "claim_dispatch acquire l now token workspace channel msg =
     (case m_message_id msg of
        None \<Rightarrow> (Proceed, l)
      | Some message_id \<Rightarrow>
          let key = channel_msg_claim_key workspace channel (m_source msg) message_id
          in case acquire l now token key DISPATCH_CLAIM_TTL of
               (Inr (Some g), l') \<Rightarrow> (Proceed, l')
             | (Inr None, l') \<Rightarrow> (Skip, l')
             | (Inl e, l') \<Rightarrow> (Proceed, l'))"

text \<open>The pods' claims in the order their calls reach the lock: the time, the token drawn, the
  channel and the message.\<close>

type_synonym claim = "nat \<times> string \<times> string \<times> string \<times> in_message"

fun claim_key :: "claim \<Rightarrow> string option" where
  "claim_key (now, token, workspace, channel, msg) =
     map_option (channel_msg_claim_key workspace channel (m_source msg)) (m_message_id msg)"

fun run_claims :: "'l acquire \<Rightarrow> 'l \<Rightarrow> claim list \<Rightarrow> dispatch_claim list \<times> 'l" where
  "run_claims acquire l [] = ([], l)"
| "run_claims acquire l ((now, token, workspace, channel, msg) # cs) =
     (case claim_dispatch acquire l now token workspace channel msg of
        (d, l1) \<Rightarrow> (case run_claims acquire l1 cs of (ds, l2) \<Rightarrow> (d # ds, l2)))"

definition dispatched :: "claim list \<Rightarrow> dispatch_claim list \<Rightarrow> string option list" where
  "dispatched cs ds = map fst (filter (\<lambda>(k, d). d = Proceed) (zip (map claim_key cs) ds))"

text \<open>The keys of the claims whose call to the lock failed.\<close>

definition claim_failed :: "'l acquire \<Rightarrow> 'l \<Rightarrow> claim \<Rightarrow> bool" where
  "claim_failed acquire l c =
     (case c of (now, token, workspace, channel, msg) \<Rightarrow>
        (case claim_key c of
           None \<Rightarrow> False
         | Some key \<Rightarrow> (case fst (acquire l now token key DISPATCH_CLAIM_TTL) of Inl e \<Rightarrow> True | Inr v \<Rightarrow> False)))"

fun failures :: "'l acquire \<Rightarrow> 'l \<Rightarrow> claim list \<Rightarrow> string option list" where
  "failures acquire l [] = []"
| "failures acquire l (c # cs) =
     (case c of (now, token, workspace, channel, msg) \<Rightarrow>
        (if claim_failed acquire l c then [claim_key c] else [])
        @ failures acquire (snd (claim_dispatch acquire l now token workspace channel msg)) cs)"

definition times_dispatched :: "'l acquire \<Rightarrow> 'l \<Rightarrow> claim list \<Rightarrow> string \<Rightarrow> nat" where
  "times_dispatched acquire l cs k = count_list (dispatched cs (fst (run_claims acquire l cs))) (Some k)"

definition times_failed :: "'l acquire \<Rightarrow> 'l \<Rightarrow> claim list \<Rightarrow> string \<Rightarrow> nat" where
  "times_failed acquire l cs k = count_list (failures acquire l cs) (Some k)"

declare claim_key.simps [simp del]

text \<open>The contract of a lock: the end of each resource's lease. A lease lasts whole milliseconds. A call that
  fails may have taken the lease, when it was free.\<close>

definition whole_ms :: "nat \<Rightarrow> bool" where
  "whole_ms ttl \<longleftrightarrow> ttl mod 1000000 = 0"

locale lease_lock =
  fixes acquire :: "'l acquire"
    and ends :: "'l \<Rightarrow> string \<Rightarrow> nat"
  assumes refused: "whole_ms ttl \<Longrightarrow> acquire l now token r ttl = (Inr None, l') \<Longrightarrow> now < ends l r \<and> ends l' = ends l"
    and granted: "whole_ms ttl \<Longrightarrow> acquire l now token r ttl = (Inr (Some g), l') \<Longrightarrow>
        ends l r \<le> now \<and> ends l' = (ends l)(r := now + ttl)"
    and failed: "whole_ms ttl \<Longrightarrow> acquire l now token r ttl = (Inl e, l') \<Longrightarrow>
        ends l' = ends l \<or> ends l r \<le> now \<and> ends l' = (ends l)(r := now + ttl)"
begin

lemma claim_ttl: "whole_ms DISPATCH_CLAIM_TTL"
  by (simp add: whole_ms_def DISPATCH_CLAIM_TTL_def second_def)

lemma claim_cases:
  obtains (unidentified) "claim_key (now, tok, ws, ch, msg) = None"
      "claim_dispatch acquire l now tok ws ch msg = (Proceed, l)"
      "\<not> claim_failed acquire l (now, tok, ws, ch, msg)"
  | (won) k l' where "claim_key (now, tok, ws, ch, msg) = Some k" "ends l k \<le> now"
      "claim_dispatch acquire l now tok ws ch msg = (Proceed, l')"
      "ends l' = (ends l)(k := now + DISPATCH_CLAIM_TTL)" "\<not> claim_failed acquire l (now, tok, ws, ch, msg)"
  | (lost) k l' where "claim_key (now, tok, ws, ch, msg) = Some k" "now < ends l k"
      "claim_dispatch acquire l now tok ws ch msg = (Skip, l')"
      "ends l' = ends l" "\<not> claim_failed acquire l (now, tok, ws, ch, msg)"
  | (broken) k l' where "claim_key (now, tok, ws, ch, msg) = Some k"
      "claim_dispatch acquire l now tok ws ch msg = (Proceed, l')"
      "ends l' = ends l \<or> ends l k \<le> now \<and> ends l' = (ends l)(k := now + DISPATCH_CLAIM_TTL)"
      "claim_failed acquire l (now, tok, ws, ch, msg)"
proof (cases "m_message_id msg")
  case None
  then show thesis by (intro unidentified) (simp_all add: claim_dispatch_def claim_failed_def claim_key.simps)
next
  case (Some i)
  let ?k = "channel_msg_claim_key ws ch (m_source msg) i"
  obtain v l' where a: "acquire l now tok ?k DISPATCH_CLAIM_TTL = (v, l')" by (rule prod.exhaust)
  consider e where "v = Inl e" | "v = Inr None" | g where "v = Inr (Some g)"
    by (metis (full_types) option.exhaust sum.exhaust)
  then show thesis
  proof cases
    case 1
    then show thesis using failed[OF claim_ttl, of l now tok ?k _ l'] a Some
      by (intro broken[of ?k l']) (simp_all add: claim_dispatch_def claim_failed_def claim_key.simps)
  next
    case 2
    then show thesis using refused[OF claim_ttl, of l now tok ?k l'] a Some
      by (intro lost[of ?k l']) (simp_all add: claim_dispatch_def claim_failed_def claim_key.simps)
  next
    case (3 g)
    then show thesis using granted[OF claim_ttl, of l now tok ?k g l'] a Some
      by (intro won[of ?k l']) (simp_all add: claim_dispatch_def claim_failed_def claim_key.simps)
  qed
qed

lemma count_step:
  assumes "claim_dispatch acquire l now tok ws ch msg = (d, l')"
  shows "times_dispatched acquire l ((now, tok, ws, ch, msg) # cs) k
      = (if d = Proceed \<and> claim_key (now, tok, ws, ch, msg) = Some k then 1 else 0) + times_dispatched acquire l' cs k"
    "times_failed acquire l ((now, tok, ws, ch, msg) # cs) k
      = (if claim_failed acquire l (now, tok, ws, ch, msg) \<and> claim_key (now, tok, ws, ch, msg) = Some k then 1 else 0)
        + times_failed acquire l' cs k"
  using assms
  by (auto simp: times_dispatched_def times_failed_def dispatched_def split_beta)

lemma taken_never_dispatched:
  "\<forall>c\<in>set cs. fst c < ends l k \<Longrightarrow> times_dispatched acquire l cs k = times_failed acquire l cs k"
proof (induction cs arbitrary: l)
  case (Cons c cs)
  obtain now tok ws ch msg where c: "c = (now, tok, ws, ch, msg)" by (cases c)
  have later: "\<forall>c\<in>set cs. fst c < ends l k" and now: "now < ends l k" using Cons.prems c by auto
  show ?case
  proof (cases rule: claim_cases[of now tok ws ch msg l])
    case unidentified
    then show ?thesis using Cons.IH[OF later] count_step[OF unidentified(2)] c by simp
  next
    case (won k' l')
    then have "k' \<noteq> k" using now by auto
    then show ?thesis using Cons.IH[of l'] later won count_step[OF won(3)] c by simp
  next
    case (lost k' l')
    then show ?thesis using Cons.IH[of l'] later count_step[OF lost(3)] c by simp
  next
    case (broken k' l')
    have "ends l' k = ends l k" using broken(3) now by auto
    then show ?thesis using Cons.IH[of l'] later broken(1,4) count_step[OF broken(2)] c by simp
  qed
qed (simp add: times_dispatched_def times_failed_def dispatched_def)

lemma dispatched_once:
  assumes "\<forall>c\<in>set cs. t0 \<le> fst c \<and> fst c < t0 + DISPATCH_CLAIM_TTL" "ends l k \<le> t0"
  shows "if Some k \<in> claim_key ` set cs
    then 1 \<le> times_dispatched acquire l cs k \<and> times_dispatched acquire l cs k \<le> 1 + times_failed acquire l cs k
    else times_dispatched acquire l cs k = 0"
  using assms
proof (induction cs arbitrary: l)
  case (Cons c cs)
  obtain now tok ws ch msg where c: "c = (now, tok, ws, ch, msg)" by (cases c)
  have window: "\<forall>c\<in>set cs. t0 \<le> fst c \<and> fst c < t0 + DISPATCH_CLAIM_TTL" "t0 \<le> now"
    using Cons.prems(1) c by auto
  have key: "Some k \<in> claim_key ` set (c # cs) \<longleftrightarrow> claim_key (now, tok, ws, ch, msg) = Some k \<or> Some k \<in> claim_key ` set cs"
    unfolding c by auto
  have taken: "times_dispatched acquire l' cs k = times_failed acquire l' cs k" if "ends l' k = now + DISPATCH_CLAIM_TTL" for l'
  proof -
    have "fst c < ends l' k" if "c \<in> set cs" for c
      using bspec[OF window(1) that] window(2) \<open>ends l' k = now + DISPATCH_CLAIM_TTL\<close> by simp
    then show ?thesis using taken_never_dispatched[of cs l' k] by blast
  qed
  note step = count_step[of l now tok ws ch msg _ _ cs k, folded c]
  show ?case
  proof (cases rule: claim_cases[of now tok ws ch msg l])
    case unidentified
    then show ?thesis using Cons.IH[OF window(1) Cons.prems(2)] step[OF unidentified(2)] c unfolding key
      by (auto split: if_splits)
  next
    case (won k' l')
    show ?thesis
    proof (cases "k' = k")
      case True
      then show ?thesis using taken[of l'] won(1,4,5) step[OF won(3)] c unfolding key by simp
    next
      case False
      then have "ends l' k \<le> t0" using won(4) Cons.prems(2) by simp
      then show ?thesis using Cons.IH[OF window(1), of l'] False won(1,5) step[OF won(3)] c unfolding key
        by (auto split: if_splits)
    qed
  next
    case (lost k' l')
    then have "k' \<noteq> k" "ends l' k \<le> t0" using window(2) Cons.prems(2) by auto
    then show ?thesis using Cons.IH[OF window(1), of l'] lost(1,5) step[OF lost(3)] c unfolding key
      by (auto split: if_splits)
  next
    case (broken k' l')
    show ?thesis
    proof (cases "k' = k \<and> ends l' \<noteq> ends l")
      case True
      then show ?thesis using taken[of l'] broken(1,3,4) step[OF broken(2)] c unfolding key by auto
    next
      case False
      then have "ends l' k \<le> t0" using broken(3) Cons.prems(2) by auto
      then show ?thesis using Cons.IH[OF window(1), of l'] broken(1,4) step[OF broken(2)] c unfolding key
        by (auto split: if_splits)
    qed
  qed
qed (simp add: times_dispatched_def dispatched_def)

end

text \<open>The in-process lock keeps the contract.\<close>

definition lease_end :: "lock_table \<Rightarrow> string \<Rightarrow> nat" where
  "lease_end m r = (case m r of None \<Rightarrow> 0 | Some h \<Rightarrow> h_expires_at h)"

lemma lease_end_upd: "lease_end (m(r \<mapsto> h)) = (lease_end m)(r := h_expires_at h)"
  by (simp add: lease_end_def fun_eq_iff)

interpretation ipl: lease_lock try_acquire lease_end
proof
  fix l now token r ttl l' g
  assume "whole_ms ttl"
  note C = try_acquire_cases[of l r now token ttl]
  show "try_acquire l now token r ttl = (Inr None, l') \<Longrightarrow> now < lease_end l r \<and> lease_end l' = lease_end l"
    by (cases rule: C) (auto simp: lease_end_def)
  show "try_acquire l now token r ttl = (Inr (Some g), l') \<Longrightarrow>
      lease_end l r \<le> now \<and> lease_end l' = (lease_end l)(r := now + ttl)"
    by (cases rule: C)
       (auto simp: lease_end_upd lease_end_def split: option.splits simp del: fun_upd_apply
          dest: sym[of "l(_ := _)"])
  show "try_acquire l now token r ttl = (Inl e, l') \<Longrightarrow>
      lease_end l' = lease_end l \<or> lease_end l r \<le> now \<and> lease_end l' = (lease_end l)(r := now + ttl)" for e
    by (cases rule: C) auto
qed

lemma never_fails: "failures try_acquire m cs = []"
proof (induction try_acquire m cs rule: failures.induct)
  case (2 l c cs)
  have "\<exists>v. fst (try_acquire l now token r ttl) = Inr v" for now token r ttl
    using try_acquire_cases[of l r now token ttl] by (metis fst_conv)
  then have "\<not> claim_failed try_acquire l c"
    by (auto simp: claim_failed_def split: option.splits sum.splits) (metis Inl_Inr_False)
  then show ?case using 2 by (auto split: prod.splits)
qed simp

text \<open>So does Valkey's, where the command does what is documented of it.\<close>

definition key_ends :: "('v \<Rightarrow> string \<Rightarrow> nat) \<Rightarrow> 'v \<Rightarrow> string \<Rightarrow> nat" where
  "key_ends live v r = live v (lock_key r)"

lemma key_ends_cong: "live v' = live v \<Longrightarrow> key_ends live v' = key_ends live v"
  by (simp add: key_ends_def fun_eq_iff)

lemma key_ends_upd: "live v' = (live v)(lock_key r := e) \<Longrightarrow> key_ends live v' = (key_ends live v)(r := e)"
  by (auto simp: key_ends_def fun_eq_iff lock_key_def)

lemma redis_lease_lock:
  assumes "sets_nx set_nx live"
  shows "lease_lock (redis_try_acquire set_nx) (key_ends live)"
proof
  fix ttl l now token r l'
  assume ms: "whole_ms ttl"
  then have ttl: "ttl div 1000000 * 1000000 = ttl" by (simp add: whole_ms_def mod_eq_0_iff_dvd)
  obtain res v' where run: "set_nx l now (lock_key r) token (ttl div 1000000) = (res, v')" by (rule prod.exhaust)
  have law: "case (res, v') of
        (Inr None, v') \<Rightarrow> now < live l (lock_key r) \<and> live v' = live l
      | (Inr (Some answer), v') \<Rightarrow> live l (lock_key r) \<le> now \<and> live v' = (live l)(lock_key r := now + ttl)
      | (Inl e, v') \<Rightarrow> live v' = live l \<or> live l (lock_key r) \<le> now \<and> live v' = (live l)(lock_key r := now + ttl)"
    using assms[unfolded sets_nx_def, THEN spec, of l, THEN spec, of now, THEN spec, of "lock_key r", THEN spec, of token,
        THEN spec, of "ttl div 1000000"]
    unfolding run ttl .
  have lf: "redis_try_acquire set_nx l now token r ttl =
      (map_sum id (map_option (\<lambda>_. \<lparr>g_resource = r, g_token = token\<rparr>)) res, v')"
    by (simp add: redis_try_acquire_def run split: sum.splits option.splits)
  have free: "live l (lock_key r) \<le> now \<Longrightarrow> live v' = (live l)(lock_key r := now + ttl)
      \<Longrightarrow> key_ends live l r \<le> now \<and> key_ends live v' = (key_ends live l)(r := now + ttl)"
    using key_ends_upd[of live v' l r] by (simp add: key_ends_def[of live l r])
  show "redis_try_acquire set_nx l now token r ttl = (Inr None, l') \<Longrightarrow>
      now < key_ends live l r \<and> key_ends live l' = key_ends live l"
    using law key_ends_cong[of live v' l] unfolding lf
    by (cases res) (auto simp: key_ends_def[of live l r] split: option.splits)
  show "redis_try_acquire set_nx l now token r ttl = (Inr (Some g), l') \<Longrightarrow>
      key_ends live l r \<le> now \<and> key_ends live l' = (key_ends live l)(r := now + ttl)" for g
    using law free unfolding lf by (cases res) (simp_all split: option.splits)
  show "redis_try_acquire set_nx l now token r ttl = (Inl e, l') \<Longrightarrow>
      key_ends live l' = key_ends live l \<or> key_ends live l r \<le> now \<and> key_ends live l' = (key_ends live l)(r := now + ttl)" for e
    using law free key_ends_cong[of live v' l] unfolding lf by (cases res) (simp_all, blast)
qed

text \<open>C30: within the claim's life of ten minutes a channel message is dispatched once. Take the claims of any
  replicas in the order their calls reach the Valkey they share (retried deliveries, two leaders in the
  fencing window, other messages and channels in between), all in one window of the claim's time to live,
  with no earlier claim of the key running. If there is a claim of a message identity, at least one proceeds,
  and at most one more than there are claims of it whose call failed, so exactly one when none failed. With the
  in-process lock of a single process, exactly one does.\<close>

theorem message_dispatched_once:
  assumes "\<forall>c\<in>set cs. t0 \<le> fst c \<and> fst c < t0 + DISPATCH_CLAIM_TTL"
    and "sets_nx set_nx live" "live v (lock_key k) \<le> t0" "lease_end m k \<le> t0"
  shows "(let n = times_dispatched (redis_try_acquire set_nx) v cs k in
      if Some k \<in> claim_key ` set cs then 1 \<le> n \<and> n \<le> 1 + times_failed (redis_try_acquire set_nx) v cs k else n = 0)
    \<and> times_dispatched try_acquire m cs k = (if Some k \<in> claim_key ` set cs then 1 else 0)"
proof -
  have "key_ends live v k \<le> t0" using assms(3) by (simp add: key_ends_def)
  note shared = lease_lock.dispatched_once[OF redis_lease_lock[OF assms(2)] assms(1) this]
  have "times_failed try_acquire m cs k = 0" by (simp add: times_failed_def never_fails)
  then show ?thesis using shared ipl.dispatched_once[OF assms(1,4)] by (auto simp: Let_def split: if_splits)
qed

abbreviation hello :: in_message where
  "hello \<equiv> \<lparr>m_sender = ''@a'', m_text = ''hi'', m_source = ''42'', m_message_id = Some ''7''\<rparr>"

text \<open>A server that keeps the times its keys lapse, and whose answer to one token is lost after it set the key:
  the first of three claims fails and proceeds, and the others skip.\<close>

definition sample_set_nx :: "(string \<Rightarrow> nat) set_nx" where
  "sample_set_nx v now k x ms =
     (if now < v k then (Inr None, v)
      else (if x = ''lost'' then Inl (Redis ''timed out'') else Inr (Some ''OK''), v(k := now + ms * 1000000)))"

lemma sample_sets_nx: "sets_nx sample_set_nx id"
  by (auto simp: sets_nx_def sample_set_nx_def)

theorem message_dispatched_once_witness:
  "(let cs = [(5, ''lost'', ''w'', ''tg'', hello), (9, ''t2'', ''w'', ''tg'', hello), (12, ''t3'', ''w'', ''tg'', hello)];
      n = times_dispatched (redis_try_acquire sample_set_nx) (\<lambda>_. 0) cs ''channel-msg:w:tg:42:7''
    in 1 \<le> n \<and> n \<le> 1 + times_failed (redis_try_acquire sample_set_nx) (\<lambda>_. 0) cs ''channel-msg:w:tg:42:7''
      \<and> times_dispatched try_acquire Map.empty cs ''channel-msg:w:tg:42:7'' = 1)"
  using message_dispatched_once[of "[(5, ''lost'', ''w'', ''tg'', hello), (9, ''t2'', ''w'', ''tg'', hello),
      (12, ''t3'', ''w'', ''tg'', hello)]" 0 sample_set_nx id "\<lambda>_. 0" "''channel-msg:w:tg:42:7''" Map.empty, OF _ sample_sets_nx]
  by (simp add: DISPATCH_CLAIM_TTL_def second_def lease_end_def channel_msg_claim_key_def claim_key.simps Let_def)

end
