(* ===== verification/Bus_Queue.thy ===== *)
theory Bus_Queue
  imports Bus_Registry Rust_Num
begin

text \<open>
  The work queue of the bus, in-process backend (\<open>catalerum-bus/src/queue.rs\<close>): per stream a
  sequence counter, the ready items in order, and the items delivered and not yet acknowledged.
  The counter is a \<open>u64\<close> counting pushes, kept here as a number without the width.
\<close>

record work_item =
  i_id :: string
  i_payload :: bytes

record stream_state =
  s_seq :: nat
  s_ready :: "work_item list"
  s_pending :: "string \<rightharpoonup> work_item"

definition fresh_stream :: stream_state where
  "fresh_stream = \<lparr>s_seq = 0, s_ready = [], s_pending = Map.empty\<rparr>"

type_synonym queue = "string \<rightharpoonup> stream_state"

definition entry :: "queue \<Rightarrow> string \<Rightarrow> stream_state" where
  "entry q stream = (case q stream of Some st \<Rightarrow> st | None \<Rightarrow> fresh_stream)"

definition stream_id :: "nat \<Rightarrow> string" where
  "stream_id n = show_nat n @ ''-0''"

definition ensure_group :: "queue \<Rightarrow> string \<Rightarrow> string \<Rightarrow> queue" where
  "ensure_group q stream grp = q(stream \<mapsto> entry q stream)"

definition push :: "queue \<Rightarrow> string \<Rightarrow> bytes \<Rightarrow> string bus_result \<times> queue" where
  "push q stream payload =
     (let st = entry q stream; n = s_seq st + 1; i = stream_id n
      in (Inr i, q(stream \<mapsto> st\<lparr>s_seq := n, s_ready := s_ready st @ [\<lparr>i_id = i, i_payload = payload\<rparr>]\<rparr>)))"

text \<open>The loop of \<open>pull\<close>: one \<open>pop_front\<close> and one insertion into the pending map per round.\<close>

fun pop_items :: "nat \<Rightarrow> stream_state \<Rightarrow> work_item list \<times> stream_state" where
  "pop_items 0 st = ([], st)"
| "pop_items (Suc n) st =
     (case s_ready st of
        [] \<Rightarrow> pop_items n st
      | x # xs \<Rightarrow>
          (case pop_items n (st\<lparr>s_ready := xs, s_pending := (s_pending st)(i_id x \<mapsto> x)\<rparr>) of
             (out, st') \<Rightarrow> (x # out, st')))"

definition pull :: "queue \<Rightarrow> string \<Rightarrow> string \<Rightarrow> string \<Rightarrow> nat \<Rightarrow> nat \<Rightarrow> work_item list bus_result \<times> queue" where
  "pull q stream grp consumer count block_ms =
     (let st = entry q stream; n = min (max count 1) (length (s_ready st))
      in case pop_items n st of (out, st') \<Rightarrow> (Inr out, q(stream \<mapsto> st')))"

definition ack :: "queue \<Rightarrow> string \<Rightarrow> string \<Rightarrow> string \<Rightarrow> nat bus_result \<times> queue" where
  "ack q stream grp i =
     (let st = entry q stream
      in (Inr (if s_pending st i = None then 0 else 1),
          q(stream \<mapsto> st\<lparr>s_pending := (s_pending st)(i := None)\<rparr>)))"

section \<open>Histories\<close>

datatype queue_op =
    EnsureGroup string string
  | Push string bytes
  | Pull string string string nat nat
  | Ack string string string

datatype queue_out = Quiet | Pushed string | Pulled "work_item list" | Acked nat

fun queue_step :: "queue \<Rightarrow> queue_op \<Rightarrow> queue_out bus_result \<times> queue" where
  "queue_step q (EnsureGroup s g) = (Inr Quiet, ensure_group q s g)"
| "queue_step q (Push s p) = (case push q s p of (v, q') \<Rightarrow> (map_sum id Pushed v, q'))"
| "queue_step q (Pull s g c n b) = (case pull q s g c n b of (v, q') \<Rightarrow> (map_sum id Pulled v, q'))"
| "queue_step q (Ack s g i) = (case ack q s g i of (v, q') \<Rightarrow> (map_sum id Acked v, q'))"

type_synonym queue_history = "(queue_op \<times> queue_out bus_result) list"

inductive queue_reach :: "queue_history \<Rightarrow> queue \<Rightarrow> bool" where
  start: "queue_reach [] Map.empty"
| step: "queue_reach h q \<Longrightarrow> queue_step q p = (v, q') \<Longrightarrow> queue_reach ((p, v) # h) q'"

text \<open>What a history (latest operation first) shows of one stream: the items pushed, in order, the
  items delivered, in order, and the ids acknowledged with answer one.\<close>

fun pushed :: "queue_history \<Rightarrow> string \<Rightarrow> work_item list" where
  "pushed [] s = []"
| "pushed ((Push s' p, Inr (Pushed i)) # h) s =
     pushed h s @ (if s' = s then [\<lparr>i_id = i, i_payload = p\<rparr>] else [])"
| "pushed (_ # h) s = pushed h s"

fun pulled :: "queue_history \<Rightarrow> string \<Rightarrow> work_item list" where
  "pulled [] s = []"
| "pulled ((Pull s' g c n b, Inr (Pulled xs)) # h) s = pulled h s @ (if s' = s then xs else [])"
| "pulled (_ # h) s = pulled h s"

fun acked :: "queue_history \<Rightarrow> string \<Rightarrow> string set" where
  "acked [] s = {}"
| "acked ((Ack s' g i, Inr (Acked n)) # h) s = (if s' = s \<and> n = 1 then insert i (acked h s) else acked h s)"
| "acked (_ # h) s = acked h s"

lemma show_nat_inject [simp]: "show_nat m = show_nat n \<longleftrightarrow> m = n"
  unfolding show_nat_def by (metis digits_val_show_uint of_nat_0_le_iff of_nat_eq_iff)

lemma stream_id_inject [simp]: "stream_id m = stream_id n \<longleftrightarrow> m = n"
  by (simp add: stream_id_def)

definition issued :: "nat \<Rightarrow> string list" where
  "issued n = map stream_id [1..<n + 1]"

lemma issued_simps [simp]:
  "issued 0 = []" "issued (Suc n) = issued n @ [stream_id (Suc n)]"
  "distinct (issued n)"
  by (simp_all add: issued_def distinct_map inj_on_def)

lemma pop_items_eq:
  "n \<le> length (s_ready st) \<Longrightarrow> pop_items n st =
     (take n (s_ready st),
      st\<lparr>s_ready := drop n (s_ready st),
         s_pending := foldl (\<lambda>m x. m(i_id x \<mapsto> x)) (s_pending st) (take n (s_ready st))\<rparr>)"
  by (induction n st rule: pop_items.induct) (auto split: list.splits)

lemma entry_upd [simp]: "entry (q(s \<mapsto> st)) s' = (if s' = s then st else entry q s')"
  by (simp add: entry_def)

lemma pending_insert:
  "dom (foldl (\<lambda>m x. m(i_id x \<mapsto> x)) m xs) = dom m \<union> i_id ` set xs"
  by (induction xs arbitrary: m) auto

text \<open>The state of a stream against its history.\<close>

definition queue_at :: "queue_history \<Rightarrow> queue \<Rightarrow> string \<Rightarrow> bool" where
  "queue_at h q s \<longleftrightarrow>
     pushed h s = pulled h s @ s_ready (entry q s)
     \<and> map i_id (pushed h s) = issued (s_seq (entry q s))
     \<and> dom (s_pending (entry q s)) = i_id ` set (pulled h s) - acked h s
     \<and> acked h s \<subseteq> i_id ` set (pulled h s)"

definition queue_inv :: "queue_history \<Rightarrow> queue \<Rightarrow> bool" where
  "queue_inv h q \<longleftrightarrow> (\<forall>s. queue_at h q s)"

lemma queue_invI: "(\<And>s. queue_at h q s) \<Longrightarrow> queue_inv h q"
  by (simp add: queue_inv_def)

lemma queue_invD:
  assumes "queue_inv h q"
  shows "pushed h s = pulled h s @ s_ready (entry q s)"
    "map i_id (pushed h s) = issued (s_seq (entry q s))"
    "dom (s_pending (entry q s)) = i_id ` set (pulled h s) - acked h s"
    "acked h s \<subseteq> i_id ` set (pulled h s)"
  using assms unfolding queue_inv_def queue_at_def by blast+

lemma queue_inv_push:
  assumes inv: "queue_inv h q"
  shows "queue_inv ((Push s p, map_sum id Pushed (fst (push q s p))) # h) (snd (push q s p))"
proof (rule queue_invI)
  fix s'
  show "queue_at ((Push s p, map_sum id Pushed (fst (push q s p))) # h) (snd (push q s p)) s'"
    using queue_invD[OF inv, of s'] by (auto simp: queue_at_def push_def Let_def)
qed

lemma pushed_distinct: "queue_inv h q \<Longrightarrow> distinct (map i_id (pushed h s))"
  using queue_invD(2)[of h q s] by simp

lemma queue_inv_pull:
  assumes inv: "queue_inv h q"
  shows "queue_inv ((Pull s g c n b, map_sum id Pulled (fst (pull q s g c n b))) # h)
    (snd (pull q s g c n b))"
proof -
  define k where "k = min (max n 1) (length (s_ready (entry q s)))"
  let ?st = "entry q s"
  have pull: "pull q s g c n b = (Inr (take k (s_ready ?st)), q(s \<mapsto> ?st\<lparr>s_ready := drop k (s_ready ?st),
      s_pending := foldl (\<lambda>m x. m(i_id x \<mapsto> x)) (s_pending ?st) (take k (s_ready ?st))\<rparr>))"
    unfolding pull_def Let_def k_def[symmetric] by (subst pop_items_eq) (simp_all add: k_def)
  have "i_id ` set (take k (s_ready ?st)) \<inter> i_id ` set (pulled h s) = {}"
    using pushed_distinct[OF inv, of s] queue_invD(1)[OF inv, of s] set_take_subset[of k "s_ready ?st"]
    by (auto simp: image_def)
  then have "i_id ` set (take k (s_ready ?st)) \<inter> acked h s = {}"
    using queue_invD(4)[OF inv, of s] by blast
  then have "queue_at ((Pull s g c n b, map_sum id Pulled (fst (pull q s g c n b))) # h)
      (snd (pull q s g c n b)) s'" for s'
    using queue_invD[OF inv, of s'] unfolding pull queue_at_def
    by (auto simp: pending_insert image_Un)
  then show ?thesis by (rule queue_invI)
qed

lemma queue_inv_ack:
  assumes inv: "queue_inv h q"
  shows "queue_inv ((Ack s g i, map_sum id Acked (fst (ack q s g i))) # h) (snd (ack q s g i))"
proof (rule queue_invI)
  fix s'
  have "i \<in> i_id ` set (pulled h s) - acked h s \<longleftrightarrow> s_pending (entry q s) i \<noteq> None"
    using queue_invD(3)[OF inv, of s] by blast
  then show "queue_at ((Ack s g i, map_sum id Acked (fst (ack q s g i))) # h) (snd (ack q s g i)) s'"
    using queue_invD[OF inv, of s'] by (auto simp: queue_at_def ack_def Let_def)
qed

lemma queue_inv_reach: "queue_reach h q \<Longrightarrow> queue_inv h q"
proof (induction rule: queue_reach.induct)
  case start
  show ?case by (simp add: queue_inv_def queue_at_def entry_def fresh_stream_def)
next
  case (step h q p v q')
  show ?case
  proof (cases p)
    case (EnsureGroup s g)
    then have "v = Inr Quiet" "\<And>s'. entry q' s' = entry q s'"
      using step.hyps(2) by (auto simp: ensure_group_def)
    then have "queue_at ((p, v) # h) q' s' = queue_at h q s'" for s'
      using EnsureGroup unfolding queue_at_def by simp
    then show ?thesis using step.IH by (simp add: queue_inv_def)
  next
    case (Push s b)
    then show ?thesis using step queue_inv_push[OF step.IH, of s b] by (auto split: prod.splits)
  next
    case (Pull s g c n b)
    then show ?thesis using step queue_inv_pull[OF step.IH, of s g c n b] by (auto split: prod.splits)
  next
    case (Ack s g i)
    then show ?thesis using step queue_inv_ack[OF step.IH, of s g i] by (auto split: prod.splits)
  qed
qed

section \<open>The contract\<close>

text \<open>C29: each stream of the in-process queue is first-in first-out with one delivery. After any
  sequence of calls by any producers and consumers, what the pulls of a stream returned, in order,
  followed by what is still ready is exactly what the pushes of that stream put in, in order; the
  ids are distinct; and an acknowledgement answers one exactly for an item that was delivered and
  not acknowledged before. So nothing is lost or reordered, and an item once delivered is never
  delivered again, acknowledged or not.\<close>

theorem queue_fifo_once:
  assumes "queue_reach h q"
  shows "pushed h s = pulled h s @ s_ready (entry q s)
    \<and> distinct (map i_id (pushed h s))
    \<and> fst (ack q s g i) = Inr (if i \<in> i_id ` set (pulled h s) - acked h s then 1 else 0)"
proof -
  note inv = queue_inv_reach[OF assms]
  have "(s_pending (entry q s) i = None) = (i \<notin> i_id ` set (pulled h s) - acked h s)"
    using queue_invD(3)[OF inv, of s] by blast
  then show ?thesis
    using queue_invD(1)[OF inv] pushed_distinct[OF inv] by (simp add: ack_def Let_def)
qed

definition q_ex :: queue where
  "q_ex = [''jobs'' \<mapsto> \<lparr>s_seq = 1, s_ready = [], s_pending = [''1-0'' \<mapsto> \<lparr>i_id = ''1-0'', i_payload = [7]\<rparr>]\<rparr>]"

lemma stream_id_1: "stream_id 1 = ''1-0''"
  by (simp add: stream_id_def show_nat_def show_uint.simps char_of_def bit_Suc_0_iff)

lemma q_ex_reach:
  "queue_reach [(Pull ''jobs'' ''g'' ''c'' 10 0, Inr (Pulled [\<lparr>i_id = ''1-0'', i_payload = [7]\<rparr>])),
                (Push ''jobs'' [7], Inr (Pushed ''1-0''))] q_ex"
proof (rule queue_reach.step[OF queue_reach.step[OF queue_reach.start]])
  show "queue_step Map.empty (Push ''jobs'' [7]) = (Inr (Pushed ''1-0''),
      [''jobs'' \<mapsto> \<lparr>s_seq = 1, s_ready = [\<lparr>i_id = ''1-0'', i_payload = [7]\<rparr>], s_pending = Map.empty\<rparr>])"
    using stream_id_1 by (simp add: push_def entry_def fresh_stream_def Let_def)
qed (simp add: pull_def Let_def entry_def q_ex_def numeral_2_eq_2)

theorem queue_fifo_once_witness:
  "fst (ack q_ex ''jobs'' ''g'' ''1-0'') = Inr 1"
  using queue_fifo_once[OF q_ex_reach, of "''jobs''" "''g''" "''1-0''"] by simp

end
