(* ===== verification/Bus_Turn.thy ===== *)
theory Bus_Turn
  imports Bus_Queue
begin

text \<open>
  The replayable frame buffer of a chat turn, in-process backend
  (\<open>catalerum-bus/src/turnbuf.rs\<close>): one log per turn, one id counter over all turns, a sweep of
  idle logs on every append, and reads from a cursor the client keeps. A log is shared (an \<open>Arc\<close>), so an
  append goes on with the one it found when the turn's entry is dropped; logs are kept by address. The body
  of \<open>append\<close> runs in the four parts between which other tasks can run. The counter is a \<open>u64\<close>
  counting appends, kept here as a number without the width.
\<close>

section \<open>State and operations\<close>

record turn_id =
  conversation_id :: string
  message_id :: string

record turn_entry =
  e_id :: string
  e_payload :: bytes

record buf_state =
  b_entries :: "(nat \<times> bytes) list"
  b_last_append :: nat

record turn_buffer =
  tb_turns :: "turn_id \<rightharpoonup> nat"
  tb_bufs :: "buf_state list"
  tb_seq :: nat

definition TURN_BUFFER_MAXLEN :: nat where
  "TURN_BUFFER_MAXLEN = 10000"

definition TURN_BUFFER_TTL :: nat where
  "TURN_BUFFER_TTL = 300 * second"

definition parse_u64 :: "string \<Rightarrow> nat option" where
  "parse_u64 s =
     (let ds = (case s of CHR ''+'' # r \<Rightarrow> r | _ \<Rightarrow> s)
      in if ds \<noteq> [] \<and> list_all is_ascii_digit ds \<and> digits_val ds < 2 ^ 64
         then Some (nat (digits_val ds)) else None)"

definition seq_of :: "string \<Rightarrow> nat" where
  "seq_of i = (case parse_u64 (hd (split_on (CHR ''-'') i)) of Some n \<Rightarrow> n | None \<Rightarrow> 0)"

definition empty_buffer :: turn_buffer where
  "empty_buffer = \<lparr>tb_turns = Map.empty, tb_bufs = [], tb_seq = 0\<rparr>"

definition buf :: "turn_buffer \<Rightarrow> turn_id \<Rightarrow> nat \<Rightarrow> nat \<times> turn_buffer" where
  "buf s t now =
     (case tb_turns s t of
        Some a \<Rightarrow> (a, s)
      | None \<Rightarrow>
          let a = length (tb_bufs s)
          in (a, s\<lparr>tb_turns := (tb_turns s)(t \<mapsto> a),
                   tb_bufs := tb_bufs s @ [\<lparr>b_entries = [], b_last_append = now\<rparr>]\<rparr>))"

definition sweep_expired :: "turn_buffer \<Rightarrow> nat \<Rightarrow> nat \<Rightarrow> turn_buffer" where
  "sweep_expired s now ttl =
     s\<lparr>tb_turns := (\<lambda>t. case tb_turns s t of
                          None \<Rightarrow> None
                        | Some a \<Rightarrow> if now - b_last_append (tb_bufs s ! a) \<le> ttl then Some a else None)\<rparr>"

text \<open>The other parts of \<open>append\<close>: draw the id, store under the log's lock and trim.\<close>

definition fetch_add :: "turn_buffer \<Rightarrow> nat \<times> turn_buffer" where
  "fetch_add s = (tb_seq s + 1, s\<lparr>tb_seq := tb_seq s + 1\<rparr>)"

definition trim_log :: "(nat \<times> bytes) list \<Rightarrow> (nat \<times> bytes) list" where
  "trim_log es = (if length es > TURN_BUFFER_MAXLEN then drop (length es - TURN_BUFFER_MAXLEN) es else es)"

definition store_frame :: "turn_buffer \<Rightarrow> nat \<Rightarrow> nat \<Rightarrow> nat \<Rightarrow> bytes \<Rightarrow> turn_buffer" where
  "store_frame s a now n payload =
     s\<lparr>tb_bufs := (tb_bufs s)[a := \<lparr>b_entries = trim_log (b_entries (tb_bufs s ! a) @ [(n, payload)]),
                                  b_last_append = now\<rparr>]\<rparr>"

definition append_frame :: "turn_buffer \<Rightarrow> turn_id \<Rightarrow> nat \<Rightarrow> bytes \<Rightarrow> string bus_result \<times> turn_buffer" where
  "append_frame s t now payload =
     (case buf (sweep_expired s now TURN_BUFFER_TTL) t now of
        (a, s1) \<Rightarrow> (case fetch_add s1 of (n, s2) \<Rightarrow> (Inr (stream_id n), store_frame s2 a now n payload)))"

definition after_cursor :: "nat \<Rightarrow> (nat \<times> bytes) list \<Rightarrow> turn_entry list" where
  "after_cursor n es =
     map (\<lambda>(k, p). \<lparr>e_id = stream_id k, e_payload = p\<rparr>) (filter (\<lambda>(k, p). n < k) es)"

text \<open>A blocking read looks at the log it holds each time it wakes (\<open>wakes\<close>: what it finds there, in
  order, until its deadline) and returns the first frames it finds.\<close>

fun read_loop :: "nat \<Rightarrow> (nat \<times> bytes) list list \<Rightarrow> turn_entry list" where
  "read_loop n [] = []"
| "read_loop n (es # wakes) =
     (let out = after_cursor n es in if out \<noteq> [] then out else read_loop n wakes)"

definition read_frames ::
  "turn_buffer \<Rightarrow> turn_id \<Rightarrow> nat \<Rightarrow> string \<Rightarrow> (nat \<times> bytes) list list \<Rightarrow> turn_entry list bus_result \<times> turn_buffer" where
  "read_frames s t now after wakes =
     (case buf s t now of
        (a, s') \<Rightarrow> (Inr (read_loop (seq_of after) (b_entries (tb_bufs s' ! a) # wakes)), s'))"

definition reset_turn :: "turn_buffer \<Rightarrow> turn_id \<Rightarrow> turn_buffer" where
  "reset_turn s t = s\<lparr>tb_turns := (tb_turns s)(t := None)\<rparr>"

section \<open>Interleaved calls\<close>

text \<open>The parts of the calls of all tasks in any order, with one restriction: an append to a turn starts when
  no other append to that turn is under way, as with one writer per turn. \<open>ts_flight\<close> has the log an append
  under way found, and the id it drew. Reading is one part.\<close>

datatype turn_op = Sweep | Find turn_id | Draw turn_id | Store turn_id bytes | Read turn_id string | Reset turn_id

record turn_sys =
  ts_buffer :: turn_buffer
  ts_flight :: "turn_id \<rightharpoonup> nat \<times> nat option"

fun turn_step :: "turn_sys \<Rightarrow> nat \<times> turn_op \<Rightarrow> turn_sys option" where
  "turn_step s (now, Sweep) = Some (s\<lparr>ts_buffer := sweep_expired (ts_buffer s) now TURN_BUFFER_TTL\<rparr>)"
| "turn_step s (now, Find t) =
     (if ts_flight s t \<noteq> None then None
      else case buf (ts_buffer s) t now of
        (a, b) \<Rightarrow> Some \<lparr>ts_buffer = b, ts_flight = (ts_flight s)(t \<mapsto> (a, None))\<rparr>)"
| "turn_step s (now, Draw t) =
     (case ts_flight s t of
        Some (a, None) \<Rightarrow>
          (case fetch_add (ts_buffer s) of
             (n, b) \<Rightarrow> Some \<lparr>ts_buffer = b, ts_flight = (ts_flight s)(t \<mapsto> (a, Some n))\<rparr>)
      | _ \<Rightarrow> None)"
| "turn_step s (now, Store t p) =
     (case ts_flight s t of
        Some (a, Some n) \<Rightarrow>
          Some \<lparr>ts_buffer = store_frame (ts_buffer s) a now n p, ts_flight = (ts_flight s)(t := None)\<rparr>
      | _ \<Rightarrow> None)"
| "turn_step s (now, Read t after) = Some (s\<lparr>ts_buffer := snd (read_frames (ts_buffer s) t now after [])\<rparr>)"
| "turn_step s (now, Reset t) = Some (s\<lparr>ts_buffer := reset_turn (ts_buffer s) t\<rparr>)"

text \<open>A history has the latest part first.\<close>

fun turn_run :: "(nat \<times> turn_op) list \<Rightarrow> turn_sys option" where
  "turn_run [] = Some \<lparr>ts_buffer = empty_buffer, ts_flight = Map.empty\<rparr>"
| "turn_run (x # h) = (case turn_run h of None \<Rightarrow> None | Some s \<Rightarrow> turn_step s x)"

text \<open>A whole call runs the four parts in a row.\<close>

lemma append_in_parts:
  assumes "turn_run h = Some s" "ts_flight s t = None"
  shows "turn_run ((now, Store t p) # (now, Draw t) # (now, Find t) # (now, Sweep) # h)
    = Some (s\<lparr>ts_buffer := snd (append_frame (ts_buffer s) t now p)\<rparr>)"
  using assms by (cases s) (auto simp: append_frame_def fetch_add_def split: prod.splits)

text \<open>The contract, turn by turn and without addresses: when the turn's log was last stored to (or made) and
  all its frames, none trimmed, if the turn has a log; and for an append under way, whether the log it found is
  still the turn's, and the id it drew. The frame of an append whose log was dropped meanwhile, by a reset or
  as idle, is in no log.\<close>

fun draws :: "(nat \<times> turn_op) list \<Rightarrow> nat" where
  "draws [] = 0"
| "draws ((now, p) # h) = (case p of Draw t \<Rightarrow> draws h + 1 | _ \<Rightarrow> draws h)"

fun turn_spec ::
  "(nat \<times> turn_op) list \<Rightarrow> turn_id \<Rightarrow> (nat \<times> (nat \<times> bytes) list) option \<times> (bool \<times> nat option) option" where
  "turn_spec [] t = (None, None)"
| "turn_spec ((now, x) # h) t =
     (case turn_spec h t of
        (l, f) \<Rightarrow>
          (let lost = map_option (\<lambda>(held, n). (False, n)) f in
           case x of
             Sweep \<Rightarrow>
               (case l of
                  Some (u, es) \<Rightarrow> if now - u \<le> TURN_BUFFER_TTL then (l, f) else (None, lost)
                | None \<Rightarrow> (l, f))
           | Find t' \<Rightarrow>
               if t' = t then (Some (case l of Some x \<Rightarrow> x | None \<Rightarrow> (now, [])), Some (True, None)) else (l, f)
           | Draw t' \<Rightarrow>
               if t' = t then (l, map_option (\<lambda>(held, n). (held, Some (draws h + 1))) f) else (l, f)
           | Store t' p \<Rightarrow>
               if t' = t
               then (case f of
                       Some (True, Some n) \<Rightarrow> (map_option (\<lambda>(u, es). (now, es @ [(n, p)])) l, None)
                     | _ \<Rightarrow> (l, None))
               else (l, f)
           | Read t' after \<Rightarrow> if t' = t \<and> l = None then (Some (now, []), f) else (l, f)
           | Reset t' \<Rightarrow> if t' = t then (None, lost) else (l, f)))"

definition turn_log :: "(nat \<times> turn_op) list \<Rightarrow> turn_id \<Rightarrow> (nat \<times> bytes) list" where
  "turn_log h t = (case fst (turn_spec h t) of Some (u, es) \<Rightarrow> es | None \<Rightarrow> [])"

definition last_n :: "nat \<Rightarrow> 'a list \<Rightarrow> 'a list" where
  "last_n k xs = drop (length xs - k) xs"



lemma last_n_Nil [simp]: "last_n k [] = []"
  by (simp add: last_n_def)

lemma last_n_all: "length xs \<le> k \<Longrightarrow> last_n k xs = xs"
  by (simp add: last_n_def)





















section \<open>Cursors\<close>

lemma show_nat_digits: "show_nat n \<noteq> [] \<and> list_all is_ascii_digit (show_nat n)"
  unfolding show_nat_def by (rule show_uint_digits) simp

lemma split_on_stream_id: "hd (split_on (CHR ''-'') (stream_id n)) = show_nat n"
proof -
  have "hd (split_on c (xs @ c # ys)) = xs" if "c \<notin> set xs" for c and xs ys :: string
    using that by (induction xs) (auto split: list.splits)
  moreover have "CHR ''-'' \<notin> set (show_nat n)"
    using show_nat_digits[of n] by (auto simp: list_all_iff is_ascii_digit_def)
  ultimately show ?thesis by (simp add: stream_id_def)
qed

lemma parse_u64_show: "n < 2 ^ 64 \<Longrightarrow> parse_u64 (show_nat n) = Some n"
proof -
  assume n: "n < 2 ^ 64"
  obtain d ds where d: "show_nat n = d # ds" "is_ascii_digit d" "list_all is_ascii_digit ds"
    using show_nat_digits[of n] by (cases "show_nat n") auto
  then have "d \<noteq> CHR ''+''" by (auto simp: is_ascii_digit_def)
  then have "(case show_nat n of CHR ''+'' # r \<Rightarrow> r | _ \<Rightarrow> show_nat n) = show_nat n"
    using d(1) by (auto split: list.splits char.splits bool.splits)
  moreover have "digits_val (show_nat n) = int n" by (simp add: show_nat_def)
  moreover have "int n < 2 ^ 64" using n by (simp only: of_nat_less_numeral_power_cancel_iff)
  ultimately show ?thesis using show_nat_digits[of n] by (simp add: parse_u64_def Let_def)
qed

lemma seq_of_stream_id [simp]: "n < 2 ^ 64 \<Longrightarrow> seq_of (stream_id n) = n"
  by (simp add: seq_of_def split_on_stream_id parse_u64_show)

lemma seq_of_0: "seq_of ''0'' = 0"
  by (simp add: seq_of_def parse_u64_def is_ascii_digit_def digits_val_def digit_val_def)





text \<open>A whole call adds its frame to the turn's log.\<close>

lemma append_logged:
  "turn_log ((now, Store t p) # (now, Draw t) # (now, Find t) # (now, Sweep) # h) t
     = turn_log ((now, Sweep) # h) t @ [(draws h + 1, p)]"
  by (auto simp: turn_log_def Let_def split: prod.splits option.splits if_splits)






text \<open>The id is drawn before the log is locked, so two appends to one turn that overlap can be
  stored against the order of their ids. A reader that looks in between goes on from the larger
  id and never sees the frame stored after it.\<close>

lemma overlapping_appends_skip:
  fixes t :: turn_id and p1 p2 :: bytes
  defines "s0 \<equiv> snd (buf (sweep_expired empty_buffer 0 TURN_BUFFER_TTL) t 0)"
  defines "s2 \<equiv> snd (fetch_add (snd (fetch_add s0)))"
  defines "s3 \<equiv> store_frame s2 0 0 2 p2"
  defines "s4 \<equiv> store_frame s3 0 0 1 p1"
  shows "fst (buf (sweep_expired s0 0 TURN_BUFFER_TTL) t 0) = 0"
    and "fst (fetch_add s0) = 1" "fst (fetch_add (snd (fetch_add s0))) = 2"
    and "fst (read_frames s3 t 0 ''0'' []) = Inr [\<lparr>e_id = stream_id 2, e_payload = p2\<rparr>]"
    and "fst (read_frames s4 t 0 (stream_id 2) []) = Inr []"
    and "b_entries (tb_bufs s4 ! 0) = [(2, p2), (1, p1)]"
proof -
  have s0: "s0 = \<lparr>tb_turns = [t \<mapsto> 0], tb_bufs = [\<lparr>b_entries = [], b_last_append = 0\<rparr>], tb_seq = 0\<rparr>"
    by (auto simp: s0_def buf_def sweep_expired_def empty_buffer_def Let_def fun_eq_iff)
  have s3: "s3 = \<lparr>tb_turns = [t \<mapsto> 0], tb_bufs = [\<lparr>b_entries = [(2, p2)], b_last_append = 0\<rparr>], tb_seq = 2\<rparr>"
    by (simp add: s3_def s2_def s0 fetch_add_def store_frame_def trim_log_def TURN_BUFFER_MAXLEN_def)
  have s4: "s4 = \<lparr>tb_turns = [t \<mapsto> 0], tb_bufs = [\<lparr>b_entries = [(2, p2), (1, p1)], b_last_append = 0\<rparr>], tb_seq = 2\<rparr>"
    by (simp add: s4_def s3 store_frame_def trim_log_def TURN_BUFFER_MAXLEN_def)
  show "fst (buf (sweep_expired s0 0 TURN_BUFFER_TTL) t 0) = 0"
    by (simp add: s0 buf_def sweep_expired_def)
  show "fst (fetch_add s0) = 1" "fst (fetch_add (snd (fetch_add s0))) = 2"
    by (simp_all add: s0 fetch_add_def)
  show "fst (read_frames s3 t 0 ''0'' []) = Inr [\<lparr>e_id = stream_id 2, e_payload = p2\<rparr>]"
    by (simp add: s3 read_frames_def buf_def after_cursor_def seq_of_0)
  show "fst (read_frames s4 t 0 (stream_id 2) []) = Inr []"
    by (simp add: s4 read_frames_def buf_def after_cursor_def)
  show "b_entries (tb_bufs s4 ! 0) = [(2, p2), (1, p1)]"
    by (simp add: s4)
qed

end
