(* ===== verification/Llm_Sse.thy ===== *)
theory Llm_Sse
  imports Main "HOL-Library.Word"
begin

text \<open>
  The decoder of a model's event stream (\<open>crates/catalerum-llm/src/sse.rs\<close>): bytes arrive in chunks
  cut anywhere, lines are split off, and \<open>data\<close> fields are collected into events. Text is a list of
  code points, obtained as \<open>String::from_utf8_lossy\<close> does. The events do not depend on how the
  stream is cut into chunks; the retained bytes are bounded, the retained lines are not.
\<close>

unbundle bit_operations_syntax

type_synonym bytes = "8 word list"
type_synonym utext = "nat list"

section \<open>Lossy UTF-8\<close>

definition cont_byte :: "8 word \<Rightarrow> bool" where
  "cont_byte b \<longleftrightarrow> b AND 192 = 128"

definition safe_get :: "bytes \<Rightarrow> nat \<Rightarrow> 8 word" where
  "safe_get bs i = (if i < length bs then bs ! i else 0)"

definition low6 :: "8 word \<Rightarrow> nat" where
  "low6 b = unat (b AND 63)"

definition second_ok :: "8 word \<Rightarrow> 8 word \<Rightarrow> bool" where
  "second_ok b c \<longleftrightarrow>
     (b = 0xE0 \<and> 0xA0 \<le> c \<and> c \<le> 0xBF) \<or> (0xE1 \<le> b \<and> b \<le> 0xEC \<and> cont_byte c) \<or>
     (b = 0xED \<and> 0x80 \<le> c \<and> c \<le> 0x9F) \<or> (0xEE \<le> b \<and> b \<le> 0xEF \<and> cont_byte c) \<or>
     (b = 0xF0 \<and> 0x90 \<le> c \<and> c \<le> 0xBF) \<or> (0xF1 \<le> b \<and> b \<le> 0xF3 \<and> cont_byte c) \<or>
     (b = 0xF4 \<and> 0x80 \<le> c \<and> c \<le> 0x8F)"

text \<open>The code point a lead byte and the bytes after it give, and how many of those it uses.\<close>

definition utf8_step :: "8 word \<Rightarrow> bytes \<Rightarrow> nat \<times> nat" where
  "utf8_step b r =
     (let c = safe_get r 0; d = safe_get r 1; e = safe_get r 2
      in if b < 0x80 then (unat b, 0)
         else if 0xC2 \<le> b \<and> b \<le> 0xDF then
           (if cont_byte c then (unat (b AND 31) * 64 + low6 c, 1) else (0xFFFD, 0))
         else if 0xE0 \<le> b \<and> b \<le> 0xEF then
           (if \<not> second_ok b c then (0xFFFD, 0)
            else if \<not> cont_byte d then (0xFFFD, 1)
            else ((unat (b AND 15) * 64 + low6 c) * 64 + low6 d, 2))
         else if 0xF0 \<le> b \<and> b \<le> 0xF4 then
           (if \<not> second_ok b c then (0xFFFD, 0)
            else if \<not> cont_byte d then (0xFFFD, 1)
            else if \<not> cont_byte e then (0xFFFD, 2)
            else (((unat (b AND 7) * 64 + low6 c) * 64 + low6 d) * 64 + low6 e, 3))
         else (0xFFFD, 0))"

function from_utf8_lossy :: "bytes \<Rightarrow> utext" where
  "from_utf8_lossy [] = []"
| "from_utf8_lossy (b # r) = (case utf8_step b r of (cp, n) \<Rightarrow> cp # from_utf8_lossy (drop n r))"
  by pat_completeness auto
termination by (relation "measure length") auto

definition utf8_len :: "nat \<Rightarrow> nat" where
  "utf8_len cp = (if cp < 0x80 then 1 else if cp < 0x800 then 2 else if cp < 0x10000 then 3 else 4)"

definition str_len :: "utext \<Rightarrow> nat" where
  "str_len t = sum_list (map utf8_len t)"

definition uspace :: "nat \<Rightarrow> bool" where
  "uspace c \<longleftrightarrow> (9 \<le> c \<and> c \<le> 13) \<or> (0x2000 \<le> c \<and> c \<le> 0x200A) \<or>
     c \<in> {32, 0x85, 0xA0, 0x1680, 0x2028, 0x2029, 0x202F, 0x205F, 0x3000}"

definition utrim :: "utext \<Rightarrow> utext" where
  "utrim t = rev (dropWhile uspace (rev (dropWhile uspace t)))"

section \<open>The decoder\<close>

datatype sse_event = SseData utext | SseDone

definition MAX_SSE_RETAINED :: nat where "MAX_SSE_RETAINED = 16777216"

record sse_decoder =
  sse_buf :: bytes
  sse_data :: "utext list"
  data_len :: nat
  poisoned :: bool

definition new_decoder :: sse_decoder where
  "new_decoder = \<lparr>sse_buf = [], sse_data = [], data_len = 0, poisoned = False\<rparr>"

fun join_lines :: "utext list \<Rightarrow> utext" where
  "join_lines [] = []"
| "join_lines [t] = t"
| "join_lines (t # ts) = t @ 10 # join_lines ts"

definition flush_event :: "sse_decoder \<Rightarrow> sse_event option \<times> sse_decoder" where
  "flush_event d =
     (if sse_data d = [] then (None, d)
      else (Some (SseData (join_lines (sse_data d))), d\<lparr>sse_data := [], data_len := 0\<rparr>))"

definition split_colon :: "utext \<Rightarrow> utext \<times> utext" where
  "split_colon t =
     (case dropWhile (\<lambda>c. c \<noteq> 58) t of
        [] \<Rightarrow> (t, [])
      | _ # v \<Rightarrow> (takeWhile (\<lambda>c. c \<noteq> 58) t, if v \<noteq> [] \<and> hd v = 32 then tl v else v))"

definition DATA :: utext where "DATA = [100, 97, 116, 97]"
definition DONE :: utext where "DONE = [91, 68, 79, 78, 69, 93]"

definition feed_line :: "bytes \<Rightarrow> sse_decoder \<Rightarrow> sse_event option \<times> sse_decoder" where
  "feed_line line d =
     (if line = [] then flush_event d
      else if hd line = 58 then (None, d)
      else (case split_colon (from_utf8_lossy line) of (field, v) \<Rightarrow>
        if field = DATA then
          (if utrim v = DONE then (Some SseDone, d\<lparr>sse_data := [], data_len := 0\<rparr>)
           else (None, d\<lparr>sse_data := sse_data d @ [v], data_len := data_len d + str_len v\<rparr>))
        else (None, d)))"

definition drop_cr :: "bytes \<Rightarrow> bytes" where
  "drop_cr line = (if line \<noteq> [] \<and> last line = 13 then butlast line else line)"

definition emit :: "sse_event option \<Rightarrow> sse_event list" where
  "emit e = (case e of None \<Rightarrow> [] | Some x \<Rightarrow> [x])"

lemma feed_line_buf [simp]:
  "sse_buf (snd (feed_line l d)) = sse_buf d" "poisoned (snd (feed_line l d)) = poisoned d"
  by (auto simp: feed_line_def flush_event_def split: prod.splits)

lemma rest_shorter: "x \<in> set bs \<Longrightarrow> length (tl (dropWhile (\<lambda>b. b \<noteq> x) bs)) < length bs"
  by (induction bs) (auto simp: less_SucI)

text \<open>The loop of \<open>push\<close>: split off complete lines; the rest stays in the buffer.\<close>

function drain :: "sse_decoder \<Rightarrow> sse_event list \<times> sse_decoder" where
  "drain d =
     (if 10 \<notin> set (sse_buf d) then ([], d)
      else
        (let line = takeWhile (\<lambda>b. b \<noteq> 10) (sse_buf d);
             rest = tl (dropWhile (\<lambda>b. b \<noteq> 10) (sse_buf d));
             r = feed_line (drop_cr line) (d\<lparr>sse_buf := rest\<rparr>);
             r' = drain (snd r)
         in (emit (fst r) @ fst r', snd r')))"
  by pat_completeness auto
termination by (relation "measure (\<lambda>d. length (sse_buf d))") (auto simp: rest_shorter[simplified])

declare drain.simps [simp del]

definition check_retained :: "sse_decoder \<Rightarrow> sse_decoder" where
  "check_retained d =
     (if length (sse_buf d) + data_len d > MAX_SSE_RETAINED
      then \<lparr>sse_buf = [], sse_data = [], data_len = 0, poisoned = True\<rparr> else d)"

definition sse_push :: "bytes \<Rightarrow> sse_decoder \<Rightarrow> sse_event list \<times> sse_decoder" where
  "sse_push bs d =
     (if poisoned d then ([], d)
      else (case drain (d\<lparr>sse_buf := sse_buf d @ bs\<rparr>) of (evs, d') \<Rightarrow> (evs, check_retained d')))"

definition sse_finish :: "sse_decoder \<Rightarrow> sse_event list \<times> sse_decoder" where
  "sse_finish d =
     (if poisoned d then ([], d)
      else
        (case (if sse_buf d \<noteq> [] then feed_line (drop_cr (sse_buf d)) (d\<lparr>sse_buf := []\<rparr>) else (None, d)) of
           (e, d') \<Rightarrow> (case flush_event d' of (e', d'') \<Rightarrow> (emit e @ emit e', d''))))"

fun sse_run :: "bytes list \<Rightarrow> sse_decoder \<Rightarrow> sse_event list \<times> sse_decoder" where
  "sse_run [] d = ([], d)"
| "sse_run (c # cs) d =
     (case sse_push c d of (evs, d') \<Rightarrow> (case sse_run cs d' of (evs', d'') \<Rightarrow> (evs @ evs', d'')))"

section \<open>Cutting the stream anywhere\<close>

lemma feed_line_frame:
  "feed_line l (d\<lparr>sse_buf := b\<rparr>) = (fst (feed_line l d), (snd (feed_line l d))\<lparr>sse_buf := b\<rparr>)"
  by (auto simp: feed_line_def flush_event_def split: prod.splits)

lemma drain_more:
  "drain (d\<lparr>sse_buf := sse_buf d @ b\<rparr>) =
     (case drain d of (evs, d') \<Rightarrow> (case drain (d'\<lparr>sse_buf := sse_buf d' @ b\<rparr>) of (evs', d'') \<Rightarrow> (evs @ evs', d'')))"
proof (induction d rule: drain.induct)
  case (1 d)
  show ?case
  proof (cases "10 \<in> set (sse_buf d)")
    case False
    then have "drain d = ([], d)" by (simp add: drain.simps)
    then show ?thesis by simp
  next
    case True
    let ?line = "takeWhile (\<lambda>b. b \<noteq> 10) (sse_buf d)"
    let ?rest = "tl (dropWhile (\<lambda>b. b \<noteq> 10) (sse_buf d))"
    let ?r = "feed_line (drop_cr ?line) (d\<lparr>sse_buf := ?rest\<rparr>)"
    have tw: "takeWhile (\<lambda>x. x \<noteq> 10) (sse_buf d @ b) = ?line" using True by (simp add: takeWhile_append1)
    have dw: "tl (dropWhile (\<lambda>x. x \<noteq> 10) (sse_buf d @ b)) = ?rest @ b"
      using True by (simp add: dropWhile_append1) 
    have r2: "feed_line (drop_cr ?line) (d\<lparr>sse_buf := ?rest @ b\<rparr>) =
        (fst ?r, (snd ?r)\<lparr>sse_buf := sse_buf (snd ?r) @ b\<rparr>)"
      using feed_line_frame[where l = "drop_cr ?line" and d = "d\<lparr>sse_buf := ?rest\<rparr>" and b = "?rest @ b"] by simp
    have "drain (d\<lparr>sse_buf := sse_buf d @ b\<rparr>) =
        (let r' = drain ((snd ?r)\<lparr>sse_buf := sse_buf (snd ?r) @ b\<rparr>) in (emit (fst ?r) @ fst r', snd r'))"
      using True by (subst drain.simps) (simp add: tw dw r2 Let_def)
    moreover have "drain d = (let r' = drain (snd ?r) in (emit (fst ?r) @ fst r', snd r'))"
      using True by (subst drain.simps) (simp add: Let_def)
    moreover have IH: "drain ((snd ?r)\<lparr>sse_buf := sse_buf (snd ?r) @ b\<rparr>) = (case drain (snd ?r) of (evs, d') \<Rightarrow> (case drain (d'\<lparr>sse_buf := sse_buf d' @ b\<rparr>) of (evs', d'') \<Rightarrow> (evs @ evs', d'')))"
      using 1 True by simp
    ultimately show ?thesis by (simp add: Let_def split: prod.splits)
  qed
qed

lemma drain_drained: "drain d = (evs, d') \<Longrightarrow> 10 \<notin> set (sse_buf d')"
proof (induction d arbitrary: evs d' rule: drain.induct)
  case (1 d)
  show ?case
  proof (cases "10 \<in> set (sse_buf d)")
    case False
    with 1(2) show ?thesis by (simp add: drain.simps)
  next
    case True
    let ?r = "feed_line (drop_cr (takeWhile (\<lambda>b. b \<noteq> 10) (sse_buf d)))
        (d\<lparr>sse_buf := tl (dropWhile (\<lambda>b. b \<noteq> 10) (sse_buf d))\<rparr>)"
    have "drain (snd ?r) = (fst (drain (snd ?r)), d')" using 1(2) True by (subst (asm) drain.simps) (auto simp: Let_def)
    from 1(1)[OF _ refl refl refl this] True show ?thesis by simp
  qed
qed

lemma sse_push_append:
  assumes "sse_push a d = (e1, d1)" "\<not> poisoned d1"
  shows "sse_push (a @ b) d = (case sse_push b d1 of (e2, d2) \<Rightarrow> (e1 @ e2, d2))"
proof -
  have np: "\<not> poisoned d" using assms by (auto simp: sse_push_def split: if_splits)
  obtain d' where d': "drain (d\<lparr>sse_buf := sse_buf d @ a\<rparr>) = (e1, d')" "d1 = check_retained d'"
    using assms(1) np by (auto simp: sse_push_def split: prod.splits)
  then have same: "d1 = d'" using assms(2) by (auto simp: check_retained_def split: if_splits)
  have "drain (d\<lparr>sse_buf := sse_buf d @ a @ b\<rparr>) =
      (case drain (d'\<lparr>sse_buf := sse_buf d' @ b\<rparr>) of (evs', d'') \<Rightarrow> (e1 @ evs', d''))"
    using drain_more[where d = "d\<lparr>sse_buf := sse_buf d @ a\<rparr>" and b = b] d'(1) by simp
  with np assms(2) same show ?thesis by (simp add: sse_push_def split: prod.splits)
qed

lemma sse_run_poisoned: "poisoned d \<Longrightarrow> sse_run cs d = ([], d)"
  by (induction cs) (auto simp: sse_push_def)

definition quiescent :: "sse_decoder \<Rightarrow> bool" where
  "quiescent d \<longleftrightarrow> \<not> poisoned d \<and> 10 \<notin> set (sse_buf d) \<and> length (sse_buf d) + data_len d \<le> MAX_SSE_RETAINED"

lemma sse_push_nil: "quiescent d \<Longrightarrow> sse_push [] d = ([], d)"
  by (simp add: quiescent_def sse_push_def check_retained_def drain.simps)

lemma sse_run_concat:
  assumes "quiescent d" "\<not> poisoned (snd (sse_run cs d))"
  shows "sse_run cs d = sse_push (concat cs) d"
  using assms
proof (induction cs arbitrary: d)
  case Nil
  then show ?case by (simp add: sse_push_nil)
next
  case (Cons c cs)
  obtain e1 d1 where p: "sse_push c d = (e1, d1)" by (rule prod.exhaust)
  have run: "\<not> poisoned (snd (sse_run cs d1))" using Cons.prems(2) p by (simp split: prod.splits)
  then have np: "\<not> poisoned d1" using sse_run_poisoned[of d1 cs] by auto
  have "quiescent d1"
  proof -
    obtain d' where d': "drain (d\<lparr>sse_buf := sse_buf d @ c\<rparr>) = (e1, d')" "d1 = check_retained d'"
      using p Cons.prems(1) by (auto simp: sse_push_def quiescent_def split: prod.splits)
    with np have "d1 = d'" "length (sse_buf d1) + data_len d1 \<le> MAX_SSE_RETAINED"
      by (auto simp: check_retained_def split: if_splits)
    with np drain_drained[OF d'(1)] show ?thesis by (simp add: quiescent_def)
  qed
  from Cons.IH[OF this run] sse_push_append[OF p np, of "concat cs"] p show ?case by (simp split: prod.splits)
qed

section \<open>Properties\<close>

text \<open>
  C32: chunk boundaries do not matter. Unless the retention limit is hit, feeding a stream to a
  new decoder in any chunks, however they cut lines, characters and line ends, yields the events
  and the state that feeding it at once yields.
\<close>

theorem sse_chunking_invariant:
  assumes "\<not> poisoned (snd (sse_run cs new_decoder))"
  shows "sse_run cs new_decoder = sse_push (concat cs) new_decoder"
  by (rule sse_run_concat[OF _ assms]) (simp add: quiescent_def new_decoder_def)

theorem sse_chunking_invariant_witness:
  "sse_run [[100, 97], [116, 97, 58, 120, 10, 13], [10]] new_decoder = ([SseData [120]], new_decoder)"
proof -
  have once: "sse_push (concat [[100, 97], [116, 97, 58, 120, 10, 13], [10]]) new_decoder = ([SseData [120]], new_decoder)"
    by (simp add: sse_push_def new_decoder_def drain.simps feed_line_def flush_event_def drop_cr_def utf8_step_def Let_def
        split_colon_def DATA_def DONE_def utrim_def uspace_def str_len_def utf8_len_def check_retained_def MAX_SSE_RETAINED_def emit_def)
  have "\<not> poisoned (snd (sse_run [[100, 97], [116, 97, 58, 120, 10, 13], [10]] new_decoder))"
    by (simp add: sse_push_def new_decoder_def drain.simps feed_line_def flush_event_def drop_cr_def utf8_step_def Let_def
        split_colon_def DATA_def DONE_def utrim_def uspace_def str_len_def utf8_len_def check_retained_def MAX_SSE_RETAINED_def emit_def)
  from sse_chunking_invariant[OF this] once show ?thesis by simp
qed

definition data_line :: bytes where "data_line = [100, 97, 116, 97, 58, 10]"

text \<open>
  C33: a retention limit that does not limit. The retained bytes never exceed the limit after a
  chunk; but an empty \<open>data\<close> line adds no bytes and is kept, so endless empty ones make the
  decoder keep as many lines without ever tripping the limit.
\<close>

theorem sse_retention:
  "length (sse_buf (snd (sse_push bs d))) + data_len (snd (sse_push bs d)) \<le> max MAX_SSE_RETAINED (length (sse_buf d) + data_len d) \<and>
   length (sse_data (snd (sse_run (replicate n data_line) new_decoder))) = n \<and>
   \<not> poisoned (snd (sse_run (replicate n data_line) new_decoder))"
proof -
  have one: "sse_push data_line d = ([], d\<lparr>sse_data := sse_data d @ [[]]\<rparr>)"
    if "sse_buf d = []" "data_len d = 0" "\<not> poisoned d" for d
    using that by (simp add: sse_push_def data_line_def drain.simps feed_line_def drop_cr_def utf8_step_def Let_def
        split_colon_def DATA_def DONE_def utrim_def str_len_def check_retained_def MAX_SSE_RETAINED_def emit_def)
  have "sse_run (replicate n data_line) d = ([], d\<lparr>sse_data := sse_data d @ replicate n []\<rparr>)"
    if "sse_buf d = []" "data_len d = 0" "\<not> poisoned d" for n d
    using that
  proof (induction n arbitrary: d)
    case (Suc n)
    from Suc.IH[of "d\<lparr>sse_data := sse_data d @ [[]]\<rparr>"] one[OF Suc.prems] Suc.prems show ?case
      by simp
  qed simp
  from this[of new_decoder n] show ?thesis
    by (auto simp: new_decoder_def sse_push_def check_retained_def split: prod.splits)
qed

end
