(* ===== verification/Rust_Float.thy ===== *)
theory Rust_Float
  imports Rust_Num "HOL-Library.Word"
begin

text \<open>
  The \<open>f64\<close> arithmetic and the \<open>u32\<close> conversions the program uses: addition and multiplication
  round the exact result to the nearest double, \<open>clamp\<close> keeps NaN, \<open>as u32\<close> truncates and
  saturates, and \<open>saturating_add\<close> stops at the largest \<open>u32\<close>.
\<close>

type_synonym u32 = "32 word"

definition rounded :: "bool \<Rightarrow> rat \<Rightarrow> f64" where
  "rounded neg q = (case round_f64 q of None \<Rightarrow> Infinite neg | Some v \<Rightarrow> Finite neg v)"

fun f64_add :: "f64 \<Rightarrow> f64 \<Rightarrow> f64" where
  "f64_add NaN y = NaN"
| "f64_add x NaN = NaN"
| "f64_add (Infinite a) (Infinite b) = (if a = b then Infinite a else NaN)"
| "f64_add (Infinite a) (Finite b w) = Infinite a"
| "f64_add (Finite a v) (Infinite b) = Infinite b"
| "f64_add (Finite a v) (Finite b w) =
     (if a = b then rounded a (v + w)
      else if v = w then Finite False 0
      else if w < v then rounded a (v - w) else rounded b (w - v))"

fun f64_mul :: "f64 \<Rightarrow> f64 \<Rightarrow> f64" where
  "f64_mul NaN y = NaN"
| "f64_mul x NaN = NaN"
| "f64_mul (Infinite a) (Infinite b) = Infinite (a \<noteq> b)"
| "f64_mul (Infinite a) (Finite b w) = (if w = 0 then NaN else Infinite (a \<noteq> b))"
| "f64_mul (Finite a v) (Infinite b) = (if v = 0 then NaN else Infinite (a \<noteq> b))"
| "f64_mul (Finite a v) (Finite b w) = rounded (a \<noteq> b) (v * w)"

definition f64_clamp :: "f64 \<Rightarrow> f64 \<Rightarrow> f64 \<Rightarrow> f64" where
  "f64_clamp lo hi x =
     (if f64_cmp x lo = Some Less then lo else if f64_cmp x hi = Some Greater then hi else x)"

definition f64_of_u32 :: "u32 \<Rightarrow> f64" where
  "f64_of_u32 w = Finite False (of_nat (unat w))"

fun f64_to_u32 :: "f64 \<Rightarrow> u32" where
  "f64_to_u32 NaN = 0"
| "f64_to_u32 (Infinite neg) = (if neg then 0 else - 1)"
| "f64_to_u32 (Finite neg v) =
     (if neg then 0 else if 2 ^ 32 \<le> v then - 1 else word_of_int \<lfloor>v\<rfloor>)"

definition sat_add :: "u32 \<Rightarrow> u32 \<Rightarrow> u32" where
  "sat_add a b = (if unat a + unat b < 2 ^ 32 then a + b else - 1)"

lemma unat_sat_add: "unat (sat_add a b) = min (unat a + unat b) (2 ^ 32 - 1)"
proof (cases "unat a + unat b < 2 ^ 32")
  case True
  then show ?thesis by (simp add: sat_add_def unat_word_ariths min_def)
next
  case False
  have "unat (- 1 :: u32) = 2 ^ 32 - 1" by (simp add: unsigned_minus_1_eq_mask mask_eq_exp_minus_1)
  with False show ?thesis by (simp add: sat_add_def min_def)
qed

end
