(* ===== verification/Llm_Chat.thy ===== *)
theory Llm_Chat
  imports Llm_Sse Rust_Float Json Effects
begin

text \<open>
  The chat data of \<open>catalerum-core\<close> (\<open>llm.rs\<close>, \<open>model.rs\<close>, \<open>stream.rs\<close>) and the assembly of a
  streamed model turn (\<open>catalerum-llm/src/client.rs\<close>): tool calls arrive in fragments keyed by
  their index. Text is a list of code points; the strings of a JSON value, whose characters are
  code points below 256, are read as such by \<open>uchars\<close>.
\<close>

definition uchars :: "string \<Rightarrow> utext" where
  "uchars s = map of_char s"

datatype message_role = System | User | Assistant | Tool

record tool_call =
  tc_id :: utext
  tc_name :: utext
  tc_arguments :: utext

datatype media_input = Image utext

record reasoning_detail =
  rd_kind :: utext
  rd_text :: "utext option"
  rd_summary :: "utext option"
  rd_data :: "utext option"
  rd_signature :: "utext option"
  rd_id :: "utext option"
  rd_format :: "utext option"
  rd_index :: "u32 option"

record chat_message =
  role :: message_role
  content :: utext
  images :: "utext list"
  media :: "media_input list"
  tool_calls :: "tool_call list"
  tool_call_id :: "utext option"
  msg_name :: "utext option"
  reasoning :: "utext option"
  reasoning_details :: "reasoning_detail list"

definition text_message :: "message_role \<Rightarrow> utext \<Rightarrow> chat_message" where
  "text_message r c =
     \<lparr>role = r, content = c, images = [], media = [], tool_calls = [], tool_call_id = None,
      msg_name = None, reasoning = None, reasoning_details = []\<rparr>"

definition system_message :: "utext \<Rightarrow> chat_message" where
  "system_message = text_message System"

definition user_message :: "utext \<Rightarrow> chat_message" where
  "user_message = text_message User"

record tool_spec =
  ts_name :: utext
  ts_description :: utext
  ts_parameters :: json

record chat_request =
  rq_model :: utext
  rq_messages :: "chat_message list"
  rq_tools :: "tool_spec list"
  rq_max_tokens :: "u32 option"

definition new_request :: "utext \<Rightarrow> chat_message list \<Rightarrow> chat_request" where
  "new_request model ms = \<lparr>rq_model = model, rq_messages = ms, rq_tools = [], rq_max_tokens = None\<rparr>"

record usage =
  prompt_tokens :: u32
  completion_tokens :: u32
  total_tokens :: u32
  cost_usd :: "f64 option"
  cached_tokens :: u32
  cache_creation_tokens :: u32

datatype finish_reason = FStop | FToolCalls | FLength | FContentFilter | FOther

datatype stream_event =
    TextDelta utext
  | ReasoningDelta utext "reasoning_detail list"
  | ToolCallDelta u32 "utext option" "utext option" "utext option"
  | ToolCallStarted utext utext utext
  | ToolResult utext utext utext bool "nat option" bool
  | Compacted u32 utext
  | Done "finish_reason option" "usage option"
  | StreamError utext

section \<open>Assembling a turn\<close>

record slot =
  sl_index :: u32
  sl_id :: utext
  sl_name :: utext
  sl_arguments :: utext

definition fresh_slot :: "u32 \<Rightarrow> slot" where
  "fresh_slot i = \<lparr>sl_index = i, sl_id = [], sl_name = [], sl_arguments = []\<rparr>"

definition fill_slot :: "utext option \<Rightarrow> utext option \<Rightarrow> utext option \<Rightarrow> slot \<Rightarrow> slot" where
  "fill_slot i n a s =
     (let s1 = (case i of Some x \<Rightarrow> if x \<noteq> [] then s\<lparr>sl_id := x\<rparr> else s | None \<Rightarrow> s);
          s2 = (case n of Some x \<Rightarrow> if x \<noteq> [] then s1\<lparr>sl_name := x\<rparr> else s1 | None \<Rightarrow> s1)
      in (case a of Some x \<Rightarrow> s2\<lparr>sl_arguments := sl_arguments s2 @ x\<rparr> | None \<Rightarrow> s2))"

text \<open>The first slot of the index is filled, a new one at the end when there is none.\<close>

fun asm_push :: "u32 \<Rightarrow> utext option \<Rightarrow> utext option \<Rightarrow> utext option \<Rightarrow> slot list \<Rightarrow> slot list" where
  "asm_push k i n a [] = [fill_slot i n a (fresh_slot k)]"
| "asm_push k i n a (s # ss) =
     (if sl_index s = k then fill_slot i n a s # ss else s # asm_push k i n a ss)"

definition show_u32 :: "u32 \<Rightarrow> utext" where
  "show_u32 w = uchars (show_nat (unat w))"

definition asm_finish :: "slot list \<Rightarrow> tool_call list" where
  "asm_finish ss =
     map (\<lambda>s. \<lparr>tc_id = (if sl_id s = [] then uchars ''call_'' @ show_u32 (sl_index s) else sl_id s),
               tc_name = sl_name s,
               tc_arguments = (if sl_arguments s = [] then uchars ''{}'' else sl_arguments s)\<rparr>)
       (filter (\<lambda>s. sl_name s \<noteq> []) (sort_key sl_index ss))"

definition append_opt :: "utext option \<Rightarrow> utext option \<Rightarrow> utext option" where
  "append_opt acc frag =
     (case frag of None \<Rightarrow> acc | Some f \<Rightarrow> Some ((case acc of None \<Rightarrow> [] | Some t \<Rightarrow> t) @ f))"

definition overwrite :: "'a option \<Rightarrow> 'a option \<Rightarrow> 'a option" where
  "overwrite old new = (case new of None \<Rightarrow> old | Some x \<Rightarrow> Some x)"

definition merge_reasoning :: "reasoning_detail \<Rightarrow> reasoning_detail \<Rightarrow> reasoning_detail" where
  "merge_reasoning s d =
     s\<lparr>rd_kind := (if rd_kind d \<noteq> [] then rd_kind d else rd_kind s),
       rd_text := append_opt (rd_text s) (rd_text d),
       rd_summary := append_opt (rd_summary s) (rd_summary d),
       rd_data := overwrite (rd_data s) (rd_data d),
       rd_signature := overwrite (rd_signature s) (rd_signature d),
       rd_id := overwrite (rd_id s) (rd_id d),
       rd_format := overwrite (rd_format s) (rd_format d)\<rparr>"

fun reasoning_push :: "reasoning_detail \<Rightarrow> reasoning_detail list \<Rightarrow> reasoning_detail list" where
  "reasoning_push d [] = [d]"
| "reasoning_push d (s # ss) =
     (if rd_index d \<noteq> None \<and> rd_index s = rd_index d then merge_reasoning s d # ss
      else s # reasoning_push d ss)"

definition reasoning_finish :: "reasoning_detail list \<Rightarrow> reasoning_detail list" where
  "reasoning_finish ss = sort_key (\<lambda>s. case rd_index s of Some i \<Rightarrow> i | None \<Rightarrow> - 1) ss"

record collected_turn =
  ct_content :: utext
  ct_tool_calls :: "tool_call list"
  ct_reasoning :: utext
  ct_reasoning_details :: "reasoning_detail list"
  ct_finish_reason :: "finish_reason option"
  ct_usage :: "usage option"

text \<open>Where a fold over the stream stands.\<close>

record folding =
  f_content :: utext
  f_slots :: "slot list"
  f_reasoning :: utext
  f_details :: "reasoning_detail list"
  f_finish :: "finish_reason option"
  f_usage :: "usage option"
  f_errored :: bool

definition folding0 :: folding where
  "folding0 = \<lparr>f_content = [], f_slots = [], f_reasoning = [], f_details = [], f_finish = None,
     f_usage = None, f_errored = False\<rparr>"

fun fold_event :: "stream_event \<Rightarrow> folding \<Rightarrow> folding" where
  "fold_event (TextDelta t) f = f\<lparr>f_content := f_content f @ t\<rparr>"
| "fold_event (ReasoningDelta t ds) f =
     f\<lparr>f_reasoning := f_reasoning f @ t, f_details := fold reasoning_push ds (f_details f)\<rparr>"
| "fold_event (ToolCallDelta k i n a) f = f\<lparr>f_slots := asm_push k i n a (f_slots f)\<rparr>"
| "fold_event (Done fr u) f = f\<lparr>f_finish := fr, f_usage := u\<rparr>"
| "fold_event (StreamError m) f = f\<lparr>f_errored := True\<rparr>"
| "fold_event _ f = f"

definition collected :: "folding \<Rightarrow> collected_turn" where
  "collected f =
     \<lparr>ct_content = f_content f, ct_tool_calls = asm_finish (f_slots f), ct_reasoning = f_reasoning f,
      ct_reasoning_details = reasoning_finish (f_details f), ct_finish_reason = f_finish f,
      ct_usage = f_usage f\<rparr>"

section \<open>Facts on assembled calls\<close>

lemma asm_push_indices:
  "distinct (map sl_index ss) \<Longrightarrow> distinct (map sl_index (asm_push k i n a ss))
    \<and> set (map sl_index (asm_push k i n a ss)) = insert k (set (map sl_index ss))"
  by (induction ss) (auto simp: fill_slot_def fresh_slot_def Let_def split: option.splits)

lemma asm_finish_named: "c \<in> set (asm_finish ss) \<Longrightarrow> tc_name c \<noteq> [] \<and> tc_id c \<noteq> [] \<and> tc_arguments c \<noteq> []"
  by (auto simp: asm_finish_def uchars_def split: if_splits)

end
