(* ===== verification/Llm_Compact.thy ===== *)
theory Llm_Compact
  imports Llm_Chat
begin

text \<open>
  Automatic context compaction (\<open>catalerum-llm/src/compact.rs\<close>): the token estimate, the trigger, the
  choice of the messages to fold, the transcript the summarizer reads, and the fold itself. The
  model turn that writes the summary is an argument. The facts say which messages go, that a
  failed summary changes nothing, and that no tool call is cut off from its results.
\<close>

section \<open>Estimates and the trigger\<close>

definition DEFAULT_CONTEXT_WINDOW :: u32 where
  "DEFAULT_CONTEXT_WINDOW = 128000"

definition CHARS_PER_TOKEN :: nat where
  "CHARS_PER_TOKEN = 4"

definition MESSAGE_OVERHEAD_TOKENS :: u32 where
  "MESSAGE_OVERHEAD_TOKENS = 4"

definition SUMMARY_MAX_TOKENS :: u32 where
  "SUMMARY_MAX_TOKENS = 2048"

record compaction_config =
  cc_enabled :: bool
  cc_context_window :: "u32 option"
  cc_trigger_ratio :: f64
  cc_keep_recent :: nat

definition default_compaction :: compaction_config where
  "default_compaction =
     \<lparr>cc_enabled = True, cc_context_window = None, cc_trigger_ratio = rounded False (4 / 5),
      cc_keep_recent = 12\<rparr>"

definition budget_tokens :: "compaction_config \<Rightarrow> u32" where
  "budget_tokens c =
     f64_to_u32 (f64_mul
       (f64_of_u32 (case cc_context_window c of Some w \<Rightarrow> w | None \<Rightarrow> DEFAULT_CONTEXT_WINDOW))
       (f64_clamp (rounded False (1 / 10)) (Finite False 1) (cc_trigger_ratio c)))"

definition estimate_message_tokens :: "chat_message \<Rightarrow> u32" where
  "estimate_message_tokens m =
     (let chars = str_len (content m) + (case reasoning m of Some r \<Rightarrow> str_len r | None \<Rightarrow> 0)
                  + sum_list (map (\<lambda>tc. str_len (tc_name tc) + str_len (tc_arguments tc) + 16) (tool_calls m))
      in of_nat (chars div CHARS_PER_TOKEN) + MESSAGE_OVERHEAD_TOKENS)"

definition estimate_tokens :: "chat_message list \<Rightarrow> u32" where
  "estimate_tokens ms = foldl sat_add 0 (map estimate_message_tokens ms)"

definition should_compact :: "chat_message list \<Rightarrow> usage option \<Rightarrow> compaction_config \<Rightarrow> bool" where
  "should_compact ms last_usage c \<longleftrightarrow>
     cc_enabled c \<and>
     budget_tokens c <
       max (estimate_tokens ms)
           (case last_usage of None \<Rightarrow> 0 | Some u \<Rightarrow> sat_add (prompt_tokens u) (completion_tokens u))"

section \<open>The split\<close>

record compaction_split =
  prefix_end :: nat
  tail_start :: nat

text \<open>\<open>Iterator::position\<close>, with the length when there is none.\<close>

fun position_or_len :: "('a \<Rightarrow> bool) \<Rightarrow> 'a list \<Rightarrow> nat" where
  "position_or_len p [] = 0"
| "position_or_len p (x # xs) = (if p x then 0 else Suc (position_or_len p xs))"

function skip_tools :: "chat_message list \<Rightarrow> nat \<Rightarrow> nat" where
  "skip_tools ms k = (if k < length ms \<and> role (ms ! k) = Tool then skip_tools ms (Suc k) else k)"
  by pat_completeness auto
termination by (relation "measure (\<lambda>(ms, k). length ms - k)") auto

declare skip_tools.simps [simp del]

definition split_for_compaction :: "chat_message list \<Rightarrow> nat \<Rightarrow> compaction_split option" where
  "split_for_compaction ms keep_recent =
     (let pe = position_or_len (\<lambda>m. role m \<noteq> System) ms;
          ts = skip_tools ms (max (length ms - keep_recent) pe)
      in if ts - pe < 2 \<or> length ms \<le> ts then None
         else Some \<lparr>prefix_end = pe, tail_start = ts\<rparr>)"

section \<open>The transcript\<close>

definition role_label :: "message_role \<Rightarrow> utext" where
  "role_label r = uchars (case r of System \<Rightarrow> ''system'' | User \<Rightarrow> ''user'' | Assistant \<Rightarrow> ''assistant''
     | Tool \<Rightarrow> ''tool result'')"

definition render_message :: "chat_message \<Rightarrow> utext" where
  "render_message m =
     uchars ''## '' @ role_label (role m)
     @ (case msg_name m of Some n \<Rightarrow> uchars '' ('' @ n @ uchars '')'' | None \<Rightarrow> []) @ [10]
     @ (if content m \<noteq> [] then content m @ [10] else [])
     @ concat (map (\<lambda>tc. 0x2192 # uchars '' tool call `'' @ tc_name tc @ uchars ''` '' @ tc_arguments tc @ [10])
         (tool_calls m))
     @ [10]"

definition render_transcript :: "chat_message list \<Rightarrow> utext" where
  "render_transcript ms = concat (map render_message ms)"

text \<open>Byte offsets into a text: whether one is a character boundary, and the text from there.\<close>

fun is_boundary :: "utext \<Rightarrow> nat \<Rightarrow> bool" where
  "is_boundary [] k = (k = 0)"
| "is_boundary (c # cs) k = (k = 0 \<or> (utf8_len c \<le> k \<and> is_boundary cs (k - utf8_len c)))"

fun slice_from :: "utext \<Rightarrow> nat \<Rightarrow> utext" where
  "slice_from [] k = []"
| "slice_from (c # cs) k = (if k = 0 then c # cs else slice_from cs (k - utf8_len c))"

function next_boundary :: "utext \<Rightarrow> nat \<Rightarrow> nat" where
  "next_boundary t k = (if k < str_len t \<and> \<not> is_boundary t k then next_boundary t (Suc k) else k)"
  by pat_completeness auto
termination by (relation "measure (\<lambda>(t, k). str_len t - k)") auto

declare next_boundary.simps [simp del]

definition cut_marker :: utext where
  "cut_marker = uchars ''['' @ [0x2026] @ uchars ''older transcript truncated'' @ [0x2026] @ uchars '']'' @ [10]"

definition cap_transcript :: "utext \<Rightarrow> nat \<Rightarrow> utext" where
  "cap_transcript t max_chars =
     (if str_len t \<le> max_chars then t
      else cut_marker @ slice_from t (next_boundary t (str_len t - max_chars)))"

section \<open>The fold\<close>

definition em_dash :: utext where
  "em_dash = [0x2014]"

definition COMPACTION_SYSTEM_PROMPT :: utext where
  "COMPACTION_SYSTEM_PROMPT =
     uchars ''You are compacting an AI agent's working conversation so it can continue with less context. ''
     @ uchars ''Write a dense summary that preserves everything needed to continue seamlessly: ''
     @ uchars ''the original task or request and its constraints; key facts, decisions, and conclusions so far; ''
     @ uchars ''important tool calls and what they returned (names, ids, paths, keys, values); ''
     @ uchars ''the current state of the work and what remains to be done; ''
     @ uchars ''and any explicit user preferences or corrections. ''
     @ uchars ''Prefer concrete identifiers over vague references. Output only the summary ''
     @ em_dash @ uchars '' no preamble, commentary, or advice.''"

definition COMPACTION_SUMMARY_PREFIX :: utext where
  "COMPACTION_SUMMARY_PREFIX =
     uchars ''[Context compacted '' @ em_dash
     @ uchars '' the earlier conversation was folded into this summary]''"

definition summarize_request :: "utext \<Rightarrow> utext option \<Rightarrow> utext \<Rightarrow> chat_request" where
  "summarize_request model prior transcript =
     (let body =
            (case prior of
               Some p \<Rightarrow>
                 if utrim p \<noteq> [] then
                   uchars ''A summary of the conversation so far already exists:'' @ [10, 10] @ p @ [10, 10]
                   @ uchars ''Fold it together with the transcript below into ONE updated summary.'' @ [10, 10]
                   @ uchars ''Transcript:'' @ [10, 10] @ transcript
                 else uchars ''Summarize this transcript:'' @ [10, 10] @ transcript
             | None \<Rightarrow> uchars ''Summarize this transcript:'' @ [10, 10] @ transcript)
      in (new_request model [system_message COMPACTION_SYSTEM_PROMPT, user_message body])
           \<lparr>rq_max_tokens := Some SUMMARY_MAX_TOKENS\<rparr>)"

definition summary_message :: "utext \<Rightarrow> chat_message" where
  "summary_message summary = user_message (COMPACTION_SUMMARY_PREFIX @ [10, 10] @ summary)"

record compacted =
  cp_folded :: nat
  cp_summary :: utext
  cp_usage :: "usage option"

text \<open>\<open>summarize_turn\<close> (an argument) streams the request's turn and returns what it collected, or an
  error. The list of messages is rewritten in place, so the result carries it.\<close>

definition compact ::
  "(chat_request \<Rightarrow> ('w, 'e, collected_turn) eff) \<Rightarrow> utext \<Rightarrow> chat_message list \<Rightarrow> compaction_config \<Rightarrow> 'w
     \<Rightarrow> (compacted option \<times> chat_message list) \<times> 'w" where
  "compact summarize_turn model ms c w =
     (case split_for_compaction ms (cc_keep_recent c) of
        None \<Rightarrow> ((None, ms), w)
      | Some s \<Rightarrow>
          let head = take (tail_start s - prefix_end s) (drop (prefix_end s) ms);
              max_chars = min (unat (budget_tokens c) div 2 * CHARS_PER_TOKEN) (2 ^ 64 - 1);
              request = summarize_request model None (cap_transcript (render_transcript head) max_chars)
          in case summarize_turn request w of
               (Inl e, w') \<Rightarrow> ((None, ms), w')
             | (Inr turn, w') \<Rightarrow>
                 let summary = utrim (ct_content turn)
                 in if summary = [] then ((None, ms), w')
                    else ((Some \<lparr>cp_folded = tail_start s - prefix_end s, cp_summary = summary,
                                 cp_usage = ct_usage turn\<rparr>,
                           take (prefix_end s) ms @ [summary_message summary] @ drop (tail_start s) ms), w'))"

section \<open>Which messages go\<close>

lemma position_or_len_split:
  "position_or_len p xs \<le> length xs \<and> (\<forall>x\<in>set (take (position_or_len p xs) xs). \<not> p x)
    \<and> (position_or_len p xs < length xs \<longrightarrow> p (xs ! position_or_len p xs))"
  by (induction xs) auto

lemma skip_tools_spec:
  "k \<le> length ms \<Longrightarrow> k \<le> skip_tools ms k \<and> skip_tools ms k \<le> length ms
    \<and> (\<forall>i. k \<le> i \<longrightarrow> i < skip_tools ms k \<longrightarrow> role (ms ! i) = Tool)
    \<and> (skip_tools ms k < length ms \<longrightarrow> role (ms ! skip_tools ms k) \<noteq> Tool)"
proof (induction ms k rule: skip_tools.induct)
  case (1 ms k)
  show ?case
  proof (cases "k < length ms \<and> role (ms ! k) = Tool")
    case True
    then have IH: "Suc k \<le> skip_tools ms (Suc k) \<and> skip_tools ms (Suc k) \<le> length ms
      \<and> (\<forall>i. Suc k \<le> i \<longrightarrow> i < skip_tools ms (Suc k) \<longrightarrow> role (ms ! i) = Tool)
      \<and> (skip_tools ms (Suc k) < length ms \<longrightarrow> role (ms ! skip_tools ms (Suc k)) \<noteq> Tool)"
      using 1 by simp
    have "skip_tools ms k = skip_tools ms (Suc k)"
      using True by (subst skip_tools.simps) simp
    have "role (ms ! i) = Tool" if "k \<le> i" "i < skip_tools ms (Suc k)" for i
      using IH True that by (cases "i = k") auto
    then show ?thesis using IH \<open>skip_tools ms k = skip_tools ms (Suc k)\<close> by simp
  next
    case False
    then have "skip_tools ms k = k" by (subst skip_tools.simps) auto
    then show ?thesis using False 1 by auto
  qed
qed

text \<open>A split names three parts of the history: the system prefix, a head of at least two messages,
  and a tail of at most \<open>keep_recent\<close> messages that does not open with a tool result.\<close>

definition parts :: "chat_message list \<Rightarrow> compaction_split \<Rightarrow> chat_message list \<times> chat_message list \<times> chat_message list" where
  "parts ms s = (take (prefix_end s) ms, take (tail_start s - prefix_end s) (drop (prefix_end s) ms),
                 drop (tail_start s) ms)"

lemma split_parts:
  assumes "split_for_compaction ms k = Some s" and "parts ms s = (prefix, head, tail)"
  shows "ms = prefix @ head @ tail" "\<forall>m\<in>set prefix. role m = System" "2 \<le> length head"
    "role (hd head) \<noteq> System" "tail \<noteq> []" "role (hd tail) \<noteq> Tool" "length tail \<le> k"
    "tail_start s - prefix_end s = length head"
proof -
  define pe where "pe = position_or_len (\<lambda>m. role m \<noteq> System) ms"
  define ts where "ts = skip_tools ms (max (length ms - k) pe)"
  have s: "s = \<lparr>prefix_end = pe, tail_start = ts\<rparr>" "2 \<le> ts - pe" "ts < length ms"
    using assms(1) by (auto simp: split_for_compaction_def pe_def ts_def Let_def split: if_splits)
  have P: "prefix = take pe ms" "head = take (ts - pe) (drop pe ms)" "tail = drop ts ms"
    using assms(2) by (auto simp: parts_def s(1))
  note pe = position_or_len_split[of "\<lambda>m. role m \<noteq> System" ms, folded pe_def]
  have "max (length ms - k) pe \<le> length ms" using pe by auto
  note ts = skip_tools_spec[OF this, folded ts_def]
  have le: "pe \<le> ts" using s(2) by simp
  then show "ms = prefix @ head @ tail"
    unfolding P by (metis append_take_drop_id drop_drop le_add_diff_inverse2)
  show "\<forall>m\<in>set prefix. role m = System" using pe P(1) by blast
  show len: "tail_start s - prefix_end s = length head" using s P by simp
  show "2 \<le> length head" using s P by simp
  have "head \<noteq> [] \<and> hd head = ms ! pe" using s by (auto simp: P hd_drop_conv_nth)
  then show "role (hd head) \<noteq> System" using pe s by auto
  show "tail \<noteq> []" using s P by simp
  have "hd tail = ms ! ts" using s P by (simp add: hd_drop_conv_nth)
  then show "role (hd tail) \<noteq> Tool" using ts s by auto
  show "length tail \<le> k" using ts by (auto simp: P)
qed

lemma compact_shape:
  "case fst (compact summarize_turn model ms c w) of
     (None, ms') \<Rightarrow> ms' = ms
   | (Some r, ms') \<Rightarrow>
       \<exists>prefix head tail. ms = prefix @ head @ tail
         \<and> ms' = prefix @ [summary_message (cp_summary r)] @ tail
         \<and> list_all (\<lambda>m. role m = System) prefix \<and> role (hd head) \<noteq> System
         \<and> cp_folded r = length head \<and> 2 \<le> length head \<and> length ms' < length ms
         \<and> tail \<noteq> [] \<and> length tail \<le> cc_keep_recent c \<and> role (hd tail) \<noteq> Tool
         \<and> cp_summary r \<noteq> []"
proof (cases "split_for_compaction ms (cc_keep_recent c)")
  case None
  then show ?thesis by (simp add: compact_def)
next
  case (Some s)
  obtain prefix head tail where P: "parts ms s = (prefix, head, tail)" by (cases "parts ms s") auto
  note S = split_parts[OF Some P]
  have D: "take (prefix_end s) ms = prefix" "drop (tail_start s) ms = tail"
    using P by (simp_all add: parts_def)
  obtain v w' where v: "summarize_turn (summarize_request model None (cap_transcript
      (render_transcript (take (tail_start s - prefix_end s) (drop (prefix_end s) ms)))
      (min (unat (budget_tokens c) div 2 * CHARS_PER_TOKEN) (2 ^ 64 - 1)))) w = (v, w')"
    by fastforce
  show ?thesis
  proof (cases v)
    case (Inl e)
    then show ?thesis using Some v by (simp add: compact_def Let_def)
  next
    case (Inr turn)
    have W: "\<exists>p h t. ms = p @ h @ t \<and> prefix @ [m] @ tail = p @ [m] @ t
        \<and> list_all (\<lambda>m. role m = System) p \<and> role (hd h) \<noteq> System
        \<and> length head = length h \<and> 2 \<le> length h \<and> length (prefix @ [m] @ tail) < length ms
        \<and> t \<noteq> [] \<and> length t \<le> cc_keep_recent c \<and> role (hd t) \<noteq> Tool" for m
      using S by (intro exI[of _ prefix] exI[of _ head] exI[of _ tail]) (auto simp: list_all_iff)
    show ?thesis
    proof (cases "utrim (ct_content turn) = []")
      case True
      then show ?thesis using Some v Inr by (simp add: compact_def Let_def)
    next
      case False
      then have "fst (compact summarize_turn model ms c w) =
          (Some \<lparr>cp_folded = length head, cp_summary = utrim (ct_content turn), cp_usage = ct_usage turn\<rparr>,
           prefix @ [summary_message (utrim (ct_content turn))] @ tail)"
        using Some v Inr D S(8) by (simp add: compact_def Let_def)
      then show ?thesis using W False by simp
    qed
  qed
qed

text \<open>Compaction is exact and fails open. Whatever the model turn answers, \<open>compact\<close> either
  reports nothing and leaves the history as it is (nothing to fold, an error, or an empty summary),
  or folds exactly a block of at least two messages into one: the leading system messages and at
  least one but no more than \<open>keep_recent\<close> last messages survive as they are, the block starts
  after the system prefix, the rest does not open with a tool result, and the history gets
  shorter.\<close>

theorem compact_exact:
  "case fst (compact summarize_turn model ms c w) of
     (None, ms') \<Rightarrow> ms' = ms
   | (Some r, ms') \<Rightarrow>
       \<exists>prefix head tail. ms = prefix @ head @ tail
         \<and> ms' = prefix @ [summary_message (cp_summary r)] @ tail
         \<and> list_all (\<lambda>m. role m = System) prefix \<and> role (hd head) \<noteq> System
         \<and> cp_folded r = length head \<and> 2 \<le> length head \<and> length ms' < length ms
         \<and> tail \<noteq> [] \<and> length tail \<le> cc_keep_recent c \<and> role (hd tail) \<noteq> Tool
         \<and> cp_summary r \<noteq> []"
  by (rule compact_shape)

section \<open>Calls and their results\<close>

text \<open>A history a model accepts: the results of an assistant turn's calls follow it at once, one for
  each call (\<open>due\<close>: the ids still to be answered), and only assistant turns call tools.\<close>

fun answered :: "utext list \<Rightarrow> chat_message list \<Rightarrow> bool" where
  "answered due [] = (due = [])"
| "answered due (m # ms) =
     (case role m of
        Tool \<Rightarrow> (case tool_call_id m of
                   Some i \<Rightarrow> i \<in> set due \<and> answered (remove1 i due) ms
                 | None \<Rightarrow> False)
      | Assistant \<Rightarrow> due = [] \<and> answered (map tc_id (tool_calls m)) ms
      | _ \<Rightarrow> due = [] \<and> tool_calls m = [] \<and> answered [] ms)"

lemma answered_append:
  "ys = [] \<or> role (hd ys) \<noteq> Tool \<Longrightarrow> answered due (xs @ ys) \<longleftrightarrow> answered due xs \<and> answered [] ys"
proof (induction due xs rule: answered.induct)
  case (1 due)
  then show ?case by (cases ys) (auto split: message_role.splits)
next
  case (2 due m ms)
  then show ?case by (auto split: message_role.splits option.splits)
qed

lemma answered_systems:
  "\<forall>m\<in>set xs. role m = System \<Longrightarrow>
     answered [] (xs @ ys) \<longleftrightarrow> (\<forall>m\<in>set xs. tool_calls m = []) \<and> answered [] ys"
  by (induction xs) auto

lemma answered_text:
  "r = User \<or> r = System \<Longrightarrow> answered due (text_message r c # ms) \<longleftrightarrow> due = [] \<and> answered [] ms"
  by (auto simp: text_message_def)

lemma compact_answered:
  assumes "answered [] ms"
  shows "answered [] (snd (fst (compact summarize_turn model ms c w)))"
proof -
  obtain r ms' where r: "fst (compact summarize_turn model ms c w) = (r, ms')" by fastforce
  show ?thesis
  proof (cases r)
    case None
    then show ?thesis using compact_shape[where summarize_turn = summarize_turn and model = model and ms = ms and c = c and w = w] r assms by simp
  next
    case (Some x)
    then obtain prefix head tail where P: "ms = prefix @ head @ tail"
        "ms' = prefix @ [summary_message (cp_summary x)] @ tail" "\<forall>m\<in>set prefix. role m = System"
        "role (hd tail) \<noteq> Tool"
      using compact_shape[where summarize_turn = summarize_turn and model = model and ms = ms and c = c and w = w] r by (auto simp: list_all_iff)
    have "answered [] tail" "\<forall>m\<in>set prefix. tool_calls m = []"
      using assms P answered_append[of tail "[]" "prefix @ head"] answered_systems[of prefix "head @ tail"]
      by auto
    then show ?thesis
      using P answered_systems[of prefix "[summary_message (cp_summary x)] @ tail"] r
      by (simp add: summary_message_def user_message_def text_message_def)
  qed
qed

text \<open>C31: compaction never separates a tool call from its results. If in the history every assistant
  turn's calls are answered, each once and before anything else, the same holds of the history
  compaction leaves, whatever it folded.\<close>

theorem compact_keeps_answers:
  assumes "answered [] ms"
  shows "answered [] (snd (fst (compact summarize_turn model ms c w)))"
  using assms by (rule compact_answered)

text \<open>A history of four messages with one answered call.\<close>

abbreviation c_ask :: chat_message where
  "c_ask \<equiv> (text_message Assistant [])\<lparr>tool_calls := [\<lparr>tc_id = [1], tc_name = [102], tc_arguments = []\<rparr>]\<rparr>"

abbreviation c_reply :: chat_message where
  "c_reply \<equiv> (text_message Tool [7])\<lparr>tool_call_id := Some [1]\<rparr>"

theorem compact_keeps_answers_witness:
  "answered [] (snd (fst (compact (\<lambda>rq. fail ()) [] [user_message [1], c_ask, c_reply, user_message [2]]
     default_compaction ())))"
  by (rule compact_keeps_answers) (simp add: user_message_def text_message_def)

text \<open>The capped transcript keeps an end of the transcript, cut at a character, within the limit.\<close>

lemma slice_from_boundary:
  "is_boundary t k \<Longrightarrow> \<exists>l. t = l @ slice_from t k \<and> str_len l = k"
proof (induction t k rule: slice_from.induct)
  case (2 c cs k)
  show ?case
  proof (cases "k = 0")
    case False
    then obtain l where "cs = l @ slice_from cs (k - utf8_len c)" "str_len l = k - utf8_len c"
      using 2 by auto
    then show ?thesis using 2 False by (intro exI[of _ "c # l"]) (auto simp: str_len_def)
  qed (simp add: str_len_def)
qed (simp add: str_len_def)

lemma is_boundary_end: "is_boundary t (str_len t)"
  by (induction t) (auto simp: str_len_def)

lemma next_boundary_spec:
  "k \<le> str_len t \<Longrightarrow> k \<le> next_boundary t k \<and> is_boundary t (next_boundary t k)
     \<and> next_boundary t k \<le> str_len t"
proof (induction t k rule: next_boundary.induct)
  case (1 t k)
  show ?case
  proof (cases "k < str_len t \<and> \<not> is_boundary t k")
    case True
    then have "next_boundary t k = next_boundary t (Suc k)" by (subst next_boundary.simps) simp
    then show ?thesis using 1 True by simp
  next
    case False
    then have "next_boundary t k = k" by (subst next_boundary.simps) auto
    then show ?thesis using 1 False is_boundary_end[of t] by (cases "k = str_len t") auto
  qed
qed

lemma cap_transcript_keeps_end:
  "\<exists>l r. t = l @ r \<and> str_len r \<le> max_chars
    \<and> cap_transcript t max_chars = (if str_len t \<le> max_chars then t else cut_marker @ r)"
proof (cases "str_len t \<le> max_chars")
  case True
  then show ?thesis by (intro exI[of _ "[]"] exI[of _ t]) (simp add: cap_transcript_def)
next
  case False
  let ?k = "next_boundary t (str_len t - max_chars)"
  have k: "str_len t - max_chars \<le> ?k" "is_boundary t ?k"
    using next_boundary_spec[of "str_len t - max_chars" t] by auto
  then obtain l where l: "t = l @ slice_from t ?k" "str_len l = ?k" using slice_from_boundary by blast
  have "str_len t = str_len l + str_len (slice_from t ?k)"
    by (subst l(1)) (simp add: str_len_def)
  then show ?thesis
    using l k False by (intro exI[of _ l] exI[of _ "slice_from t ?k"]) (auto simp: cap_transcript_def)
qed

end
