(* ===== verification/Llm_Tools.thy ===== *)
theory Llm_Tools
  imports Llm_Compact Auto_Model
begin

text \<open>
  The tool registry and its guarded dispatch (\<open>catalerum-core/src/tool.rs\<close>). A tool is its name,
  its advertised description and schema, and the capability it requires; what it does when it is
  invoked, and what a profile's gate rules, are functions of an environment. A hash map is the
  list of its entries in iteration order, its keys distinct.
\<close>

section \<open>Registry\<close>

record tool =
  t_name :: string
  t_description_for :: "string list \<Rightarrow> utext"
  t_required :: "capability option"
  t_schema :: json

record tool_registry =
  r_static :: "tool list"
  r_dynamic :: "tool list"

definition named :: "utext \<Rightarrow> tool \<Rightarrow> bool" where
  "named n t \<longleftrightarrow> uchars (t_name t) = n"

definition get_tool :: "tool_registry \<Rightarrow> utext \<Rightarrow> tool option" where
  "get_tool r n =
     (case find (named n) (r_static r) of Some t \<Rightarrow> Some t | None \<Rightarrow> find (named n) (r_dynamic r))"

definition spec_for :: "string list \<Rightarrow> tool \<Rightarrow> tool_spec" where
  "spec_for modalities t =
     \<lparr>ts_name = uchars (t_name t), ts_description = t_description_for t modalities, ts_parameters = t_schema t\<rparr>"

definition passes :: "string list option \<Rightarrow> tool \<Rightarrow> bool" where
  "passes allowed t \<longleftrightarrow> (case allowed of None \<Rightarrow> True | Some a \<Rightarrow> t_name t \<in> set a)"

definition visible_tools :: "tool_registry \<Rightarrow> string list option \<Rightarrow> tool list" where
  "visible_tools r allowed =
     filter (passes allowed) (r_static r) @
     filter (\<lambda>t. passes allowed t \<and> \<not> (\<exists>s\<in>set (r_static r). t_name s = t_name t)) (r_dynamic r)"

definition specs_for_model :: "tool_registry \<Rightarrow> string list option \<Rightarrow> string list \<Rightarrow> tool_spec list" where
  "specs_for_model r allowed modalities = map (spec_for modalities) (visible_tools r allowed)"

definition specs_for_model_names :: "tool_registry \<Rightarrow> string list \<Rightarrow> string list \<Rightarrow> tool_spec list" where
  "specs_for_model_names r names modalities =
     map (spec_for modalities) (List.map_filter (\<lambda>n. get_tool r (uchars n)) names)"

text \<open>Sorting by Rust's order on strings.\<close>

fun insert_str :: "('a \<Rightarrow> string) \<Rightarrow> 'a \<Rightarrow> 'a list \<Rightarrow> 'a list" where
  "insert_str k x [] = [x]"
| "insert_str k x (y # ys) = (if str_cmp (k x) (k y) = Less then x # y # ys else y # insert_str k x ys)"

definition sort_str :: "('a \<Rightarrow> string) \<Rightarrow> 'a list \<Rightarrow> 'a list" where
  "sort_str k xs = foldl (\<lambda>acc x. insert_str k x acc) [] xs"

fun add_group :: "string \<Rightarrow> string \<Rightarrow> (string \<times> string list) list \<Rightarrow> (string \<times> string list) list" where
  "add_group d n [] = [(d, [n])]"
| "add_group d n ((d', ns) # gs) = (if d' = d then (d', ns @ [n]) # gs else (d', ns) # add_group d n gs)"

definition domain_of :: "tool \<Rightarrow> string" where
  "domain_of t = (case t_required t of None \<Rightarrow> ''general'' | Some c \<Rightarrow> res_domain (resource c))"

definition domain_groups :: "tool_registry \<Rightarrow> string list option \<Rightarrow> (string \<times> string list) list" where
  "domain_groups r allowed =
     sort_str fst (map (\<lambda>(d, ns). (d, sort_str id ns))
       (fold (\<lambda>t. add_group (domain_of t) (t_name t)) (visible_tools r allowed) []))"

section \<open>Dispatch\<close>

datatype core_error =
    NotFound
  | Unauthorized string
  | Denied string
  | OtherError string

fun error_text :: "core_error \<Rightarrow> string" where
  "error_text NotFound = ''not found''"
| "error_text (Unauthorized s) = ''unauthorized: '' @ s"
| "error_text (Denied s) = ''denied by policy: '' @ s"
| "error_text (OtherError s) = s"

record tool_context =
  x_workspace_id :: "string option"
  x_user_id :: "string option"
  x_agent_id :: "string option"
  x_grant_id :: "string option"
  x_capabilities :: "capability list option"
  x_dry_run :: bool
  x_gate :: bool
  x_conversation_id :: "string option"
  x_ui_id :: "string option"
  x_registry :: "tool_registry option"

datatype gate_phase = CallPhase | OutputPhase

datatype gate_verdict = Allow | Deny string | Defer json

text \<open>What is outside: the tools' own code and the gate's, both acting on the world \<open>'w\<close>.\<close>

record 'w tool_env =
  invoke :: "tool \<Rightarrow> json \<Rightarrow> tool_context \<Rightarrow> ('w, core_error, json) eff"
  invoke_for_model :: "tool \<Rightarrow> json \<Rightarrow> tool_context \<Rightarrow> string list \<Rightarrow> ('w, core_error, json) eff"
  review :: "gate_phase \<Rightarrow> tool \<Rightarrow> json \<Rightarrow> json option \<Rightarrow> tool_context \<Rightarrow> 'w \<Rightarrow> gate_verdict \<times> 'w"

definition action_token :: "action \<Rightarrow> string" where
  "action_token a = (case a of Any \<Rightarrow> ''*'' | Read \<Rightarrow> ''read'' | Write \<Rightarrow> ''write'' | Delete \<Rightarrow> ''delete''
     | Use \<Rightarrow> ''use'' | Run \<Rightarrow> ''run'' | Query \<Rightarrow> ''query'' | Search \<Rightarrow> ''search'' | Expose \<Rightarrow> ''expose'')"

definition covered :: "tool_context \<Rightarrow> tool \<Rightarrow> bool" where
  "covered ctx t \<longleftrightarrow>
     (case (x_capabilities ctx, t_required t) of
        (Some caps, Some req) \<Rightarrow> list_ex (\<lambda>held. cap_covers held req) caps
      | _ \<Rightarrow> True)"

definition uncovered_error :: "tool \<Rightarrow> core_error" where
  "uncovered_error t =
     (case t_required t of
        Some req \<Rightarrow> Unauthorized (''tool `'' @ t_name t @ ''` requires '' @ res_domain (resource req) @ '':''
          @ action_token (action req) @ '' which the caller's grant does not cover'')
      | None \<Rightarrow> NotFound)"

definition run_gated ::
  "'w tool_env \<Rightarrow> tool_registry \<Rightarrow> tool \<Rightarrow> json \<Rightarrow> tool_context \<Rightarrow> string list option \<Rightarrow> ('w, core_error, json) eff" where
  "run_gated E r t args ctx modalities w =
     (if x_dry_run ctx
      then (Inr (JObj [(''args'', args), (''dry_run'', JBool True), (''tool'', JStr (t_name t))]), w)
      else
        let ctx' = ctx\<lparr>x_registry := Some r\<rparr>
        in case (case modalities of Some ms \<Rightarrow> invoke_for_model E t args ctx' ms w
                  | None \<Rightarrow> invoke E t args ctx' w) of
             (Inl e, w') \<Rightarrow> (Inl e, w')
           | (Inr out, w') \<Rightarrow>
               if x_gate ctx then
                 (case review E OutputPhase t JNull (Some out) ctx w' of
                    (Deny reason, w'') \<Rightarrow>
                      (Inr (JObj [(''policy_withheld'', JBool True), (''reason'', JStr reason)]), w'')
                  | (_, w'') \<Rightarrow> (Inr out, w''))
               else (Inr out, w'))"

definition dispatch_inner ::
  "'w tool_env \<Rightarrow> tool_registry \<Rightarrow> utext \<Rightarrow> json \<Rightarrow> tool_context \<Rightarrow> string list option \<Rightarrow> ('w, core_error, json) eff" where
  "dispatch_inner E r n args ctx modalities w =
     (case get_tool r n of
        None \<Rightarrow> (Inl NotFound, w)
      | Some t \<Rightarrow>
          if \<not> covered ctx t then (Inl (uncovered_error t), w)
          else if x_gate ctx then
            (case review E CallPhase t args None ctx w of
               (Allow, w') \<Rightarrow> run_gated E r t args ctx modalities w'
             | (Deny reason, w') \<Rightarrow> (Inl (Denied reason), w')
             | (Defer result, w') \<Rightarrow> (Inr result, w'))
          else run_gated E r t args ctx modalities w)"

definition dispatch_tool where
  "dispatch_tool E r n args ctx = dispatch_inner E r n args ctx None"

definition dispatch_for_model where
  "dispatch_for_model E r n args ctx modalities = dispatch_inner E r n args ctx (Some modalities)"

section \<open>What dispatch may run\<close>

lemma get_tool_named: "get_tool r n = Some t \<Longrightarrow> uchars (t_name t) = n"
  by (auto simp: get_tool_def named_def find_Some_iff split: option.splits)

text \<open>Two environments that agree, apart from dry runs, on the tools a context's capabilities
  cover.\<close>

definition same_within :: "tool_context \<Rightarrow> 'w tool_env \<Rightarrow> 'w tool_env \<Rightarrow> bool" where
  "same_within ctx E F \<longleftrightarrow> review E = review F \<and>
     (\<forall>t. covered ctx t \<and> \<not> x_dry_run ctx \<longrightarrow> invoke E t = invoke F t \<and> invoke_for_model E t = invoke_for_model F t)"

lemma run_gated_within:
  assumes "same_within ctx E F" "covered ctx t"
  shows "run_gated E r t args ctx modalities w = run_gated F r t args ctx modalities w"
proof (cases "x_dry_run ctx")
  case False
  then have eqs: "review E = review F" "invoke E t = invoke F t" "invoke_for_model E t = invoke_for_model F t"
    using assms by (simp_all add: same_within_def)
  show ?thesis unfolding run_gated_def eqs by (rule refl)
qed (simp add: run_gated_def)

lemma dispatch_inner_within:
  assumes "same_within ctx E F"
  shows "dispatch_inner E r n args ctx modalities = dispatch_inner F r n args ctx modalities"
proof (rule ext)
  fix w
  have "review E = review F" using assms by (simp add: same_within_def)
  then show "dispatch_inner E r n args ctx modalities w = dispatch_inner F r n args ctx modalities w"
    using run_gated_within[OF assms] by (auto simp: dispatch_inner_def split: option.splits gate_verdict.splits prod.splits)
qed

lemma dispatch_for_model_within:
  "same_within ctx E F \<Longrightarrow> dispatch_for_model E r n args ctx ms = dispatch_for_model F r n args ctx ms"
  by (simp add: dispatch_for_model_def dispatch_inner_within)

text \<open>C4: dispatch runs a tool only within authority. Its result and its effect on the world do not
  depend on what any tool does that the caller's capabilities do not cover, nor, in a dry run, on
  what any tool does; and a call of an uncovered tool, one the gate denies and one it defers
  answer without running the tool.\<close>

theorem dispatch_within_authority:
  "(\<forall>F. same_within ctx E F \<longrightarrow> dispatch_inner E r n args ctx ms = dispatch_inner F r n args ctx ms)
   \<and> (\<forall>t. get_tool r n = Some t \<longrightarrow> \<not> covered ctx t \<longrightarrow>
        dispatch_inner E r n args ctx ms w = (Inl (uncovered_error t), w))
   \<and> (\<forall>t reason w'. get_tool r n = Some t \<longrightarrow> covered ctx t \<longrightarrow> x_gate ctx \<longrightarrow>
        review E CallPhase t args None ctx w = (Deny reason, w') \<longrightarrow>
        dispatch_inner E r n args ctx ms w = (Inl (Denied reason), w'))
   \<and> (\<forall>t j w'. get_tool r n = Some t \<longrightarrow> covered ctx t \<longrightarrow> x_gate ctx \<longrightarrow>
        review E CallPhase t args None ctx w = (Defer j, w') \<longrightarrow>
        dispatch_inner E r n args ctx ms w = (Inr j, w'))"
  using dispatch_inner_within by (auto simp: dispatch_inner_def)

definition wiper :: tool where
  "wiper = \<lparr>t_name = ''wipe'', t_description_for = (\<lambda>_. []),
     t_required = Some (capability_new Delete (resource_domain ''storage'')), t_schema = JNull\<rparr>"

definition reader_ctx :: tool_context where
  "reader_ctx = \<lparr>x_workspace_id = None, x_user_id = None, x_agent_id = None, x_grant_id = None,
     x_capabilities = Some [capability_new Read resource_any], x_dry_run = False, x_gate = False,
     x_conversation_id = None, x_ui_id = None, x_registry = None\<rparr>"

theorem dispatch_within_authority_witness:
  "fst (dispatch_inner \<lparr>invoke = (\<lambda>t j c w. (Inr JNull, True)), invoke_for_model = (\<lambda>t j c ms w. (Inr JNull, True)),
       review = (\<lambda>p t j out c w. (Allow, w))\<rparr>
     \<lparr>r_static = [wiper], r_dynamic = []\<rparr> (uchars ''wipe'') JNull reader_ctx None False) =
   Inl (uncovered_error wiper)"
  using dispatch_within_authority[of reader_ctx
      "\<lparr>invoke = (\<lambda>t j c w. (Inr JNull, True)), invoke_for_model = (\<lambda>t j c ms w. (Inr JNull, True)),
        review = (\<lambda>p t j out c w. (Allow, w))\<rparr>"
      "\<lparr>r_static = [wiper], r_dynamic = []\<rparr>" "uchars ''wipe''" JNull None False]
  by (simp add: get_tool_def named_def wiper_def reader_ctx_def covered_def capability_new_def
      cap_covers_def action_covers_def resource_domain_def)

end
