(* ===== verification/Llm_Agent.thy ===== *)
theory Llm_Agent
  imports Llm_Tools
begin

text \<open>
  The agent loop (\<open>catalerum-llm/src/agent.rs\<close>): stream a model turn, run the tools it calls, append
  the results, and go on until the model answers without a call or a bound is reached. The model
  stream, the observer, the stop button, the tools and the JSON library are an environment acting
  on a world; a stream is the finite list of what it yields, with the point where the stop signal
  is seen first, if it is.
\<close>

section \<open>The environment\<close>

record completed_message =
  cm_role :: message_role
  cm_content :: utext
  cm_tool_calls :: "tool_call list"
  cm_tool_call_id :: "utext option"
  cm_tool_is_error :: bool
  cm_tool_duration_ms :: "nat option"

datatype stream_poll = StopSeen | Yielded "core_error + stream_event"

record 'w agent_env =
  e_tools :: "'w tool_env"
  e_cancelled :: "'w \<Rightarrow> bool \<times> 'w"
  e_interrupted :: "'w \<Rightarrow> bool \<times> 'w"
  e_open :: "chat_request \<Rightarrow> ('w, core_error, stream_poll list) eff"
  e_on_event :: "stream_event \<Rightarrow> ('w, core_error, unit) eff"
  e_on_message :: "completed_message \<Rightarrow> ('w, core_error, unit) eff"
  e_poll_input :: "('w, core_error, chat_message list) eff"
  e_elapsed_ms :: "'w \<Rightarrow> nat \<times> 'w"
  e_parse_json :: "utext \<Rightarrow> string + json"
  e_json_text :: "json \<Rightarrow> utext"
  e_error_json :: "utext \<Rightarrow> utext"
  e_media :: "json \<Rightarrow> media_input list option"

record agent_config =
  g_max_iterations :: nat
  g_max_identical :: nat
  g_max_errors :: nat
  g_cost_limit :: "f64 option"
  g_discovery :: "string list"
  g_modalities :: "string list"
  g_compaction :: compaction_config

record tool_invocation =
  iv_call :: tool_call
  iv_result :: utext
  iv_is_error :: bool
  iv_duration_ms :: nat
  iv_media :: "media_input list"

record agent_outcome =
  o_content :: utext
  o_messages :: "chat_message list"
  o_invocations :: "tool_invocation list"
  o_finish_reason :: "finish_reason option"
  o_usage :: "usage option"
  o_iterations :: nat
  o_hit_iteration_cap :: bool
  o_hit_tool_loop_cap :: bool
  o_hit_cost_limit :: bool
  o_stopped :: bool
  o_compactions :: nat
  o_context_tokens :: "u32 option"

definition default_outcome :: agent_outcome where
  "default_outcome = \<lparr>o_content = [], o_messages = [], o_invocations = [], o_finish_reason = None,
     o_usage = None, o_iterations = 0, o_hit_iteration_cap = False, o_hit_tool_loop_cap = False,
     o_hit_cost_limit = False, o_stopped = False, o_compactions = 0, o_context_tokens = None\<rparr>"

section \<open>One streamed turn\<close>

record streamed_turn =
  st_collected :: collected_turn
  st_errored :: bool
  st_stopped :: bool

definition streamed :: "folding \<Rightarrow> bool \<Rightarrow> streamed_turn" where
  "streamed f stop = \<lparr>st_collected = collected f, st_errored = f_errored f, st_stopped = stop\<rparr>"

fun stream_loop ::
  "(stream_event \<Rightarrow> ('w, core_error, unit) eff) \<Rightarrow> stream_poll list \<Rightarrow> folding \<Rightarrow> ('w, core_error, streamed_turn) eff" where
  "stream_loop observe [] f = ret (streamed f False)"
| "stream_loop observe (StopSeen # ps) f = ret (streamed f True)"
| "stream_loop observe (Yielded (Inl e) # ps) f = fail e"
| "stream_loop observe (Yielded (Inr ev) # ps) f =
     bindM (observe ev) (\<lambda>_. stream_loop observe ps (fold_event ev f))"

definition stream_turn ::
  "'w agent_env \<Rightarrow> (stream_event \<Rightarrow> ('w, core_error, unit) eff) \<Rightarrow> chat_request \<Rightarrow> ('w, core_error, streamed_turn) eff" where
  "stream_turn E observe rq = bindM (e_open E rq) (\<lambda>ps. stream_loop observe ps folding0)"

definition summarize_turn :: "'w agent_env \<Rightarrow> chat_request \<Rightarrow> ('w, core_error, collected_turn) eff" where
  "summarize_turn E rq =
     bindM (stream_turn E (\<lambda>_. ret ()) rq) (\<lambda>t.
       if st_errored t then fail (OtherError ''provider error: compaction summarize stream errored'')
       else if st_stopped t then fail (OtherError ''provider error: compaction summarize turn cancelled'')
       else ret (st_collected t))"

section \<open>One tool call\<close>

definition MODEL_MEDIA_RESULT_FIELD :: string where
  "MODEL_MEDIA_RESULT_FIELD = ''__catalerum_model_media''"

definition value_to_string :: "'w agent_env \<Rightarrow> json \<Rightarrow> utext" where
  "value_to_string E v = (case v of JStr s \<Rightarrow> uchars s | _ \<Rightarrow> e_json_text E v)"

text \<open>\<open>json!({"error": msg}).to_string()\<close>.\<close>

definition error_result :: "'w agent_env \<Rightarrow> utext \<Rightarrow> utext" where
  "error_result E msg = e_error_json E msg"

text \<open>\<open>remove\<close> on the result when it is an object: what is left, and the media field.\<close>

fun take_media :: "json \<Rightarrow> json \<times> json option" where
  "take_media (JObj m) =
     (JObj (filter (\<lambda>kx. fst kx \<noteq> MODEL_MEDIA_RESULT_FIELD) m), map_of m MODEL_MEDIA_RESULT_FIELD)"
| "take_media v = (v, None)"

definition run_tool ::
  "'w agent_env \<Rightarrow> tool_registry \<Rightarrow> tool_context \<Rightarrow> tool_call \<Rightarrow> string list \<Rightarrow> 'w
     \<Rightarrow> (utext \<times> bool \<times> media_input list) \<times> 'w" where
  "run_tool E reg ctx call modalities w =
     (case (if utrim (tc_arguments call) = [] then Inr (JObj []) else e_parse_json E (tc_arguments call)) of
        Inl e \<Rightarrow> ((error_result E (uchars (''invalid tool arguments: '' @ e)), True, []), w)
      | Inr args \<Rightarrow>
          (case dispatch_for_model (e_tools E) reg (tc_name call) args ctx modalities w of
             (Inr v, w') \<Rightarrow>
               (case take_media v of (v', enc) \<Rightarrow>
                  let med = (if list_ex (\<lambda>m. eq_ignore_ascii_case m ''image'') modalities
                               then (case Option.bind enc (e_media E) of Some ms \<Rightarrow> ms | None \<Rightarrow> [])
                               else [])
                  in ((value_to_string E v', False, med), w'))
           | (Inl e, w') \<Rightarrow> ((error_result E (uchars (error_text e)), True, []), w')))"

definition dispatch_one ::
  "'w agent_env \<Rightarrow> tool_registry \<Rightarrow> tool_context \<Rightarrow> tool_call \<Rightarrow> string list \<Rightarrow> 'w \<Rightarrow> tool_invocation \<times> 'w" where
  "dispatch_one E reg ctx call modalities w =
     (case run_tool E reg ctx call modalities w of ((result, is_error, med), w') \<Rightarrow>
        (case e_elapsed_ms E w' of (ms, w'') \<Rightarrow>
          (\<lparr>iv_call = call, iv_result = result, iv_is_error = is_error, iv_duration_ms = ms,
            iv_media = med\<rparr>, w'')))"

definition cancelled_invocation :: "'w agent_env \<Rightarrow> tool_call \<Rightarrow> tool_invocation" where
  "cancelled_invocation E call =
     \<lparr>iv_call = call,
      iv_result = error_result E (uchars ''cancelled '' @ em_dash
        @ uchars '' the user stopped generation before this tool call completed''),
      iv_is_error = True, iv_duration_ms = 0, iv_media = []\<rparr>"

text \<open>The frame cap of a result: the longest prefix of at most 16 KiB that ends at a character.\<close>

definition TOOL_RESULT_WIRE_CAP :: nat where
  "TOOL_RESULT_WIRE_CAP = 16 * 1024"

fun prev_boundary :: "utext \<Rightarrow> nat \<Rightarrow> nat" where
  "prev_boundary t 0 = 0"
| "prev_boundary t (Suc k) = (if is_boundary t (Suc k) then Suc k else prev_boundary t k)"

fun slice_to :: "utext \<Rightarrow> nat \<Rightarrow> utext" where
  "slice_to [] k = []"
| "slice_to (c # cs) k = (if k = 0 then [] else c # slice_to cs (k - utf8_len c))"

definition cap_result :: "utext \<Rightarrow> utext \<times> bool" where
  "cap_result t =
     (if str_len t \<le> TOOL_RESULT_WIRE_CAP then (t, False)
      else (slice_to t (prev_boundary t TOOL_RESULT_WIRE_CAP), True))"

definition assistant_message :: "collected_turn \<Rightarrow> chat_message" where
  "assistant_message t =
     (text_message Assistant (ct_content t))
       \<lparr>tool_calls := ct_tool_calls t,
        reasoning := (if ct_reasoning t \<noteq> [] then Some (ct_reasoning t) else None),
        reasoning_details := ct_reasoning_details t\<rparr>"

definition tool_message :: "tool_call \<Rightarrow> utext \<Rightarrow> chat_message" where
  "tool_message call result =
     (text_message Tool result)\<lparr>tool_call_id := Some (tc_id call), msg_name := Some (tc_name call)\<rparr>"

definition last_assistant_text :: "chat_message list \<Rightarrow> utext" where
  "last_assistant_text ms =
     (case find (\<lambda>m. role m = Assistant) (rev ms) of Some m \<Rightarrow> content m | None \<Rightarrow> [])"

text \<open>\<open>accumulate_usage\<close>; a sum of \<open>u32\<close> counters wraps, as in a release build.\<close>

definition add_cost :: "f64 option \<Rightarrow> f64 option \<Rightarrow> f64 option" where
  "add_cost a b = (case (a, b) of (Some x, Some y) \<Rightarrow> Some (f64_add x y) | (Some x, None) \<Rightarrow> Some x | (None, y) \<Rightarrow> y)"

definition accumulate_usage :: "usage option \<Rightarrow> usage option \<Rightarrow> usage option" where
  "accumulate_usage acc turn =
     (case turn of
        None \<Rightarrow> acc
      | Some t \<Rightarrow>
          (case acc of
             None \<Rightarrow> Some t
           | Some a \<Rightarrow> Some
               \<lparr>prompt_tokens = prompt_tokens a + prompt_tokens t,
                completion_tokens = completion_tokens a + completion_tokens t,
                total_tokens = total_tokens a + total_tokens t,
                cost_usd = add_cost (cost_usd a) (cost_usd t),
                cached_tokens = cached_tokens a + cached_tokens t,
                cache_creation_tokens = cache_creation_tokens a + cache_creation_tokens t\<rparr>))"

section \<open>Identity of a call\<close>

fun intersperse_comma :: "utext list \<Rightarrow> utext" where
  "intersperse_comma [] = []"
| "intersperse_comma [t] = t"
| "intersperse_comma (t # ts) = t @ 44 # intersperse_comma ts"

fun canonical_json :: "(json \<Rightarrow> utext) \<Rightarrow> json \<Rightarrow> utext" where
  "canonical_json render JNull = uchars ''null''"
| "canonical_json render (JBool b) = uchars (if b then ''true'' else ''false'')"
| "canonical_json render (JNum n) = render (JNum n)"
| "canonical_json render (JStr s) = render (JStr s)"
| "canonical_json render (JArr vs) =
     uchars ''['' @ intersperse_comma (map (canonical_json render) vs) @ uchars '']''"
| "canonical_json render (JObj m) =
     uchars ''{'' @ intersperse_comma (map (\<lambda>kt. render (JStr (fst kt)) @ 58 # snd kt)
       (sort_str fst (map (\<lambda>kv. (fst kv, canonical_json render (snd kv))) m))) @ uchars ''}''"

definition tool_call_signature :: "'w agent_env \<Rightarrow> tool_call \<Rightarrow> utext" where
  "tool_call_signature E call =
     tc_name call @ 0 #
       (case e_parse_json E (tc_arguments call) of
          Inr v \<Rightarrow> canonical_json (e_json_text E) v
        | Inl e \<Rightarrow> utrim (tc_arguments call))"

section \<open>The advertised tools\<close>

definition discovery_note :: "tool_registry \<Rightarrow> string list option \<Rightarrow> utext" where
  "discovery_note reg allowed =
     uchars ''## Tool discovery'' @ [10]
     @ uchars ''To keep your context lean, only a small pinned subset of the available ''
     @ uchars ''tools is advertised to you up front. Many more exist '' @ em_dash
     @ uchars '' their names are listed by area below. To call one, first load it through the advertised ''
     @ uchars ''discovery tools: describe what you need to `search_tools`, or browse the ''
     @ uchars ''catalog with `list_tools` (pass `names` to select specific ones). Every ''
     @ uchars ''tool a discovery result returns becomes callable from your next step. ''
     @ uchars ''Never guess an unloaded tool's arguments '' @ em_dash
     @ uchars '' load it first. Tools loaded ''
     @ uchars ''through a discovery call earlier in this conversation are still loaded: ''
     @ uchars ''call them directly, do NOT run `search_tools`/`list_tools` again for a ''
     @ uchars ''tool you already discovered. Search only for tools you have not loaded yet.'' @ [10, 10]
     @ uchars ''Available tools by area:'' @ [10]
     @ concat (map (\<lambda>(d, ns). uchars ''- '' @ uchars d @ uchars '': ''
          @ uchars (concat (case ns of [] \<Rightarrow> [] | n # ns' \<Rightarrow> n # map (\<lambda>x. '', '' @ x) ns')) @ [10])
        (domain_groups reg allowed))"

text \<open>The names of a discovery result that are new: in the allow-list, not advertised, not repeated.\<close>

definition add_fresh :: "string list option \<Rightarrow> tool_spec list \<Rightarrow> string \<Rightarrow> string list \<Rightarrow> string list" where
  "add_fresh allowed advertised n fresh =
     (if (\<exists>a. allowed = Some a \<and> n \<notin> set a) \<or> (\<exists>s\<in>set advertised. ts_name s = uchars n) \<or> n \<in> set fresh
      then fresh else fresh @ [n])"

fun as_array :: "json \<Rightarrow> json list option" where
  "as_array (JArr xs) = Some xs"
| "as_array _ = None"

definition listed_names :: "string \<Rightarrow> (json \<Rightarrow> string option) \<Rightarrow> json \<Rightarrow> string list" where
  "listed_names field name v =
     (case Option.bind (obj_get v field) as_array of
        None \<Rightarrow> []
      | Some items \<Rightarrow> List.map_filter name items)"

definition widen_with ::
  "string \<Rightarrow> (json \<Rightarrow> string option) \<Rightarrow> 'w agent_env \<Rightarrow> tool_registry \<Rightarrow> string list option \<Rightarrow> string list
     \<Rightarrow> utext \<Rightarrow> tool_spec list \<Rightarrow> tool_spec list" where
  "widen_with field name E reg allowed modalities result advertised =
     (case e_parse_json E result of
        Inl e \<Rightarrow> advertised
      | Inr v \<Rightarrow>
          advertised @ specs_for_model_names reg
            (fold (add_fresh allowed advertised) (listed_names field name v) []) modalities)"

definition widen_advertised where
  "widen_advertised E = widen_with ''tools'' (\<lambda>item. Option.bind (obj_get item ''name'') as_str) E"

definition widen_explicitly_advertised where
  "widen_explicitly_advertised E = widen_with ''advertise_tools'' as_str E"

definition rewiden_from_history ::
  "'w agent_env \<Rightarrow> tool_registry \<Rightarrow> string list option \<Rightarrow> chat_message list \<Rightarrow> string list \<Rightarrow> string list
     \<Rightarrow> tool_spec list \<Rightarrow> tool_spec list" where
  "rewiden_from_history E reg allowed history discovery modalities advertised =
     (let ids = set (map tc_id (filter (\<lambda>c. tc_name c \<in> uchars ` set discovery)
                  (concat (map tool_calls (filter (\<lambda>m. role m = Assistant) history)))))
      in fold (\<lambda>m adv.
           if role m \<noteq> Tool then adv
           else widen_explicitly_advertised E reg allowed modalities (content m)
                  (if \<exists>i\<in>ids. tool_call_id m = Some i
                   then widen_advertised E reg allowed modalities (content m) adv else adv))
         history advertised)"

section \<open>The loop\<close>

text \<open>What the loop keeps between rounds (the tools it advertises, the messages, the outcome so far,
  the streaks) and within the round of calls (whether a stop was seen, whether a streak reached
  its bound, the media to attach).\<close>

record agent_state =
  a_tools :: "tool_spec list"
  a_messages :: "chat_message list"
  a_out :: agent_outcome
  a_retried :: bool
  a_last_usage :: "usage option"
  a_signature :: "utext option"
  a_identical :: nat
  a_errors :: nat
  a_stop :: bool
  a_capped :: bool
  a_media :: "media_input list"

text \<open>What does not change during a run.\<close>

record 'w run_args =
  ra_env :: "'w agent_env"
  ra_request :: chat_request
  ra_registry :: tool_registry
  ra_ctx :: tool_context
  ra_config :: agent_config
  ra_allowed :: "string list option"
  ra_discovery :: bool

definition finish_with :: "utext \<Rightarrow> agent_state \<Rightarrow> agent_outcome" where
  "finish_with text s = (a_out s)\<lparr>o_content := text, o_messages := a_messages s\<rparr>"

definition completed_assistant :: "utext \<Rightarrow> tool_call list \<Rightarrow> completed_message" where
  "completed_assistant text calls =
     \<lparr>cm_role = Assistant, cm_content = text, cm_tool_calls = calls, cm_tool_call_id = None,
      cm_tool_is_error = False, cm_tool_duration_ms = None\<rparr>"

text \<open>The biased select between the stop button and the call's dispatch: the button is looked at
  first, and a dispatch it interrupts is abandoned.\<close>

definition select_call ::
  "'w run_args \<Rightarrow> bool \<Rightarrow> tool_call \<Rightarrow> 'w \<Rightarrow> (tool_invocation \<times> bool) \<times> 'w" where
  "select_call R stopped call w =
     (let E = ra_env R in
      if stopped then ((cancelled_invocation E call, True), w)
      else case e_cancelled E w of
             (True, w1) \<Rightarrow> ((cancelled_invocation E call, True), w1)
           | (False, w1) \<Rightarrow>
               (case dispatch_one E (ra_registry R) (ra_ctx R) call (g_modalities (ra_config R)) w1 of
                  (iv, w2) \<Rightarrow>
                    (case e_interrupted E w2 of
                       (True, w3) \<Rightarrow> ((cancelled_invocation E call, True), w3)
                     | (False, w3) \<Rightarrow> ((iv, False), w3))))"

text \<open>The state after a call: the advertised tools widened, the streaks counted.\<close>

definition widen_after :: "'w run_args \<Rightarrow> tool_call \<Rightarrow> tool_invocation \<Rightarrow> tool_spec list \<Rightarrow> tool_spec list" where
  "widen_after R call iv advertised =
     (if ra_discovery R \<and> \<not> iv_is_error iv then
        widen_explicitly_advertised (ra_env R) (ra_registry R) (ra_allowed R) (g_modalities (ra_config R)) (iv_result iv)
          (if tc_name call \<in> uchars ` set (g_discovery (ra_config R))
           then widen_advertised (ra_env R) (ra_registry R) (ra_allowed R) (g_modalities (ra_config R)) (iv_result iv) advertised
           else advertised)
      else advertised)"

definition count_call :: "'w run_args \<Rightarrow> tool_call \<Rightarrow> tool_invocation \<Rightarrow> agent_state \<Rightarrow> agent_state" where
  "count_call R call iv s =
     (if a_stop s then s
      else
        let c = ra_config R;
            sig = tool_call_signature (ra_env R) call;
            same = (if a_signature s = Some sig then a_identical s + 1 else 1);
            errs = (if iv_is_error iv then a_errors s + 1 else 0)
        in s\<lparr>a_signature := Some sig, a_identical := same, a_errors := errs,
             a_capped := a_capped s \<or> (0 < g_max_identical c \<and> g_max_identical c \<le> same)
               \<or> (0 < g_max_errors c \<and> g_max_errors c \<le> errs)\<rparr>)"

definition note_invocation :: "tool_invocation \<Rightarrow> agent_state \<Rightarrow> agent_state" where
  "note_invocation iv s =
     s\<lparr>a_media := a_media s @ iv_media iv,
       a_out := (a_out s)\<lparr>o_invocations := o_invocations (a_out s) @ [iv]\<rparr>\<rparr>"

definition call_step :: "'w run_args \<Rightarrow> tool_call \<Rightarrow> agent_state \<Rightarrow> ('w, core_error, agent_state) eff" where
  "call_step R call s =
     (let E = ra_env R in
      bindM (e_on_event E (ToolCallStarted (tc_id call) (tc_name call) (tc_arguments call))) (\<lambda>_ w.
        case select_call R (a_stop s) call w of ((iv, stopped), w1) \<Rightarrow>
          (case cap_result (iv_result iv) of (wire, truncated) \<Rightarrow>
             bindM (e_on_event E (ToolResult (tc_id call) (tc_name call) wire (iv_is_error iv)
                      (Some (iv_duration_ms iv)) truncated)) (\<lambda>_.
             bindM (e_on_message E
                      \<lparr>cm_role = Tool, cm_content = iv_result iv, cm_tool_calls = [],
                       cm_tool_call_id = Some (tc_id call), cm_tool_is_error = iv_is_error iv,
                       cm_tool_duration_ms = Some (iv_duration_ms iv)\<rparr>) (\<lambda>_.
             ret (note_invocation iv (count_call R call iv
                    (s\<lparr>a_messages := a_messages s @ [tool_message call (iv_result iv)],
                       a_stop := stopped,
                       a_tools := widen_after R call iv (a_tools s)\<rparr>))))) w1)))"

fun run_calls :: "'w run_args \<Rightarrow> tool_call list \<Rightarrow> agent_state \<Rightarrow> ('w, core_error, agent_state) eff" where
  "run_calls R [] s = ret s"
| "run_calls R (call # calls) s = bindM (call_step R call s) (run_calls R calls)"

text \<open>Before a turn: compaction when the projection exceeds the budget. Its own usage joins the run's.\<close>

definition maybe_compact :: "'w run_args \<Rightarrow> agent_state \<Rightarrow> ('w, core_error, agent_state) eff" where
  "maybe_compact R s w =
     (let E = ra_env R; cc = g_compaction (ra_config R) in
      if should_compact (a_messages s) (a_last_usage s) cc
      then case Llm_Compact.compact (summarize_turn E) (rq_model (ra_request R)) (a_messages s) cc w of
             ((None, ms), w1) \<Rightarrow> (Inr (s\<lparr>a_messages := ms\<rparr>), w1)
           | ((Some f, ms), w1) \<Rightarrow>
               bindM (e_on_event E (Compacted (of_nat (cp_folded f)) (cp_summary f))) (\<lambda>_.
                 ret (s\<lparr>a_messages := ms, a_last_usage := None,
                        a_out := (a_out s)\<lparr>o_usage := accumulate_usage (o_usage (a_out s)) (cp_usage f),
                                          o_compactions := o_compactions (a_out s) + 1\<rparr>\<rparr>)) w1
      else (Inr s, w))"

definition note_turn :: "collected_turn \<Rightarrow> agent_state \<Rightarrow> agent_state" where
  "note_turn t s =
     (let s1 = s\<lparr>a_out := (a_out s)\<lparr>o_usage := accumulate_usage (o_usage (a_out s)) (ct_usage t),
                                    o_finish_reason := ct_finish_reason t\<rparr>\<rparr>
      in case ct_usage t of
           None \<Rightarrow> s1
         | Some u \<Rightarrow>
             s1\<lparr>a_last_usage := Some u,
                a_out := (a_out s1)\<lparr>o_context_tokens := Some (sat_add (prompt_tokens u) (completion_tokens u))\<rparr>\<rparr>)"

definition over_cost :: "agent_config \<Rightarrow> agent_outcome \<Rightarrow> bool" where
  "over_cost c out =
     (case g_cost_limit c of
        None \<Rightarrow> False
      | Some limit \<Rightarrow>
          (case Option.bind (o_usage out) cost_usd of
             None \<Rightarrow> False
           | Some spent \<Rightarrow> f64_cmp spent limit \<in> {Some Greater, Some Equal}))"

definition empty_answer_note :: chat_message where
  "empty_answer_note = system_message
     (uchars ''Your previous assistant response was empty. Continue the user's request ''
      @ uchars ''now and provide a non-empty final answer. If tools were used, finish the ''
      @ uchars ''requested work. Correct tool errors instead of repeating unchanged calls.'')"

definition media_note :: "media_input list \<Rightarrow> chat_message" where
  "media_note ms = (user_message
     (uchars ''Native image returned by the preceding file tool call(s). Analyze the attached ''
      @ uchars ''image directly.''))\<lparr>media := ms\<rparr>"

datatype round_result = Again agent_state | Finished agent_outcome

text \<open>The stop mid-stream: the partial text is kept, half-assembled calls are dropped.\<close>

definition stopped_turn :: "'w run_args \<Rightarrow> collected_turn \<Rightarrow> agent_state \<Rightarrow> ('w, core_error, round_result) eff" where
  "stopped_turn R t s =
     (if ct_content t \<noteq> [] then
        bindM (e_on_message (ra_env R) (completed_assistant (ct_content t) [])) (\<lambda>_.
          ret (Finished ((finish_with (ct_content t)
            (s\<lparr>a_messages := a_messages s @ [text_message Assistant (ct_content t)]\<rparr>))\<lparr>o_stopped := True\<rparr>)))
      else ret (Finished ((finish_with (ct_content t) s)\<lparr>o_stopped := True\<rparr>)))"

text \<open>A turn without calls: the answer, unless the user typed more or the answer is empty.\<close>

definition answer_turn ::
  "'w run_args \<Rightarrow> nat \<Rightarrow> collected_turn \<Rightarrow> agent_state \<Rightarrow> ('w, core_error, round_result) eff" where
  "answer_turn R rnd t s =
     bindM (e_poll_input (ra_env R)) (\<lambda>queued.
       if queued = [] then
         (if utrim (ct_content t) = [] \<and> \<not> a_retried s \<and> rnd + 1 < max (g_max_iterations (ra_config R)) 1
          then ret (Again (s\<lparr>a_retried := True, a_messages := a_messages s @ [empty_answer_note]\<rparr>))
          else ret (Finished (finish_with (ct_content t) s)))
       else ret (Again (s\<lparr>a_messages := a_messages s @ queued\<rparr>)))"

definition calls_turn :: "'w run_args \<Rightarrow> collected_turn \<Rightarrow> agent_state \<Rightarrow> ('w, core_error, round_result) eff" where
  "calls_turn R t s =
     bindM (run_calls R (ct_tool_calls t) (s\<lparr>a_stop := False, a_capped := False, a_media := []\<rparr>)) (\<lambda>s1.
       if a_stop s1 then ret (Finished ((finish_with (ct_content t) s1)\<lparr>o_stopped := True\<rparr>))
       else if a_capped s1 then
         ret (Finished ((finish_with (last_assistant_text (a_messages s1)) s1)\<lparr>o_hit_tool_loop_cap := True\<rparr>))
       else
         let ms = a_messages s1 @ (if a_media s1 \<noteq> [] then [media_note (a_media s1)] else [])
         in bindM (e_poll_input (ra_env R)) (\<lambda>queued. ret (Again (s1\<lparr>a_messages := ms @ queued\<rparr>))))"

definition after_turn ::
  "'w run_args \<Rightarrow> nat \<Rightarrow> streamed_turn \<Rightarrow> agent_state \<Rightarrow> ('w, core_error, round_result) eff" where
  "after_turn R rnd turn s =
     (let t = st_collected turn; s1 = note_turn t s in
      if st_stopped turn then stopped_turn R t s1
      else
        let s2 = s1\<lparr>a_messages := a_messages s1 @ [assistant_message t]\<rparr> in
        bindM (e_on_message (ra_env R) (completed_assistant (ct_content t) (ct_tool_calls t))) (\<lambda>_.
          if st_errored turn then ret (Finished (finish_with (ct_content t) s2))
          else if ct_tool_calls t = [] then answer_turn R rnd t s2
          else if over_cost (ra_config R) (a_out s2) then
            ret (Finished ((finish_with (ct_content t) s2)\<lparr>o_hit_cost_limit := True\<rparr>))
          else calls_turn R t s2))"

definition run_round :: "'w run_args \<Rightarrow> nat \<Rightarrow> agent_state \<Rightarrow> ('w, core_error, round_result) eff" where
  "run_round R rnd s0 w =
     (let s = s0\<lparr>a_out := (a_out s0)\<lparr>o_iterations := rnd + 1\<rparr>\<rparr> in
      case e_cancelled (ra_env R) w of
        (True, w1) \<Rightarrow>
          (Inr (Finished ((finish_with (last_assistant_text (a_messages s)) s)\<lparr>o_stopped := True\<rparr>)), w1)
      | (False, w1) \<Rightarrow>
          bindM (maybe_compact R s) (\<lambda>s1.
          bindM (stream_turn (ra_env R) (e_on_event (ra_env R))
                  ((ra_request R)\<lparr>rq_messages := a_messages s1, rq_tools := a_tools s1\<rparr>)) (\<lambda>turn.
          after_turn R rnd turn s1)) w1)"

text \<open>\<open>left\<close> rounds of \<open>max_iterations.max(1)\<close> are left.\<close>

fun run_rounds :: "'w run_args \<Rightarrow> nat \<Rightarrow> nat \<Rightarrow> agent_state \<Rightarrow> ('w, core_error, agent_outcome) eff" where
  "run_rounds R rnd 0 s =
     ret ((finish_with (last_assistant_text (a_messages s)) s)\<lparr>o_hit_iteration_cap := True\<rparr>)"
| "run_rounds R rnd (Suc left) s =
     bindM (run_round R rnd s) (\<lambda>r.
       case r of Again s' \<Rightarrow> run_rounds R (rnd + 1) left s' | Finished out \<Rightarrow> ret out)"

text \<open>The tools advertised at first, and whether the run discovers the others.\<close>

definition initial_tools ::
  "chat_request \<Rightarrow> tool_registry \<Rightarrow> agent_config \<Rightarrow> string list option \<Rightarrow> tool_spec list \<times> bool" where
  "initial_tools rq reg c allowed =
     (if rq_tools rq \<noteq> [] then (rq_tools rq, False)
      else
        let pinned = (if g_discovery c = [] then []
              else specs_for_model_names reg
                     (filter (\<lambda>n. case allowed of None \<Rightarrow> True | Some a \<Rightarrow> n \<in> set a) (g_discovery c)) (g_modalities c))
        in if pinned \<noteq> [] then (pinned, True) else (specs_for_model reg allowed (g_modalities c), False))"

definition run_loop ::
  "'w agent_env \<Rightarrow> chat_request \<Rightarrow> tool_registry \<Rightarrow> tool_context \<Rightarrow> agent_config \<Rightarrow> string list option
     \<Rightarrow> ('w, core_error, agent_outcome) eff" where
  "run_loop E rq reg ctx c allowed =
     (case initial_tools rq reg c allowed of (specs, discovery) \<Rightarrow>
        let history = rq_messages rq;
            advertised = (if discovery
              then rewiden_from_history E reg allowed history (g_discovery c) (g_modalities c) specs else specs);
            pos = length (takeWhile (\<lambda>m. role m = System) history);
            ms = (if discovery
                  then take pos history @ [system_message (discovery_note reg allowed)] @ drop pos history
                  else history);
            R = \<lparr>ra_env = E, ra_request = rq, ra_registry = reg, ra_ctx = ctx, ra_config = c,
                 ra_allowed = allowed, ra_discovery = discovery\<rparr>
        in run_rounds R 0 (max (g_max_iterations c) 1)
             \<lparr>a_tools = advertised, a_messages = ms, a_out = default_outcome, a_retried = False,
              a_last_usage = None, a_signature = None, a_identical = 0, a_errors = 0, a_stop = False,
              a_capped = False, a_media = []\<rparr>)"

end
