(* ===== verification/Llm_Confined.thy ===== *)
theory Llm_Confined
  imports Llm_Agent
begin

text \<open>
  What a run of the agent loop can do. Every request it sends to the model is a history whose tool
  calls are all answered and advertises only tools of the allow-list; no tool outside the
  context's authority is run; and however the run ends within its round bound, the transcript
  leaves at most the calls of its last message unanswered.
\<close>

section \<open>Advertised tools\<close>

lemma uchars_inject [simp]: "uchars s = uchars t \<longleftrightarrow> s = t"
  by (auto simp: uchars_def inj_map_eq_map inj_on_def)

definition advertised_ok :: "tool_registry \<Rightarrow> string list option \<Rightarrow> tool_spec list \<Rightarrow> bool" where
  "advertised_ok reg allowed specs \<longleftrightarrow>
     (\<forall>sp\<in>set specs. \<exists>t. ts_name sp = uchars (t_name t) \<and> passes allowed t
        \<and> t \<in> set (r_static reg) \<union> set (r_dynamic reg))"

lemma get_tool_in: "get_tool reg n = Some t \<Longrightarrow> t \<in> set (r_static reg) \<union> set (r_dynamic reg)"
  by (auto simp: get_tool_def find_Some_iff in_set_conv_nth split: option.splits)

lemma specs_for_model_ok: "advertised_ok reg allowed (specs_for_model reg allowed ms)"
  by (auto simp: advertised_ok_def specs_for_model_def visible_tools_def spec_for_def)

lemma specs_for_names_ok:
  assumes "\<forall>n\<in>set names. case allowed of None \<Rightarrow> True | Some a \<Rightarrow> n \<in> set a"
  shows "advertised_ok reg allowed (specs_for_model_names reg names ms)"
  unfolding advertised_ok_def
proof
  fix sp assume "sp \<in> set (specs_for_model_names reg names ms)"
  then obtain n t where n: "n \<in> set names" "get_tool reg (uchars n) = Some t" "sp = spec_for ms t"
    by (auto simp: specs_for_model_names_def List.map_filter_def)
  then have "t_name t = n" using get_tool_named[of reg "uchars n" t] by simp
  then show "\<exists>t. ts_name sp = uchars (t_name t) \<and> passes allowed t
      \<and> t \<in> set (r_static reg) \<union> set (r_dynamic reg)"
    using assms n get_tool_in[OF n(2)] by (intro exI[of _ t]) (simp add: spec_for_def passes_def)
qed

lemma advertised_ok_append [simp]:
  "advertised_ok reg allowed (xs @ ys) \<longleftrightarrow> advertised_ok reg allowed xs \<and> advertised_ok reg allowed ys"
  by (auto simp: advertised_ok_def)

lemma add_fresh_allowed:
  "\<forall>n\<in>set (fold (add_fresh allowed adv) names acc). n \<in> set acc \<or> (case allowed of None \<Rightarrow> True | Some a \<Rightarrow> n \<in> set a)"
proof (induction names arbitrary: acc)
  case (Cons n names)
  show ?case
  proof
    fix x assume "x \<in> set (fold (add_fresh allowed adv) (n # names) acc)"
    then have "x \<in> set (add_fresh allowed adv n acc) \<or> (case allowed of None \<Rightarrow> True | Some a \<Rightarrow> x \<in> set a)"
      using Cons[of "add_fresh allowed adv n acc"] by auto
    then show "x \<in> set acc \<or> (case allowed of None \<Rightarrow> True | Some a \<Rightarrow> x \<in> set a)"
      by (auto simp: add_fresh_def split: if_splits option.splits)
  qed
qed simp

lemma widen_with_ok:
  "advertised_ok reg allowed adv \<Longrightarrow> advertised_ok reg allowed (widen_with field name E reg allowed ms result adv)"
  using specs_for_names_ok[of "fold (add_fresh allowed adv) names []" allowed reg ms for names]
    add_fresh_allowed[of allowed adv _ "[]"]
  by (auto simp: widen_with_def split: sum.splits)

lemmas widen_ok = widen_with_ok[of reg allowed adv "''tools''" for reg allowed adv, folded widen_advertised_def]
  widen_with_ok[of reg allowed adv "''advertise_tools''" as_str for reg allowed adv, folded widen_explicitly_advertised_def]

lemma fold_keeps: "(\<And>x s. P s \<Longrightarrow> P (f x s)) \<Longrightarrow> P s \<Longrightarrow> P (fold f xs s)"
  by (induction xs arbitrary: s) auto

lemma rewiden_ok:
  "advertised_ok reg allowed adv \<Longrightarrow>
     advertised_ok reg allowed (rewiden_from_history E reg allowed history discovery ms adv)"
  unfolding rewiden_from_history_def Let_def
  by (rule fold_keeps[of "advertised_ok reg allowed"])
     (auto intro!: widen_with_ok simp: widen_advertised_def widen_explicitly_advertised_def)

lemma widen_after_ok:
  "advertised_ok (ra_registry R) (ra_allowed R) adv \<Longrightarrow>
     advertised_ok (ra_registry R) (ra_allowed R) (widen_after R call iv adv)"
  by (auto simp: widen_after_def widen_advertised_def widen_explicitly_advertised_def intro!: widen_with_ok)

section \<open>A round of calls\<close>

lemma call_step_shape:
  assumes "call_step R call s w = (Inr s', w')"
  obtains iv stopped where
    "s' = note_invocation iv (count_call R call iv
       (s\<lparr>a_messages := a_messages s @ [tool_message call (iv_result iv)], a_stop := stopped,
          a_tools := widen_after R call iv (a_tools s)\<rparr>))"
proof -
  let ?E = "ra_env R"
  obtain w0 where "(case select_call R (a_stop s) call w0 of ((iv, stopped), w1) \<Rightarrow>
      (case cap_result (iv_result iv) of (wire, truncated) \<Rightarrow>
         bindM (e_on_event ?E (ToolResult (tc_id call) (tc_name call) wire (iv_is_error iv)
                  (Some (iv_duration_ms iv)) truncated)) (\<lambda>_.
         bindM (e_on_message ?E
                  \<lparr>cm_role = Tool, cm_content = iv_result iv, cm_tool_calls = [],
                   cm_tool_call_id = Some (tc_id call), cm_tool_is_error = iv_is_error iv,
                   cm_tool_duration_ms = Some (iv_duration_ms iv)\<rparr>) (\<lambda>_.
         ret (note_invocation iv (count_call R call iv
                (s\<lparr>a_messages := a_messages s @ [tool_message call (iv_result iv)],
                   a_stop := stopped,
                   a_tools := widen_after R call iv (a_tools s)\<rparr>))))) w1)) = (Inr s', w')"
    using assms unfolding call_step_def Let_def bindM_Inr by blast
  then show thesis
    by (cases "select_call R (a_stop s) call w0"; cases "fst (select_call R (a_stop s) call w0)";
        cases "cap_result (iv_result (fst (fst (select_call R (a_stop s) call w0))))")
       (auto simp: bindM_Inr intro: that)
qed

lemma count_call_keeps [simp]:
  "a_messages (count_call R call iv s) = a_messages s" "a_tools (count_call R call iv s) = a_tools s"
  "a_out (count_call R call iv s) = a_out s" "a_retried (count_call R call iv s) = a_retried s"
  by (simp_all add: count_call_def Let_def)

lemma call_step_result:
  assumes "call_step R call s w = (Inr s', w')"
  shows "\<exists>r. a_messages s' = a_messages s @ [tool_message call r]"
    "advertised_ok (ra_registry R) (ra_allowed R) (a_tools s) \<Longrightarrow>
       advertised_ok (ra_registry R) (ra_allowed R) (a_tools s')"
    "\<exists>ivs. a_out s' = (a_out s)\<lparr>o_invocations := ivs\<rparr>"
proof -
  obtain iv stopped where s': "s' = note_invocation iv (count_call R call iv
       (s\<lparr>a_messages := a_messages s @ [tool_message call (iv_result iv)], a_stop := stopped,
          a_tools := widen_after R call iv (a_tools s)\<rparr>))"
    using call_step_shape[OF assms] .
  show "\<exists>r. a_messages s' = a_messages s @ [tool_message call r]"
    by (auto simp: s' note_invocation_def)
  show "advertised_ok (ra_registry R) (ra_allowed R) (a_tools s')"
    if "advertised_ok (ra_registry R) (ra_allowed R) (a_tools s)"
    using that by (simp add: s' note_invocation_def widen_after_ok)
  show "\<exists>ivs. a_out s' = (a_out s)\<lparr>o_invocations := ivs\<rparr>"
    unfolding s' note_invocation_def by simp blast
qed

lemma call_step_pinned:
  "call_step R call s w = (Inr s', w') \<Longrightarrow> \<not> ra_discovery R \<Longrightarrow> a_tools s' = a_tools s"
  by (erule call_step_shape) (simp add: note_invocation_def widen_after_def)

text \<open>The whole round appends one result per call, in order.\<close>

lemma run_calls_result:
  assumes "run_calls R calls s w = (Inr s', w')"
  shows "(\<exists>rs. length rs = length calls \<and> a_messages s' = a_messages s @ map2 tool_message calls rs)
    \<and> (advertised_ok (ra_registry R) (ra_allowed R) (a_tools s) \<longrightarrow>
         advertised_ok (ra_registry R) (ra_allowed R) (a_tools s'))
    \<and> (\<not> ra_discovery R \<longrightarrow> a_tools s' = a_tools s)
    \<and> (\<exists>ivs. a_out s' = (a_out s)\<lparr>o_invocations := ivs\<rparr>)"
  using assms
proof (induction calls arbitrary: s w)
  case Nil
  then show ?case by (auto intro!: exI[of _ "o_invocations (a_out s)"])
next
  case (Cons call calls)
  then obtain s1 w1 where s1: "call_step R call s w = (Inr s1, w1)" "run_calls R calls s1 w1 = (Inr s', w')"
    by (auto simp: bindM_Inr)
  obtain r ivs where r: "a_messages s1 = a_messages s @ [tool_message call r]"
      "a_out s1 = (a_out s)\<lparr>o_invocations := ivs\<rparr>"
    using call_step_result(1,3)[OF s1(1)] by blast
  obtain rs ivs' where rs: "length rs = length calls" "a_messages s' = a_messages s1 @ map2 tool_message calls rs"
      "a_out s' = (a_out s1)\<lparr>o_invocations := ivs'\<rparr>"
    using Cons.IH[OF s1(2)] by blast
  have "length (r # rs) = length (call # calls)"
    "a_messages s' = a_messages s @ map2 tool_message (call # calls) (r # rs)"
    "a_out s' = (a_out s)\<lparr>o_invocations := ivs'\<rparr>"
    using r rs by simp_all
  then have "\<exists>rs. length rs = length (call # calls) \<and> a_messages s' = a_messages s @ map2 tool_message (call # calls) rs"
    "\<exists>ivs. a_out s' = (a_out s)\<lparr>o_invocations := ivs\<rparr>"
    by blast+
  then show ?case
    using Cons.IH[OF s1(2)] call_step_result(2)[OF s1(1)] call_step_pinned[OF s1(1)] by simp
qed

lemma results_answer:
  "length rs = length calls \<Longrightarrow> answered (map tc_id calls) (map2 tool_message calls rs)"
proof (induction calls arbitrary: rs)
  case (Cons c calls)
  then show ?case by (cases rs) (auto simp: tool_message_def text_message_def)
qed simp

lemma assistant_answered:
  assumes "answered [] ms" "length rs = length (ct_tool_calls t)"
  shows "answered [] (ms @ assistant_message t # map2 tool_message (ct_tool_calls t) rs)"
proof -
  have "role (assistant_message t) = Assistant" "tool_calls (assistant_message t) = ct_tool_calls t"
    by (simp_all add: assistant_message_def text_message_def)
  then show ?thesis using assms by (simp add: answered_append results_answer)
qed

section \<open>A round\<close>

definition polls_users :: "'w agent_env \<Rightarrow> bool" where
  "polls_users E \<longleftrightarrow> (\<forall>w ms w'. e_poll_input E w = (Inr ms, w') \<longrightarrow>
     (\<forall>m\<in>set ms. role m = User \<and> tool_calls m = []))"

lemma answered_users:
  assumes "answered [] ms" "\<forall>m\<in>set qs. role m = User \<and> tool_calls m = []"
  shows "answered [] (ms @ qs)"
proof -
  have "answered [] qs" using assms(2) by (induction qs) auto
  then show ?thesis using assms by (cases qs) (auto simp: answered_append)
qed

definition tools_ok :: "'w run_args \<Rightarrow> tool_spec list \<Rightarrow> bool" where
  "tools_ok R specs \<longleftrightarrow>
     (if rq_tools (ra_request R) \<noteq> [] then specs = rq_tools (ra_request R) \<and> \<not> ra_discovery R
      else advertised_ok (ra_registry R) (ra_allowed R) specs)"

definition clear_flags :: "agent_outcome \<Rightarrow> bool" where
  "clear_flags out \<longleftrightarrow> \<not> o_stopped out \<and> \<not> o_hit_iteration_cap out \<and> \<not> o_hit_tool_loop_cap out \<and> \<not> o_hit_cost_limit out"

definition state_ok :: "'w run_args \<Rightarrow> agent_state \<Rightarrow> bool" where
  "state_ok R s \<longleftrightarrow> answered [] (a_messages s) \<and> tools_ok R (a_tools s) \<and> clear_flags (a_out s)"

text \<open>On this history, the model's stream reported an error.\<close>

definition errored_on :: "'w agent_env \<Rightarrow> chat_message list \<Rightarrow> bool" where
  "errored_on E ms \<longleftrightarrow> (\<exists>q w ps w' msg. rq_messages q = ms \<and> e_open E q w = (Inr ps, w')
     \<and> Yielded (Inr (StreamError msg)) \<in> set ps)"

definition one_reason :: "agent_outcome \<Rightarrow> bool" where
  "one_reason out \<longleftrightarrow>
     length (filter id [o_stopped out, o_hit_iteration_cap out, o_hit_tool_loop_cap out, o_hit_cost_limit out]) \<le> 1"

definition final_ok :: "'w run_args \<Rightarrow> agent_outcome \<Rightarrow> bool" where
  "final_ok R out \<longleftrightarrow> one_reason out \<and>
     (if o_stopped out \<or> o_hit_iteration_cap out \<or> o_hit_tool_loop_cap out then answered [] (o_messages out)
      else \<exists>xs m. o_messages out = xs @ [m] \<and> role m = Assistant \<and> content m = o_content out \<and> answered [] xs
        \<and> (if o_hit_cost_limit out then tool_calls m \<noteq> [] \<and> over_cost (ra_config R) out
            else tool_calls m = [] \<or> errored_on (ra_env R) xs))"

fun result_ok :: "'w run_args \<Rightarrow> nat \<Rightarrow> round_result \<Rightarrow> bool" where
  "result_ok R n (Again s) \<longleftrightarrow> state_ok R s \<and> o_iterations (a_out s) = n"
| "result_ok R n (Finished out) \<longleftrightarrow> final_ok R out \<and> \<not> o_hit_iteration_cap out \<and> o_iterations out = n"

lemma fold_event_errored: "f_errored (fold_event ev f) \<Longrightarrow> f_errored f \<or> (\<exists>msg. ev = StreamError msg)"
  by (cases ev) auto

lemma stream_loop_errored:
  "stream_loop observe ps f w = (Inr turn, w') \<Longrightarrow> st_errored turn
     \<Longrightarrow> f_errored f \<or> (\<exists>msg. Yielded (Inr (StreamError msg)) \<in> set ps)"
proof (induction observe ps f arbitrary: w rule: stream_loop.induct)
  case (4 observe ev ps f)
  then obtain w1 where "stream_loop observe ps (fold_event ev f) w1 = (Inr turn, w')" by (auto simp: bindM_Inr)
  then show ?case using 4(1)[of w1] 4(3) fold_event_errored[of ev f] by auto
qed (auto simp: streamed_def)

lemma stream_turn_errored:
  assumes "stream_turn E observe q w = (Inr turn, w')" "st_errored turn"
  shows "errored_on E (rq_messages q)"
proof -
  obtain ps w1 where "e_open E q w = (Inr ps, w1)" "stream_loop observe ps folding0 w1 = (Inr turn, w')"
    using assms(1) by (auto simp: stream_turn_def bindM_Inr)
  then show ?thesis using stream_loop_errored[OF _ assms(2)] by (fastforce simp: errored_on_def folding0_def)
qed

lemmas ok_defs = state_ok_def clear_flags_def final_ok_def finish_with_def one_reason_def

lemma note_turn_keeps [simp]:
  "a_messages (note_turn t s) = a_messages s" "a_tools (note_turn t s) = a_tools s"
  "clear_flags (a_out (note_turn t s)) = clear_flags (a_out s)"
  "o_iterations (a_out (note_turn t s)) = o_iterations (a_out s)"
  by (auto simp: note_turn_def Let_def clear_flags_def split: option.splits)

lemma stopped_turn_ok:
  assumes "state_ok R s" "stopped_turn R t s w = (Inr res, w')"
  shows "result_ok R (o_iterations (a_out s)) res"
  using assms
  by (auto simp: stopped_turn_def ok_defs bindM_Inr answered_append text_message_def split: if_splits)

lemma answer_turn_ok:
  assumes "answered [] xs" "a_messages s = xs @ [assistant_message t]" "ct_tool_calls t = []"
    and "tools_ok R (a_tools s)" "clear_flags (a_out s)" "polls_users (ra_env R)"
    and "answer_turn R rnd t s w = (Inr res, w')"
  shows "result_ok R (o_iterations (a_out s)) res"
proof -
  have ms: "answered [] (a_messages s)" using assistant_answered[OF assms(1), of "[]" t] assms(2,3) by simp
  have A: "role (assistant_message t) = Assistant" by (simp add: assistant_message_def text_message_def)
  obtain queued w1 where q: "e_poll_input (ra_env R) w = (Inr queued, w1)"
    using assms(7) by (auto simp: answer_turn_def bindM_Inr)
  then have "\<forall>m\<in>set queued. role m = User \<and> tool_calls m = []"
    using assms(6) by (auto simp: polls_users_def)
  note users = answered_users[OF ms this]
  show ?thesis
    using assms(2-5,7) q users ms A
    by (auto simp: answer_turn_def ok_defs answered_append empty_answer_note_def system_message_def
        text_message_def assms(1) assistant_message_def split: if_splits)
qed

lemma calls_turn_ok:
  assumes xs: "answered [] xs" "a_messages s = xs @ [assistant_message t]"
    and "tools_ok R (a_tools s)" "clear_flags (a_out s)" "polls_users (ra_env R)"
    and run: "calls_turn R t s w = (Inr res, w')"
  shows "result_ok R (o_iterations (a_out s)) res"
proof -
  let ?s0 = "s\<lparr>a_stop := False, a_capped := False, a_media := []\<rparr>"
  obtain s1 w1 where s1: "run_calls R (ct_tool_calls t) ?s0 w = (Inr s1, w1)"
    and rest: "(if a_stop s1 then ret (Finished ((finish_with (ct_content t) s1)\<lparr>o_stopped := True\<rparr>))
       else if a_capped s1 then
         ret (Finished ((finish_with (last_assistant_text (a_messages s1)) s1)\<lparr>o_hit_tool_loop_cap := True\<rparr>))
       else
         let ms = a_messages s1 @ (if a_media s1 \<noteq> [] then [media_note (a_media s1)] else [])
         in bindM (e_poll_input (ra_env R)) (\<lambda>queued. ret (Again (s1\<lparr>a_messages := ms @ queued\<rparr>)))) w1
      = (Inr res, w')"
    using run unfolding calls_turn_def bindM_Inr by blast
  obtain rs ivs where rs: "length rs = length (ct_tool_calls t)"
      "a_messages s1 = a_messages s @ map2 tool_message (ct_tool_calls t) rs"
      "a_out s1 = (a_out s)\<lparr>o_invocations := ivs\<rparr>"
    using run_calls_result[OF s1] by auto
  have ms: "answered [] (a_messages s1)"
    using assistant_answered[OF xs(1) rs(1)] rs(2) xs(2) by simp
  have tools: "tools_ok R (a_tools s1)"
    using run_calls_result[OF s1] assms(3) by (auto simp: tools_ok_def split: if_splits)
  have clear: "clear_flags (a_out s1)" "o_iterations (a_out s1) = o_iterations (a_out s)"
    using assms(4) rs(3) by (simp_all add: clear_flags_def)
  have noted: "answered [] (a_messages s1 @ (if a_media s1 \<noteq> [] then [media_note (a_media s1)] else []))"
    using ms by (auto simp: media_note_def user_message_def text_message_def answered_append)
  show ?thesis
  proof (cases "a_stop s1 \<or> a_capped s1")
    case True
    then show ?thesis using rest ms clear by (auto simp: ok_defs split: if_splits)
  next
    case False
    then obtain queued where q: "e_poll_input (ra_env R) w1 = (Inr queued, w')"
        "res = Again (s1\<lparr>a_messages := (a_messages s1 @
           (if a_media s1 \<noteq> [] then [media_note (a_media s1)] else [])) @ queued\<rparr>)"
      using rest by (auto simp: bindM_Inr Let_def)
    then have "\<forall>m\<in>set queued. role m = User \<and> tool_calls m = []"
      using assms(5) by (auto simp: polls_users_def)
    then show ?thesis
      using answered_users[OF noted] tools clear q(2) by (simp add: state_ok_def)
  qed
qed

lemma maybe_compact_ok:
  assumes "state_ok R s" "maybe_compact R s w = (Inr s1, w1)"
  shows "state_ok R s1 \<and> o_iterations (a_out s1) = o_iterations (a_out s)"
proof (cases "should_compact (a_messages s) (a_last_usage s) (g_compaction (ra_config R))")
  case True
  obtain f ms w2 where c: "Llm_Compact.compact (summarize_turn (ra_env R)) (rq_model (ra_request R)) (a_messages s)
      (g_compaction (ra_config R)) w = ((f, ms), w2)"
    by (cases "Llm_Compact.compact (summarize_turn (ra_env R)) (rq_model (ra_request R)) (a_messages s)
      (g_compaction (ra_config R)) w") auto
  have "answered [] ms"
    using compact_answered[where summarize_turn = "summarize_turn (ra_env R)" and w = w
        and model = "rq_model (ra_request R)" and ms = "a_messages s" and c = "g_compaction (ra_config R)"]
      assms(1) c by (simp add: state_ok_def)
  then show ?thesis
    using assms True c by (cases f) (auto simp: maybe_compact_def ok_defs bindM_Inr)
next
  case False
  then show ?thesis using assms by (auto simp: maybe_compact_def)
qed

lemma over_cost_usage: "o_usage out = o_usage out' \<Longrightarrow> over_cost c out \<longleftrightarrow> over_cost c out'"
  unfolding over_cost_def by (simp only:)

lemma after_turn_ok:
  assumes "state_ok R s" "polls_users (ra_env R)" "after_turn R rnd turn s w = (Inr res, w')"
    and err: "st_errored turn \<Longrightarrow> errored_on (ra_env R) (a_messages s)"
  shows "result_ok R (o_iterations (a_out s)) res"
proof -
  let ?t = "st_collected turn"
  let ?s1 = "note_turn ?t s"
  let ?s2 = "?s1\<lparr>a_messages := a_messages ?s1 @ [assistant_message ?t]\<rparr>"
  have s1: "state_ok R ?s1" using assms(1) by (simp add: state_ok_def)
  have A: "role (assistant_message ?t) = Assistant" "content (assistant_message ?t) = ct_content ?t"
      "tool_calls (assistant_message ?t) = ct_tool_calls ?t"
    by (simp_all add: assistant_message_def text_message_def)
  show ?thesis
  proof (cases "st_stopped turn")
    case True
    then show ?thesis using assms(3) stopped_turn_ok[OF s1, of ?t w res w'] by (simp add: after_turn_def Let_def)
  next
    case False
    then obtain w1 where rest: "(if st_errored turn then ret (Finished (finish_with (ct_content ?t) ?s2))
        else if ct_tool_calls ?t = [] then answer_turn R rnd ?t ?s2
        else if over_cost (ra_config R) (a_out ?s2) then
          ret (Finished ((finish_with (ct_content ?t) ?s2)\<lparr>o_hit_cost_limit := True\<rparr>))
        else calls_turn R ?t ?s2) w1 = (Inr res, w')"
      using assms(3) unfolding after_turn_def Let_def if_not_P[OF False] bindM_Inr by blast
    have S: "answered [] (a_messages s)" "a_messages ?s2 = a_messages s @ [assistant_message ?t]"
        "tools_ok R (a_tools ?s2)" "clear_flags (a_out ?s2)" "o_iterations (a_out ?s2) = o_iterations (a_out s)"
      using assms(1) by (simp_all add: state_ok_def)
    consider "st_errored turn" | "\<not> st_errored turn" "ct_tool_calls ?t = []"
      | "\<not> st_errored turn" "ct_tool_calls ?t \<noteq> []" "over_cost (ra_config R) (a_out ?s2)"
      | "\<not> st_errored turn" "ct_tool_calls ?t \<noteq> []" "\<not> over_cost (ra_config R) (a_out ?s2)" by blast
    then show ?thesis
    proof cases
      case 1
      then show ?thesis using rest S A err[OF 1] by (auto simp: final_ok_def one_reason_def finish_with_def clear_flags_def)
    next
      case 2
      then show ?thesis using rest answer_turn_ok[OF S(1,2) _ S(3,4) assms(2), of rnd w1 res w'] S(5) by simp
    next
      case 3
      have "over_cost (ra_config R) ((finish_with (ct_content ?t) ?s2)\<lparr>o_hit_cost_limit := True\<rparr>)"
        using over_cost_usage[THEN iffD1, OF _ 3(3)] by (simp add: finish_with_def)
      then show ?thesis using 3 rest S A by (auto simp: final_ok_def one_reason_def finish_with_def clear_flags_def)
    next
      case 4
      then show ?thesis using rest calls_turn_ok[OF S(1,2) S(3,4) assms(2), of w1 res w'] S(5) by simp
    qed
  qed
qed

lemma run_round_ok:
  assumes "state_ok R s" "polls_users (ra_env R)" "run_round R rnd s w = (Inr res, w')"
  shows "result_ok R (rnd + 1) res"
proof -
  let ?s = "s\<lparr>a_out := (a_out s)\<lparr>o_iterations := rnd + 1\<rparr>\<rparr>"
  have s: "state_ok R ?s" using assms(1) by (simp add: ok_defs)
  obtain b w1 where b: "e_cancelled (ra_env R) w = (b, w1)" by fastforce
  show ?thesis
  proof (cases b)
    case True
    then show ?thesis using assms(3) s b by (auto simp: run_round_def Let_def ok_defs)
  next
    case False
    then obtain s1 w2 turn w3 where run: "maybe_compact R ?s w1 = (Inr s1, w2)"
        "stream_turn (ra_env R) (e_on_event (ra_env R))
           ((ra_request R)\<lparr>rq_messages := a_messages s1, rq_tools := a_tools s1\<rparr>) w2 = (Inr turn, w3)"
        "after_turn R rnd turn s1 w3 = (Inr res, w')"
      using assms(3) b by (auto simp: run_round_def Let_def bindM_Inr)
    have "st_errored turn \<Longrightarrow> errored_on (ra_env R) (a_messages s1)"
      using stream_turn_errored[OF run(2)] by simp
    then show ?thesis
      using maybe_compact_ok[OF s run(1)] after_turn_ok[OF _ assms(2) run(3)] by fastforce
  qed
qed

lemma run_rounds_ok:
  assumes "state_ok R s" "polls_users (ra_env R)" "o_iterations (a_out s) = rnd"
    and "run_rounds R rnd n s w = (Inr out, w')"
  shows "final_ok R out \<and> rnd \<le> o_iterations out \<and> o_iterations out \<le> rnd + n
    \<and> (0 < n \<longrightarrow> rnd < o_iterations out) \<and> (o_hit_iteration_cap out \<longrightarrow> o_iterations out = rnd + n)"
  using assms(1,3,4)
proof (induction n arbitrary: rnd s w)
  case 0
  then show ?case by (auto simp: ok_defs)
next
  case (Suc n)
  then obtain res w1 where res: "run_round R rnd s w = (Inr res, w1)"
    and rest: "(case res of Again s' \<Rightarrow> run_rounds R (rnd + 1) n s' | Finished out \<Rightarrow> ret out) w1 = (Inr out, w')"
    unfolding run_rounds.simps bindM_Inr by blast
  note ok = run_round_ok[OF Suc.prems(1) assms(2) res]
  show ?case
  proof (cases res)
    case (Again s')
    then show ?thesis using Suc.IH[of s' "rnd + 1" w1] ok rest by fastforce
  next
    case (Finished o')
    then show ?thesis using ok rest by simp
  qed
qed

section \<open>What a run depends on\<close>

text \<open>The same run with other tools and another model.\<close>

definition elsewhere :: "'w run_args \<Rightarrow> 'w tool_env \<Rightarrow> (chat_request \<Rightarrow> ('w, core_error, stream_poll list) eff) \<Rightarrow> 'w run_args" where
  "elsewhere R T opn = R\<lparr>ra_env := (ra_env R)\<lparr>e_tools := T, e_open := opn\<rparr>\<rparr>"

lemma elsewhere_simps [simp]:
  "ra_request (elsewhere R T opn) = ra_request R" "ra_registry (elsewhere R T opn) = ra_registry R"
  "ra_ctx (elsewhere R T opn) = ra_ctx R" "ra_config (elsewhere R T opn) = ra_config R"
  "ra_allowed (elsewhere R T opn) = ra_allowed R" "ra_discovery (elsewhere R T opn) = ra_discovery R"
  "e_tools (ra_env (elsewhere R T opn)) = T" "e_open (ra_env (elsewhere R T opn)) = opn"
  "e_cancelled (ra_env (elsewhere R T opn)) = e_cancelled (ra_env R)"
  "e_interrupted (ra_env (elsewhere R T opn)) = e_interrupted (ra_env R)"
  "e_on_event (ra_env (elsewhere R T opn)) = e_on_event (ra_env R)"
  "e_on_message (ra_env (elsewhere R T opn)) = e_on_message (ra_env R)"
  "e_poll_input (ra_env (elsewhere R T opn)) = e_poll_input (ra_env R)"
  "e_elapsed_ms (ra_env (elsewhere R T opn)) = e_elapsed_ms (ra_env R)"
  "e_parse_json (ra_env (elsewhere R T opn)) = e_parse_json (ra_env R)"
  "e_json_text (ra_env (elsewhere R T opn)) = e_json_text (ra_env R)"
  "e_error_json (ra_env (elsewhere R T opn)) = e_error_json (ra_env R)"
  "e_media (ra_env (elsewhere R T opn)) = e_media (ra_env R)"
  by (simp_all add: elsewhere_def)

lemma same_text [simp]:
  "error_result (ra_env (elsewhere R T opn)) = error_result (ra_env R)"
  "value_to_string (ra_env (elsewhere R T opn)) = value_to_string (ra_env R)"
  "cancelled_invocation (ra_env (elsewhere R T opn)) = cancelled_invocation (ra_env R)"
  "tool_call_signature (ra_env (elsewhere R T opn)) = tool_call_signature (ra_env R)"
  "widen_with field name (ra_env (elsewhere R T opn)) = widen_with field name (ra_env R)"
  unfolding fun_eq_iff cancelled_invocation_def error_result_def value_to_string_def
    tool_call_signature_def widen_with_def elsewhere_simps
  by simp_all

lemma same_widening [simp]:
  "widen_after (elsewhere R T opn) = widen_after R"
  "count_call (elsewhere R T opn) = count_call R"
  unfolding fun_eq_iff widen_after_def count_call_def widen_advertised_def widen_explicitly_advertised_def
    elsewhere_simps same_text
  by simp_all

lemma same_dispatch:
  assumes "same_within (ra_ctx R) (e_tools (ra_env R)) T"
  shows "dispatch_one (ra_env (elsewhere R T opn)) reg (ra_ctx R) = dispatch_one (ra_env R) reg (ra_ctx R)"
  unfolding fun_eq_iff dispatch_one_def run_tool_def elsewhere_simps same_text
    dispatch_for_model_within[OF assms, symmetric]
  by simp

lemma same_calls:
  assumes "same_within (ra_ctx R) (e_tools (ra_env R)) T"
  shows "run_calls (elsewhere R T opn) calls s = run_calls R calls s"
proof (induction calls arbitrary: s)
  case (Cons call calls)
  have "select_call (elsewhere R T opn) = select_call R"
    unfolding fun_eq_iff select_call_def Let_def elsewhere_simps same_text same_dispatch[OF assms] by simp
  then have "call_step (elsewhere R T opn) call s = call_step R call s"
    unfolding call_step_def Let_def elsewhere_simps same_widening by simp
  moreover have "run_calls (elsewhere R T opn) calls = run_calls R calls" by (rule ext) (rule Cons)
  ultimately show ?case by simp
qed simp

lemma same_turn:
  assumes "same_within (ra_ctx R) (e_tools (ra_env R)) T"
  shows "after_turn (elsewhere R T opn) rnd turn s = after_turn R rnd turn s"
  unfolding after_turn_def stopped_turn_def answer_turn_def calls_turn_def Let_def elsewhere_simps
    same_calls[OF assms]
  by simp

definition good_request :: "'w run_args \<Rightarrow> chat_request \<Rightarrow> bool" where
  "good_request R q \<longleftrightarrow> answered [] (rq_messages q) \<and> (rq_tools q = [] \<or> tools_ok R (rq_tools q))"

lemma same_stream:
  assumes "\<forall>q. good_request R q \<longrightarrow> e_open (ra_env R) q = opn q" "good_request R q"
  shows "stream_turn (ra_env (elsewhere R T opn)) obs q = stream_turn (ra_env R) obs q"
  using assms by (simp add: stream_turn_def)

lemma summarize_request_good: "good_request R (summarize_request model prior t)"
  by (simp add: good_request_def summarize_request_def new_request_def Let_def system_message_def
      user_message_def text_message_def)

lemma same_compact:
  assumes "\<forall>q. good_request R q \<longrightarrow> e_open (ra_env R) q = opn q"
  shows "maybe_compact (elsewhere R T opn) s = maybe_compact R s"
proof -
  have "summarize_turn (ra_env (elsewhere R T opn)) (summarize_request m None t)
      = summarize_turn (ra_env R) (summarize_request m None t)" for m t
    by (simp add: summarize_turn_def same_stream[OF assms summarize_request_good])
  then have "Llm_Compact.compact (summarize_turn (ra_env (elsewhere R T opn))) m ms c
      = Llm_Compact.compact (summarize_turn (ra_env R)) m ms c" for m ms c
    by (simp add: fun_eq_iff Llm_Compact.compact_def Let_def split: option.splits)
  then show ?thesis unfolding maybe_compact_def fun_eq_iff Let_def elsewhere_simps by simp
qed

lemma bindM_cong_at:
  "(\<And>x w1. m w = (Inr x, w1) \<Longrightarrow> f x w1 = g x w1) \<Longrightarrow> bindM m f w = bindM m g w"
  by (auto simp: bindM_def split: prod.splits sum.splits)

lemma same_round:
  assumes T: "same_within (ra_ctx R) (e_tools (ra_env R)) T"
    and opn: "\<forall>q. good_request R q \<longrightarrow> e_open (ra_env R) q = opn q"
    and s: "state_ok R s"
  shows "run_round (elsewhere R T opn) rnd s w = run_round R rnd s w"
proof -
  let ?s = "s\<lparr>a_out := (a_out s)\<lparr>o_iterations := rnd + 1\<rparr>\<rparr>"
  let ?rq = "\<lambda>s1. (ra_request R)\<lparr>rq_messages := a_messages s1, rq_tools := a_tools s1\<rparr>"
  have "state_ok R ?s" using s by (simp add: ok_defs)
  then have "good_request R (?rq s1)" if "maybe_compact R ?s w1 = (Inr s1, w2)" for s1 w1 w2
    using maybe_compact_ok[of R ?s w1 s1 w2] that by (simp add: state_ok_def good_request_def)
  then have eq: "bindM (maybe_compact R ?s) (\<lambda>s1. bindM (stream_turn (ra_env (elsewhere R T opn)) obs (?rq s1)) (f s1)) w1
      = bindM (maybe_compact R ?s) (\<lambda>s1. bindM (stream_turn (ra_env R) obs (?rq s1)) (f s1)) w1" for f obs w1
    using same_stream[OF opn] by (intro bindM_cong_at) simp
  show ?thesis
    unfolding run_round_def Let_def elsewhere_simps same_turn[OF T] same_compact[OF opn] eq by (rule refl)
qed

lemma same_rounds:
  assumes "same_within (ra_ctx R) (e_tools (ra_env R)) T" "polls_users (ra_env R)"
    and "\<forall>q. good_request R q \<longrightarrow> e_open (ra_env R) q = opn q" "state_ok R s"
  shows "run_rounds (elsewhere R T opn) rnd n s w = run_rounds R rnd n s w"
  using assms(4)
proof (induction n arbitrary: rnd s w)
  case (Suc n)
  have "run_round (elsewhere R T opn) rnd s w = run_round R rnd s w"
    by (rule same_round[OF assms(1,3) Suc.prems])
  moreover have "state_ok R s'" if "run_round R rnd s w = (Inr (Again s'), w1)" for s' w1
    using run_round_ok[OF Suc.prems assms(2) that] by simp
  ultimately show ?case
    using Suc.IH by (auto simp: bindM_def split: prod.splits sum.splits round_result.splits)
qed simp

section \<open>The run\<close>

definition run_start ::
  "'w agent_env \<Rightarrow> chat_request \<Rightarrow> tool_registry \<Rightarrow> tool_context \<Rightarrow> agent_config \<Rightarrow> string list option
     \<Rightarrow> 'w run_args \<times> agent_state" where
  "run_start E rq reg ctx c allowed =
     (case initial_tools rq reg c allowed of (specs, discovery) \<Rightarrow>
        let history = rq_messages rq; pos = length (takeWhile (\<lambda>m. role m = System) history)
        in (\<lparr>ra_env = E, ra_request = rq, ra_registry = reg, ra_ctx = ctx, ra_config = c,
             ra_allowed = allowed, ra_discovery = discovery\<rparr>,
            \<lparr>a_tools = (if discovery
               then rewiden_from_history E reg allowed history (g_discovery c) (g_modalities c) specs else specs),
             a_messages = (if discovery
               then take pos history @ [system_message (discovery_note reg allowed)] @ drop pos history
               else history),
             a_out = default_outcome, a_retried = False, a_last_usage = None, a_signature = None,
             a_identical = 0, a_errors = 0, a_stop = False, a_capped = False, a_media = []\<rparr>))"

lemma run_loop_start:
  "run_loop E rq reg ctx c allowed =
     (case run_start E rq reg ctx c allowed of (R, s) \<Rightarrow> run_rounds R 0 (max (g_max_iterations c) 1) s)"
  by (simp add: run_loop_def run_start_def Let_def split: prod.splits)

lemma initial_tools_ok:
  assumes "initial_tools rq reg c allowed = (specs, discovery)"
  shows "if rq_tools rq \<noteq> [] then specs = rq_tools rq \<and> \<not> discovery else advertised_ok reg allowed specs"
  using assms specs_for_names_ok[of "filter (\<lambda>n. case allowed of None \<Rightarrow> True | Some a \<Rightarrow> n \<in> set a) (g_discovery c)"
      allowed reg "g_modalities c"] specs_for_model_ok[of reg allowed "g_modalities c"]
  by (auto simp: initial_tools_def Let_def split: if_splits)

lemma note_inserted_answered:
  assumes "answered [] ms"
  defines "pos \<equiv> length (takeWhile (\<lambda>m. role m = System) ms)"
  shows "answered [] (take pos ms @ [system_message t] @ drop pos ms)"
proof -
  have sys: "\<forall>m\<in>set (take pos ms). role m = System"
    unfolding pos_def by (metis set_takeWhileD takeWhile_eq_take)
  have "(\<forall>m\<in>set (take pos ms). tool_calls m = []) \<and> answered [] (drop pos ms)"
    using assms(1) answered_systems[OF sys, of "drop pos ms"] unfolding append_take_drop_id by blast
  then show ?thesis
    unfolding answered_systems[OF sys] by (simp add: system_message_def text_message_def)
qed

lemma run_start_ok:
  assumes "run_start E rq reg ctx c allowed = (R, s)" "answered [] (rq_messages rq)"
  shows "state_ok R s" "o_iterations (a_out s) = 0" "ra_env R = E" "ra_ctx R = ctx"
    "ra_request R = rq" "ra_registry R = reg" "ra_allowed R = allowed" "ra_config R = c"
proof -
  obtain specs discovery where i: "initial_tools rq reg c allowed = (specs, discovery)" by fastforce
  show "state_ok R s"
    using assms initial_tools_ok[OF i] rewiden_ok[of reg allowed specs] note_inserted_answered[OF assms(2)]
    by (auto simp: run_start_def i Let_def state_ok_def tools_ok_def clear_flags_def default_outcome_def
        split: if_splits)
  show "o_iterations (a_out s) = 0" "ra_env R = E" "ra_ctx R = ctx"
    "ra_request R = rq" "ra_registry R = reg" "ra_allowed R = allowed" "ra_config R = c"
    using assms(1) by (auto simp: run_start_def i Let_def default_outcome_def)
qed

lemma run_start_elsewhere:
  assumes "run_start E rq reg ctx c allowed = (R, s)"
  shows "run_start (E\<lparr>e_tools := T, e_open := opn\<rparr>) rq reg ctx c allowed = (elsewhere R T opn, s)"
proof -
  have W: "widen_with field name (E\<lparr>e_tools := T, e_open := opn\<rparr>) = widen_with field name E" for field name
    by (simp add: widen_with_def fun_eq_iff)
  have "rewiden_from_history (E\<lparr>e_tools := T, e_open := opn\<rparr>) = rewiden_from_history E"
    by (intro ext) (simp only: rewiden_from_history_def widen_advertised_def widen_explicitly_advertised_def W)
  then show ?thesis using assms by (auto simp: run_start_def elsewhere_def Let_def split: prod.splits)
qed

definition request_allowed :: "chat_request \<Rightarrow> tool_registry \<Rightarrow> string list option \<Rightarrow> chat_request \<Rightarrow> bool" where
  "request_allowed rq reg allowed q \<longleftrightarrow> answered [] (rq_messages q) \<and>
     (rq_tools q = [] \<or> (if rq_tools rq \<noteq> [] then rq_tools q = rq_tools rq
                        else advertised_ok reg allowed (rq_tools q)))"

text \<open>C3: a run is confined. From a history whose calls are answered, and an observer that queues
  user messages only, the whole run, its outcome and its effect on the world, is unchanged when
  every tool the context's capabilities do not cover is replaced by any other code (every tool
  at all, in a dry run), and when the model is replaced on every request but those whose history
  answers all its calls and that advertise either the tools the caller pinned or registered
  tools of the allow-list. So the loop runs no uncovered tool and sends no other request,
  compaction and tool discovery included.\<close>

theorem agent_confined:
  assumes "answered [] (rq_messages rq)" "polls_users E"
    and "same_within ctx (e_tools E) T"
    and "\<forall>q. request_allowed rq reg allowed q \<longrightarrow> e_open E q = opn q"
  shows "run_loop (E\<lparr>e_tools := T, e_open := opn\<rparr>) rq reg ctx c allowed w = run_loop E rq reg ctx c allowed w"
proof -
  obtain R s where S: "run_start E rq reg ctx c allowed = (R, s)" by fastforce
  note ok = run_start_ok[OF S assms(1)]
  have "\<forall>q. good_request R q \<longrightarrow> e_open (ra_env R) q = opn q"
    using assms(4) ok by (auto simp: good_request_def tools_ok_def request_allowed_def split: if_splits)
  then show ?thesis
    using same_rounds[of R T opn s 0 "max (g_max_iterations c) 1" w] ok assms
    by (simp add: run_loop_start S run_start_elsewhere[OF S])
qed

text \<open>A small environment: the model answers one word, nothing is stopped, every tool answers null.\<close>

definition demo_env :: "unit agent_env" where
  "demo_env = \<lparr>
     e_tools = \<lparr>invoke = (\<lambda>t j x. ret JNull), invoke_for_model = (\<lambda>t j x ms. ret JNull),
               review = (\<lambda>p t j out x w. (Allow, w))\<rparr>,
     e_cancelled = (\<lambda>w. (False, w)), e_interrupted = (\<lambda>w. (False, w)),
     e_open = (\<lambda>q. ret [Yielded (Inr (TextDelta [104, 105])), Yielded (Inr (Done (Some FStop) None))]),
     e_on_event = (\<lambda>_. ret ()), e_on_message = (\<lambda>_. ret ()), e_poll_input = ret [],
     e_elapsed_ms = (\<lambda>w. (0, w)), e_parse_json = (\<lambda>t. Inl []), e_json_text = (\<lambda>j. []),
     e_error_json = (\<lambda>t. t), e_media = (\<lambda>j. None)\<rparr>"

definition demo_config :: agent_config where
  "demo_config = \<lparr>g_max_iterations = 256, g_max_identical = 3, g_max_errors = 8, g_cost_limit = None,
     g_discovery = [], g_modalities = [], g_compaction = default_compaction\<lparr>cc_enabled := False\<rparr>\<rparr>"

definition demo_request :: chat_request where
  "demo_request = new_request [109] [user_message [104]]"

lemma demo_seed: "answered [] (rq_messages demo_request)" "polls_users demo_env"
  by (simp_all add: demo_request_def new_request_def user_message_def text_message_def polls_users_def demo_env_def)

theorem agent_confined_witness:
  "run_loop (demo_env\<lparr>e_tools := \<lparr>invoke = (\<lambda>t j x. if covered reader_ctx t then ret JNull else fail NotFound),
        invoke_for_model = (\<lambda>t j x ms. if covered reader_ctx t then ret JNull else fail NotFound),
        review = (\<lambda>p t j out x w. (Allow, w))\<rparr>, e_open := e_open demo_env\<rparr>)
      demo_request \<lparr>r_static = [wiper], r_dynamic = []\<rparr> reader_ctx demo_config None () =
   run_loop demo_env demo_request \<lparr>r_static = [wiper], r_dynamic = []\<rparr> reader_ctx demo_config None ()"
  by (rule agent_confined[OF demo_seed]) (simp_all add: same_within_def demo_env_def)

text \<open>C20: a run from an answered history that does not fail ends in one of its announced ways. It makes at
  least one round and at most \<open>max_iterations\<close> (or one), and all of them when it reports the round bound; it
  reports at most one of the stop, the round bound, a tool streak and the cost limit. Where it reports one of the
  first three, every tool call of the transcript is answered. Otherwise the transcript ends on an assistant turn
  whose text is the outcome's, and every call before that turn is answered: with the cost limit, the turn has
  calls and the usage is at the limit; without, the turn has no calls, unless the model's stream reported an
  error on just that history.\<close>

theorem agent_ends_answered:
  assumes "answered [] (rq_messages rq)" "polls_users E"
    and "run_loop E rq reg ctx c allowed w = (Inr out, w')"
  shows "1 \<le> o_iterations out \<and> o_iterations out \<le> max (g_max_iterations c) 1
    \<and> (o_hit_iteration_cap out \<longrightarrow> o_iterations out = max (g_max_iterations c) 1) \<and> one_reason out \<and>
    (if o_stopped out \<or> o_hit_iteration_cap out \<or> o_hit_tool_loop_cap out then answered [] (o_messages out)
     else \<exists>xs m. o_messages out = xs @ [m] \<and> role m = Assistant \<and> content m = o_content out \<and> answered [] xs
       \<and> (if o_hit_cost_limit out then tool_calls m \<noteq> [] \<and> over_cost c out
           else tool_calls m = [] \<or> errored_on E xs))"
proof -
  obtain R s where S: "run_start E rq reg ctx c allowed = (R, s)" by fastforce
  note ok = run_start_ok[OF S assms(1)]
  have run: "run_rounds R 0 (max (g_max_iterations c) 1) s w = (Inr out, w')"
    using assms(3) by (simp add: run_loop_start S)
  have "polls_users (ra_env R)" using assms(2) ok(3) by simp
  note fin = run_rounds_ok[OF ok(1) this ok(2) run]
  then have "final_ok R out" "1 \<le> o_iterations out" "o_iterations out \<le> max (g_max_iterations c) 1"
      "o_hit_iteration_cap out \<longrightarrow> o_iterations out = max (g_max_iterations c) 1"
    by (auto simp: less_max_iff_disj)
  then show ?thesis unfolding final_ok_def ok(3,8) by blast
qed

lemma demo_run:
  "\<exists>out. run_loop demo_env demo_request \<lparr>r_static = [], r_dynamic = []\<rparr> reader_ctx demo_config None () = (Inr out, ())
    \<and> o_content out = [104, 105]"
  by (simp add: run_loop_def initial_tools_def demo_request_def demo_config_def new_request_def Let_def
      specs_for_model_def visible_tools_def run_rounds.simps numeral_eq_Suc run_round_def demo_env_def
      maybe_compact_def should_compact_def stream_turn_def after_turn_def streamed_def folding0_def
      collected_def asm_finish_def answer_turn_def note_turn_def utrim_def uspace_def finish_with_def)

theorem agent_ends_answered_witness:
  "\<exists>out. run_loop demo_env demo_request \<lparr>r_static = [], r_dynamic = []\<rparr> reader_ctx demo_config None () = (Inr out, ())
    \<and> 1 \<le> o_iterations out \<and> o_iterations out \<le> 256"
proof -
  obtain out where run: "run_loop demo_env demo_request \<lparr>r_static = [], r_dynamic = []\<rparr> reader_ctx demo_config None () = (Inr out, ())"
    using demo_run by blast
  have "g_max_iterations demo_config = 256" by (simp add: demo_config_def)
  then have "1 \<le> o_iterations out \<and> o_iterations out \<le> 256"
    using agent_ends_answered[OF demo_seed run] by simp
  then show ?thesis using run by blast
qed

end
