(* ===== verification/Chat_History.thy ===== *)
theory Chat_History
  imports Llm_Confined
begin

text \<open>
  The history a chat turn replays to the model (\<open>catalerum-api/src/chat_context.rs\<close>): a window of
  the stored messages is cut at its first user message, turned into chat messages, and calls whose
  results never landed are answered. The seed this gives the agent loop answers every call when the
  ids of the calls differ and results follow their calls; a reused id is the exception.
\<close>

section \<open>Stored messages\<close>

record attachment =
  at_url :: utext
  at_filename :: "utext option"
  at_content_type :: "utext option"
  at_size :: "nat option"

record skill_invocation =
  sk_name :: utext
  sk_instructions :: utext
  sk_tools :: "utext list"

record stored_message =
  sm_role :: message_role
  sm_content :: utext
  sm_attachments :: "attachment list"
  sm_skill :: "skill_invocation option"
  sm_tool_calls :: "tool_call list"
  sm_tool_call_id :: "utext option"

definition trim_to_turn_boundary :: "stored_message list \<Rightarrow> stored_message list" where
  "trim_to_turn_boundary history =
     (let k = position_or_len (\<lambda>m. sm_role m = User) history
      in drop (if k < length history then k else 0) history)"

fun joined :: "utext \<Rightarrow> utext list \<Rightarrow> utext" where
  "joined sep [] = []"
| "joined sep [t] = t"
| "joined sep (t # ts) = t @ sep @ joined sep ts"

definition render_skill_block :: "skill_invocation \<Rightarrow> utext" where
  "render_skill_block s =
     [10, 10] @ uchars ''[The user invoked the skill '' @ [34] @ sk_name s @ [34] @ uchars '' '' @ em_dash
     @ uchars '' follow its runbook below for their request.''
     @ (if sk_tools s = [] then []
        else uchars '' It is meant to use these tools: '' @ joined (uchars '', '') (sk_tools s) @ uchars ''.'')
     @ uchars '']'' @ [10, 10] @ sk_instructions s"

text \<open>\<open>strip_prefix\<close> and \<open>split_once\<close>.\<close>

fun strip_prefix :: "utext \<Rightarrow> utext \<Rightarrow> utext option" where
  "strip_prefix [] t = Some t"
| "strip_prefix (p # ps) [] = None"
| "strip_prefix (p # ps) (c # cs) = (if p = c then strip_prefix ps cs else None)"

fun split_once :: "utext \<Rightarrow> utext \<Rightarrow> (utext \<times> utext) option" where
  "split_once pat [] = map_option (\<lambda>r. ([], r)) (strip_prefix pat [])"
| "split_once pat (c # cs) =
     (case strip_prefix pat (c # cs) of
        Some r \<Rightarrow> Some ([], r)
      | None \<Rightarrow> map_option (\<lambda>(l, r). (c # l, r)) (split_once pat cs))"

definition attachment_reference :: "attachment \<Rightarrow> utext" where
  "attachment_reference a =
     (let name = (case at_filename a of Some n \<Rightarrow> n | None \<Rightarrow> uchars ''(unnamed)'');
          metadata =
            (case at_content_type a of Some t \<Rightarrow> if t \<noteq> [] then [t] else [] | None \<Rightarrow> [])
            @ (case at_size a of Some n \<Rightarrow> [uchars (show_nat n @ '' bytes'')] | None \<Rightarrow> []);
          shown = (if metadata = [] then [] else uchars '' ('' @ joined (uchars '', '') metadata @ uchars '')'');
          location =
            (case strip_prefix (uchars ''/storage/objects/'') (at_url a) of
               Some rest \<Rightarrow>
                 (case (case split_once (uchars ''?store='') rest of
                          Some (key, store) \<Rightarrow>
                            if store \<noteq> [] then (key, Some store)
                            else ((case split_once (uchars ''?'') rest of Some (k, _) \<Rightarrow> k | None \<Rightarrow> rest), None)
                        | None \<Rightarrow> ((case split_once (uchars ''?'') rest of Some (k, _) \<Rightarrow> k | None \<Rightarrow> rest), None)) of
                    (key, Some store) \<Rightarrow>
                      uchars ''store `'' @ store @ uchars ''`, key `'' @ key @ uchars ''`''
                  | (key, None) \<Rightarrow> uchars ''default files store, key `'' @ key @ uchars ''`'')
             | None \<Rightarrow> uchars ''url `'' @ at_url a @ uchars ''`'')
      in name @ shown @ uchars '' '' @ em_dash @ uchars '' '' @ location)"

definition render_attachments_block :: "attachment list \<Rightarrow> utext" where
  "render_attachments_block as =
     [10, 10] @ uchars ''[Attached files '' @ em_dash
     @ uchars '' uploaded to the files store, NOT inlined here. To work on ''
     @ uchars ''one, `stage_object` it into a terminal session, or `copy_object` it between ''
     @ uchars ''stores; use `read_object` for already-extracted text. Each line gives the ''
     @ uchars ''store + key to pass:]''
     @ concat (map (\<lambda>a. 10 # uchars ''- '' @ attachment_reference a) as)"

definition user_seed_content :: "utext \<Rightarrow> skill_invocation option \<Rightarrow> attachment list \<Rightarrow> utext" where
  "user_seed_content c skill as =
     c @ (case skill of Some s \<Rightarrow> render_skill_block s | None \<Rightarrow> [])
       @ (if as \<noteq> [] then render_attachments_block as else [])"

definition to_chat_message :: "stored_message \<Rightarrow> chat_message" where
  "to_chat_message m =
     (text_message (sm_role m)
        (if sm_role m = User then user_seed_content (sm_content m) (sm_skill m) (sm_attachments m)
         else sm_content m))
       \<lparr>tool_calls := sm_tool_calls m, tool_call_id := sm_tool_call_id m\<rparr>"

definition to_chat_messages :: "stored_message list \<Rightarrow> chat_message list" where
  "to_chat_messages history = map to_chat_message history"

section \<open>Dangling calls\<close>

definition interrupted_result :: "tool_call \<Rightarrow> chat_message" where
  "interrupted_result call =
     tool_message call (uchars ''{'' @ [34] @ uchars ''error'' @ [34] @ uchars '':'' @ [34]
       @ uchars ''interrupted '' @ em_dash @ uchars '' this tool call never completed'' @ [34] @ uchars ''}'')"

definition answered_ids :: "chat_message list \<Rightarrow> utext set" where
  "answered_ids ms = {i. \<exists>m\<in>set ms. tool_call_id m = Some i}"

text \<open>The scan: after each assistant message the missing results are inserted, and it goes on behind
  them.\<close>

fun patch_scan :: "utext set \<Rightarrow> chat_message list \<Rightarrow> chat_message list" where
  "patch_scan ids [] = []"
| "patch_scan ids (m # ms) =
     m # map interrupted_result
           (if role m = Assistant then filter (\<lambda>c. tc_id c \<notin> ids) (tool_calls m) else [])
       @ patch_scan ids ms"

definition patch_dangling_tool_calls :: "chat_message list \<Rightarrow> chat_message list" where
  "patch_dangling_tool_calls ms = patch_scan (answered_ids ms) ms"

section \<open>The seed answers every call\<close>

text \<open>A transcript as it is stored: results follow their calls at once, each call is answered at most
  once, and only tool messages carry a call id (\<open>due\<close>: the calls still open).\<close>

fun partly :: "utext list \<Rightarrow> chat_message list \<Rightarrow> bool" where
  "partly due [] = True"
| "partly due (m # ms) =
     (case role m of
        Tool \<Rightarrow> (case tool_call_id m of
                   Some i \<Rightarrow> i \<in> set due \<and> partly (remove1 i due) ms
                 | None \<Rightarrow> False)
      | Assistant \<Rightarrow> tool_call_id m = None \<and> partly (map tc_id (tool_calls m)) ms
      | _ \<Rightarrow> tool_call_id m = None \<and> tool_calls m = [] \<and> partly [] ms)"

definition call_ids :: "chat_message list \<Rightarrow> utext list" where
  "call_ids ms = concat (map (\<lambda>m. if role m = Assistant then map tc_id (tool_calls m) else []) ms)"

lemma call_ids_simps [simp]:
  "call_ids [] = []"
  "call_ids (m # ms) = (if role m = Assistant then map tc_id (tool_calls m) else []) @ call_ids ms"
  by (simp_all add: call_ids_def)

lemma answered_ids_simps [simp]:
  "answered_ids [] = {}"
  "answered_ids (m # ms) = (case tool_call_id m of Some i \<Rightarrow> {i} | None \<Rightarrow> {}) \<union> answered_ids ms"
  by (auto simp: answered_ids_def split: option.splits)

lemma partly_ids: "partly due ms \<Longrightarrow> answered_ids ms \<subseteq> set due \<union> set (call_ids ms)"
proof (induction due ms rule: partly.induct)
  case (2 due m ms)
  then show ?case
    by (auto split: message_role.splits option.splits dest: set_remove1_subset[THEN subsetD])
qed simp

lemma partly_suffix:
  "partly due (xs @ ys) \<Longrightarrow> ys \<noteq> [] \<Longrightarrow> role (hd ys) = User \<Longrightarrow> partly [] ys"
proof (induction due xs rule: partly.induct)
  case (1 due)
  then show ?case by (cases ys) auto
next
  case (2 due m ms)
  then show ?case by (auto split: message_role.splits option.splits)
qed

lemma interrupted_results_answer:
  "distinct due \<Longrightarrow> distinct (map tc_id cs) \<Longrightarrow> set (map tc_id cs) \<subseteq> set due \<Longrightarrow>
     answered due (map interrupted_result cs @ ms) = answered (filter (\<lambda>i. i \<notin> tc_id ` set cs) due) ms"
proof (induction cs arbitrary: due)
  case (Cons c cs)
  have "answered due (map interrupted_result (c # cs) @ ms)
      = answered (remove1 (tc_id c) due) (map interrupted_result cs @ ms)"
    using Cons.prems by (simp add: interrupted_result_def tool_message_def text_message_def)
  also have "\<dots> = answered (filter (\<lambda>i. i \<notin> tc_id ` set cs) (remove1 (tc_id c) due)) ms"
    using Cons.prems by (intro Cons.IH) (auto simp: set_remove1_eq image_iff)
  also have "filter (\<lambda>i. i \<notin> tc_id ` set cs) (remove1 (tc_id c) due) = filter (\<lambda>i. i \<notin> tc_id ` set (c # cs)) due"
    using Cons.prems(1) by (auto simp: distinct_remove1_removeAll removeAll_filter_not_eq intro!: filter_cong)
  finally show ?case .
qed simp

lemma patch_scan_answers:
  assumes "partly due ms" "distinct (due @ call_ids ms)"
    and "ids \<inter> (set due \<union> set (call_ids ms)) = answered_ids ms \<inter> (set due \<union> set (call_ids ms))"
  shows "answered (filter (\<lambda>i. i \<in> ids) due) (patch_scan ids ms)"
  using assms
proof (induction ms arbitrary: due)
  case Nil
  then show ?case by (auto simp: filter_empty_conv)
next
  case (Cons m ms)
  show ?case
  proof (cases "role m = Tool")
    case True
    then obtain i where i: "tool_call_id m = Some i" "i \<in> set due" "partly (remove1 i due) ms"
      using Cons.prems(1) by (auto split: option.splits)
    have "i \<in> ids" using Cons.prems(3) i by auto
    have "answered (filter (\<lambda>i. i \<in> ids) (remove1 i due)) (patch_scan ids ms)"
    proof (rule Cons.IH[OF i(3)])
      show "distinct (remove1 i due @ call_ids ms)"
        using Cons.prems(2) True set_remove1_subset[of i due] by auto
      show "ids \<inter> (set (remove1 i due) \<union> set (call_ids ms)) = answered_ids ms \<inter> (set (remove1 i due) \<union> set (call_ids ms))"
        using Cons.prems(2,3) i True by (auto simp: set_remove1_eq)
    qed
    moreover have "filter (\<lambda>i. i \<in> ids) (remove1 i due) = remove1 i (filter (\<lambda>i. i \<in> ids) due)"
      using \<open>i \<in> ids\<close> by (simp add: filter_remove1)
    ultimately show ?thesis using True i \<open>i \<in> ids\<close> by simp
  next
    case False
    define calls where "calls = (if role m = Assistant then tool_calls m else [])"
    have m: "tool_call_id m = None" "partly (map tc_id calls) ms"
      using Cons.prems(1) False by (auto simp: calls_def split: message_role.splits)
    have D: "distinct (due @ map tc_id calls @ call_ids ms)"
      using Cons.prems(2) by (cases "role m = Assistant") (simp_all add: calls_def)
    have "answered_ids ms \<inter> set due = {}"
      using partly_ids[OF m(2)] D by auto
    then have due: "filter (\<lambda>i. i \<in> ids) due = []"
      using Cons.prems(3) m(1) by (auto simp: filter_empty_conv)
    have IH: "answered (filter (\<lambda>i. i \<in> ids) (map tc_id calls)) (patch_scan ids ms)"
      using Cons.prems(3) m D
      by (intro Cons.IH) (auto simp: calls_def split: if_splits)
    let ?missing = "filter (\<lambda>c. tc_id c \<notin> ids) calls"
    have "filter (\<lambda>i. i \<notin> tc_id ` set ?missing) (map tc_id calls) = filter (\<lambda>i. i \<in> ids) (map tc_id calls)"
      by (intro filter_cong) auto
    then have "answered (map tc_id calls) (map interrupted_result ?missing @ patch_scan ids ms)"
      using interrupted_results_answer[of "map tc_id calls" ?missing "patch_scan ids ms"] D IH
      by (auto simp: distinct_map intro: inj_on_subset)
    then show ?thesis
      using due False Cons.prems(1) by (auto simp: calls_def split: message_role.splits)
  qed
qed

lemma patch_answers:
  "partly [] ms \<Longrightarrow> distinct (call_ids ms) \<Longrightarrow> answered [] (patch_dangling_tool_calls ms)"
  using patch_scan_answers[of "[]" ms "answered_ids ms"] by (simp add: patch_dangling_tool_calls_def)

text \<open>The cut: from the first user message of a window that has one.\<close>

lemma trim_suffix:
  assumes "\<exists>m\<in>set history. sm_role m = User"
  shows "\<exists>l. history = l @ trim_to_turn_boundary history \<and> trim_to_turn_boundary history \<noteq> []
    \<and> sm_role (hd (trim_to_turn_boundary history)) = User"
proof -
  let ?k = "position_or_len (\<lambda>m. sm_role m = User) history"
  have k: "?k < length history"
  proof (rule ccontr)
    assume "\<not> ?k < length history"
    then have whole: "take ?k history = history" by simp
    have "\<forall>m\<in>set (take ?k history). sm_role m \<noteq> User"
      using position_or_len_split[of "\<lambda>m. sm_role m = User" history] by blast
    then show False using assms unfolding whole by blast
  qed
  then have "sm_role (history ! ?k) = User"
    using position_or_len_split[of "\<lambda>m. sm_role m = User" history] by blast
  then show ?thesis
    using k by (intro exI[of _ "take ?k history"]) (simp add: trim_to_turn_boundary_def Let_def hd_drop_conv_nth)
qed

lemma to_chat_role [simp]:
  "role (to_chat_message m) = sm_role m" "tool_calls (to_chat_message m) = sm_tool_calls m"
  by (simp_all add: to_chat_message_def text_message_def)

lemma call_ids_append: "call_ids (xs @ ys) = call_ids xs @ call_ids ys"
  by (simp add: call_ids_def)

section \<open>The seed of a turn\<close>

text \<open>The images of user turns are inlined while the seed is one-to-one with the history. Reading an
  image from the store is a parameter, \<open>uri\<close>: its data URI, if it has one.\<close>

definition attachment_is_image :: "attachment \<Rightarrow> bool" where
  "attachment_is_image a =
     (case at_content_type a of Some t \<Rightarrow> strip_prefix (uchars ''image/'') t \<noteq> None | None \<Rightarrow> False)"

fun inline_image_attachments ::
  "(attachment \<Rightarrow> utext option) \<Rightarrow> stored_message list \<Rightarrow> chat_message list \<Rightarrow> chat_message list" where
  "inline_image_attachments uri (m # ms) (c # cs) =
     (if sm_role m \<noteq> User then c
      else c\<lparr>images := images c @ List.map_filter uri (filter attachment_is_image (sm_attachments m))\<rparr>)
     # inline_image_attachments uri ms cs"
| "inline_image_attachments uri _ cs = cs"

text \<open>The part of \<open>run_turn\<close> that builds the seed, from the window the store returned and the
  thread's rolling summary.\<close>

definition replay_seed ::
  "(attachment \<Rightarrow> utext option) \<Rightarrow> utext option \<Rightarrow> stored_message list \<Rightarrow> chat_message list" where
  "replay_seed uri summary window =
     (let trimmed = trim_to_turn_boundary window;
          patched = patch_dangling_tool_calls
                      (inline_image_attachments uri trimmed (to_chat_messages trimmed))
      in case summary of Some t \<Rightarrow> summary_message t # patched | None \<Rightarrow> patched)"

lemma inline_ids:
  "partly due (inline_image_attachments uri ms (to_chat_messages ms)) = partly due (to_chat_messages ms)"
  "call_ids (inline_image_attachments uri ms (to_chat_messages ms)) = call_ids (to_chat_messages ms)"
  by (induction ms arbitrary: due) (simp_all add: to_chat_messages_def split: message_role.splits option.splits)

text \<open>C19: the replayed history answers every tool call. Take any stored conversation in which results
  follow their calls and call ids differ, whose calls may have gone unanswered anywhere (a crash, a
  stream error, a cost cap), and any window of its latest messages that holds a user message,
  wherever the window's edge falls: the seed built from the window, behind a rolling summary or
  not and with whatever images are inlined, is a history in which every call is answered once and
  no result stands alone, as the agent loop needs it.\<close>

theorem replay_seed_answered:
  assumes "partly [] (to_chat_messages (older @ window))"
    and "distinct (call_ids (to_chat_messages (older @ window)))"
    and "\<exists>m\<in>set window. sm_role m = User"
  shows "answered [] (replay_seed uri summary window)"
proof -
  let ?t = "trim_to_turn_boundary window"
  obtain l where l: "window = l @ ?t" "?t \<noteq> []" "sm_role (hd ?t) = User"
    using trim_suffix[OF assms(3)] by blast
  have all: "to_chat_messages (older @ window) = to_chat_messages (older @ l) @ to_chat_messages ?t"
    by (subst l(1)) (simp add: to_chat_messages_def)
  have "role (hd (to_chat_messages ?t)) = User" "to_chat_messages ?t \<noteq> []"
    using l(2,3) by (simp_all add: to_chat_messages_def hd_map)
  then have "partly [] (to_chat_messages ?t)" using partly_suffix assms(1) unfolding all by blast
  moreover have "distinct (call_ids (to_chat_messages ?t))"
    using assms(2) unfolding all call_ids_append by simp
  ultimately have "answered [] (patch_dangling_tool_calls (inline_image_attachments uri ?t (to_chat_messages ?t)))"
    by (intro patch_answers) (simp_all add: inline_ids)
  then show ?thesis
    by (simp add: replay_seed_def Let_def summary_message_def user_message_def text_message_def split: option.split)
qed

abbreviation stored :: "message_role \<Rightarrow> tool_call list \<Rightarrow> utext option \<Rightarrow> stored_message" where
  "stored r cs i \<equiv> \<lparr>sm_role = r, sm_content = [], sm_attachments = [], sm_skill = None,
     sm_tool_calls = cs, sm_tool_call_id = i\<rparr>"

abbreviation a_call :: "utext \<Rightarrow> tool_call" where
  "a_call i \<equiv> \<lparr>tc_id = i, tc_name = [102], tc_arguments = [123, 125]\<rparr>"

text \<open>A window that opens on the second of two results, and ends on a call nothing answered.\<close>

theorem replay_seed_answered_witness:
  "answered [] (replay_seed (\<lambda>_. Some [7]) (Some [8]) [stored Tool [] (Some [2]), stored User [] None, stored Assistant [a_call [3]] None])"
  by (rule replay_seed_answered[of "[stored User [] None, stored Assistant [a_call [1], a_call [2]] None, stored Tool [] (Some [1])]"])
     (simp_all add: to_chat_messages_def to_chat_message_def text_message_def)

text \<open>The two hypotheses are needed. A window inside one long turn has no user message and is not cut,
  so it can open on a result whose call lies before it. And an id that two turns share (the
  assembler numbers the calls of a provider that sends none) counts as answered for both.\<close>

lemma window_without_user:
  "\<not> answered [] (replay_seed uri None [stored Tool [] (Some [1]), stored Assistant [] None])"
  by (simp add: replay_seed_def trim_to_turn_boundary_def to_chat_messages_def to_chat_message_def
      text_message_def patch_dangling_tool_calls_def answered_ids_def)

lemma synthesized_id:
  "map tc_id (asm_finish (asm_push 0 None (Some [102]) (Some [123, 125]) [])) = [uchars ''call_0'']"
  by (simp add: asm_finish_def fill_slot_def fresh_slot_def Let_def uchars_def show_u32_def show_nat_def
      show_uint.simps char_of_def bit_Suc_0_iff)

lemma reused_id_unanswered:
  "\<not> answered [] (replay_seed uri None
     [stored User [] None, stored Assistant [a_call i] None, stored Tool [] (Some i),
      stored User [] None, stored Assistant [a_call i] None])"
  by (simp add: replay_seed_def trim_to_turn_boundary_def to_chat_messages_def to_chat_message_def
      text_message_def patch_dangling_tool_calls_def answered_ids_def)

end
