(* ===== verification/Job_Queue.thy ===== *)
theory Job_Queue
  imports Json Effects
begin

text \<open>
  The durable job queue: the statements of \<open>JobQueueRepo\<close> (\<open>catalerum-store/src/repo.rs\<close>, Postgres)
  as operations on the list of the table's rows, and the worker that claims a job, runs it and
  records the outcome (\<open>catalerum-ingest/src/worker.rs\<close>). A statement is atomic, so concurrent
  claims, which skip each other's locked rows, are claims one after another; rows equal in the
  claim's order are taken in insertion order. Instants are microseconds; the attempt counter and
  the retry instants are taken to stay within their columns.
\<close>

section \<open>Rows\<close>

datatype job_status = JobPending | JobRunning | JobDone | JobFailed

record job =
  jb_id :: nat
  jb_workspace :: "nat option"
  jb_kind :: string
  jb_payload :: json
  jb_status :: job_status
  jb_attempts :: int
  jb_run_after :: int
  jb_locked_at :: "int option"
  jb_locked_by :: "string option"
  jb_last_error :: "string option"
  jb_created_at :: int
  jb_updated_at :: int

record job_table =
  jt_rows :: "job list"
  jt_next :: nat

datatype job_error = JobNotFound

fun job_status_str :: "job_status \<Rightarrow> string" where
  "job_status_str JobPending = ''pending''"
| "job_status_str JobRunning = ''running''"
| "job_status_str JobDone = ''done''"
| "job_status_str JobFailed = ''failed''"

definition job_status_parse :: "string \<Rightarrow> job_status option" where
  "job_status_parse s =
     (if s = ''pending'' then Some JobPending else if s = ''running'' then Some JobRunning
      else if s = ''done'' then Some JobDone else if s = ''failed'' then Some JobFailed else None)"

section \<open>Statements\<close>

definition enqueue :: "int \<Rightarrow> nat option \<Rightarrow> string \<Rightarrow> json \<Rightarrow> int option \<Rightarrow> job_table \<Rightarrow> job \<times> job_table" where
  "enqueue now ws kind payload run_after q =
     (let j = \<lparr>jb_id = jt_next q, jb_workspace = ws, jb_kind = kind, jb_payload = payload,
               jb_status = JobPending, jb_attempts = 0,
               jb_run_after = (case run_after of Some t \<Rightarrow> t | None \<Rightarrow> now), jb_locked_at = None,
               jb_locked_by = None, jb_last_error = None, jb_created_at = now, jb_updated_at = now\<rparr>
      in (j, q\<lparr>jt_rows := jt_rows q @ [j], jt_next := Suc (jt_next q)\<rparr>))"

definition runnable :: "int \<Rightarrow> job \<Rightarrow> bool" where
  "runnable now j \<longleftrightarrow> jb_status j = JobPending \<and> jb_run_after j \<le> now"

definition sooner :: "job \<Rightarrow> job \<Rightarrow> bool" where
  "sooner a b \<longleftrightarrow> jb_run_after a < jb_run_after b
     \<or> (jb_run_after a = jb_run_after b \<and> jb_created_at a < jb_created_at b)"

fun first_of :: "job list \<Rightarrow> job option" where
  "first_of [] = None"
| "first_of (j # js) =
     (case first_of js of Some k \<Rightarrow> if sooner k j then Some k else Some j | None \<Rightarrow> Some j)"

definition update_where :: "(job \<Rightarrow> bool) \<Rightarrow> (job \<Rightarrow> job) \<Rightarrow> job_table \<Rightarrow> job_table" where
  "update_where hit f q = q\<lparr>jt_rows := map (\<lambda>j. if hit j then f j else j) (jt_rows q)\<rparr>"

definition lease :: "int \<Rightarrow> string \<Rightarrow> job \<Rightarrow> job" where
  "lease now worker j =
     j\<lparr>jb_status := JobRunning, jb_attempts := jb_attempts j + 1, jb_locked_at := Some now,
       jb_locked_by := Some worker, jb_updated_at := now\<rparr>"

definition dequeue_one :: "int \<Rightarrow> string \<Rightarrow> job_table \<Rightarrow> job option \<times> job_table" where
  "dequeue_one now worker q =
     (case first_of (filter (runnable now) (jt_rows q)) of
        None \<Rightarrow> (None, q)
      | Some c \<Rightarrow> (Some (lease now worker c), update_where (\<lambda>j. jb_id j = jb_id c) (lease now worker) q))"

definition get_job :: "nat \<Rightarrow> job_table \<Rightarrow> job_error + job" where
  "get_job i q = (case List.find (\<lambda>j. jb_id j = i) (jt_rows q) of Some j \<Rightarrow> Inr j | None \<Rightarrow> Inl JobNotFound)"

text \<open>An \<open>UPDATE ... WHERE id = ... RETURNING\<close>: the updated row, or \<open>NotFound\<close>.\<close>

definition update_job :: "nat \<Rightarrow> (job \<Rightarrow> job) \<Rightarrow> job_table \<Rightarrow> (job_error + job) \<times> job_table" where
  "update_job i f q =
     (case get_job i q of
        Inl e \<Rightarrow> (Inl e, q)
      | Inr j \<Rightarrow> (Inr (f j), update_where (\<lambda>j. jb_id j = i) f q))"

definition completed :: "int \<Rightarrow> job \<Rightarrow> job" where
  "completed now j =
     j\<lparr>jb_status := JobDone, jb_locked_at := None, jb_locked_by := None, jb_last_error := None,
       jb_updated_at := now\<rparr>"

definition complete_job :: "int \<Rightarrow> nat \<Rightarrow> job_table \<Rightarrow> (job_error + job) \<times> job_table" where
  "complete_job now i = update_job i (completed now)"

text \<open>What \<open>fail\<close> and \<open>reclaim_stale\<close> share: terminal when the attempts are used up, else pending
  again from \<open>retry_at\<close> on.\<close>

definition given_back :: "int \<Rightarrow> int \<Rightarrow> int \<Rightarrow> string \<Rightarrow> job \<Rightarrow> job" where
  "given_back now max_attempts retry_at error j =
     j\<lparr>jb_status := (if jb_attempts j \<ge> max_attempts then JobFailed else JobPending),
       jb_run_after := (if jb_attempts j \<ge> max_attempts then jb_run_after j else retry_at),
       jb_locked_at := None, jb_locked_by := None, jb_last_error := Some error, jb_updated_at := now\<rparr>"

definition backoff :: "nat \<Rightarrow> int \<Rightarrow> int" where
  "backoff base attempts = int base * 2 ^ nat (max (attempts - 1) 0)"

definition failed :: "int \<Rightarrow> string \<Rightarrow> int \<Rightarrow> nat \<Rightarrow> job \<Rightarrow> job" where
  "failed now error max_attempts base j =
     given_back now max_attempts (now + backoff base (jb_attempts j)) error j"

definition fail_job :: "int \<Rightarrow> nat \<Rightarrow> string \<Rightarrow> int \<Rightarrow> nat \<Rightarrow> job_table \<Rightarrow> (job_error + job) \<times> job_table" where
  "fail_job now i error max_attempts base = update_job i (failed now error max_attempts base)"

definition stale :: "int \<Rightarrow> job \<Rightarrow> bool" where
  "stale cutoff j \<longleftrightarrow>
     jb_status j = JobRunning \<and> (case jb_locked_at j of Some t \<Rightarrow> t < cutoff | None \<Rightarrow> False)"

definition RECLAIMED :: string where
  "RECLAIMED = ''reclaimed: worker lease expired past visibility timeout''"

definition reclaim_stale :: "int \<Rightarrow> nat \<Rightarrow> int \<Rightarrow> job_table \<Rightarrow> nat \<times> job_table" where
  "reclaim_stale now visibility max_attempts q =
     (length (filter (stale (now - int visibility)) (jt_rows q)),
      update_where (stale (now - int visibility)) (given_back now max_attempts now RECLAIMED) q)"

definition count_by_status :: "job_status \<Rightarrow> job_table \<Rightarrow> nat" where
  "count_by_status s q = length (filter (\<lambda>j. jb_status j = s) (jt_rows q))"

definition terminal_before :: "int \<Rightarrow> job \<Rightarrow> bool" where
  "terminal_before before j \<longleftrightarrow> jb_status j \<in> {JobDone, JobFailed} \<and> jb_updated_at j < before"

definition delete_terminal_before :: "int \<Rightarrow> job_table \<Rightarrow> nat \<times> job_table" where
  "delete_terminal_before before q =
     (length (filter (terminal_before before) (jt_rows q)),
      q\<lparr>jt_rows := filter (\<lambda>j. \<not> terminal_before before j) (jt_rows q)\<rparr>)"

section \<open>The worker\<close>

record worker_config =
  wc_worker_id :: string
  wc_max_attempts :: int
  wc_backoff_base :: nat
  wc_visibility :: nat

definition second_us :: nat where "second_us = 1000000"

definition default_worker :: worker_config where
  "default_worker =
     \<lparr>wc_worker_id = ''ingest-worker'', wc_max_attempts = 5, wc_backoff_base = 10 * second_us,
      wc_visibility = 300 * second_us\<rparr>"

text \<open>The worker acts on the table and on whatever its handlers reach. The clock stands during a
  poll; an error in recording the outcome is logged and dropped.\<close>

type_synonym ('x, 'e) handler = "job \<Rightarrow> (job_table \<times> 'x, 'e, unit) eff"

definition process ::
  "worker_config \<Rightarrow> ('e \<Rightarrow> string) \<Rightarrow> ('x, 'e) handler \<Rightarrow> int \<Rightarrow> job \<Rightarrow> job_table \<times> 'x \<Rightarrow> job_table \<times> 'x" where
  "process c show_error run now j w =
     (case run j w of
        (Inr _, (q, x)) \<Rightarrow> (snd (complete_job now (jb_id j) q), x)
      | (Inl e, (q, x)) \<Rightarrow>
          (snd (fail_job now (jb_id j) (show_error e) (wc_max_attempts c) (wc_backoff_base c) q), x))"

definition poll_once ::
  "worker_config \<Rightarrow> ('e \<Rightarrow> string) \<Rightarrow> ('x, 'e) handler \<Rightarrow> int \<Rightarrow> job_table \<times> 'x \<Rightarrow> bool \<times> job_table \<times> 'x" where
  "poll_once c show_error run now w =
     (case dequeue_one now (wc_worker_id c) (fst w) of
        (None, q) \<Rightarrow> (False, q, snd w)
      | (Some j, q) \<Rightarrow> (True, process c show_error run now j (q, snd w)))"

definition reconcile_once :: "worker_config \<Rightarrow> int \<Rightarrow> job_table \<Rightarrow> nat \<times> job_table" where
  "reconcile_once c now q = reclaim_stale now (wc_visibility c) (wc_max_attempts c) q"

section \<open>Facts on the statements\<close>

lemma status_names: "job_status_parse s = Some st \<longleftrightarrow> s = job_status_str st"
  by (cases st) (auto simp: job_status_parse_def)

definition table_ok :: "job_table \<Rightarrow> bool" where
  "table_ok q \<longleftrightarrow> distinct (map jb_id (jt_rows q)) \<and> (\<forall>j\<in>set (jt_rows q). jb_id j < jt_next q)"

lemma rows_eq: "table_ok q \<Longrightarrow> j \<in> set (jt_rows q) \<Longrightarrow> k \<in> set (jt_rows q) \<Longrightarrow> jb_id j = jb_id k \<Longrightarrow> j = k"
  by (auto simp: table_ok_def distinct_map inj_on_def)

lemma find_row:
  "table_ok q \<Longrightarrow> List.find (\<lambda>j. jb_id j = i) (jt_rows q) = Some j \<longleftrightarrow> j \<in> set (jt_rows q) \<and> jb_id j = i"
proof
  assume ok: "table_ok q" and j: "j \<in> set (jt_rows q) \<and> jb_id j = i"
  then obtain k where k: "List.find (\<lambda>j. jb_id j = i) (jt_rows q) = Some k"
    by (cases "List.find (\<lambda>j. jb_id j = i) (jt_rows q)") (auto simp: find_None_iff)
  then have "k \<in> set (jt_rows q)" "jb_id k = i" by (auto simp: find_Some_iff)
  with j rows_eq[OF ok] k show "List.find (\<lambda>j. jb_id j = i) (jt_rows q) = Some j" by metis
qed (auto simp: find_Some_iff)

lemma first_of_None [simp]: "first_of js = None \<longleftrightarrow> js = []"
  by (cases js) (auto split: option.splits)

lemma sooner_order:
  "\<not> sooner x k \<Longrightarrow> \<not> sooner k a \<Longrightarrow> \<not> sooner x a" "sooner k a \<Longrightarrow> \<not> sooner a k"
  unfolding sooner_def by linarith+

lemma first_of_least:
  "first_of js = Some j \<Longrightarrow> j \<in> set js \<and> (\<forall>k\<in>set js. \<not> sooner k j)"
proof (induction js arbitrary: j)
  case (Cons a js)
  show ?case
  proof (cases "first_of js")
    case None
    then show ?thesis using Cons.prems by (simp add: sooner_def)
  next
    case (Some k)
    note k = Cons.IH[OF Some]
    show ?thesis
    proof (cases "sooner k a")
      case True
      then have "j = k" using Cons.prems Some by simp
      then show ?thesis using k sooner_order(2)[OF True] by simp
    next
      case False
      then have "j = a" using Cons.prems Some by simp
      then show ?thesis using k sooner_order(1)[OF _ False] by (auto simp: sooner_def)
    qed
  qed
qed simp

text \<open>The statements that change rows in place keep the row's identity; only a claim counts an
  attempt.\<close>

definition same_job :: "job \<Rightarrow> job \<Rightarrow> bool" where
  "same_job j k \<longleftrightarrow> jb_id k = jb_id j \<and> jb_workspace k = jb_workspace j \<and> jb_kind k = jb_kind j
     \<and> jb_payload k = jb_payload j \<and> jb_created_at k = jb_created_at j"

lemma same_job_updates [simp]:
  "same_job j j" "same_job j (lease now w j)" "same_job j (completed now j)"
  "same_job j (given_back now m t e j)" "same_job j (failed now e m b j)"
  by (simp_all add: same_job_def lease_def completed_def given_back_def failed_def)

lemma update_ids [simp]:
  "jb_id (lease now w j) = jb_id j" "jb_id (completed now j) = jb_id j"
  "jb_id (given_back now m t e j) = jb_id j" "jb_id (failed now e m b j) = jb_id j"
  by (simp_all add: lease_def completed_def given_back_def failed_def)

lemma update_attempts [simp]:
  "jb_attempts (lease now w j) = jb_attempts j + 1" "jb_attempts (completed now j) = jb_attempts j"
  "jb_attempts (given_back now m t e j) = jb_attempts j" "jb_attempts (failed now e m b j) = jb_attempts j"
  by (simp_all add: lease_def completed_def given_back_def failed_def)

lemma update_where_rows [simp]:
  "jt_rows (update_where hit f q) = map (\<lambda>j. if hit j then f j else j) (jt_rows q)"
  "jt_next (update_where hit f q) = jt_next q"
  by (simp_all add: update_where_def)

lemma update_where_ok:
  "table_ok q \<Longrightarrow> (\<And>j. jb_id (f j) = jb_id j) \<Longrightarrow> table_ok (update_where hit f q)"
  by (auto simp: table_ok_def comp_def if_distrib cong: if_cong)

lemma update_job_row:
  assumes "table_ok q" "j \<in> set (jt_rows q)"
  shows "update_job (jb_id j) f q = (Inr (f j), update_where (\<lambda>k. jb_id k = jb_id j) f q)"
  using find_row[OF assms(1), of "jb_id j" j] assms(2) by (simp add: update_job_def get_job_def)

lemma update_job_cases:
  "update_job i f q = (r, q') \<Longrightarrow> q' = q \<or> q' = update_where (\<lambda>k. jb_id k = i) f q"
  by (auto simp: update_job_def split: sum.splits)

end
