(* ===== verification/Job_Safe.thy ===== *)
theory Job_Safe
  imports Job_Queue "HOL-Library.Multiset"
begin

text \<open>
  What the job queue guarantees over whole histories of concurrent workers: every job stays until
  it is terminal and is attempted a bounded number of times; a worker that keeps within its lease
  finishes its own claim, and a completed job is then final; polls drain what is due in order. A
  worker that outlives its lease is the exception: its late report moves a completed job.
\<close>

section \<open>Histories\<close>

text \<open>A worker that crashed is a claim that no finish follows. A finish carries the row its claim
  returned, and the error if the handler failed.\<close>

datatype job_op =
    EnqueueJob "nat option" string json "int option"
  | ClaimJob string
  | FinishJob job "string option"
  | ReclaimStale
  | PurgeDone int

fun job_step :: "worker_config \<Rightarrow> int \<Rightarrow> job_op \<Rightarrow> job_table \<Rightarrow> job option \<times> job_table" where
  "job_step c now (EnqueueJob ws k p t) q = (case enqueue now ws k p t q of (j, q') \<Rightarrow> (Some j, q'))"
| "job_step c now (ClaimJob worker) q = dequeue_one now worker q"
| "job_step c now (FinishJob j None) q = (None, snd (complete_job now (jb_id j) q))"
| "job_step c now (FinishJob j (Some e)) q =
     (None, snd (fail_job now (jb_id j) e (wc_max_attempts c) (wc_backoff_base c) q))"
| "job_step c now ReclaimStale q = (None, snd (reconcile_once c now q))"
| "job_step c now (PurgeDone before) q = (None, snd (delete_terminal_before before q))"

type_synonym job_history = "(int \<times> job_op \<times> job option) list"

inductive job_reach :: "worker_config \<Rightarrow> job_history \<Rightarrow> job_table \<Rightarrow> bool" for c where
  job_start: "job_reach c [] \<lparr>jt_rows = [], jt_next = 0\<rparr>"
| job_next: "job_reach c h q \<Longrightarrow> job_step c now p q = (r, q') \<Longrightarrow> job_reach c ((now, p, r) # h) q'"

fun claim_of :: "int \<times> job_op \<times> job option \<Rightarrow> job option" where
  "claim_of (now, ClaimJob worker, r) = r"
| "claim_of (now, p, r) = None"

fun finish_of :: "int \<times> job_op \<times> job option \<Rightarrow> job option" where
  "finish_of (now, FinishJob j e, r) = Some j"
| "finish_of (now, p, r) = None"

definition claimed :: "job_history \<Rightarrow> job set" where
  "claimed h = {j. Some j \<in> claim_of ` set h}"

definition finished :: "job_history \<Rightarrow> job set" where
  "finished h = {j. Some j \<in> finish_of ` set h}"

definition claims :: "job_history \<Rightarrow> nat \<Rightarrow> nat" where
  "claims h i = length (filter (\<lambda>j. jb_id j = i) (List.map_filter claim_of h))"

lemma history_simps [simp]:
  "claimed [] = {}" "finished [] = {}" "claims [] i = 0"
  "claimed (e # h) = (case claim_of e of Some j \<Rightarrow> insert j (claimed h) | None \<Rightarrow> claimed h)"
  "finished (e # h) = (case finish_of e of Some j \<Rightarrow> insert j (finished h) | None \<Rightarrow> finished h)"
  "claims (e # h) i = claims h i + (case claim_of e of Some j \<Rightarrow> if jb_id j = i then 1 else 0 | None \<Rightarrow> 0)"
  by (auto simp: claimed_def finished_def claims_def List.map_filter_simps split: option.splits)

lemma job_step_cases:
  assumes "job_step c now p q = (r, q')"
  obtains (enqueue) ws k pl t j where "p = EnqueueJob ws k pl t" "enqueue now ws k pl t q = (j, q')" "r = Some j"
  | (empty) worker where "p = ClaimJob worker" "r = None" "q' = q"
  | (claim) worker j where "p = ClaimJob worker" "r = Some (lease now worker j)" "j \<in> set (jt_rows q)"
      "runnable now j" "q' = update_where (\<lambda>k. jb_id k = jb_id j) (lease now worker) q"
  | (missing) j e where "p = FinishJob j e" "r = None" "q' = q" "\<forall>k\<in>set (jt_rows q). jb_id k \<noteq> jb_id j"
  | (complete) j where "p = FinishJob j None" "r = None"
      "q' = update_where (\<lambda>k. jb_id k = jb_id j) (completed now) q"
  | (failed) j e where "p = FinishJob j (Some e)" "r = None"
      "q' = update_where (\<lambda>k. jb_id k = jb_id j) (failed now e (wc_max_attempts c) (wc_backoff_base c)) q"
  | (reclaim) "p = ReclaimStale" "r = None"
      "q' = update_where (stale (now - int (wc_visibility c))) (given_back now (wc_max_attempts c) now RECLAIMED) q"
  | (purge) before where "p = PurgeDone before" "r = None"
      "q' = q\<lparr>jt_rows := filter (\<lambda>j. \<not> terminal_before before j) (jt_rows q)\<rparr>"
proof (cases p)
  case (EnqueueJob ws k pl t)
  then show ?thesis using assms enqueue by (auto split: prod.splits)
next
  case (ClaimJob worker)
  show ?thesis
  proof (cases "first_of (filter (runnable now) (jt_rows q))")
    case None
    then show ?thesis using assms empty ClaimJob by (simp add: dequeue_one_def)
  next
    case (Some j)
    have "r = Some (lease now worker j)"
      "q' = update_where (\<lambda>k. jb_id k = jb_id j) (lease now worker) q"
      using assms ClaimJob Some by (auto simp: dequeue_one_def)
    then show ?thesis using claim[OF ClaimJob] first_of_least[OF Some] by simp
  qed
next
  case (FinishJob j e)
  show ?thesis
  proof (cases "\<exists>k\<in>set (jt_rows q). jb_id k = jb_id j")
    case False
    then have "get_job (jb_id j) q = Inl JobNotFound"
      by (auto simp: get_job_def find_Some_iff split: option.splits)
    then have "r = None" "q' = q"
      using assms FinishJob by (cases e; simp add: complete_job_def fail_job_def update_job_def)+
    then show ?thesis using missing[OF FinishJob] False by blast
  next
    case True
    then obtain k where k: "get_job (jb_id j) q = Inr k"
      by (cases "List.find (\<lambda>k. jb_id k = jb_id j) (jt_rows q)") (auto simp: get_job_def find_None_iff)
    show ?thesis
    proof (cases e)
      case None
      then show ?thesis using complete FinishJob assms k by (simp add: complete_job_def update_job_def)
    next
      case (Some m)
      then show ?thesis using failed FinishJob assms k by (simp add: fail_job_def update_job_def)
    qed
  qed
next
  case ReclaimStale
  then show ?thesis using assms reclaim by (simp add: reconcile_once_def reclaim_stale_def)
next
  case (PurgeDone before)
  then show ?thesis using assms purge by (simp add: delete_terminal_before_def)
qed

lemma enqueue_ok: "table_ok q \<Longrightarrow> table_ok (snd (enqueue now ws k p t q))"
  unfolding table_ok_def enqueue_def Let_def by (simp add: less_Suc_eq) (metis imageE less_irrefl)

lemma job_reach_ok: "job_reach c h q \<Longrightarrow> table_ok q"
proof (induction rule: job_reach.induct)
  case (job_next h q now p r q')
  from job_next.hyps(2) show ?case
  proof (cases rule: job_step_cases)
    case (enqueue ws k pl t j)
    then show ?thesis using enqueue_ok[OF job_next.IH, of now ws k pl t] by simp
  next
    case (purge before)
    then show ?thesis using job_next.IH by (auto simp: table_ok_def intro: distinct_map_filter)
  qed (use job_next.IH in \<open>auto intro: update_where_ok\<close>)
qed (simp add: table_ok_def)

section \<open>Attempts\<close>

definition attempts_ok :: "worker_config \<Rightarrow> job_history \<Rightarrow> job_table \<Rightarrow> bool" where
  "attempts_ok c h q \<longleftrightarrow>
     (\<forall>i. int (claims h i) \<le> max 1 (wc_max_attempts c) \<and> (jt_next q \<le> i \<longrightarrow> claims h i = 0)) \<and>
     (\<forall>j\<in>set (jt_rows q). jb_attempts j = int (claims h (jb_id j)) \<and>
        (jb_status j = JobPending \<longrightarrow> jb_attempts j < max 1 (wc_max_attempts c)))"

lemma attempts_okI:
  assumes "\<And>i. int (claims h i) \<le> max 1 (wc_max_attempts c)" "\<And>i. jt_next q \<le> i \<Longrightarrow> claims h i = 0"
    and "\<And>j. j \<in> set (jt_rows q) \<Longrightarrow> jb_attempts j = int (claims h (jb_id j))"
    and "\<And>j. j \<in> set (jt_rows q) \<Longrightarrow> jb_status j = JobPending \<Longrightarrow> jb_attempts j < max 1 (wc_max_attempts c)"
  shows "attempts_ok c h q"
  using assms unfolding attempts_ok_def by blast

lemma attempts_step:
  assumes "table_ok q" "attempts_ok c h q" "job_step c now p q = (r, q')"
  shows "attempts_ok c ((now, p, r) # h) q'"
  using assms(3)
proof (cases rule: job_step_cases)
  case (enqueue ws k pl t j)
  then show ?thesis using assms(1,2)
    by (intro attempts_okI) (auto simp: attempts_ok_def enqueue_def Let_def table_ok_def)
next
  case (claim worker j)
  have j: "jb_attempts j = int (claims h (jb_id j))" "jb_attempts j < max 1 (wc_max_attempts c)" "jb_id j < jt_next q"
    using assms(1,2) claim(3,4) by (auto simp: attempts_ok_def runnable_def table_ok_def)
  show ?thesis
  proof (rule attempts_okI)
    fix k assume k: "k \<in> set (jt_rows q')"
    then obtain k0 where k0: "k0 \<in> set (jt_rows q)" "k = (if jb_id k0 = jb_id j then lease now worker k0 else k0)"
      using claim(5) by auto
    then show "jb_attempts k = int (claims ((now, p, r) # h) (jb_id k))"
      using assms(2) claim(1,2) by (simp add: attempts_ok_def)
    show "jb_status k = JobPending \<Longrightarrow> jb_attempts k < max 1 (wc_max_attempts c)"
      using k0 assms(2) by (auto simp: attempts_ok_def lease_def split: if_splits)
  qed (use j assms(2) claim in \<open>auto simp: attempts_ok_def\<close>)
next
  case (complete j)
  then show ?thesis using assms(2) by (intro attempts_okI) (auto simp: attempts_ok_def completed_def)
next
  case (failed j e)
  then show ?thesis using assms(2)
    by (intro attempts_okI) (auto simp: attempts_ok_def failed_def given_back_def split: if_splits)
next
  case reclaim
  then show ?thesis using assms(2)
    by (intro attempts_okI) (auto simp: attempts_ok_def given_back_def split: if_splits)
qed (use assms(2) in \<open>auto simp: attempts_ok_def\<close>)

lemma attempts_reach: "job_reach c h q \<Longrightarrow> attempts_ok c h q"
proof (induction rule: job_reach.induct)
  case (job_next h q now p r q')
  then show ?case using attempts_step job_reach_ok by blast
qed (simp add: attempts_ok_def)

lemma update_where_keeps:
  assumes "\<And>j. same_job j (f j)" "j \<in> set (jt_rows q)"
  shows "\<exists>k\<in>set (jt_rows (update_where hit f q)). same_job j k"
  using assms by (intro bexI[of _ "if hit j then f j else j"]) auto

lemma step_keeps_rows:
  assumes "job_step c now p q = (r, q')" "j \<in> set (jt_rows q)"
  shows "(\<exists>k\<in>set (jt_rows q'). same_job j k) \<or> (\<exists>before. p = PurgeDone before \<and> terminal_before before j)"
  using assms(1)
proof (cases rule: job_step_cases)
  case (enqueue ws k pl t j')
  then show ?thesis using assms(2) by (auto simp: enqueue_def Let_def intro: bexI[of _ j])
next
  case (purge before)
  then show ?thesis using assms(2) same_job_updates(1)[of j] by auto
next
  case (empty worker)
  then show ?thesis using assms(2) same_job_updates(1)[of j] by blast
next
  case (missing j e)
  then show ?thesis using assms(2) same_job_updates(1) by blast
qed (use update_where_keeps[OF _ assms(2)] in simp_all)

text \<open>C17: no job is lost and none is tried for ever. After any history of concurrent producers,
  workers, crashes, reclaims and purges, however late workers report: a job was claimed at most
  \<open>max_attempts\<close> times (once, if that is less), its row counts its claims, and whatever statement
  comes next, its row stays in the table with its workspace, kind and payload unless the statement
  is a purge and the job is done or failed.\<close>

theorem jobs_kept_and_bounded:
  assumes "job_reach c h q"
  shows "int (claims h i) \<le> max 1 (wc_max_attempts c)
    \<and> (\<forall>j\<in>set (jt_rows q). jb_attempts j = int (claims h (jb_id j)) \<and>
         (\<forall>now p. (\<exists>k\<in>set (jt_rows (snd (job_step c now p q))). same_job j k)
            \<or> (\<exists>before. p = PurgeDone before \<and> terminal_before before j)))"
proof -
  have "(\<exists>k\<in>set (jt_rows (snd (job_step c now p q))). same_job j k)
      \<or> (\<exists>before. p = PurgeDone before \<and> terminal_before before j)" if "j \<in> set (jt_rows q)" for j now p
    using step_keeps_rows[OF prod.collapse[symmetric] that] .
  then show ?thesis using attempts_reach[OF assms] unfolding attempts_ok_def by blast
qed

section \<open>Workers within their lease\<close>

text \<open>Times do not run back, and a worker reports each claim at most once and before its lease runs
  out.\<close>

fun timely :: "worker_config \<Rightarrow> job_history \<Rightarrow> bool" where
  "timely c [] = True"
| "timely c ((now, p, r) # h) \<longleftrightarrow>
     timely c h \<and> (\<forall>e\<in>set h. fst e \<le> now) \<and>
     (case p of
        FinishJob j e \<Rightarrow>
          j \<in> claimed h \<and> j \<notin> finished h \<and> now \<le> the (jb_locked_at j) + int (wc_visibility c)
      | _ \<Rightarrow> True)"

definition in_lease :: "worker_config \<Rightarrow> job_history \<Rightarrow> job \<Rightarrow> bool" where
  "in_lease c h j \<longleftrightarrow> j \<in> claimed h \<and> j \<notin> finished h
     \<and> (\<forall>e\<in>set h. fst e \<le> the (jb_locked_at j) + int (wc_visibility c))"

definition done_ids :: "job_history \<Rightarrow> nat set" where
  "done_ids h = {jb_id j | now j r. (now, FinishJob j None, r) \<in> set h}"

definition leases_ok :: "worker_config \<Rightarrow> job_history \<Rightarrow> job_table \<Rightarrow> bool" where
  "leases_ok c h q \<longleftrightarrow>
     (\<forall>j\<in>claimed h. jb_status j = JobRunning \<and> jb_locked_at j \<noteq> None \<and> jb_id j < jt_next q) \<and>
     (\<forall>j. in_lease c h j \<longrightarrow> j \<in> set (jt_rows q)) \<and>
     (\<forall>i\<in>done_ids h. i < jt_next q) \<and>
     (\<forall>k\<in>set (jt_rows q). jb_id k \<in> done_ids h \<longrightarrow> jb_status k = JobDone)"

lemma leases_okI:
  assumes "\<And>j. j \<in> claimed h \<Longrightarrow> jb_status j = JobRunning \<and> jb_locked_at j \<noteq> None \<and> jb_id j < jt_next q"
    and "\<And>j. in_lease c h j \<Longrightarrow> j \<in> set (jt_rows q)" and "\<And>i. i \<in> done_ids h \<Longrightarrow> i < jt_next q"
    and "\<And>k. k \<in> set (jt_rows q) \<Longrightarrow> jb_id k \<in> done_ids h \<Longrightarrow> jb_status k = JobDone"
  shows "leases_ok c h q"
  using assms unfolding leases_ok_def by blast

lemma leases_okD:
  assumes "leases_ok c h q"
  shows "j \<in> claimed h \<Longrightarrow> jb_status j = JobRunning" "j \<in> claimed h \<Longrightarrow> jb_locked_at j \<noteq> None"
    "j \<in> claimed h \<Longrightarrow> jb_id j < jt_next q"
    "in_lease c h j \<Longrightarrow> j \<in> set (jt_rows q)" "i \<in> done_ids h \<Longrightarrow> i < jt_next q"
    "k \<in> set (jt_rows q) \<Longrightarrow> jb_id k \<in> done_ids h \<Longrightarrow> jb_status k = JobDone"
  using assms unfolding leases_ok_def by blast+

lemma done_ids_simps [simp]:
  "done_ids [] = {}"
  "done_ids ((now, p, r) # h) =
     (case p of FinishJob j None \<Rightarrow> insert (jb_id j) (done_ids h) | _ \<Rightarrow> done_ids h)"
  unfolding done_ids_def by (auto split: job_op.splits option.splits)

text \<open>A claim still in its lease after a step was in its lease before, or is the step's own.\<close>

lemma in_lease_before:
  "in_lease c ((now, p, r) # h) j \<Longrightarrow> claim_of (now, p, r) \<noteq> Some j \<Longrightarrow>
     in_lease c h j \<and> finish_of (now, p, r) \<noteq> Some j \<and> now \<le> the (jb_locked_at j) + int (wc_visibility c)"
  by (auto simp: in_lease_def split: option.splits)

lemma finish_in_lease:
  assumes "timely c ((now, FinishJob j e, r) # h)"
  shows "in_lease c h j"
  using assms by (force simp: in_lease_def)

lemma update_where_other: "j \<in> set (jt_rows q) \<Longrightarrow> \<not> hit j \<Longrightarrow> j \<in> set (jt_rows (update_where hit f q))"
  by (auto simp: image_iff intro!: bexI[of _ j])

lemma leases_step:
  assumes ok: "table_ok q" and inv: "leases_ok c h q"
    and step: "job_step c now p q = (r, q')" and time: "timely c ((now, p, r) # h)"
  shows "leases_ok c ((now, p, r) # h) q'"
  using step
proof (cases rule: job_step_cases)
  case (enqueue ws k pl t j)
  have j: "jb_id j = jt_next q" "jt_rows q' = jt_rows q @ [j]" "jt_next q' = Suc (jt_next q)"
    using enqueue(2) by (auto simp: enqueue_def Let_def)
  moreover have "jt_next q \<notin> done_ids h" using leases_okD(5)[OF inv] by blast
  ultimately show ?thesis using leases_okD[OF inv] in_lease_before[of c now p r h] enqueue(1)
    by (intro leases_okI) (auto simp: less_Suc_eq)
next
  case (empty worker)
  then show ?thesis using leases_okD[OF inv] in_lease_before[of c now p r h]
    by (intro leases_okI) auto
next
  case (claim worker j)
  have fresh: "jb_id j \<notin> done_ids h" "jb_id j < jt_next q"
    using leases_okD(6)[OF inv claim(3)] claim(3,4) ok by (auto simp: runnable_def table_ok_def)
  show ?thesis
  proof (rule leases_okI)
    fix k assume k: "in_lease c ((now, p, r) # h) k"
    show "k \<in> set (jt_rows q')"
    proof (cases "k = lease now worker j")
      case True
      then show ?thesis using claim(3,5) by (auto simp: image_iff intro!: bexI[of _ j])
    next
      case False
      then have l: "in_lease c h k" using in_lease_before[OF k] claim(1,2) by simp
      then have row: "k \<in> set (jt_rows q)" using leases_okD(4)[OF inv] by blast
      have "jb_status k = JobRunning" using l leases_okD(1)[OF inv] by (simp add: in_lease_def)
      then have "jb_id k \<noteq> jb_id j" using rows_eq[OF ok row claim(3)] claim(4) by (auto simp: runnable_def)
      then show ?thesis unfolding claim(5) by (intro update_where_other[OF row])
    qed
  next
    fix k assume "k \<in> set (jt_rows q')" "jb_id k \<in> done_ids ((now, p, r) # h)"
    then show "jb_status k = JobDone" using fresh(1) leases_okD(6)[OF inv] claim(1,5) by (auto split: if_splits)
  qed (use fresh(2) leases_okD[OF inv] claim in \<open>auto simp: lease_def\<close>)
next
  case (missing j e)
  have "j \<in> set (jt_rows q)" using finish_in_lease time missing(1) leases_okD(4)[OF inv] by blast
  then show ?thesis using missing(4) by blast
next
  case (complete j)
  have l: "in_lease c h j" using finish_in_lease time complete(1) by blast
  then have row: "j \<in> set (jt_rows q)" and run: "jb_id j < jt_next q"
    using leases_okD[OF inv] by (auto simp: in_lease_def)
  show ?thesis
  proof (rule leases_okI)
    fix k assume "in_lease c ((now, p, r) # h) k"
    then have k: "in_lease c h k" "k \<noteq> j" using in_lease_before[of c now p r h k] complete(1) by auto
    then have "k \<in> set (jt_rows q)" "jb_id k \<noteq> jb_id j"
      using leases_okD(4)[OF inv] rows_eq[OF ok _ row, of k] by blast+
    then show "k \<in> set (jt_rows q')" unfolding complete(3) by (rule update_where_other)
  next
    fix k assume "k \<in> set (jt_rows q')" "jb_id k \<in> done_ids ((now, p, r) # h)"
    then show "jb_status k = JobDone" using leases_okD(6)[OF inv] complete(1,3)
      by (auto simp: completed_def split: if_splits)
  qed (use run leases_okD[OF inv] complete in auto)
next
  case (failed j e)
  have l: "in_lease c h j" using finish_in_lease time failed(1) by blast
  then have row: "j \<in> set (jt_rows q)" and run: "jb_status j = JobRunning"
    using leases_okD[OF inv] by (auto simp: in_lease_def)
  then have fresh: "jb_id j \<notin> done_ids h" using leases_okD(6)[OF inv row] by auto
  show ?thesis
  proof (rule leases_okI)
    fix k assume "in_lease c ((now, p, r) # h) k"
    then have k: "in_lease c h k" "k \<noteq> j" using in_lease_before[of c now p r h k] failed(1) by auto
    then have "k \<in> set (jt_rows q)" "jb_id k \<noteq> jb_id j"
      using leases_okD(4)[OF inv] rows_eq[OF ok _ row, of k] by blast+
    then show "k \<in> set (jt_rows q')" unfolding failed(3) by (rule update_where_other)
  next
    fix k assume "k \<in> set (jt_rows q')" "jb_id k \<in> done_ids ((now, p, r) # h)"
    then show "jb_status k = JobDone" using leases_okD(6)[OF inv] failed(1,3) fresh by (auto split: if_splits)
  qed (use leases_okD[OF inv] failed in auto)
next
  case reclaim
  show ?thesis
  proof (rule leases_okI)
    fix k assume "in_lease c ((now, p, r) # h) k"
    then have k: "in_lease c h k" "now \<le> the (jb_locked_at k) + int (wc_visibility c)"
      using in_lease_before[of c now p r h k] reclaim(1) by auto
    then have "k \<in> set (jt_rows q)" "jb_locked_at k \<noteq> None" using leases_okD[OF inv] by (auto simp: in_lease_def)
    moreover from this have "\<not> stale (now - int (wc_visibility c)) k" using k(2) by (auto simp: stale_def)
    ultimately show "k \<in> set (jt_rows q')" unfolding reclaim(3) by (intro update_where_other)
  next
    fix k assume "k \<in> set (jt_rows q')" "jb_id k \<in> done_ids ((now, p, r) # h)"
    then show "jb_status k = JobDone" using leases_okD(6)[OF inv] reclaim(1,3)
      by (fastforce simp: stale_def split: if_splits)
  qed (use leases_okD[OF inv] reclaim in auto)
next
  case (purge before)
  show ?thesis
  proof (rule leases_okI)
    fix k assume "in_lease c ((now, p, r) # h) k"
    then have "in_lease c h k" using in_lease_before[of c now p r h k] purge(1) by auto
    then have "k \<in> set (jt_rows q)" "jb_status k = JobRunning" using leases_okD[OF inv] by (auto simp: in_lease_def)
    then show "k \<in> set (jt_rows q')" using purge(3) by (simp add: terminal_before_def)
  qed (use leases_okD[OF inv] purge in auto)
qed

lemma leases_reach: "job_reach c h q \<Longrightarrow> timely c h \<Longrightarrow> leases_ok c h q"
proof (induction rule: job_reach.induct)
  case (job_next h q now p r q')
  have "timely c h" using job_next.prems by simp
  then show ?case using leases_step[OF job_reach_ok] job_next by blast
qed (simp add: leases_ok_def in_lease_def)

text \<open>C18: a worker that reports within its lease reports on its own claim, and what it completed is
  final. In every history whose workers each report a claim at most once and before its lease runs
  out, crashed ones never: a claim that is unreported and in its lease is exactly the row in the
  table, running under that worker, so the next timely report meets it; and every job completed
  once is done for good, claimed and reclaimed by nobody.\<close>

theorem timely_reports_final:
  assumes "job_reach c h q" "timely c h"
  shows "(\<forall>j now e r. timely c ((now, FinishJob j e, r) # h) \<longrightarrow> j \<in> set (jt_rows q) \<and> jb_status j = JobRunning)
    \<and> (\<forall>now j r k. (now, FinishJob j None, r) \<in> set h \<longrightarrow> k \<in> set (jt_rows q) \<longrightarrow> jb_id k = jb_id j \<longrightarrow>
          jb_status k = JobDone)"
proof -
  note ok = leases_okD[OF leases_reach[OF assms]]
  have "j \<in> set (jt_rows q) \<and> jb_status j = JobRunning" if "timely c ((now, FinishJob j e, r) # h)" for j now e r
    using finish_in_lease[OF that] ok(1,4) by (simp add: in_lease_def)
  moreover have "jb_status k = JobDone"
    if "(now, FinishJob j None, r) \<in> set h" "k \<in> set (jt_rows q)" "jb_id k = jb_id j" for now j r k
    using ok(6)[OF that(2)] that(1,3) by (auto simp: done_ids_def)
  ultimately show ?thesis by blast
qed

section \<open>Draining\<close>

definition due :: "int \<Rightarrow> job_table \<Rightarrow> job list" where
  "due now q = filter (runnable now) (jt_rows q)"

fun polls ::
  "nat \<Rightarrow> worker_config \<Rightarrow> ('e \<Rightarrow> string) \<Rightarrow> ('x, 'e) handler \<Rightarrow> int \<Rightarrow> job_table \<times> 'x \<Rightarrow> job_table \<times> 'x" where
  "polls 0 c se run now w = w"
| "polls (Suc n) c se run now w = polls n c se run now (snd (poll_once c se run now w))"

text \<open>A handler that leaves the queue alone and logs what it ran.\<close>

definition logs :: "('x \<Rightarrow> job list) \<Rightarrow> ('x, 'e) handler \<Rightarrow> bool" where
  "logs jlog run \<longleftrightarrow> (\<forall>j q x. fst (snd (run j (q, x))) = q \<and> jlog (snd (snd (run j (q, x)))) = jlog x @ [j])"

lemma filter_update:
  assumes "table_ok q" "c \<in> set (jt_rows q)" "\<not> P (f c)"
  shows "filter P (jt_rows (update_where (\<lambda>k. jb_id k = jb_id c) f q)) = filter (\<lambda>k. P k \<and> jb_id k \<noteq> jb_id c) (jt_rows q)"
proof -
  have "\<forall>k\<in>set (jt_rows q). jb_id k = jb_id c \<longrightarrow> k = c" using rows_eq[OF assms(1) _ assms(2)] by blast
  moreover have "\<forall>k\<in>set rows. jb_id k = jb_id c \<longrightarrow> k = c \<Longrightarrow>
      filter P (map (\<lambda>k. if jb_id k = jb_id c then f k else k) rows) = filter (\<lambda>k. P k \<and> jb_id k \<noteq> jb_id c) rows" for rows
    using assms(3) by (induction rows) auto
  ultimately show ?thesis by simp
qed

lemma backoff_pos: "0 < base \<Longrightarrow> 0 < backoff base a"
  by (simp add: backoff_def)

lemma update_update:
  assumes "\<And>k. jb_id (f k) = jb_id k"
  shows "update_where (\<lambda>k. jb_id k = i) g (update_where (\<lambda>k. jb_id k = i) f q) = update_where (\<lambda>k. jb_id k = i) (g \<circ> f) q"
  using assms by (simp add: update_where_def)

lemma poll_due:
  assumes ok: "table_ok q" and lg: "logs jlog run" and pos: "0 < wc_backoff_base c"
    and j: "first_of (due now q) = Some j"
  obtains f x' where "snd (poll_once c se run now (q, x)) = (update_where (\<lambda>k. jb_id k = jb_id j) f q, x')"
    "\<And>k. jb_id (f k) = jb_id k" "jlog x' = jlog x @ [lease now (wc_worker_id c) j]" "\<not> runnable now (f j)"
proof -
  let ?w = "wc_worker_id c"
  let ?q = "update_where (\<lambda>k. jb_id k = jb_id j) (lease now ?w) q"
  have row: "j \<in> set (jt_rows q)" using first_of_least[OF j] by (simp add: due_def)
  then have row': "lease now ?w j \<in> set (jt_rows ?q)" by (auto simp: image_iff intro!: bexI[of _ j])
  have ok': "table_ok ?q" using ok by (rule update_where_ok) simp
  have deq: "dequeue_one now ?w q = (Some (lease now ?w j), ?q)"
    using j by (simp add: dequeue_one_def due_def)
  obtain r x' where run: "run (lease now ?w j) (?q, x) = (r, (?q, x'))" and x': "jlog x' = jlog x @ [lease now ?w j]"
    using lg unfolding logs_def by (metis prod.collapse)
  define g where "g = (case r of Inr _ \<Rightarrow> completed now
      | Inl e \<Rightarrow> failed now (se e) (wc_max_attempts c) (wc_backoff_base c))"
  have g: "\<And>k. jb_id (g k) = jb_id k" by (simp add: g_def split: sum.split)
  have "snd (poll_once c se run now (q, x)) = (update_where (\<lambda>k. jb_id k = jb_id j) g ?q, x')"
    using update_job_row[OF ok' row'] run deq
    by (simp add: poll_once_def process_def complete_job_def fail_job_def g_def split: sum.split)
  then have "snd (poll_once c se run now (q, x)) = (update_where (\<lambda>k. jb_id k = jb_id j) (g \<circ> lease now ?w) q, x')"
    by (simp add: update_update)
  moreover have "\<not> runnable now ((g \<circ> lease now ?w) j)"
    using backoff_pos[OF pos, of "jb_attempts j + 1"]
    by (auto simp: g_def runnable_def completed_def failed_def given_back_def split: sum.split)
  ultimately show ?thesis using that[of "g \<circ> lease now ?w" x'] g x' by simp
qed

lemma polls_due:
  assumes "table_ok q" "logs jlog run" "0 < wc_backoff_base c" "length (due now q) = n"
  shows "\<exists>js. jlog (snd (polls n c se run now (q, x))) = jlog x @ map (lease now (wc_worker_id c)) js
    \<and> mset js = mset (due now q) \<and> sorted_wrt (\<lambda>a b. \<not> sooner b a) js
    \<and> due now (fst (polls n c se run now (q, x))) = []"
  using assms(1,4)
proof (induction n arbitrary: q x)
  case 0
  then show ?case by simp
next
  case (Suc n)
  obtain j where j: "first_of (due now q) = Some j" using Suc.prems(2) by (cases "first_of (due now q)") auto
  have least: "j \<in> set (due now q)" "\<forall>k\<in>set (due now q). \<not> sooner k j" using first_of_least[OF j] by blast+
  have row: "j \<in> set (jt_rows q)" using least(1) by (simp add: due_def)
  obtain f x' where f: "snd (poll_once c se run now (q, x)) = (update_where (\<lambda>k. jb_id k = jb_id j) f q, x')"
      "\<And>k. jb_id (f k) = jb_id k" "jlog x' = jlog x @ [lease now (wc_worker_id c) j]" "\<not> runnable now (f j)"
    using poll_due[OF Suc.prems(1) assms(2,3) j] by metis
  let ?q = "update_where (\<lambda>k. jb_id k = jb_id j) f q"
  have ok: "table_ok ?q" using Suc.prems(1) f(2) by (rule update_where_ok)
  have dist: "distinct (map jb_id (due now q))"
    using Suc.prems(1) by (auto simp: table_ok_def due_def intro: distinct_map_filter)
  have rest: "due now ?q = filter (\<lambda>k. jb_id k \<noteq> jb_id j) (due now q)"
    using filter_update[of q j "runnable now" f] Suc.prems(1) row f(4) by (simp add: due_def conj_commute)
  also have "\<dots> = filter (\<lambda>k. k \<noteq> j) (due now q)"
    using dist least(1) by (intro filter_cong) (auto simp: distinct_map inj_on_def)
  also have "\<dots> = remove1 j (due now q)"
    using dist by (simp add: distinct_map distinct_remove1_removeAll removeAll_filter_not_eq eq_commute[of j])
  finally have rm: "due now ?q = remove1 j (due now q)" .
  then have len: "length (due now ?q) = n" using Suc.prems(2) least(1) by (simp add: length_remove1)
  obtain js where js: "jlog (snd (polls n c se run now (?q, x'))) = jlog x' @ map (lease now (wc_worker_id c)) js"
      "mset js = mset (due now ?q)" "sorted_wrt (\<lambda>a b. \<not> sooner b a) js"
      "due now (fst (polls n c se run now (?q, x'))) = []"
    using Suc.IH[OF ok len] by blast
  have set_js: "set js \<subseteq> set (due now q)"
    using js(2) rm mset_eq_setD set_remove1_subset by metis
  have "mset (j # js) = mset (due now q)" using js(2) rm least(1) by simp
  moreover have "sorted_wrt (\<lambda>a b. \<not> sooner b a) (j # js)" using js(3) set_js least(2) by auto
  ultimately show ?case using js(1,4) f(1,3)
    by (intro exI[of _ "j # js"]) simp
qed

text \<open>C27: polling drains what is due, oldest first. With a positive backoff and a handler that leaves
  the queue alone, as many polls as there are jobs due at an instant run each of them exactly once,
  in the order of their due time and, within it, of their creation, whatever succeeds or fails; and
  nothing is due any more.\<close>

theorem polls_drain:
  assumes "job_reach c h q" "logs jlog run" "0 < wc_backoff_base c" "length (due now q) = n"
  shows "\<exists>js. jlog (snd (polls n c se run now (q, x))) = jlog x @ map (lease now (wc_worker_id c)) js
    \<and> mset js = mset (due now q) \<and> sorted_wrt (\<lambda>a b. \<not> sooner b a) js
    \<and> due now (fst (polls n c se run now (q, x))) = []"
  using polls_due[OF job_reach_ok[OF assms(1)] assms(2-4)] .

section \<open>Witnesses and the exception\<close>

definition w_cfg :: worker_config where
  "w_cfg = \<lparr>wc_worker_id = ''w'', wc_max_attempts = 5, wc_backoff_base = 10, wc_visibility = 100\<rparr>"

definition w_job :: job where
  "w_job = fst (enqueue 0 None ''sync_calendar'' JNull None \<lparr>jt_rows = [], jt_next = 0\<rparr>)"

definition w_table :: job_table where
  "w_table = \<lparr>jt_rows = [w_job], jt_next = 1\<rparr>"

definition w_lease :: "int \<Rightarrow> string \<Rightarrow> job_table" where
  "w_lease now worker = \<lparr>jt_rows = [lease now worker w_job], jt_next = 1\<rparr>"

lemmas w_defs = w_cfg_def w_job_def w_table_def w_lease_def enqueue_def Let_def lease_def

lemma w_reach: "job_reach w_cfg [(0, EnqueueJob None ''sync_calendar'' JNull None, Some w_job)] w_table"
  by (rule job_next[OF job_start]) (simp add: w_defs)

lemma w_claim:
  "job_reach w_cfg [(1, ClaimJob ''a'', Some (lease 1 ''a'' w_job)),
     (0, EnqueueJob None ''sync_calendar'' JNull None, Some w_job)] (w_lease 1 ''a'')"
  by (rule job_next[OF w_reach]) (simp add: w_defs dequeue_one_def runnable_def update_where_def)

theorem jobs_kept_and_bounded_witness:
  "jb_attempts (lease 1 ''a'' w_job) = 1 \<and>
   (\<exists>k\<in>set (jt_rows (snd (job_step w_cfg 9 ReclaimStale (w_lease 1 ''a'')))). same_job (lease 1 ''a'' w_job) k)"
proof -
  have "lease 1 ''a'' w_job \<in> set (jt_rows (w_lease 1 ''a''))" by (simp add: w_lease_def)
  then have "(\<exists>k\<in>set (jt_rows (snd (job_step w_cfg 9 ReclaimStale (w_lease 1 ''a'')))). same_job (lease 1 ''a'' w_job) k)
      \<or> (\<exists>before. ReclaimStale = PurgeDone before \<and> terminal_before before (lease 1 ''a'' w_job))"
    using jobs_kept_and_bounded[OF w_claim] by blast
  moreover have "jb_attempts (lease 1 ''a'' w_job) = 1" by (simp add: w_defs)
  ultimately show ?thesis by (simp only: job_op.distinct simp_thms)
qed

theorem timely_reports_final_witness:
  "lease 1 ''a'' w_job \<in> set (jt_rows (w_lease 1 ''a''))"
proof -
  have "timely w_cfg ((5, FinishJob (lease 1 ''a'' w_job) None, None) #
     [(1, ClaimJob ''a'', Some (lease 1 ''a'' w_job)), (0, EnqueueJob None ''sync_calendar'' JNull None, Some w_job)])"
    by (simp add: w_cfg_def lease_def)
  moreover from this have "timely w_cfg [(1, ClaimJob ''a'', Some (lease 1 ''a'' w_job)),
      (0, EnqueueJob None ''sync_calendar'' JNull None, Some w_job)]"
    by simp
  ultimately show ?thesis using timely_reports_final[OF w_claim] by blast
qed

theorem polls_drain_witness:
  "due 7 (fst (polls 1 w_cfg id (\<lambda>j (q, x). (Inl ''offline'', (q, x @ [j]))) 7 (w_table, []))) = []"
proof -
  have "length (due 7 w_table) = 1" by (simp add: due_def runnable_def w_defs)
  moreover have "logs id (\<lambda>j (q, x). (Inl ''offline'', (q, x @ [j])))" by (simp add: logs_def)
  moreover have "0 < wc_backoff_base w_cfg" by (simp add: w_cfg_def)
  ultimately show ?thesis using polls_drain[OF w_reach, of id _ 7 1 id "[]"] by blast
qed

text \<open>\<open>complete\<close> and \<open>fail\<close> name the job and not the lease. A worker that outlived its lease, whose
  job was reclaimed and meanwhile completed by another, reports its error, and the completed job
  is pending again.\<close>

lemma late_report_revives:
  "jb_status (lease 1 ''a'' w_job) = JobRunning"
  "snd (fold (\<lambda>(now, p) (r, q). job_step w_cfg now p q)
     [(1, ClaimJob ''a''), (102, ReclaimStale), (103, ClaimJob ''b''),
      (104, FinishJob (lease 103 ''b'' w_job) None), (105, FinishJob (lease 1 ''a'' w_job) (Some ''timed out''))]
     (None, w_table)) =
   \<lparr>jt_rows = [w_job\<lparr>jb_attempts := 2, jb_status := JobPending, jb_run_after := 125,
       jb_last_error := Some ''timed out'', jb_updated_at := 105\<rparr>], jt_next = 1\<rparr>"
  by (simp_all add: w_defs dequeue_one_def runnable_def update_where_def reconcile_once_def
      reclaim_stale_def stale_def given_back_def complete_job_def fail_job_def update_job_def get_job_def
      completed_def failed_def backoff_def)

end
