(* ===== verification/Approvals.thy ===== *)
theory Approvals
  imports Llm_Tools
begin

text \<open>
  Held tool calls and the user's rulings on them: the statements of \<open>PendingApprovalRepo\<close>
  (\<open>catalerum-store/src/repo.rs\<close>) on the rows of their table, and the protocol both users of it
  follow, the profile guard (\<open>catalerum-api/src/tool_gate.rs\<close>) and the computer tools
  (\<open>catalerum-api/src/tools/computer.rs\<close>). A JSONB column gives back \<open>jb_back\<close> of what was stored
  and compares by \<open>jb_same\<close>; both are Postgres'. Statements are atomic and succeed; rows equal in an
  \<open>ORDER BY\<close> are taken latest inserted first. A dash outside the character range is written \<open>-\<close>.
\<close>

datatype approval_decision = Approved | Rejected

record approval =
  pa_id :: nat
  pa_workspace :: string
  pa_conversation :: string
  pa_tool :: string
  pa_arguments :: json
  pa_reason :: string
  pa_created_at :: int
  pa_resolved_at :: "int option"
  pa_decision :: "approval_decision option"

record approvals =
  ap_rows :: "approval list"
  ap_next :: nat

record jsonb =
  jb_back :: "json \<Rightarrow> json"
  jb_same :: "json \<Rightarrow> json \<Rightarrow> bool"

section \<open>Statements\<close>

definition create_approval ::
  "int \<Rightarrow> string \<Rightarrow> string \<Rightarrow> string \<Rightarrow> json \<Rightarrow> string \<Rightarrow> approvals \<Rightarrow> approval \<times> approvals" where
  "create_approval now ws conv tool args reason q =
     (let a = \<lparr>pa_id = ap_next q, pa_workspace = ws, pa_conversation = conv, pa_tool = tool,
               pa_arguments = args, pa_reason = reason, pa_created_at = now, pa_resolved_at = None,
               pa_decision = None\<rparr>
      in (a, q\<lparr>ap_rows := ap_rows q @ [a], ap_next := Suc (ap_next q)\<rparr>))"

text \<open>\<open>ORDER BY key DESC LIMIT 1\<close>.\<close>

fun latest :: "('a \<Rightarrow> int) \<Rightarrow> 'a list \<Rightarrow> 'a option" where
  "latest key [] = None"
| "latest key (x # xs) =
     (case latest key xs of Some y \<Rightarrow> if key x \<le> key y then Some y else Some x | None \<Rightarrow> Some x)"

definition unresolved :: "string \<Rightarrow> string \<Rightarrow> approval \<Rightarrow> bool" where
  "unresolved ws conv a \<longleftrightarrow> pa_workspace a = ws \<and> pa_conversation a = conv \<and> pa_resolved_at a = None"

definition get_unresolved :: "string \<Rightarrow> string \<Rightarrow> approvals \<Rightarrow> approval option" where
  "get_unresolved ws conv q = latest pa_created_at (filter (unresolved ws conv) (ap_rows q))"

definition resolve_approval ::
  "int \<Rightarrow> string \<Rightarrow> nat \<Rightarrow> approval_decision \<Rightarrow> approvals \<Rightarrow> approval option \<times> approvals" where
  "resolve_approval now ws i d q =
     (let hit = (\<lambda>a. pa_workspace a = ws \<and> pa_id a = i \<and> pa_resolved_at a = None);
          upd = (\<lambda>a. a\<lparr>pa_resolved_at := Some now, pa_decision := Some d\<rparr>)
      in (map_option upd (List.find hit (ap_rows q)),
          q\<lparr>ap_rows := map (\<lambda>a. if hit a then upd a else a) (ap_rows q)\<rparr>))"

definition resolve_for_conversation :: "int \<Rightarrow> string \<Rightarrow> string \<Rightarrow> approvals \<Rightarrow> nat \<times> approvals" where
  "resolve_for_conversation now ws conv q =
     (length (filter (unresolved ws conv) (ap_rows q)),
      q\<lparr>ap_rows := map (\<lambda>a. if unresolved ws conv a then a\<lparr>pa_resolved_at := Some now\<rparr> else a) (ap_rows q)\<rparr>)"

definition for_call :: "jsonb \<Rightarrow> string \<Rightarrow> string \<Rightarrow> string \<Rightarrow> json \<Rightarrow> approval \<Rightarrow> bool" where
  "for_call J ws conv tool args a \<longleftrightarrow>
     pa_workspace a = ws \<and> pa_conversation a = conv \<and> pa_tool a = tool \<and> jb_same J (pa_arguments a) args"

definition take_resolved ::
  "jsonb \<Rightarrow> string \<Rightarrow> string \<Rightarrow> string \<Rightarrow> json \<Rightarrow> approvals \<Rightarrow> approval_decision option \<times> approvals" where
  "take_resolved J ws conv tool args q =
     (case latest (\<lambda>a. the (pa_resolved_at a))
             (filter (\<lambda>a. for_call J ws conv tool args a \<and> pa_resolved_at a \<noteq> None \<and> pa_decision a \<noteq> None)
               (ap_rows q)) of
        None \<Rightarrow> (None, q)
      | Some a \<Rightarrow> (pa_decision a, q\<lparr>ap_rows := filter (\<lambda>b. pa_id b \<noteq> pa_id a) (ap_rows q)\<rparr>))"

section \<open>Asking the user\<close>

text \<open>Both gates take a ruling already made on the very call, else hold the call: under the pending
  record that is this call's, or a new one when nothing is pending. The statements are one step here: the
  turns of a conversation do not overlap.\<close>

datatype asked = Ruled approval_decision | Busy | Held nat

definition ask_user ::
  "jsonb \<Rightarrow> int \<Rightarrow> string \<Rightarrow> string \<Rightarrow> string \<Rightarrow> json \<Rightarrow> string \<Rightarrow> approvals \<Rightarrow> asked \<times> approvals" where
  "ask_user J now ws conv tool args reason q =
     (case take_resolved J ws conv tool args q of
        (Some d, q') \<Rightarrow> (Ruled d, q')
      | (None, q') \<Rightarrow>
          (case get_unresolved ws conv q' of
             Some a \<Rightarrow>
               (if pa_tool a = tool \<and> json_eq (jb_back J (pa_arguments a)) args then (Held (pa_id a), q')
                else (Busy, q'))
           | None \<Rightarrow>
               (case create_approval now ws conv tool args reason q' of (a, q'') \<Rightarrow> (Held (pa_id a), q''))))"

definition awaiting :: "string \<Rightarrow> nat \<Rightarrow> string \<Rightarrow> json \<Rightarrow> string \<Rightarrow> json" where
  "awaiting note i tool args reason =
     JObj [(''arguments'', args), (''note'', JStr note), (''pending_approval_id'', JStr (show_nat i)),
           (''reason'', JStr reason), (''status'', JStr ''awaiting_approval''), (''tool'', JStr tool)]"

definition HELD_NOTE :: string where
  "HELD_NOTE =
     ''This tool call requires the user's approval and has been queued. ''
     @ ''STOP and end your turn now - do not call more tools or answer on the ''
     @ ''user's behalf. It will run once the user approves.''"

text \<open>The guard's verdict (\<open>tool_gate.rs\<close>).\<close>

definition defer_for_approval ::
  "jsonb \<Rightarrow> int \<Rightarrow> string \<Rightarrow> json \<Rightarrow> tool_context \<Rightarrow> string \<Rightarrow> approvals \<Rightarrow> gate_verdict \<times> approvals" where
  "defer_for_approval J now tool args ctx reason q =
     (case (x_workspace_id ctx, x_conversation_id ctx) of
        (Some ws, Some conv) \<Rightarrow>
          (case ask_user J now ws conv tool args reason q of
             (Ruled Approved, q') \<Rightarrow> (Allow, q')
           | (Ruled Rejected, q') \<Rightarrow> (Deny (''you rejected this tool call ('' @ reason @ '')''), q')
           | (Busy, q') \<Rightarrow>
               (Deny (''another tool call is already awaiting the user's approval; '' @ ''end your turn''), q')
           | (Held i, q') \<Rightarrow> (Defer (awaiting HELD_NOTE i tool args reason), q'))
      | _ \<Rightarrow> (Deny (''requires your approval, but no interactive conversation is available here (''
                @ reason @ '')''), q))"

text \<open>The computer tools' own gate (\<open>tools/computer.rs\<close>).\<close>

datatype computer_approval = CApproved | CRefused string | CAwaiting json

definition COMPUTER_NOTE :: string where
  "COMPUTER_NOTE =
     ''This action requires the user's approval and has been queued. STOP and end your ''
     @ ''turn now - do not call more tools or answer on the user's behalf. It will run once ''
     @ ''the user approves.''"

definition approval_gate ::
  "jsonb \<Rightarrow> int \<Rightarrow> tool_context \<Rightarrow> string \<Rightarrow> json \<Rightarrow> string \<Rightarrow> approvals \<Rightarrow> computer_approval \<times> approvals" where
  "approval_gate J now ctx tool args reason q =
     (case (x_workspace_id ctx, x_conversation_id ctx) of
        (Some ws, Some conv) \<Rightarrow>
          (case ask_user J now ws conv tool args reason q of
             (Ruled Approved, q') \<Rightarrow> (CApproved, q')
           | (Ruled Rejected, q') \<Rightarrow> (CRefused (''you rejected this ('' @ reason @ '')''), q')
           | (Busy, q') \<Rightarrow>
               (CRefused ''another tool call is already awaiting the user's approval; end your turn'', q')
           | (Held i, q') \<Rightarrow> (CAwaiting (awaiting COMPUTER_NOTE i tool args reason), q'))
      | _ \<Rightarrow> (CRefused (''this needs your approval, but there is no interactive conversation to ask in (''
                @ reason @ '')''), q))"

section \<open>Histories\<close>

datatype approval_op =
    Ask string string string json string
  | Decide string nat approval_decision
  | Supersede string string

datatype approval_out = Asked asked | Decided "approval option" | Superseded nat

fun approval_step :: "jsonb \<Rightarrow> int \<Rightarrow> approval_op \<Rightarrow> approvals \<Rightarrow> approval_out \<times> approvals" where
  "approval_step J now (Ask ws conv tool args reason) q =
     (case ask_user J now ws conv tool args reason q of (r, q') \<Rightarrow> (Asked r, q'))"
| "approval_step J now (Decide ws i d) q = (case resolve_approval now ws i d q of (r, q') \<Rightarrow> (Decided r, q'))"
| "approval_step J now (Supersede ws conv) q =
     (case resolve_for_conversation now ws conv q of (n, q') \<Rightarrow> (Superseded n, q'))"

type_synonym approval_history = "(approval_op \<times> approval_out) list"

inductive approval_reach :: "jsonb \<Rightarrow> approval_history \<Rightarrow> approvals \<Rightarrow> bool" for J where
  approval_start: "approval_reach J [] \<lparr>ap_rows = [], ap_next = 0\<rparr>"
| approval_next:
    "approval_reach J h q \<Longrightarrow> approval_step J now p q = (r, q') \<Longrightarrow> approval_reach J ((p, r) # h) q'"

text \<open>How often the user approved a call, and how often asking for it answered with that approval.\<close>

fun grants :: "jsonb \<Rightarrow> string \<Rightarrow> string \<Rightarrow> string \<Rightarrow> json \<Rightarrow> approval_op \<times> approval_out \<Rightarrow> bool" where
  "grants J ws conv tool args (Decide ws' i Approved, Decided (Some a)) = for_call J ws conv tool args a"
| "grants J ws conv tool args _ = False"

fun passes_once :: "jsonb \<Rightarrow> string \<Rightarrow> string \<Rightarrow> string \<Rightarrow> json \<Rightarrow> approval_op \<times> approval_out \<Rightarrow> bool" where
  "passes_once J ws conv tool args (Ask ws' conv' tool' args' reason, Asked (Ruled Approved)) =
     (ws' = ws \<and> conv' = conv \<and> tool' = tool \<and> jb_same J args' args)"
| "passes_once J ws conv tool args _ = False"

definition tally :: "('a \<Rightarrow> bool) \<Rightarrow> 'a list \<Rightarrow> nat" where
  "tally P xs = length (filter P xs)"

lemma tally_simps [simp]:
  "tally P [] = 0" "tally P (x # xs) = (if P x then 1 else 0) + tally P xs"
  "tally P (xs @ ys) = tally P xs + tally P ys"
  by (simp_all add: tally_def)

section \<open>Approvals are used once\<close>

definition open_grant :: "jsonb \<Rightarrow> string \<Rightarrow> string \<Rightarrow> string \<Rightarrow> json \<Rightarrow> approval \<Rightarrow> bool" where
  "open_grant J ws conv tool args a \<longleftrightarrow> for_call J ws conv tool args a \<and> pa_decision a = Some Approved"

definition approvals_ok :: "approvals \<Rightarrow> bool" where
  "approvals_ok q \<longleftrightarrow> distinct (map pa_id (ap_rows q)) \<and> (\<forall>a\<in>set (ap_rows q). pa_id a < ap_next q
     \<and> (pa_resolved_at a = None \<longrightarrow> pa_decision a = None))
     \<and> (\<forall>ws conv. tally (unresolved ws conv) (ap_rows q) \<le> 1)"

lemma latest_mem: "latest key xs = Some x \<Longrightarrow> x \<in> set xs"
  by (induction xs arbitrary: x) (auto split: option.splits if_splits)

lemma latest_None [simp]: "latest key xs = None \<longleftrightarrow> xs = []"
  by (cases xs) (auto split: option.splits)

lemma tally_le: "(\<And>x. x \<in> set xs \<Longrightarrow> P x \<Longrightarrow> Q x) \<Longrightarrow> tally P xs \<le> tally Q xs"
  by (induction xs) auto

lemma tally_filter_le: "tally P (filter Q xs) \<le> tally P xs"
  by (induction xs) auto

lemma tally_map: "tally P (map f xs) = tally (\<lambda>x. P (f x)) xs"
  by (induction xs) auto

lemma tally_remove:
  assumes "distinct (map pa_id xs)" "a \<in> set xs"
  shows "tally P xs = tally P (filter (\<lambda>b. pa_id b \<noteq> pa_id a) xs) + (if P a then 1 else 0)"
  using assms
proof (induction xs)
  case (Cons x xs)
  show ?case
  proof (cases "x = a")
    case True
    then have "\<forall>y\<in>set xs. pa_id y \<noteq> pa_id a" using Cons.prems(1) by (auto simp: image_iff)
    then have "filter (\<lambda>b. pa_id b \<noteq> pa_id a) xs = xs" by simp
    then show ?thesis using True by simp
  next
    case False
    then have "a \<in> set xs" using Cons.prems(2) by simp
    then show ?thesis using Cons by (auto simp: image_iff)
  qed
qed simp

lemma take_resolved_cases:
  assumes "approvals_ok q"
  obtains "take_resolved J ws conv tool args q = (None, q)"
  | a d where "a \<in> set (ap_rows q)" "for_call J ws conv tool args a" "pa_resolved_at a \<noteq> None" "pa_decision a = Some d"
      "take_resolved J ws conv tool args q = (Some d, q\<lparr>ap_rows := filter (\<lambda>b. pa_id b \<noteq> pa_id a) (ap_rows q)\<rparr>)"
proof (cases "latest (\<lambda>a. the (pa_resolved_at a))
    (filter (\<lambda>a. for_call J ws conv tool args a \<and> pa_resolved_at a \<noteq> None \<and> pa_decision a \<noteq> None) (ap_rows q))")
  case None
  then show ?thesis using that(1) unfolding take_resolved_def None by simp
next
  case (Some a)
  then show ?thesis using that(2)[of a] latest_mem[OF Some] unfolding take_resolved_def Some by auto
qed

lemma approvals_ok_rows:
  assumes "approvals_ok q" "distinct (map pa_id rows)"
    and "\<And>a. a \<in> set rows \<Longrightarrow> pa_id a < ap_next q \<and> (pa_resolved_at a = None \<longrightarrow> pa_decision a = None)"
    and "\<And>ws conv. tally (unresolved ws conv) rows \<le> tally (unresolved ws conv) (ap_rows q)"
  shows "approvals_ok (q\<lparr>ap_rows := rows\<rparr>)"
proof -
  have "tally (unresolved ws conv) rows \<le> 1" for ws conv
    using assms(1) assms(4)[of ws conv] unfolding approvals_ok_def by (meson le_trans)
  then show ?thesis using assms(2,3) unfolding approvals_ok_def by simp
qed

lemma approvals_ok_filter: "approvals_ok q \<Longrightarrow> approvals_ok (q\<lparr>ap_rows := filter P (ap_rows q)\<rparr>)"
  by (rule approvals_ok_rows) (auto simp: approvals_ok_def tally_filter_le intro: distinct_map_filter)

lemma create_ok:
  assumes ok: "approvals_ok q" and none: "get_unresolved ws conv q = None"
  shows "approvals_ok (snd (create_approval now ws conv tool args reason q))"
proof -
  have "tally (unresolved ws conv) (ap_rows q) = 0" using none by (simp add: get_unresolved_def tally_def)
  moreover have "ap_next q \<notin> pa_id ` set (ap_rows q)" using ok by (auto simp: approvals_ok_def)
  ultimately show ?thesis using ok
    by (auto simp: approvals_ok_def create_approval_def Let_def unresolved_def less_Suc_eq)
qed

text \<open>Asking keeps the table in order, approves nothing, and passes a call only on an approval of
  that call, which it uses up.\<close>

lemma ask_user_ok:
  assumes ok: "approvals_ok q" and ask: "ask_user J now ws conv tool args reason q = (r, q')"
  shows "approvals_ok q'" "tally (open_grant J w c t b) (ap_rows q') \<le> tally (open_grant J w c t b) (ap_rows q)"
    and "r = Ruled Approved \<Longrightarrow> equivp (jb_same J) \<Longrightarrow> w = ws \<and> c = conv \<and> t = tool \<and> jb_same J args b \<Longrightarrow>
      tally (open_grant J w c t b) (ap_rows q) = Suc (tally (open_grant J w c t b) (ap_rows q'))"
proof -
  have dist: "distinct (map pa_id (ap_rows q))" using ok by (simp add: approvals_ok_def)
  have "approvals_ok q' \<and> tally (open_grant J w c t b) (ap_rows q') \<le> tally (open_grant J w c t b) (ap_rows q) \<and>
    (r = Ruled Approved \<longrightarrow> equivp (jb_same J) \<longrightarrow> w = ws \<and> c = conv \<and> t = tool \<and> jb_same J args b \<longrightarrow>
      tally (open_grant J w c t b) (ap_rows q) = Suc (tally (open_grant J w c t b) (ap_rows q')))"
  proof (cases rule: take_resolved_cases[OF ok, of J ws conv tool args])
    case 1
    show ?thesis
    proof (cases "get_unresolved ws conv q")
      case (Some a)
      then show ?thesis using ask 1 ok by (auto simp: ask_user_def split: if_splits)
    next
      case None
      have "r \<noteq> Ruled Approved" "q' = snd (create_approval now ws conv tool args reason q)"
        using ask 1 None by (auto simp: ask_user_def split: prod.splits)
      then show ?thesis using create_ok[OF ok None]
        by (simp add: create_approval_def Let_def open_grant_def)
    qed
  next
    case (2 a d)
    have q': "q' = q\<lparr>ap_rows := filter (\<lambda>b. pa_id b \<noteq> pa_id a) (ap_rows q)\<rparr>" and r: "r = Ruled d"
      using ask 2(5) by (simp_all add: ask_user_def)
    have "open_grant J w c t b a" if "d = Approved" "equivp (jb_same J)"
        "w = ws \<and> c = conv \<and> t = tool \<and> jb_same J args b"
      using 2(2,4) that equivp_transp[OF that(2)] by (auto simp: open_grant_def for_call_def)
    then show ?thesis
      using tally_remove[OF dist 2(1), of "open_grant J w c t b"] approvals_ok_filter[OF ok] q' r
      by (auto simp: tally_filter_le)
  qed
  then show "approvals_ok q'" "tally (open_grant J w c t b) (ap_rows q') \<le> tally (open_grant J w c t b) (ap_rows q)"
    "r = Ruled Approved \<Longrightarrow> equivp (jb_same J) \<Longrightarrow> w = ws \<and> c = conv \<and> t = tool \<and> jb_same J args b \<Longrightarrow>
      tally (open_grant J w c t b) (ap_rows q) = Suc (tally (open_grant J w c t b) (ap_rows q'))"
    by blast+
qed

lemma resolve_ok:
  assumes ok: "approvals_ok q" and res: "resolve_approval now ws i d q = (r, q')"
  shows "approvals_ok q'"
    "tally (open_grant J w c t b) (ap_rows q') = tally (open_grant J w c t b) (ap_rows q)
       + (if grants J w c t b (Decide ws i d, Decided r) then 1 else 0)"
proof -
  let ?hit = "\<lambda>a. pa_workspace a = ws \<and> pa_id a = i \<and> pa_resolved_at a = None"
  let ?upd = "\<lambda>a. a\<lparr>pa_resolved_at := Some now, pa_decision := Some d\<rparr>"
  let ?rows = "map (\<lambda>a. if ?hit a then ?upd a else a) (ap_rows q)"
  have r: "r = map_option ?upd (List.find ?hit (ap_rows q))" and q': "q' = q\<lparr>ap_rows := ?rows\<rparr>"
    using res by (auto simp: resolve_approval_def Let_def)
  have ids: "map pa_id ?rows = map pa_id (ap_rows q)" by simp
  have "tally (unresolved w' c') ?rows \<le> tally (unresolved w' c') (ap_rows q)" for w' c'
    unfolding tally_map by (rule tally_le) (auto simp: unresolved_def split: if_splits)
  then show "approvals_ok q'" unfolding q' using ok ids
    by (intro approvals_ok_rows) (auto simp: approvals_ok_def simp del: map_map split: if_splits)
  have step: "tally (open_grant J w c t b) (map (\<lambda>a. if ?hit a then ?upd a else a) xs) =
      tally (open_grant J w c t b) xs +
      (case List.find ?hit xs of Some a \<Rightarrow> if d = Approved \<and> for_call J w c t b a then 1 else 0 | None \<Rightarrow> 0)"
    if "distinct (map pa_id xs)" "\<forall>a\<in>set xs. pa_resolved_at a = None \<longrightarrow> pa_decision a = None" for xs
    using that
  proof (induction xs)
    case (Cons x xs)
    show ?case
    proof (cases "?hit x")
      case True
      then have "\<forall>y\<in>set xs. \<not> ?hit y" using Cons.prems(1) by (auto simp: image_iff)
      then have same: "map (\<lambda>a. if ?hit a then ?upd a else a) xs = xs" by (intro map_idI) auto
      show ?thesis unfolding list.map same using True Cons.prems(2)
        by (cases d) (auto simp: open_grant_def for_call_def)
    next
      case False
      have IH: "tally (open_grant J w c t b) (map (\<lambda>a. if ?hit a then ?upd a else a) xs) =
          tally (open_grant J w c t b) xs +
          (case List.find ?hit xs of Some a \<Rightarrow> if d = Approved \<and> for_call J w c t b a then 1 else 0 | None \<Rightarrow> 0)"
        by (rule Cons.IH) (use Cons.prems in auto)
      show ?thesis unfolding list.map tally_simps List.find.simps if_not_P[OF False] IH by (rule add.assoc[symmetric])
    qed
  qed simp
  show "tally (open_grant J w c t b) (ap_rows q') = tally (open_grant J w c t b) (ap_rows q)
       + (if grants J w c t b (Decide ws i d, Decided r) then 1 else 0)"
    unfolding q' using step[of "ap_rows q"] ok
    by (cases d; cases "List.find ?hit (ap_rows q)") (auto simp: approvals_ok_def r for_call_def)
qed

lemma supersede_ok:
  assumes ok: "approvals_ok q" and sup: "resolve_for_conversation now ws conv q = (n, q')"
  shows "approvals_ok q'" "tally (open_grant J w c t b) (ap_rows q') = tally (open_grant J w c t b) (ap_rows q)"
proof -
  let ?rows = "map (\<lambda>a. if unresolved ws conv a then a\<lparr>pa_resolved_at := Some now\<rparr> else a) (ap_rows q)"
  have q': "q' = q\<lparr>ap_rows := ?rows\<rparr>" using sup by (auto simp: resolve_for_conversation_def)
  have ids: "map pa_id ?rows = map pa_id (ap_rows q)" by simp
  have "tally (unresolved w' c') ?rows \<le> tally (unresolved w' c') (ap_rows q)" for w' c'
    unfolding tally_map by (rule tally_le) (auto simp: unresolved_def split: if_splits)
  then show "approvals_ok q'" unfolding q' using ok ids
    by (intro approvals_ok_rows) (auto simp: approvals_ok_def simp del: map_map split: if_splits)
  have "(\<lambda>a. open_grant J w c t b (if unresolved ws conv a then a\<lparr>pa_resolved_at := Some now\<rparr> else a)) = open_grant J w c t b"
    by (auto simp: open_grant_def for_call_def)
  then show "tally (open_grant J w c t b) (ap_rows q') = tally (open_grant J w c t b) (ap_rows q)"
    unfolding q' by (simp add: tally_map)
qed

lemma passes_once_Ask:
  "passes_once J w c t b (Ask ws conv tool args reason, Asked x) \<longleftrightarrow>
     x = Ruled Approved \<and> w = ws \<and> c = conv \<and> t = tool \<and> jb_same J args b"
proof (cases x)
  case (Ruled d)
  then show ?thesis by (cases d) auto
qed simp_all

lemma approvals_reach:
  assumes "equivp (jb_same J)" "approval_reach J h q"
  shows "approvals_ok q \<and>
    tally (passes_once J w c t b) h + tally (open_grant J w c t b) (ap_rows q) \<le> tally (grants J w c t b) h"
  using assms(2)
proof (induction rule: approval_reach.induct)
  case approval_start
  show ?case by (simp add: approvals_ok_def)
next
  case (approval_next h q now p r q')
  then have ok: "approvals_ok q" by blast
  show ?case
  proof (cases p)
    case (Ask ws conv tool args reason)
    obtain x where x: "ask_user J now ws conv tool args reason q = (x, q')" "r = Asked x"
      using approval_next.hyps(2) Ask by (auto split: prod.splits)
    show ?thesis
    proof (cases "passes_once J w c t b (p, r)")
      case True
      then have "x = Ruled Approved" and call: "w = ws \<and> c = conv \<and> t = tool \<and> jb_same J args b"
        unfolding Ask x(2) passes_once_Ask by auto
      then show ?thesis
        using ask_user_ok(1)[OF ok x(1)] ask_user_ok(3)[OF ok x(1) _ assms(1) call] approval_next.IH True Ask by simp
    next
      case False
      then show ?thesis
        using ask_user_ok(1)[OF ok x(1)] ask_user_ok(2)[OF ok x(1), of w c t b] approval_next.IH Ask by simp
    qed
  next
    case (Decide ws i d)
    obtain x where x: "resolve_approval now ws i d q = (x, q')" "r = Decided x"
      using approval_next.hyps(2) Decide by (auto split: prod.splits)
    then show ?thesis using resolve_ok(1)[OF ok x(1)] resolve_ok(2)[OF ok x(1), of J w c t b] approval_next.IH Decide by auto
  next
    case (Supersede ws conv)
    obtain n where n: "resolve_for_conversation now ws conv q = (n, q')" "r = Superseded n"
      using approval_next.hyps(2) Supersede by (auto split: prod.splits)
    then show ?thesis using supersede_ok(1)[OF ok n(1)] supersede_ok(2)[OF ok n(1), of J w c t b] approval_next.IH Supersede by auto
  qed
qed

text \<open>C15: an approval is used once. In any history of held calls, rulings of the user and superseded
  threads, a call (its conversation, tool and arguments) passes at most as often as the user
  approved that very call, and at most one call of a conversation awaits a ruling at any time.\<close>

theorem approvals_used_once:
  assumes "equivp (jb_same J)" "approval_reach J h q"
  shows "tally (passes_once J w c t b) h + tally (open_grant J w c t b) (ap_rows q) \<le> tally (grants J w c t b) h
    \<and> (\<forall>ws conv. tally (unresolved ws conv) (ap_rows q) \<le> 1)"
  using approvals_reach[OF assms] by (auto simp: approvals_ok_def)

definition plain_jsonb :: jsonb where
  "plain_jsonb = \<lparr>jb_back = id, jb_same = (=)\<rparr>"

lemma plain_jsonb_equiv: "equivp (jb_same plain_jsonb)"
  by (simp add: plain_jsonb_def identity_equivp)

text \<open>Asked, approved, passed.\<close>

definition a_row :: approval where
  "a_row = \<lparr>pa_id = 0, pa_workspace = ''w'', pa_conversation = ''c'', pa_tool = ''wipe'', pa_arguments = JNull,
     pa_reason = ''r'', pa_created_at = 1, pa_resolved_at = None, pa_decision = None\<rparr>"

definition a_ruled :: approval where
  "a_ruled = a_row\<lparr>pa_resolved_at := Some 2, pa_decision := Some Approved\<rparr>"

definition a_history :: approval_history where
  "a_history = [(Ask ''w'' ''c'' ''wipe'' JNull ''r'', Asked (Ruled Approved)),
     (Decide ''w'' 0 Approved, Decided (Some a_ruled)),
     (Ask ''w'' ''c'' ''wipe'' JNull ''r'', Asked (Held 0))]"

lemma a_history_reach: "approval_reach plain_jsonb a_history \<lparr>ap_rows = [], ap_next = 1\<rparr>"
proof -
  have "approval_reach plain_jsonb [(Ask ''w'' ''c'' ''wipe'' JNull ''r'', Asked (Held 0))] \<lparr>ap_rows = [a_row], ap_next = 1\<rparr>"
    by (rule approval_next[OF approval_start, where now = 1])
      (simp add: ask_user_def take_resolved_def get_unresolved_def create_approval_def a_row_def Let_def)
  then have "approval_reach plain_jsonb [(Decide ''w'' 0 Approved, Decided (Some a_ruled)),
      (Ask ''w'' ''c'' ''wipe'' JNull ''r'', Asked (Held 0))] \<lparr>ap_rows = [a_ruled], ap_next = 1\<rparr>"
    by (rule approval_next[where now = 2]) (simp add: resolve_approval_def a_row_def a_ruled_def Let_def)
  then show ?thesis unfolding a_history_def
    by (rule approval_next[where now = 3])
      (simp add: ask_user_def take_resolved_def for_call_def a_row_def a_ruled_def plain_jsonb_def)
qed

theorem approvals_used_once_witness:
  "tally (passes_once plain_jsonb ''w'' ''c'' ''wipe'' JNull) a_history \<le> 1"
  using approvals_used_once[OF plain_jsonb_equiv a_history_reach, of "''w''" "''c''" "''wipe''" JNull]
  by (simp add: a_history_def for_call_def a_row_def a_ruled_def plain_jsonb_def)

end
