(* ===== verification/Object_Labels.thy ===== *)
theory Object_Labels
  imports Prelude
begin

text \<open>
  Labels on stored files and directories: the statements of \<open>ObjectLabelRepo\<close>
  (\<open>catalerum-store/src/repo.rs\<close>) on the rows of \<open>object_labels\<close>. A label belongs to one workspace,
  store and path; applying it again refreshes its row. Statements are atomic and succeed; row ids,
  UUIDs in the code, are numbers drawn in order.
\<close>

datatype author = AuthorUser string | AuthorAgent string

record object_label =
  ol_id :: nat
  ol_workspace :: string
  ol_store :: string
  ol_path :: string
  ol_is_dir :: bool
  ol_label :: string
  ol_author :: author
  ol_created_at :: int

record label_table =
  lt_rows :: "object_label list"
  lt_next :: nat

datatype label_error = LabelInvalid string | LabelNotFound

definition label_key :: "object_label \<Rightarrow> string \<times> string \<times> string \<times> string" where
  "label_key l = (ol_workspace l, ol_store l, ol_path l, ol_label l)"

section \<open>Statements\<close>

definition add_label ::
  "int \<Rightarrow> string \<Rightarrow> author \<Rightarrow> string \<Rightarrow> string \<Rightarrow> bool \<Rightarrow> string \<Rightarrow> label_table
     \<Rightarrow> (label_error + object_label) \<times> label_table" where
  "add_label now ws who store path is_dir label q =
     (let path = trim path; label = trim label in
      if path = [] then (Inl (LabelInvalid ''a label's path must not be empty''), q)
      else if label = [] then (Inl (LabelInvalid ''a label must not be empty''), q)
      else (case List.find (\<lambda>l. label_key l = (ws, store, path, label)) (lt_rows q) of
              Some l \<Rightarrow>
                (Inr (l\<lparr>ol_is_dir := is_dir\<rparr>),
                 q\<lparr>lt_rows := map (\<lambda>l. if label_key l = (ws, store, path, label) then l\<lparr>ol_is_dir := is_dir\<rparr> else l)
                    (lt_rows q)\<rparr>)
            | None \<Rightarrow>
                (let l = \<lparr>ol_id = lt_next q, ol_workspace = ws, ol_store = store, ol_path = path,
                          ol_is_dir = is_dir, ol_label = label, ol_author = who, ol_created_at = now\<rparr>
                 in (Inr l, q\<lparr>lt_rows := lt_rows q @ [l], lt_next := Suc (lt_next q)\<rparr>))))"

text \<open>\<open>ORDER BY created_at ASC, id ASC\<close> and \<open>ORDER BY created_at DESC, id ASC\<close>.\<close>

definition oldest_first :: "object_label list \<Rightarrow> object_label list" where
  "oldest_first ls = sort_key ol_created_at (sort_key ol_id ls)"

definition newest_first :: "object_label list \<Rightarrow> object_label list" where
  "newest_first ls = sort_key (\<lambda>l. - ol_created_at l) (sort_key ol_id ls)"

definition list_for :: "string \<Rightarrow> string \<Rightarrow> string \<Rightarrow> label_table \<Rightarrow> object_label list" where
  "list_for ws store path q =
     oldest_first (filter (\<lambda>l. ol_workspace l = ws \<and> ol_store l = store \<and> ol_path l = path) (lt_rows q))"

definition list_by_store :: "string \<Rightarrow> string \<Rightarrow> string \<Rightarrow> int \<Rightarrow> label_table \<Rightarrow> object_label list" where
  "list_by_store ws store prefix limit q =
     take (nat (max limit 1))
       (newest_first (filter (\<lambda>l. ol_workspace l = ws \<and> ol_store l = store \<and>
          (prefix = [] \<or> starts_with prefix (ol_path l))) (lt_rows q)))"

definition list_by_label :: "string \<Rightarrow> string \<Rightarrow> int \<Rightarrow> label_table \<Rightarrow> object_label list" where
  "list_by_label ws label limit q =
     take (nat (max limit 1)) (newest_first (filter (\<lambda>l. ol_workspace l = ws \<and> ol_label l = label) (lt_rows q)))"

definition list_for_paths :: "string \<Rightarrow> (string \<times> string) list \<Rightarrow> label_table \<Rightarrow> object_label list" where
  "list_for_paths ws pairs q =
     (if pairs = [] then []
      else oldest_first (filter (\<lambda>l. ol_workspace l = ws \<and> (ol_store l, ol_path l) \<in> set pairs) (lt_rows q)))"

definition delete_label :: "string \<Rightarrow> nat \<Rightarrow> label_table \<Rightarrow> (label_error + unit) \<times> label_table" where
  "delete_label ws i q =
     (let hit = (\<lambda>l. ol_id l = i \<and> ol_workspace l = ws) in
      (if filter hit (lt_rows q) = [] then Inl LabelNotFound else Inr (),
       q\<lparr>lt_rows := filter (Not \<circ> hit) (lt_rows q)\<rparr>))"

definition delete_for_path :: "string \<Rightarrow> string \<Rightarrow> string \<Rightarrow> label_table \<Rightarrow> nat \<times> label_table" where
  "delete_for_path ws store path q =
     (let hit = (\<lambda>l. ol_workspace l = ws \<and> ol_store l = store \<and> ol_path l = path) in
      (length (filter hit (lt_rows q)), q\<lparr>lt_rows := filter (Not \<circ> hit) (lt_rows q)\<rparr>))"

section \<open>One row per label\<close>

definition labels_ok :: "label_table \<Rightarrow> bool" where
  "labels_ok q \<longleftrightarrow> distinct (map label_key (lt_rows q)) \<and>
     (\<forall>l\<in>set (lt_rows q). ol_id l < lt_next q \<and> ol_path l \<noteq> [] \<and> ol_label l \<noteq> [])"

lemma set_oldest_first [simp]: "set (oldest_first ls) = set ls"
  by (simp add: oldest_first_def)

lemma label_key_dir [simp]: "label_key (l\<lparr>ol_is_dir := b\<rparr>) = label_key l"
  by (simp add: label_key_def)

lemma map_key_dir: "map label_key (map (\<lambda>l. if P l then l\<lparr>ol_is_dir := b\<rparr> else l) ls) = map label_key ls"
  by simp

lemma labels_ok_filter: "labels_ok q \<Longrightarrow> labels_ok (q\<lparr>lt_rows := filter P (lt_rows q)\<rparr>)"
  by (auto simp: labels_ok_def distinct_map_filter)

lemma add_label_ok:
  assumes "labels_ok q"
  shows "labels_ok (snd (add_label now ws who store path is_dir label q))"
proof (cases "trim path = [] \<or> trim label = []")
  case True
  then show ?thesis using assms by (auto simp: add_label_def Let_def)
next
  case named: False
  let ?k = "(ws, store, trim path, trim label)"
  show ?thesis
  proof (cases "List.find (\<lambda>l. label_key l = ?k) (lt_rows q)")
    case (Some l)
    then show ?thesis using assms named map_key_dir
      by (auto simp: add_label_def Let_def labels_ok_def simp del: map_map)
  next
    case None
    then have "?k \<notin> label_key ` set (lt_rows q)" by (auto simp: find_None_iff)
    then show ?thesis using assms named None
      by (auto simp: add_label_def Let_def labels_ok_def label_key_def less_Suc_eq)
  qed
qed

text \<open>What applying a label does to the label sets, given that both texts say something.\<close>

definition labels_on :: "label_table \<Rightarrow> string \<Rightarrow> string \<Rightarrow> string \<Rightarrow> string set" where
  "labels_on q ws store path = ol_label ` set (list_for ws store path q)"

lemma labels_on_eq: "labels_on q ws store path = {x. (ws, store, path, x) \<in> label_key ` set (lt_rows q)}"
  by (auto simp: labels_on_def list_for_def label_key_def image_iff)

lemma find_member: "List.find P xs = Some x \<Longrightarrow> x \<in> set xs \<and> P x"
  by (induction xs) (auto split: if_splits)

lemma add_label_keys:
  assumes "trim path \<noteq> []" "trim label \<noteq> []"
  shows "label_key ` set (lt_rows (snd (add_label now ws who store path is_dir label q))) =
    insert (ws, store, trim path, trim label) (label_key ` set (lt_rows q))"
proof (cases "List.find (\<lambda>l. label_key l = (ws, store, trim path, trim label)) (lt_rows q)")
  case (Some l)
  let ?P = "\<lambda>l. label_key l = (ws, store, trim path, trim label)"
  have "label_key ` set (map (\<lambda>l. if ?P l then l\<lparr>ol_is_dir := is_dir\<rparr> else l) (lt_rows q)) = label_key ` set (lt_rows q)"
    using arg_cong[OF map_key_dir[of ?P is_dir "lt_rows q"], of set] by (simp only: set_map)
  moreover have "(ws, store, trim path, trim label) \<in> label_key ` set (lt_rows q)"
    using Some find_member[OF Some] by (metis imageI)
  ultimately show ?thesis using assms Some by (simp add: add_label_def Let_def insert_absorb del: set_map)
next
  case None
  then show ?thesis using assms by (auto simp: add_label_def Let_def label_key_def)
qed

text \<open>A path's labels are a set. Applying a label to a path adds it to that path's labels and
  changes no other path's, keeps one row per label, and is idempotent in the label sets; blank
  texts are refused and change nothing; deleting a path's labels leaves it none and every other
  path its own; and listing many paths at once lists what listing each lists.\<close>

theorem labels_are_sets:
  "(trim path \<noteq> [] \<and> trim label \<noteq> [] \<longrightarrow>
      labels_on (snd (add_label now ws who store path is_dir label q)) w s p =
        labels_on q w s p \<union> (if (w, s, p) = (ws, store, trim path) then {trim label} else {}))
   \<and> (trim path = [] \<or> trim label = [] \<longrightarrow>
      (\<exists>why. add_label now ws who store path is_dir label q = (Inl (LabelInvalid why), q)))
   \<and> (labels_ok q \<longrightarrow> labels_ok (snd (add_label now ws who store path is_dir label q)))
   \<and> labels_on (snd (delete_for_path ws store path q)) w s p =
        (if (w, s, p) = (ws, store, path) then {} else labels_on q w s p)
   \<and> set (list_for_paths ws pairs q) = (\<Union>(s, p)\<in>set pairs. set (list_for ws s p q))"
proof (intro conjI impI)
  show "labels_on (snd (add_label now ws who store path is_dir label q)) w s p =
      labels_on q w s p \<union> (if (w, s, p) = (ws, store, trim path) then {trim label} else {})"
    if "trim path \<noteq> [] \<and> trim label \<noteq> []"
    using add_label_keys[of path label now ws who store is_dir q] that by (auto simp: labels_on_eq)
  show "\<exists>why. add_label now ws who store path is_dir label q = (Inl (LabelInvalid why), q)"
    if "trim path = [] \<or> trim label = []" using that by (auto simp: add_label_def Let_def)
  show "labels_on (snd (delete_for_path ws store path q)) w s p =
      (if (w, s, p) = (ws, store, path) then {} else labels_on q w s p)"
    by (auto simp: labels_on_eq delete_for_path_def Let_def label_key_def image_iff)
qed (auto simp: add_label_ok list_for_paths_def list_for_def)

theorem labels_are_sets_witness:
  "labels_on (snd (add_label 1 ''w'' (AuthorUser ''u'') '''' '' a '' False ''x'' \<lparr>lt_rows = [], lt_next = 0\<rparr>)) ''w'' '''' ''a'' = {''x''}"
proof -
  have t: "trim '' a '' = ''a''" "trim ''x'' = ''x''"
    by (simp_all add: run)
  show ?thesis using labels_are_sets[of "'' a ''" "''x''" 1 "''w''" "AuthorUser ''u''" "''''" False "\<lparr>lt_rows = [], lt_next = 0\<rparr>" "''w''" "''''" "''a''"]
    by (simp add: t labels_on_def list_for_def oldest_first_def)
qed

end
