(* ===== verification/Tool_Gate.thy ===== *)
theory Tool_Gate
  imports Approvals Object_Labels
begin

text \<open>
  A profile's tool guard (\<open>catalerum-api/src/tool_gate.rs\<close>, its data in \<open>catalerum-core/src/model.rs\<close>):
  for every call and output, first the label policy, then the classifier, a script or a model as
  judge, whose free-form ruling is read leniently, then the user where the ruling is to ask. The
  guard acts on the store's labels and approvals and on a world beyond them, on which scripts and
  models act. The script engine, the model, the texts of JSON and a tool's description are
  parameters; statements on the store succeed.
\<close>

section \<open>Policy data\<close>

record tool_guard_llm =
  gl_model :: "string option"
  gl_instruction :: string

datatype guard_fail = FailDeny | FailAllow | FailAsk

record object_label_policy =
  require_any :: "string list"
  deny_labels :: "string list"

record tool_guard =
  g_script :: "string option"
  g_llm :: "tool_guard_llm option"
  g_object_labels :: "object_label_policy option"
  g_on_error :: guard_fail

definition policy_empty :: "object_label_policy \<Rightarrow> bool" where
  "policy_empty p \<longleftrightarrow> require_any p = [] \<and> deny_labels p = []"

fun join_with :: "string \<Rightarrow> string list \<Rightarrow> string" where
  "join_with sep [] = []"
| "join_with sep [s] = s"
| "join_with sep (s # t # ss) = s @ sep @ join_with sep (t # ss)"

definition violation :: "object_label_policy \<Rightarrow> string list \<Rightarrow> string option" where
  "violation p labels =
     (case List.find (\<lambda>d. d \<in> set labels) (deny_labels p) of
        Some blocked \<Rightarrow> Some (''the object carries a blocked label `'' @ blocked @ ''`'')
      | None \<Rightarrow>
          if require_any p \<noteq> [] \<and> \<not> list_ex (\<lambda>r. r \<in> set labels) (require_any p)
          then Some (''the object lacks a required label (one of: '' @ join_with '', '' (require_any p) @ '')'')
          else None)"

section \<open>Reading a ruling\<close>

datatype classification = Cleared | Blocked string | MustAsk string

definition ASK_WORDS :: "string list" where
  "ASK_WORDS = [''require-user-feedback'', ''require_user_feedback'', ''feedback'', ''ask'', ''confirm'', ''approve'']"

definition DENY_WORDS :: "string list" where
  "DENY_WORDS = [''deny'', ''block'', ''reject'', ''refuse'', ''forbid'']"

definition normalize_decision :: "string \<Rightarrow> string" where
  "normalize_decision raw =
     (let s = map to_ascii_lowercase (trim raw);
          has = (\<lambda>needle. s = needle \<or> str_contains s needle)
      in if list_ex has ASK_WORDS then ''ask''
         else if list_ex has DENY_WORDS then ''deny''
         else if has ''allow'' \<or> has ''permit'' \<or> s = ''ok'' \<or> has ''approved'' then ''allow''
         else ''unknown'')"

definition classification_from :: "string \<Rightarrow> string \<Rightarrow> classification option" where
  "classification_from decision reason =
     (let with_reason = (\<lambda>fallback. if trim reason = [] then fallback else reason) in
      if decision = ''allow'' then Some Cleared
      else if decision = ''deny'' then Some (Blocked (with_reason ''blocked by the profile's tool guard''))
      else if decision = ''ask'' then Some (MustAsk (with_reason ''the profile's tool guard requires your approval''))
      else None)"

definition or_else :: "'a option \<Rightarrow> 'a option \<Rightarrow> 'a option" where
  "or_else a b = (case a of Some x \<Rightarrow> Some x | None \<Rightarrow> b)"

definition unwrap_or :: "'a \<Rightarrow> 'a option \<Rightarrow> 'a" where
  "unwrap_or d a = (case a of Some x \<Rightarrow> x | None \<Rightarrow> d)"

definition get_str :: "json \<Rightarrow> string \<Rightarrow> string option" where
  "get_str v k = Option.bind (obj_get v k) as_str"

text \<open>The field \<open>decision\<close>, or \<open>verdict\<close> where there is none, normalised.\<close>

definition object_decision :: "json \<Rightarrow> string" where
  "object_decision v =
     unwrap_or ''unknown''
       (map_option normalize_decision
         (Option.bind (or_else (obj_get v ''decision'') (obj_get v ''verdict'')) as_str))"

fun parse_classification :: "json \<Rightarrow> classification option" where
  "parse_classification (JStr s) = classification_from (normalize_decision s) []"
| "parse_classification (JObj m) =
     classification_from (object_decision (JObj m)) (unwrap_or [] (get_str (JObj m) ''reason''))"
| "parse_classification _ = None"

fun find_char :: "char \<Rightarrow> string \<Rightarrow> nat option" where
  "find_char c [] = None"
| "find_char c (x # xs) = (if x = c then Some 0 else map_option Suc (find_char c xs))"

definition rfind_char :: "char \<Rightarrow> string \<Rightarrow> nat option" where
  "rfind_char c s = map_option (\<lambda>k. length s - 1 - k) (find_char c (rev s))"

definition extract_json_object :: "(string \<Rightarrow> json option) \<Rightarrow> string \<Rightarrow> json option" where
  "extract_json_object from_str s =
     (case (find_char (CHR ''{'') s, rfind_char (CHR ''}'') s) of
        (Some first, Some last_at) \<Rightarrow>
          if first < last_at then from_str (drop first (take (Suc last_at) s)) else None
      | _ \<Rightarrow> None)"

definition parse_decision :: "(string \<Rightarrow> json option) \<Rightarrow> string \<Rightarrow> string \<times> string" where
  "parse_decision from_str s =
     (case extract_json_object from_str s of
        Some v \<Rightarrow>
          if object_decision v \<noteq> ''unknown'' then (object_decision v, unwrap_or [] (get_str v ''reason''))
          else (normalize_decision s, [])
      | None \<Rightarrow> (normalize_decision s, []))"

section \<open>The gate\<close>

record 'w guard_world =
  gw_approvals :: approvals
  gw_labels :: label_table
  gw_now :: int
  gw_rest :: 'w

type_synonym 'w gate =
  "gate_phase \<Rightarrow> tool \<Rightarrow> json \<Rightarrow> json option \<Rightarrow> tool_context \<Rightarrow> 'w \<Rightarrow> gate_verdict \<times> 'w"

text \<open>What a guard reaches: the tools through the registry's dispatch, the script engine, handed
  the two functions of its host, and the model.\<close>

record 'w guard_env =
  ge_tools :: "'w guard_world tool_env"
  run_guard :: "string \<Rightarrow> json \<Rightarrow> (string \<Rightarrow> json \<Rightarrow> ('w guard_world, string, json) eff)
    \<Rightarrow> (json \<Rightarrow> ('w guard_world, string, json) eff) \<Rightarrow> ('w guard_world, string, json) eff"
  llm_chat :: "string \<Rightarrow> chat_message list \<Rightarrow> ('w guard_world, string, string) eff"
  describe :: "tool \<Rightarrow> string"
  to_pretty :: "json \<Rightarrow> string"
  from_json_str :: "string \<Rightarrow> json option"
  ge_jsonb :: jsonb

record profile_gate =
  pg_guard :: tool_guard
  pg_registry :: tool_registry
  pg_base_ctx :: tool_context
  pg_default_model :: string
  pg_default_instruction :: "string option"
  pg_policy_context :: "json option"

definition build_gate_with_context ::
  "tool_guard option \<Rightarrow> tool_registry \<Rightarrow> tool_context \<Rightarrow> string \<Rightarrow> json option \<Rightarrow> profile_gate option" where
  "build_gate_with_context guard registry base_ctx fallback_model policy_context =
     (case guard of
        None \<Rightarrow> None
      | Some g \<Rightarrow> Some \<lparr>pg_guard = g, pg_registry = registry, pg_base_ctx = base_ctx\<lparr>x_gate := False\<rparr>,
          pg_default_model = unwrap_or fallback_model (Option.bind (g_llm g) gl_model),
          pg_default_instruction = map_option gl_instruction (g_llm g),
          pg_policy_context = policy_context\<rparr>)"

definition build_gate where
  "build_gate guard registry base_ctx fallback_model =
     build_gate_with_context guard registry base_ctx fallback_model None"

fun review_all :: "'w gate list \<Rightarrow> 'w gate" where
  "review_all [] phase t args out ctx w = (Allow, w)"
| "review_all (g # gs) phase t args out ctx w =
     (case g phase t args out ctx w of
        (Allow, w') \<Rightarrow> review_all gs phase t args out ctx w'
      | (v, w') \<Rightarrow> (v, w'))"

definition all_gates :: "'w gate option list \<Rightarrow> 'w gate option" where
  "all_gates gates =
     (case List.map_filter id gates of [] \<Rightarrow> None | [g] \<Rightarrow> Some g | gs \<Rightarrow> Some (review_all gs))"

record resolved_object =
  ro_store :: string
  ro_path :: string
  ro_labels :: "string list"

definition resolve_object :: "json \<Rightarrow> tool_context \<Rightarrow> label_table \<Rightarrow> resolved_object option" where
  "resolve_object args ctx q =
     Option.bind (x_workspace_id ctx) (\<lambda>ws.
     Option.bind (or_else (get_str args ''key'') (get_str args ''path'')) (\<lambda>raw.
       let path = trim_end_by (\<lambda>c. c = CHR ''/'') (trim raw) in
       if path = [] then None
       else let store = unwrap_or [] (get_str args ''store'') in
            Some \<lparr>ro_store = store, ro_path = path, ro_labels = map ol_label (list_for ws store path q)\<rparr>))"

definition json_opt :: "('a \<Rightarrow> json) \<Rightarrow> 'a option \<Rightarrow> json" where
  "json_opt f a = (case a of None \<Rightarrow> JNull | Some x \<Rightarrow> f x)"

definition build_input ::
  "'w guard_env \<Rightarrow> profile_gate \<Rightarrow> gate_phase \<Rightarrow> tool \<Rightarrow> json \<Rightarrow> json option \<Rightarrow> tool_context \<Rightarrow> resolved_object option \<Rightarrow> json" where
  "build_input G pg phase t args out ctx obj =
     (let cap = t_required t;
          capability = json_opt (\<lambda>c. JObj
            [(''action'', JStr (action_token (action c))), (''domain'', JStr (res_domain (resource c))),
             (''read_only'', JBool (action c = Read)), (''selector'', json_opt JStr (selector (resource c)))]) cap;
          mcp = (case cap of
            Some c \<Rightarrow> if res_domain (resource c) = ''mcp'' then JObj [(''server'', json_opt JStr (selector (resource c)))] else JNull
          | None \<Rightarrow> JNull);
          object = json_opt (\<lambda>o'. JObj
            [(''labels'', JArr (map JStr (ro_labels o'))), (''path'', JStr (ro_path o')), (''store'', JStr (ro_store o'))]) obj
      in JObj
        [(''agent_id'', json_opt JStr (x_agent_id ctx)), (''args'', args), (''capability'', capability),
         (''mcp'', mcp), (''object'', object), (''output'', json_opt id out),
         (''phase'', JStr (case phase of CallPhase \<Rightarrow> ''call'' | OutputPhase \<Rightarrow> ''output'')),
         (''policy_context'', json_opt id (pg_policy_context pg)),
         (''tool'', JObj [(''description'', JStr (describe G t)), (''name'', JStr (t_name t))]),
         (''user_id'', json_opt JStr (x_user_id ctx)), (''workspace_id'', json_opt JStr (x_workspace_id ctx))])"

section \<open>The classifier's host\<close>

text \<open>A dash or an ellipsis outside the character range is written \<open>-\<close> or \<open>...\<close>.\<close>

definition DEFAULT_JUDGE_SYSTEM :: string where
  "DEFAULT_JUDGE_SYSTEM =
     ''You are a security classifier deciding whether an AI agent may run a tool call. ''
     @ ''Reply with a compact JSON object {\"decision\": \"allow\"|\"deny\"|\"ask\", \"reason\": \"...\"}. ''
     @ ''Use \"ask\" when a human should confirm.''"

definition JUDGE_PROMPT :: string where
  "JUDGE_PROMPT =
     ''Classify this tool call as \"allow\", \"deny\", or \"ask\" (require user ''
     @ ''feedback). Reply with JSON {\"decision\": \"...\", \"reason\": \"...\"}.'' @ [CHR 0x0A, CHR 0x0A]"

definition judge_message :: "json \<Rightarrow> chat_message" where
  "judge_message m =
     (let content = uchars (unwrap_or [] (get_str m ''content'')) in
      if get_str m ''role'' = Some ''system'' then text_message System content
      else if get_str m ''role'' = Some ''assistant'' then text_message Assistant content
      else text_message User content)"

fun as_array :: "json \<Rightarrow> json list option" where
  "as_array (JArr xs) = Some xs"
| "as_array _ = None"

definition judge :: "'w guard_env \<Rightarrow> profile_gate \<Rightarrow> json \<Rightarrow> ('w guard_world, string, json) eff" where
  "judge G pg req w =
     (let model = unwrap_or (pg_default_model pg) (get_str req ''model'');
          sys = unwrap_or DEFAULT_JUDGE_SYSTEM (or_else (get_str req ''instruction'') (pg_default_instruction pg));
          messages = system_message (uchars sys) #
            (case Option.bind (obj_get req ''messages'') as_array of
               Some arr \<Rightarrow> map judge_message arr
             | None \<Rightarrow> [user_message (uchars (JUDGE_PROMPT @ to_pretty G req))])
      in case llm_chat G model messages w of
           (Inl e, w') \<Rightarrow> (Inl e, w')
         | (Inr reply, w') \<Rightarrow>
             (case parse_decision (from_json_str G) reply of
                (decision, reason) \<Rightarrow>
                  (Inr (JObj [(''decision'', JStr decision), (''reason'', JStr reason), (''text'', JStr reply)]), w')))"

definition call_tool :: "'w guard_env \<Rightarrow> profile_gate \<Rightarrow> string \<Rightarrow> json \<Rightarrow> ('w guard_world, string, json) eff" where
  "call_tool G pg n args w =
     (if get_tool (pg_registry pg) (uchars n) = None then (Inl (''unknown tool `'' @ n @ ''`''), w)
      else case dispatch_tool (ge_tools G) (pg_registry pg) (uchars n) args (pg_base_ctx pg) w of
             (Inl e, w') \<Rightarrow> (Inl (error_text e), w')
           | (Inr out, w') \<Rightarrow> (Inr out, w'))"

section \<open>Review\<close>

definition classify :: "'w guard_env \<Rightarrow> profile_gate \<Rightarrow> json \<Rightarrow> 'w guard_world \<Rightarrow> classification option \<times> 'w guard_world" where
  "classify G pg input w =
     (let read = (\<lambda>rw. case rw of (Inr v, w') \<Rightarrow> (parse_classification v, w') | (Inl e, w') \<Rightarrow> (None, w')) in
      case g_script (pg_guard pg) of
        Some script \<Rightarrow> read (run_guard G script input (call_tool G pg) (judge G pg) w)
      | None \<Rightarrow>
          if g_llm (pg_guard pg) \<noteq> None then read (judge G pg input w)
          else (Some Cleared, w))"

definition on_error_decision :: "profile_gate \<Rightarrow> classification" where
  "on_error_decision pg =
     (case g_on_error (pg_guard pg) of
        FailDeny \<Rightarrow> Blocked ''tool guard could not classify the call''
      | FailAllow \<Rightarrow> Cleared
      | FailAsk \<Rightarrow> MustAsk ''tool guard could not classify the call'')"

fun resolve_ruling ::
  "'w guard_env \<Rightarrow> classification \<Rightarrow> tool \<Rightarrow> json \<Rightarrow> tool_context \<Rightarrow> 'w guard_world \<Rightarrow> gate_verdict \<times> 'w guard_world" where
  "resolve_ruling G Cleared t args ctx w = (Allow, w)"
| "resolve_ruling G (Blocked reason) t args ctx w = (Deny reason, w)"
| "resolve_ruling G (MustAsk reason) t args ctx w =
     (case defer_for_approval (ge_jsonb G) (gw_now w) (t_name t) args ctx reason (gw_approvals w) of
        (v, q) \<Rightarrow> (v, w\<lparr>gw_approvals := q\<rparr>))"

definition label_violation :: "profile_gate \<Rightarrow> resolved_object option \<Rightarrow> string option" where
  "label_violation pg obj =
     (case (g_object_labels (pg_guard pg), obj) of
        (Some policy, Some ob) \<Rightarrow> violation policy (ro_labels ob)
      | _ \<Rightarrow> None)"

text \<open>The ruling on a call or output: the classifier's, or the configured one where it gives none.\<close>

definition ruling ::
  "'w guard_env \<Rightarrow> profile_gate \<Rightarrow> gate_phase \<Rightarrow> tool \<Rightarrow> json \<Rightarrow> json option \<Rightarrow> tool_context \<Rightarrow> 'w guard_world
     \<Rightarrow> classification \<times> 'w guard_world" where
  "ruling G pg phase t args out ctx w =
     (case classify G pg (build_input G pg phase t args out ctx (resolve_object args ctx (gw_labels w))) w of
        (c, w') \<Rightarrow> (unwrap_or (on_error_decision pg) c, w'))"

definition guard_review :: "'w guard_env \<Rightarrow> profile_gate \<Rightarrow> 'w guard_world gate" where
  "guard_review G pg phase t args out ctx w =
     (case (if phase = CallPhase then label_violation pg (resolve_object args ctx (gw_labels w)) else None) of
        Some reason \<Rightarrow> (Deny reason, w)
      | None \<Rightarrow> (case ruling G pg phase t args out ctx w of (c, w') \<Rightarrow> resolve_ruling G c t args ctx w'))"

section \<open>What a ruling says\<close>

lemma normalize_decision_range:
  "normalize_decision raw \<in> {''ask'', ''deny'', ''allow'', ''unknown''}"
  by (simp add: normalize_decision_def Let_def)

definition says :: "string \<Rightarrow> string \<Rightarrow> bool" where
  "says raw word \<longleftrightarrow> str_contains (map to_ascii_lowercase (trim raw)) word"

lemma has_says: "(map to_ascii_lowercase (trim raw) = word \<or> str_contains (map to_ascii_lowercase (trim raw)) word) \<longleftrightarrow> says raw word"
  by (auto simp: says_def str_contains_iff intro: exI[of _ "[]"])

lemma normalize_says:
  "normalize_decision raw =
     (if list_ex (says raw) ASK_WORDS then ''ask''
      else if list_ex (says raw) DENY_WORDS then ''deny''
      else if says raw ''allow'' \<or> says raw ''permit'' \<or> map to_ascii_lowercase (trim raw) = ''ok'' then ''allow''
      else ''unknown'')"
proof -
  have "says raw ''approved'' \<Longrightarrow> says raw ''approve''"
    unfolding says_def str_contains_iff by (metis append.assoc append_Cons append_Nil)
  then have "says raw ''approved'' \<Longrightarrow> list_ex (says raw) ASK_WORDS" by (simp add: ASK_WORDS_def)
  then show ?thesis unfolding normalize_decision_def Let_def has_says by auto
qed

text \<open>A text that says no more than that the call is not allowed reads as allowing it.\<close>

lemma not_allowed_allows:
  "parse_classification (JStr ''disallow'') = Some Cleared" "parse_classification (JStr ''not allowed'') = Some Cleared"
  by (simp_all add: normalize_decision_def classification_from_def ASK_WORDS_def DENY_WORDS_def run)

text \<open>Rulings are read to tighten. A free-form ruling is one of four; a word of asking outweighs
  one of denying, and one of denying outweighs one of allowing; a call is cleared only by a text
  that says to allow or permit it, or is OK, and says no word of asking or denying; and what says
  none of these, like a value that is neither text nor object, is no ruling.\<close>

theorem rulings_tighten:
  "(parse_classification (JStr raw) = Some Cleared \<longleftrightarrow>
      (says raw ''allow'' \<or> says raw ''permit'' \<or> map to_ascii_lowercase (trim raw) = ''ok'')
      \<and> list_all (\<lambda>word. \<not> says raw word) (ASK_WORDS @ DENY_WORDS))
   \<and> ((\<exists>why. parse_classification (JStr raw) = Some (MustAsk why)) \<longleftrightarrow> list_ex (says raw) ASK_WORDS)
   \<and> ((\<exists>why. parse_classification (JStr raw) = Some (Blocked why)) \<longleftrightarrow>
        list_ex (says raw) DENY_WORDS \<and> list_all (\<lambda>word. \<not> says raw word) ASK_WORDS)
   \<and> (\<forall>m. parse_classification (JObj m) = Some Cleared \<longleftrightarrow> object_decision (JObj m) = ''allow'')"
  by (auto simp: normalize_says classification_from_def Let_def list_all_iff list_ex_iff split: if_splits)

section \<open>The guard over dispatch\<close>

text \<open>The guard's own lookups are never reviewed.\<close>

lemma lookups_unreviewed:
  assumes "build_gate_with_context (Some g) registry ctx model policy = Some pg"
  shows "call_tool (G\<lparr>ge_tools := (ge_tools G)\<lparr>review := any_review\<rparr>\<rparr>) pg n args w = call_tool G pg n args w"
proof -
  let ?E = "(ge_tools G)\<lparr>review := any_review\<rparr>"
  have off: "x_gate (pg_base_ctx pg) = False" using assms by (auto simp: build_gate_with_context_def)
  have "run_gated ?E s t args (pg_base_ctx pg) None v = run_gated (ge_tools G) s t args (pg_base_ctx pg) None v" for s t v
    unfolding run_gated_def off if_False by simp
  then have "dispatch_tool ?E r m args (pg_base_ctx pg) v = dispatch_tool (ge_tools G) r m args (pg_base_ctx pg) v" for r m v
    unfolding dispatch_tool_def dispatch_inner_def off if_False
    by (simp split: option.split)
  then show ?thesis unfolding call_tool_def by simp
qed

lemma all_gates_Allow:
  assumes "all_gates gates = Some g" "g phase t args out ctx w = (Allow, w')" "g' \<in> set (List.map_filter id gates)"
  shows "\<exists>v v'. g' phase t args out ctx v = (Allow, v')"
proof -
  have all: "review_all gs phase t args out ctx w = (Allow, w') \<Longrightarrow> h \<in> set gs \<Longrightarrow> \<exists>v v'. h phase t args out ctx v = (Allow, v')"
    for gs h w
    by (induction gs arbitrary: w) (auto split: prod.splits gate_verdict.splits)
  consider (one) f where "List.map_filter id gates = [f]" "g = f"
    | (many) gs where "gs = List.map_filter id gates" "g = review_all gs"
    using assms(1) by (auto simp: all_gates_def split: list.splits)
  then show ?thesis
  proof cases
    case one
    then show ?thesis using assms(2,3) by auto
  next
    case many
    then show ?thesis using all[of "List.map_filter id gates" w g'] assms(2,3) by simp
  qed
qed

definition guarded_by :: "'w guard_env \<Rightarrow> profile_gate \<Rightarrow> 'w guard_world tool_env \<Rightarrow> bool" where
  "guarded_by G pg E \<longleftrightarrow> review E = guard_review G pg"

lemma defer_cases:
  assumes "defer_for_approval J now tool args ctx reason q = (v, q')"
  obtains ws conv where "v = Allow" "x_workspace_id ctx = Some ws" "x_conversation_id ctx = Some conv"
      "take_resolved J ws conv tool args q = (Some Approved, q')"
  | "v \<noteq> Allow"
  using assms
  by (auto simp: defer_for_approval_def ask_user_def split: option.splits prod.splits asked.splits approval_decision.splits if_splits)

text \<open>C14: a guarded call waits for its ruling. Dispatch under a profile's guard denies a call of an
  object whose labels the policy refuses, whatever the classifier would say; runs a call the
  classifier clears; denies one it blocks; and one to be asked about runs only on an approval of
  that very call recorded for its conversation, which it takes, and otherwise is answered the
  same whatever the tool does. So does a call whose classifier fails, by the ruling configured
  for that.\<close>

theorem guarded_call_waits:
  assumes "x_gate ctx" "get_tool r n = Some t" "covered ctx t"
  shows "case label_violation pg (resolve_object args ctx (gw_labels w)) of
      Some why \<Rightarrow> \<forall>E. guarded_by G pg E \<longrightarrow> dispatch_inner E r n args ctx ms w = (Inl (Denied why), w)
    | None \<Rightarrow>
       (case ruling G pg CallPhase t args None ctx w of
          (Cleared, w') \<Rightarrow> \<forall>E. guarded_by G pg E \<longrightarrow> dispatch_inner E r n args ctx ms w = run_gated E r t args ctx ms w'
        | (Blocked why, w') \<Rightarrow> \<forall>E. guarded_by G pg E \<longrightarrow> dispatch_inner E r n args ctx ms w = (Inl (Denied why), w')
        | (MustAsk why, w') \<Rightarrow>
           (\<exists>ws conv q. x_workspace_id ctx = Some ws \<and> x_conversation_id ctx = Some conv
              \<and> take_resolved (ge_jsonb G) ws conv (t_name t) args (gw_approvals w') = (Some Approved, q)
              \<and> (\<forall>E. guarded_by G pg E \<longrightarrow>
                   dispatch_inner E r n args ctx ms w = run_gated E r t args ctx ms (w'\<lparr>gw_approvals := q\<rparr>)))
           \<or> (\<exists>res q. \<forall>E. guarded_by G pg E \<longrightarrow>
                dispatch_inner E r n args ctx ms w = (res, w'\<lparr>gw_approvals := q\<rparr>)))"
proof (cases "label_violation pg (resolve_object args ctx (gw_labels w))")
  case (Some why)
  then show ?thesis using assms by (simp add: guarded_by_def dispatch_inner_def guard_review_def)
next
  case None
  obtain c w' where c: "ruling G pg CallPhase t args None ctx w = (c, w')" by (cases "ruling G pg CallPhase t args None ctx w")
  have disp: "dispatch_inner E r n args ctx ms w =
      (case resolve_ruling G c t args ctx w' of
         (Allow, w'') \<Rightarrow> run_gated E r t args ctx ms w''
       | (Deny reason, w'') \<Rightarrow> (Inl (Denied reason), w'')
       | (Defer result, w'') \<Rightarrow> (Inr result, w''))" if "guarded_by G pg E" for E
    using assms None c that by (simp add: guarded_by_def dispatch_inner_def guard_review_def)
  show ?thesis
  proof (cases c)
    case (MustAsk why)
    obtain v q where d: "defer_for_approval (ge_jsonb G) (gw_now w') (t_name t) args ctx why (gw_approvals w') = (v, q)"
      by fastforce
    then have rr: "resolve_ruling G c t args ctx w' = (v, w'\<lparr>gw_approvals := q\<rparr>)" using MustAsk by simp
    show ?thesis
    proof (cases rule: defer_cases[OF d])
      case (1 ws conv)
      then show ?thesis using None c MustAsk disp rr by auto
    next
      case 2
      then show ?thesis using None c MustAsk disp rr by (cases v) auto
    qed
  qed (use None c disp in auto)
qed

text \<open>A folder whose one file is confidential, and a guard that blocks what is.\<close>

definition w_labels :: label_table where
  "w_labels = \<lparr>lt_rows = [\<lparr>ol_id = 0, ol_workspace = ''w'', ol_store = '''', ol_path = ''a'', ol_is_dir = False,
     ol_label = ''secret'', ol_author = AuthorUser ''u'', ol_created_at = 1\<rparr>], lt_next = 1\<rparr>"

definition w_world :: "unit guard_world" where
  "w_world = \<lparr>gw_approvals = \<lparr>ap_rows = [], ap_next = 0\<rparr>, gw_labels = w_labels, gw_now = 1, gw_rest = ()\<rparr>"

definition w_gate :: profile_gate where
  "w_gate = \<lparr>pg_guard = \<lparr>g_script = None, g_llm = None,
       g_object_labels = Some \<lparr>require_any = [], deny_labels = [''secret'']\<rparr>, g_on_error = FailDeny\<rparr>,
     pg_registry = \<lparr>r_static = [wiper], r_dynamic = []\<rparr>, pg_base_ctx = reader_ctx,
     pg_default_model = ''m'', pg_default_instruction = None, pg_policy_context = None\<rparr>"

definition w_env :: "unit guard_env" where
  "w_env = \<lparr>ge_tools = \<lparr>invoke = (\<lambda>t j c w. (Inr JNull, w)), invoke_for_model = (\<lambda>t j c ms w. (Inr JNull, w)),
       review = (\<lambda>p t j out c w. (Allow, w))\<rparr>,
     run_guard = (\<lambda>s i c j w. (Inr (JStr ''allow''), w)), llm_chat = (\<lambda>m ms w. (Inr ''allow'', w)),
     describe = t_name, to_pretty = (\<lambda>j. []), from_json_str = (\<lambda>s. None), ge_jsonb = plain_jsonb\<rparr>"

definition w_ctx :: tool_context where
  "w_ctx = reader_ctx\<lparr>x_capabilities := None, x_gate := True, x_workspace_id := Some ''w''\<rparr>"

definition w_args :: json where
  "w_args = JObj [(''key'', JStr ''a'')]"

lemma w_refused:
  "label_violation w_gate (resolve_object w_args w_ctx (gw_labels w_world)) = Some ''the object carries a blocked label `secret`''"
proof -
  have "trim_end_by (\<lambda>c. c = CHR ''/'') (trim ''a'') = ''a''" by (simp add: run)
  then show ?thesis
    by (simp add: label_violation_def w_gate_def resolve_object_def w_args_def w_ctx_def w_world_def get_str_def
        or_else_def unwrap_or_def violation_def list_for_def w_labels_def oldest_first_def)
qed

theorem guarded_call_waits_witness:
  "dispatch_inner \<lparr>invoke = (\<lambda>t j c w. (Inr JNull, w)), invoke_for_model = (\<lambda>t j c ms w. (Inr JNull, w)),
       review = guard_review w_env w_gate\<rparr>
     (pg_registry w_gate) (uchars ''wipe'') w_args w_ctx None w_world =
   (Inl (Denied ''the object carries a blocked label `secret`''), w_world)"
proof -
  have "x_gate w_ctx" "get_tool (pg_registry w_gate) (uchars ''wipe'') = Some wiper" "covered w_ctx wiper"
    by (simp_all add: w_ctx_def w_gate_def get_tool_def named_def wiper_def covered_def)
  from guarded_call_waits[OF this, where pg = w_gate and args = w_args and w = w_world and G = w_env and ms = None] show ?thesis
    unfolding w_refused by (simp add: guarded_by_def)
qed

text \<open>A ruling to ask about an output records an approval to wait for, and releases the output.\<close>

lemma output_ask_released:
  assumes "review E = guard_review G pg" "x_gate ctx" "\<not> x_dry_run ctx"
    and "invoke E t args (ctx\<lparr>x_registry := Some r\<rparr>) w = (Inr out, w1)"
    and "ruling G pg OutputPhase t JNull (Some out) ctx w1 = (MustAsk why, w2)"
    and "defer_for_approval (ge_jsonb G) (gw_now w2) (t_name t) JNull ctx why (gw_approvals w2) = (Defer held, q)"
  shows "run_gated E r t args ctx None w = (Inr out, w2\<lparr>gw_approvals := q\<rparr>)"
  using assms by (simp add: run_gated_def guard_review_def)

end
