(* ===== verification/Collect.thy ===== *)
theory Collect
  imports Auto_Journal
begin

text \<open>
  The collect jobs of the ingest pipeline (\<open>catalerum-ingest/src/collect.rs\<close>, the paging of
  \<open>lib.rs\<close>): a poll drains a mailbox or a calendar from the cursor on record, runs the automation
  once for every new item, keeps a ledger of what committed and moves the cursor only over what
  did. The ledger is the connection's \<open>sync_token\<close>; an item's run is \<open>execute_for_job\<close> over the
  run journal. The providers, the tables of mail and events and the archive are functions on the
  world outside, which is taken not to write the sync token meanwhile; a token that is the text of
  a ledger is kept as the ledger.
  Instants are nanoseconds.
\<close>

section \<open>Errors\<close>

text \<open>An error of another crate is its text. A panic unwinds the worker's task.\<close>

datatype ingest_error =
    ProviderError string | StoreError store_error | VectorError string | IGraphError string
  | EmbedError string | PayloadError string | UnknownKind string | InvalidJob string
  | Forbidden string | IngestPanic

section \<open>Paging\<close>

definition MAX_SYNC_PAGES :: nat where "MAX_SYNC_PAGES = 1000"

definition next_sync_page :: "bool \<Rightarrow> string option \<Rightarrow> string \<Rightarrow> nat \<Rightarrow> nat \<Rightarrow> string option" where
  "next_sync_page has_more used_cursor next_cursor pages_done max_pages =
     (if \<not> has_more \<or> pages_done \<ge> max_pages then None
      else if used_cursor = Some next_cursor then None
      else Some next_cursor)"

record 'i sync_batch =
  sb_upserts :: "'i list"
  sb_deletions :: "string list"
  sb_next_cursor :: string
  sb_has_more :: bool

section \<open>The ledger\<close>

record source_state =
  ss_cursor :: "string option"
  ss_committed :: "string set"
  ss_initialized :: bool

definition fresh_source :: source_state where
  "fresh_source = \<lparr>ss_cursor = None, ss_committed = {}, ss_initialized = False\<rparr>"

type_synonym ledger = "string \<Rightarrow> source_state option"

text \<open>A sync token is the text of a ledger, or some other text, which decodes to an empty ledger.\<close>

datatype sync_token = LedgerToken ledger | ForeignToken string

definition ledger_decode :: "sync_token option \<Rightarrow> ledger" where
  "ledger_decode cursor = (case cursor of Some (LedgerToken l) \<Rightarrow> l | _ \<Rightarrow> (\<lambda>_. None))"

definition source_of :: "ledger \<Rightarrow> string \<Rightarrow> source_state" where
  "source_of l ext = (case l ext of Some s \<Rightarrow> s | None \<Rightarrow> fresh_source)"

section \<open>The item predicates\<close>

definition FIRST_POLL_CAP :: nat where "FIRST_POLL_CAP = 200"
definition STEADY_POLL_CAP :: nat where "STEADY_POLL_CAP = 1000"

definition minute_ns :: int where "minute_ns = 60 * 10 ^ 9"

text \<open>\<open>as_i64\<close>, and multiplication checked for overflow.\<close>

fun as_i64 :: "json \<Rightarrow> int option" where
  "as_i64 (JNum (PosInt n)) = (if int n < 2 ^ 63 then Some (int n) else None)"
| "as_i64 (JNum (NegInt k)) = Some k"
| "as_i64 _ = None"

definition checked_mul :: "int \<Rightarrow> int \<Rightarrow> int option" where
  "checked_mul a b = (if - (2 ^ 63) \<le> a * b \<and> a * b < 2 ^ 63 then Some (a * b) else None)"

definition parse_window_minutes :: "json option \<Rightarrow> int option" where
  "parse_window_minutes window =
     (let minutes =
        (case window of
           None \<Rightarrow> None
         | Some (JNum n) \<Rightarrow> Option.bind (as_i64 (JNum n)) (\<lambda>d. checked_mul d (24 * 60))
         | Some (JObj m) \<Rightarrow>
             (case Option.bind (map_of m ''days'') as_i64 of
                Some d \<Rightarrow> checked_mul d (24 * 60)
              | None \<Rightarrow>
                  (case Option.bind (map_of m ''hours'') as_i64 of
                     Some h \<Rightarrow> checked_mul h 60
                   | None \<Rightarrow> Option.bind (map_of m ''minutes'') as_i64))
         | Some _ \<Rightarrow> None)
      in Option.bind minutes (\<lambda>k. if k > 0 then Some k else None))"

text \<open>The earliest instant of chrono. An instant before it, or a span of minutes out of range,
  panics.\<close>

definition MIN_UTC :: int where "MIN_UTC = - 8334601228800 * 10 ^ 9"

definition instant_before :: "int \<Rightarrow> int \<Rightarrow> ingest_error + int" where
  "instant_before now minutes =
     (if now - minutes * minute_ns < MIN_UTC then Inl IngestPanic else Inr (now - minutes * minute_ns))"

definition backfill_cutoff :: "json option \<Rightarrow> bool \<Rightarrow> int \<Rightarrow> ingest_error + int option" where
  "backfill_cutoff window initialized now =
     (case parse_window_minutes window of
        Some minutes \<Rightarrow> bindE (instant_before now minutes) (\<lambda>t. Inr (Some t))
      | None \<Rightarrow>
          if initialized then Inr None
          else bindE (instant_before now (24 * 60)) (\<lambda>t. Inr (Some t)))"

definition passes_cutoff :: "int option \<Rightarrow> int option \<Rightarrow> bool" where
  "passes_cutoff stamp cutoff = (case (stamp, cutoff) of (Some t, Some c) \<Rightarrow> t \<ge> c | _ \<Rightarrow> True)"

text \<open>\<open>sort_by_key\<close> by the second of the stamp, undated last, then by the uid: a stable sort.\<close>

definition key_second :: "int option \<Rightarrow> int" where
  "key_second stamp = (case stamp of Some t \<Rightarrow> t div 10 ^ 9 | None \<Rightarrow> 2 ^ 63 - 1)"

definition before_key :: "int \<times> string \<Rightarrow> int \<times> string \<Rightarrow> bool" where
  "before_key a b \<longleftrightarrow> fst a < fst b \<or> (fst a = fst b \<and> str_cmp (snd a) (snd b) = Less)"

fun insert_sorted :: "('i \<Rightarrow> int \<times> string) \<Rightarrow> 'i \<Rightarrow> 'i list \<Rightarrow> 'i list" where
  "insert_sorted k x [] = [x]"
| "insert_sorted k x (y # ys) = (if before_key (k y) (k x) then y # insert_sorted k x ys else x # y # ys)"

definition sort_items :: "('i \<Rightarrow> int \<times> string) \<Rightarrow> 'i list \<Rightarrow> 'i list" where
  "sort_items k xs = foldr (insert_sorted k) xs []"

definition ci_contains :: "string option \<Rightarrow> string option \<Rightarrow> bool" where
  "ci_contains flt candidate =
     (case flt of None \<Rightarrow> True
      | Some f \<Rightarrow> (case candidate of None \<Rightarrow> False
                  | Some c \<Rightarrow> str_contains (map to_ascii_lowercase c) (map to_ascii_lowercase f)))"

text \<open>The fields of a message and of an event that collecting reads; the others ride along.\<close>

record email =
  em_mailbox :: nat
  em_uid :: string
  em_from :: "(string option \<times> string) option"
  em_subject :: string
  em_received_at :: "int option"
  em_body_text :: "string option"
  em_raw :: "string option"
  em_rest :: json

record cal_event =
  ev_calendar :: nat
  ev_uid :: string
  ev_start :: int
  ev_summary :: string
  ev_location :: "string option"
  ev_body :: "string option"
  ev_rest :: json

definition email_filter_matches :: "json option \<Rightarrow> email \<Rightarrow> bool" where
  "email_filter_matches flt e =
     (case Option.bind flt as_object of
        None \<Rightarrow> True
      | Some obj \<Rightarrow>
          (let want = (\<lambda>key. Option.bind (map_of obj key) as_str);
               sender = map_option (\<lambda>(n, a). case n of Some n \<Rightarrow> n @ '' <'' @ a @ ''>'' | None \<Rightarrow> a) (em_from e)
           in ci_contains (want ''sender'') sender \<and>
              ci_contains (want ''subject'') (Some (em_subject e)) \<and>
              ci_contains (want ''body'') (em_body_text e)))"

section \<open>Advancing\<close>

definition advance_source :: "bool \<Rightarrow> string \<Rightarrow> bool \<Rightarrow> bool \<Rightarrow> string set \<Rightarrow> source_state \<Rightarrow> source_state" where
  "advance_source all_committed next_cursor cursor_changed incremental batch_uids st =
     (let st = st\<lparr>ss_initialized := True\<rparr> in
      if \<not> all_committed then st
      else let st = st\<lparr>ss_cursor := Some next_cursor\<rparr> in
           if incremental then st\<lparr>ss_committed := {}\<rparr>
           else if cursor_changed then st\<lparr>ss_committed := ss_committed st \<inter> batch_uids\<rparr>
           else st)"

section \<open>Polling a source\<close>

text \<open>A mailbox or calendar as the provider names it, and what a poll reaches: the operations of the
  email and of the calendar poll, each on the world \<open>'w\<close>. The stored row of a source is its id.\<close>

record remote =
  rm_external_id :: string
  rm_name :: string
  rm_read_only :: bool

record ('w, 'i) poll_ops =
  po_uid :: "'i \<Rightarrow> string"
  po_at :: "'i \<Rightarrow> int option"
  po_matches :: "json option \<Rightarrow> 'i \<Rightarrow> bool"
  po_incremental :: bool
  po_upsert :: "remote \<Rightarrow> ('w, ingest_error, nat) eff"
  po_sync :: "nat \<Rightarrow> remote \<Rightarrow> string option \<Rightarrow> ('w, ingest_error, 'i sync_batch) eff"
  po_delete :: "nat \<Rightarrow> string \<Rightarrow> ('w, ingest_error, bool) eff"
  po_stored :: "nat \<Rightarrow> ('w, ingest_error, string list) eff"
  po_run :: "remote \<Rightarrow> nat \<Rightarrow> 'i \<Rightarrow> ('w, ingest_error, bool) eff"
  po_archive :: "nat \<Rightarrow> 'i \<Rightarrow> 'w \<Rightarrow> 'w"
  po_save :: "ledger \<Rightarrow> ('w, ingest_error, unit) eff"

record collect_report =
  cr_runs_fired :: nat
  cr_committed :: nat
  cr_sources :: nat
  cr_deleted :: nat

definition no_report :: collect_report where
  "no_report = \<lparr>cr_runs_fired = 0, cr_committed = 0, cr_sources = 0, cr_deleted = 0\<rparr>"

text \<open>Every page from the cursor on: the items, the deletions, the last cursor and whether the
  provider had no more.\<close>

function drain_pages ::
  "(string option \<Rightarrow> ('w, ingest_error, 'i sync_batch) eff) \<Rightarrow> nat \<Rightarrow> string option \<Rightarrow> 'i list \<Rightarrow> string list
     \<Rightarrow> ('w, ingest_error, 'i list \<times> string list \<times> string \<times> bool) eff" where
  "drain_pages sync pages cur ups dels w =
     (case sync cur w of
        (Inl e, w') \<Rightarrow> (Inl e, w')
      | (Inr b, w') \<Rightarrow>
          (case next_sync_page (sb_has_more b) cur (sb_next_cursor b) (Suc pages) MAX_SYNC_PAGES of
             Some c \<Rightarrow> drain_pages sync (Suc pages) (Some c) (ups @ sb_upserts b) (dels @ sb_deletions b) w'
           | None \<Rightarrow>
               (Inr (ups @ sb_upserts b, dels @ sb_deletions b, sb_next_cursor b, \<not> sb_has_more b), w')))"
  by pat_completeness auto
termination
  by (relation "measure (\<lambda>(_, pages, _). MAX_SYNC_PAGES - pages)") (auto simp: next_sync_page_def split: if_splits)

declare drain_pages.simps [simp del]

definition drain_all where
  "drain_all sync cursor = drain_pages sync 0 cursor [] []"

fun reconcile_deletions ::
  "(string \<Rightarrow> ('w, ingest_error, bool) eff) \<Rightarrow> string list \<Rightarrow> source_state \<Rightarrow> nat
     \<Rightarrow> ('w, ingest_error, source_state \<times> nat) eff" where
  "reconcile_deletions del [] st n w = (Inr (st, n), w)"
| "reconcile_deletions del (u # us) st n w =
     (let st = st\<lparr>ss_committed := ss_committed st - {u}\<rparr> in
      case del u w of
        (Inl e, w') \<Rightarrow> (Inl e, w')
      | (Inr gone, w') \<Rightarrow> reconcile_deletions del us st (if gone then Suc n else n) w')"

text \<open>What a complete snapshot no longer lists is deleted.\<close>

fun delete_absent :: "(string \<Rightarrow> ('w, ingest_error, bool) eff) \<Rightarrow> string set \<Rightarrow> string list \<Rightarrow> nat \<Rightarrow> ('w, ingest_error, nat) eff" where
  "delete_absent del live [] n w = (Inr n, w)"
| "delete_absent del live (u # us) n w =
     (if u \<in> live then delete_absent del live us n w
      else case del u w of
             (Inl e, w') \<Rightarrow> (Inl e, w')
           | (Inr gone, w') \<Rightarrow> delete_absent del live us (if gone then Suc n else n) w')"

definition reconcile_snapshot :: "('w, 'i) poll_ops \<Rightarrow> nat \<Rightarrow> string set \<Rightarrow> ('w, ingest_error, nat) eff" where
  "reconcile_snapshot O' sid live =
     bindM (po_stored O' sid) (\<lambda>uids. delete_absent (po_delete O' sid) live uids 0)"

text \<open>The batch, parted into what is to run and what is only marked as seen.\<close>

fun partition_batch ::
  "('w, 'i) poll_ops \<Rightarrow> json option \<Rightarrow> int option \<Rightarrow> 'i list \<Rightarrow> string set \<Rightarrow> 'i list \<times> string set" where
  "partition_batch O' flt cutoff [] seen = ([], seen)"
| "partition_batch O' flt cutoff (x # xs) seen =
     (if po_uid O' x \<in> seen \<or> \<not> po_matches O' flt x then partition_batch O' flt cutoff xs seen
      else if \<not> passes_cutoff (po_at O' x) cutoff then partition_batch O' flt cutoff xs (insert (po_uid O' x) seen)
      else (case partition_batch O' flt cutoff xs seen of (ys, seen') \<Rightarrow> (x # ys, seen')))"

text \<open>One run per item; the ledger is saved after each.\<close>

fun run_new ::
  "('w, 'i) poll_ops \<Rightarrow> remote \<Rightarrow> nat \<Rightarrow> 'i list \<Rightarrow> ledger \<Rightarrow> source_state \<Rightarrow> bool \<Rightarrow> collect_report
     \<Rightarrow> ('w, ingest_error, ledger \<times> source_state \<times> bool \<times> collect_report) eff" where
  "run_new O' rm sid [] l st allc rep w = (Inr (l, st, allc, rep), w)"
| "run_new O' rm sid (x # xs) l st allc rep w =
     (let rep = rep\<lparr>cr_runs_fired := Suc (cr_runs_fired rep)\<rparr> in
      case po_run O' rm sid x w of
        (Inl e, w1) \<Rightarrow> (Inl e, w1)
      | (Inr committed, w1) \<Rightarrow>
          (let st = (if committed then st\<lparr>ss_committed := insert (po_uid O' x) (ss_committed st)\<rparr> else st);
               rep = (if committed then rep\<lparr>cr_committed := Suc (cr_committed rep)\<rparr> else rep);
               allc = (allc \<and> committed);
               w2 = (if committed then po_archive O' sid x w1 else w1);
               l = l(rm_external_id rm \<mapsto> st)
           in case po_save O' l w2 of
                (Inl e, w3) \<Rightarrow> (Inl e, w3)
              | (Inr _, w3) \<Rightarrow> run_new O' rm sid xs l st allc rep w3))"

definition collect_source ::
  "('w, 'i) poll_ops \<Rightarrow> json option \<Rightarrow> json option \<Rightarrow> int \<Rightarrow> remote \<Rightarrow> ledger \<Rightarrow> collect_report
     \<Rightarrow> ('w, ingest_error, ledger \<times> collect_report) eff" where
  "collect_source O' flt window now rm l rep =
     bindM (po_upsert O' rm) (\<lambda>sid.
       let st = source_of l (rm_external_id rm) in
       bindM (drain_all (po_sync O' sid rm) (ss_cursor st)) (\<lambda>(batch, deletions, next_cursor, drained_fully).
       bindM (reconcile_deletions (po_delete O' sid) deletions st (cr_deleted rep)) (\<lambda>(st, deleted).
       bindM (\<lambda>w. (backfill_cutoff window (ss_initialized st) now, w)) (\<lambda>cutoff.
         let cap = (if ss_initialized st then STEADY_POLL_CAP else FIRST_POLL_CAP);
             cursor_changed = (ss_cursor st \<noteq> Some next_cursor);
             batch_uids = po_uid O' ` set batch
         in
       bindM (if \<not> po_incremental O' \<and> drained_fully \<and> cursor_changed \<and> batch_uids \<noteq> {}
              then reconcile_snapshot O' sid batch_uids else ret 0) (\<lambda>gone.
         let (new_items, seen) = partition_batch O' flt cutoff batch (ss_committed st);
             new_items = sort_items (\<lambda>x. (key_second (po_at O' x), po_uid O' x)) new_items;
             st = st\<lparr>ss_committed := seen\<rparr>;
             rep = rep\<lparr>cr_deleted := deleted + gone\<rparr>
         in
       bindM (run_new O' rm sid (take cap new_items) l st (drained_fully \<and> length new_items \<le> cap) rep)
         (\<lambda>(l, st, all_committed, rep).
         let st = advance_source all_committed next_cursor cursor_changed (po_incremental O') batch_uids st;
             l = l(rm_external_id rm \<mapsto> st)
         in bindM (po_save O' l) (\<lambda>_. ret (l, rep))))))))"

fun collect_sources ::
  "('w, 'i) poll_ops \<Rightarrow> json option \<Rightarrow> json option \<Rightarrow> int \<Rightarrow> remote list \<Rightarrow> ledger \<Rightarrow> collect_report
     \<Rightarrow> ('w, ingest_error, collect_report) eff" where
  "collect_sources O' flt window now [] l rep = ret rep"
| "collect_sources O' flt window now (rm # rms) l rep =
     bindM (collect_source O' flt window now rm l rep) (\<lambda>(l, rep).
       collect_sources O' flt window now rms l rep)"

definition wanted :: "string option \<Rightarrow> remote list \<Rightarrow> remote list" where
  "wanted choice rms =
     (case choice of None \<Rightarrow> rms
      | Some want \<Rightarrow> filter (\<lambda>m. eq_ignore_ascii_case (rm_external_id m) want
          \<or> eq_ignore_ascii_case (rm_name m) want) rms)"

section \<open>The worker's world\<close>

text \<open>The connections, the run journal with what the actions act on, and the stored mail and events
  beside it.\<close>

record conn =
  cn_id :: nat
  cn_workspace :: nat
  cn_config :: json
  cn_sync_token :: "sync_token option"

record 'x collect_world =
  cw_conns :: "conn list"
  cw_inner :: "'x world"

definition on_inner :: "('e \<Rightarrow> ingest_error) \<Rightarrow> ('x world, 'e, 'a) eff \<Rightarrow> ('x collect_world, ingest_error, 'a) eff" where
  "on_inner h m w = (case m (cw_inner w) of (r, i) \<Rightarrow> (with_err h r, w\<lparr>cw_inner := i\<rparr>))"

definition on_outside :: "('e \<Rightarrow> ingest_error) \<Rightarrow> ('x, 'e, 'a) eff \<Rightarrow> ('x collect_world, ingest_error, 'a) eff" where
  "on_outside h m = on_inner h (beside m)"

definition on_tables :: "'a repo \<Rightarrow> ('x collect_world, store_error, 'a) eff" where
  "on_tables m w = (case m (tables (cw_inner w)) of (r, j) \<Rightarrow> (r, w\<lparr>cw_inner := (cw_inner w)\<lparr>tables := j\<rparr>\<rparr>))"

definition the_conn :: "nat \<Rightarrow> nat \<Rightarrow> conn \<Rightarrow> bool" where
  "the_conn ws i c \<longleftrightarrow> cn_id c = i \<and> cn_workspace c = ws"

definition get_conn :: "nat \<Rightarrow> nat \<Rightarrow> ('x collect_world, ingest_error, conn) eff" where
  "get_conn ws i w =
     ((case List.find (the_conn ws i) (cw_conns w) of Some c \<Rightarrow> Inr c | None \<Rightarrow> Inl (StoreError StoreNotFound)), w)"

definition update_cursor :: "nat \<Rightarrow> nat \<Rightarrow> sync_token option \<Rightarrow> ('x collect_world, ingest_error, unit) eff" where
  "update_cursor ws i cursor w =
     (if list_ex (the_conn ws i) (cw_conns w)
      then (Inr (), w\<lparr>cw_conns := map (\<lambda>c. if the_conn ws i c then c\<lparr>cn_sync_token := cursor\<rparr> else c) (cw_conns w)\<rparr>)
      else (Inl (StoreError StoreNotFound), w))"

section \<open>What a collect job reaches\<close>

record ('x, 'i) provider =
  pv_incremental :: bool
  pv_list :: "('x, string, remote list) eff"
  pv_sync :: "nat \<Rightarrow> remote \<Rightarrow> string option \<Rightarrow> ('x, string, 'i sync_batch) eff"

record ('x, 'i) collect_env =
  cx_runners :: "'x runners"
  cx_uuid :: "string \<Rightarrow> nat option"
  cx_show_exec :: "exec_error \<Rightarrow> string"
  cx_automation :: "nat \<Rightarrow> nat \<Rightarrow> ('x, store_error, automation) eff"
  cx_provider :: "conn \<Rightarrow> ('x, string, ('x, 'i) provider) eff"
  cx_upsert :: "nat \<Rightarrow> nat \<Rightarrow> remote \<Rightarrow> ('x, store_error, nat) eff"
  cx_encode :: "'i \<Rightarrow> json"
  cx_now :: "'x \<Rightarrow> int"

record stored_email =
  sm_id :: nat
  sm_raw_ref :: "string option"
  sm_urls :: "string list"

text \<open>The tables of mail and events, the archive of raw messages, and the jobs that purge what was
  derived of a deleted row; an enqueue that fails is logged.\<close>

record 'x mail_store =
  ms_get_by_uid :: "nat \<Rightarrow> nat \<Rightarrow> string \<Rightarrow> ('x, store_error, stored_email) eff"
  ms_delete_by_uid :: "nat \<Rightarrow> nat \<Rightarrow> string \<Rightarrow> ('x, store_error, nat option) eff"
  ms_list_uids :: "nat \<Rightarrow> nat \<Rightarrow> ('x, store_error, string list) eff"
  ms_enqueue_ingest :: "nat \<Rightarrow> nat \<Rightarrow> 'x \<Rightarrow> 'x"
  ms_cleanup :: "nat \<Rightarrow> string list \<Rightarrow> 'x \<Rightarrow> 'x"
  ms_archive :: "nat \<Rightarrow> nat \<Rightarrow> string \<Rightarrow> string option \<Rightarrow> 'x \<Rightarrow> 'x"

record 'x event_store =
  es_get_by_uid :: "nat \<Rightarrow> nat \<Rightarrow> string \<Rightarrow> ('x, store_error, nat) eff"
  es_delete_by_uid :: "nat \<Rightarrow> nat \<Rightarrow> string \<Rightarrow> ('x, store_error, bool) eff"
  es_list_uids :: "nat \<Rightarrow> nat \<Rightarrow> ('x, store_error, string list) eff"
  es_enqueue_project :: "nat \<Rightarrow> nat \<Rightarrow> 'x \<Rightarrow> 'x"
  es_excluded :: "nat \<Rightarrow> nat \<Rightarrow> ('x, store_error, string list) eff"

definition OBJECT_PREFIX :: string where "OBJECT_PREFIX = ''/storage/objects/''"

definition archived_object_keys :: "stored_email \<Rightarrow> string list" where
  "archived_object_keys e =
     (case map_option trim (sm_raw_ref e) of Some r \<Rightarrow> if r \<noteq> [] then [r] else [] | None \<Rightarrow> []) @
     filter (\<lambda>k. k \<noteq> [])
       (map (drop (length OBJECT_PREFIX)) (filter (starts_with OBJECT_PREFIX) (sm_urls e)))"

definition delete_stored_email :: "'x mail_store \<Rightarrow> nat \<Rightarrow> nat \<Rightarrow> string \<Rightarrow> ('x, store_error, bool) eff" where
  "delete_stored_email M ws mailbox uid x =
     (case ms_get_by_uid M ws mailbox uid x of
        (Inl StoreNotFound, x1) \<Rightarrow> (Inr False, x1)
      | (Inl e, x1) \<Rightarrow> (Inl e, x1)
      | (Inr existing, x1) \<Rightarrow>
          (case ms_delete_by_uid M ws mailbox uid x1 of
             (Inl e, x2) \<Rightarrow> (Inl e, x2)
           | (Inr None, x2) \<Rightarrow> (Inr False, x2)
           | (Inr (Some i), x2) \<Rightarrow>
               (let keys = archived_object_keys existing;
                    x3 = ms_enqueue_ingest M ws i x2
                in (Inr True, if keys \<noteq> [] then ms_cleanup M ws keys x3 else x3))))"

definition delete_stored_event :: "'x event_store \<Rightarrow> nat \<Rightarrow> nat \<Rightarrow> string \<Rightarrow> ('x, store_error, bool) eff" where
  "delete_stored_event M ws calendar uid x =
     (case es_get_by_uid M ws calendar uid x of
        (Inl StoreNotFound, x1) \<Rightarrow> (Inr False, x1)
      | (Inl e, x1) \<Rightarrow> (Inl e, x1)
      | (Inr i, x1) \<Rightarrow>
          (case es_delete_by_uid M ws calendar uid x1 of
             (Inl e, x2) \<Rightarrow> (Inl e, x2)
           | (Inr False, x2) \<Rightarrow> (Inr False, x2)
           | (Inr True, x2) \<Rightarrow> (Inr True, es_enqueue_project M ws i x2)))"

section \<open>One item's run\<close>

definition committed_for ::
  "codec \<Rightarrow> nat \<Rightarrow> automation \<Rightarrow> run \<Rightarrow> string option \<Rightarrow> ('x collect_world, store_error, bool) eff" where
  "committed_for K ws a r commit =
     (case commit of
        None \<Rightarrow> ret True
      | Some n \<Rightarrow>
          if graph_from_spec K (aut_spec a) = None then ret (run_status r = RunSucceeded)
          else bindM (on_tables (repo_list_steps ws (run_id r))) (\<lambda>steps.
            ret (case List.find (\<lambda>s. Option.bind (obj_get (step_action s) ''node'') as_str = Some n) steps of
                   Some s \<Rightarrow> step_status s \<in> {Succeeded, Skipped}
                 | None \<Rightarrow> False)))"

definition store_err :: "('w, store_error, 'a) eff \<Rightarrow> ('w, ingest_error, 'a) eff" where
  "store_err m w = (case m w of (r, w') \<Rightarrow> (with_err StoreError r, w'))"

definition run_item ::
  "('x, 'i) collect_env \<Rightarrow> ('c, 'z) cron_lib \<Rightarrow> codec \<Rightarrow> nat \<Rightarrow> automation \<Rightarrow> json \<Rightarrow> string option
     \<Rightarrow> ('x collect_world, ingest_error, bool) eff" where
  "run_item E L K ws a trig commit =
     bindM (on_inner (\<lambda>e. ProviderError (cx_show_exec E e))
              (execute_for_job (pg_ports (cx_runners E)) L K ws a (Some trig) None)) (\<lambda>r.
     store_err (committed_for K ws a r commit))"

section \<open>Authority\<close>

definition parse_connection :: "('x, 'i) collect_env \<Rightarrow> string \<Rightarrow> ingest_error + nat" where
  "parse_connection E s =
     (case cx_uuid E (trim s) of
        Some i \<Rightarrow> Inr i
      | None \<Rightarrow> Inl (InvalidJob (''collect trigger has an invalid connection id `'' @ s @ ''`'')))"

definition load_enabled ::
  "('x, 'i) collect_env \<Rightarrow> nat \<Rightarrow> nat \<Rightarrow> ('x collect_world, ingest_error, automation option) eff" where
  "load_enabled E ws i w =
     (case on_outside StoreError (cx_automation E ws i) w of
        (Inr a, w') \<Rightarrow> (Inr (if enabled a then Some a else None), w')
      | (Inl (StoreError StoreNotFound), w') \<Rightarrow> (Inr None, w')
      | (Inl e, w') \<Rightarrow> (Inl e, w'))"

definition authorize_collect ::
  "nat \<Rightarrow> automation \<Rightarrow> string \<Rightarrow> string \<Rightarrow> ('x collect_world, ingest_error, unit) eff" where
  "authorize_collect ws a domain connection w =
     (case aut_grant a of
        None \<Rightarrow> (Inr (), w)
      | Some gid \<Rightarrow>
          (case on_tables (repo_get_grant ws gid) w of
             (Inl StoreNotFound, w') \<Rightarrow>
               (Inl (Forbidden (''collect denied: automation `'' @ aut_name a @ ''` references grant ''
                  @ show_nat gid @ '', which no longer exists'')), w')
           | (Inl e, w') \<Rightarrow> (Inl (StoreError e), w')
           | (Inr g, w') \<Rightarrow>
               if allows g (capability_new Read (resource_new domain (trim connection))) then (Inr (), w')
               else (Inl (Forbidden (''collect denied: automation `'' @ aut_name a @ ''`'s grant `''
                  @ grant_name g @ ''` does not cover '' @ domain @ '':read@'' @ trim connection
                  @ '' (the connection its collect trigger pulls from)'')), w')))"

section \<open>The email poll\<close>

definition PROVIDER_KEY :: string where "PROVIDER_KEY = ''provider''"

definition MAILDIR_ROOT_KEYS :: "string list" where
  "MAILDIR_ROOT_KEYS = [''root'', ''path'', ''dir'', ''maildir'']"

definition is_unconfigured :: "json \<Rightarrow> bool" where
  "is_unconfigured config \<longleftrightarrow>
     obj_get config PROVIDER_KEY = None \<and> \<not> list_ex (\<lambda>k. obj_get config k \<noteq> None) MAILDIR_ROOT_KEYS"

definition JOB_KIND_COLLECT_EMAIL :: string where "JOB_KIND_COLLECT_EMAIL = ''collect_email''"
definition JOB_KIND_COLLECT_CALENDAR :: string where "JOB_KIND_COLLECT_CALENDAR = ''collect_calendar''"

definition email_trigger :: "('x, email) collect_env \<Rightarrow> string \<Rightarrow> remote \<Rightarrow> email \<Rightarrow> json" where
  "email_trigger E connection rm e =
     JObj [(''connection'', JStr connection), (''item'', cx_encode E (e\<lparr>em_raw := None\<rparr>)),
           (''kind'', JStr JOB_KIND_COLLECT_EMAIL), (''mailbox'', JStr (rm_external_id rm))]"

definition save_ledger :: "nat \<Rightarrow> nat \<Rightarrow> ledger \<Rightarrow> ('x collect_world, ingest_error, unit) eff" where
  "save_ledger ws cid l = update_cursor ws cid (Some (LedgerToken l))"

definition email_ops ::
  "('x, email) collect_env \<Rightarrow> ('c, 'z) cron_lib \<Rightarrow> codec \<Rightarrow> 'x mail_store \<Rightarrow> nat \<Rightarrow> nat \<Rightarrow> automation \<Rightarrow> string
     \<Rightarrow> string option \<Rightarrow> ('x, email) provider \<Rightarrow> ('x collect_world, email) poll_ops" where
  "email_ops E L K M ws cid a connection commit P =
     \<lparr>po_uid = em_uid, po_at = em_received_at, po_matches = email_filter_matches,
      po_incremental = pv_incremental P,
      po_upsert = (\<lambda>rm. on_outside StoreError (cx_upsert E ws cid rm)),
      po_sync = (\<lambda>sid rm cursor. on_outside ProviderError (pv_sync P sid rm cursor)),
      po_delete = (\<lambda>sid uid. on_outside StoreError (delete_stored_email M ws sid uid)),
      po_stored = (\<lambda>sid. on_outside StoreError (ms_list_uids M ws sid)),
      po_run = (\<lambda>rm sid e. run_item E L K ws a (email_trigger E connection rm (e\<lparr>em_mailbox := sid\<rparr>)) commit),
      po_archive = (\<lambda>sid e w. w\<lparr>cw_inner := (cw_inner w)\<lparr>outside :=
        ms_archive M ws sid (em_uid e) (em_raw e) (outside (cw_inner w))\<rparr>\<rparr>),
      po_save = save_ledger ws cid\<rparr>"

definition run_collect_email_with ::
  "('x, email) collect_env \<Rightarrow> ('c, 'z) cron_lib \<Rightarrow> codec \<Rightarrow> 'x mail_store \<Rightarrow> nat \<Rightarrow> nat \<Rightarrow> json
     \<Rightarrow> ('x collect_world, ingest_error, collect_report) eff" where
  "run_collect_email_with E L K M ws aid trig =
     (case dec_trigger K trig of
        Inl e \<Rightarrow> fail (InvalidJob (''collect_email bad trigger: '' @ e))
      | Inr (CollectEmail connection mailbox flt commit window _) \<Rightarrow>
          (case parse_connection E connection of
             Inl e \<Rightarrow> fail e
           | Inr cid \<Rightarrow>
               bindM (load_enabled E ws aid) (\<lambda>automation.
               case automation of
                 None \<Rightarrow> ret no_report
               | Some a \<Rightarrow>
                   bindM (authorize_collect ws a ''email'' connection) (\<lambda>_.
                   bindM (get_conn ws cid) (\<lambda>c.
                   if is_unconfigured (cn_config c) then ret no_report
                   else
                   bindM (on_outside ProviderError (cx_provider E c)) (\<lambda>P w.
                     let O' = email_ops E L K M ws cid a connection commit P;
                         now = cx_now E (outside (cw_inner w))
                     in
                     bindM (on_outside ProviderError (pv_list P)) (\<lambda>all.
                       let mailboxes = wanted mailbox all in
                       collect_sources O' flt window now mailboxes (ledger_decode (cn_sync_token c))
                         (no_report\<lparr>cr_sources := length mailboxes\<rparr>)) w)))))
      | Inr _ \<Rightarrow> fail (InvalidJob ''collect_email job carries a non-CollectEmail trigger''))"

section \<open>The calendar poll\<close>

definition calendar_trigger :: "('x, cal_event) collect_env \<Rightarrow> string \<Rightarrow> remote \<Rightarrow> cal_event \<Rightarrow> json" where
  "calendar_trigger E connection rm e =
     JObj [(''calendar'', JStr (rm_external_id rm)), (''connection'', JStr connection),
           (''item'', cx_encode E e), (''kind'', JStr JOB_KIND_COLLECT_CALENDAR)]"

definition calendar_ops ::
  "('x, cal_event) collect_env \<Rightarrow> ('c, 'z) cron_lib \<Rightarrow> codec \<Rightarrow> 'x event_store \<Rightarrow> nat \<Rightarrow> nat \<Rightarrow> automation \<Rightarrow> string
     \<Rightarrow> string option \<Rightarrow> ('x, cal_event) provider \<Rightarrow> ('x collect_world, cal_event) poll_ops" where
  "calendar_ops E L K M ws cid a connection commit P =
     \<lparr>po_uid = ev_uid, po_at = (\<lambda>e. Some (ev_start e)),
      po_matches = (\<lambda>flt e. calendar_event_filter_matches flt (ev_summary e) (ev_location e) (ev_body e)),
      po_incremental = pv_incremental P,
      po_upsert = (\<lambda>rm. on_outside StoreError (cx_upsert E ws cid rm)),
      po_sync = (\<lambda>sid rm cursor. on_outside ProviderError (pv_sync P sid rm cursor)),
      po_delete = (\<lambda>sid uid. on_outside StoreError (delete_stored_event M ws sid uid)),
      po_stored = (\<lambda>sid. on_outside StoreError (es_list_uids M ws sid)),
      po_run = (\<lambda>rm sid e. run_item E L K ws a (calendar_trigger E connection rm (e\<lparr>ev_calendar := sid\<rparr>)) commit),
      po_archive = (\<lambda>sid e w. w),
      po_save = save_ledger ws cid\<rparr>"

definition run_collect_calendar_with ::
  "('x, cal_event) collect_env \<Rightarrow> ('c, 'z) cron_lib \<Rightarrow> codec \<Rightarrow> 'x event_store \<Rightarrow> nat \<Rightarrow> nat \<Rightarrow> json
     \<Rightarrow> ('x collect_world, ingest_error, collect_report) eff" where
  "run_collect_calendar_with E L K M ws aid trig =
     (case dec_trigger K trig of
        Inl e \<Rightarrow> fail (InvalidJob (''collect_calendar bad trigger: '' @ e))
      | Inr (CollectCalendar connection calendar flt commit window _) \<Rightarrow>
          (case parse_connection E connection of
             Inl e \<Rightarrow> fail e
           | Inr cid \<Rightarrow>
               bindM (load_enabled E ws aid) (\<lambda>automation.
               case automation of
                 None \<Rightarrow> ret no_report
               | Some a \<Rightarrow>
                   bindM (authorize_collect ws a ''calendar'' connection) (\<lambda>_.
                   bindM (get_conn ws cid) (\<lambda>c.
                   bindM (on_outside ProviderError (cx_provider E c)) (\<lambda>P w.
                     let O' = calendar_ops E L K M ws cid a connection commit P;
                         now = cx_now E (outside (cw_inner w))
                     in
                     bindM (on_outside StoreError (es_excluded M ws cid)) (\<lambda>excluded.
                     bindM (on_outside ProviderError (pv_list P)) (\<lambda>all.
                       let calendars = wanted calendar (filter (\<lambda>m. rm_external_id m \<notin> set excluded) all) in
                       collect_sources O' flt window now calendars (ledger_decode (cn_sync_token c))
                         (no_report\<lparr>cr_sources := length calendars\<rparr>))) w)))))
      | Inr _ \<Rightarrow> fail (InvalidJob ''collect_calendar job carries a non-CollectCalendar trigger''))"

end
