(* ===== verification/Collect_Safe.thy ===== *)
theory Collect_Safe
  imports Collect "HOL-Library.Multiset" "HOL-Library.Sublist"
begin

text \<open>
  What collecting guarantees on an incremental source: nothing is lost and nothing that committed
  runs again. A source is an append-only log, \<open>feed\<close>, read from the position \<open>pos\<close> of a cursor. The
  polls are watched: pages drained, runs and their verdicts, and ledger writes that failed, latest
  first. The interface \<open>ledger_poll\<close> is what the proof needs of a poll's operations; the email and
  the calendar poll provide it.
\<close>

section \<open>Watched polls\<close>

datatype collect_event =
    Began int
  | Page string string bool
  | Ran string string "bool option"
  | SaveFailed

definition on_fst :: "('w, 'e, 'a) eff \<Rightarrow> ('w \<times> 'l, 'e, 'a) eff" where
  "on_fst m s = (case m (fst s) of (r, w') \<Rightarrow> (r, (w', snd s)))"

definition noting :: "('e + 'a \<Rightarrow> 'l list) \<Rightarrow> ('w, 'e, 'a) eff \<Rightarrow> ('w \<times> 'l list, 'e, 'a) eff" where
  "noting f m s = (case m (fst s) of (r, w') \<Rightarrow> (r, (w', f r @ snd s)))"

definition watch :: "('w, 'i) poll_ops \<Rightarrow> ('w \<times> collect_event list, 'i) poll_ops" where
  "watch O' =
     \<lparr>po_uid = po_uid O', po_at = po_at O', po_matches = po_matches O', po_incremental = po_incremental O',
      po_upsert = (\<lambda>rm. on_fst (po_upsert O' rm)),
      po_sync = (\<lambda>sid rm c. noting (\<lambda>r. case r of Inl e \<Rightarrow> []
          | Inr b \<Rightarrow> [Page (rm_external_id rm) (sb_next_cursor b) (sb_has_more b)]) (po_sync O' sid rm c)),
      po_delete = (\<lambda>sid u. on_fst (po_delete O' sid u)),
      po_stored = (\<lambda>sid. on_fst (po_stored O' sid)),
      po_run = (\<lambda>rm sid x. noting (\<lambda>r. [Ran (rm_external_id rm) (po_uid O' x)
          (case r of Inl e \<Rightarrow> None | Inr v \<Rightarrow> Some v)]) (po_run O' rm sid x)),
      po_archive = (\<lambda>sid x s. (po_archive O' sid x (fst s), snd s)),
      po_save = (\<lambda>l. noting (\<lambda>r. case r of Inl e \<Rightarrow> [SaveFailed] | Inr _ \<Rightarrow> []) (po_save O' l))\<rparr>"

text \<open>Watching changes nothing.\<close>

definition projects :: "('w \<times> 'l, 'e, 'a) eff \<Rightarrow> ('w, 'e, 'a) eff \<Rightarrow> bool" where
  "projects m' m \<longleftrightarrow> (\<forall>w lg r w'. m w = (r, w') \<longrightarrow> (\<exists>lg'. m' (w, lg) = (r, (w', lg'))))"

lemma projectsE:
  assumes "projects m' m" "m w = (r, w')"
  obtains lg' where "m' (w, lg) = (r, (w', lg'))"
  using assms unfolding projects_def by blast

lemma projects_basic [simp]:
  "projects (ret x) (ret x)" "projects (on_fst m) m" "projects (noting f m) m"
  "projects (\<lambda>s. (r, s)) (\<lambda>w. (r, w))"
  by (simp_all add: projects_def on_fst_def noting_def)

lemma projects_bind:
  assumes "projects m' m" "\<And>x. projects (f' x) (f x)"
  shows "projects (bindM m' f') (bindM m f)"
  unfolding projects_def
proof (intro allI impI)
  fix w lg r w'
  assume res: "bindM m f w = (r, w')"
  obtain r1 w1 where m: "m w = (r1, w1)" by fastforce
  obtain lg1 where m': "m' (w, lg) = (r1, (w1, lg1))" by (rule projectsE[OF assms(1) m])
  show "\<exists>lg'. bindM m' f' (w, lg) = (r, (w', lg'))"
  proof (cases r1)
    case (Inl e)
    then show ?thesis using m m' res by simp
  next
    case (Inr x)
    then have f: "f x w1 = (r, w')" using m res by simp
    obtain lg2 where "f' x (w1, lg1) = (r, (w', lg2))" by (rule projectsE[OF assms(2) f])
    then show ?thesis using m' Inr by simp
  qed
qed

lemma watch_fields [simp]:
  "po_uid (watch O') = po_uid O'" "po_at (watch O') = po_at O'" "po_matches (watch O') = po_matches O'"
  "po_incremental (watch O') = po_incremental O'"
  by (simp_all add: watch_def)

lemma watch_projects [simp]:
  "projects (po_upsert (watch O') rm) (po_upsert O' rm)" "projects (po_sync (watch O') sid rm c) (po_sync O' sid rm c)"
  "projects (po_delete (watch O') sid u) (po_delete O' sid u)" "projects (po_stored (watch O') sid) (po_stored O' sid)"
  "projects (po_run (watch O') rm sid x) (po_run O' rm sid x)" "projects (po_save (watch O') l) (po_save O' l)"
  by (simp_all add: watch_def)

lemma drain_projects:
  assumes "\<And>c. projects (sync' c) (sync c)"
  shows "projects (drain_pages sync' k c ups dels) (drain_pages sync k c ups dels)"
proof -
  have "\<exists>lg'. drain_pages sync' k c ups dels (w, lg) = (fst (drain_pages sync k c ups dels w), (snd (drain_pages sync k c ups dels w), lg'))"
    for w lg
    using assms
  proof (induction sync k c ups dels w arbitrary: lg rule: drain_pages.induct)
    case (1 sync k c ups dels w)
    obtain r1 w1 where m: "sync c w = (r1, w1)" by fastforce
    obtain lg1 where m': "sync' c (w, lg) = (r1, (w1, lg1))" by (rule projectsE[OF 1(2) m])
    show ?case
    proof (cases r1)
      case (Inl e)
      then show ?thesis using m m' by (simp add: drain_pages.simps[of _ k])
    next
      case (Inr b)
      show ?thesis
      proof (cases "next_sync_page (sb_has_more b) c (sb_next_cursor b) (Suc k) MAX_SYNC_PAGES")
        case None
        then show ?thesis using m m' Inr by (simp add: drain_pages.simps[of _ k])
      next
        case (Some d)
        show ?thesis using 1(1)[OF m[symmetric] Inr Some 1(2), of lg1] m m' Inr Some
          by (simp add: drain_pages.simps[of _ k])
      qed
    qed
  qed
  then show ?thesis unfolding projects_def by (metis fst_conv snd_conv)
qed

text \<open>The loops as binds.\<close>

lemma deletions_bind:
  "reconcile_deletions del (u # us) st n =
     bindM (del u) (\<lambda>gone. reconcile_deletions del us (st\<lparr>ss_committed := ss_committed st - {u}\<rparr>) (if gone then Suc n else n))"
  by (rule ext) (auto simp: bindM_def Let_def split: prod.split sum.split)

lemma absent_bind:
  "delete_absent del live (u # us) n =
     (if u \<in> live then delete_absent del live us n
      else bindM (del u) (\<lambda>gone. delete_absent del live us (if gone then Suc n else n)))"
  by (rule ext) (auto simp: bindM_def split: prod.split sum.split)

definition after_run where
  "after_run O' sid x committed w = (Inr () :: ingest_error + unit, if committed then po_archive O' sid x w else w)"

definition with_run :: "('w, 'i) poll_ops \<Rightarrow> 'i \<Rightarrow> bool \<Rightarrow> source_state \<Rightarrow> source_state" where
  "with_run O' x committed st =
     (if committed then st\<lparr>ss_committed := insert (po_uid O' x) (ss_committed st)\<rparr> else st)"

definition with_count :: "bool \<Rightarrow> collect_report \<Rightarrow> collect_report" where
  "with_count committed rep =
     (let rep = rep\<lparr>cr_runs_fired := Suc (cr_runs_fired rep)\<rparr>
      in if committed then rep\<lparr>cr_committed := Suc (cr_committed rep)\<rparr> else rep)"

lemma run_new_bind:
  "run_new O' rm sid (x # xs) l st allc rep =
     bindM (po_run O' rm sid x) (\<lambda>committed.
     bindM (after_run O' sid x committed) (\<lambda>_.
     bindM (po_save O' (l(rm_external_id rm \<mapsto> with_run O' x committed st))) (\<lambda>_.
       run_new O' rm sid xs (l(rm_external_id rm \<mapsto> with_run O' x committed st)) (with_run O' x committed st)
         (allc \<and> committed) (with_count committed rep))))"
  by (rule ext) (simp add: bindM_def Let_def after_run_def with_run_def with_count_def split: prod.split sum.split)

lemma projects_case_prod:
  "(\<And>a b. projects (f' a b) (f a b)) \<Longrightarrow> projects (case p of (a, b) \<Rightarrow> f' a b) (case p of (a, b) \<Rightarrow> f a b)"
  by (cases p) simp

lemma loop_nil:
  "reconcile_deletions d [] st n = ret (st, n)" "delete_absent d live [] n = ret n"
  "run_new O' rm sid [] l st allc rep = ret (l, st, allc, rep)"
  by (rule ext, simp)+

lemma deletions_project:
  "(\<And>u. projects (d' u) (d u)) \<Longrightarrow> projects (reconcile_deletions d' us st n) (reconcile_deletions d us st n)"
  by (induction us arbitrary: st n) (simp_all add: loop_nil deletions_bind projects_bind del: reconcile_deletions.simps)

lemma absent_project:
  "(\<And>u. projects (d' u) (d u)) \<Longrightarrow> projects (delete_absent d' live us n) (delete_absent d live us n)"
  by (induction us arbitrary: n) (simp_all add: loop_nil absent_bind projects_bind del: delete_absent.simps)

lemma after_run_project [simp]: "projects (after_run (watch O') sid x v) (after_run O' sid x v)"
  by (simp add: projects_def after_run_def watch_def)

lemma after_run_watch [simp]:
  "after_run (watch O') sid x v (w, lg) = (Inr (), (if v then po_archive O' sid x w else w, lg))"
  by (simp add: after_run_def watch_def)

lemma with_run_watch [simp]: "with_run (watch O') x v st = with_run O' x v st"
  by (simp add: with_run_def)

lemma run_new_project: "projects (run_new (watch O') rm sid xs l st allc rep) (run_new O' rm sid xs l st allc rep)"
  by (induction xs arbitrary: l st allc rep) (simp_all add: loop_nil run_new_bind projects_bind del: run_new.simps)

lemma partition_watch [simp]: "partition_batch (watch O') flt cutoff xs seen = partition_batch O' flt cutoff xs seen"
  by (induction xs arbitrary: seen) simp_all

lemma snapshot_project [simp]: "projects (reconcile_snapshot (watch O') sid live) (reconcile_snapshot O' sid live)"
  unfolding reconcile_snapshot_def by (intro projects_bind absent_project) simp_all

lemma source_project:
  "projects (collect_source (watch O') flt window now rm l rep) (collect_source O' flt window now rm l rep)"
  unfolding collect_source_def Let_def drain_all_def watch_fields partition_watch
  by (intro projects_bind projects_case_prod drain_projects deletions_project run_new_project)
    (simp_all split: if_split)

text \<open>A watched poll is the poll.\<close>

lemma watched_poll:
  "projects (collect_sources (watch O') flt window now rms l rep) (collect_sources O' flt window now rms l rep)"
  by (induction rms arbitrary: l rep) (auto intro!: projects_bind projects_case_prod source_project)

section \<open>A log of items\<close>

text \<open>The provider reads the log from a cursor's position on, without deletions. Until a page says
  there is more, it answers everything it has: no later complete page ends before an earlier page.\<close>

definition reads_log :: "(string \<Rightarrow> nat \<Rightarrow> 'i) \<Rightarrow> (string option \<Rightarrow> nat) \<Rightarrow> (remote \<Rightarrow> string option \<Rightarrow> ('w, 'e, 'i sync_batch) eff) \<Rightarrow> bool" where
  "reads_log feed pos sync \<longleftrightarrow>
     (\<forall>rm c w b w'. sync rm c w = (Inr b, w') \<longrightarrow>
        pos c \<le> pos (Some (sb_next_cursor b)) \<and> sb_deletions b = [] \<and>
        sb_upserts b = map (feed (rm_external_id rm)) [pos c ..< pos (Some (sb_next_cursor b))])"

fun complete :: "(string option \<Rightarrow> nat) \<Rightarrow> collect_event list \<Rightarrow> bool" where
  "complete pos [] = True"
| "complete pos (e # lg) \<longleftrightarrow> complete pos lg \<and>
     (case e of Page ext c again \<Rightarrow> again \<or> (\<forall>c' b. Page ext c' b \<in> set lg \<longrightarrow> pos (Some c') \<le> pos (Some c))
      | _ \<Rightarrow> True)"

text \<open>An item is settled when the filter excludes it, when it was too old for a poll that began at
  some instant, or when a run committed it.\<close>

definition too_old :: "json option \<Rightarrow> collect_event list \<Rightarrow> int option \<Rightarrow> bool" where
  "too_old window lg stamp \<longleftrightarrow>
     (\<exists>now first cutoff. Began now \<in> set lg \<and> backfill_cutoff window first now = Inr cutoff \<and> \<not> passes_cutoff stamp cutoff)"

definition settled ::
  "('w, 'i) poll_ops \<Rightarrow> json option \<Rightarrow> json option \<Rightarrow> collect_event list \<Rightarrow> string \<Rightarrow> 'i \<Rightarrow> bool" where
  "settled O' flt window lg ext x \<longleftrightarrow>
     \<not> po_matches O' flt x \<or> too_old window lg (po_at O' x) \<or> Ran ext (po_uid O' x) (Some True) \<in> set lg"

lemma settled_more: "settled O' flt window lg ext x \<Longrightarrow> settled O' flt window (es @ lg) ext x"
  by (auto simp: settled_def too_old_def)

text \<open>The invariant of a ledger: what is behind its cursor is settled, so is what it holds as
  committed, and it knows every committed run, of which there is one per item.\<close>

definition ledger_ok ::
  "('w, 'i) poll_ops \<Rightarrow> json option \<Rightarrow> json option \<Rightarrow> (string \<Rightarrow> nat \<Rightarrow> 'i) \<Rightarrow> (string option \<Rightarrow> nat)
     \<Rightarrow> collect_event list \<Rightarrow> ledger \<Rightarrow> bool" where
  "ledger_ok O' flt window feed pos lg l \<longleftrightarrow>
     (\<forall>ext. (\<forall>i<pos (ss_cursor (source_of l ext)). settled O' flt window lg ext (feed ext i)) \<and>
        (\<forall>u\<in>ss_committed (source_of l ext). \<exists>i c b. po_uid O' (feed ext i) = u \<and>
            settled O' flt window lg ext (feed ext i) \<and> Page ext c b \<in> set lg \<and> i < pos (Some c)) \<and>
        (\<forall>u. Ran ext u (Some True) \<in> set lg \<longrightarrow> u \<in> ss_committed (source_of l ext)
            \<or> (\<exists>i<pos (ss_cursor (source_of l ext)). po_uid O' (feed ext i) = u)) \<and>
        (\<forall>u. count_list lg (Ran ext u (Some True)) \<le> 1))"

lemma ledger_okI:
  assumes "\<And>ext i. i < pos (ss_cursor (source_of l ext)) \<Longrightarrow> settled O' flt window lg ext (feed ext i)"
    and "\<And>ext u. u \<in> ss_committed (source_of l ext) \<Longrightarrow> \<exists>i c b. po_uid O' (feed ext i) = u \<and>
            settled O' flt window lg ext (feed ext i) \<and> Page ext c b \<in> set lg \<and> i < pos (Some c)"
    and "\<And>ext u. Ran ext u (Some True) \<in> set lg \<Longrightarrow> u \<in> ss_committed (source_of l ext)
            \<or> (\<exists>i<pos (ss_cursor (source_of l ext)). po_uid O' (feed ext i) = u)"
    and "\<And>ext u. count_list lg (Ran ext u (Some True)) \<le> 1"
  shows "ledger_ok O' flt window feed pos lg l"
  using assms unfolding ledger_ok_def by blast

lemma ledger_okD:
  assumes "ledger_ok O' flt window feed pos lg l"
  shows "i < pos (ss_cursor (source_of l ext)) \<Longrightarrow> settled O' flt window lg ext (feed ext i)"
    and "u \<in> ss_committed (source_of l ext) \<Longrightarrow> \<exists>i c b. po_uid O' (feed ext i) = u \<and>
            settled O' flt window lg ext (feed ext i) \<and> Page ext c b \<in> set lg \<and> i < pos (Some c)"
    and "Ran ext u (Some True) \<in> set lg \<Longrightarrow> u \<in> ss_committed (source_of l ext)
            \<or> (\<exists>i<pos (ss_cursor (source_of l ext)). po_uid O' (feed ext i) = u)"
    and "count_list lg (Ran ext u (Some True)) \<le> 1"
  using assms unfolding ledger_ok_def by blast+

text \<open>Events that commit nothing keep the invariant.\<close>

definition quiet :: "collect_event \<Rightarrow> bool" where
  "quiet e \<longleftrightarrow> (\<forall>ext u. e \<noteq> Ran ext u (Some True))"

lemma ledger_ok_quiet:
  assumes "ledger_ok O' flt window feed pos lg l" "list_all quiet es"
  shows "ledger_ok O' flt window feed pos (es @ lg) l"
proof -
  have no: "Ran ext u (Some True) \<notin> set es" for ext u using assms(2) by (auto simp: quiet_def list_all_iff)
  note ok = ledger_okD[OF assms(1)]
  show ?thesis
  proof (rule ledger_okI)
    show "settled O' flt window (es @ lg) ext (feed ext i)" if "i < pos (ss_cursor (source_of l ext))" for ext i
      using settled_more[OF ok(1)[OF that]] .
    show "\<exists>i c b. po_uid O' (feed ext i) = u \<and> settled O' flt window (es @ lg) ext (feed ext i) \<and>
        Page ext c b \<in> set (es @ lg) \<and> i < pos (Some c)" if "u \<in> ss_committed (source_of l ext)" for ext u
      using ok(2)[OF that] settled_more by fastforce
    show "u \<in> ss_committed (source_of l ext) \<or> (\<exists>i<pos (ss_cursor (source_of l ext)). po_uid O' (feed ext i) = u)"
      if "Ran ext u (Some True) \<in> set (es @ lg)" for ext u using ok(3) no that by auto
    show "count_list (es @ lg) (Ran ext u (Some True)) \<le> 1" for ext u
      using ok(4)[of ext u] count_notin[OF no[of ext u]] by simp
  qed
qed

lemma complete_suffix: "complete pos (es @ lg) \<Longrightarrow> complete pos lg"
  by (induction es) auto

lemma source_of_upd [simp]: "source_of (l(ext \<mapsto> st)) e = (if e = ext then st else source_of l e)"
  by (simp add: source_of_def)

text \<open>A run of an item that is neither behind the cursor nor held as committed commits it once.\<close>

definition fresh_item ::
  "('w, 'i) poll_ops \<Rightarrow> (string \<Rightarrow> nat \<Rightarrow> 'i) \<Rightarrow> (string option \<Rightarrow> nat) \<Rightarrow> collect_event list \<Rightarrow> string \<Rightarrow> source_state \<Rightarrow> 'i \<Rightarrow> bool" where
  "fresh_item O' feed pos lg ext st x \<longleftrightarrow>
     po_uid O' x \<notin> ss_committed st \<and>
     (\<exists>i c b. x = feed ext i \<and> pos (ss_cursor st) \<le> i \<and> Page ext c b \<in> set lg \<and> i < pos (Some c))"

definition one_uid :: "('w, 'i) poll_ops \<Rightarrow> (string \<Rightarrow> nat \<Rightarrow> 'i) \<Rightarrow> bool" where
  "one_uid O' feed \<longleftrightarrow> (\<forall>ext i j. po_uid O' (feed ext i) = po_uid O' (feed ext j) \<longrightarrow> i = j)"

lemma ran_ok:
  assumes ok: "ledger_ok O' flt window feed pos lg (l(ext \<mapsto> st))" and one: "one_uid O' feed"
    and fresh: "fresh_item O' feed pos lg ext st x"
  shows "ledger_ok O' flt window feed pos (Ran ext (po_uid O' x) (Some v) # lg) (l(ext \<mapsto> with_run O' x v st))"
proof (cases v)
  case False
  then show ?thesis using ledger_ok_quiet[OF ok, of "[Ran ext (po_uid O' x) (Some False)]"]
    by (simp add: with_run_def quiet_def)
next
  case True
  obtain i c b where x: "x = feed ext i" "pos (ss_cursor st) \<le> i" "Page ext c b \<in> set lg" "i < pos (Some c)"
      "po_uid O' x \<notin> ss_committed st"
    using fresh unfolding fresh_item_def by blast
  let ?lg = "Ran ext (po_uid O' x) (Some True) # lg" and ?st = "st\<lparr>ss_committed := insert (po_uid O' x) (ss_committed st)\<rparr>"
  have more: "settled O' flt window ?lg e y" if "settled O' flt window lg e y" for e y
    using settled_more[OF that, of "[Ran ext (po_uid O' x) (Some True)]"] by simp
  have st: "ss_cursor ?st = ss_cursor st" by simp
  note okD = ledger_okD[OF ok]
  have new: "Ran ext (po_uid O' x) (Some True) \<notin> set lg"
    using okD(3)[of ext "po_uid O' x"] x one unfolding one_uid_def by fastforce
  have "ledger_ok O' flt window feed pos ?lg (l(ext \<mapsto> ?st))"
  proof (rule ledger_okI)
    show "settled O' flt window ?lg e (feed e j)" if "j < pos (ss_cursor (source_of (l(ext \<mapsto> ?st)) e))" for e j
      using that okD(1)[of j e] more by (auto split: if_splits)
    show "\<exists>j c b. po_uid O' (feed e j) = u \<and> settled O' flt window ?lg e (feed e j) \<and> Page e c b \<in> set ?lg \<and> j < pos (Some c)"
      if "u \<in> ss_committed (source_of (l(ext \<mapsto> ?st)) e)" for e u
    proof (cases "e = ext \<and> u = po_uid O' x")
      case True
      then show ?thesis using x by (auto simp: settled_def)
    next
      case False
      then have "u \<in> ss_committed (source_of (l(ext \<mapsto> st)) e)" using that by (auto split: if_splits)
      from okD(2)[OF this] show ?thesis using more by fastforce
    qed
    show "u \<in> ss_committed (source_of (l(ext \<mapsto> ?st)) e) \<or> (\<exists>j<pos (ss_cursor (source_of (l(ext \<mapsto> ?st)) e)). po_uid O' (feed e j) = u)"
      if "Ran e u (Some True) \<in> set ?lg" for e u
      using that okD(3)[of e u] by (auto split: if_splits)
    show "count_list ?lg (Ran e u (Some True)) \<le> 1" for e u
      using okD(4)[of e u] count_notin[OF new] by auto
  qed
  then show ?thesis using True by (simp add: with_run_def)
qed

section \<open>The interface\<close>

text \<open>What the proof needs of a poll's operations: where the ledger is held, and that only saving
  writes it.\<close>

locale ledger_poll =
  fixes O' :: "('w, 'i) poll_ops" and held :: "'w \<Rightarrow> ledger"
  assumes save_ok: "po_save O' l w = (Inr u, w') \<Longrightarrow> held w' = l"
    and save_err: "po_save O' l w = (Inl e, w') \<Longrightarrow> held w' = held w"
    and upsert_held: "po_upsert O' rm w = (r1, w') \<Longrightarrow> held w' = held w"
    and sync_held: "po_sync O' sid rm c w = (r2, w') \<Longrightarrow> held w' = held w"
    and delete_held: "po_delete O' sid u' w = (r3, w') \<Longrightarrow> held w' = held w"
    and run_held: "po_run O' rm sid x w = (r4, w') \<Longrightarrow> held w' = held w"
    and archive_held: "held (po_archive O' sid x w) = held w"
begin

lemma drain_log:
  assumes "\<And>sid. reads_log feed pos (po_sync O' sid)"
    and "drain_pages (po_sync (watch O') sid rm) k c ups dels s = (r, s')"
  shows "held (fst s') = held (fst s) \<and> (\<exists>es. snd s' = es @ snd s \<and> list_all quiet es \<and>
    (\<forall>batch dl nxt full. r = Inr (batch, dl, nxt, full) \<longrightarrow> dl = dels \<and> pos c \<le> pos (Some nxt) \<and>
       batch = ups @ map (feed (rm_external_id rm)) [pos c ..< pos (Some nxt)] \<and>
       (\<exists>es'. es = Page (rm_external_id rm) nxt (\<not> full) # es')))"
  using assms(2)
proof (induction "po_sync (watch O') sid rm" k c ups dels s arbitrary: r s' rule: drain_pages.induct)
  case (1 k c ups dels s)
  obtain r1 w1 where m: "po_sync O' sid rm c (fst s) = (r1, w1)" by fastforce
  note held = sync_held[OF m]
  show ?case
  proof (cases r1)
    case (Inl e)
    then have "po_sync (watch O') sid rm c s = (Inl e, (w1, snd s))" using m by (simp add: watch_def noting_def)
    then show ?thesis using 1(2) held by (auto simp: drain_pages.simps[of _ k])
  next
    case (Inr b)
    let ?p = "Page (rm_external_id rm) (sb_next_cursor b) (sb_has_more b)"
    have m': "po_sync (watch O') sid rm c s = (Inr b, (w1, ?p # snd s))" using m Inr by (simp add: watch_def noting_def)
    have b: "pos c \<le> pos (Some (sb_next_cursor b))" "sb_deletions b = []"
        "sb_upserts b = map (feed (rm_external_id rm)) [pos c ..< pos (Some (sb_next_cursor b))]"
      using assms(1)[of sid] m Inr unfolding reads_log_def by blast+
    have q: "quiet ?p" by (simp add: quiet_def)
    show ?thesis
    proof (cases "next_sync_page (sb_has_more b) c (sb_next_cursor b) (Suc k) MAX_SYNC_PAGES")
      case None
      then have res: "r = Inr (ups @ sb_upserts b, dels @ sb_deletions b, sb_next_cursor b, \<not> sb_has_more b)" "s' = (w1, ?p # snd s)"
        using 1(2) m' by (auto simp: drain_pages.simps[of _ k])
      show ?thesis using held b q res by auto
    next
      case (Some d)
      have d: "d = sb_next_cursor b" using Some by (auto simp: next_sync_page_def split: if_splits)
      have res: "drain_pages (po_sync (watch O') sid rm) (Suc k) (Some d) (ups @ sb_upserts b) (dels @ sb_deletions b) (w1, ?p # snd s) = (r, s')"
        using 1(2) m' Some by (simp add: drain_pages.simps[of _ k])
      note IH = 1(1)[OF m'[symmetric] refl Some res]
      obtain es where es: "snd s' = es @ ?p # snd s" "list_all quiet es" "\<forall>batch dl nxt full. r = Inr (batch, dl, nxt, full) \<longrightarrow>
          dl = dels @ sb_deletions b \<and> pos (Some d) \<le> pos (Some nxt) \<and>
          batch = (ups @ sb_upserts b) @ map (feed (rm_external_id rm)) [pos (Some d) ..< pos (Some nxt)] \<and>
          (\<exists>es'. es = Page (rm_external_id rm) nxt (\<not> full) # es')"
        using IH by auto
      have "dl = dels \<and> pos c \<le> pos (Some nxt) \<and> batch = ups @ map (feed (rm_external_id rm)) [pos c ..< pos (Some nxt)] \<and>
          (\<exists>es'. es @ [?p] = Page (rm_external_id rm) nxt (\<not> full) # es')" if "r = Inr (batch, dl, nxt, full)" for batch dl nxt full
        using es(3)[rule_format, OF that] b d upt_add_eq_append[of "pos c" "pos (Some d)" "pos (Some nxt) - pos (Some d)"] by auto
      then show ?thesis using IH held es(1,2) q by (intro conjI exI[of _ "es @ [?p]"]) auto
    qed
  qed
qed

end

context ledger_poll
begin

definition ran :: "collect_event \<Rightarrow> bool" where
  "ran e \<longleftrightarrow> (\<exists>ext u v. e = Ran ext u v)"

lemma run_new_log:
  assumes "run_new (watch O') rm sid xs l st allc rep s = (r, s')" "one_uid O' feed"
    and "ledger_ok O' flt window feed pos (snd s) (l(rm_external_id rm \<mapsto> st))"
    and "ledger_ok O' flt window feed pos (snd s) (held (fst s))"
    and "\<forall>x\<in>set xs. fresh_item O' feed pos (snd s) (rm_external_id rm) st x" "distinct (map (po_uid O') xs)"
    and "SaveFailed \<notin> set (snd s')"
  shows "(\<exists>es. snd s' = es @ snd s \<and> list_all ran es) \<and> ledger_ok O' flt window feed pos (snd s') (held (fst s')) \<and>
    (\<forall>l2 st2 allc2 rep2. r = Inr (l2, st2, allc2, rep2) \<longrightarrow>
       ledger_ok O' flt window feed pos (snd s') (l2(rm_external_id rm \<mapsto> st2)) \<and> ss_cursor st2 = ss_cursor st \<and>
       ss_committed st \<subseteq> ss_committed st2 \<and> (allc2 \<longrightarrow> allc \<and> po_uid O' ` set xs \<subseteq> ss_committed st2))"
  using assms(1,3-)
proof (induction xs arbitrary: l st allc rep s)
  case Nil
  then show ?case by auto
next
  case (Cons x xs)
  let ?ext = "rm_external_id rm"
  obtain r1 w1 where m: "po_run O' rm sid x (fst s) = (r1, w1)" by fastforce
  note held1 = run_held[OF m]
  let ?e = "Ran ?ext (po_uid O' x) (case r1 of Inl e \<Rightarrow> None | Inr v \<Rightarrow> Some v)"
  have m': "po_run (watch O') rm sid x s = (r1, (w1, ?e # snd s))" using m by (cases r1) (simp_all add: watch_def noting_def)
  have ran_e: "ran ?e" by (simp add: ran_def)
  have fresh: "fresh_item O' feed pos (snd s) ?ext st x" using Cons.prems(4) by simp
  show ?case
  proof (cases r1)
    case (Inl err)
    have res: "r = Inl err" "s' = (w1, ?e # snd s)" using Cons.prems(1) m' Inl by simp_all
    have "ledger_ok O' flt window feed pos ([?e] @ snd s) (held (fst s))"
      using Cons.prems(3) Inl by (intro ledger_ok_quiet) (simp_all add: quiet_def)
    then show ?thesis using res held1 ran_e by auto
  next
    case (Inr v)
    let ?st = "with_run O' x v st" and ?w2 = "if v then po_archive O' sid x w1 else w1"
    let ?l = "l(?ext \<mapsto> ?st)"
    obtain r3 w3 where sv: "po_save O' ?l ?w2 = (r3, w3)" by fastforce
    have sv': "po_save (watch O') ?l (?w2, ?e # snd s) = (r3, (w3, (case r3 of Inl e \<Rightarrow> [SaveFailed] | Inr _ \<Rightarrow> []) @ ?e # snd s))"
      using sv by (simp add: watch_def noting_def)
    have step: "run_new (watch O') rm sid (x # xs) l st allc rep s =
        (case r3 of Inl e \<Rightarrow> (Inl e, (w3, SaveFailed # ?e # snd s))
         | Inr _ \<Rightarrow> run_new (watch O') rm sid xs ?l ?st (allc \<and> v) (with_count v rep) (w3, ?e # snd s))"
      using m' sv' Inr unfolding run_new_bind by (cases r3) (simp_all add: bindM_def)
    show ?thesis
    proof (cases r3)
      case (Inl err)
      then have "s' = (w3, SaveFailed # ?e # snd s)" using step Cons.prems(1) by simp
      then show ?thesis using Cons.prems(6) by simp
    next
      case Inr3: (Inr u)
      have held3: "held w3 = ?l" using save_ok sv Inr3 by blast
      have ok: "ledger_ok O' flt window feed pos (?e # snd s) ?l"
        using ran_ok[OF Cons.prems(2) assms(2) fresh, of v] Inr by simp
      have res: "run_new (watch O') rm sid xs ?l ?st (allc \<and> v) (with_count v rep) (w3, ?e # snd s) = (r, s')"
        using step Cons.prems(1) Inr3 by simp
      have rest: "\<forall>y\<in>set xs. fresh_item O' feed pos (?e # snd s) ?ext ?st y"
        using Cons.prems(4,5) unfolding fresh_item_def with_run_def by (auto simp: image_iff)
      note IH = Cons.IH[OF res, unfolded fst_conv snd_conv held3 fun_upd_upd, OF ok ok rest _ Cons.prems(6)]
      have cur: "ss_cursor ?st = ss_cursor st" "ss_committed st \<subseteq> ss_committed ?st" "v \<Longrightarrow> po_uid O' x \<in> ss_committed ?st"
        by (auto simp: with_run_def)
      have dist: "distinct (map (po_uid O') xs)" using Cons.prems(5) by simp
      obtain es where es: "snd s' = es @ ?e # snd s" "list_all ran es" using IH[OF dist] by blast
      have "snd s' = (es @ [?e]) @ snd s \<and> list_all ran (es @ [?e])" using es ran_e by simp
      then have shape: "\<exists>es. snd s' = es @ snd s \<and> list_all ran es" by blast
      have "ledger_ok O' flt window feed pos (snd s') (l2(?ext \<mapsto> st2)) \<and> ss_cursor st2 = ss_cursor st \<and>
          ss_committed st \<subseteq> ss_committed st2 \<and> (allc2 \<longrightarrow> allc \<and> po_uid O' ` set (x # xs) \<subseteq> ss_committed st2)"
        if "r = Inr (l2, st2, allc2, rep2)" for l2 st2 allc2 rep2
      proof -
        note end_facts = IH[OF dist, THEN conjunct2, THEN conjunct2, rule_format, OF that]
        show ?thesis using end_facts cur by (intro conjI impI) (blast, simp, blast, auto)
      qed
      then show ?thesis using shape IH[OF dist] by blast
    qed
  qed
qed

end

section \<open>A poll of one source\<close>

lemma partition_spec:
  assumes "partition_batch O' flt cutoff xs seen = (ys, seen')" "distinct (map (po_uid O') xs)"
  shows "set ys = {x\<in>set xs. po_uid O' x \<notin> seen \<and> po_matches O' flt x \<and> passes_cutoff (po_at O' x) cutoff}
    \<and> distinct (map (po_uid O') ys)
    \<and> seen' = seen \<union> {u. \<exists>x\<in>set xs. u = po_uid O' x \<and> po_uid O' x \<notin> seen \<and> po_matches O' flt x
        \<and> \<not> passes_cutoff (po_at O' x) cutoff}"
  using assms
proof (induction xs arbitrary: ys seen seen')
  case (Cons x xs)
  let ?u = "po_uid O' x"
  have u: "?u \<notin> po_uid O' ` set xs" "distinct (map (po_uid O') xs)" using Cons.prems(2) by simp_all
  consider (skip) "?u \<in> seen \<or> \<not> po_matches O' flt x"
    | (old) "?u \<notin> seen" "po_matches O' flt x" "\<not> passes_cutoff (po_at O' x) cutoff"
    | (new) "?u \<notin> seen" "po_matches O' flt x" "passes_cutoff (po_at O' x) cutoff"
    by blast
  then show ?case
  proof cases
    case skip
    then have "partition_batch O' flt cutoff xs seen = (ys, seen')" using Cons.prems(1) by simp
    from Cons.IH[OF this u(2)] skip show ?thesis by auto
  next
    case old
    then have "partition_batch O' flt cutoff xs (insert ?u seen) = (ys, seen')" using Cons.prems(1) by simp
    from Cons.IH[OF this u(2)] old u(1) show ?thesis by (auto simp: image_iff)
  next
    case new
    obtain zs where zs: "partition_batch O' flt cutoff xs seen = (zs, seen')" "ys = x # zs"
      using Cons.prems(1) new by (auto split: prod.splits)
    from Cons.IH[OF zs(1) u(2)] zs(2) new u(1) show ?thesis by (auto simp: image_iff)
  qed
qed auto

lemma insert_sorted_mset: "mset (insert_sorted k x xs) = add_mset x (mset xs)"
  by (induction xs) auto

lemma sort_items_mset: "mset (sort_items k xs) = mset xs"
  by (induction xs) (auto simp: sort_items_def insert_sorted_mset)

lemma sort_items_same:
  "set (sort_items k xs) = set xs" "length (sort_items k xs) = length xs"
  "distinct (map f (sort_items k xs)) = distinct (map f xs)"
proof -
  show "set (sort_items k xs) = set xs" by (rule mset_eq_setD[OF sort_items_mset])
  show "length (sort_items k xs) = length xs" by (rule mset_eq_length[OF sort_items_mset])
  have "mset (map f (sort_items k xs)) = mset (map f xs)" by (simp add: sort_items_mset)
  then show "distinct (map f (sort_items k xs)) = distinct (map f xs)" by (rule mset_eq_imp_distinct_iff)
qed

text \<open>What a poll marks as seen is settled.\<close>

lemma seen_ok:
  assumes ok: "ledger_ok O' flt window feed pos lg l" and st: "st = source_of l ext"
    and seen: "\<And>u. u \<in> seen \<Longrightarrow> u \<in> ss_committed st \<or> (\<exists>i c b. po_uid O' (feed ext i) = u \<and>
        settled O' flt window lg ext (feed ext i) \<and> Page ext c b \<in> set lg \<and> i < pos (Some c))"
    and more: "ss_committed st \<subseteq> seen"
  shows "ledger_ok O' flt window feed pos lg (l(ext \<mapsto> st\<lparr>ss_committed := seen\<rparr>))"
proof -
  note okD = ledger_okD[OF ok]
  show ?thesis
  proof (rule ledger_okI)
    show "settled O' flt window lg e (feed e i)" if "i < pos (ss_cursor (source_of (l(ext \<mapsto> st\<lparr>ss_committed := seen\<rparr>)) e))" for e i
      using that okD(1) st by (simp split: if_splits)
    show "\<exists>i c b. po_uid O' (feed e i) = u \<and> settled O' flt window lg e (feed e i) \<and> Page e c b \<in> set lg \<and> i < pos (Some c)"
      if "u \<in> ss_committed (source_of (l(ext \<mapsto> st\<lparr>ss_committed := seen\<rparr>)) e)" for e u
    proof (cases "e = ext")
      case True
      then have "u \<in> seen" using that by simp
      from seen[OF this] show ?thesis using okD(2)[of u ext] st True by blast
    next
      case False
      then show ?thesis using that okD(2)[of u e] by simp
    qed
    show "u \<in> ss_committed (source_of (l(ext \<mapsto> st\<lparr>ss_committed := seen\<rparr>)) e)
        \<or> (\<exists>i<pos (ss_cursor (source_of (l(ext \<mapsto> st\<lparr>ss_committed := seen\<rparr>)) e)). po_uid O' (feed e i) = u)"
      if "Ran e u (Some True) \<in> set lg" for e u
      using okD(3)[OF that] st more by auto
    show "count_list lg (Ran e u (Some True)) \<le> 1" for e u using okD(4) .
  qed
qed

text \<open>Moving the cursor over a batch whose items are all settled.\<close>

lemma advance_ok:
  assumes ok: "ledger_ok O' flt window feed pos lg l" and st: "st = source_of l ext"
    and all: "\<And>i. pos (ss_cursor st) \<le> i \<Longrightarrow> i < pos (Some nxt) \<Longrightarrow> settled O' flt window lg ext (feed ext i)"
    and far: "\<And>c b. Page ext c b \<in> set lg \<Longrightarrow> pos (Some c) \<le> pos (Some nxt)"
    and fwd: "pos (ss_cursor st) \<le> pos (Some nxt)"
  shows "ledger_ok O' flt window feed pos lg (l(ext \<mapsto> \<lparr>ss_cursor = Some nxt, ss_committed = {}, ss_initialized = b\<rparr>))"
proof -
  note okD = ledger_okD[OF ok]
  let ?l = "l(ext \<mapsto> \<lparr>ss_cursor = Some nxt, ss_committed = {}, ss_initialized = b\<rparr>)"
  show ?thesis
  proof (rule ledger_okI)
    show "settled O' flt window lg e (feed e i)" if "i < pos (ss_cursor (source_of ?l e))" for e i
      using that okD(1)[of i e] all[of i] st by (cases "i < pos (ss_cursor st)") (auto split: if_splits)
    show "\<exists>i c b. po_uid O' (feed e i) = u \<and> settled O' flt window lg e (feed e i) \<and> Page e c b \<in> set lg \<and> i < pos (Some c)"
      if "u \<in> ss_committed (source_of ?l e)" for e u
      using that okD(2)[of u e] by (auto split: if_splits)
    show "u \<in> ss_committed (source_of ?l e) \<or> (\<exists>i<pos (ss_cursor (source_of ?l e)). po_uid O' (feed e i) = u)"
      if ran: "Ran e u (Some True) \<in> set lg" for e u
    proof (cases "e = ext")
      case False
      then show ?thesis using okD(3)[OF ran] by simp
    next
      case True
      show ?thesis
      proof (cases "u \<in> ss_committed st")
        case committed: True
        then obtain i c b' where "po_uid O' (feed ext i) = u" "Page ext c b' \<in> set lg" "i < pos (Some c)"
          using okD(2)[of u ext] st by blast
        then have "i < pos (Some nxt)" "po_uid O' (feed ext i) = u" using far by fastforce+
        then show ?thesis using True by auto
      next
        case False
        then obtain i where "i < pos (ss_cursor st)" "po_uid O' (feed ext i) = u"
          using okD(3)[OF ran] st True by auto
        moreover have "i < pos (Some nxt)" using calculation(1) fwd by simp
        ultimately show ?thesis using True by auto
      qed
    qed
    show "count_list lg (Ran e u (Some True)) \<le> 1" for e u using okD(4) .
  qed
qed

definition log_source :: "('w, 'i) poll_ops \<Rightarrow> (string \<Rightarrow> nat \<Rightarrow> 'i) \<Rightarrow> (string option \<Rightarrow> nat) \<Rightarrow> bool" where
  "log_source O' feed pos \<longleftrightarrow> po_incremental O' \<and> (\<forall>sid. reads_log feed pos (po_sync O' sid)) \<and> one_uid O' feed"

lemma ledger_ok_agree:
  assumes "ledger_ok O' flt window feed pos lg l"
    and "\<And>e. ss_cursor (source_of l' e) = ss_cursor (source_of l e) \<and> ss_committed (source_of l' e) = ss_committed (source_of l e)"
  shows "ledger_ok O' flt window feed pos lg l'"
  using assms(1) unfolding ledger_ok_def by (simp add: assms(2))

context ledger_poll
begin

text \<open>After the drain: the runs and the move of the cursor, on a ledger in order.\<close>

lemma runs_log:
  assumes run: "run_new (watch O') rm sid (take cap items) l (st\<lparr>ss_committed := seen\<rparr>) (full \<and> length items \<le> cap) rep s = (r, s')"
    and src: "log_source O' feed pos" and st: "st = source_of l (rm_external_id rm)"
    and part: "partition_batch O' flt cutoff batch (ss_committed st) = (new, seen)"
    and items: "items = sort_items key new" and cut: "Began now \<in> set (snd s)" "backfill_cutoff window first now = Inr cutoff"
    and batch: "batch = map (feed (rm_external_id rm)) [pos (ss_cursor st) ..< pos (Some nxt)]"
    and page: "snd s = Page (rm_external_id rm) nxt (\<not> full) # lg0" and fwd: "pos (ss_cursor st) \<le> pos (Some nxt)"
    and ok: "ledger_ok O' flt window feed pos (snd s) l" "ledger_ok O' flt window feed pos (snd s) (held (fst s))"
    and good: "complete pos (snd s')" "SaveFailed \<notin> set (snd s')"
  shows "ledger_ok O' flt window feed pos (snd s') (held (fst s')) \<and> (\<exists>es. snd s' = es @ snd s) \<and>
    (\<forall>l2 st2 allc rep2. r = Inr (l2, st2, allc, rep2) \<longrightarrow>
      ledger_ok O' flt window feed pos (snd s') (l2(rm_external_id rm \<mapsto> advance_source allc nxt changed True uids st2)))"
proof -
  let ?ext = "rm_external_id rm"
  have one: "one_uid O' feed" using src by (simp add: log_source_def)
  have dist: "distinct (map (po_uid O') batch)"
  proof -
    have "inj_on (\<lambda>i. po_uid O' (feed ?ext i)) A" for A using one unfolding one_uid_def inj_on_def by blast
    then show ?thesis unfolding batch by (simp add: distinct_map comp_def)
  qed
  note ps = partition_spec[OF part dist]
  have page_in: "Page ?ext nxt (\<not> full) \<in> set (snd s)" using page by simp
  have at_i: "\<exists>i. x = feed ?ext i \<and> pos (ss_cursor st) \<le> i \<and> i < pos (Some nxt)" if "x \<in> set batch" for x
    using that unfolding batch by auto
  have old: "settled O' flt window (snd s) ?ext x" if "\<not> passes_cutoff (po_at O' x) cutoff" for x
    unfolding settled_def too_old_def using cut that by blast
  have ok_seen: "ledger_ok O' flt window feed pos (snd s) (l(?ext \<mapsto> st\<lparr>ss_committed := seen\<rparr>))"
  proof (rule seen_ok[OF ok(1) st])
    show "u \<in> ss_committed st \<or> (\<exists>i c b. po_uid O' (feed ?ext i) = u \<and> settled O' flt window (snd s) ?ext (feed ?ext i) \<and>
        Page ?ext c b \<in> set (snd s) \<and> i < pos (Some c))" if u: "u \<in> seen" for u
    proof (cases "u \<in> ss_committed st")
      case False
      then obtain x where x: "x \<in> set batch" "u = po_uid O' x" "\<not> passes_cutoff (po_at O' x) cutoff"
        using u ps by blast
      obtain i where "x = feed ?ext i" "i < pos (Some nxt)" using at_i[OF x(1)] by blast
      then show ?thesis using x old[OF x(3)] page_in by blast
    qed simp
    show "ss_committed st \<subseteq> seen" using ps by blast
  qed
  have fresh: "\<forall>x\<in>set (take cap items). fresh_item O' feed pos (snd s) ?ext (st\<lparr>ss_committed := seen\<rparr>) x"
  proof
    fix x assume "x \<in> set (take cap items)"
    then have x: "x \<in> set batch" "po_uid O' x \<notin> ss_committed st" "passes_cutoff (po_at O' x) cutoff"
      using in_set_takeD items ps by (fastforce simp: sort_items_same)+
    have "po_uid O' x \<noteq> po_uid O' y" if "y \<in> set batch" "\<not> passes_cutoff (po_at O' y) cutoff" for y
      using dist x that unfolding distinct_map inj_on_def by metis
    then have "po_uid O' x \<notin> seen" using x ps by blast
    moreover obtain i where "x = feed ?ext i" "pos (ss_cursor st) \<le> i" "i < pos (Some nxt)" using at_i[OF x(1)] by blast
    ultimately show "fresh_item O' feed pos (snd s) ?ext (st\<lparr>ss_committed := seen\<rparr>) x"
      using page_in unfolding fresh_item_def by auto
  qed
  have dist_items: "distinct (map (po_uid O') (take cap items))"
    using ps items by (simp add: sort_items_same take_map[symmetric] distinct_take)
  note R = run_new_log[OF run one ok_seen ok(2) fresh dist_items good(2)]
  obtain es where es: "snd s' = es @ snd s" "list_all ran es" using R[THEN conjunct1] by (elim exE conjE)
  have adv: "ledger_ok O' flt window feed pos (snd s') (l2(?ext \<mapsto> advance_source allc nxt changed True uids st2))"
    if ran_on: "r = Inr (l2, st2, allc, rep2)" for l2 st2 allc rep2
  proof -
    note R3 = R[THEN conjunct2, THEN conjunct2, rule_format, OF ran_on]
    have E: "ledger_ok O' flt window feed pos (snd s') (l2(?ext \<mapsto> st2))" "ss_cursor st2 = ss_cursor st" "seen \<subseteq> ss_committed st2"
        "allc \<Longrightarrow> full \<and> length items \<le> cap \<and> po_uid O' ` set (take cap items) \<subseteq> ss_committed st2"
      using R3 by auto
    show ?thesis
    proof (cases allc)
      case False
      have "ledger_ok O' flt window feed pos (snd s') (l2(?ext \<mapsto> st2\<lparr>ss_initialized := True\<rparr>))"
        by (rule ledger_ok_agree[OF E(1)]) simp
      then show ?thesis using False by (simp add: advance_source_def)
    next
      case True
      have all: "full" "length items \<le> cap" using E(4)[OF True] by simp_all
      have all3: "po_uid O' ` set items \<subseteq> ss_committed st2" using E(4)[OF True] all(2) by simp
      have "complete pos (snd s)" using good(1) complete_suffix es(1) by simp
      then have far0: "pos (Some c) \<le> pos (Some nxt)" if "Page ?ext c b \<in> set (snd s)" for c b
        using that all(1) page by auto
      have far: "pos (Some c) \<le> pos (Some nxt)" if "Page ?ext c b \<in> set (snd s')" for c b
        using that es far0 by (auto simp: ran_def list_all_iff)
      have st2: "st2 = source_of (l2(?ext \<mapsto> st2)) ?ext" by simp
      have "settled O' flt window (snd s') ?ext (feed ?ext i)" if i: "pos (ss_cursor st2) \<le> i" "i < pos (Some nxt)" for i
      proof -
        let ?x = "feed ?ext i"
        have x: "?x \<in> set batch" using i E(2) unfolding batch by simp
        have more: "settled O' flt window (snd s) ?ext y \<Longrightarrow> settled O' flt window (snd s') ?ext y" for y
          using settled_more es(1) by simp
        have held: "settled O' flt window (snd s') ?ext ?x" if in_st2: "po_uid O' ?x \<in> ss_committed st2"
        proof -
          obtain j where "po_uid O' (feed ?ext j) = po_uid O' ?x" "settled O' flt window (snd s') ?ext (feed ?ext j)"
            using ledger_okD(2)[OF E(1), of "po_uid O' ?x" ?ext] in_st2 by auto
          then show ?thesis using one unfolding one_uid_def by metis
        qed
        show ?thesis
        proof (cases "po_uid O' ?x \<in> ss_committed st2")
          case not_held: False
          then have "po_uid O' ?x \<notin> ss_committed st" "?x \<notin> set items" using E(3) all3 ps by auto
          then have "\<not> po_matches O' flt ?x \<or> \<not> passes_cutoff (po_at O' ?x) cutoff"
            using x ps items by (auto simp: sort_items_same)
          then show ?thesis using old more by (auto simp: settled_def)
        qed (rule held)
      qed
      then have "ledger_ok O' flt window feed pos (snd s') ((l2(?ext \<mapsto> st2))(?ext \<mapsto> \<lparr>ss_cursor = Some nxt, ss_committed = {}, ss_initialized = True\<rparr>))"
        using advance_ok[OF E(1) st2 _ far] E(2) fwd by simp
      moreover have "advance_source allc nxt changed True uids st2 = \<lparr>ss_cursor = Some nxt, ss_committed = {}, ss_initialized = True\<rparr>"
        using True by (simp add: advance_source_def)
      ultimately show ?thesis by simp
    qed
  qed
  then show ?thesis using R[THEN conjunct2, THEN conjunct1] es(1) by blast
qed

end

lemma bindM_E:
  assumes "bindM m f s = (r, s')"
  obtains (bad) e where "m s = (Inl e, s')" "r = Inl e"
  | (good) x s1 where "m s = (Inr x, s1)" "f x s1 = (r, s')"
  using assms by (auto simp: bindM_def split: prod.splits sum.splits)

lemma bindM_ret: "bindM (ret x) f = f x"
  by (rule ext) simp

context ledger_poll
begin

lemma source_log:
  assumes run: "collect_source (watch O') flt window now rm l rep s = (r, s')" and src: "log_source O' feed pos"
    and began: "Began now \<in> set (snd s)"
    and ok: "ledger_ok O' flt window feed pos (snd s) l" "ledger_ok O' flt window feed pos (snd s) (held (fst s))"
    and good: "complete pos (snd s')" "SaveFailed \<notin> set (snd s')"
  shows "ledger_ok O' flt window feed pos (snd s') (held (fst s')) \<and>
    (\<forall>l2 rep2. r = Inr (l2, rep2) \<longrightarrow> ledger_ok O' flt window feed pos (snd s') l2) \<and> (\<exists>es. snd s' = es @ snd s)"
proof -
  let ?ext = "rm_external_id rm" and ?st = "source_of l (rm_external_id rm)"
  have inc: "po_incremental O'" and reads: "\<And>sid. reads_log feed pos (po_sync O' sid)" using src by (simp_all add: log_source_def)
  have stop: ?thesis if "r = Inl e" "snd s' = es @ snd s" "list_all quiet es" "held (fst s') = held (fst s)" for e es
    using that ledger_ok_quiet[OF ok(2) that(3)] by auto
  from run[unfolded collect_source_def] show ?thesis
  proof (cases rule: bindM_E)
    case (bad e)
    then have "held (fst s') = held (fst s)" "snd s' = [] @ snd s"
      using upsert_held[of rm "fst s"] by (auto simp: watch_def on_fst_def split: prod.splits)
    then show ?thesis using stop[OF bad(2)] by simp
  next
    case (good sid s1)
    then have s1: "held (fst s1) = held (fst s)" "snd s1 = snd s"
      using upsert_held[of rm "fst s"] by (auto simp: watch_def on_fst_def split: prod.splits)
    from good(2)[unfolded Let_def] show ?thesis
    proof (cases rule: bindM_E)
      case (bad e)
      note D = drain_log[OF reads bad(1)[unfolded drain_all_def]]
      obtain es where "snd s' = es @ snd s" "list_all quiet es" using D s1 by auto
      then show ?thesis using stop[OF bad(2)] D s1 by simp
    next
      case (good q s2)
      note D = drain_log[OF reads good(1)[unfolded drain_all_def]]
      obtain es where es: "snd s2 = es @ snd s" "list_all quiet es" using D s1 by auto
      have held2: "held (fst s2) = held (fst s)" using D s1 by simp
      obtain batch dl nxt full where q: "q = (batch, dl, nxt, full)" by (cases q)
      have dl: "dl = []" and fwd: "pos (ss_cursor ?st) \<le> pos (Some nxt)"
          and batch: "batch = map (feed ?ext) [pos (ss_cursor ?st) ..< pos (Some nxt)]"
        using D q by auto
      obtain es' where "snd s2 = (Page ?ext nxt (\<not> full) # es') @ snd s" using D q s1 by auto
      then have page: "snd s2 = Page ?ext nxt (\<not> full) # es' @ snd s" by simp
      have ok2: "ledger_ok O' flt window feed pos (snd s2) l" "ledger_ok O' flt window feed pos (snd s2) (held (fst s2))"
        using ledger_ok_quiet[OF ok(1) es(2)] ledger_ok_quiet[OF ok(2) es(2)] es(1) held2 by simp_all
      note cont = good(2)[unfolded q prod.case dl, unfolded loop_nil bindM_ret prod.case watch_fields]
      from cont show ?thesis
      proof (cases rule: bindM_E)
        case (bad e)
        then show ?thesis using stop[OF bad(2), of es] es held2 by simp
      next
        case (good cutoff s3)
        have s3: "s3 = s2" and cut: "backfill_cutoff window (ss_initialized ?st) now = Inr cutoff" using good(1) by simp_all
        have began2: "Began now \<in> set (snd s2)" using began es(1) by simp
        obtain new seen where part: "partition_batch O' flt cutoff batch (ss_committed ?st) = (new, seen)" by fastforce
        from good(2)[unfolded s3 eqTrueI[OF inc] simp_thms if_False bindM_ret partition_watch part prod.case] show ?thesis
        proof (cases rule: bindM_E)
          case (bad e)
          have b: "complete pos (snd s')" "SaveFailed \<notin> set (snd s')" using assms(6,7) .
          note R = runs_log[OF bad(1) src refl part refl began2 cut batch page fwd ok2 b]
          then show ?thesis using bad(2) es(1) by auto
        next
          case (good p s4)
          obtain l2 st2 allc rep2 where p: "p = (l2, st2, allc, rep2)" by (cases p)
          let ?l = "l2(?ext \<mapsto> advance_source allc nxt (ss_cursor ?st \<noteq> Some nxt) True (po_uid O' ` set batch) st2)"
          from good(2)[unfolded p prod.case] show ?thesis
          proof (cases rule: bindM_E)
            case (bad e)
            then have "SaveFailed \<in> set (snd s')" by (auto simp: watch_def noting_def split: prod.splits sum.splits)
            then show ?thesis using assms(7) by simp
          next
            case saved: (good v s5)
            have s5: "held (fst s') = ?l" "snd s' = snd s4" "r = Inr (?l, rep2)"
              using saved save_ok by (auto simp: watch_def noting_def split: prod.splits sum.splits)
            have b: "complete pos (snd s4)" "SaveFailed \<notin> set (snd s4)" using assms(6,7) s5(2) by simp_all
            note R = runs_log[OF good(1)[unfolded p] src refl part refl began2 cut batch page fwd ok2 b, of "ss_cursor ?st \<noteq> Some nxt" "po_uid O' ` set batch"]
            obtain es2 where "snd s' = es2 @ snd s2" using R s5(2) by auto
            then have "\<exists>es. snd s' = es @ snd s" using es(1) by simp
            then show ?thesis using R s5 by simp
          qed
        qed
      qed
    qed
  qed
qed

end

section \<open>Many polls\<close>

text \<open>Polls of a connection whose ledger was empty, with anything in between that leaves it alone.\<close>

inductive collect_reach ::
  "('w, 'i) poll_ops \<Rightarrow> ('w \<Rightarrow> ledger) \<Rightarrow> json option \<Rightarrow> json option \<Rightarrow> 'w \<times> collect_event list \<Rightarrow> bool"
  for O' held flt window where
  unpolled: "held w = (\<lambda>_. None) \<Longrightarrow> collect_reach O' held flt window (w, [])"
| polled: "collect_reach O' held flt window (w, lg) \<Longrightarrow>
    collect_sources (watch O') flt window now rms (held w) rep (w, Began now # lg) = (r, s') \<Longrightarrow>
    collect_reach O' held flt window s'"
| elsewhere: "collect_reach O' held flt window (w, lg) \<Longrightarrow> held w' = held w \<Longrightarrow> collect_reach O' held flt window (w', lg)"

text \<open>The events of a poll are added to those before it.\<close>

definition grows :: "('w \<times> 'l list, 'e, 'a) eff \<Rightarrow> bool" where
  "grows m \<longleftrightarrow> (\<forall>s r s'. m s = (r, s') \<longrightarrow> suffix (snd s) (snd s'))"

lemma growsD: "grows m \<Longrightarrow> m s = (r, s') \<Longrightarrow> suffix (snd s) (snd s')"
  unfolding grows_def by blast

lemma grows_basic [simp]: "grows (ret x)" "grows (on_fst m)" "grows (noting f m)" "grows (\<lambda>s. (r, s))"
  by (auto simp: grows_def on_fst_def noting_def suffix_def split: prod.splits)

lemma grows_bind:
  assumes "grows m" "\<And>x. grows (f x)"
  shows "grows (bindM m f)"
  unfolding grows_def
proof (intro allI impI)
  fix s r s'
  assume "bindM m f s = (r, s')"
  then show "suffix (snd s) (snd s')"
  proof (cases rule: bindM_E)
    case (bad e)
    then show ?thesis using growsD[OF assms(1)] by blast
  next
    case (good x s1)
    then show ?thesis using growsD[OF assms(1) good(1)] growsD[OF assms(2) good(2)] suffix_order.trans by blast
  qed
qed

lemma grows_case_prod: "(\<And>a b. grows (f a b)) \<Longrightarrow> grows (case p of (a, b) \<Rightarrow> f a b)"
  by (cases p) simp

lemma watch_grows [simp]:
  "grows (po_upsert (watch O') rm)" "grows (po_sync (watch O') sid rm c)" "grows (po_delete (watch O') sid u)"
  "grows (po_stored (watch O') sid)" "grows (po_run (watch O') rm sid x)" "grows (po_save (watch O') l)"
  by (simp_all add: watch_def)

lemma after_run_grows [simp]: "grows (after_run (watch O') sid x v)"
  by (simp add: grows_def)

lemma drain_grows:
  assumes "\<And>c. grows (sync c)"
  shows "grows (drain_pages sync k c ups dels)"
proof -
  have "suffix (snd t) (snd (snd (drain_pages sync k c ups dels t)))" for t
    using assms
  proof (induction sync k c ups dels t rule: drain_pages.induct)
    case (1 sync k c ups dels t)
    obtain r1 t1 where m: "sync c t = (r1, t1)" by (cases "sync c t")
    note one = growsD[OF 1(2) m]
    show ?case
    proof (cases r1)
      case (Inl e)
      then show ?thesis using m one by (simp add: drain_pages.simps[of _ k])
    next
      case (Inr b)
      show ?thesis
      proof (cases "next_sync_page (sb_has_more b) c (sb_next_cursor b) (Suc k) MAX_SYNC_PAGES")
        case None
        then show ?thesis using m one Inr by (simp add: drain_pages.simps[of _ k])
      next
        case (Some d)
        show ?thesis using suffix_order.trans[OF one 1(1)[OF m[symmetric] Inr Some 1(2)]] m Inr Some
          by (simp add: drain_pages.simps[of _ k])
      qed
    qed
  qed
  then show ?thesis unfolding grows_def by (metis snd_conv)
qed

lemma loops_grow:
  "(\<And>u. grows (d u)) \<Longrightarrow> grows (reconcile_deletions d us st n)"
  "(\<And>u. grows (d u)) \<Longrightarrow> grows (delete_absent d live us n)"
  "grows (run_new (watch O') rm sid xs l st2 allc rep)"
  subgoal by (induction us arbitrary: st n) (simp_all add: loop_nil deletions_bind grows_bind del: reconcile_deletions.simps)
  subgoal by (induction us arbitrary: n) (simp_all add: loop_nil absent_bind grows_bind del: delete_absent.simps)
  subgoal by (induction xs arbitrary: l st2 allc rep) (simp_all add: loop_nil run_new_bind grows_bind del: run_new.simps)
  done

lemma source_grows: "grows (collect_source (watch O') flt window now rm l rep)"
  unfolding collect_source_def Let_def drain_all_def reconcile_snapshot_def
  by (intro grows_bind grows_case_prod drain_grows loops_grow) (auto intro!: grows_bind loops_grow)

lemma sources_grow: "grows (collect_sources (watch O') flt window now rms l rep)"
  by (induction rms arbitrary: l rep) (auto intro!: grows_bind grows_case_prod source_grows)

definition fine :: "(string option \<Rightarrow> nat) \<Rightarrow> collect_event list \<Rightarrow> bool" where
  "fine pos lg \<longleftrightarrow> complete pos lg \<and> SaveFailed \<notin> set lg"

lemma fine_suffix: "suffix lg lg' \<Longrightarrow> fine pos lg' \<Longrightarrow> fine pos lg"
  unfolding fine_def suffix_def using complete_suffix by fastforce

context ledger_poll
begin

lemma sources_log:
  assumes "collect_sources (watch O') flt window now rms l rep s = (r, s')" "log_source O' feed pos"
    and "Began now \<in> set (snd s)" "ledger_ok O' flt window feed pos (snd s) l"
    and "ledger_ok O' flt window feed pos (snd s) (held (fst s))" "fine pos (snd s')"
  shows "ledger_ok O' flt window feed pos (snd s') (held (fst s'))"
  using assms
proof (induction rms arbitrary: l rep s)
  case (Cons rm rms)
  from Cons.prems(1)[unfolded collect_sources.simps] show ?case
  proof (cases rule: bindM_E)
    case (bad e)
    then show ?thesis using source_log[OF bad(1) Cons.prems(2-5)] Cons.prems(6) by (simp add: fine_def)
  next
    case (good q s1)
    obtain l1 rep1 where q: "q = (l1, rep1)" by (cases q)
    have rest: "collect_sources (watch O') flt window now rms l1 rep1 s1 = (r, s')" using good(2) q by simp
    have f: "fine pos (snd s1)" by (rule fine_suffix[OF growsD[OF sources_grow rest] Cons.prems(6)])
    note S = source_log[OF good(1) Cons.prems(2-5)]
    have ok: "ledger_ok O' flt window feed pos (snd s1) l1" "ledger_ok O' flt window feed pos (snd s1) (held (fst s1))"
      using S f q by (auto simp: fine_def)
    have "Began now \<in> set (snd s1)" using growsD[OF source_grows good(1)] Cons.prems(3) by (auto simp: suffix_def)
    from Cons.IH[OF rest Cons.prems(2) this ok Cons.prems(6)] show ?thesis .
  qed
qed simp

lemma reach_log:
  assumes "collect_reach O' held flt window s" "log_source O' feed pos" "pos None = 0" "fine pos (snd s)"
  shows "ledger_ok O' flt window feed pos (snd s) (held (fst s))"
  using assms(1,4)
proof (induction rule: collect_reach.induct)
  case (unpolled w)
  then show ?case using assms(3) by (simp add: ledger_ok_def source_of_def fresh_source_def)
next
  case (polled w lg now rms rep r s')
  let ?s = "(w, Began now # lg)"
  have "fine pos (snd ?s)" by (rule fine_suffix[OF growsD[OF sources_grow polled(2)] polled(4)])
  then have "fine pos lg" by (simp add: fine_def)
  then have ok: "ledger_ok O' flt window feed pos ([Began now] @ lg) (held w)"
    using polled(3) by (intro ledger_ok_quiet) (simp_all add: quiet_def)
  show ?case by (rule sources_log[OF polled(2) assms(2) _ _ _ polled(4)]) (use ok in simp_all)
next
  case (elsewhere w lg w')
  then show ?case by simp
qed

end

section \<open>The email and the calendar poll\<close>

text \<open>The ledger of a connection, which only \<open>update_cursor\<close> writes.\<close>

definition held_at :: "nat \<Rightarrow> nat \<Rightarrow> 'x collect_world \<Rightarrow> ledger" where
  "held_at ws cid w = ledger_decode (Option.bind (List.find (the_conn ws cid) (cw_conns w)) cn_sync_token)"

lemma on_inner_conns: "on_inner h m w = (r, w') \<Longrightarrow> cw_conns w' = cw_conns w"
  by (auto simp: on_inner_def split: prod.splits)

lemma on_outside_conns: "on_outside h m w = (r, w') \<Longrightarrow> cw_conns w' = cw_conns w"
  unfolding on_outside_def by (rule on_inner_conns)

lemma on_tables_conns: "on_tables m w = (r, w') \<Longrightarrow> cw_conns w' = cw_conns w"
  by (auto simp: on_tables_def split: prod.splits)

lemma committed_for_conns: "store_err (committed_for K ws a r commit) w = (v, w') \<Longrightarrow> cw_conns w' = cw_conns w"
  by (auto simp: store_err_def committed_for_def bindM_def dest: on_tables_conns split: option.splits if_splits prod.splits sum.splits)

lemma run_item_conns: "run_item E L K ws a trig commit w = (v, w') \<Longrightarrow> cw_conns w' = cw_conns w"
  unfolding run_item_def by (erule bindM_E) (metis on_inner_conns, metis on_inner_conns committed_for_conns)

lemma held_at_conns: "cw_conns w' = cw_conns w \<Longrightarrow> held_at ws cid w' = held_at ws cid w"
  by (simp add: held_at_def)

lemma held_at_outside: "on_outside h m w = (r, w') \<Longrightarrow> held_at ws cid w' = held_at ws cid w"
  by (rule held_at_conns) (rule on_outside_conns)

lemma held_at_run: "run_item E L K ws' a trig commit w = (v, w') \<Longrightarrow> held_at ws cid w' = held_at ws cid w"
  by (rule held_at_conns) (rule run_item_conns)

lemma find_map_conn:
  "list_ex (the_conn ws cid) cs \<Longrightarrow>
     Option.bind (List.find (the_conn ws cid) (map (\<lambda>c. if the_conn ws cid c then c\<lparr>cn_sync_token := t\<rparr> else c) cs)) cn_sync_token = t"
  by (induction cs) (auto simp: the_conn_def)

lemma save_ledger_held:
  "save_ledger ws cid l w = (Inr u, w') \<Longrightarrow> held_at ws cid w' = l"
  "save_ledger ws cid l w = (Inl e, w') \<Longrightarrow> held_at ws cid w' = held_at ws cid w"
  by (auto simp: save_ledger_def update_cursor_def held_at_def find_map_conn ledger_decode_def split: if_splits)

interpretation email: ledger_poll "email_ops E L K M ws cid a connection commit P" "held_at ws cid"
  for E L K M ws cid a connection commit P
  by unfold_locales
    (auto simp: email_ops_def intro: held_at_conns dest: save_ledger_held held_at_outside held_at_run)

interpretation calendar: ledger_poll "calendar_ops E L K C ws cid a connection commit P" "held_at ws cid"
  for E L K C ws cid a connection commit P
  by unfold_locales
    (auto simp: calendar_ops_def dest: save_ledger_held held_at_outside held_at_run)

lemma outside_reads_log:
  "reads_log feed pos sync \<Longrightarrow> reads_log feed pos (\<lambda>rm c. on_outside h (sync rm c))"
  unfolding reads_log_def
  by (auto simp: on_outside_def on_inner_def beside_def with_err_def split: prod.splits sum.splits)

section \<open>The property\<close>

text \<open>A mailbox of one message, and a fire-and-forget automation that cannot be planned: its runs are
  recorded, and fail.\<close>

definition hello :: "string \<Rightarrow> nat \<Rightarrow> email" where
  "hello ext i = \<lparr>em_mailbox = 0, em_uid = replicate (Suc i) CHR ''u'', em_from = None, em_subject = ''hello'',
     em_received_at = None, em_body_text = None, em_raw = None, em_rest = JNull\<rparr>"

definition by_length :: "string option \<Rightarrow> nat" where
  "by_length c = (case c of None \<Rightarrow> 0 | Some c \<Rightarrow> length c)"

definition one_message :: "(unit, email) provider" where
  "one_message = \<lparr>pv_incremental = True, pv_list = ret [],
     pv_sync = (\<lambda>_ _ c. ret \<lparr>sb_upserts = map (hello []) [by_length c ..< max 1 (by_length c)], sb_deletions = [],
       sb_next_cursor = (case c of Some (x # xs) \<Rightarrow> x # xs | _ \<Rightarrow> ''u''), sb_has_more = False\<rparr>)\<rparr>"

definition bare_codec :: codec where
  "bare_codec = \<lparr>dec_trigger = (\<lambda>_. Inl []), dec_action = (\<lambda>_. Inl []), dec_graph = (\<lambda>_. Inl []),
     dec_event = (\<lambda>_. None), enc_trigger = (\<lambda>_. JNull), enc_action = (\<lambda>_. JNull)\<rparr>"

definition collector :: automation where
  "collector = \<lparr>aut_id = 7, aut_workspace = 1, aut_name = ''collector'', enabled = True, triggers = [],
     aut_condition = None, actions = [], aut_spec = None, aut_grant = None\<rparr>"

definition bare_env :: "(unit, email) collect_env" where
  "bare_env = \<lparr>cx_runners = \<lparr>act_on = (\<lambda>_ _ _ _ x. (\<lparr>oc_status = Skipped, oc_output = None, oc_error = None\<rparr>, x)),
     code_on = (\<lambda>_ _ _ _ _ x. (Inl [], x)), now_on = (\<lambda>_. 0)\<rparr>, cx_uuid = (\<lambda>_. None), cx_show_exec = (\<lambda>_. []),
     cx_automation = (\<lambda>_ _. ret collector), cx_provider = (\<lambda>_. ret one_message), cx_upsert = (\<lambda>_ _ _. ret 4),
     cx_encode = (\<lambda>_. JNull), cx_now = (\<lambda>_. 0)\<rparr>"

definition no_mail :: "unit mail_store" where
  "no_mail = \<lparr>ms_get_by_uid = (\<lambda>_ _ _. fail StoreNotFound), ms_delete_by_uid = (\<lambda>_ _ _. ret None),
     ms_list_uids = (\<lambda>_ _. ret []), ms_enqueue_ingest = (\<lambda>_ _ x. x), ms_cleanup = (\<lambda>_ _ x. x),
     ms_archive = (\<lambda>_ _ _ _ x. x)\<rparr>"

definition bare_world :: "unit collect_world" where
  "bare_world = \<lparr>cw_conns = [\<lparr>cn_id = 3, cn_workspace = 1, cn_config = JNull, cn_sync_token = None\<rparr>],
     cw_inner = \<lparr>tables = \<lparr>j_automations = [(7, 1)], j_runs = [], j_steps = [], j_grants = [], j_next = 20\<rparr>, outside = ()\<rparr>\<rparr>"

definition bare_ops :: "(unit collect_world, email) poll_ops" where
  "bare_ops = email_ops bare_env hourly bare_codec no_mail 1 3 collector ''3'' None one_message"

definition bare_polled :: "unit collect_world \<times> collect_event list" where
  "bare_polled = snd (collect_sources (watch bare_ops) None None 0 [\<lparr>rm_external_id = ''in'', rm_name = ''in'', rm_read_only = False\<rparr>]
     (held_at 1 3 bare_world) no_report (bare_world, [Began 0]))"

lemmas poll_eval = bare_polled_def bare_ops_def watch_def email_ops_def on_fst_def noting_def on_outside_def on_inner_def
  beside_def with_err_def bare_env_def one_message_def no_mail_def collector_def bare_codec_def bare_world_def
  collect_source_def drain_all_def drain_pages.simps next_sync_page_def held_at_def the_conn_def ledger_decode_def source_of_def
  fresh_source_def by_length_def hello_def backfill_cutoff_def parse_window_minutes_def instant_before_def minute_ns_def
  MIN_UTC_def passes_cutoff_def email_filter_matches_def sort_items_def key_second_def FIRST_POLL_CAP_def
  STEADY_POLL_CAP_def run_item_def execute_for_job_def open_run_def pg_ports_def backend_def repo_start_run_def
  plan_of_def graph_from_spec_def parse_spec_def from_json_def guardE_def finish_with_def repo_finish_run_def row_or_def
  store_err_def committed_for_def save_ledger_def update_cursor_def advance_source_def bindM_def Let_def
  no_report_def

lemma bare_polled_events:
  "snd bare_polled = [Ran ''in'' ''u'' (Some True), Page ''in'' ''u'' False, Began 0]"
  by (simp add: poll_eval)

lemma bare_polled_cursor: "ss_cursor (source_of (held_at 1 3 (fst bare_polled)) ''in'') = Some ''u''"
  by (simp add: poll_eval)

lemma bare_polled_reach: "collect_reach bare_ops (held_at 1 3) None None bare_polled"
proof -
  obtain r s where p: "collect_sources (watch bare_ops) None None 0 [\<lparr>rm_external_id = ''in'', rm_name = ''in'', rm_read_only = False\<rparr>]
     (held_at 1 3 bare_world) no_report (bare_world, [Began 0]) = (r, s)" by (metis surj_pair)
  have "held_at 1 3 bare_world = (\<lambda>_. None)"
    by (simp add: held_at_def bare_world_def the_conn_def ledger_decode_def)
  then have "collect_reach bare_ops (held_at 1 3) None None (bare_world, [])" by (rule unpolled)
  from polled[OF this p] show ?thesis using p by (simp add: bare_polled_def)
qed

text \<open>C13: Whatever a provider's mailbox holds behind the cursor on record, when its provider reads it
  as an append-only log, has been settled: the automation's filter excludes it, it was too old for a
  poll, or a run committed it; and no message is committed by two runs. So whenever a poll fails or
  stops, and however often it is repeated, it neither loses a message nor handles one twice, as long
  as the ledger's writes succeed.\<close>

theorem collect_settles:
  assumes "collect_reach (email_ops E L K M ws cid a connection commit P) (held_at ws cid) flt window (w, lg)"
    and "pv_incremental P" "\<And>sid. reads_log feed pos (pv_sync P sid)" "pos None = 0" "fine pos lg"
    and "\<And>ext i j. em_uid (feed ext i) = em_uid (feed ext j) \<Longrightarrow> i = j"
  shows "(\<forall>i<pos (ss_cursor (source_of (held_at ws cid w) ext)).
      settled (email_ops E L K M ws cid a connection commit P) flt window lg ext (feed ext i)) \<and>
    count_list lg (Ran ext u (Some True)) \<le> 1"
proof -
  have "log_source (email_ops E L K M ws cid a connection commit P) feed pos"
    using assms(2,6) outside_reads_log[OF assms(3)] by (simp add: log_source_def email_ops_def one_uid_def)
  note ok = email.reach_log[OF assms(1) this assms(4), unfolded fst_conv snd_conv, OF assms(5)]
  show ?thesis using ledger_okD(1,4)[OF ok] by blast
qed

theorem collect_settles_witness:
  "settled bare_ops None None (snd bare_polled) ''in'' (hello ''in'' 0) \<and>
    count_list (snd bare_polled) (Ran ''in'' ''u'' (Some True)) = 1"
proof -
  have "reads_log hello by_length (pv_sync one_message sid)" for sid
    by (auto simp: reads_log_def one_message_def by_length_def hello_def max_def upt_rec split: option.splits list.splits)
  moreover have "by_length None = 0" "pv_incremental one_message" by (simp_all add: by_length_def one_message_def)
  moreover have "fine by_length (snd bare_polled)" unfolding bare_polled_events by (simp add: fine_def)
  moreover have "em_uid (hello ext i) = em_uid (hello ext j) \<Longrightarrow> i = j" for ext i j
    using arg_cong[of "em_uid (hello ext i)" "em_uid (hello ext j)" length] by (simp add: hello_def)
  ultimately have "(\<forall>i<by_length (ss_cursor (source_of (held_at 1 3 (fst bare_polled)) ''in'')).
      settled bare_ops None None (snd bare_polled) ''in'' (hello ''in'' i)) \<and>
    count_list (snd bare_polled) (Ran ''in'' ''u'' (Some True)) \<le> 1"
    using collect_settles[of bare_env hourly bare_codec no_mail 1 3 collector "''3''" None one_message None None
        "fst bare_polled" "snd bare_polled" hello by_length "''in''" "''u''"] bare_polled_reach
    unfolding bare_ops_def[symmetric] prod.collapse by blast
  then show ?thesis unfolding bare_polled_cursor bare_polled_events by (simp add: by_length_def)
qed

section \<open>Authority\<close>

text \<open>C39: A poll for an automation whose grant is gone, or does not cover reading the connection it
  collects from, is forbidden before anything is read or written: no message is fetched, no run
  recorded and no cursor moved.\<close>

theorem collect_within_grant:
  assumes "dec_trigger K trig = Inr (CollectEmail connection mailbox flt commit window since)"
    and "parse_connection E connection = Inr cid"
    and "cx_automation E ws aid (outside (cw_inner w)) = (Inr a, outside (cw_inner w))"
    and "enabled a" "aut_grant a = Some gid"
    and "\<And>g. g \<in> set (j_grants (tables (cw_inner w))) \<Longrightarrow> grant_id g = gid \<Longrightarrow> grant_workspace g = ws \<Longrightarrow>
      \<not> allows g (capability_new Read (resource_new ''email'' (trim connection)))"
  shows "\<exists>m. run_collect_email_with E L K M ws aid trig w = (Inl (Forbidden m), w)"
proof -
  have load: "load_enabled E ws aid w = (Inr (Some a), w)"
    using assms(3,4) by (simp add: load_enabled_def on_outside_def on_inner_def beside_def with_err_def)
  have "\<exists>m. authorize_collect ws a ''email'' connection w = (Inl (Forbidden m), w)"
    using assms(5,6)
    by (auto simp: authorize_collect_def on_tables_def repo_get_grant_def row_or_def find_Some_iff
        split: option.splits dest: nth_mem)
  then show ?thesis using assms(1,2) load by (auto simp: run_collect_email_with_def)
qed

definition email_codec :: codec where
  "email_codec = bare_codec\<lparr>dec_trigger := (\<lambda>_. Inr (CollectEmail ''3'' None None None None None))\<rparr>"

definition granted_env :: "(unit, email) collect_env" where
  "granted_env = bare_env\<lparr>cx_uuid := (\<lambda>_. Some 3), cx_automation := (\<lambda>_ _. ret (collector\<lparr>aut_grant := Some 5\<rparr>))\<rparr>"

theorem collect_within_grant_witness:
  "\<exists>m. run_collect_email_with granted_env hourly email_codec no_mail 1 7 JNull bare_world = (Inl (Forbidden m), bare_world)"
  by (rule collect_within_grant[where connection = "''3''" and cid = 3 and a = "collector\<lparr>aut_grant := Some 5\<rparr>" and gid = 5])
    (simp_all add: email_codec_def granted_env_def parse_connection_def bare_world_def, simp_all add: collector_def)

section \<open>The window\<close>

lemma window_bounds_every_poll:
  "parse_window_minutes window = Some m \<Longrightarrow> backfill_cutoff window True now = backfill_cutoff window False now"
  by (simp add: backfill_cutoff_def)

lemma huge_window_panics:
  "backfill_cutoff (Some (JObj [(''days'', JNum (PosInt 200000000))])) False 0 = Inl IngestPanic"
  by (simp add: backfill_cutoff_def parse_window_minutes_def checked_mul_def instant_before_def minute_ns_def MIN_UTC_def)

end
