(* ===== verification/Md_Text.thy ===== *)
theory Md_Text
  imports Prelude "HOL-Library.Word"
begin

text \<open>
  The text layer of the Markdown engine (\<open>catalerum-markdown/src/scan.rs\<close>, \<open>escape.rs\<close>): the byte
  sets with their scalar and vectorised scans, HTML escaping, the URL policy, and the character
  classes of Rust's library the parser uses. A text is a list of characters below code point 256;
  the code's byte offsets fall on ASCII characters, so a suffix of the list stands for the text from
  an offset on.
\<close>

unbundle bit_operations_syntax

section \<open>Character classes\<close>

definition is_ascii_alphabetic :: "char \<Rightarrow> bool" where
  "is_ascii_alphabetic c \<longleftrightarrow> is_ascii_uppercase c \<or> is_ascii_lowercase c"

definition is_ascii_punctuation :: "char \<Rightarrow> bool" where
  "is_ascii_punctuation c \<longleftrightarrow> (33 \<le> code c \<and> code c \<le> 47) \<or> (58 \<le> code c \<and> code c \<le> 64)
     \<or> (91 \<le> code c \<and> code c \<le> 96) \<or> (123 \<le> code c \<and> code c \<le> 126)"

text \<open>\<open>u8::is_ascii_whitespace\<close> leaves the vertical tab out.\<close>

definition is_ascii_whitespace :: "char \<Rightarrow> bool" where
  "is_ascii_whitespace c \<longleftrightarrow> code c \<in> {9, 10, 12, 13, 32}"

definition is_control :: "char \<Rightarrow> bool" where
  "is_control c \<longleftrightarrow> code c \<le> 31 \<or> (127 \<le> code c \<and> code c \<le> 159)"

text \<open>\<open>char::is_alphanumeric\<close>: the letters and numbers below 256.\<close>

definition is_alphanumeric :: "char \<Rightarrow> bool" where
  "is_alphanumeric c \<longleftrightarrow> is_ascii_alphanumeric c
     \<or> code c \<in> {170, 178, 179, 181, 185, 186, 188, 189, 190}
     \<or> (192 \<le> code c \<and> code c \<noteq> 215 \<and> code c \<noteq> 247)"

section \<open>String operations\<close>

definition trim_start :: "string \<Rightarrow> string" where
  "trim_start s = dropWhile is_whitespace s"

definition trim_end :: "string \<Rightarrow> string" where
  "trim_end s = trim_end_by is_whitespace s"

definition trim_matches :: "(char \<Rightarrow> bool) \<Rightarrow> string \<Rightarrow> string" where
  "trim_matches f s = trim_end_by f (dropWhile f s)"

definition strip_prefix :: "string \<Rightarrow> string \<Rightarrow> string option" where
  "strip_prefix p s = (if starts_with p s then Some (drop (length p) s) else None)"

definition strip_suffix :: "string \<Rightarrow> string \<Rightarrow> string option" where
  "strip_suffix p s = (if starts_with (rev p) (rev s) then Some (take (length s - length p) s) else None)"

definition ends_with :: "string \<Rightarrow> string \<Rightarrow> bool" where
  "ends_with p s \<longleftrightarrow> starts_with (rev p) (rev s)"

text \<open>\<open>str::find\<close> of a character: the text before and after its first occurrence.\<close>

definition split_first :: "char \<Rightarrow> string \<Rightarrow> (string \<times> string) option" where
  "split_first c s =
     (case dropWhile (\<lambda>x. x \<noteq> c) s of [] \<Rightarrow> None | _ # after \<Rightarrow> Some (takeWhile (\<lambda>x. x \<noteq> c) s, after))"

text \<open>\<open>split_whitespace\<close>, its first word.\<close>

definition first_word :: "string \<Rightarrow> string" where
  "first_word s = takeWhile (\<lambda>c. \<not> is_whitespace c) (trim_start s)"

section \<open>Byte sets\<close>

record byte_set =
  bs_table :: "nat \<Rightarrow> bool"
  bs_lo_lut :: "8 word list"
  bs_ascii_only :: bool

definition bs_add :: "char \<Rightarrow> byte_set \<Rightarrow> byte_set" where
  "bs_add c S =
     (let S = S\<lparr>bs_table := (bs_table S)(code c := True)\<rparr> in
      if code c < 128
      then S\<lparr>bs_lo_lut := (bs_lo_lut S)[code c mod 16 := bs_lo_lut S ! (code c mod 16) OR push_bit (code c div 16) 1]\<rparr>
      else S\<lparr>bs_ascii_only := False\<rparr>)"

definition byte_set_new :: "string \<Rightarrow> byte_set" where
  "byte_set_new bytes =
     fold bs_add bytes \<lparr>bs_table = (\<lambda>_. False), bs_lo_lut = replicate 16 0, bs_ascii_only = True\<rparr>"

definition bs_contains :: "byte_set \<Rightarrow> char \<Rightarrow> bool" where
  "bs_contains S c = bs_table S (code c)"

text \<open>\<open>position\<close>: the offset of the first hit.\<close>

fun position :: "(char \<Rightarrow> bool) \<Rightarrow> string \<Rightarrow> nat option" where
  "position f [] = None"
| "position f (c # cs) = (if f c then Some 0 else map_option Suc (position f cs))"

definition find_scalar :: "byte_set \<Rightarrow> string \<Rightarrow> nat option" where
  "find_scalar S hay = position (bs_contains S) hay"

text \<open>One lane of a vector: two table lookups and an AND. \<open>shuffle\<close> reads a table of sixteen at a
  nibble.\<close>

definition BIT_LUT :: "8 word list" where
  "BIT_LUT = [1, 2, 4, 8, 16, 32, 64, 128, 0, 0, 0, 0, 0, 0, 0, 0]"

definition lane_special :: "byte_set \<Rightarrow> char \<Rightarrow> bool" where
  "lane_special S c =
     (let m = bs_lo_lut S ! (code c mod 16); hi_bit = BIT_LUT ! (code c div 16)
      in (m AND hi_bit) = hi_bit \<and> hi_bit \<noteq> 0)"

text \<open>\<open>movemask\<close> and \<open>trailing_zeros\<close>: the first special lane of a chunk. The wide loop takes whole
  chunks and hands the tail on.\<close>

function find_wide :: "nat \<Rightarrow> (string \<Rightarrow> nat option) \<Rightarrow> byte_set \<Rightarrow> string \<Rightarrow> nat option" where
  "find_wide w tail S hay =
     (if w = 0 \<or> length hay < w then tail hay
      else case position (lane_special S) (take w hay) of
             Some j \<Rightarrow> Some j
           | None \<Rightarrow> map_option ((+) w) (find_wide w tail S (drop w hay)))"
  by pat_completeness auto
termination
  by (relation "measure (\<lambda>(w, _, _, hay). length hay)") auto

declare find_wide.simps [simp del]

definition find_ssse3 :: "byte_set \<Rightarrow> string \<Rightarrow> nat option" where
  "find_ssse3 S = find_wide 16 (find_scalar S) S"

definition find_avx2 :: "byte_set \<Rightarrow> string \<Rightarrow> nat option" where
  "find_avx2 S = find_wide 32 (find_ssse3 S) S"

datatype cpu = Avx2 | Ssse3 | Scalar

definition bs_find :: "cpu \<Rightarrow> byte_set \<Rightarrow> string \<Rightarrow> nat option" where
  "bs_find p S hay =
     (if \<not> bs_ascii_only S then find_scalar S hay
      else case p of Avx2 \<Rightarrow> find_avx2 S hay | Ssse3 \<Rightarrow> find_ssse3 S hay | Scalar \<Rightarrow> find_scalar S hay)"

section \<open>Escaping\<close>

definition TEXT_SPECIAL :: byte_set where "TEXT_SPECIAL = byte_set_new ''&<>''"
definition ATTR_SPECIAL :: byte_set where "ATTR_SPECIAL = byte_set_new ''&<>\"''"

definition entity :: "char \<Rightarrow> string" where
  "entity c =
     (if c = CHR ''&'' then ''&amp;'' else if c = CHR ''<'' then ''&lt;''
      else if c = CHR ''>'' then ''&gt;'' else ''&quot;'')"

text \<open>Clean runs are copied, a hit becomes its entity. The scan is the scalar one; the vector scans
  answer the same, as shown below.\<close>

function escape_with :: "byte_set \<Rightarrow> string \<Rightarrow> string" where
  "escape_with S s =
     (case find_scalar S s of
        Some k \<Rightarrow> if k < length s then take k s @ entity (s ! k) @ escape_with S (drop (Suc k) s) else s
      | None \<Rightarrow> s)"
  by pat_completeness auto
termination
  by (relation "measure (\<lambda>(_, s). length s)") auto

declare escape_with.simps [simp del]

definition escape_text :: "string \<Rightarrow> string" where
  "escape_text s = escape_with TEXT_SPECIAL s"

definition escape_attr :: "string \<Rightarrow> string" where
  "escape_attr s = escape_with ATTR_SPECIAL s"

section \<open>The URL policy\<close>

definition SCHEMES :: "string list" where
  "SCHEMES = [''http'', ''https'', ''mailto'', ''tel'']"

definition is_safe_url :: "string \<Rightarrow> bool" where
  "is_safe_url url =
     (let trimmed = trim_matches (\<lambda>c. is_whitespace c \<or> is_control c) url in
      if starts_with ''/'' trimmed \<or> starts_with ''#'' trimmed then True
      else case split_first (CHR '':'') trimmed of
             None \<Rightarrow> True
           | Some (scheme, _) \<Rightarrow>
               if CHR ''/'' \<in> set scheme \<or> CHR ''?'' \<in> set scheme \<or> CHR ''#'' \<in> set scheme then True
               else map to_ascii_lowercase scheme \<in> set SCHEMES)"

section \<open>The scans agree\<close>

lemma position_cong: "(\<And>c. c \<in> set s \<Longrightarrow> f c = g c) \<Longrightarrow> position f s = position g s"
  by (induction s) auto

lemma position_append:
  "position f (s @ t) = (case position f s of Some k \<Rightarrow> Some k | None \<Rightarrow> map_option ((+) (length s)) (position f t))"
  by (induction s; cases "position f t") (auto split: option.splits)

lemma position_Some:
  "position f s = Some k \<longleftrightarrow> k < length s \<and> f (s ! k) \<and> (\<forall>j<k. \<not> f (s ! j))"
proof (induction s arbitrary: k)
  case (Cons c s)
  then show ?case by (cases k) (auto simp: nth_Cons' less_Suc_eq_0_disj)
qed simp

lemma position_None: "position f s = None \<longleftrightarrow> (\<forall>c\<in>set s. \<not> f c)"
  by (induction s) auto

text \<open>A vector scan whose lanes decide membership is the scalar scan.\<close>

lemma find_wide_position:
  assumes "lane_special S = f" "tail = position f"
  shows "find_wide w tail S hay = position f hay"
  using assms
proof (induction w tail S hay rule: find_wide.induct)
  case (1 w tail S hay)
  show ?case
  proof (cases "w = 0 \<or> length hay < w")
    case True
    then show ?thesis using 1(3) by (simp add: find_wide.simps[of w])
  next
    case False
    then have w: "length (take w hay) = w" by simp
    have split: "position f hay = (case position f (take w hay) of Some k \<Rightarrow> Some k
        | None \<Rightarrow> map_option ((+) w) (position f (drop w hay)))"
      using position_append[of f "take w hay" "drop w hay"] unfolding append_take_drop_id w .
    show ?thesis
    proof (cases "position f (take w hay)")
      case None
      then have "find_wide w tail S (drop w hay) = position f (drop w hay)" using 1 False by simp
      then show ?thesis using False None 1(2) by (simp add: find_wide.simps[of w _ _ hay] split)
    next
      case (Some k)
      then show ?thesis using False 1(2) by (simp add: find_wide.simps[of w _ _ hay] split)
    qed
  qed
qed

definition ascii :: "string \<Rightarrow> bool" where
  "ascii s \<longleftrightarrow> (\<forall>c\<in>set s. code c < 128)"

text \<open>The low-nibble table holds the set.\<close>

lemma nibbles: "k < 16 \<Longrightarrow> 16 * h + k = (n :: nat) \<longleftrightarrow> h = n div 16 \<and> k = n mod 16"
  by auto

lemma code_less: "code c < 256"
  by simp

definition lut_of :: "string \<Rightarrow> byte_set \<Rightarrow> bool" where
  "lut_of bytes S \<longleftrightarrow> bs_table S = (\<lambda>n. n \<in> code ` set bytes) \<and> length (bs_lo_lut S) = 16 \<and>
     bs_ascii_only S = ascii bytes \<and>
     (\<forall>k<16. \<forall>h<8. bit (bs_lo_lut S ! k) h \<longleftrightarrow> 16 * h + k \<in> code ` set bytes)"

lemma lut_of_add:
  assumes "lut_of bytes S"
  shows "lut_of (c # bytes) (bs_add c S)"
proof -
  have table: "(\<lambda>n. n \<in> code ` set bytes)(code c := True) = (\<lambda>n. n \<in> code ` set (c # bytes))" by (rule ext) auto
  show ?thesis
  proof (cases "code c < 128")
    case True
    have "bit (bs_lo_lut (bs_add c S) ! k) h \<longleftrightarrow> 16 * h + k \<in> code ` set (c # bytes)" if "k < 16" "h < 8" for k h
      using assms that True nibbles[OF that(1), of h "code c"]
      by (auto simp: lut_of_def bs_add_def Let_def nth_list_update bit_or_iff push_bit_of_1 bit_exp_iff possible_bit_word)
    then show ?thesis using assms True table by (simp add: lut_of_def bs_add_def Let_def ascii_def)
  next
    case False
    have "16 * h + k \<noteq> code c" if "k < 16" "h < 8" for h k :: nat using that False by simp
    then show ?thesis using assms False table by (simp add: lut_of_def bs_add_def Let_def ascii_def)
  qed
qed

lemma lut_of_fold: "lut_of bytes S \<Longrightarrow> lut_of (rev cs @ bytes) (fold bs_add cs S)"
proof (induction cs arbitrary: bytes S)
  case (Cons c cs)
  from Cons.IH[OF lut_of_add[OF Cons.prems]] show ?case by simp
qed simp

lemma lut_of_new: "lut_of (rev bytes) (byte_set_new bytes)"
  unfolding byte_set_new_def
  by (rule lut_of_fold[where bytes = "[]", simplified]) (simp add: lut_of_def ascii_def)

lemma bs_contains_new [simp]: "bs_contains (byte_set_new bytes) c \<longleftrightarrow> c \<in> set bytes"
  using lut_of_new[of bytes] by (auto simp: lut_of_def bs_contains_def)

lemma find_scalar_new: "find_scalar (byte_set_new bytes) hay = position (\<lambda>c. c \<in> set bytes) hay"
  unfolding find_scalar_def by (rule position_cong) simp

lemma BIT_LUT_nth: "h < 16 \<Longrightarrow> BIT_LUT ! h = push_bit h 1"
  by (simp add: BIT_LUT_def less_Suc_eq numeral_eq_Suc) (elim disjE; simp)

lemma lane_special_new:
  assumes "ascii bytes"
  shows "lane_special (byte_set_new bytes) c \<longleftrightarrow> c \<in> set bytes"
proof -
  let ?k = "code c mod 16" and ?h = "code c div 16" and ?S = "byte_set_new bytes"
  have h: "?h < 16" using code_less[of c] by (simp add: div_less_iff_less_mult)
  have hit: "(m AND push_bit ?h 1) = push_bit ?h 1 \<longleftrightarrow> bit m ?h" if "?h < 8" for m :: "8 word"
    using that by (auto simp: bit_eq_iff[where 'a = "8 word"] bit_and_iff push_bit_of_1 bit_exp_iff possible_bit_word)
  have "c \<in> set bytes \<longleftrightarrow> 16 * ?h + ?k \<in> code ` set (rev bytes)" by auto
  moreover have "\<not> ?h < 8 \<Longrightarrow> c \<notin> set bytes" using assms by (auto simp: ascii_def)
  moreover have "push_bit ?h (1 :: 8 word) \<noteq> 0 \<longleftrightarrow> ?h < 8"
    by (auto simp: bit_eq_iff[where 'a = "8 word"] push_bit_of_1 bit_exp_iff possible_bit_word)
  ultimately show ?thesis
    using lut_of_new[of bytes] hit h by (auto simp: lane_special_def Let_def BIT_LUT_nth lut_of_def)
qed

text \<open>C40: Every back-end of the byte scan (two 32- and 16-byte vector loops with their scalar tails, or
  the scalar loop) answers the offset of the first byte of the set, for every set, ASCII or not, and
  every text: the vector scans' two table lookups decide membership exactly.\<close>

theorem scans_agree: "bs_find p (byte_set_new bytes) hay = position (\<lambda>c. c \<in> set bytes) hay"
proof (cases "ascii bytes")
  case True
  let ?f = "\<lambda>c. c \<in> set bytes"
  have lane: "lane_special (byte_set_new bytes) = ?f" using lane_special_new[OF True] by auto
  have scalar: "find_scalar (byte_set_new bytes) = position ?f" by (rule ext) (rule find_scalar_new)
  have s: "find_ssse3 (byte_set_new bytes) = position ?f"
    by (rule ext) (simp add: find_ssse3_def find_wide_position[OF lane scalar])
  have "find_avx2 (byte_set_new bytes) hay = position ?f hay"
    unfolding find_avx2_def by (rule find_wide_position[OF lane s])
  then show ?thesis using s by (simp add: bs_find_def find_scalar_new split: cpu.split)
next
  case False
  then show ?thesis using lut_of_new[of bytes] by (simp add: bs_find_def find_scalar_new lut_of_def ascii_def)
qed

section \<open>Escaping, character by character\<close>

definition escaped :: "string \<Rightarrow> char \<Rightarrow> string" where
  "escaped bytes c = (if c \<in> set bytes then entity c else [c])"

lemma escaped_clean: "\<forall>c\<in>set s. c \<notin> set bytes \<Longrightarrow> concat (map (escaped bytes) s) = s"
  by (induction s) (auto simp: escaped_def)

lemma escape_with_map: "escape_with (byte_set_new bytes) s = concat (map (escaped bytes) s)"
proof (induction "length s" arbitrary: s rule: less_induct)
  case less
  show ?case
  proof (cases "position (\<lambda>c. c \<in> set bytes) s")
    case None
    have "\<forall>c\<in>set s. c \<notin> set bytes" using None by (simp add: position_None)
    then show ?thesis using escaped_clean by (subst escape_with.simps) (simp add: find_scalar_new None)
  next
    case (Some k)
    then have k: "k < length s" "s ! k \<in> set bytes" "\<forall>c\<in>set (take k s). c \<notin> set bytes"
      by (auto simp: position_Some in_set_conv_nth[of _ "take k s"])
    have "concat (map (escaped bytes) s) =
        concat (map (escaped bytes) (take k s)) @ escaped bytes (s ! k) @ concat (map (escaped bytes) (drop (Suc k) s))"
      using k(1) by (subst id_take_nth_drop[OF k(1)]) simp
    then show ?thesis using less[of "drop (Suc k) s"] k Some
      by (simp add: escape_with.simps[of _ s] find_scalar_new escaped_clean) (simp add: escaped_def)
  qed
qed

lemma escape_text_map: "escape_text s = concat (map (escaped ''&<>'') s)"
  unfolding escape_text_def TEXT_SPECIAL_def by (rule escape_with_map)

lemma escape_attr_map: "escape_attr s = concat (map (escaped ''&<>\"'') s)"
  unfolding escape_attr_def ATTR_SPECIAL_def by (rule escape_with_map)

end
