(* ===== verification/Md_Inline.thy ===== *)
theory Md_Inline
  imports Md_Text
begin

text \<open>
  The inline parser of the Markdown engine (\<open>catalerum-markdown/src/parser/inline.rs\<close>, the inline
  nodes of \<open>ast.rs\<close>). A position of the code is the suffix of the text it starts; the character
  before it and the pending run of plain text come along. A scanner answers what it read and the
  suffix left. A borrowed and an owned text are one.
\<close>

section \<open>Nodes\<close>

datatype inline =
    IText string
  | ICode string
  | IEmph "inline list"
  | IStrong "inline list"
  | IStrike "inline list"
  | ILink string string "inline list"
  | IImage string string string
  | IMath string bool
  | ISoftBreak
  | IHardBreak

record link_def =
  ld_dest :: string
  ld_title :: string

type_synonym ref_map = "string \<Rightarrow> link_def option"

abbreviation NL :: char where "NL \<equiv> CHR 0x0A"
abbreviation CR :: char where "CR \<equiv> CHR 0x0D"
abbreviation TAB :: char where "TAB \<equiv> CHR 0x09"
abbreviation SP :: char where "SP \<equiv> CHR 0x20"
abbreviation BACKSLASH :: char where "BACKSLASH \<equiv> CHR 0x5C"
abbreviation BACKTICK :: char where "BACKTICK \<equiv> CHR 0x60"
abbreviation QUOTE :: char where "QUOTE \<equiv> CHR 0x22"
abbreviation APOS :: char where "APOS \<equiv> CHR 0x27"

definition INLINE :: byte_set where
  "INLINE = byte_set_new ([NL, CR, BACKSLASH, BACKTICK] @ ''*_[!<~$'')"

definition plain_run :: "string \<Rightarrow> bool" where
  "plain_run s \<longleftrightarrow> find_scalar INLINE s = None"

fun collapse_label :: "bool \<Rightarrow> string \<Rightarrow> string" where
  "collapse_label prev_space [] = []"
| "collapse_label prev_space (c # cs) =
     (if is_whitespace c then (if prev_space then [] else [SP]) @ collapse_label True cs
      else to_lower_char c # collapse_label False cs)"

definition normalize_label :: "string \<Rightarrow> string" where
  "normalize_label label = collapse_label False (trim label)"

fun node_text :: "inline \<Rightarrow> string" where
  "node_text (IText t) = t"
| "node_text (ICode t) = t"
| "node_text (IEmph c) = concat (map node_text c)"
| "node_text (IStrong c) = concat (map node_text c)"
| "node_text (IStrike c) = concat (map node_text c)"
| "node_text (ILink d t c) = concat (map node_text c)"
| "node_text (IImage d t alt) = alt"
| "node_text (IMath m disp) = m"
| "node_text ISoftBreak = [SP]"
| "node_text IHardBreak = [SP]"

definition inline_text :: "inline list \<Rightarrow> string" where
  "inline_text ns = concat (map node_text ns)"

fun slug_from :: "string \<Rightarrow> bool \<Rightarrow> string \<Rightarrow> string" where
  "slug_from slug pending [] = slug"
| "slug_from slug pending (c # cs) =
     (if is_alphanumeric c then slug_from (slug @ (if pending then ''-'' else []) @ [to_lower_char c]) False cs
      else if c = CHR ''-'' \<or> c = CHR ''_'' then slug_from (slug @ (if pending then ''-'' else []) @ [c]) False cs
      else if is_whitespace c then slug_from slug (slug \<noteq> []) cs
      else slug_from slug pending cs)"

definition heading_slug :: "inline list \<Rightarrow> string" where
  "heading_slug content = slug_from [] False (inline_text content)"

section \<open>Low-level scanners\<close>

definition same_run :: "string \<Rightarrow> nat" where
  "same_run s = (case s of [] \<Rightarrow> 0 | c # _ \<Rightarrow> length (takeWhile (\<lambda>x. x = c) s))"

text \<open>What a scanner read, with what stood before it.\<close>

definition after_text :: "string \<Rightarrow> (string \<times> string) option \<Rightarrow> (string \<times> string) option" where
  "after_text p r = map_option (\<lambda>(t, rest). (p @ t, rest)) r"

text \<open>The content and the rest behind the closing run of \<open>n\<close> backticks.\<close>

function code_span :: "nat \<Rightarrow> string \<Rightarrow> (string \<times> string) option" where
  "code_span n [] = None"
| "code_span n (c # cs) =
     (if c = BACKTICK then
        (let run = same_run (c # cs) in
         if run = n then Some ([], drop run (c # cs))
         else after_text (replicate run c) (code_span n (drop run (c # cs))))
      else after_text [c] (code_span n cs))"
  by pat_completeness auto
termination
  by (relation "measure (\<lambda>(_, s). length s)") (auto simp: same_run_def)

declare code_span.simps(2) [simp del]

fun newlines_to_spaces :: "string \<Rightarrow> string" where
  "newlines_to_spaces [] = []"
| "newlines_to_spaces (c # cs) =
     (if c = CR \<and> cs \<noteq> [] \<and> hd cs = NL then SP # newlines_to_spaces (tl cs)
      else (if c = NL \<or> c = CR then SP else c) # newlines_to_spaces cs)"

definition normalize_code :: "string \<Rightarrow> string" where
  "normalize_code raw =
     (let collapsed = newlines_to_spaces raw in
      if collapsed \<noteq> [] \<and> hd collapsed = SP \<and> last collapsed = SP \<and> list_ex (\<lambda>c. c \<noteq> SP) collapsed
      then butlast (tl collapsed) else collapsed)"

text \<open>The close of a math span: \<open>prev\<close> is the character before, none at the start of the content.\<close>

fun find_math_close :: "bool \<Rightarrow> char option \<Rightarrow> string \<Rightarrow> (string \<times> string) option" where
  "find_math_close display prev [] = None"
| "find_math_close display prev (c # cs) =
     (if c = BACKSLASH then
        (case cs of [] \<Rightarrow> None | e # cs' \<Rightarrow> after_text [c, e] (find_math_close display (Some e) cs'))
      else if c = CHR ''$'' then
        (if display then
           (if cs \<noteq> [] \<and> hd cs = CHR ''$'' then (if prev \<noteq> None then Some ([], tl cs) else None)
            else after_text [c] (find_math_close display (Some c) cs))
         else
           (if (case prev of Some p \<Rightarrow> \<not> is_ascii_whitespace p | None \<Rightarrow> False)
               \<and> \<not> (cs \<noteq> [] \<and> is_ascii_digit (hd cs))
            then Some ([], cs)
            else after_text [c] (find_math_close display (Some c) cs)))
      else after_text [c] (find_math_close display (Some c) cs))"

definition is_uri_autolink :: "string \<Rightarrow> bool" where
  "is_uri_autolink s =
     (case split_first (CHR '':'') s of
        None \<Rightarrow> False
      | Some (scheme, _) \<Rightarrow>
          2 \<le> length scheme \<and> length scheme \<le> 32 \<and> is_ascii_alphabetic (hd scheme)
          \<and> list_all (\<lambda>c. is_ascii_alphanumeric c \<or> c \<in> set ''+-.'') (tl scheme))"

definition EMAIL_LOCAL :: string where
  "EMAIL_LOCAL = ''.!#$%&'' @ [APOS] @ ''*+/=?^_'' @ [BACKTICK] @ ''{|}~-''"

definition is_email_autolink :: "string \<Rightarrow> bool" where
  "is_email_autolink s =
     (case split_first (CHR ''@'') s of
        None \<Rightarrow> False
      | Some (loc, domain) \<Rightarrow>
          loc \<noteq> [] \<and> domain \<noteq> [] \<and> CHR ''.'' \<in> set domain
          \<and> list_all (\<lambda>c. is_ascii_alphanumeric c \<or> c \<in> set EMAIL_LOCAL) loc
          \<and> list_all (\<lambda>c. is_ascii_alphanumeric c \<or> c = CHR ''.'' \<or> c = CHR ''-'') domain)"

text \<open>An autolink, behind its opening angle.\<close>

definition autolink :: "string \<Rightarrow> (inline \<times> string) option" where
  "autolink s =
     (case split_first (CHR ''>'') s of
        None \<Rightarrow> None
      | Some (inner, rest) \<Rightarrow>
          if inner = [] \<or> list_ex (\<lambda>c. is_ascii_whitespace c \<or> c = CHR ''<'') inner then None
          else if is_uri_autolink inner then Some (ILink inner [] [IText inner], rest)
          else if is_email_autolink inner then Some (ILink (''mailto:'' @ inner) [] [IText inner], rest)
          else None)"

section \<open>Bare autolinks\<close>

datatype piece = PText string | PUrl string bool | PEmail string

definition has_autolink_signal :: "string \<Rightarrow> bool" where
  "has_autolink_signal s \<longleftrightarrow> str_contains s ''http'' \<or> str_contains s ''www.'' \<or> CHR ''@'' \<in> set s"

text \<open>One round of the trailing trim, and its repetition until nothing changes.\<close>

definition trim_url_once :: "string \<Rightarrow> string" where
  "trim_url_once u =
     (let u = trim_end_by (\<lambda>c. c \<in> set (''?!.,:*_~'' @ [APOS, QUOTE])) u;
          u = (if u \<noteq> [] \<and> last u = CHR '')'' \<and> count_list u (CHR ''('') < count_list u (CHR '')'') then butlast u else u)
      in if u \<noteq> [] \<and> last u = CHR '';''
         then (let r = rev (butlast u); ent = takeWhile (\<lambda>c. c \<noteq> CHR ''&'') r; kept = dropWhile (\<lambda>c. c \<noteq> CHR ''&'') r
               in if kept \<noteq> [] \<and> ent \<noteq> [] \<and> list_all (\<lambda>c. is_ascii_alphanumeric c \<or> c = CHR ''#'') ent
                  then rev (tl kept) else u)
         else u)"

function trim_url_end :: "string \<Rightarrow> string" where
  "trim_url_end u = (if length (trim_url_once u) < length u then trim_url_end (trim_url_once u) else u)"
  by pat_completeness auto
termination
  by (relation "measure length") auto

declare trim_url_end.simps [simp del]

definition url_prefix :: "string \<Rightarrow> (nat \<times> bool) option" where
  "url_prefix s =
     (if eq_ignore_ascii_case (take 8 s) ''https://'' then Some (8, False)
      else if eq_ignore_ascii_case (take 7 s) ''http://'' then Some (7, False)
      else if eq_ignore_ascii_case (take 4 s) ''www.'' then Some (4, True)
      else None)"

definition match_url :: "string \<Rightarrow> (string \<times> bool) option" where
  "match_url s =
     (case url_prefix s of
        None \<Rightarrow> None
      | Some (plen, www) \<Rightarrow>
          (let body = takeWhile (\<lambda>c. \<not> is_ascii_whitespace c \<and> c \<noteq> CHR ''<'') (drop plen s);
               matched = trim_url_end (take plen s @ body);
               after = (if www then matched else drop plen matched);
               host = takeWhile (\<lambda>c. c \<notin> set ''/?#:'') after
           in if length matched \<le> plen then None
              else if CHR ''.'' \<notin> set host \<or> starts_with ''.'' host \<or> ends_with ''.'' host then None
              else Some (matched, www)))"

definition is_email_local :: "char \<Rightarrow> bool" where
  "is_email_local c \<longleftrightarrow> is_ascii_alphanumeric c \<or> c \<in> set ''._+-''"

definition match_email :: "string \<Rightarrow> string option" where
  "match_email s =
     (let loc = takeWhile is_email_local s; rest = dropWhile is_email_local s in
      if loc = [] \<or> rest = [] \<or> hd rest \<noteq> CHR ''@'' then None
      else (let domain = trim_end_by (\<lambda>c. c \<in> set ''.-_'')
                  (takeWhile (\<lambda>c. is_ascii_alphanumeric c \<or> c \<in> set ''.-_'') (tl rest))
            in if CHR ''.'' \<notin> set domain \<or> starts_with ''.'' domain then None
               else Some (loc @ ''@'' @ domain)))"

definition starts_autolink :: "char option \<Rightarrow> bool" where
  "starts_autolink prev = (case prev of None \<Rightarrow> True | Some p \<Rightarrow> p \<in> set ([SP, TAB, NL, CR] @ ''*_~(''))"

definition piece_at :: "char option \<Rightarrow> string \<Rightarrow> (piece \<times> nat) option" where
  "piece_at prev s =
     (if \<not> starts_autolink prev then None
      else case match_url s of
             Some (u, www) \<Rightarrow> Some (PUrl u www, length u)
           | None \<Rightarrow> map_option (\<lambda>e. (PEmail e, length e)) (match_email s))"

lemma piece_at_length: "piece_at prev s = Some (p, n) \<Longrightarrow> 0 < n"
  by (auto simp: piece_at_def match_url_def match_email_def Let_def split: if_splits option.splits)

definition text_piece :: "string \<Rightarrow> piece list" where
  "text_piece t = (if t = [] then [] else [PText t])"

function scan_pieces :: "char option \<Rightarrow> string \<Rightarrow> string \<Rightarrow> piece list" where
  "scan_pieces prev txt [] = text_piece txt"
| "scan_pieces prev txt (c # cs) =
     (case piece_at prev (c # cs) of
        Some (p, n) \<Rightarrow> text_piece txt @ p # scan_pieces (Some ((c # cs) ! (n - 1))) [] (drop n (c # cs))
      | None \<Rightarrow> scan_pieces (Some c) (txt @ [c]) cs)"
  by pat_completeness auto
termination
  by (relation "measure (\<lambda>(_, _, s). length s)") (auto dest: piece_at_length)

declare scan_pieces.simps(2) [simp del]

fun is_text_piece :: "piece \<Rightarrow> bool" where
  "is_text_piece (PText t) = True"
| "is_text_piece _ = False"

definition scan_autolinks :: "string \<Rightarrow> piece list option" where
  "scan_autolinks s = (let ps = scan_pieces None [] s in if list_all is_text_piece ps then None else Some ps)"

fun emit_piece :: "piece \<Rightarrow> inline" where
  "emit_piece (PText t) = IText t"
| "emit_piece (PUrl u www) = ILink ((if www then ''http://'' else []) @ u) [] [IText u]"
| "emit_piece (PEmail e) = ILink (''mailto:'' @ e) [] [IText e]"

definition split_text :: "string \<Rightarrow> inline list" where
  "split_text t =
     (if \<not> has_autolink_signal t then [IText t]
      else case scan_autolinks t of None \<Rightarrow> [IText t] | Some ps \<Rightarrow> map emit_piece ps)"

fun needs_autolink :: "inline \<Rightarrow> bool" where
  "needs_autolink (IText t) = has_autolink_signal t"
| "needs_autolink (IEmph c) = list_ex needs_autolink c"
| "needs_autolink (IStrong c) = list_ex needs_autolink c"
| "needs_autolink (IStrike c) = list_ex needs_autolink c"
| "needs_autolink _ = False"

text \<open>A list in which no node hints at a link is left alone.\<close>

fun autolink_node :: "inline \<Rightarrow> inline list" where
  "autolink_node (IText t) = split_text t"
| "autolink_node (IEmph c) = [IEmph (if list_ex needs_autolink c then concat (map autolink_node c) else c)]"
| "autolink_node (IStrong c) = [IStrong (if list_ex needs_autolink c then concat (map autolink_node c) else c)]"
| "autolink_node (IStrike c) = [IStrike (if list_ex needs_autolink c then concat (map autolink_node c) else c)]"
| "autolink_node n = [n]"

definition autolink_nodes :: "inline list \<Rightarrow> inline list" where
  "autolink_nodes ns = (if list_ex needs_autolink ns then concat (map autolink_node ns) else ns)"

section \<open>Links and images\<close>

text \<open>The label behind an opening bracket, and the rest behind its closing one.\<close>

function match_brackets :: "nat \<Rightarrow> string \<Rightarrow> (string \<times> string) option" where
  "match_brackets depth [] = None"
| "match_brackets depth (c # cs) =
     (if c = BACKSLASH then
        (case cs of [] \<Rightarrow> None | e # cs' \<Rightarrow> after_text [c, e] (match_brackets depth cs'))
      else if c = CHR ''['' then after_text [c] (match_brackets (Suc depth) cs)
      else if c = CHR '']'' then
        (if depth \<le> 1 then Some ([], cs) else after_text [c] (match_brackets (depth - 1) cs))
      else if c = BACKTICK then
        (let n = same_run (c # cs); after = drop n (c # cs) in
         case code_span n after of
           Some (raw, rest) \<Rightarrow>
             (if length rest < length (c # cs)
              then after_text (take (length (c # cs) - length rest) (c # cs)) (match_brackets depth rest) else None)
         | None \<Rightarrow> after_text (replicate n c) (match_brackets depth after))
      else after_text [c] (match_brackets depth cs))"
  by pat_completeness auto
termination
  by (relation "measure (\<lambda>(_, s). length s)") (auto simp: same_run_def)

declare match_brackets.simps(2) [simp del]

definition skip_ws :: "string \<Rightarrow> string" where
  "skip_ws s = dropWhile is_ascii_whitespace s"

text \<open>A bare destination ends at a space or at the parenthesis that closes the link. A backslash at
  the very end moves past the text, and there is none.\<close>

fun bare_destination :: "nat \<Rightarrow> string \<Rightarrow> (string \<times> string) option" where
  "bare_destination paren [] = Some ([], [])"
| "bare_destination paren (c # cs) =
     (if c = BACKSLASH then
        (case cs of [] \<Rightarrow> None | e # cs' \<Rightarrow> after_text [c, e] (bare_destination paren cs'))
      else if c = CHR ''('' then after_text [c] (bare_destination (Suc paren) cs)
      else if c = CHR '')'' then
        (if paren = 0 then Some ([], c # cs) else after_text [c] (bare_destination (paren - 1) cs))
      else if is_ascii_whitespace c then Some ([], c # cs)
      else after_text [c] (bare_destination paren cs))"

definition title_and_close :: "string \<Rightarrow> string \<Rightarrow> (string \<times> string \<times> string) option" where
  "title_and_close dest s =
     (let close = (\<lambda>title s. if s \<noteq> [] \<and> hd s = CHR '')'' then Some (dest, title, tl s) else None) in
      if s \<noteq> [] \<and> hd s \<in> set [QUOTE, APOS, CHR ''(''] then
        (case split_first (if hd s = CHR ''('' then CHR '')'' else hd s) (tl s) of
           None \<Rightarrow> None
         | Some (title, rest) \<Rightarrow> close title (skip_ws rest))
      else close [] s)"

text \<open>\<open>inline_destination\<close> behind the opening parenthesis.\<close>

definition inline_destination :: "string \<Rightarrow> (string \<times> string \<times> string) option" where
  "inline_destination s =
     (let s = skip_ws s in
      case (if s \<noteq> [] \<and> hd s = CHR ''<'' then split_first (CHR ''>'') (tl s) else bare_destination 0 s) of
        None \<Rightarrow> None
      | Some (dest, rest) \<Rightarrow> title_and_close dest (skip_ws rest))"

text \<open>\<open>link_or_image\<close> behind the opening bracket, up to the node it builds: the label, the
  destination, the title and the rest.\<close>

definition by_reference :: "ref_map \<Rightarrow> string \<Rightarrow> string \<Rightarrow> string \<Rightarrow> (string \<times> string \<times> string \<times> string) option" where
  "by_reference refs inner key rest =
     (case refs key of Some def \<Rightarrow> Some (inner, ld_dest def, ld_title def, rest) | None \<Rightarrow> None)"

definition link_target :: "ref_map \<Rightarrow> string \<Rightarrow> (string \<times> string \<times> string \<times> string) option" where
  "link_target refs s =
     (case match_brackets 1 s of
        None \<Rightarrow> None
      | Some (inner, after) \<Rightarrow>
          (case (if after \<noteq> [] \<and> hd after = CHR ''('' then inline_destination (tl after) else None) of
             Some (dest, title, rest) \<Rightarrow> Some (inner, dest, title, rest)
           | None \<Rightarrow>
               (case (if after \<noteq> [] \<and> hd after = CHR ''['' then match_brackets 1 (tl after) else None) of
                  Some (label, rest) \<Rightarrow>
                    by_reference refs inner (if trim label = [] then normalize_label inner else normalize_label label) rest
                | None \<Rightarrow> by_reference refs inner (normalize_label inner) after)))"

text \<open>The scanners consume.\<close>

lemma after_text_Some: "after_text p r = Some (t, rest) \<longleftrightarrow> (\<exists>t'. r = Some (t', rest) \<and> t = p @ t')"
  by (cases r) (auto simp: after_text_def)

lemma same_run_pos: "s \<noteq> [] \<Longrightarrow> 0 < same_run s" "same_run s \<le> length s"
  by (cases s; simp add: same_run_def length_takeWhile_le)+

lemma code_span_length: "code_span n s = Some (t, rest) \<Longrightarrow> length t + length rest \<le> length s"
proof (induction n s arbitrary: t rule: code_span.induct)
  case (2 n c cs)
  have "same_run (c # cs) \<le> length (c # cs)" by (rule same_run_pos)
  then show ?case using 2
    by (fastforce simp: code_span.simps(2) Let_def after_text_Some split: if_splits)
qed simp

lemma math_close_length: "find_math_close d p s = Some (t, rest) \<Longrightarrow> length rest < length s"
proof (induction d p s arbitrary: t rule: find_math_close.induct)
  case (2 d p c cs)
  then show ?case by (cases cs) (fastforce simp: after_text_Some split: if_splits option.splits)+
qed simp

lemma split_first_length: "split_first c s = Some (a, b) \<Longrightarrow> length a + length b < length s"
proof -
  assume "split_first c s = Some (a, b)"
  then have "s = a @ c # b"
    by (auto simp: split_first_def split: list.splits)
      (metis (mono_tags, lifting) hd_dropWhile list.sel(1) list.distinct(1) takeWhile_dropWhile_id)
  then show ?thesis by simp
qed

lemma match_brackets_length: "match_brackets d s = Some (t, rest) \<Longrightarrow> length t + length rest < length s"
proof (induction d s arbitrary: t rule: match_brackets.induct)
  case (2 d c cs)
  let ?s = "c # cs" and ?n = "same_run (c # cs)"
  consider (bs) "c = BACKSLASH" | (opens) "c = CHR ''[''" | (closes) "c = CHR '']''" | (tick) "c = BACKTICK"
    | (other) "c \<noteq> BACKSLASH" "c \<noteq> CHR ''[''" "c \<noteq> CHR '']''" "c \<noteq> BACKTICK" by blast
  then show ?case
  proof cases
    case bs
    then show ?thesis using 2 by (cases cs) (auto simp: match_brackets.simps(2) after_text_Some)
  next
    case opens
    then show ?thesis using 2 by (auto simp: match_brackets.simps(2) after_text_Some)
  next
    case closes
    then show ?thesis using 2 by (auto simp: match_brackets.simps(2) after_text_Some split: if_splits)
  next
    case tick
    have n: "0 < ?n" "?n \<le> length ?s" using same_run_pos[of ?s] by simp_all
    show ?thesis
    proof (cases "code_span ?n (drop ?n ?s)")
      case None
      have "after_text (replicate ?n c) (match_brackets d (drop ?n ?s)) = Some (t, rest)"
        using tick None 2(7) by (simp add: match_brackets.simps(2) Let_def)
      then obtain t' where t': "match_brackets d (drop ?n ?s) = Some (t', rest)" "t = replicate ?n c @ t'"
        unfolding after_text_Some by blast
      have "length t' + length rest < length (drop ?n ?s)" using 2(4)[OF _ _ _ tick refl refl None t'(1)] tick by simp
      then show ?thesis using t'(2) n by simp
    next
      case (Some p)
      obtain raw r where p: "p = (raw, r)" by (cases p)
      have "(if length r < length ?s
          then after_text (take (length ?s - length r) ?s) (match_brackets d r) else None) = Some (t, rest)"
        using tick Some p 2(7) by (simp add: match_brackets.simps(2) Let_def split: if_splits)
      then obtain t' where t': "length r < length ?s" "match_brackets d r = Some (t', rest)" "t = take (length ?s - length r) ?s @ t'"
        by (auto simp: after_text_Some split: if_splits)
      have "length t' + length rest < length r" using 2(5)[OF _ _ _ tick refl refl Some p[symmetric] t'(1,2)] tick by simp
      then show ?thesis using t' by simp
    qed
  next
    case other
    then show ?thesis using 2 by (auto simp: match_brackets.simps(2) after_text_Some)
  qed
qed simp

lemma skip_ws_length: "length (skip_ws s) \<le> length s"
  by (simp add: skip_ws_def length_dropWhile_le)

lemma bare_destination_length: "bare_destination p s = Some (t, rest) \<Longrightarrow> length rest \<le> length s"
proof (induction p s arbitrary: t rule: bare_destination.induct)
  case (2 p c cs)
  then show ?case by (cases cs) (fastforce simp: after_text_Some split: if_splits)+
qed simp

lemma title_and_close_length:
  assumes "title_and_close d s = Some (d', t, rest)"
  shows "length rest < length s"
proof (cases "s \<noteq> [] \<and> hd s \<in> set [QUOTE, APOS, CHR ''('']")
  case True
  then obtain c title r where c: "split_first c (tl s) = Some (title, r)" and rest: "skip_ws r \<noteq> []" "rest = tl (skip_ws r)"
    using assms unfolding title_and_close_def Let_def by (auto split: option.splits if_splits prod.splits)
  show ?thesis using split_first_length[OF c] skip_ws_length[of r] rest by simp
next
  case False
  then show ?thesis using assms by (auto simp: title_and_close_def Let_def split: if_splits)
qed

lemma inline_destination_length: "inline_destination s = Some (d, t, rest) \<Longrightarrow> length rest < length s"
proof -
  let ?s = "skip_ws s"
  assume "inline_destination s = Some (d, t, rest)"
  then obtain dest r where r: "(if ?s \<noteq> [] \<and> hd ?s = CHR ''<'' then split_first (CHR ''>'') (tl ?s) else bare_destination 0 ?s) = Some (dest, r)"
    and e: "title_and_close dest (skip_ws r) = Some (d, t, rest)"
    by (auto simp: inline_destination_def Let_def split: option.splits)
  have "length r \<le> length ?s"
    using r bare_destination_length[of 0 ?s] split_first_length[of _ "tl ?s"] by (fastforce split: if_splits)
  then show ?thesis
    using title_and_close_length[OF e] skip_ws_length[of r] skip_ws_length[of s] by simp
qed

lemma link_target_length:
  assumes "link_target refs s = Some (inner, d, t, rest)"
  shows "length inner < length s" "length rest < length s"
proof -
  obtain inn after where m: "match_brackets 1 s = Some (inn, after)"
    using assms by (auto simp: link_target_def split: option.splits)
  note lens = match_brackets_length[OF m]
  have "inner = inn \<and> length rest \<le> length after"
    using assms m inline_destination_length[of "tl after"] match_brackets_length[of 1 "tl after"]
    by (fastforce simp: link_target_def by_reference_def split: option.splits if_splits)
  then show "length inner < length s" "length rest < length s" using lens by simp_all
qed

lemma autolink_length: "autolink s = Some (n, rest) \<Longrightarrow> length rest < length s"
  by (auto simp: autolink_def dest: split_first_length split: option.splits if_splits)

section \<open>Flanking\<close>

definition char_is_punct :: "char \<Rightarrow> bool" where
  "char_is_punct c \<longleftrightarrow> is_ascii_punctuation c \<or> (\<not> is_alphanumeric c \<and> \<not> is_whitespace c)"

definition flanking :: "char \<Rightarrow> char option \<Rightarrow> char option \<Rightarrow> bool \<times> bool" where
  "flanking ch prior after =
     (let ws = (\<lambda>c. case c of None \<Rightarrow> True | Some c \<Rightarrow> is_whitespace c);
          punct = (\<lambda>c. case c of None \<Rightarrow> False | Some c \<Rightarrow> char_is_punct c);
          left = (\<not> ws after \<and> (\<not> punct after \<or> ws prior \<or> punct prior));
          right = (\<not> ws prior \<and> (\<not> punct prior \<or> ws after \<or> punct after))
      in if ch = CHR ''_'' then (left \<and> (\<not> right \<or> punct prior), right \<and> (\<not> left \<or> punct after))
         else (left, right))"

section \<open>Emphasis\<close>

text \<open>A token: a finished node, or a run of delimiters that may open and may close.\<close>

datatype md_tok = MNode inline | MDelim char nat bool bool

definition push_inline :: "inline list \<Rightarrow> inline \<Rightarrow> inline list" where
  "push_inline out n =
     (case n of
        IText cur \<Rightarrow>
          (case rev out of IText prev # r \<Rightarrow> rev r @ [IText (prev @ cur)] | _ \<Rightarrow> out @ [n])
      | _ \<Rightarrow> out @ [n])"

fun tok_inline :: "md_tok \<Rightarrow> inline" where
  "tok_inline (MNode n) = n"
| "tok_inline (MDelim ch count op cl) = IText (replicate count ch)"

definition flatten :: "md_tok list \<Rightarrow> inline list" where
  "flatten toks = foldl push_inline [] (map tok_inline toks)"

definition rule_of_three :: "nat \<Rightarrow> nat \<Rightarrow> bool \<Rightarrow> bool \<Rightarrow> bool" where
  "rule_of_three open_len close_len opener_can_close closer_can_open \<longleftrightarrow>
     \<not> ((opener_can_close \<or> closer_can_open) \<and> (open_len + close_len) mod 3 = 0)
     \<or> (open_len mod 3 = 0 \<and> close_len mod 3 = 0)"

text \<open>The nearest opener before \<open>k\<close>.\<close>

fun find_opener :: "md_tok list \<Rightarrow> char \<Rightarrow> nat \<Rightarrow> bool \<Rightarrow> nat \<Rightarrow> nat option" where
  "find_opener toks cch ccount copen 0 = None"
| "find_opener toks cch ccount copen (Suc k) =
     (case toks ! k of
        MDelim ch count can_open can_close \<Rightarrow>
          if ch = cch \<and> can_open \<and> rule_of_three count ccount can_close copen then Some k
          else find_opener toks cch ccount copen k
      | MNode n \<Rightarrow> find_opener toks cch ccount copen k)"

fun delim_count :: "md_tok \<Rightarrow> nat" where
  "delim_count (MDelim ch count op cl) = count"
| "delim_count (MNode n) = 0"

fun use_delim :: "nat \<Rightarrow> md_tok \<Rightarrow> md_tok list" where
  "use_delim used (MDelim ch count op cl) = (if count \<le> used then [] else [MDelim ch (count - used) op cl])"
| "use_delim used (MNode n) = [MNode n]"

text \<open>The span between opener and closer is wrapped; what is left of a delimiter stays. The walk goes
  on at the first of: the closer left over, the wrapped node.\<close>

definition used_of :: "char \<Rightarrow> nat \<Rightarrow> nat \<Rightarrow> nat" where
  "used_of cch ocount ccount = (if cch = CHR ''~'' \<or> (2 \<le> ocount \<and> 2 \<le> ccount) then 2 else 1)"

definition wrapped :: "char \<Rightarrow> nat \<Rightarrow> inline list \<Rightarrow> inline" where
  "wrapped cch used content =
     (if cch = CHR ''~'' then IStrike content else if used = 2 then IStrong content else IEmph content)"

definition wrap_span :: "md_tok list \<Rightarrow> nat \<Rightarrow> nat \<Rightarrow> char \<Rightarrow> md_tok list \<times> nat" where
  "wrap_span toks opener closer cch =
     (let used = used_of cch (delim_count (toks ! opener)) (delim_count (toks ! closer));
          node = MNode (wrapped cch used (flatten (drop (Suc opener) (take closer toks))));
          left = use_delim used (toks ! opener); right = use_delim used (toks ! closer)
      in (take opener toks @ left @ [node] @ right @ drop (Suc closer) toks,
          opener + (if left = [] then (if right = [] then 0 else 1) else (if right = [] then 1 else 2))))"

definition opener_of :: "md_tok list \<Rightarrow> nat \<Rightarrow> (nat \<times> char) option" where
  "opener_of toks closer =
     (case toks ! closer of
        MDelim ch count can_open True \<Rightarrow> map_option (\<lambda>k. (k, ch)) (find_opener toks ch count can_open closer)
      | _ \<Rightarrow> None)"

lemma find_opener_Some:
  "find_opener toks cch cc co k = Some i \<Longrightarrow> i < k \<and> (\<exists>n b c. toks ! i = MDelim cch n b c)"
  by (induction k) (auto split: md_tok.splits if_splits)

lemma opener_of_Some:
  "opener_of toks closer = Some (i, ch) \<Longrightarrow> i < closer \<and> (\<exists>n b c. toks ! i = MDelim ch n b c) \<and> (\<exists>n b c. toks ! closer = MDelim ch n b c)"
  by (auto simp: opener_of_def dest: find_opener_Some split: md_tok.splits bool.splits)

definition count_sum :: "md_tok list \<Rightarrow> nat" where
  "count_sum toks = sum_list (map delim_count toks)"

text \<open>A wrap uses up delimiters, or at least their tokens.\<close>

lemma between:
  assumes "i < k" "k < length xs"
  shows "xs = take i xs @ xs ! i # drop (Suc i) (take k xs) @ xs ! k # drop (Suc k) xs"
proof -
  have "take k xs = take i xs @ xs ! i # drop (Suc i) (take k xs)"
    using id_take_nth_drop[of i "take k xs"] assms by simp
  then show ?thesis using id_take_nth_drop[of k xs] assms(2) by (metis append.assoc append_Cons)
qed

lemma use_delim_measure:
  "0 < u \<Longrightarrow> d = MDelim ch n b c \<Longrightarrow> count_sum (use_delim u d) < n \<or> use_delim u d = []"
  "d = MDelim ch n b c \<Longrightarrow> count_sum (use_delim u d) \<le> n"
  by (auto simp: count_sum_def)

lemma wrap_span_measure:
  assumes "opener_of toks closer = Some (i, ch)" "closer < length toks"
  defines "toks' \<equiv> fst (wrap_span toks i closer ch)"
  shows "count_sum toks' < count_sum toks \<or> (count_sum toks' \<le> count_sum toks \<and> length toks' < length toks)"
proof -
  obtain n b c m b' c' where d: "i < closer" "toks ! i = MDelim ch n b c" "toks ! closer = MDelim ch m b' c'"
    using opener_of_Some[OF assms(1)] by blast
  let ?A = "take i toks" and ?B = "drop (Suc i) (take closer toks)" and ?C = "drop (Suc closer) toks"
  have toks: "toks = ?A @ toks ! i # ?B @ toks ! closer # ?C" by (rule between[OF d(1) assms(2)])
  have sum: "count_sum toks = count_sum ?A + n + count_sum ?B + m + count_sum ?C"
    using arg_cong[OF toks, of count_sum] by (simp add: count_sum_def d)
  have len: "length toks = length ?A + length ?B + length ?C + 2"
    using d(1) assms(2) by simp
  define u where "u = used_of ch n m"
  define w where "w = wrapped ch u (flatten ?B)"
  have u: "toks' = ?A @ use_delim u (toks ! i) @ [MNode w] @ use_delim u (toks ! closer) @ ?C" "0 < u"
    by (simp_all add: toks'_def wrap_span_def Let_def d u_def w_def used_of_def)
  have sum': "count_sum toks' = count_sum ?A + count_sum (use_delim u (toks ! i)) + count_sum (use_delim u (toks ! closer)) + count_sum ?C"
    unfolding u(1) by (simp add: count_sum_def)
  have len': "length toks' = length ?A + length (use_delim u (toks ! i)) + 1 + length (use_delim u (toks ! closer)) + length ?C"
    unfolding u(1) by simp
  note m = use_delim_measure(1)[OF u(2) d(2)] use_delim_measure(1)[OF u(2) d(3)] use_delim_measure(2)[OF d(2)] use_delim_measure(2)[OF d(3)]
  show ?thesis
  proof (cases "use_delim u (toks ! i) = [] \<and> use_delim u (toks ! closer) = []")
    case True
    then have "count_sum (use_delim u (toks ! i)) = 0" "count_sum (use_delim u (toks ! closer)) = 0"
      "length (use_delim u (toks ! i)) = 0" "length (use_delim u (toks ! closer)) = 0"
      by (simp_all add: count_sum_def)
    then show ?thesis using sum sum' len len' by linarith
  next
    case False
    have "count_sum (use_delim u (toks ! i)) + count_sum (use_delim u (toks ! closer)) < n + m"
      using False m(1,2) m(3)[of u] m(4)[of u] by linarith
    then show ?thesis using sum sum' by linarith
  qed
qed

definition emphasis_order :: "((md_tok list \<times> nat) \<times> md_tok list \<times> nat) set" where
  "emphasis_order = measures [\<lambda>(toks, _). count_sum toks, \<lambda>(toks, _). length toks, \<lambda>(toks, k). length toks - k]"

lemma wrap_span_order:
  assumes "closer < length toks" "opener_of toks closer = Some (i, ch)"
  shows "((fst (wrap_span toks i closer ch), k), (toks, closer)) \<in> emphasis_order"
  using wrap_span_measure[OF assms(2,1)] by (auto simp: emphasis_order_def)

function process_emphasis :: "md_tok list \<Rightarrow> nat \<Rightarrow> md_tok list" where
  "process_emphasis toks closer =
     (if closer < length toks then
        (case opener_of toks closer of
           None \<Rightarrow> process_emphasis toks (Suc closer)
         | Some (opener, ch) \<Rightarrow>
             (let w = wrap_span toks opener closer ch in process_emphasis (fst w) (snd w)))
      else toks)"
  by pat_completeness auto
termination
proof (relation emphasis_order)
  show "wf emphasis_order" by (simp add: emphasis_order_def)
next
  fix toks :: "md_tok list" and closer
  assume "closer < length toks"
  then show "((toks, Suc closer), toks, closer) \<in> emphasis_order" by (simp add: emphasis_order_def)
next
  fix toks closer p opener ch w
  assume a: "closer < length toks" "opener_of toks closer = Some p" "(opener, ch) = p" and w: "w = wrap_span toks opener closer ch"
  then have "opener_of toks closer = Some (opener, ch)" by simp
  from wrap_span_order[OF a(1) this] show "((fst w, snd w), toks, closer) \<in> emphasis_order" unfolding w .
qed

declare process_emphasis.simps [simp del]

section \<open>The tokenizer\<close>

definition flush :: "string \<Rightarrow> md_tok list" where
  "flush run = (if run = [] then [] else [MNode (IText run)])"

text \<open>A line end: what stays of the run before it, and whether it breaks hard.\<close>

definition before_break :: "string \<Rightarrow> string" where
  "before_break run =
     (if run \<noteq> [] \<and> last run = BACKSLASH then butlast run
      else trim_end_by (\<lambda>c. c = SP \<or> c = TAB) run)"

definition hard_break :: "string \<Rightarrow> bool" where
  "hard_break run \<longleftrightarrow> (run \<noteq> [] \<and> last run = BACKSLASH) \<or> ends_with [SP, SP] run"

text \<open>The tokens at a character of \<open>INLINE\<close>: those it yields, with the label still to be parsed of a
  link or an image, and how the text goes on: the character before, the pending run, the rest.\<close>

datatype step =
    Done "md_tok list" char string
  | Label bool string string string char string
  | Pending char string string

definition last_read :: "string \<Rightarrow> string \<Rightarrow> char" where
  "last_read s rest = s ! (length s - length rest - 1)"

definition inline_step :: "ref_map \<Rightarrow> char option \<Rightarrow> char \<Rightarrow> string \<Rightarrow> string \<Rightarrow> step" where
  "inline_step refs prev c cs run =
     (if c = NL \<or> c = CR then
        (let tok = MNode (if hard_break run then IHardBreak else ISoftBreak) in
         if c = CR \<and> cs \<noteq> [] \<and> hd cs = NL then Done (flush (before_break run) @ [tok]) NL (tl cs)
         else Done (flush (before_break run) @ [tok]) c cs)
      else if c = BACKSLASH then
        (case cs of
           next # cs' \<Rightarrow>
             if is_ascii_punctuation next then Done (flush run @ [MNode (IText [next])]) next cs'
             else if next = NL then Done (flush run @ [MNode IHardBreak]) next cs'
             else Done (flush (run @ [c])) c cs
         | [] \<Rightarrow> Done (flush (run @ [c])) c cs)
      else if c = BACKTICK then
        (let n = same_run (c # cs); after = drop n (c # cs) in
         case code_span n after of
           Some (raw, rest) \<Rightarrow> Done (flush run @ [MNode (ICode (normalize_code raw))]) c rest
         | None \<Rightarrow> Pending c (run @ replicate n c) after)
      else if c = CHR ''<'' then
        (case autolink cs of
           Some (node, rest) \<Rightarrow> Done (flush run @ [MNode node]) (CHR ''>'') rest
         | None \<Rightarrow> Pending c (run @ [c]) cs)
      else if c = CHR ''$'' then
        (let display = (cs \<noteq> [] \<and> hd cs = CHR ''$''); body = (if display then tl cs else cs) in
         case (if display \<or> (body \<noteq> [] \<and> \<not> is_ascii_whitespace (hd body)) then find_math_close display None body else None) of
           Some (content, rest) \<Rightarrow> Done (flush run @ [MNode (IMath content display)]) c rest
         | None \<Rightarrow> Pending c (run @ [c]) cs)
      else if c = CHR ''!'' then
        (case (if cs \<noteq> [] \<and> hd cs = CHR ''['' then link_target refs (tl cs) else None) of
           Some (inner, dest, title, rest) \<Rightarrow> Label True inner dest title (last_read cs rest) rest
         | None \<Rightarrow> Pending c (run @ [c]) cs)
      else if c = CHR ''['' then
        (case link_target refs cs of
           Some (inner, dest, title, rest) \<Rightarrow> Label False inner dest title (last_read cs rest) rest
         | None \<Rightarrow> Pending c (run @ [c]) cs)
      else
        (let n = same_run (c # cs); after = drop n (c # cs) in
         if c = CHR ''~'' \<and> n \<noteq> 2 then Pending c (run @ replicate n c) after
         else (case flanking c prev (case after of [] \<Rightarrow> None | a # _ \<Rightarrow> Some a) of
                 (can_open, can_close) \<Rightarrow> Done (flush run @ [MDelim c n can_open can_close]) c after)))"

definition build :: "bool \<Rightarrow> string \<Rightarrow> string \<Rightarrow> inline list \<Rightarrow> inline" where
  "build img dest title content =
     (if img then IImage dest title (inline_text content) else ILink dest title content)"

lemma inline_step_length:
  "inline_step refs prev c cs run = Done ts p rest \<Longrightarrow> length rest \<le> length cs"
  "inline_step refs prev c cs run = Pending p r rest \<Longrightarrow> length rest \<le> length cs"
  "inline_step refs prev c cs run = Label im inner d t p rest \<Longrightarrow> length rest < length cs \<and> length inner < length cs"
proof -
  have n: "0 < same_run (c # cs)" by (rule same_run_pos) simp
  have code: "code_span k (drop (same_run (c # cs)) (c # cs)) = Some (raw, rest) \<Longrightarrow> length rest \<le> length cs" for k raw rest
    using code_span_length[of k "drop (same_run (c # cs)) (c # cs)" raw rest] n by simp
  have drop: "length (drop (same_run (c # cs)) (c # cs)) \<le> length cs" using n by simp
  have math: "find_math_close dis None cs = Some (m, rest) \<Longrightarrow> length rest \<le> length cs"
      "find_math_close dis None (tl cs) = Some (m, rest) \<Longrightarrow> length rest \<le> length cs" for dis m rest
    using math_close_length[of dis None cs m rest] math_close_length[of dis None "tl cs" m rest] by auto
  have auto_l: "autolink cs = Some (node, rest) \<Longrightarrow> length rest \<le> length cs" for node rest
    using autolink_length[of cs node rest] by simp
  have lk: "link_target refs (tl cs) = Some (inner, d, t, rest) \<Longrightarrow> cs \<noteq> [] \<Longrightarrow> length rest < length cs \<and> length inner < length cs"
      "link_target refs cs = Some (inner, d, t, rest) \<Longrightarrow> length rest < length cs \<and> length inner < length cs" for inner d t rest
    using link_target_length[of refs "tl cs" inner d t rest] link_target_length[of refs cs inner d t rest] by auto
  show "inline_step refs prev c cs run = Done ts p rest \<Longrightarrow> length rest \<le> length cs"
    unfolding inline_step_def Let_def
    by (cases cs) (use code drop math auto_l in \<open>auto split: if_splits option.splits prod.splits simp del: drop_Suc_Cons length_drop find_math_close.simps(2)\<close>)
  show "inline_step refs prev c cs run = Pending p r rest \<Longrightarrow> length rest \<le> length cs"
    unfolding inline_step_def Let_def
    by (cases cs) (use drop in \<open>auto split: if_splits option.splits prod.splits simp del: drop_Suc_Cons length_drop find_math_close.simps(2)\<close>)
  show "inline_step refs prev c cs run = Label im inner d t p rest \<Longrightarrow> length rest < length cs \<and> length inner < length cs"
    unfolding inline_step_def Let_def
    by (use lk in \<open>auto split: if_splits option.splits prod.splits list.splits simp del: drop_Suc_Cons\<close>)
qed

text \<open>The walk over the text, and \<open>parse_inlines_plain\<close>, which it calls on the label of a link.\<close>

function tokenize :: "ref_map \<Rightarrow> char option \<Rightarrow> string \<Rightarrow> string \<Rightarrow> md_tok list"
  and parse_inlines_plain :: "ref_map \<Rightarrow> string \<Rightarrow> inline list" where
  "tokenize refs prev run [] = flush run"
| "tokenize refs prev run (c # cs) =
     (if \<not> bs_contains INLINE c then tokenize refs (Some c) (run @ [c]) cs
      else case inline_step refs prev c cs run of
             Done toks p rest \<Rightarrow> toks @ tokenize refs (Some p) [] rest
           | Pending p run rest \<Rightarrow> tokenize refs (Some p) run rest
           | Label img inner dest title p rest \<Rightarrow>
               flush run @ MNode (build img dest title (parse_inlines_plain refs inner))
                 # tokenize refs (Some p) [] rest)"
| "parse_inlines_plain refs text =
     (if text = [] then []
      else if plain_run text then [IText text]
      else flatten (process_emphasis (tokenize refs None [] text) 0))"
  by pat_completeness auto
termination
  by (relation "measure (\<lambda>x. case x of Inl (refs, prev, run, s) \<Rightarrow> 2 * length s | Inr (refs, text) \<Rightarrow> Suc (2 * length text))")
    (auto dest: inline_step_length)

declare tokenize.simps(2) [simp del] parse_inlines_plain.simps [simp del]

definition parse_inlines :: "ref_map \<Rightarrow> string \<Rightarrow> inline list" where
  "parse_inlines refs text =
     (if text = [] then []
      else if plain_run text then
        (if has_autolink_signal text
         then (case scan_autolinks text of Some ps \<Rightarrow> map emit_piece ps | None \<Rightarrow> [IText text])
         else [IText text])
      else autolink_nodes (parse_inlines_plain refs text))"

end
