(* ===== verification/Md_Block.thy ===== *)
theory Md_Block
  imports Md_Inline
begin

text \<open>
  The block parser of the Markdown engine (\<open>catalerum-markdown/src/parser/block.rs\<close>, the blocks of
  \<open>ast.rs\<close>, \<open>Alignment\<close> of \<open>event.rs\<close>). The cursor of \<open>BlockParser\<close> is the list of the lines left;
  a byte offset in a line is the suffix it starts. Containers strip their prefix and recurse.
\<close>

section \<open>Blocks\<close>

datatype alignment = AlignNone | AlignLeft | AlignCenter | AlignRight

datatype block =
    Paragraph "inline list"
  | Heading nat "inline list"
  | CodeBlock string bool string
  | Quote "block list"
  | ListBlock "nat option" bool "list_item list"
  | TableBlock "alignment list" "inline list list" "inline list list list"
  | Rule
and list_item = Item "bool option" "block list"

section \<open>Line classifiers\<close>

definition blank :: "string \<Rightarrow> bool" where
  "blank line \<longleftrightarrow> trim line = []"

fun indent_from :: "nat \<Rightarrow> string \<Rightarrow> nat \<times> string" where
  "indent_from w [] = (w, [])"
| "indent_from w (c # cs) =
     (if c = SP then indent_from (w + 1) cs
      else if c = TAB then indent_from (w + (4 - w mod 4)) cs
      else (w, c # cs))"

definition split_indent :: "string \<Rightarrow> nat \<times> string" where
  "split_indent line = indent_from 0 line"

fun strip_from :: "nat \<Rightarrow> nat \<Rightarrow> string \<Rightarrow> string" where
  "strip_from w cols [] = []"
| "strip_from w cols (c # cs) =
     (if w \<ge> cols then c # cs
      else if c = SP then strip_from (w + 1) cols cs
      else if c = TAB then strip_from (w + 4) cols cs
      else c # cs)"

definition strip_indent :: "string \<Rightarrow> nat \<Rightarrow> string" where
  "strip_indent line cols = strip_from 0 cols line"

definition open_fence :: "string \<Rightarrow> (char \<times> nat) option" where
  "open_fence trimmed =
     (case trimmed of
        [] \<Rightarrow> None
      | b # _ \<Rightarrow>
          if b \<noteq> BACKTICK \<and> b \<noteq> CHR ''~'' then None
          else (let n = same_run trimmed in
                if n < 3 then None
                else if b = BACKTICK \<and> BACKTICK \<in> set (drop n trimmed) then None
                else Some (b, n)))"

definition is_closing_fence :: "string \<Rightarrow> char \<Rightarrow> nat \<Rightarrow> bool" where
  "is_closing_fence trimmed ch n \<longleftrightarrow>
     (let run = length (takeWhile (\<lambda>c. c = ch) trimmed) in n \<le> run \<and> blank (drop run trimmed))"

definition atx_heading :: "string \<Rightarrow> (nat \<times> string) option" where
  "atx_heading rest =
     (let level = length (takeWhile (\<lambda>c. c = CHR ''#'') rest); after = drop level rest in
      if level = 0 \<or> level > 6 then None
      else if after \<noteq> [] \<and> hd after \<noteq> SP then None
      else Some (level, trim_end (trim_end_by (\<lambda>c. c = CHR ''#'') (trim after))))"

definition setext_underline :: "string \<Rightarrow> nat option" where
  "setext_underline line =
     (case split_indent line of (indent, rest) \<Rightarrow>
        if indent \<ge> 4 then None
        else (case trim_end rest of
                [] \<Rightarrow> None
              | b # bs \<Rightarrow>
                  if (b = CHR ''='' \<or> b = CHR ''-'') \<and> list_all (\<lambda>c. c = b) bs
                  then Some (if b = CHR ''='' then 1 else 2) else None))"

definition is_thematic_break :: "string \<Rightarrow> bool" where
  "is_thematic_break rest \<longleftrightarrow>
     (case filter (\<lambda>c. \<not> is_whitespace c) rest of
        [] \<Rightarrow> False
      | c # cs \<Rightarrow> c \<in> set ''-*_'' \<and> list_all (\<lambda>d. d = c) cs \<and> 3 \<le> length (c # cs))"

text \<open>A list marker; the content is the text of the line behind it.\<close>

record marker =
  mk_ordered :: bool
  mk_bullet :: char
  mk_start :: nat
  mk_pad :: nat
  mk_content :: string

definition leading_spaces :: "string \<Rightarrow> nat" where
  "leading_spaces s = (let raw = length (takeWhile (\<lambda>c. c = SP) s) in if raw > 4 then 1 else raw)"

definition parse_digits :: "string \<Rightarrow> nat" where
  "parse_digits ds = foldl (\<lambda>n c. 10 * n + (code c - 48)) 0 ds"

text \<open>The part common to both kinds: spaces and content behind the marker.\<close>

definition marker_after :: "bool \<Rightarrow> char \<Rightarrow> nat \<Rightarrow> nat \<Rightarrow> string \<Rightarrow> marker option" where
  "marker_after ordered bullet start width after =
     (let spaces = leading_spaces after in
      if spaces = 0 \<and> after \<noteq> [] then None
      else Some \<lparr>mk_ordered = ordered, mk_bullet = bullet, mk_start = start,
        mk_pad = width + max spaces 1, mk_content = drop spaces after\<rparr>)"

definition list_marker :: "string \<Rightarrow> marker option" where
  "list_marker line =
     (case split_indent line of (indent, rest) \<Rightarrow>
        if indent \<ge> 4 then None
        else if rest \<noteq> [] \<and> hd rest \<in> set ''-+*'' then
          (if is_thematic_break rest then None else marker_after False (hd rest) 0 (indent + 1) (tl rest))
        else
          (let digits = takeWhile is_ascii_digit rest; more_text = dropWhile is_ascii_digit rest in
           if digits = [] \<or> length digits > 9 then None
           else if more_text = [] \<or> hd more_text \<notin> set '').'' then None
           else marker_after True (hd more_text) (parse_digits digits) (indent + length digits + 1) (tl more_text)))"

text \<open>A task marker is stripped off the first line.\<close>

definition split_task_marker :: "string list \<Rightarrow> bool option \<times> string list" where
  "split_task_marker lines =
     (case lines of
        [] \<Rightarrow> (None, lines)
      | l # ls \<Rightarrow>
          (let t = trim_start l in
           case strip_prefix ''[ ] '' t of
             Some r \<Rightarrow> (Some False, r # ls)
           | None \<Rightarrow>
               (case strip_prefix (''[ ]'' @ [TAB]) t of
                  Some r \<Rightarrow> (Some False, r # ls)
                | None \<Rightarrow>
                    (case strip_prefix ''[x] '' t of
                       Some r \<Rightarrow> (Some True, r # ls)
                     | None \<Rightarrow>
                         (case strip_prefix ''[X] '' t of
                            Some r \<Rightarrow> (Some True, r # ls)
                          | None \<Rightarrow> (None, lines))))))"

definition starts_block :: "string \<Rightarrow> bool" where
  "starts_block rest \<longleftrightarrow>
     open_fence rest \<noteq> None \<or> atx_heading rest \<noteq> None \<or> is_thematic_break rest \<or> starts_with ''>'' rest"

definition is_block_start :: "string \<Rightarrow> bool" where
  "is_block_start line \<longleftrightarrow>
     (case split_indent line of (indent, rest) \<Rightarrow>
        indent < 4 \<and> (starts_block rest \<or> list_marker line \<noteq> None))"

definition list_interrupts_paragraph :: "string \<Rightarrow> bool" where
  "list_interrupts_paragraph line \<longleftrightarrow>
     (case list_marker line of
        None \<Rightarrow> False
      | Some m \<Rightarrow> \<not> (mk_ordered m \<and> mk_start m \<noteq> 1) \<and> \<not> blank (mk_content m))"

definition is_paragraph_interrupter :: "string \<Rightarrow> bool" where
  "is_paragraph_interrupter line \<longleftrightarrow>
     (case split_indent line of (indent, rest) \<Rightarrow>
        indent < 4 \<and> (starts_block rest \<or> list_interrupts_paragraph line))"

text \<open>\<open>str::find\<close> of a text: what stands before and after its first occurrence.\<close>

fun split_at :: "string \<Rightarrow> string \<Rightarrow> (string \<times> string) option" where
  "split_at pat [] = (if pat = [] then Some ([], []) else None)"
| "split_at pat (c # cs) =
     (if starts_with pat (c # cs) then Some ([], drop (length pat) (c # cs))
      else map_option (\<lambda>(a, b). (c # a, b)) (split_at pat cs))"

definition parse_link_def :: "string \<Rightarrow> (string \<times> link_def) option" where
  "parse_link_def line =
     (case split_indent line of (indent, rest) \<Rightarrow>
        if indent \<ge> 4 \<or> \<not> starts_with ''['' rest then None
        else (case split_at '']:'' rest of
                None \<Rightarrow> None
              | Some (up_to, behind) \<Rightarrow>
                  (let label = tl up_to; after = trim behind in
                   if label = [] \<or> CHR ''['' \<in> set label then None
                   else if after = [] then None
                   else (let dest = takeWhile (\<lambda>c. \<not> is_whitespace c) after;
                             rest = dropWhile (\<lambda>c. \<not> is_whitespace c) after;
                             title = (case rest of [] \<Rightarrow> []
                               | _ # t \<Rightarrow> trim_matches (\<lambda>c. c \<in> set ([QUOTE, APOS] @ ''()'')) (trim t))
                         in Some (normalize_label label,
                              \<lparr>ld_dest = trim_matches (\<lambda>c. c \<in> set ''<>'') dest, ld_title = title\<rparr>)))))"

section \<open>Tables\<close>

fun row_cells :: "string \<Rightarrow> string \<Rightarrow> string list" where
  "row_cells cur [] = [trim cur]"
| "row_cells cur (c # cs) =
     (if c = BACKSLASH then (case cs of [] \<Rightarrow> [trim (cur @ [c])] | e # cs' \<Rightarrow> row_cells (cur @ [c, e]) cs')
      else if c = CHR ''|'' then trim cur # row_cells [] cs
      else row_cells (cur @ [c]) cs)"

definition split_table_row :: "string \<Rightarrow> string list" where
  "split_table_row line =
     (let t = trim line;
          t = (case strip_prefix ''|'' t of Some r \<Rightarrow> r | None \<Rightarrow> t);
          t = (case strip_suffix ''|'' t of Some r \<Rightarrow> r | None \<Rightarrow> t)
      in row_cells [] t)"

definition is_table_delimiter :: "string \<Rightarrow> bool" where
  "is_table_delimiter line \<longleftrightarrow>
     (let t = trim line in
      t \<noteq> [] \<and> list_all (\<lambda>c. c \<in> set ''|-: '') t \<and>
      (let cols = split_table_row line in
       cols \<noteq> [] \<and> list_all (\<lambda>c.
         let body = trim_matches (\<lambda>x. x = CHR '':'') (trim c) in body \<noteq> [] \<and> list_all (\<lambda>x. x = CHR ''-'') body) cols))"

definition cell_alignment :: "string \<Rightarrow> alignment" where
  "cell_alignment cell =
     (let c = trim cell in
      case (starts_with '':'' c, ends_with '':'' c) of
        (True, True) \<Rightarrow> AlignCenter | (True, False) \<Rightarrow> AlignLeft
      | (False, True) \<Rightarrow> AlignRight | (False, False) \<Rightarrow> AlignNone)"

definition table_alignments :: "string \<Rightarrow> alignment list" where
  "table_alignments delim = map cell_alignment (split_table_row delim)"

definition table_starts_here :: "string list \<Rightarrow> bool" where
  "table_starts_here lines \<longleftrightarrow>
     (case lines of header # delim # _ \<Rightarrow> CHR ''|'' \<in> set header \<and> is_table_delimiter delim | _ \<Rightarrow> False)"

definition parse_table :: "ref_map \<Rightarrow> string list \<Rightarrow> block \<times> string list" where
  "parse_table refs lines =
     (let cells = (\<lambda>line. map (parse_inlines refs) (split_table_row line));
          in_table = (\<lambda>line. \<not> blank line \<and> CHR ''|'' \<in> set line);
          body = drop 2 lines
      in (TableBlock (table_alignments (lines ! 1)) (cells (lines ! 0)) (map cells (takeWhile in_table body)),
          dropWhile in_table body))"

section \<open>Code\<close>

fun indented_code :: "string \<Rightarrow> nat \<Rightarrow> string list \<Rightarrow> string \<times> string list" where
  "indented_code literal pending [] = (literal, [])"
| "indented_code literal pending (line # lines) =
     (if blank line then indented_code literal (Suc pending) lines
      else if fst (split_indent line) < 4 then (literal, line # lines)
      else (let literal = literal @ replicate pending NL;
                literal = (if literal \<noteq> [] then literal @ [NL] else literal)
            in indented_code (literal @ strip_indent line 4) 0 lines))"

fun fenced_code :: "char \<Rightarrow> nat \<Rightarrow> nat \<Rightarrow> string \<Rightarrow> string list \<Rightarrow> string \<times> string list" where
  "fenced_code ch n indent literal [] = (literal, [])"
| "fenced_code ch n indent literal (line # lines) =
     (if is_closing_fence (trim_start line) ch n then (literal, lines)
      else fenced_code ch n indent
             ((if literal \<noteq> [] then literal @ [NL] else literal) @ strip_indent line indent) lines)"

fun unescape :: "string \<Rightarrow> string" where
  "unescape [] = []"
| "unescape (c # cs) =
     (if c = BACKSLASH \<and> cs \<noteq> [] \<and> is_ascii_punctuation (hd cs) then hd cs # unescape (tl cs)
      else c # unescape cs)"

text \<open>Behind the opening fence.\<close>

definition parse_fenced_code :: "char \<Rightarrow> nat \<Rightarrow> string \<Rightarrow> string list \<Rightarrow> block \<times> string list" where
  "parse_fenced_code ch n opening lines =
     (case split_indent opening of (indent, rest) \<Rightarrow>
        (case fenced_code ch n indent [] lines of (literal, lines) \<Rightarrow>
           (CodeBlock (unescape (first_word (trim (drop n rest)))) False literal, lines)))"

section \<open>Containers\<close>

fun quote_lines :: "string list \<Rightarrow> string list \<times> string list" where
  "quote_lines [] = ([], [])"
| "quote_lines (line # lines) =
     (case split_indent line of (indent, rest) \<Rightarrow>
        if indent < 4 \<and> starts_with ''>'' rest then
          (let after = tl rest; inner = (case strip_prefix [SP] after of Some r \<Rightarrow> r | None \<Rightarrow> after)
           in case quote_lines lines of (ls, more_lines) \<Rightarrow> (inner # ls, more_lines))
        else if blank line then ([], line # lines)
        else if \<not> is_block_start line then (case quote_lines lines of (ls, more_lines) \<Rightarrow> (line # ls, more_lines))
        else ([], line # lines))"

text \<open>The lines of an item behind its first one, the count of blank lines at its end, whether a blank
  line stood inside, and the lines left.\<close>

fun item_lines :: "nat \<Rightarrow> nat \<Rightarrow> bool \<Rightarrow> string list \<Rightarrow> string list \<times> nat \<times> bool \<times> string list" where
  "item_lines pad trailing internal [] = ([], trailing, internal, [])"
| "item_lines pad trailing internal (line # lines) =
     (if blank line then
        (case item_lines pad (Suc trailing) internal lines of (ls, r) \<Rightarrow> ([] # ls, r))
      else if fst (split_indent line) \<ge> pad then
        (case item_lines pad 0 (internal \<or> trailing > 0) lines of (ls, r) \<Rightarrow> (strip_indent line pad # ls, r))
      else if trailing = 0 \<and> \<not> is_block_start line then
        (case item_lines pad trailing internal lines of (ls, r) \<Rightarrow> (line # ls, r))
      else ([], trailing, internal, line # lines))"

definition drop_trailing_blanks :: "string list \<Rightarrow> string list" where
  "drop_trailing_blanks ls = rev (dropWhile (\<lambda>l. l = []) (rev ls))"

definition marker_of :: "string list \<Rightarrow> marker option" where
  "marker_of lines = list_marker (case lines of [] \<Rightarrow> [] | l # _ \<Rightarrow> l)"

lemma item_lines_rest: "item_lines pad t i lines = (ls, t', i', rest) \<Longrightarrow> length rest \<le> length lines"
proof (induction pad t i lines arbitrary: ls rule: item_lines.induct)
  case (2 pad t i line lines)
  then show ?case by (fastforce split: if_splits prod.splits)
qed simp

text \<open>The items of a list: the task marker and the lines of each, whether the list is tight, and the
  lines left.\<close>

function list_items :: "marker \<Rightarrow> bool \<Rightarrow> string list \<Rightarrow> (bool option \<times> string list) list \<times> bool \<times> string list" where
  "list_items first tight [] = ([], tight, [])"
| "list_items first tight (line # lines) =
     (case list_marker line of
        None \<Rightarrow> ([], tight, line # lines)
      | Some m \<Rightarrow>
          if mk_ordered m \<noteq> mk_ordered first \<or> mk_bullet m \<noteq> mk_bullet first then ([], tight, line # lines)
          else (case item_lines (mk_pad m) 0 False lines of
                  (ls, trailing, internal, rest) \<Rightarrow>
                    (let own = drop_trailing_blanks (mk_content m # ls);
                         tight = (tight \<and> \<not> (trailing > 0 \<and> marker_of rest \<noteq> None) \<and> \<not> internal)
                     in case list_items first tight rest of
                          (items, tight, rest) \<Rightarrow> (split_task_marker own # items, tight, rest))))"
  by pat_completeness auto
termination
  by (relation "measure (\<lambda>(_, _, lines). length lines)") (auto dest!: sym[THEN item_lines_rest])

declare list_items.simps(2) [simp del]

fun paragraph_from :: "string \<Rightarrow> string list \<Rightarrow> nat option \<times> string \<times> string list" where
  "paragraph_from txt [] = (None, txt, [])"
| "paragraph_from txt (line # lines) =
     (if blank line then (None, txt, line # lines)
      else case setext_underline line of
             Some level \<Rightarrow> (Some level, txt, lines)
           | None \<Rightarrow>
               if is_paragraph_interrupter line \<or> table_starts_here (line # lines) then (None, txt, line # lines)
               else paragraph_from (txt @ [NL] @ trim_start line) lines)"

section \<open>The parser\<close>

text \<open>Sizes, for termination: every character and every line counts.\<close>

definition lines_size :: "string list \<Rightarrow> nat" where
  "lines_size ls = sum_list (map (\<lambda>l. Suc (length l)) ls)"

lemma lines_size_simps [simp]:
  "lines_size [] = 0" "lines_size (l # ls) = Suc (length l) + lines_size ls"
  "lines_size (xs @ ys) = lines_size xs + lines_size ys"
  by (simp_all add: lines_size_def)

lemma indent_from_length: "indent_from w s = (i, r) \<Longrightarrow> length r \<le> length s"
  by (induction w s rule: indent_from.induct) (auto split: if_splits)

lemma split_indent_length: "split_indent s = (i, r) \<Longrightarrow> length r \<le> length s"
  unfolding split_indent_def by (rule indent_from_length)

lemma strip_from_length: "length (strip_from w cols s) \<le> length s"
  by (induction w cols s rule: strip_from.induct) auto

lemma strip_indent_length: "length (strip_indent s cols) \<le> length s"
  by (simp add: strip_indent_def strip_from_length)

lemma strip_prefix_length: "strip_prefix p s = Some r \<Longrightarrow> length r \<le> length s"
  by (auto simp: strip_prefix_def split: if_splits)

lemma marker_after_length: "marker_after o1 b st w after = Some m \<Longrightarrow> length (mk_content m) \<le> length after"
  by (auto simp: marker_after_def Let_def split: if_splits)

lemma list_marker_length:
  assumes "list_marker line = Some m"
  shows "length (mk_content m) < length line"
proof -
  obtain i rest where r: "split_indent line = (i, rest)" by (cases "split_indent line")
  note len = split_indent_length[OF r]
  show ?thesis
  proof (cases "rest \<noteq> [] \<and> hd rest \<in> set ''-+*''")
    case True
    then have m: "marker_after False (hd rest) 0 (i + 1) (tl rest) = Some m"
      using assms r by (auto simp: list_marker_def split: if_splits)
    then show ?thesis using marker_after_length[OF m] len True by (cases rest) auto
  next
    case False
    let ?t = "dropWhile is_ascii_digit rest"
    obtain n w where m: "marker_after True (hd ?t) n w (tl ?t) = Some m" and t: "?t \<noteq> []"
      using assms r False by (auto simp: list_marker_def Let_def split: if_splits)
    have "length (tl ?t) < length rest" using t length_dropWhile_le[of is_ascii_digit rest] by (cases ?t) auto
    then show ?thesis using marker_after_length[OF m] len by simp
  qed
qed

lemma indented_code_rest: "lines_size (snd (indented_code lit p lines)) \<le> lines_size lines"
proof (induction lines arbitrary: lit p)
  case (Cons line lines)
  have "lines_size (snd (indented_code a b lines)) \<le> lines_size (line # lines)" for a b
    using Cons[of a b] by simp
  then show ?case by (simp add: Let_def del: lines_size_simps(2))
qed simp

lemma indented_code_less:
  assumes "\<not> blank line" "4 \<le> fst (split_indent line)"
  shows "lines_size (snd (indented_code lit p (line # lines))) < lines_size (line # lines)"
  using assms by (simp add: Let_def) (intro conjI impI le_imp_less_Suc trans_le_add2 indented_code_rest)

lemma fenced_code_rest: "lines_size (snd (fenced_code ch n i lit lines)) \<le> lines_size lines"
  by (induction ch n i lit lines rule: fenced_code.induct) auto

lemma quote_lines_size: "quote_lines lines = (ls, rest) \<Longrightarrow> lines_size ls + lines_size rest \<le> lines_size lines"
proof (induction lines arbitrary: ls)
  case (Cons line lines)
  obtain i r where r: "split_indent line = (i, r)" by (cases "split_indent line")
  note len = split_indent_length[OF r]
  obtain ls' rest' where q: "quote_lines lines = (ls', rest')" by (cases "quote_lines lines")
  have "length (case strip_prefix [SP] (tl r) of Some x \<Rightarrow> x | None \<Rightarrow> tl r) \<le> length line"
    using len strip_prefix_length[of "[SP]" "tl r"] by (auto split: option.split)
  then show ?case using Cons r q by (auto simp: Let_def split: if_splits)
qed simp

lemma quote_lines_less:
  assumes "quote_lines (line # lines) = (ls, rest)" "fst (split_indent line) < 4" "starts_with ''>'' (snd (split_indent line))"
  shows "lines_size ls < lines_size (line # lines)" "lines_size rest < lines_size (line # lines)"
proof -
  obtain i r where r: "split_indent line = (i, r)" by (cases "split_indent line")
  have ne: "r \<noteq> []" using assms(3) r by auto
  note len = split_indent_length[OF r]
  obtain ls' rest' where q: "quote_lines lines = (ls', rest')" by (cases "quote_lines lines")
  note size = quote_lines_size[OF q]
  let ?inner = "case strip_prefix [SP] (tl r) of Some x \<Rightarrow> x | None \<Rightarrow> tl r"
  have "length ?inner \<le> length (tl r)" using strip_prefix_length[of "[SP]" "tl r"] by (auto split: option.split)
  then have inner: "length ?inner < length line" using len ne by (cases r) auto
  have "ls = ?inner # ls'" "rest = rest'" using assms r q by (auto simp: Let_def)
  then show "lines_size ls < lines_size (line # lines)" "lines_size rest < lines_size (line # lines)"
    using size inner by simp_all
qed

lemma item_lines_size: "item_lines pad t i lines = (ls, t', i', rest) \<Longrightarrow> lines_size ls + lines_size rest \<le> lines_size lines"
proof (induction pad t i lines arbitrary: ls rule: item_lines.induct)
  case (2 pad t i line lines)
  then show ?case using strip_indent_length[of line pad] by (fastforce split: if_splits prod.splits)
qed simp

lemma drop_trailing_size: "lines_size (drop_trailing_blanks ls) \<le> lines_size ls"
proof -
  have rev: "lines_size (rev xs) = lines_size xs" for xs by (induction xs) auto
  have "lines_size (dropWhile P xs) \<le> lines_size xs" for P xs by (induction xs) auto
  then show ?thesis unfolding drop_trailing_blanks_def rev by (metis rev)
qed

lemma split_task_size: "split_task_marker ls = (t, ls') \<Longrightarrow> lines_size ls' \<le> lines_size ls"
proof (cases ls)
  case (Cons l r)
  assume s: "split_task_marker ls = (t, ls')"
  have l: "length (trim_start l) \<le> length l" by (simp add: trim_start_def length_dropWhile_le)
  have "strip_prefix p (trim_start l) = Some x \<Longrightarrow> length x \<le> length l" for p x
    using strip_prefix_length[of p "trim_start l" x] l by simp
  then show ?thesis using s Cons by (auto simp: split_task_marker_def Let_def split: option.splits)
qed (simp add: split_task_marker_def)

lemma list_items_size:
  assumes "list_items first tight lines = (items, tight', rest)"
  shows "lines_size rest \<le> lines_size lines \<and> (\<forall>(t, ls)\<in>set items. lines_size ls < lines_size lines)"
  using assms
proof (induction first tight lines arbitrary: items tight' rest rule: list_items.induct)
  case (2 first tight line lines)
  show ?case
  proof (cases "\<exists>m. list_marker line = Some m \<and> mk_ordered m = mk_ordered first \<and> mk_bullet m = mk_bullet first")
    case True
    then obtain m where m: "list_marker line = Some m" "mk_ordered m = mk_ordered first" "mk_bullet m = mk_bullet first" by blast
    obtain ls trailing internal rest1 where il: "item_lines (mk_pad m) 0 False lines = (ls, trailing, internal, rest1)"
      by (cases "item_lines (mk_pad m) 0 False lines") auto
    let ?tight = "tight \<and> \<not> (trailing > 0 \<and> marker_of rest1 \<noteq> None) \<and> \<not> internal"
    obtain items1 tight1 rest2 where li: "list_items first ?tight rest1 = (items1, tight1, rest2)"
      by (cases "list_items first ?tight rest1") auto
    obtain t own where own: "split_task_marker (drop_trailing_blanks (mk_content m # ls)) = (t, own)" by fastforce
    have res: "items = (t, own) # items1" "rest = rest2"
      using 2(2) m il li own by (auto simp: list_items.simps(2) Let_def)
    note IH = 2(1)[OF m(1) _ il[symmetric] refl refl refl refl li]
    have "lines_size own < lines_size (line # lines)"
      using split_task_size[OF own] drop_trailing_size[of "mk_content m # ls"] list_marker_length[OF m(1)] item_lines_size[OF il]
      by simp
    moreover have "lines_size rest1 < lines_size (line # lines)" using item_lines_size[OF il] by simp
    ultimately show ?thesis using IH m res by fastforce
  next
    case False
    then show ?thesis using 2(2) by (auto simp: list_items.simps(2) split: option.splits)
  qed
qed simp

lemma paragraph_from_rest: "paragraph_from acc lines = (lv, t, rest) \<Longrightarrow> lines_size rest \<le> lines_size lines"
proof (induction acc lines rule: paragraph_from.induct)
  case (2 acc line lines)
  then show ?case by (fastforce split: if_splits option.splits)
qed simp

lemma lines_size_drop: "lines_size (dropWhile P xs) \<le> lines_size xs" "lines_size (drop k xs) \<le> lines_size xs"
proof -
  show "lines_size (dropWhile P xs) \<le> lines_size xs" by (induction xs) auto
  show "lines_size (drop k xs) \<le> lines_size xs"
    using lines_size_simps(3)[of "take k xs" "drop k xs"] by simp
qed

lemma parse_table_rest: "lines_size (snd (parse_table refs (l # ls))) < lines_size (l # ls)"
  using order_trans[OF lines_size_drop(1) lines_size_drop(2)[of 1 ls]]
  by (simp add: parse_table_def Let_def) (intro le_imp_less_Suc trans_le_add2, simp)

lemma marked_items:
  assumes "list_marker line = Some m" "list_items m True (line # lines) = (items, tight, rest)"
  shows "lines_size rest < lines_size (line # lines)" "\<forall>(t, ls)\<in>set items. lines_size ls < lines_size (line # lines)"
proof -
  obtain ls trailing internal rest1 where il: "item_lines (mk_pad m) 0 False lines = (ls, trailing, internal, rest1)"
    by (cases "item_lines (mk_pad m) 0 False lines") auto
  obtain tight1 items1 tight2 rest2 where li: "list_items m tight1 rest1 = (items1, tight2, rest2)" "rest = rest2"
    using assms il by (auto simp: list_items.simps(2) Let_def split: prod.splits)
  have "lines_size rest2 \<le> lines_size rest1" using list_items_size[OF li(1)] by simp
  then show "lines_size rest < lines_size (line # lines)" using item_lines_size[OF il] li(2) by simp
  show "\<forall>(t, ls)\<in>set items. lines_size ls < lines_size (line # lines)" using list_items_size[OF assms(2)] by simp
qed

text \<open>One round of the loop: a finished block, a container with the lines to parse for it, or nothing;
  and the lines left.\<close>

datatype round =
    Blocks "block list"
  | OpenQuote "string list"
  | OpenList "nat option" bool "(bool option \<times> string list) list"

definition block_round :: "ref_map \<Rightarrow> string \<Rightarrow> string list \<Rightarrow> round \<times> string list" where
  "block_round refs line lines =
     (case split_indent line of (indent, rest) \<Rightarrow>
        if blank line then (Blocks [], lines)
        else if indent \<ge> 4 then
          (case indented_code [] 0 (line # lines) of (literal, left) \<Rightarrow> (Blocks [CodeBlock [] True literal], left))
        else case open_fence rest of
          Some (ch, n) \<Rightarrow> (case parse_fenced_code ch n line lines of (b, left) \<Rightarrow> (Blocks [b], left))
        | None \<Rightarrow>
        (case atx_heading rest of
          Some (level, content) \<Rightarrow> (Blocks [Heading level (parse_inlines refs content)], lines)
        | None \<Rightarrow>
        if is_thematic_break rest then (Blocks [Rule], lines)
        else if starts_with ''>'' rest then
          (case quote_lines (line # lines) of (inner, left) \<Rightarrow> (OpenQuote inner, left))
        else case list_marker line of
          Some m \<Rightarrow>
            (case list_items m True (line # lines) of (items, tight, left) \<Rightarrow>
               (OpenList (if mk_ordered m then Some (mk_start m) else None) tight items, left))
        | None \<Rightarrow>
            if table_starts_here (line # lines) then
              (case parse_table refs (line # lines) of (b, left) \<Rightarrow> (Blocks [b], left))
            else if parse_link_def line \<noteq> None then (Blocks [], lines)
            else (case paragraph_from (trim_start line) lines of
                    (Some level, t, left) \<Rightarrow> (Blocks [Heading level (parse_inlines refs t)], left)
                  | (None, t, left) \<Rightarrow> (Blocks [Paragraph (parse_inlines refs t)], left))))"

lemma block_round_less:
  assumes "block_round refs line lines = (r, left)"
  shows "lines_size left < lines_size (line # lines)"
    and "r = OpenQuote inner \<Longrightarrow> lines_size inner < lines_size (line # lines)"
    and "r = OpenList st tight items \<Longrightarrow> \<forall>(t, ls)\<in>set items. lines_size ls < lines_size (line # lines)"
proof -
  obtain indent rest where i: "split_indent line = (indent, rest)" by (cases "split_indent line")
  note R = assms[unfolded block_round_def i prod.case]
  consider (blank) "blank line" | (indented) "\<not> blank line" "4 \<le> indent"
    | (fence) ch n where "\<not> blank line" "\<not> 4 \<le> indent" "open_fence rest = Some (ch, n)"
    | (quote) "\<not> blank line" "\<not> 4 \<le> indent" "open_fence rest = None" "starts_with ''>'' rest" "\<exists>inner left. quote_lines (line # lines) = (inner, left) \<and> r = OpenQuote inner"
    | (flat) "r \<in> range Blocks" "left = lines"
    | (listed) m where "list_marker line = Some m" "\<exists>items tight. list_items m True (line # lines) = (items, tight, left) \<and> (\<exists>st. r = OpenList st tight items)"
    | (table) b where "parse_table refs (line # lines) = (b, left)" "r = Blocks [b]"
    | (para) lv t where "paragraph_from (trim_start line) lines = (lv, t, left)" "r \<in> range Blocks"
    using R by (auto split: if_splits option.splits prod.splits)
  note cases = this
  have fenced: "lines_size left' \<le> lines_size lines" if "parse_fenced_code ch n line lines = (b, left')" for ch n b left'
    using that fenced_code_rest[of ch n indent "[]" lines] i by (auto simp: parse_fenced_code_def split: prod.splits)
  show "lines_size left < lines_size (line # lines)"
    using cases
  proof cases
    case indented
    have "left = snd (indented_code [] 0 (line # lines))" using R indented by (auto split: prod.splits)
    then show ?thesis using indented_code_less[of line "[]" 0 lines] indented i by simp
  next
    case fence
    then show ?thesis using R fenced[of ch n] by (force split: prod.splits intro: le_imp_less_Suc)
  next
    case quote
    then have "quote_lines (line # lines) = (fst (quote_lines (line # lines)), left)"
      using R by (auto split: prod.splits option.splits if_splits)
    then show ?thesis using quote_lines_less(2) quote i by (metis fst_conv not_le_imp_less snd_conv)
  next
    case listed
    then show ?thesis using marked_items(1) by blast
  next
    case table
    then show ?thesis using parse_table_rest[of refs line lines] by simp
  next
    case para
    then show ?thesis using paragraph_from_rest[OF para(1)] by simp
  qed (use R in auto)
  show "lines_size inner < lines_size (line # lines)" if q: "r = OpenQuote inner"
    using cases
  proof cases
    case quote
    then show ?thesis using q quote_lines_less(1)[of line lines inner] i by auto
  qed (use q R in \<open>auto split: prod.splits\<close>)
  show "\<forall>(t, ls)\<in>set items. lines_size ls < lines_size (line # lines)" if q: "r = OpenList st tight items"
    using cases
  proof cases
    case listed
    then show ?thesis using q marked_items(2) by blast
  qed (use q R in \<open>auto split: prod.splits\<close>)
qed

function parse_blocks :: "ref_map \<Rightarrow> string list \<Rightarrow> block list" where
  "parse_blocks refs [] = []"
| "parse_blocks refs (line # lines) =
     (case block_round refs line lines of
        (Blocks bs, left) \<Rightarrow> bs @ parse_blocks refs left
      | (OpenQuote inner, left) \<Rightarrow> Quote (parse_blocks refs inner) # parse_blocks refs left
      | (OpenList start tight items, left) \<Rightarrow>
          ListBlock start tight (map (\<lambda>(task, ls). Item task (parse_blocks refs ls)) items) # parse_blocks refs left)"
  by pat_completeness auto
termination
proof (relation "measure (\<lambda>(refs, lines). lines_size lines)", goal_cases)
  case (2 refs line lines r left bs)
  then show ?case using block_round_less(1)[of refs line lines r left] by simp
next
  case (3 refs line lines r left inner)
  then show ?case using block_round_less(2)[of refs line lines r left inner] by simp
next
  case (4 refs line lines r left inner)
  then show ?case using block_round_less(1)[of refs line lines r left] by simp
next
  case (5 refs line lines r left start tight items item task ls)
  then show ?case using block_round_less(3)[of refs line lines r left start tight items] by auto
next
  case (6 refs line lines r left start tight items)
  then show ?case using block_round_less(1)[of refs line lines r left] by simp
qed simp

declare parse_blocks.simps(2) [simp del]

section \<open>Documents\<close>

definition strip_cr :: "string \<Rightarrow> string" where
  "strip_cr line = (case strip_suffix [CR] line of Some l \<Rightarrow> l | None \<Rightarrow> line)"

definition split_lines :: "string \<Rightarrow> string list" where
  "split_lines input =
     (let out = map strip_cr (split_on NL input)
      in if ends_with [NL] input then butlast out else out)"

text \<open>The definitions outside fenced code; the first of a label wins.\<close>

fun collect_refs :: "(char \<times> nat) option \<Rightarrow> string list \<Rightarrow> ref_map \<Rightarrow> ref_map" where
  "collect_refs in_fence [] refs = refs"
| "collect_refs in_fence (line # lines) refs =
     (let t = trim_start line in
      case in_fence of
        Some (ch, n) \<Rightarrow> collect_refs (if is_closing_fence t ch n then None else in_fence) lines refs
      | None \<Rightarrow>
          (case open_fence t of
             Some f \<Rightarrow> collect_refs (Some f) lines refs
           | None \<Rightarrow>
               (case parse_link_def line of
                  Some (label, def) \<Rightarrow>
                    collect_refs None lines (if refs label = None then refs(label \<mapsto> def) else refs)
                | None \<Rightarrow> collect_refs None lines refs)))"

definition parse_document :: "string \<Rightarrow> block list" where
  "parse_document input =
     (let lines = split_lines input in parse_blocks (collect_refs None lines (\<lambda>_. None)) lines)"

end
