(* ===== verification/Md_Html.thy ===== *)
theory Md_Html
  imports Md_Block
begin

text \<open>
  The HTML renderer of the Markdown engine (\<open>catalerum-markdown/src/render/html.rs\<close>) and the MathML
  renderer of \<open>math.rs\<close>. Appending to the output buffer is concatenation. The LaTeX parser
  (\<open>latex\<close>, with its symbol tables) and the diagram renderers behind \<open>mermaid::to_svg\<close> (\<open>to_svg\<close>, \<open>None\<close> for
  its error) are arguments: what is shown of the output holds for every tree the one answers. The
  literals the parser puts into attributes (\<open>&'static str\<close>) are enumerated.
\<close>

section \<open>MathML\<close>

datatype col = ColLeft | ColCenter | ColRight

datatype variant = DoubleStruck | Script | Fraktur | Bold | Italic | Normal

datatype space_width = Em025 | Em017 | Em028 | Em022 | EmNeg017 | Em044 | Em1 | Em2

fun col_str :: "col \<Rightarrow> string" where
  "col_str ColLeft = ''left''" | "col_str ColCenter = ''center''" | "col_str ColRight = ''right''"

fun variant_str :: "variant \<Rightarrow> string" where
  "variant_str DoubleStruck = ''double-struck''" | "variant_str Script = ''script''" | "variant_str Fraktur = ''fraktur''"
| "variant_str Bold = ''bold''" | "variant_str Italic = ''italic''" | "variant_str Normal = ''normal''"

fun width_str :: "space_width \<Rightarrow> string" where
  "width_str Em025 = ''0.25em''" | "width_str Em017 = ''0.17em''" | "width_str Em028 = ''0.28em''"
| "width_str Em022 = ''0.22em''" | "width_str EmNeg017 = ''-0.17em''" | "width_str Em044 = ''0.44em''"
| "width_str Em1 = ''1em''" | "width_str Em2 = ''2em''"

datatype m =
    MRow "m list" | MIdent string bool | MNumber string | MOp string bool | MText string
  | MFrac m m | MSqrt m | MRoot m m
  | MScripts m "m option" "m option" bool
  | MFenced string m string
  | MTable string string "m list list" "col list"
  | MStyled variant m
  | MAccent m string bool bool
  | MBinom m m | MBoxed m | MRule m bool | MStack m m bool
  | MSpace space_width | MPhantom

definition is_math_lang :: "string \<Rightarrow> bool" where
  "is_math_lang lang \<longleftrightarrow>
     eq_ignore_ascii_case lang ''math'' \<or> eq_ignore_ascii_case lang ''latex'' \<or> eq_ignore_ascii_case lang ''tex''"

definition array_columnalign :: "string \<Rightarrow> col list" where
  "array_columnalign spec =
     List.map_filter (\<lambda>ch. if ch = CHR ''l'' then Some ColLeft else if ch = CHR ''c'' then Some ColCenter
                       else if ch = CHR ''r'' then Some ColRight else None) spec"

fun join_cols :: "col list \<Rightarrow> string" where
  "join_cols [] = []"
| "join_cols [c] = col_str c"
| "join_cols (c # cs) = col_str c @ '' '' @ join_cols cs"

definition group_nodes :: "m list \<Rightarrow> m" where
  "group_nodes v = (case v of [x] \<Rightarrow> x | _ \<Rightarrow> MRow v)"

definition delim :: "string \<Rightarrow> string" where
  "delim s = (if s = [] then [] else ''<mo stretchy=\"true\">'' @ escape_text s @ ''</mo>'')"

definition mo :: "string \<Rightarrow> bool \<Rightarrow> string" where
  "mo s stretchy = (if stretchy then ''<mo stretchy=\"true\">'' else ''<mo>'') @ escape_text s @ ''</mo>''"

fun scripts_tag :: "bool \<Rightarrow> bool \<Rightarrow> bool \<Rightarrow> string" where
  "scripts_tag True True True = ''munderover''"
| "scripts_tag True True False = ''msubsup''"
| "scripts_tag True False True = ''munder''"
| "scripts_tag True False False = ''msub''"
| "scripts_tag False True True = ''mover''"
| "scripts_tag False True False = ''msup''"
| "scripts_tag False False _ = ''mrow''"

definition open_element :: "string \<Rightarrow> string" where
  "open_element tag = ''<'' @ tag @ ''>''"

definition close_element :: "string \<Rightarrow> string" where
  "close_element tag = ''</'' @ tag @ ''>''"

text \<open>\<open>render_arg\<close>: the markup of a node that has to be one element.\<close>

definition arg_markup :: "m \<Rightarrow> string \<Rightarrow> string" where
  "arg_markup node markup = (if node = MPhantom then ''<mrow></mrow>'' else markup)"

text \<open>\<open>render\<close> (no variant) and \<open>render_styled\<close> (a variant, which reaches the leaves through rows
  only) share the arms a variant does not change.\<close>

fun render_m :: "variant option \<Rightarrow> m \<Rightarrow> string" where
  "render_m v (MRow ns) =
     (case v of None \<Rightarrow> ''<mrow>'' @ concat (map (render_m None) ns) @ ''</mrow>''
      | Some _ \<Rightarrow> concat (map (render_m v) ns))"
| "render_m v (MIdent s normal) =
     (case v of None \<Rightarrow> if normal then ''<mi mathvariant=\"normal\">'' else ''<mi>''
      | Some w \<Rightarrow> ''<mi mathvariant=\"'' @ variant_str w @ ''\">'') @ escape_text s @ ''</mi>''"
| "render_m v (MNumber s) =
     (case v of None \<Rightarrow> ''<mn>'' | Some w \<Rightarrow> ''<mn mathvariant=\"'' @ variant_str w @ ''\">'') @ escape_text s @ ''</mn>''"
| "render_m v (MOp s stretchy) = mo s stretchy"
| "render_m v (MText s) = ''<mtext>'' @ escape_text s @ ''</mtext>''"
| "render_m v (MFrac a b) =
     ''<mfrac>'' @ arg_markup a (render_m None a) @ arg_markup b (render_m None b) @ ''</mfrac>''"
| "render_m v (MSqrt a) = ''<msqrt>'' @ render_m None a @ ''</msqrt>''"
| "render_m v (MRoot rad idx) =
     ''<mroot>'' @ arg_markup rad (render_m None rad) @ arg_markup idx (render_m None idx) @ ''</mroot>''"
| "render_m v (MScripts base sub super limits) =
     (let tag = scripts_tag (sub \<noteq> None) (super \<noteq> None) limits in
      open_element tag @ arg_markup base (render_m None base)
      @ (case sub of Some s \<Rightarrow> arg_markup s (render_m None s) | None \<Rightarrow> [])
      @ (case super of Some s \<Rightarrow> arg_markup s (render_m None s) | None \<Rightarrow> [])
      @ close_element tag)"
| "render_m v (MFenced left body right) = ''<mrow>'' @ delim left @ render_m None body @ delim right @ ''</mrow>''"
| "render_m v (MTable left right rows col_align) =
     ''<mrow>'' @ delim left
     @ (if col_align = [] then ''<mtable>'' else ''<mtable columnalign=\"'' @ join_cols col_align @ ''\">'')
     @ concat (map (\<lambda>row. ''<mtr>'' @ concat (map (\<lambda>cell. ''<mtd>'' @ render_m None cell @ ''</mtd>'') row) @ ''</mtr>'') rows)
     @ ''</mtable>'' @ delim right @ ''</mrow>''"
| "render_m v (MStyled w inner) = ''<mrow>'' @ render_m (Some w) inner @ ''</mrow>''"
| "render_m v (MAccent base glyph over stretchy) =
     (let tag = (if over then ''mover'' else ''munder'') in
      ''<'' @ tag @ '' accent=\"true\">'' @ arg_markup base (render_m None base) @ mo glyph stretchy @ close_element tag)"
| "render_m v (MStack base mark over) =
     (let tag = (if over then ''mover'' else ''munder'') in
      open_element tag @ arg_markup base (render_m None base) @ arg_markup mark (render_m None mark) @ close_element tag)"
| "render_m v (MBinom n k) =
     ''<mrow><mo stretchy=\"true\">(</mo><mfrac linethickness=\"0\">'' @ arg_markup n (render_m None n)
     @ arg_markup k (render_m None k) @ ''</mfrac><mo stretchy=\"true\">)</mo></mrow>''"
| "render_m v (MBoxed inner) =
     ''<mrow style=\"border:1px solid currentColor;padding:0.15em 0.35em\">'' @ render_m None inner @ ''</mrow>''"
| "render_m v (MRule base is_under) =
     (let edge = (if is_under then ''bottom'' else ''top'') in
      ''<mrow style=\"border-'' @ edge @ '':0.06em solid currentColor;padding-'' @ edge @ '':0.1em\">''
      @ render_m None base @ ''</mrow>'')"
| "render_m v (MSpace w) = ''<mspace width=\"'' @ width_str w @ ''\"/>''"
| "render_m v MPhantom = []"

definition render_seq :: "m list \<Rightarrow> string" where
  "render_seq nodes = concat (map (render_m None) nodes)"

definition to_mathml :: "(string \<Rightarrow> m list) \<Rightarrow> string \<Rightarrow> bool \<Rightarrow> string" where
  "to_mathml latex s display =
     (if display then ''<math xmlns=\"http://www.w3.org/1998/Math/MathML\" display=\"block\">''
      else ''<math xmlns=\"http://www.w3.org/1998/Math/MathML\">'') @ render_seq (latex s) @ ''</math>''"

section \<open>Inline content\<close>

definition wrap_element :: "string \<Rightarrow> string \<Rightarrow> string" where
  "wrap_element tag content = open_element tag @ content @ close_element tag"

definition title_attr :: "string \<Rightarrow> string" where
  "title_attr title = (if title = [] then [] else '' title=\"'' @ escape_attr title @ ''\"'')"

text \<open>An unsafe destination leaves the label.\<close>

fun render_inline :: "(string \<Rightarrow> m list) \<Rightarrow> inline \<Rightarrow> string" where
  "render_inline latex (IText t) = escape_text t"
| "render_inline latex (ICode t) = ''<code>'' @ escape_text t @ ''</code>''"
| "render_inline latex (IEmph c) = wrap_element ''em'' (concat (map (render_inline latex) c))"
| "render_inline latex (IStrong c) = wrap_element ''strong'' (concat (map (render_inline latex) c))"
| "render_inline latex (IStrike c) = wrap_element ''del'' (concat (map (render_inline latex) c))"
| "render_inline latex (ILink dest title content) =
     (if is_safe_url dest
      then ''<a href=\"'' @ escape_attr dest @ ''\"'' @ title_attr title
           @ '' rel=\"noopener noreferrer\" target=\"_blank\">'' @ concat (map (render_inline latex) content) @ ''</a>''
      else concat (map (render_inline latex) content))"
| "render_inline latex (IImage dest title alt) =
     (if is_safe_url dest
      then ''<img src=\"'' @ escape_attr dest @ ''\" alt=\"'' @ escape_attr alt @ ''\"'' @ title_attr title @ ''>''
      else escape_text alt)"
| "render_inline latex (IMath content display) = to_mathml latex content display"
| "render_inline latex ISoftBreak = [NL]"
| "render_inline latex IHardBreak = ''<br>''"

definition render_inlines :: "(string \<Rightarrow> m list) \<Rightarrow> inline list \<Rightarrow> string" where
  "render_inlines latex ns = concat (map (render_inline latex) ns)"

section \<open>Blocks\<close>

fun align_attr :: "alignment \<Rightarrow> string" where
  "align_attr AlignLeft = '' style=\"text-align:left\"''"
| "align_attr AlignCenter = '' style=\"text-align:center\"''"
| "align_attr AlignRight = '' style=\"text-align:right\"''"
| "align_attr AlignNone = []"

definition render_cell :: "(string \<Rightarrow> m list) \<Rightarrow> string \<Rightarrow> alignment \<Rightarrow> inline list \<Rightarrow> string" where
  "render_cell latex tag align cell = ''<'' @ tag @ align_attr align @ ''>'' @ render_inlines latex cell @ close_element tag"

definition render_cells :: "(string \<Rightarrow> m list) \<Rightarrow> string \<Rightarrow> alignment list \<Rightarrow> inline list list \<Rightarrow> string" where
  "render_cells latex tag alignments cells =
     concat (map (\<lambda>(i, cell). render_cell latex tag (if i < length alignments then alignments ! i else AlignNone) cell)
       (enumerate 0 cells))"

definition render_table :: "(string \<Rightarrow> m list) \<Rightarrow> alignment list \<Rightarrow> inline list list \<Rightarrow> inline list list list \<Rightarrow> string" where
  "render_table latex alignments head rows =
     ''<table><thead><tr>'' @ render_cells latex ''th'' alignments head @ ''</tr></thead><tbody>''
     @ concat (map (\<lambda>row. ''<tr>'' @ render_cells latex ''td'' alignments row @ ''</tr>'') rows) @ ''</tbody></table>''"

definition render_code_block ::
    "(string \<Rightarrow> m list) \<Rightarrow> (string \<Rightarrow> string option) \<Rightarrow> string \<Rightarrow> bool \<Rightarrow> string \<Rightarrow> string" where
  "render_code_block latex to_svg info indented literal =
     (let lang = (if indented then [] else first_word info) in
      if eq_ignore_ascii_case lang ''mermaid'' then
        (case to_svg literal of
           Some svg \<Rightarrow> ''<figure class=\"catalerum-mermaid\">'' @ svg @ ''</figure>''
         | None \<Rightarrow> ''<pre class=\"mermaid\">'' @ escape_text literal @ [NL] @ ''</pre>'')
      else if is_math_lang lang then ''<div class=\"catalerum-math-block\">'' @ to_mathml latex literal True @ ''</div>''
      else ''<pre><code'' @ (if lang = [] then [] else '' class=\"language-'' @ escape_attr lang @ ''\"'') @ ''>''
           @ escape_text literal @ [NL] @ ''</code></pre>'')"

definition heading_tag :: "nat \<Rightarrow> string" where
  "heading_tag level = ''h'' @ show_nat (min 6 (max 1 level))"

definition slug_attr :: "string \<Rightarrow> string" where
  "slug_attr slug = (if slug = [] then [] else '' id=\"'' @ escape_attr slug @ ''\"'')"

fun list_open :: "nat option \<Rightarrow> string" where
  "list_open (Some n) = (if n \<noteq> 1 then ''<ol start=\"'' @ show_nat n @ ''\">'' else ''<ol>'')"
| "list_open None = ''<ul>''"

fun task_box :: "bool option \<Rightarrow> string" where
  "task_box None = []"
| "task_box (Some True) = ''<input type=\"checkbox\" checked disabled> ''"
| "task_box (Some False) = ''<input type=\"checkbox\" disabled> ''"

fun render_block :: "(string \<Rightarrow> m list) \<Rightarrow> (string \<Rightarrow> string option) \<Rightarrow> block \<Rightarrow> string"
  and render_item :: "(string \<Rightarrow> m list) \<Rightarrow> (string \<Rightarrow> string option) \<Rightarrow> bool \<Rightarrow> list_item \<Rightarrow> string" where
  "render_block latex to_svg (Paragraph ns) = ''<p>'' @ render_inlines latex ns @ ''</p>''"
| "render_block latex to_svg (Heading level content) =
     ''<'' @ heading_tag level @ slug_attr (heading_slug content) @ ''>'' @ render_inlines latex content
     @ close_element (heading_tag level)"
| "render_block latex to_svg (CodeBlock info indented literal) = render_code_block latex to_svg info indented literal"
| "render_block latex to_svg (Quote bs) =
     ''<blockquote>'' @ concat (map (render_block latex to_svg) bs) @ ''</blockquote>''"
| "render_block latex to_svg (ListBlock start tight items) =
     list_open start @ concat (map (render_item latex to_svg tight) items) @ (if start \<noteq> None then ''</ol>'' else ''</ul>'')"
| "render_block latex to_svg (TableBlock alignments head rows) = render_table latex alignments head rows"
| "render_block latex to_svg Rule = ''<hr>''"
| "render_item latex to_svg tight (Item task bs) =
     ''<li>'' @ task_box task
     @ concat (map (\<lambda>b. case b of Paragraph ns \<Rightarrow> if tight then render_inlines latex ns else render_block latex to_svg b
                          | _ \<Rightarrow> render_block latex to_svg b) bs)
     @ ''</li>''"

definition render_blocks :: "(string \<Rightarrow> m list) \<Rightarrow> (string \<Rightarrow> string option) \<Rightarrow> block list \<Rightarrow> string" where
  "render_blocks latex to_svg bs = concat (map (render_block latex to_svg) bs)"

definition push_html :: "(string \<Rightarrow> m list) \<Rightarrow> (string \<Rightarrow> string option) \<Rightarrow> string \<Rightarrow> string \<Rightarrow> string" where
  "push_html latex to_svg out md = out @ render_blocks latex to_svg (parse_document md)"

definition to_html :: "(string \<Rightarrow> m list) \<Rightarrow> (string \<Rightarrow> string option) \<Rightarrow> string \<Rightarrow> string" where
  "to_html latex to_svg md = push_html latex to_svg [] md"

end
