(* ===== verification/Md_Markup.thy ===== *)
theory Md_Markup
  imports Md_Html Rust_Num
begin

text \<open>
  What the renderer's output is to a browser. An independent reader walks the raw characters: text up to
  an angle bracket, a tag up to the closing one, the elements that are open on a stack. It accepts a
  tag of its lists only: no element that runs code, no event handler, a link target whose decoded text a
  browser resolves to no other scheme than the four of the policy. The renderer's output is balanced
  markup for this reader, whatever the document.
\<close>

section \<open>The reader\<close>

text \<open>The character references the reader knows; any other ampersand is refused.\<close>

fun decode :: "string \<Rightarrow> string option" where
  "decode [] = Some []"
| "decode (c # cs) =
     (if c \<noteq> CHR ''&'' then map_option (Cons c) (decode cs)
      else if starts_with ''amp;'' cs then map_option (Cons (CHR ''&'')) (decode (drop 4 cs))
      else if starts_with ''lt;'' cs then map_option (Cons (CHR ''<'')) (decode (drop 3 cs))
      else if starts_with ''gt;'' cs then map_option (Cons (CHR ''>'')) (decode (drop 3 cs))
      else if starts_with ''quot;'' cs then map_option (Cons QUOTE) (decode (drop 5 cs))
      else None)"

text \<open>The scheme a browser sees: it drops controls and spaces in front, and tabs and line ends anywhere.\<close>

definition scheme_char :: "char \<Rightarrow> bool" where
  "scheme_char c \<longleftrightarrow> is_ascii_alphanumeric c \<or> c \<in> set ''+-.''"

definition browser_scheme :: "string \<Rightarrow> string option" where
  "browser_scheme url =
     (let u = filter (\<lambda>c. c \<notin> {TAB, NL, CR}) (dropWhile (\<lambda>c. code c \<le> 32) url);
          s = takeWhile scheme_char u; rest = dropWhile scheme_char u
      in if s \<noteq> [] \<and> is_ascii_alphabetic (hd s) \<and> rest \<noteq> [] \<and> hd rest = CHR '':''
         then Some (map to_ascii_lowercase s) else None)"

definition browser_safe :: "string \<Rightarrow> bool" where
  "browser_safe url \<longleftrightarrow> (case browser_scheme url of None \<Rightarrow> True | Some s \<Rightarrow> s \<in> {''http'', ''https'', ''mailto'', ''tel''})"

definition HTML_ELEMENTS :: "string list" where
  "HTML_ELEMENTS = [''p'', ''h1'', ''h2'', ''h3'', ''h4'', ''h5'', ''h6'', ''blockquote'', ''ul'', ''ol'', ''li'', ''pre'',
     ''code'', ''em'', ''strong'', ''del'', ''a'', ''table'', ''thead'', ''tbody'', ''tr'', ''th'', ''td'', ''figure'', ''div'']"

definition VOID_ELEMENTS :: "string list" where
  "VOID_ELEMENTS = [''br'', ''hr'', ''img'', ''input'']"

definition FOREIGN_ELEMENTS :: "string list" where
  "FOREIGN_ELEMENTS = [''math'', ''mrow'', ''mi'', ''mn'', ''mo'', ''mtext'', ''mfrac'', ''msqrt'', ''mroot'', ''msub'', ''msup'',
     ''msubsup'', ''munder'', ''mover'', ''munderover'', ''mtable'', ''mtr'', ''mtd'', ''mspace'',
     ''svg'', ''g'', ''defs'', ''marker'', ''rect'', ''circle'', ''ellipse'', ''line'', ''path'', ''polygon'', ''polyline'', ''text'', ''tspan'']"

definition PLAIN_ATTRIBUTES :: "string list" where
  "PLAIN_ATTRIBUTES = [''id'', ''class'', ''title'', ''alt'', ''rel'', ''start'', ''checked'', ''disabled'',
     ''xmlns'', ''display'', ''mathvariant'', ''stretchy'', ''accent'', ''columnalign'', ''linethickness'', ''width'',
     ''height'', ''viewBox'', ''role'', ''fill'', ''stroke'', ''stroke-width'', ''stroke-dasharray'', ''opacity'', ''fill-opacity'',
     ''stroke-opacity'', ''font-size'', ''font-family'', ''font-weight'', ''font-style'', ''text-anchor'',
     ''x'', ''y'', ''rx'', ''ry'', ''cx'', ''cy'', ''r'', ''d'', ''points'', ''transform'', ''orient'', ''x1'', ''x2'', ''y1'', ''y2'', ''refX'', ''refY'',
     ''markerWidth'', ''markerHeight'', ''markerUnits'', ''marker-start'', ''marker-end'']"

definition STYLES :: "string list" where
  "STYLES = [''text-align:left'', ''text-align:center'', ''text-align:right'',
     ''border:1px solid currentColor;padding:0.15em 0.35em'',
     ''border-top:0.06em solid currentColor;padding-top:0.1em'',
     ''border-bottom:0.06em solid currentColor;padding-bottom:0.1em'']"

definition attr_char :: "char \<Rightarrow> bool" where
  "attr_char c \<longleftrightarrow> is_ascii_alphanumeric c \<or> c = CHR ''-''"

text \<open>Attributes: a space and a name, alone or with a value in double quotes.\<close>

function read_attrs :: "string \<Rightarrow> (string \<times> string option) list option" where
  "read_attrs [] = Some []"
| "read_attrs (c # cs) =
     (let name = takeWhile attr_char cs; rest = dropWhile attr_char cs in
      if c \<noteq> SP \<or> name = [] then None
      else if starts_with [CHR ''='', QUOTE] rest then
        (case split_first QUOTE (drop 2 rest) of
           None \<Rightarrow> None
         | Some (v, rest') \<Rightarrow>
             (if length rest' \<le> length cs then map_option (Cons (name, Some v)) (read_attrs rest') else None))
      else map_option (Cons (name, None)) (read_attrs rest))"
  by pat_completeness auto
termination
  by (relation "measure length") (auto simp: le_imp_less_Suc length_dropWhile_le)

declare read_attrs.simps(2) [simp del]

fun attr_ok :: "string \<Rightarrow> string \<times> string option \<Rightarrow> bool" where
  "attr_ok element (a, v) =
     (if (a = ''href'' \<and> element = ''a'') \<or> (a = ''src'' \<and> element = ''img'') then
        (case v of Some t \<Rightarrow> (case decode t of Some url \<Rightarrow> browser_safe url | None \<Rightarrow> False) | None \<Rightarrow> False)
      else if a = ''style'' then v \<in> Some ` set STYLES
      else if a = ''type'' then element = ''input'' \<and> v = Some ''checkbox''
      else if a = ''target'' then v = Some ''_blank''
      else a \<in> set PLAIN_ATTRIBUTES)"

text \<open>A page in a new tab gets no handle on the opener.\<close>

definition attrs_ok :: "string \<Rightarrow> (string \<times> string option) list \<Rightarrow> bool" where
  "attrs_ok element attrs \<longleftrightarrow> list_all (attr_ok element) attrs
     \<and> (list_ex (\<lambda>(a, _). a = ''target'') attrs \<longrightarrow> (''rel'', Some ''noopener noreferrer'') \<in> set attrs)"

datatype tag_kind = Opens string | Closes string | Void

definition read_tag :: "string \<Rightarrow> tag_kind option" where
  "read_tag b =
     (if starts_with ''/'' b then Some (Closes (tl b))
      else let name = takeWhile is_ascii_alphanumeric b;
               rest = dropWhile is_ascii_alphanumeric b;
               empty = ends_with ''/'' rest;
               attrs = (if empty then butlast rest else rest)
           in case read_attrs attrs of
                None \<Rightarrow> None
              | Some ps \<Rightarrow>
                  if \<not> attrs_ok name ps then None
                  else if name \<in> set FOREIGN_ELEMENTS then Some (if empty then Void else Opens name)
                  else if empty then None
                  else if name \<in> set VOID_ELEMENTS then Some Void
                  else if name \<in> set HTML_ELEMENTS then Some (Opens name)
                  else None)"

text \<open>The open elements after a text, when every tag of it is accepted and each closing tag meets its own.\<close>

function nest :: "string list \<Rightarrow> string \<Rightarrow> string list option" where
  "nest st [] = Some st"
| "nest st (c # cs) =
     (if c \<noteq> CHR ''<'' then nest st cs
      else case split_first (CHR ''>'') cs of
             None \<Rightarrow> None
           | Some (b, rest) \<Rightarrow>
               if length rest \<le> length cs then
                 (case read_tag b of
                    None \<Rightarrow> None
                  | Some Void \<Rightarrow> nest st rest
                  | Some (Opens n) \<Rightarrow> nest (n # st) rest
                  | Some (Closes n) \<Rightarrow> (case st of t # st' \<Rightarrow> if t = n then nest st' rest else None | [] \<Rightarrow> None))
               else None)"
  by pat_completeness auto
termination
  by (relation "measure (\<lambda>(_, s). length s)") auto

declare nest.simps(2) [simp del]

section \<open>Composition\<close>

lemma split_first_iff: "split_first c s = Some (v, rest) \<longleftrightarrow> s = v @ c # rest \<and> c \<notin> set v"
proof
  assume a: "split_first c s = Some (v, rest)"
  then obtain x where x: "dropWhile (\<lambda>x. x \<noteq> c) s = x # rest" and t: "v = takeWhile (\<lambda>x. x \<noteq> c) s"
    by (auto simp: split_first_def split: list.splits)
  then have "x = c" using dropWhile_eq_Cons_conv[of "\<lambda>x. x \<noteq> c" s x rest] by blast
  then have d: "dropWhile (\<lambda>x. x \<noteq> c) s = c # rest" using x by simp
  have "s = v @ c # rest" using takeWhile_dropWhile_id[of "\<lambda>x. x \<noteq> c" s] d t by simp
  moreover have "c \<notin> set v" using t set_takeWhileD[of c "\<lambda>x. x \<noteq> c" s] by auto
  ultimately show "s = v @ c # rest \<and> c \<notin> set v" by simp
next
  assume a: "s = v @ c # rest \<and> c \<notin> set v"
  then have "takeWhile (\<lambda>x. x \<noteq> c) s = v" "dropWhile (\<lambda>x. x \<noteq> c) s = c # rest"
    by (auto simp: takeWhile_append dropWhile_append)
  then show "split_first c s = Some (v, rest)" by (simp add: split_first_def)
qed

lemma split_first_here: "c \<notin> set v \<Longrightarrow> split_first c (v @ c # rest) = Some (v, rest)"
  by (simp add: split_first_iff)

lemma split_first_append: "split_first c s = Some (v, rest) \<Longrightarrow> split_first c (s @ t) = Some (v, rest @ t)"
  by (simp add: split_first_iff)

lemma nest_append: "nest st s = Some st' \<Longrightarrow> nest st (s @ t) = nest st' t"
proof (induction st s arbitrary: st' rule: nest.induct)
  case (2 st c cs)
  note IH = 2(1-4) and run = 2(5)
  show ?case
  proof (cases "c = CHR ''<''")
    case False
    then show ?thesis using IH(1)[OF False] run by (simp add: nest.simps(2))
  next
    case True
    then obtain b rest where s: "split_first (CHR ''>'') cs = Some (b, rest)" "length rest \<le> length cs"
      using run by (auto simp: nest.simps(2) split: option.splits if_splits)
    have l: "length (rest @ t) \<le> length (cs @ t)" using s(2) by simp
    have "nest (st1) (rest @ t) = nest st' t" if "nest st1 rest = Some st'"
      and "read_tag b = Some Void \<and> st1 = st \<or> (\<exists>n. read_tag b = Some (Opens n) \<and> st1 = n # st)
        \<or> (\<exists>n. read_tag b = Some (Closes n) \<and> st = n # st1)" for st1
      using that True s IH(2-4) by auto
    then show ?thesis
      using run True s split_first_append[OF s(1), of t] l
      by (auto simp: nest.simps(2) split: option.splits tag_kind.splits list.splits if_splits)
  qed
qed simp

definition balanced :: "string \<Rightarrow> bool" where
  "balanced s \<longleftrightarrow> (\<forall>st. nest st s = Some st)"

lemma balanced_Nil [simp]: "balanced []"
  by (simp add: balanced_def)

lemma balanced_append [intro]: "balanced a \<Longrightarrow> balanced b \<Longrightarrow> balanced (a @ b)"
  by (simp add: balanced_def nest_append)

lemma balanced_concat: "(\<And>x. x \<in> set xs \<Longrightarrow> balanced (f x)) \<Longrightarrow> balanced (concat (map f xs))"
  by (induction xs) auto

lemma balanced_text: "CHR ''<'' \<notin> set s \<Longrightarrow> balanced s"
  by (induction s) (auto simp: balanced_def nest.simps(2))

text \<open>The tags of an element, and an element around balanced content.\<close>

definition opens :: "string \<Rightarrow> string \<Rightarrow> bool" where
  "opens b n \<longleftrightarrow> read_tag b = Some (Opens n) \<and> CHR ''>'' \<notin> set b \<and> CHR ''>'' \<notin> set n"

lemma nest_tag: "CHR ''>'' \<notin> set b \<Longrightarrow> nest st (CHR ''<'' # b @ CHR ''>'' # rest) =
    (case read_tag b of None \<Rightarrow> None | Some Void \<Rightarrow> nest st rest | Some (Opens n) \<Rightarrow> nest (n # st) rest
     | Some (Closes n) \<Rightarrow> (case st of t # st' \<Rightarrow> if t = n then nest st' rest else None | [] \<Rightarrow> None))"
  by (simp add: nest.simps(2) split_first_here)

lemma balanced_element:
  assumes "opens b n" "balanced content"
  shows "balanced (''<'' @ b @ ''>'' @ content @ ''</'' @ n @ ''>'')"
proof -
  have "read_tag (''/'' @ n) = Some (Closes n)" by (simp add: read_tag_def)
  then have close: "nest (n # st) (''</'' @ n @ ''>'') = Some st" for st
    using nest_tag[of "''/'' @ n" "n # st" "[]"] assms(1) by (simp add: opens_def)
  have "nest (n # st) (content @ ''</'' @ n @ ''>'') = Some st" for st
    using assms(2) close nest_append[of "n # st" content "n # st"] by (simp add: balanced_def)
  then show ?thesis
    using nest_tag[of b _ "content @ ''</'' @ n @ ''>''"] assms(1) by (simp add: opens_def balanced_def)
qed

lemma balanced_void: "read_tag b = Some Void \<Longrightarrow> CHR ''>'' \<notin> set b \<Longrightarrow> balanced (''<'' @ b @ ''>'')"
  using nest_tag[of b _ "[]"] by (simp add: balanced_def)

section \<open>Escaped text and attributes\<close>

lemma escaped_text_chars: "c \<in> set (escape_text s) \<Longrightarrow> c \<noteq> CHR ''<''"
  by (auto simp: escape_text_map escaped_def entity_def split: if_splits)

lemma balanced_escape_text [simp]: "balanced (escape_text s)"
  by (rule balanced_text) (use escaped_text_chars in blast)

lemma escaped_attr_chars: "c \<in> set (escape_attr s) \<Longrightarrow> c \<noteq> QUOTE \<and> c \<noteq> CHR ''<'' \<and> c \<noteq> CHR ''>''"
  by (auto simp: escape_attr_map escaped_def entity_def split: if_splits)

lemma decode_entity: "decode (escaped ''&<>\"'' c @ s) = map_option (Cons c) (decode s)"
  by (auto simp: escaped_def entity_def)

lemma decode_attr [simp]: "decode (escape_attr s) = Some s"
  unfolding escape_attr_map by (induction s) (simp_all add: decode_entity)

lemma read_attrs_value:
  assumes "name \<noteq> []" "list_all attr_char name" "QUOTE \<notin> set v"
  shows "read_attrs (SP # name @ CHR ''='' # QUOTE # v @ QUOTE # rest) = map_option (Cons (name, Some v)) (read_attrs rest)"
proof -
  have "\<not> attr_char (CHR ''='')" by (simp add: attr_char_def is_ascii_alphanumeric_def is_ascii_digit_def is_ascii_uppercase_def is_ascii_lowercase_def)
  then have "takeWhile attr_char (name @ CHR ''='' # QUOTE # v @ QUOTE # rest) = name"
    "dropWhile attr_char (name @ CHR ''='' # QUOTE # v @ QUOTE # rest) = CHR ''='' # QUOTE # v @ QUOTE # rest"
    using assms(2) by (simp_all add: list_all_iff)
  then show ?thesis using assms(1,3) by (simp add: read_attrs.simps(2) split_first_here)
qed

lemma read_tag_attrs:
  assumes "list_all is_ascii_alphanumeric name" "name \<noteq> []" "attrs = [] \<or> hd attrs = SP" "\<not> ends_with ''/'' attrs"
    and "read_attrs attrs = Some ps" "attrs_ok name ps"
  shows "read_tag (name @ attrs) =
    (if name \<in> set FOREIGN_ELEMENTS then Some (Opens name) else if name \<in> set VOID_ELEMENTS then Some Void
     else if name \<in> set HTML_ELEMENTS then Some (Opens name) else None)"
proof -
  have "takeWhile is_ascii_alphanumeric (name @ attrs) = name" "dropWhile is_ascii_alphanumeric (name @ attrs) = attrs"
    using assms(1,3) by (cases attrs; simp add: list_all_iff is_ascii_alphanumeric_def is_ascii_digit_def is_ascii_uppercase_def is_ascii_lowercase_def)+
  moreover have "\<not> starts_with ''/'' (name @ attrs)"
    using assms(1,2) by (cases name) (auto simp: is_ascii_alphanumeric_def is_ascii_digit_def is_ascii_uppercase_def is_ascii_lowercase_def)
  ultimately show ?thesis using assms(4-6) by (simp add: read_tag_def)
qed

section \<open>The URL policy\<close>

lemma browser_scheme_Some:
  assumes "browser_scheme url = Some x"
  obtains s rest where "filter (\<lambda>c. c \<notin> {TAB, NL, CR}) (dropWhile (\<lambda>c. code c \<le> 32) url) = s @ CHR '':'' # rest"
    "s \<noteq> []" "is_ascii_alphabetic (hd s)" "\<And>c. c \<in> set s \<Longrightarrow> scheme_char c" "x = map to_ascii_lowercase s"
proof -
  define u where "u = filter (\<lambda>c. c \<notin> {TAB, NL, CR}) (dropWhile (\<lambda>c. code c \<le> 32) url)"
  let ?s = "takeWhile scheme_char u" and ?r = "dropWhile scheme_char u"
  have r: "?s \<noteq> []" "is_ascii_alphabetic (hd ?s)" "?r \<noteq> []" "hd ?r = CHR '':''" "x = map to_ascii_lowercase ?s"
    using assms[unfolded browser_scheme_def Let_def, folded u_def] by (auto split: if_splits)
  have "u = ?s @ CHR '':'' # tl ?r" using takeWhile_dropWhile_id[of scheme_char u] r(3,4) by (metis list.collapse)
  then show thesis
    using that[of ?s "tl ?r"] r unfolding u_def[symmetric] by (metis set_takeWhileD)
qed

abbreviation trimmed_char :: "char \<Rightarrow> bool" where
  "trimmed_char c \<equiv> is_whitespace c \<or> is_control c"

lemma trimmed_char_code: "trimmed_char c \<longleftrightarrow> code c \<le> 32 \<or> (127 \<le> code c \<and> code c \<le> 160)"
  by (auto simp: is_whitespace_def is_control_def)

lemma trim_matches_parts:
  obtains lead trail where "s = lead @ trim_matches f s @ trail" "\<forall>c\<in>set lead. f c" "\<forall>c\<in>set trail. f c"
    "trim_matches f s = [] \<or> \<not> f (hd (trim_matches f s))"
proof -
  define d where "d = dropWhile f s"
  define trail where "trail = rev (takeWhile f (rev d))"
  have d: "d = trim_matches f s @ trail"
    using takeWhile_dropWhile_id[of f "rev d"] by (simp add: trail_def trim_matches_def trim_end_by_def d_def[symmetric] flip: rev_append)
  have "s = takeWhile f s @ trim_matches f s @ trail"
    using takeWhile_dropWhile_id[of f s] unfolding d[symmetric] d_def by simp
  moreover have "\<not> f (hd (trim_matches f s))" if "trim_matches f s \<noteq> []"
    using dropWhile_eq_Cons_conv[of f s "hd (trim_matches f s)" "tl (trim_matches f s) @ trail"] d that
    by (cases "trim_matches f s") (auto simp: d_def)
  ultimately show thesis
    by (intro that[of "takeWhile f s" trail]) (auto simp: trail_def dest: set_takeWhileD)
qed

text \<open>What a browser sees of a target with a scheme is what the policy trimmed.\<close>

lemma browser_sees_trimmed:
  assumes "browser_scheme url = Some x"
  obtains trail where "dropWhile (\<lambda>c. code c \<le> 32) url = trim_matches trimmed_char url @ trail" "CHR '':'' \<notin> set trail"
proof -
  obtain s rest where b: "filter (\<lambda>c. c \<notin> {TAB, NL, CR}) (dropWhile (\<lambda>c. code c \<le> 32) url) = s @ CHR '':'' # rest"
    "s \<noteq> []" "is_ascii_alphabetic (hd s)" using browser_scheme_Some[OF assms] by metis
  let ?t = "trim_matches trimmed_char url"
  obtain lead trail where p: "url = lead @ ?t @ trail" "\<forall>c\<in>set lead. trimmed_char c" "\<forall>c\<in>set trail. trimmed_char c"
    "?t = [] \<or> \<not> trimmed_char (hd ?t)" by (rule trim_matches_parts)
  have colon: "CHR '':'' \<notin> set trail" using p(3) by (auto simp: trimmed_char_code)
  show thesis
  proof (cases "\<forall>c\<in>set lead. code c \<le> 32")
    case False
    then obtain y ys where y: "dropWhile (\<lambda>c. code c \<le> 32) lead = y # ys"
      by (cases "dropWhile (\<lambda>c. code c \<le> 32) lead") auto
    then have y': "\<not> code y \<le> 32" "y \<in> set lead"
      using dropWhile_eq_Cons_conv[of "\<lambda>c. code c \<le> 32" lead y ys] set_dropWhileD[of y "\<lambda>c. code c \<le> 32" lead] by auto
    then have "127 \<le> code y" using p(2) by (auto simp: trimmed_char_code)
    moreover have "dropWhile (\<lambda>c. code c \<le> 32) url = y # ys @ ?t @ trail"
      using y y' p(1) by (metis append_Cons dropWhile_append1)
    moreover have "y \<notin> {TAB, NL, CR}" using \<open>127 \<le> code y\<close> by auto
    ultimately have "hd s = y" using b(1,2) by (cases s) auto
    then show ?thesis using b(3) \<open>127 \<le> code y\<close>
      by (simp add: is_ascii_alphabetic_def is_ascii_uppercase_def is_ascii_lowercase_def)
  next
    case True
    then have d: "dropWhile (\<lambda>c. code c \<le> 32) url = dropWhile (\<lambda>c. code c \<le> 32) (?t @ trail)"
      by (subst p(1)) (simp add: dropWhile_append2)
    show ?thesis
    proof (cases ?t)
      case Nil
      have "CHR '':'' \<in> set (s @ CHR '':'' # rest)" by simp
      then have "CHR '':'' \<in> set trail" unfolding b(1)[symmetric] d Nil by (auto dest: set_dropWhileD)
      then show ?thesis using colon by simp
    next
      case (Cons h t)
      then have "\<not> code h \<le> 32" using p(4) by (auto simp: trimmed_char_code)
      then have "dropWhile (\<lambda>c. code c \<le> 32) (?t @ trail) = ?t @ trail" by (simp add: Cons)
      then show ?thesis using that[of trail] d colon by simp
    qed
  qed
qed

lemma lowered_scheme_kept:
  assumes "map to_ascii_lowercase s \<in> set SCHEMES"
  shows "filter (\<lambda>c. c \<notin> {TAB, NL, CR}) s = s"
proof -
  have "to_ascii_lowercase c = c" if "c \<in> {TAB, NL, CR}" for c
    using that by (auto simp: to_ascii_lowercase_def is_ascii_uppercase_def)
  moreover have "c \<notin> {TAB, NL, CR}" if "t \<in> set SCHEMES" "c \<in> set t" for c t
    using that by (auto simp: SCHEMES_def)
  ultimately have "c \<notin> {TAB, NL, CR}" if "c \<in> set s" for c
    using that assms by (metis imageI list.set_map)
  then show ?thesis by (simp add: filter_id_conv)
qed

lemma safe_url:
  assumes "is_safe_url url"
  shows "browser_safe url"
proof (cases "browser_scheme url")
  case None
  then show ?thesis by (simp add: browser_safe_def)
next
  case (Some x)
  let ?t = "trim_matches trimmed_char url" and ?keep = "\<lambda>c. c \<notin> {TAB, NL, CR}"
  obtain s rest where b: "filter ?keep (dropWhile (\<lambda>c. code c \<le> 32) url) = s @ CHR '':'' # rest"
    "s \<noteq> []" "is_ascii_alphabetic (hd s)" "\<And>c. c \<in> set s \<Longrightarrow> scheme_char c" "x = map to_ascii_lowercase s"
    using browser_scheme_Some[OF Some] by metis
  obtain trail where t: "dropWhile (\<lambda>c. code c \<le> 32) url = ?t @ trail" "CHR '':'' \<notin> set trail"
    using browser_sees_trimmed[OF Some] by metis
  have plain: "CHR '':'' \<notin> set s" "CHR ''/'' \<notin> set s" "CHR ''?'' \<notin> set s" "CHR ''#'' \<notin> set s"
    using b(4)[of "CHR '':''"] b(4)[of "CHR ''/''"] b(4)[of "CHR ''?''"] b(4)[of "CHR ''#''"]
    by (auto simp: scheme_char_def is_ascii_alphanumeric_def is_ascii_digit_def is_ascii_uppercase_def is_ascii_lowercase_def)
  have split: "filter ?keep ?t @ filter ?keep trail = s @ CHR '':'' # rest" using b(1) t(1) by simp
  then have "CHR '':'' \<in> set ?t" using t(2) by (metis (no_types, lifting) Un_iff filter_is_subset in_mono in_set_conv_decomp set_append)
  then obtain sch after where sch: "?t = sch @ CHR '':'' # after" "CHR '':'' \<notin> set sch"
    by (metis split_list_first)
  have "s = filter ?keep sch"
    using split plain(1) sch split_first_iff[of "CHR '':''" "s @ CHR '':'' # rest" s rest]
      split_first_iff[of "CHR '':''" "s @ CHR '':'' # rest" "filter ?keep sch" "filter ?keep after @ filter ?keep trail"] by simp
  then have s: "\<And>c. c \<in> set sch \<Longrightarrow> ?keep c \<Longrightarrow> c \<in> set s" "s = filter ?keep sch" by auto
  have first: "\<not> starts_with ''/'' ?t" "\<not> starts_with ''#'' ?t"
    using s(1) plain sch(1) by (cases sch; force simp: starts_with_iff)+
  moreover have "CHR ''/'' \<notin> set sch" "CHR ''?'' \<notin> set sch" "CHR ''#'' \<notin> set sch"
    using s(1)[of "CHR ''/''"] s(1)[of "CHR ''?''"] s(1)[of "CHR ''#''"] plain by auto
  moreover have "split_first (CHR '':'') ?t = Some (sch, after)" using sch by (simp add: split_first_iff)
  ultimately have "map to_ascii_lowercase sch \<in> set SCHEMES"
    using assms by (simp add: is_safe_url_def Let_def)
  then show ?thesis using lowered_scheme_kept s(2) b(5) Some by (simp add: browser_safe_def SCHEMES_def)
qed

text \<open>A tag written from a list of attributes reads back as that list.\<close>

definition attr_text :: "string \<times> string \<Rightarrow> string" where
  "attr_text = (\<lambda>(a, v). SP # a @ CHR ''='' # QUOTE # v @ [QUOTE])"

definition clean_attr :: "string \<times> string \<Rightarrow> bool" where
  "clean_attr = (\<lambda>(a, v). a \<noteq> [] \<and> list_all attr_char a \<and> QUOTE \<notin> set v \<and> CHR ''>'' \<notin> set v)"

lemma read_attrs_text:
  "list_all clean_attr ps \<Longrightarrow> read_attrs (concat (map attr_text ps)) = Some (map (\<lambda>(a, v). (a, Some v)) ps)"
proof (induction ps)
  case (Cons p ps)
  obtain a v where p: "p = (a, v)" by (cases p)
  with Cons show ?case
    using read_attrs_value[of a v "concat (map attr_text ps)"] by (simp add: attr_text_def clean_attr_def)
qed simp

lemma attr_text_shape: "ps \<noteq> [] \<Longrightarrow> \<exists>t. concat (map attr_text ps) = SP # t @ [QUOTE]"
proof (induction ps)
  case (Cons p ps)
  obtain a v where p: "attr_text p = SP # (a @ CHR ''='' # QUOTE # v) @ [QUOTE]" by (cases p) (auto simp: attr_text_def)
  show ?case
  proof (cases "ps = []")
    case True
    then show ?thesis using p by auto
  next
    case False
    then obtain t where "concat (map attr_text ps) = SP # t @ [QUOTE]" using Cons by blast
    then show ?thesis unfolding list.map concat.simps p by (intro exI[of _ "(a @ CHR ''='' # QUOTE # v) @ [QUOTE] @ SP # t"]) simp
  qed
qed simp

lemma attr_text_open:
  assumes "list_all clean_attr ps"
  shows "CHR ''>'' \<notin> set (concat (map attr_text ps))"
proof -
  have "\<not> attr_char (CHR ''>'')"
    by (simp add: attr_char_def is_ascii_alphanumeric_def is_ascii_digit_def is_ascii_uppercase_def is_ascii_lowercase_def)
  then have "CHR ''>'' \<notin> set (attr_text p)" if "clean_attr p" for p
    using that by (cases p) (auto simp: attr_text_def clean_attr_def list_all_iff)
  then show ?thesis using assms by (auto simp: list_all_iff)
qed

lemma element_names:
  assumes "n \<in> set (HTML_ELEMENTS @ FOREIGN_ELEMENTS @ VOID_ELEMENTS)"
  shows "n \<noteq> [] \<and> list_all is_ascii_alphanumeric n \<and> CHR ''>'' \<notin> set n"
proof -
  have "list_all (\<lambda>n. n \<noteq> [] \<and> list_all is_ascii_alphanumeric n \<and> CHR ''>'' \<notin> set n)
      (HTML_ELEMENTS @ FOREIGN_ELEMENTS @ VOID_ELEMENTS)" by code_simp
  then show ?thesis using assms unfolding list_all_iff by blast
qed

lemma void_names: "n \<in> set VOID_ELEMENTS \<Longrightarrow> n \<notin> set FOREIGN_ELEMENTS"
  "n \<in> set HTML_ELEMENTS \<Longrightarrow> n \<notin> set VOID_ELEMENTS"
  by (auto simp: VOID_ELEMENTS_def FOREIGN_ELEMENTS_def HTML_ELEMENTS_def)

lemma read_tag_text:
  assumes "n \<in> set (HTML_ELEMENTS @ FOREIGN_ELEMENTS @ VOID_ELEMENTS)" "list_all clean_attr ps"
    and "attrs_ok n (map (\<lambda>(a, v). (a, Some v)) ps)"
  shows "read_tag (n @ concat (map attr_text ps)) = Some (if n \<in> set VOID_ELEMENTS then Void else Opens n)"
    "CHR ''>'' \<notin> set (n @ concat (map attr_text ps))"
proof -
  note n = element_names[OF assms(1)]
  have shape: "concat (map attr_text ps) = [] \<or> hd (concat (map attr_text ps)) = SP" "\<not> ends_with ''/'' (concat (map attr_text ps))"
    using attr_text_shape[of ps] by (cases "ps = []"; force simp: ends_with_def)+
  show "read_tag (n @ concat (map attr_text ps)) = Some (if n \<in> set VOID_ELEMENTS then Void else Opens n)"
    using read_tag_attrs[OF conjunct1[OF conjunct2[OF n]] conjunct1[OF n] shape read_attrs_text[OF assms(2)] assms(3)]
      assms(1) void_names by auto
  show "CHR ''>'' \<notin> set (n @ concat (map attr_text ps))" using n attr_text_open[OF assms(2)] by simp
qed

lemma opens_text:
  assumes "n \<in> set (HTML_ELEMENTS @ FOREIGN_ELEMENTS)" "list_all clean_attr ps" "attrs_ok n (map (\<lambda>(a, v). (a, Some v)) ps)"
  shows "opens (n @ concat (map attr_text ps)) n"
proof -
  have "n \<notin> set VOID_ELEMENTS" using assms(1) void_names by auto
  then show ?thesis using read_tag_text[of n ps] element_names[of n] assms by (auto simp: opens_def)
qed

lemma attr_names:
  assumes "a \<in> set ([''href'', ''src'', ''style'', ''target''] @ PLAIN_ATTRIBUTES)"
  shows "a \<noteq> [] \<and> list_all attr_char a"
proof -
  have "list_all (\<lambda>a. a \<noteq> [] \<and> list_all attr_char a) ([''href'', ''src'', ''style'', ''target''] @ PLAIN_ATTRIBUTES)" by code_simp
  then show ?thesis using assms unfolding list_all_iff by blast
qed

lemma clean_escaped: "a \<in> set ([''href'', ''src'', ''style'', ''target''] @ PLAIN_ATTRIBUTES) \<Longrightarrow> clean_attr (a, escape_attr v)"
  using attr_names[of a] escaped_attr_chars[of _ v] by (auto simp: clean_attr_def)

lemma clean_plain: "a \<in> set ([''href'', ''src'', ''style'', ''target''] @ PLAIN_ATTRIBUTES) \<Longrightarrow> QUOTE \<notin> set v \<Longrightarrow> CHR ''>'' \<notin> set v
    \<Longrightarrow> clean_attr (a, v)"
  using attr_names[of a] by (auto simp: clean_attr_def)

section \<open>MathML\<close>

lemma opens_bare: "n \<in> set (HTML_ELEMENTS @ FOREIGN_ELEMENTS) \<Longrightarrow> opens n n"
proof -
  have "list_all (\<lambda>n. opens n n) (HTML_ELEMENTS @ FOREIGN_ELEMENTS)" by code_simp
  then show "n \<in> set (HTML_ELEMENTS @ FOREIGN_ELEMENTS) \<Longrightarrow> opens n n" by (simp only: list_all_iff)
qed

lemmas element_lists = HTML_ELEMENTS_def FOREIGN_ELEMENTS_def

lemma balanced_bare:
  "n \<in> set (HTML_ELEMENTS @ FOREIGN_ELEMENTS) \<Longrightarrow> balanced c \<Longrightarrow> balanced (open_element n @ c @ close_element n)"
  using balanced_element[OF opens_bare, of n c] by (simp add: open_element_def close_element_def)

lemma opens_math:
  "opens ''mo stretchy=\"true\"'' ''mo''" "opens ''mfrac linethickness=\"0\"'' ''mfrac''"
  "opens ''mover accent=\"true\"'' ''mover''" "opens ''munder accent=\"true\"'' ''munder''"
  "opens ''mrow style=\"border:1px solid currentColor;padding:0.15em 0.35em\"'' ''mrow''"
  "opens ''mrow style=\"border-top:0.06em solid currentColor;padding-top:0.1em\"'' ''mrow''"
  "opens ''mrow style=\"border-bottom:0.06em solid currentColor;padding-bottom:0.1em\"'' ''mrow''"
  "opens ''math xmlns=\"http://www.w3.org/1998/Math/MathML\" display=\"block\"'' ''math''"
  "opens ''math xmlns=\"http://www.w3.org/1998/Math/MathML\"'' ''math''"
  by code_simp+

lemma opens_variant: "opens (''mi mathvariant=\"'' @ variant_str v @ [QUOTE]) ''mi''"
  "opens (''mn mathvariant=\"'' @ variant_str v @ [QUOTE]) ''mn''"
  by (induction v; code_simp)+

lemma balanced_space: "balanced (''<mspace width=\"'' @ width_str w @ ''\"/>'')"
proof -
  have "read_tag (''mspace width=\"'' @ width_str w @ ''\"/'') = Some Void \<and> CHR ''>'' \<notin> set (''mspace width=\"'' @ width_str w @ ''\"/'')"
    by (induction w; code_simp)
  then show ?thesis using balanced_void[of "''mspace width=\"'' @ width_str w @ ''\"/''"] by simp
qed

lemma join_cols_plain: "c \<in> set (join_cols cs) \<Longrightarrow> c \<noteq> QUOTE \<and> c \<noteq> CHR ''>''"
proof (induction cs rule: join_cols.induct)
  case (2 a)
  then show ?case by (cases a) auto
next
  case (3 a b cs)
  then show ?case by (cases a) auto
qed simp

lemma opens_columnalign: "opens (''mtable columnalign=\"'' @ join_cols cs @ [QUOTE]) ''mtable''"
  using opens_text[of "''mtable''" "[(''columnalign'', join_cols cs)]"] clean_plain[of "''columnalign''" "join_cols cs"] join_cols_plain
  by (auto simp: FOREIGN_ELEMENTS_def PLAIN_ATTRIBUTES_def attrs_ok_def attr_text_def)

lemma balanced_delim [simp]: "balanced (delim s)"
  using balanced_element[OF opens_math(1), of "escape_text s"] by (simp add: delim_def)

lemma balanced_mo [simp]: "balanced (mo s stretchy)"
  using balanced_element[OF opens_math(1), of "escape_text s"] balanced_bare[of "''mo''" "escape_text s"]
  by (simp add: mo_def open_element_def close_element_def FOREIGN_ELEMENTS_def)

lemma balanced_arg: "balanced markup \<Longrightarrow> balanced (arg_markup node markup)"
  using balanced_bare[of "''mrow''" "[]"] by (simp add: arg_markup_def open_element_def close_element_def FOREIGN_ELEMENTS_def)

lemma scripts_tag_known: "scripts_tag a b c \<in> set (HTML_ELEMENTS @ FOREIGN_ELEMENTS)"
  by (cases a; cases b; cases c) (simp_all add: FOREIGN_ELEMENTS_def)

end
