(* ===== verification/Md_Safe.thy ===== *)
theory Md_Safe
  imports Md_Markup
begin

text \<open>
  The renderer's output, read by the reader of \<open>Md_Markup\<close>: every fragment \<open>html.rs\<close> and \<open>math.rs\<close> append
  is balanced, and so is the page.
\<close>

lemma known [simp]:
  "''mrow'' \<in> set FOREIGN_ELEMENTS" "''mi'' \<in> set FOREIGN_ELEMENTS" "''mn'' \<in> set FOREIGN_ELEMENTS"
  "''mtext'' \<in> set FOREIGN_ELEMENTS" "''mfrac'' \<in> set FOREIGN_ELEMENTS" "''msqrt'' \<in> set FOREIGN_ELEMENTS"
  "''mroot'' \<in> set FOREIGN_ELEMENTS" "''mtable'' \<in> set FOREIGN_ELEMENTS" "''mtr'' \<in> set FOREIGN_ELEMENTS"
  "''mtd'' \<in> set FOREIGN_ELEMENTS" "''mover'' \<in> set FOREIGN_ELEMENTS" "''munder'' \<in> set FOREIGN_ELEMENTS"
  "''p'' \<in> set HTML_ELEMENTS" "''blockquote'' \<in> set HTML_ELEMENTS" "''ul'' \<in> set HTML_ELEMENTS" "''ol'' \<in> set HTML_ELEMENTS"
  "''li'' \<in> set HTML_ELEMENTS" "''pre'' \<in> set HTML_ELEMENTS" "''code'' \<in> set HTML_ELEMENTS" "''em'' \<in> set HTML_ELEMENTS"
  "''strong'' \<in> set HTML_ELEMENTS" "''del'' \<in> set HTML_ELEMENTS" "''a'' \<in> set HTML_ELEMENTS" "''table'' \<in> set HTML_ELEMENTS"
  "''thead'' \<in> set HTML_ELEMENTS" "''tbody'' \<in> set HTML_ELEMENTS" "''tr'' \<in> set HTML_ELEMENTS" "''th'' \<in> set HTML_ELEMENTS"
  "''td'' \<in> set HTML_ELEMENTS" "''figure'' \<in> set HTML_ELEMENTS" "''div'' \<in> set HTML_ELEMENTS"
  by (simp_all add: FOREIGN_ELEMENTS_def HTML_ELEMENTS_def)

lemma element:
  "n \<in> set HTML_ELEMENTS \<or> n \<in> set FOREIGN_ELEMENTS \<Longrightarrow> balanced c \<Longrightarrow> balanced (''<'' @ n @ ''>'' @ c @ ''</'' @ n @ ''>'')"
  using balanced_bare[of n c] by (simp add: open_element_def close_element_def)

section \<open>MathML\<close>

lemma balanced_m: "balanced (render_m v node)"
proof (induction v node rule: render_m.induct)
  case (1 v ns)
  then have "balanced (concat (map (render_m v) ns))" by (cases v) (auto intro: balanced_concat)
  with 1 show ?case using element[of "''mrow''" "concat (map (render_m v) ns)"] by (cases v) simp_all
next
  case (2 v s normal)
  then show ?case
    using element[of "''mi''" "escape_text s"] balanced_element[OF opens_variant(1), of "escape_text s"]
      balanced_element[OF opens_variant(1)[of Normal], of "escape_text s"]
    by (cases v) simp_all
next
  case (3 v s)
  then show ?case
    using element[of "''mn''" "escape_text s"] balanced_element[OF opens_variant(2), of "escape_text s"] by (cases v) simp_all
next
  case (5 v s)
  then show ?case using element[of "''mtext''" "escape_text s"] by simp
next
  case (6 v a b)
  have "balanced (arg_markup a (render_m None a) @ arg_markup b (render_m None b))"
    by (intro balanced_append balanced_arg 6)
  then show ?case using element[of "''mfrac''" "arg_markup a (render_m None a) @ arg_markup b (render_m None b)"] by simp
next
  case (7 v a)
  then show ?case using element[of "''msqrt''" "render_m None a"] by simp
next
  case (8 v a b)
  have "balanced (arg_markup a (render_m None a) @ arg_markup b (render_m None b))"
    by (intro balanced_append balanced_arg 8)
  then show ?case using element[of "''mroot''" "arg_markup a (render_m None a) @ arg_markup b (render_m None b)"] by simp
next
  case (9 v base sub super limits)
  let ?opt = "\<lambda>x. case x of Some s \<Rightarrow> arg_markup s (render_m None s) | None \<Rightarrow> []"
  have "balanced (arg_markup base (render_m None base) @ ?opt sub @ ?opt super)"
    using 9 by (intro balanced_append balanced_arg) (auto intro: balanced_arg split: option.split)
  then show ?case
    using balanced_bare[OF scripts_tag_known, of "arg_markup base (render_m None base) @ ?opt sub @ ?opt super"] by (simp add: Let_def)
next
  case (10 v left body right)
  have "balanced (delim left @ render_m None body @ delim right)" using 10 by (intro balanced_append) simp_all
  then show ?case using element[of "''mrow''" "delim left @ render_m None body @ delim right"] by simp
next
  case (11 v left right rows col_align)
  let ?cell = "\<lambda>cell. ''<mtd>'' @ render_m None cell @ ''</mtd>''"
  let ?row = "\<lambda>row. ''<mtr>'' @ concat (map ?cell row) @ ''</mtr>''"
  have cell: "balanced (?cell cell)" if "row \<in> set rows" "cell \<in> set row" for row cell
    using element[of "''mtd''" "render_m None cell"] 11 that by simp
  have row: "balanced (?row row)" if "row \<in> set rows" for row
    using element[of "''mtr''" "concat (map ?cell row)"] cell[OF that] balanced_concat[of row ?cell] by simp
  let ?table = "(if col_align = [] then ''<mtable>'' else ''<mtable columnalign=\"'' @ join_cols col_align @ ''\">'')
      @ concat (map ?row rows) @ ''</mtable>''"
  have "balanced (concat (map ?row rows))" by (rule balanced_concat) (rule row)
  then have "balanced ?table"
    using element[of "''mtable''" "concat (map ?row rows)"] balanced_element[OF opens_columnalign, of "concat (map ?row rows)" col_align]
    by simp
  then have "balanced (delim left @ ?table @ delim right)"
    by (rule balanced_append[OF balanced_delim balanced_append[OF _ balanced_delim]])
  then show ?case using element[of "''mrow''" "delim left @ ?table @ delim right"] by simp
next
  case (12 v w inner)
  then show ?case using element[of "''mrow''" "render_m (Some w) inner"] by simp
next
  case (13 v base glyph over stretchy)
  then have "balanced (arg_markup base (render_m None base) @ mo glyph stretchy)" by (intro balanced_append balanced_arg) simp_all
  then show ?case
    using balanced_element[OF opens_math(3), of "arg_markup base (render_m None base) @ mo glyph stretchy"]
      balanced_element[OF opens_math(4), of "arg_markup base (render_m None base) @ mo glyph stretchy"]
    by (simp add: Let_def close_element_def)
next
  case (14 v base mark over)
  then have "balanced (arg_markup base (render_m None base) @ arg_markup mark (render_m None mark))"
    by (intro balanced_append balanced_arg) simp_all
  then show ?case
    using balanced_bare[of "if over then ''mover'' else ''munder''" "arg_markup base (render_m None base) @ arg_markup mark (render_m None mark)"]
    by (simp add: Let_def)
next
  case (15 v n k)
  let ?frac = "''<mfrac linethickness=\"0\">'' @ arg_markup n (render_m None n) @ arg_markup k (render_m None k) @ ''</mfrac>''"
  have "balanced (arg_markup n (render_m None n) @ arg_markup k (render_m None k))" using 15 by (intro balanced_append balanced_arg)
  then have "balanced ?frac"
    using balanced_element[OF opens_math(2), of "arg_markup n (render_m None n) @ arg_markup k (render_m None k)"] by simp
  then have "balanced (mo ''('' True @ ?frac @ mo '')'' True)"
    by (rule balanced_append[OF balanced_mo balanced_append[OF _ balanced_mo]])
  from element[of "''mrow''", OF _ this] show ?case by (simp add: mo_def escape_text_map escaped_def)
next
  case (16 v inner)
  then show ?case using balanced_element[OF opens_math(5), of "render_m None inner"] by simp
next
  case (17 v base is_under)
  then show ?case
    using balanced_element[OF opens_math(6), of "render_m None base"] balanced_element[OF opens_math(7), of "render_m None base"]
    by (simp add: Let_def)
next
  case (18 v w)
  then show ?case using balanced_space[of w] by simp
qed simp_all

lemma balanced_mathml [simp]: "balanced (to_mathml latex s display)"
proof -
  have "balanced (render_seq (latex s))" unfolding render_seq_def by (rule balanced_concat) (rule balanced_m)
  then show ?thesis
    using balanced_element[OF opens_math(8), of "render_seq (latex s)"] balanced_element[OF opens_math(9), of "render_seq (latex s)"]
    by (simp add: to_mathml_def)
qed

section \<open>Inline content\<close>

lemma safe_target [simp]: "is_safe_url url \<Longrightarrow> attr_ok ''a'' (''href'', Some (escape_attr url))"
  "is_safe_url url \<Longrightarrow> attr_ok ''img'' (''src'', Some (escape_attr url))"
  by (simp_all add: safe_url)

lemma plain_attribute [simp]: "attr_ok n (''title'', v)" "attr_ok n (''alt'', v)" "attr_ok n (''id'', v)"
  "attr_ok n (''class'', v)" "attr_ok n (''start'', v)" "attr_ok n (''rel'', v)"
  by (simp_all add: PLAIN_ATTRIBUTES_def)

declare attr_ok.simps [simp del]

lemma clean_attributes [simp]:
  "clean_attr (''href'', escape_attr s)" "clean_attr (''src'', escape_attr s)" "clean_attr (''title'', escape_attr s)"
  "clean_attr (''alt'', escape_attr s)" "clean_attr (''id'', escape_attr s)"
  by (rule clean_escaped; simp add: PLAIN_ATTRIBUTES_def)+

lemma clean_class [simp]: "clean_attr (''class'', ''language-'' @ escape_attr s)"
  using escaped_attr_chars[of _ s] by (intro clean_plain) (auto simp: PLAIN_ATTRIBUTES_def)

lemma opens_anchor:
  assumes "is_safe_url dest"
  shows "opens (''a href=\"'' @ escape_attr dest @ ''\"'' @ title_attr title @ '' rel=\"noopener noreferrer\" target=\"_blank\"'') ''a''"
proof -
  have fixed: "clean_attr (''rel'', ''noopener noreferrer'')" "clean_attr (''target'', ''_blank'')" by code_simp+
  have target: "attr_ok ''a'' (''target'', Some ''_blank'')" by (simp add: attr_ok.simps)
  define ps where "ps = [(''href'', escape_attr dest)] @ (if title = [] then [] else [(''title'', escape_attr title)])
      @ [(''rel'', ''noopener noreferrer''), (''target'', ''_blank'')]"
  have "opens (''a'' @ concat (map attr_text ps)) ''a''"
    by (rule opens_text) (use assms fixed target in \<open>simp_all add: ps_def attrs_ok_def\<close>)
  then show ?thesis by (simp add: ps_def attr_text_def title_attr_def split: if_splits)
qed

lemma balanced_image:
  assumes "is_safe_url dest"
  shows "balanced (''<img src=\"'' @ escape_attr dest @ ''\" alt=\"'' @ escape_attr alt @ ''\"'' @ title_attr title @ ''>'')"
proof -
  define ps where "ps = [(''src'', escape_attr dest), (''alt'', escape_attr alt)] @ (if title = [] then [] else [(''title'', escape_attr title)])"
  have n: "''img'' \<in> set VOID_ELEMENTS" by (simp add: VOID_ELEMENTS_def)
  have "balanced (''<'' @ (''img'' @ concat (map attr_text ps)) @ ''>'')"
    by (rule balanced_void; subst read_tag_text) (use assms n in \<open>simp_all add: ps_def attrs_ok_def\<close>)
  then show ?thesis by (simp add: ps_def attr_text_def title_attr_def split: if_splits)
qed

lemma balanced_wrap: "n \<in> set HTML_ELEMENTS \<Longrightarrow> balanced c \<Longrightarrow> balanced (wrap_element n c)"
  using balanced_bare[of n c] by (simp add: wrap_element_def)

lemma balanced_inline: "balanced (render_inline latex node)"
proof (induction latex node rule: render_inline.induct)
  case (2 latex t)
  show ?case using element[of "''code''" "escape_text t"] by simp
next
  case (6 latex dest title content)
  have c: "balanced (concat (map (render_inline latex) content))" by (rule balanced_concat) (cases "is_safe_url dest"; use 6 in blast)
  show ?case using c balanced_element[OF opens_anchor c, of dest title] by simp
next
  case (7 latex dest title alt)
  then show ?case using balanced_image by simp
next
  case (10 latex)
  have "balanced (''<'' @ ''br'' @ ''>'')" by (rule balanced_void) code_simp+
  then show ?case by simp
qed (auto intro!: balanced_wrap balanced_concat simp: balanced_text)

lemma balanced_inlines [simp]: "balanced (render_inlines latex ns)"
  unfolding render_inlines_def by (rule balanced_concat) (rule balanced_inline)

section \<open>Blocks\<close>

lemma opens_cell: "opens (''th'' @ align_attr a) ''th''" "opens (''td'' @ align_attr a) ''td''"
  by (induction a; code_simp)+

lemma balanced_cells: "tag \<in> {''th'', ''td''} \<Longrightarrow> balanced (render_cells latex tag alignments cells)"
proof -
  assume "tag \<in> {''th'', ''td''}"
  then have "balanced (render_cell latex tag a c)" for a c
    using balanced_element[OF opens_cell(1), of "render_inlines latex c" a] balanced_element[OF opens_cell(2), of "render_inlines latex c" a]
    by (auto simp: render_cell_def close_element_def)
  then show ?thesis unfolding render_cells_def by (intro balanced_concat) (auto split: prod.split)
qed

lemma balanced_row: "tag \<in> {''th'', ''td''} \<Longrightarrow> balanced (''<tr>'' @ render_cells latex tag alignments row @ ''</tr>'')"
  using element[of "''tr''" "render_cells latex tag alignments row"] balanced_cells by simp

lemma balanced_table: "balanced (render_table latex alignments head rows)"
proof -
  let ?rows = "concat (map (\<lambda>row. ''<tr>'' @ render_cells latex ''td'' alignments row @ ''</tr>'') rows)"
  let ?head = "''<tr>'' @ render_cells latex ''th'' alignments head @ ''</tr>''"
  have "balanced ?rows" by (rule balanced_concat) (rule balanced_row, simp)
  then have body: "balanced (''<'' @ ''tbody'' @ ''>'' @ ?rows @ ''</'' @ ''tbody'' @ ''>'')" by (rule element[rotated]) simp
  have "balanced ?head" by (rule balanced_row) simp
  then have "balanced (''<'' @ ''thead'' @ ''>'' @ ?head @ ''</'' @ ''thead'' @ ''>'')" by (rule element[rotated]) simp
  from element[of "''table''", OF _ balanced_append[OF this body]] show ?thesis by (simp add: render_table_def)
qed

lemma balanced_code:
  assumes "\<And>svg. eq_ignore_ascii_case (if indented then [] else first_word info) ''mermaid'' \<Longrightarrow> to_svg literal = Some svg \<Longrightarrow> balanced svg"
  shows "balanced (render_code_block latex to_svg info indented literal)"
proof -
  have t: "balanced (escape_text literal @ [NL])" by (intro balanced_append balanced_escape_text balanced_text) simp
  have "opens ''figure class=\"catalerum-mermaid\"'' ''figure''" "opens ''pre class=\"mermaid\"'' ''pre''"
    "opens ''div class=\"catalerum-math-block\"'' ''div''" by code_simp+
  note fixed = this[THEN balanced_element]
  have "opens (''code'' @ concat (map attr_text [(''class'', ''language-'' @ escape_attr lang)])) ''code''" for lang
    by (rule opens_text) (use clean_class[of lang] in \<open>simp_all add: attrs_ok_def\<close>)
  then have "balanced (''<'' @ ''code class=\"language-'' @ escape_attr lang @ ''\"'' @ ''>'' @ (escape_text literal @ [NL]) @ ''</'' @ ''code'' @ ''>'')" for lang
    using balanced_element[OF _ t, of "''code class=\"language-'' @ escape_attr lang @ ''\"''" "''code''"] by (simp add: attr_text_def)
  note coded = element[of "''pre''", OF _ this] element[of "''pre''", OF _ element[of "''code''", OF _ t]]
  show ?thesis
    using fixed(1)[of "the (to_svg literal)"] fixed(2)[OF t] fixed(3)[OF balanced_mathml] coded assms
    by (auto simp: render_code_block_def Let_def split: option.split)
qed

lemma heading_tag_cases: "heading_tag level \<in> {''h1'', ''h2'', ''h3'', ''h4'', ''h5'', ''h6''}"
proof -
  have "min 6 (max 1 level) \<in> set [1, 2, 3, 4, 5, 6]" by (auto simp: min_def max_def)
  moreover have "list_all (\<lambda>k. ''h'' @ show_nat k \<in> {''h1'', ''h2'', ''h3'', ''h4'', ''h5'', ''h6''}) [1, 2, 3, 4, 5, 6]" by code_simp
  ultimately show ?thesis unfolding heading_tag_def list_all_iff by blast
qed

lemma balanced_heading:
  assumes "n \<in> set HTML_ELEMENTS" "balanced c"
  shows "balanced (''<'' @ n @ slug_attr slug @ ''>'' @ c @ close_element n)"
proof -
  have "opens (n @ slug_attr slug) n"
    using opens_text[of n "[(''id'', escape_attr slug)]"] opens_text[of n "[]"] assms(1)
    by (simp add: attrs_ok_def slug_attr_def attr_text_def)
  from balanced_element[OF this assms(2)] show ?thesis by (simp add: close_element_def)
qed

lemma show_nat_plain: "c \<in> set (show_nat n) \<Longrightarrow> c \<noteq> QUOTE \<and> c \<noteq> CHR ''>''"
  using show_uint_digits[of "int n"] by (auto simp: show_nat_def list_all_iff is_ascii_digit_def)

lemma balanced_list:
  assumes "balanced c"
  shows "balanced (list_open start @ c @ (if start \<noteq> None then ''</ol>'' else ''</ul>''))"
proof (cases start)
  case None
  then show ?thesis using element[of "''ul''" c] assms by simp
next
  case (Some n)
  have "clean_attr (''start'', show_nat n)" using show_nat_plain[of _ n] by (intro clean_plain) (auto simp: PLAIN_ATTRIBUTES_def)
  then have "opens (''ol'' @ concat (map attr_text [(''start'', show_nat n)])) ''ol''"
    by (intro opens_text) (simp_all add: attrs_ok_def)
  from balanced_element[OF this assms] show ?thesis using element[of "''ol''" c] assms Some by (simp add: attr_text_def)
qed

lemma balanced_task: "balanced (task_box t)"
proof -
  have box: "balanced ((''<'' @ b @ ''>'') @ '' '')" if "read_tag b = Some Void \<and> CHR ''>'' \<notin> set b" for b
    using that by (intro balanced_append balanced_void balanced_text) auto
  have "read_tag ''input type=\"checkbox\" checked disabled'' = Some Void \<and> CHR ''>'' \<notin> set ''input type=\"checkbox\" checked disabled''"
    "read_tag ''input type=\"checkbox\" disabled'' = Some Void \<and> CHR ''>'' \<notin> set ''input type=\"checkbox\" disabled''" by code_simp+
  note box[OF this(1)] box[OF this(2)]
  then show ?thesis by (cases t rule: task_box.cases) simp_all
qed

text \<open>The sources of the diagrams of a document.\<close>

fun diagrams :: "block \<Rightarrow> string list"
  and item_diagrams :: "list_item \<Rightarrow> string list" where
  "diagrams (CodeBlock info indented literal) =
     (if \<not> indented \<and> eq_ignore_ascii_case (first_word info) ''mermaid'' then [literal] else [])"
| "diagrams (Quote bs) = concat (map diagrams bs)"
| "diagrams (ListBlock start tight items) = concat (map item_diagrams items)"
| "diagrams _ = []"
| "item_diagrams (Item task bs) = concat (map diagrams bs)"

definition svg_ok :: "(string \<Rightarrow> string option) \<Rightarrow> string list \<Rightarrow> bool" where
  "svg_ok to_svg srcs \<longleftrightarrow> (\<forall>src\<in>set srcs. \<forall>svg. to_svg src = Some svg \<longrightarrow> balanced svg)"

lemma svg_ok_Nil [simp]: "svg_ok to_svg []"
  by (simp add: svg_ok_def)

lemma svg_ok_append [simp]: "svg_ok to_svg (xs @ ys) \<longleftrightarrow> svg_ok to_svg xs \<and> svg_ok to_svg ys"
  by (auto simp: svg_ok_def)

lemma svg_ok_concat: "svg_ok to_svg (concat (map f xs)) \<Longrightarrow> x \<in> set xs \<Longrightarrow> svg_ok to_svg (f x)"
  by (auto simp: svg_ok_def)

lemma balanced_block:
  shows "svg_ok to_svg (diagrams b) \<Longrightarrow> balanced (render_block latex to_svg b)"
    and "svg_ok to_svg (item_diagrams i) \<Longrightarrow> balanced (render_item latex to_svg tight i)"
proof (induction latex to_svg b and latex to_svg tight i rule: render_block_render_item.induct)
  case (1 latex to_svg ns)
  then show ?case using element[of "''p''" "render_inlines latex ns"] by simp
next
  case (2 latex to_svg level content)
  have "heading_tag level \<in> set HTML_ELEMENTS" using heading_tag_cases[of level] by (auto simp: HTML_ELEMENTS_def)
  then show ?case by (auto intro!: balanced_heading simp del: append.simps)
next
  case (3 latex to_svg info indented literal)
  have "eq_ignore_ascii_case (if indented then [] else first_word info) ''mermaid'' \<Longrightarrow> to_svg literal = Some svg \<Longrightarrow> balanced svg" for svg
    using 3 by (auto simp: svg_ok_def eq_ignore_ascii_case_def split: if_splits)
  then show ?case using balanced_code by simp
next
  case (4 latex to_svg bs)
  then have "balanced (concat (map (render_block latex to_svg) bs))" using svg_ok_concat by (intro balanced_concat) fastforce
  then show ?case using element[of "''blockquote''"] by simp
next
  case (5 latex to_svg start tight items)
  then have "balanced (concat (map (render_item latex to_svg tight) items))" using svg_ok_concat by (intro balanced_concat) fastforce
  then show ?case using balanced_list by simp
next
  case (6 latex to_svg alignments head rows)
  then show ?case using balanced_table by simp
next
  case (7 latex to_svg)
  have "balanced (''<'' @ ''hr'' @ ''>'')" by (rule balanced_void) code_simp+
  then show ?case by simp
next
  case (8 latex to_svg tight task bs)
  let ?f = "\<lambda>b. case b of Paragraph ns \<Rightarrow> if tight then render_inlines latex ns else render_block latex to_svg b
                       | _ \<Rightarrow> render_block latex to_svg b"
  have "balanced (?f b)" if "b \<in> set bs" for b
    using 8 that svg_ok_concat[of to_svg diagrams bs b] by (cases b) auto
  then have "balanced (task_box task @ concat (map ?f bs))" by (intro balanced_append balanced_task balanced_concat)
  from element[of "''li''", OF _ this] show ?case by simp
qed

text \<open>C9: Rendering is safe to inject. For every document and every LaTeX parser, the HTML is balanced
  markup of a fixed vocabulary: each tag is one of a list of elements without scripts, frames, forms or
  event handlers; its quotes close; each closing tag meets its own opening one; and the target of every
  link and image, with its entities decoded, is one a browser resolves to http, https, mailto, tel or a
  relative address. The SVG of the document's own diagrams, if it has any, is assumed to be markup of the
  reader's (\<open>mermaid\<close> is not modelled; the vocabulary has the elements and attributes its renderers write).\<close>

theorem html_safe:
  assumes "\<And>src svg st. src \<in> set (concat (map diagrams (parse_document md))) \<Longrightarrow> to_svg src = Some svg
    \<Longrightarrow> nest st svg = Some st"
  shows "nest [] (to_html latex to_svg md) = Some []"
proof -
  have ok: "svg_ok to_svg (concat (map diagrams (parse_document md)))"
    using assms by (simp add: svg_ok_def balanced_def)
  have "balanced (render_blocks latex to_svg (parse_document md))"
    unfolding render_blocks_def by (rule balanced_concat, rule balanced_block(1), rule svg_ok_concat[OF ok])
  then show ?thesis by (simp add: to_html_def push_html_def balanced_def)
qed

text \<open>At the frame the flowchart renderer writes around its boxes, with one edge and one label, and next to
  it a link that tries to run code.\<close>

definition in_element :: "string \<Rightarrow> (string \<times> string) list \<Rightarrow> string \<Rightarrow> string" where
  "in_element n ps content = ''<'' @ (n @ concat (map attr_text ps)) @ ''>'' @ content @ ''</'' @ n @ ''>''"

definition empty_element :: "string \<Rightarrow> (string \<times> string) list \<Rightarrow> string" where
  "empty_element n ps = ''<'' @ (n @ concat (map attr_text ps) @ ''/'') @ ''>''"

definition flow_frame :: string where
  "flow_frame =
     in_element ''svg'' [(''class'', ''catalerum-mermaid''), (''xmlns'', ''http://www.w3.org/2000/svg''),
         (''viewBox'', ''0 0 8.0 9.0''), (''role'', ''img''), (''font-family'', ''system-ui,sans-serif''), (''font-size'', ''15'')]
       (in_element ''defs'' [] (in_element ''marker'' [(''id'', ''cm-arrow''), (''markerWidth'', ''9''), (''markerHeight'', ''9''),
            (''refX'', ''8''), (''refY'', ''3''), (''orient'', ''auto-start-reverse''), (''markerUnits'', ''userSpaceOnUse'')]
          (empty_element ''path'' [(''d'', ''M0,0 L8,3 L0,6 z''), (''fill'', ''#64748b'')]))
        @ empty_element ''line'' [(''x1'', ''1.0''), (''y1'', ''2.0''), (''x2'', ''3.0''), (''y2'', ''4.0''), (''stroke'', ''#64748b''),
            (''stroke-width'', ''1.6''), (''marker-end'', ''url(#cm-arrow)'')]
        @ in_element ''text'' [(''x'', ''1.0''), (''y'', ''2.0''), (''text-anchor'', ''middle''), (''fill'', ''#475569''),
            (''font-size'', ''13'')] ''a &lt; b'')"

lemma balanced_in_element:
  assumes "list_all clean_attr ps \<and> n \<in> set (HTML_ELEMENTS @ FOREIGN_ELEMENTS) \<and> attrs_ok n (map (\<lambda>(a, v). (a, Some v)) ps)"
    and "balanced content"
  shows "balanced (in_element n ps content)"
  unfolding in_element_def using assms by (intro balanced_element opens_text) auto

lemma balanced_empty_element:
  assumes "list_all clean_attr ps \<and> n \<in> set FOREIGN_ELEMENTS \<and> attrs_ok n (map (\<lambda>(a, v). (a, Some v)) ps)"
  shows "balanced (empty_element n ps)"
proof -
  note read = read_tag_text[of n ps] element_names[of n]
  define as where "as = concat (map attr_text ps)"
  have n: "n \<noteq> []" "list_all is_ascii_alphanumeric n" using read(3) assms by simp_all
  have slash: "\<not> is_ascii_alphanumeric (CHR ''/'')" "\<not> is_ascii_alphanumeric SP" by code_simp+
  have "as = [] \<or> hd as = SP" using attr_text_shape[of ps] unfolding as_def by force
  then have "takeWhile is_ascii_alphanumeric (as @ ''/'') = []" "dropWhile is_ascii_alphanumeric (as @ ''/'') = as @ ''/''"
    using slash by (cases as; simp)+
  then have parts: "takeWhile is_ascii_alphanumeric (n @ as @ ''/'') = n" "dropWhile is_ascii_alphanumeric (n @ as @ ''/'') = as @ ''/''"
    using n(2) by (simp_all add: list_all_iff takeWhile_append dropWhile_append)
  have "\<not> starts_with ''/'' (n @ as @ ''/'')" using n slash(1) by (cases n) auto
  moreover have "ends_with ''/'' (as @ ''/'')" "butlast (as @ ''/'') = as" by (simp_all add: ends_with_def)
  moreover have "read_attrs as = Some (map (\<lambda>(a, v). (a, Some v)) ps)" unfolding as_def using assms by (simp add: read_attrs_text)
  ultimately have "read_tag (n @ as @ ''/'') = Some Void"
    using assms by (simp only: read_tag_def parts Let_def if_True if_False option.case not_not simp_thms)
  moreover have "CHR ''>'' \<notin> set (n @ as @ ''/'')" using read(2) assms unfolding as_def by auto
  ultimately show ?thesis unfolding empty_element_def as_def by (rule balanced_void)
qed

lemma flow_frame_reads: "balanced flow_frame"
  unfolding flow_frame_def
  by (intro balanced_in_element balanced_empty_element balanced_append balanced_text; code_simp)

theorem html_safe_witness:
  "nest [] (to_html (\<lambda>s. [MIdent s False]) (\<lambda>_. Some flow_frame)
     (''[x](javascript:a) $a$'' @ [NL, NL] @ ''```mermaid'' @ [NL] @ ''graph'' @ [NL] @ ''```'')) = Some []"
  by (rule html_safe) (use flow_frame_reads in \<open>auto simp: balanced_def\<close>)

end
