(* ===== verification/Md_Stream.thy ===== *)
theory Md_Stream
  imports Md_Html
begin

text \<open>
  The incremental renderer of the Markdown engine (\<open>catalerum-markdown/src/stream.rs\<close>): the boundary up
  to which a growing buffer is stable, the scan for it resumed at the last one, and the renderer that
  commits the stable part. An offset is a number of characters.
\<close>

section \<open>The boundary\<close>

text \<open>One complete line: a fence closes or opens, or the text is safe up to behind a blank line. Then
  the loop, a line a round, \<open>pos\<close> the \<open>line_start\<close> and \<open>s\<close> the text from there; a line without its end
  may open or close a fence but commits nothing.\<close>

definition scan_line :: "(char \<times> nat) option \<Rightarrow> nat \<Rightarrow> nat \<Rightarrow> string \<Rightarrow> (char \<times> nat) option \<times> nat" where
  "scan_line in_fence last_safe line_start raw =
     (let line = strip_cr raw; t = trim_start line in
      case in_fence of
        Some (ch, len) \<Rightarrow> (if is_closing_fence t ch len then None else in_fence, last_safe)
      | None \<Rightarrow>
          (case open_fence t of
             Some fence \<Rightarrow> (Some fence, last_safe)
           | None \<Rightarrow> (None, if trim line = [] then line_start else last_safe)))"

function scan_lines :: "(char \<times> nat) option \<Rightarrow> nat \<Rightarrow> nat \<Rightarrow> string \<Rightarrow> nat" where
  "scan_lines in_fence last_safe pos s =
     (let raw = takeWhile (\<lambda>c. c \<noteq> NL) s;
          line_start = pos + length raw + 1;
          r = scan_line in_fence last_safe line_start raw
      in if length raw = length s then last_safe
         else scan_lines (fst r) (snd r) line_start (drop (Suc (length raw)) s))"
  by pat_completeness auto
termination
proof (relation "measure (\<lambda>(_, _, _, s). length s)", goal_cases)
  case (2 in_fence last_safe pos s raw)
  then have "s \<noteq> []" by auto
  then show ?case by simp
qed simp

declare scan_lines.simps [simp del]

definition scan_boundary :: "string \<Rightarrow> nat \<Rightarrow> nat" where
  "scan_boundary full start = scan_lines None start start (drop start full)"

definition stable_boundary :: "string \<Rightarrow> nat" where
  "stable_boundary full = scan_boundary full 0"

section \<open>The renderer\<close>

record stream_renderer =
  sr_html :: string
  sr_committed :: nat

definition stream_new :: stream_renderer where
  "stream_new = \<lparr>sr_html = [], sr_committed = 0\<rparr>"

definition stream_update ::
    "(string \<Rightarrow> m list) \<Rightarrow> (string \<Rightarrow> string option) \<Rightarrow> string \<Rightarrow> stream_renderer \<Rightarrow> stream_renderer \<times> string" where
  "stream_update latex to_svg full r =
     (let r = r\<lparr>sr_committed := min (sr_committed r) (length full)\<rparr>;
          boundary = min (length full) (max (sr_committed r) (scan_boundary full (sr_committed r)));
          r = (if boundary > sr_committed r
               then r\<lparr>sr_html := push_html latex to_svg (sr_html r)
                                  (take (boundary - sr_committed r) (drop (sr_committed r) full)),
                      sr_committed := boundary\<rparr>
               else r)
      in (r, drop (sr_committed r) full))"

definition stream_finish ::
    "(string \<Rightarrow> m list) \<Rightarrow> (string \<Rightarrow> string option) \<Rightarrow> string \<Rightarrow> stream_renderer \<Rightarrow> stream_renderer" where
  "stream_finish latex to_svg full r =
     (if length full > sr_committed r
      then r\<lparr>sr_html := push_html latex to_svg (sr_html r) (drop (sr_committed r) full), sr_committed := length full\<rparr>
      else r)"

section \<open>Resuming\<close>

lemma line_of_longer:
  assumes "length (takeWhile (\<lambda>c. c \<noteq> NL) s) \<noteq> length s"
  shows "takeWhile (\<lambda>c. c \<noteq> NL) (s @ q) = takeWhile (\<lambda>c. c \<noteq> NL) s"
    "length (takeWhile (\<lambda>c. c \<noteq> NL) s) < length s"
proof -
  have "NL \<in> set s"
  proof (rule ccontr)
    assume "NL \<notin> set s"
    then have "\<forall>c\<in>set s. c \<noteq> NL" by blast
    then have "takeWhile (\<lambda>c. c \<noteq> NL) s = s" by (simp only: takeWhile_eq_all_conv)
    then have "length (takeWhile (\<lambda>c. c \<noteq> NL) s) = length s" by (rule arg_cong)
    with assms show False by contradiction
  qed
  then show "takeWhile (\<lambda>c. c \<noteq> NL) (s @ q) = takeWhile (\<lambda>c. c \<noteq> NL) s" using takeWhile_append1[of NL s] by simp
  show "length (takeWhile (\<lambda>c. c \<noteq> NL) s) < length s"
    using assms length_takeWhile_le[of "\<lambda>c. c \<noteq> NL" s] by linarith
qed

text \<open>A boundary a scan found is a line start outside any fence: however the text goes on, the scan
  passes there in the state a fresh one starts in.\<close>

lemma scan_line_safe:
  "snd (scan_line f safe ls raw) = safe \<or> scan_line f safe ls raw = (None, ls)"
  by (auto simp: scan_line_def Let_def split: option.splits)

lemma scan_passes_boundary:
  "scan_lines f safe pos s = b \<Longrightarrow>
     b = safe \<or> (pos < b \<and> b \<le> pos + length s \<and> (\<forall>q. scan_lines f safe pos (s @ q) = scan_lines None b b (drop (b - pos) (s @ q))))"
proof (induction f safe pos s arbitrary: b rule: scan_lines.induct)
  case (1 f safe pos s)
  define raw where "raw = takeWhile (\<lambda>c. c \<noteq> NL) s"
  let ?p = "pos + length raw + 1" and ?s = "drop (Suc (length raw)) s"
  let ?r = "scan_line f safe ?p raw"
  show ?case
  proof (cases "length raw = length s")
    case True
    then have "b = safe" using 1(2) by (subst (asm) scan_lines.simps) (simp add: Let_def raw_def)
    then show ?thesis by simp
  next
    case False
    have len: "length raw < length s" using line_of_longer(2)[of s] False by (simp add: raw_def)
    have step: "scan_lines f safe pos (s @ q) = scan_lines (fst ?r) (snd ?r) ?p (?s @ q)" for q
      using line_of_longer(1)[of s q] len by (subst scan_lines.simps) (simp add: Let_def raw_def)
    have run: "scan_lines (fst ?r) (snd ?r) ?p ?s = b" using step[of "[]"] 1(2) by simp
    have IH: "b = snd ?r \<or> (?p < b \<and> b \<le> ?p + length ?s \<and>
        (\<forall>q. scan_lines (fst ?r) (snd ?r) ?p (?s @ q) = scan_lines None b b (drop (b - ?p) (?s @ q))))"
      using 1(1)[OF raw_def refl refl _ run] False by simp
    have skip: "drop (b - pos) (s @ q) = drop (b - ?p) (?s @ q)" if "?p \<le> b" for q
    proof -
      have "b - pos = (b - ?p) + Suc (length raw)" using that by simp
      then have "drop (b - pos) (s @ q) = drop (b - ?p) (drop (Suc (length raw)) (s @ q))" by (simp only: drop_drop)
      then show ?thesis using len by simp
    qed
    from IH show ?thesis
    proof
      assume b: "b = snd ?r"
      then consider "b = safe" | "?r = (None, ?p)" using scan_line_safe[of f safe ?p raw] by metis
      then show ?thesis
      proof cases
        case 2
        then have "b = ?p" using b by simp
        then show ?thesis using step skip len 2 by simp
      qed simp
    next
      assume b: "?p < b \<and> b \<le> ?p + length ?s \<and>
        (\<forall>q. scan_lines (fst ?r) (snd ?r) ?p (?s @ q) = scan_lines None b b (drop (b - ?p) (?s @ q)))"
      then have "pos < b \<and> b \<le> pos + length s" using len by auto
      moreover have "scan_lines f safe pos (s @ q) = scan_lines None b b (drop (b - pos) (s @ q))" for q
        using b step[of q] skip[of q] by simp
      ultimately show ?thesis by blast
    qed
  qed
qed

lemma boundary_within: "start \<le> length full \<Longrightarrow> start \<le> scan_boundary full start \<and> scan_boundary full start \<le> length full"
  using scan_passes_boundary[of None start start "drop start full" "scan_boundary full start"] by (auto simp: scan_boundary_def)

lemma boundary_resumed:
  assumes "b = stable_boundary full"
  shows "scan_boundary (full @ q) b = stable_boundary (full @ q)"
  using scan_passes_boundary[of None 0 0 full b] assms
  by (auto simp: scan_boundary_def stable_boundary_def)

text \<open>The boundary is not always between blocks: the scan takes no note of the containers. The fence of a
  code block in a list item is not at a line's start, so that a blank line in the code is a boundary and
  its closing fence opens one; and an indented code block goes on behind a blank line.\<close>

definition LIST_FENCE :: string where
  "LIST_FENCE = ''- '' @ replicate 3 BACKTICK @ [NL, NL] @ ''  x'' @ [NL] @ ''  '' @ replicate 3 BACKTICK @ [NL, NL]"

lemma boundary_inside_list_fence:
  "let b = stable_boundary LIST_FENCE in
     parse_document LIST_FENCE = [ListBlock None False [Item None [CodeBlock [] False ''x'']]] \<and>
     parse_document (take b LIST_FENCE) @ parse_document (drop b LIST_FENCE) =
       [ListBlock None True [Item None [CodeBlock [] False []]], Paragraph [IText ''x''], CodeBlock [] False []]"
  by code_simp

section \<open>The committed part\<close>

text \<open>The buffers a renderer is fed: each goes on where the last one stopped.\<close>

fun grow :: "string \<Rightarrow> string list \<Rightarrow> string list" where
  "grow p [] = []"
| "grow p (d # ds) = (p @ d) # grow (p @ d) ds"

definition feed :: "(string \<Rightarrow> m list) \<Rightarrow> (string \<Rightarrow> string option) \<Rightarrow> string list \<Rightarrow> stream_renderer \<Rightarrow> stream_renderer" where
  "feed latex to_svg fulls r = fold (\<lambda>full r. fst (stream_update latex to_svg full r)) fulls r"

text \<open>What the renderer holds when it has seen \<open>full\<close>: the text up to the stable boundary, rendered in pieces.\<close>

definition committed_to :: "(string \<Rightarrow> m list) \<Rightarrow> (string \<Rightarrow> string option) \<Rightarrow> string \<Rightarrow> stream_renderer \<Rightarrow> bool" where
  "committed_to latex to_svg full r \<longleftrightarrow> sr_committed r = stable_boundary full \<and>
     (\<exists>pieces. concat pieces = take (stable_boundary full) full \<and> sr_html r = concat (map (to_html latex to_svg) pieces))"

lemma boundary_grows: "stable_boundary full \<le> stable_boundary (full @ q)" "stable_boundary full \<le> length full"
  using boundary_resumed[of "stable_boundary full" full q] boundary_within[of "stable_boundary full" "full @ q"] boundary_within[of 0 full]
  by (auto simp: stable_boundary_def)

lemma update_value:
  assumes "sr_committed r \<le> b'" "b' \<le> length full" "scan_boundary full (sr_committed r) = b'"
  shows "stream_update latex to_svg full r =
    (if sr_committed r < b'
     then (r\<lparr>sr_html := sr_html r @ to_html latex to_svg (take (b' - sr_committed r) (drop (sr_committed r) full)), sr_committed := b'\<rparr>,
           drop b' full)
     else (r, drop b' full))"
proof -
  have same: "r\<lparr>sr_committed := min (sr_committed r) (length full)\<rparr> = r" using assms by simp
  have lim: "min (length full) (max (sr_committed r) (scan_boundary full (sr_committed r))) = b'" using assms by simp
  show ?thesis unfolding stream_update_def Let_def same lim using assms(1) by (auto simp: push_html_def to_html_def)
qed

lemma update_commits:
  assumes "committed_to latex to_svg full r"
  shows "committed_to latex to_svg (full @ d) (fst (stream_update latex to_svg (full @ d) r))"
    "snd (stream_update latex to_svg (full @ d) r) = drop (stable_boundary (full @ d)) (full @ d)"
proof -
  let ?b = "stable_boundary full" and ?b' = "stable_boundary (full @ d)"
  obtain pieces where p: "sr_committed r = ?b" "concat pieces = take ?b full" "sr_html r = concat (map (to_html latex to_svg) pieces)"
    using assms by (auto simp: committed_to_def)
  have b: "?b \<le> ?b'" "?b' \<le> length (full @ d)" "?b \<le> length full" using boundary_grows boundary_grows(2)[of "full @ d"] by auto
  have "scan_boundary (full @ d) ?b = ?b'" by (rule boundary_resumed) simp
  then have update: "stream_update latex to_svg (full @ d) r =
    (if ?b < ?b' then (r\<lparr>sr_html := sr_html r @ to_html latex to_svg (take (?b' - ?b) (drop ?b (full @ d))), sr_committed := ?b'\<rparr>,
       drop ?b' (full @ d)) else (r, drop ?b' (full @ d)))"
    using update_value[of r ?b' "full @ d"] b p(1) by simp
  have "committed_to latex to_svg (full @ d) (fst (stream_update latex to_svg (full @ d) r)) \<and>
    snd (stream_update latex to_svg (full @ d) r) = drop ?b' (full @ d)"
  proof (cases "?b < ?b'")
    case True
    have "take ?b' (full @ d) = take ?b full @ take (?b' - ?b) (drop ?b (full @ d))"
      using take_add[of ?b "?b' - ?b" "full @ d"] b by simp
    then have "concat (pieces @ [take (?b' - ?b) (drop ?b (full @ d))]) = take ?b' (full @ d)" using p(2) by simp
    then show ?thesis
      using True p unfolding committed_to_def update
      by (intro conjI exI[of _ "pieces @ [take (?b' - ?b) (drop ?b (full @ d))]"]) simp_all
  next
    case False
    then have "?b' = ?b" using b by simp
    then show ?thesis using b p by (auto simp: update committed_to_def)
  qed
  then show "committed_to latex to_svg (full @ d) (fst (stream_update latex to_svg (full @ d) r))"
    "snd (stream_update latex to_svg (full @ d) r) = drop ?b' (full @ d)" by auto
qed

lemma feed_commits:
  "committed_to latex to_svg full r \<Longrightarrow> committed_to latex to_svg (full @ concat ds) (feed latex to_svg (grow full ds) r)"
proof (induction ds arbitrary: full r)
  case (Cons d ds)
  then show ?case using Cons.IH[OF update_commits(1)[OF Cons.prems, of d]] by (simp add: feed_def)
qed (simp add: feed_def)

lemma boundary_empty: "stable_boundary [] = 0"
  using boundary_grows(2)[of "[]"] by simp

lemma new_commits: "committed_to latex to_svg [] stream_new"
  by (auto simp: committed_to_def stream_new_def boundary_empty intro: exI[of _ "[]"])

lemma finish_commits:
  assumes "committed_to latex to_svg full r"
  shows "\<exists>pieces. concat pieces = full \<and> sr_html (stream_finish latex to_svg full r) = concat (map (to_html latex to_svg) pieces)"
proof -
  let ?b = "stable_boundary full"
  obtain pieces where p: "sr_committed r = ?b" "concat pieces = take ?b full" "sr_html r = concat (map (to_html latex to_svg) pieces)"
    using assms by (auto simp: committed_to_def)
  show ?thesis
  proof (cases "?b < length full")
    case True
    then show ?thesis using p
      by (intro exI[of _ "pieces @ [drop ?b full]"]) (simp add: stream_finish_def push_html_def to_html_def)
  next
    case False
    then show ?thesis using p by (intro exI[of _ pieces]) (simp add: stream_finish_def)
  qed
qed

text \<open>C23: Streaming does not depend on how a reply arrives. After any sequence of deltas the renderer has
  committed exactly up to the boundary a scan of the whole text from its start finds, although each
  update scanned from the last boundary only; its HTML is that of consecutive pieces of the text that
  make up the committed part; an update hands back the rest; and when the stream is finished, the
  pieces rendered make up the whole reply: nothing is lost, repeated or reordered.\<close>

theorem stream_commits:
  "let reply = concat ds; r = feed latex to_svg (grow [] ds) stream_new in
     sr_committed r = stable_boundary reply \<and>
     (\<exists>pieces. concat pieces = take (stable_boundary reply) reply \<and> sr_html r = concat (map (to_html latex to_svg) pieces)) \<and>
     snd (stream_update latex to_svg (reply @ d) r) = drop (stable_boundary (reply @ d)) (reply @ d) \<and>
     (\<exists>pieces. concat pieces = reply \<and> sr_html (stream_finish latex to_svg reply r) = concat (map (to_html latex to_svg) pieces))"
  using feed_commits[OF new_commits, of latex to_svg ds] update_commits(2)[OF feed_commits[OF new_commits, of latex to_svg ds]]
    finish_commits[OF feed_commits[OF new_commits, of latex to_svg ds]]
  by (simp add: committed_to_def Let_def)

end
