(* ===== verification/Md_Events.thy ===== *)
theory Md_Events
  imports Md_Block
begin

text \<open>
  The event stream of the Markdown engine (\<open>catalerum-markdown/src/event.rs\<close>, \<open>parser/mod.rs\<close>): the
  tree of a document flattened for consumers that pull, and that every opening event of it is closed
  by its own kind of closing event, properly nested.
\<close>

section \<open>The vocabulary\<close>

datatype code_kind = Indented | Fenced string

datatype md_tag =
    TagParagraph | TagHeading nat | TagBlockQuote | TagCodeBlock code_kind | TagList "nat option" | TagItem
  | TagEmphasis | TagStrong | TagStrikethrough | TagLink string string | TagImage string string
  | TagTable "alignment list" | TagTableHead | TagTableRow | TagTableCell

datatype md_tag_end =
    EndParagraph | EndHeading nat | EndBlockQuote | EndCodeBlock | EndList bool | EndItem
  | EndEmphasis | EndStrong | EndStrikethrough | EndLink | EndImage
  | EndTable | EndTableHead | EndTableRow | EndTableCell

datatype md_event =
    StartTag md_tag | EndTag md_tag_end | EvText string | EvCode string | EvInlineMath string
  | EvDisplayMath string | EvSoftBreak | EvHardBreak | EvRule | EvTaskListMarker bool

section \<open>Flattening\<close>

fun emit_inline :: "inline \<Rightarrow> md_event list" where
  "emit_inline (IText t) = [EvText t]"
| "emit_inline (ICode t) = [EvCode t]"
| "emit_inline (IEmph c) = StartTag TagEmphasis # concat (map emit_inline c) @ [EndTag EndEmphasis]"
| "emit_inline (IStrong c) = StartTag TagStrong # concat (map emit_inline c) @ [EndTag EndStrong]"
| "emit_inline (IStrike c) = StartTag TagStrikethrough # concat (map emit_inline c) @ [EndTag EndStrikethrough]"
| "emit_inline (ILink d t c) = StartTag (TagLink d t) # concat (map emit_inline c) @ [EndTag EndLink]"
| "emit_inline (IImage d t alt) = [StartTag (TagImage d t), EvText alt, EndTag EndImage]"
| "emit_inline (IMath m disp) = [if disp then EvDisplayMath m else EvInlineMath m]"
| "emit_inline ISoftBreak = [EvSoftBreak]"
| "emit_inline IHardBreak = [EvHardBreak]"

definition emit_inlines :: "inline list \<Rightarrow> md_event list" where
  "emit_inlines ns = concat (map emit_inline ns)"

definition emit_cell :: "inline list \<Rightarrow> md_event list" where
  "emit_cell cell = StartTag TagTableCell # emit_inlines cell @ [EndTag EndTableCell]"

definition emit_table :: "alignment list \<Rightarrow> inline list list \<Rightarrow> inline list list list \<Rightarrow> md_event list" where
  "emit_table alignments head rows =
     [StartTag (TagTable alignments), StartTag TagTableHead] @ concat (map emit_cell head) @ [EndTag EndTableHead]
     @ concat (map (\<lambda>row. StartTag TagTableRow # concat (map emit_cell row) @ [EndTag EndTableRow]) rows)
     @ [EndTag EndTable]"

text \<open>The paragraphs of a tight list come without their tags.\<close>

fun emit_block :: "block \<Rightarrow> md_event list" and emit_item :: "bool \<Rightarrow> list_item \<Rightarrow> md_event list" where
  "emit_block (Paragraph ns) = StartTag TagParagraph # emit_inlines ns @ [EndTag EndParagraph]"
| "emit_block (Heading level ns) = StartTag (TagHeading level) # emit_inlines ns @ [EndTag (EndHeading level)]"
| "emit_block (CodeBlock info indented literal) =
     [StartTag (TagCodeBlock (if indented then Indented else Fenced info)), EvCode literal, EndTag EndCodeBlock]"
| "emit_block (Quote bs) = StartTag TagBlockQuote # concat (map emit_block bs) @ [EndTag EndBlockQuote]"
| "emit_block (ListBlock start tight items) =
     StartTag (TagList start) # concat (map (emit_item tight) items) @ [EndTag (EndList (start \<noteq> None))]"
| "emit_block (TableBlock alignments head rows) = emit_table alignments head rows"
| "emit_block Rule = [EvRule]"
| "emit_item tight (Item task bs) =
     StartTag TagItem # (case task of Some b \<Rightarrow> [EvTaskListMarker b] | None \<Rightarrow> [])
     @ concat (map (\<lambda>b. case b of Paragraph ns \<Rightarrow> if tight then emit_inlines ns else emit_block b | _ \<Rightarrow> emit_block b) bs)
     @ [EndTag EndItem]"

definition parse_events :: "string \<Rightarrow> md_event list" where
  "parse_events input = concat (map emit_block (parse_document input))"

section \<open>Nesting\<close>

fun end_of :: "md_tag \<Rightarrow> md_tag_end" where
  "end_of TagParagraph = EndParagraph" | "end_of (TagHeading l) = EndHeading l"
| "end_of TagBlockQuote = EndBlockQuote" | "end_of (TagCodeBlock k) = EndCodeBlock"
| "end_of (TagList s) = EndList (s \<noteq> None)" | "end_of TagItem = EndItem"
| "end_of TagEmphasis = EndEmphasis" | "end_of TagStrong = EndStrong"
| "end_of TagStrikethrough = EndStrikethrough" | "end_of (TagLink d t) = EndLink"
| "end_of (TagImage d t) = EndImage" | "end_of (TagTable a) = EndTable"
| "end_of TagTableHead = EndTableHead" | "end_of TagTableRow = EndTableRow"
| "end_of TagTableCell = EndTableCell"

text \<open>The open tags after a stream, when each closing event met its own.\<close>

fun open_after :: "md_tag_end list \<Rightarrow> md_event list \<Rightarrow> md_tag_end list option" where
  "open_after st [] = Some st"
| "open_after st (StartTag t # es) = open_after (end_of t # st) es"
| "open_after st (EndTag e # es) = (case st of t # st' \<Rightarrow> if t = e then open_after st' es else None | [] \<Rightarrow> None)"
| "open_after st (_ # es) = open_after st es"

definition closed :: "md_event list \<Rightarrow> bool" where
  "closed es \<longleftrightarrow> (\<forall>st. open_after st es = Some st)"

lemma open_after_append:
  "open_after st (es @ fs) = (case open_after st es of Some st' \<Rightarrow> open_after st' fs | None \<Rightarrow> None)"
  by (induction st es rule: open_after.induct) (auto split: list.splits)

lemma closed_append [intro]: "closed es \<Longrightarrow> closed fs \<Longrightarrow> closed (es @ fs)"
  by (simp add: closed_def open_after_append)

lemma closed_Nil [simp]: "closed []"
  by (simp add: closed_def)

lemma closed_concat [intro]: "(\<And>es. es \<in> set ess \<Longrightarrow> closed es) \<Longrightarrow> closed (concat ess)"
  by (induction ess) (auto simp: closed_append)

lemma closed_map: "(\<And>x. x \<in> set xs \<Longrightarrow> closed (f x)) \<Longrightarrow> closed (concat (map f xs))"
  by (rule closed_concat) auto

lemma closed_element [intro]: "closed es \<Longrightarrow> end_of t = e \<Longrightarrow> closed (StartTag t # es @ [EndTag e])"
  by (simp add: closed_def open_after_append)

lemma closed_leaf [simp]:
  "closed [EvText t]" "closed [EvCode t]" "closed [EvInlineMath t]" "closed [EvDisplayMath t]" "closed [EvSoftBreak]"
  "closed [EvHardBreak]" "closed [EvRule]" "closed [EvTaskListMarker b]"
  by (simp_all add: closed_def)

lemma emit_inline_closed: "closed (emit_inline n)"
proof (induction n rule: emit_inline.induct)
  case (7 d t alt)
  show ?case using closed_element[of "[EvText alt]" "TagImage d t"] by simp
qed (auto intro!: closed_element closed_map)

lemma emit_inlines_closed [intro]: "closed (emit_inlines ns)"
  by (simp add: emit_inlines_def closed_map emit_inline_closed)

lemma emit_cell_closed: "closed (emit_cell c)"
  unfolding emit_cell_def by (rule closed_element) auto

lemma emit_table_closed: "closed (emit_table a h rs)"
proof -
  have row: "closed (StartTag TagTableRow # concat (map emit_cell r) @ [EndTag EndTableRow])" for r
    by (rule closed_element) (simp_all add: emit_cell_closed closed_map)
  have head: "closed (StartTag TagTableHead # concat (map emit_cell h) @ [EndTag EndTableHead])"
    by (rule closed_element) (simp_all add: emit_cell_closed closed_map)
  have "closed (StartTag (TagTable a) # ((StartTag TagTableHead # concat (map emit_cell h) @ [EndTag EndTableHead])
      @ concat (map (\<lambda>r. StartTag TagTableRow # concat (map emit_cell r) @ [EndTag EndTableRow]) rs)) @ [EndTag EndTable])"
    using row head by (simp only: closed_element closed_append closed_map end_of.simps)
  then show ?thesis by (simp add: emit_table_def)
qed

lemma emit_block_closed: "closed (emit_block b)" "closed (emit_item tight i)"
proof (induction b and tight i rule: emit_block_emit_item.induct)
  case (3 info indented literal)
  show ?case using closed_element[of "[EvCode literal]" "TagCodeBlock k" for k] by simp
next
  case (8 tight task bs)
  let ?f = "\<lambda>b. case b of Paragraph ns \<Rightarrow> if tight then emit_inlines ns else emit_block b | _ \<Rightarrow> emit_block b"
  have "closed (?f b)" if "b \<in> set bs" for b
    using 8 that emit_inlines_closed by (cases b) (auto intro!: closed_element)
  then have "closed (StartTag TagItem # ((case task of Some b \<Rightarrow> [EvTaskListMarker b] | None \<Rightarrow> []) @ concat (map ?f bs)) @ [EndTag EndItem])"
    by (intro closed_element closed_append closed_map) (auto split: option.split)
  then show ?case by simp
qed (auto intro!: closed_element closed_map simp: emit_table_closed emit_inlines_closed)

text \<open>C24: The event stream of every document is well formed: each opening event is matched by a later
  closing event of its own kind, the two enclose a well-formed stream, and nothing closes that was
  not opened.\<close>

theorem events_nested: "open_after [] (parse_events input) = Some []"
proof -
  have "closed (parse_events input)" by (simp add: parse_events_def closed_map emit_block_closed)
  then show ?thesis by (simp add: closed_def)
qed

end
