(* ===== verification/Agent_Fs.thy ===== *)
theory Agent_Fs
  imports Md_Text "HOL-Library.Sublist"
begin

text \<open>
  The file system the computer agent works on, with what \<open>catalerum-agent/src/ops.rs\<close> uses of
  \<open>std::fs\<close> and \<open>std::path\<close> on a Unix: directories, files and symbolic links by absolute path, the
  resolution of a path as \<open>realpath\<close> and \<open>open\<close> do it, and the lexical operations on paths. A text of
  a file is its bytes. The system refuses nothing for permissions; what it refuses is \<open>None\<close>.
\<close>

section \<open>Nodes\<close>

datatype fs_node = FDir | FFile string | FLink string

text \<open>The nodes by path, in the order a directory is listed in; the process's working directory; the
  length a directory reports.\<close>

record machine =
  m_nodes :: "(string list \<times> fs_node) list"
  m_cwd :: "string list"
  m_dir_len :: nat

definition node_at :: "machine \<Rightarrow> string list \<Rightarrow> fs_node option" where
  "node_at m p = map_of (m_nodes m) p"

definition put_node :: "string list \<Rightarrow> fs_node \<Rightarrow> machine \<Rightarrow> machine" where
  "put_node p n m = m\<lparr>m_nodes := (p, n) # filter (\<lambda>(q, _). q \<noteq> p) (m_nodes m)\<rparr>"

definition children :: "machine \<Rightarrow> string list \<Rightarrow> (string \<times> fs_node) list" where
  "children m p = map (\<lambda>(q, n). (last q, n)) (filter (\<lambda>(q, _). q \<noteq> [] \<and> butlast q = p) (m_nodes m))"

definition drop_node :: "string list \<Rightarrow> machine \<Rightarrow> machine" where
  "drop_node p m = m\<lparr>m_nodes := filter (\<lambda>(q, _). q \<noteq> p) (m_nodes m)\<rparr>"

lemma map_of_other: "q \<noteq> p \<Longrightarrow> map_of (filter (\<lambda>(r, _). r \<noteq> p) xs) q = map_of xs q"
  by (induction xs) auto

lemma node_put [simp]: "node_at (put_node p n m) q = (if q = p then Some n else node_at m q)"
  by (simp add: node_at_def put_node_def map_of_other)

section \<open>Paths\<close>

definition absolute :: "string \<Rightarrow> bool" where
  "absolute s \<longleftrightarrow> starts_with ''/'' s"

text \<open>\<open>Path::components\<close> behind the root: a dot stays only in front of a relative path.\<close>

definition components :: "string \<Rightarrow> string list" where
  "components s =
     (let ps = split_on (CHR ''/'') s; keep = filter (\<lambda>c. c \<noteq> [] \<and> c \<noteq> ''.'') ps
      in if \<not> absolute s \<and> hd ps = ''.'' then ''.'' # keep else keep)"

definition path_text :: "string list \<Rightarrow> string" where
  "path_text p = (if p = [] then ''/'' else concat (map (\<lambda>c. CHR ''/'' # c) p))"

fun join_names :: "string list \<Rightarrow> string" where
  "join_names [] = []"
| "join_names [c] = c"
| "join_names (c # cs) = c @ CHR ''/'' # join_names cs"

text \<open>\<open>Path::parent\<close> and \<open>Path::file_name\<close>.\<close>

definition path_parent :: "string \<Rightarrow> string option" where
  "path_parent s =
     (let cs = components s in
      if cs = [] then None
      else Some (if absolute s then path_text (butlast cs) else join_names (butlast cs)))"

definition path_file_name :: "string \<Rightarrow> string option" where
  "path_file_name s =
     (let cs = components s in if cs = [] \<or> last cs = ''..'' \<or> last cs = ''.'' then None else Some (last cs))"

text \<open>\<open>Path::join\<close>, on the text of an absolute path.\<close>

definition path_join :: "string list \<Rightarrow> string \<Rightarrow> string" where
  "path_join base s =
     (if absolute s then s else (if base = [] then ''/'' else path_text base @ ''/'') @ s)"

section \<open>Resolution\<close>

text \<open>The names left are taken one by one from a directory that holds no link. A link's names go in
  front; forty links are followed at most. To create a file, the last name may be missing.\<close>

function follow_names :: "bool \<Rightarrow> machine \<Rightarrow> nat \<Rightarrow> string list \<Rightarrow> string list \<Rightarrow> string list option" where
  "follow_names creating m k cur [] = Some cur"
| "follow_names creating m k cur (c # cs) =
     (if node_at m cur \<noteq> Some FDir then None
      else if c = ''.'' then follow_names creating m k cur cs
      else if c = ''..'' then follow_names creating m k (butlast cur) cs
      else case node_at m (cur @ [c]) of
             None \<Rightarrow> if creating \<and> cs = [] then Some (cur @ [c]) else None
           | Some (FLink t) \<Rightarrow>
               (if k = 0 \<or> t = [] then None
                else follow_names creating m (k - 1) (if absolute t then [] else cur) (components t @ cs))
           | Some _ \<Rightarrow> follow_names creating m k (cur @ [c]) cs)"
  by pat_completeness auto
termination
  by (relation "inv_image (less_than <*lex*> less_than) (\<lambda>(creating, m, k, cur, cs). (k, length cs))") auto

declare follow_names.simps(2) [simp del]

definition MAX_LINKS :: nat where "MAX_LINKS = 40"

definition follow_text :: "bool \<Rightarrow> machine \<Rightarrow> string \<Rightarrow> string list option" where
  "follow_text creating m s =
     (if s = [] then None else follow_names creating m MAX_LINKS (if absolute s then [] else m_cwd m) (components s))"

text \<open>\<open>fs::canonicalize\<close>: a trailing slash asks for a directory.\<close>

definition canonicalize :: "machine \<Rightarrow> string \<Rightarrow> string list option" where
  "canonicalize m s =
     (case follow_text False m s of
        None \<Rightarrow> None
      | Some p \<Rightarrow> if ends_with ''/'' s \<and> node_at m p \<noteq> Some FDir then None else Some p)"

text \<open>The calls that follow_names links, on a path the agent resolved: opening a file for reading, for
  writing with or without creating it, listing a directory, and looking at a node itself.\<close>

definition located :: "machine \<Rightarrow> string list \<Rightarrow> string list option" where
  "located m p = follow_names False m MAX_LINKS [] p"

definition os_read :: "machine \<Rightarrow> string list \<Rightarrow> (string list \<times> string) option" where
  "os_read m p = (case located m p of
     None \<Rightarrow> None
   | Some q \<Rightarrow> (case node_at m q of Some (FFile c) \<Rightarrow> Some (q, c) | _ \<Rightarrow> None))"

definition os_list :: "machine \<Rightarrow> string list \<Rightarrow> (string list \<times> (string \<times> fs_node) list) option" where
  "os_list m p = (case located m p of
     None \<Rightarrow> None
   | Some q \<Rightarrow> if node_at m q = Some FDir then Some (q, children m q) else None)"

definition os_lstat :: "machine \<Rightarrow> string list \<Rightarrow> (string list \<times> fs_node) option" where
  "os_lstat m p =
     (if p = [] then map_option (Pair []) (node_at m [])
      else case located m (butlast p) of
        None \<Rightarrow> None
      | Some q \<Rightarrow> map_option (Pair (q @ [last p])) (if node_at m q = Some FDir then node_at m (q @ [last p]) else None))"

datatype write_mode = Overwrite | CreateNew | Append

text \<open>Creating follows a link to a file that is not there and creates that one; \<open>O_EXCL\<close> follows no link.\<close>

fun os_write :: "machine \<Rightarrow> string list \<Rightarrow> write_mode \<Rightarrow> string \<Rightarrow> (string list \<times> machine) option" where
  "os_write m p CreateNew content =
     (case located m (butlast p) of
        None \<Rightarrow> None
      | Some q \<Rightarrow>
          if p \<noteq> [] \<and> node_at m q = Some FDir \<and> node_at m (q @ [last p]) = None
          then Some (q @ [last p], put_node (q @ [last p]) (FFile content) m) else None)"
| "os_write m p mode content =
     (case follow_names True m MAX_LINKS [] p of
        None \<Rightarrow> None
      | Some q \<Rightarrow>
          (case node_at m q of
             Some FDir \<Rightarrow> None
           | Some (FFile old) \<Rightarrow> Some (q, put_node q (FFile (if mode = Append then old @ content else content)) m)
           | _ \<Rightarrow> Some (q, put_node q (FFile content) m)))"

text \<open>Removing a file or a link, not what it leads to.\<close>

definition os_remove :: "machine \<Rightarrow> string list \<Rightarrow> (string list \<times> machine) option" where
  "os_remove m p = (case os_lstat m p of
     Some (q, n) \<Rightarrow> if n = FDir then None else Some (q, drop_node q m)
   | None \<Rightarrow> None)"

definition is_dir :: "machine \<Rightarrow> string list \<Rightarrow> bool" where
  "is_dir m p = (case located m p of Some q \<Rightarrow> node_at m q = Some FDir | None \<Rightarrow> False)"

section \<open>Canonical paths\<close>

text \<open>A path no name of which is a link or a dot, with directories above.\<close>

definition plain_names :: "string list \<Rightarrow> bool" where
  "plain_names p \<longleftrightarrow> (\<forall>c\<in>set p. c \<noteq> ''.'' \<and> c \<noteq> ''..'')"

definition canonical :: "machine \<Rightarrow> string list \<Rightarrow> bool" where
  "canonical m p \<longleftrightarrow> plain_names p \<and> (\<forall>q. strict_prefix q p \<longrightarrow> node_at m q = Some FDir)
     \<and> (p \<noteq> [] \<longrightarrow> node_at m p \<noteq> None \<and> (\<forall>t. node_at m p \<noteq> Some (FLink t)))"

lemma canonical_Nil [simp]: "canonical m []"
  by (simp add: canonical_def plain_names_def)

lemma strict_prefix_snoc: "strict_prefix q (p @ [c]) \<longleftrightarrow> prefix q p"
  by (auto simp: strict_prefix_def prefix_snoc)

lemma canonical_child:
  assumes "canonical m p" "node_at m p = Some FDir" "c \<noteq> ''.''" "c \<noteq> ''..''"
    and "node_at m (p @ [c]) = Some n" "\<And>t. n \<noteq> FLink t"
  shows "canonical m (p @ [c])"
  using assms by (auto simp: canonical_def plain_names_def strict_prefix_snoc prefix_order.le_less)

lemma canonical_butlast: "canonical m p \<Longrightarrow> canonical m (butlast p)"
proof (cases p rule: rev_cases)
  case (snoc q c)
  assume "canonical m p"
  moreover have "strict_prefix r q \<Longrightarrow> strict_prefix r p" for r using snoc by (auto simp: strict_prefix_snoc)
  moreover have "strict_prefix q p" using snoc by (simp add: strict_prefix_snoc)
  ultimately show ?thesis using snoc by (auto simp: canonical_def plain_names_def)
qed simp

lemma follow_canonical:
  "follow_names False m k cur cs = Some q \<Longrightarrow> canonical m cur \<Longrightarrow> canonical m q"
proof (induction False m k cur cs rule: follow_names.induct)
  case (2 m k cur c cs)
  note IH = 2(1-5) and run = 2(6) and cur = 2(7)
  have dir: "node_at m cur = Some FDir" using run by (simp add: follow_names.simps(2) split: if_splits)
  show ?case
  proof (cases "c = ''.'' \<or> c = ''..''")
    case True
    then show ?thesis using IH(1,2) run dir cur canonical_butlast by (auto simp: follow_names.simps(2))
  next
    case False
    show ?thesis
    proof (cases "node_at m (cur @ [c])")
      case None
      then show ?thesis using run dir False by (simp add: follow_names.simps(2))
    next
      case (Some n)
      show ?thesis
      proof (cases n)
        case (FLink t)
        then show ?thesis using IH(5)[of n t] run dir False Some cur by (auto simp: follow_names.simps(2) split: if_splits)
      next
        case FDir
        then have "canonical m (cur @ [c])" using canonical_child[OF cur dir] False Some by auto
        then show ?thesis using IH(3)[of n] FDir run dir False Some by (auto simp: follow_names.simps(2))
      next
        case (FFile t)
        then have "canonical m (cur @ [c])" using canonical_child[OF cur dir] False Some by auto
        then show ?thesis using IH(4)[of n t] FFile run dir False Some by (auto simp: follow_names.simps(2))
      qed
    qed
  qed
qed simp

end
