(* ===== verification/Utf8.thy ===== *)
theory Utf8
  imports Main
begin

text \<open>
  What the crates use of Rust's UTF-8 decoding, on bytes as numbers.
\<close>

text \<open>\<open>String::from_utf8\<close> and its lossy form: the code points; at an error, whether the input ended within
  a character, and what follows the bytes that are one.\<close>

fun utf8_tail :: "nat \<Rightarrow> (nat \<times> nat) list \<Rightarrow> nat list \<Rightarrow> bool \<times> nat list + nat \<times> nat list" where
  "utf8_tail cp [] bs = Inr (cp, bs)"
| "utf8_tail cp ((lo, hi) # rs) [] = Inl (True, [])"
| "utf8_tail cp ((lo, hi) # rs) (b # bs) =
     (if lo \<le> b \<and> b \<le> hi then utf8_tail (64 * cp + (b - 128)) rs bs else Inl (False, b # bs))"

definition utf8_next :: "nat \<Rightarrow> nat list \<Rightarrow> bool \<times> nat list + nat \<times> nat list" where
  "utf8_next b bs =
     (if b < 128 then Inr (b, bs)
      else if b < 194 \<or> 244 < b then Inl (False, bs)
      else if b < 224 then utf8_tail (b - 192) [(128, 191)] bs
      else if b < 240 then
        utf8_tail (b - 224) [(if b = 224 then 160 else 128, if b = 237 then 159 else 191), (128, 191)] bs
      else utf8_tail (b - 240) [(if b = 240 then 144 else 128, if b = 244 then 143 else 191), (128, 191), (128, 191)] bs)"

lemma utf8_tail_length: 
  "utf8_tail cp rs bs = Inr (c, rest) \<Longrightarrow> length rest \<le> length bs"
  "utf8_tail cp rs bs = Inl (e, rest) \<Longrightarrow> length rest \<le> length bs"
  by (induction cp rs bs rule: utf8_tail.induct) (auto split: if_splits)

lemma utf8_next_length:
  "utf8_next b bs = Inr (c, rest) \<Longrightarrow> length rest \<le> length bs"
  "utf8_next b bs = Inl (e, rest) \<Longrightarrow> length rest \<le> length bs"
  using utf8_tail_length unfolding utf8_next_def by (metis Inl_inject Inr_inject Pair_inject Inl_Inr_False order_refl)+

function from_utf8 :: "nat list \<Rightarrow> nat list \<times> bool option" where
  "from_utf8 [] = ([], None)"
| "from_utf8 (b # bs) =
     (case utf8_next b bs of
        Inl (incomplete, _) \<Rightarrow> ([], Some incomplete)
      | Inr (cp, rest) \<Rightarrow> (case from_utf8 rest of (cps, e) \<Rightarrow> (cp # cps, e)))"
  by pat_completeness auto
termination
  by (relation "measure length") (auto simp: utf8_next_length less_Suc_eq_le)

definition REPLACEMENT :: nat where "REPLACEMENT = 65533"

function from_utf8_lossy :: "nat list \<Rightarrow> nat list" where
  "from_utf8_lossy [] = []"
| "from_utf8_lossy (b # bs) =
     (case utf8_next b bs of
        Inl (_, rest) \<Rightarrow> REPLACEMENT # from_utf8_lossy rest
      | Inr (cp, rest) \<Rightarrow> cp # from_utf8_lossy rest)"
  by pat_completeness auto
termination
  by (relation "measure length") (auto simp: utf8_next_length less_Suc_eq_le)

declare from_utf8.simps(2) [simp del] from_utf8_lossy.simps(2) [simp del]

end
