(* ===== verification/Agent_Ops.thy ===== *)
theory Agent_Ops
  imports Agent_Fs Utf8
begin

text \<open>
  The computer agent's operations (\<open>catalerum-agent/src/ops.rs\<close>, \<open>config.rs\<close>, the protocol of
  \<open>catalerum-core/src/computer.rs\<close>): a path the server names is resolved, confined to the granted
  directories and used. Every operation also reports where in the file system it went. The directory
  walker, the regular expressions, the shell, the desktop's tools and the clock are arguments; a search runs
  one worker.
\<close>

section \<open>The protocol\<close>

datatype dir_mode = ReadOnly | ReadWrite

fun can_write :: "dir_mode \<Rightarrow> bool" where
  "can_write ReadWrite = True"
| "can_write ReadOnly = False"

record dir_grant =
  dg_path :: string
  dg_mode :: dir_mode

record dir_config =
  dc_path :: string
  dc_mode :: dir_mode

definition as_grant :: "dir_config \<Rightarrow> dir_grant" where
  "as_grant d = \<lparr>dg_path = dc_path d, dg_mode = dc_mode d\<rparr>"

datatype exec_policy = PolicyAuto | AlwaysAsk | AlwaysAllow | PolicyDeny

datatype desktop_action = Screenshot | OpenUrl string | Notify string string

datatype computer_op =
    ListDir "string option" string
  | ReadFile "string option" string "nat option" "nat option" "string option"
  | WriteFile "string option" string string write_mode
  | Search "string option" "string option" string bool "nat option" bool "nat option"
  | Exec string "string option" "nat option" "string option"
  | GrantAccess "string option" string dir_mode
  | Stat "string option" string
  | Desktop desktop_action

record computer_config =
  ac_server_url :: string
  ac_token :: string
  ac_name :: string
  ac_dirs :: "dir_config list"
  ac_grantable_roots :: "string list"
  ac_exec_policy :: exec_policy
  ac_desktop :: bool
  ac_sandbox :: bool

definition dir_grants :: "computer_config \<Rightarrow> dir_grant list" where
  "dir_grants c = map as_grant (ac_dirs c)"

record agent =
  ag_config :: computer_config
  ag_runtime :: "dir_grant list"

definition agent_new :: "computer_config \<Rightarrow> agent" where
  "agent_new c = \<lparr>ag_config = c, ag_runtime = []\<rparr>"

datatype agent_error =
    CannotResolve string | ParentInaccessible string | ReadOnlyDirectory string | NotServed string | NotADirectory string
  | CwdNotAbsolute | RelativeNeedsCwd | Refused | MediaWindow | MediaTooLarge | BinaryFile | ControlBytes
  | NothingToSearch | InvalidRegex | NotGrantable string | NoDirectoryServed | DesktopDisabled | DesktopFailed | ShellFailed

datatype hit = NameHit string | ContentHit string nat "nat list"

datatype reply =
    Entries string "(string \<times> string \<times> string \<times> nat) list" bool
  | TextContent string "nat list" nat bool
  | MediaContent string string string nat
  | Written string nat
  | Status string "(string \<times> nat) option"
  | Hits "hit list" bool bool
  | Granted string dir_mode
  | Ran "nat list" "nat list" "nat option" bool
  | Opened string
  | Notified
  | Captured string

datatype access = Listed "string list" | ReadAt "string list" | WroteAt "string list" | ProbedAt "string list" | RanIn "string list"
  | RemovedAt "string list" | Started string "string list"

datatype shell_outcome = Exited string string "nat option" | TimedOut | Failed

datatype tool_outcome = Finished bool | NotStarted

text \<open>What is outside the crate: the walker (on the names it may enter), the search patterns, the shell
  (with the working directory, the granted directories, the sandbox flag, the time limit and the input),
  the desktop's tools (by program and arguments), the directory for temporary files with the process's
  number, and the seconds a search has taken at the k-th look at the clock.\<close>

record externals =
  x_walk :: "machine \<Rightarrow> (string \<Rightarrow> bool) \<Rightarrow> string list \<Rightarrow> string list list"
  x_pattern :: "string \<Rightarrow> bool \<Rightarrow> (string \<Rightarrow> bool) option"
  x_shell :: "string \<Rightarrow> string list \<Rightarrow> dir_grant list \<Rightarrow> bool \<Rightarrow> nat \<Rightarrow> string option \<Rightarrow> machine
    \<Rightarrow> shell_outcome \<times> machine"
  x_tool :: "string \<Rightarrow> string list \<Rightarrow> machine \<Rightarrow> tool_outcome \<times> machine"
  x_temp_dir :: "string list"
  x_process :: nat
  x_elapsed :: "nat \<Rightarrow> nat"

definition MAX_READ_BYTES :: nat where "MAX_READ_BYTES = 262144"
definition MAX_SEARCH_FILE_BYTES :: nat where "MAX_SEARCH_FILE_BYTES = 4194304"
definition DEFAULT_SEARCH_MATCHES :: nat where "DEFAULT_SEARCH_MATCHES = 200"
definition MAX_SEARCH_MATCHES :: nat where "MAX_SEARCH_MATCHES = 2000"
definition MAX_DIR_ENTRIES :: nat where "MAX_DIR_ENTRIES = 4000"
definition DEFAULT_EXEC_TIMEOUT_SECS :: nat where "DEFAULT_EXEC_TIMEOUT_SECS = 300"
definition MAX_EXEC_TIMEOUT_SECS :: nat where "MAX_EXEC_TIMEOUT_SECS = 3600"
definition DEFAULT_SEARCH_TIMEOUT_SECS :: nat where "DEFAULT_SEARCH_TIMEOUT_SECS = 10"
definition MAX_SEARCH_TIMEOUT_SECS :: nat where "MAX_SEARCH_TIMEOUT_SECS = 3600"

definition timeout_of :: "nat \<Rightarrow> nat \<Rightarrow> nat option \<Rightarrow> nat" where
  "timeout_of usual longest secs = max 1 (min longest (case secs of Some n \<Rightarrow> n | None \<Rightarrow> usual))"

section \<open>Scope\<close>

definition all_grants :: "agent \<Rightarrow> dir_grant list" where
  "all_grants a = dir_grants (ag_config a) @ ag_runtime a"

definition canonicalize_lenient :: "machine \<Rightarrow> string \<Rightarrow> agent_error + string list" where
  "canonicalize_lenient m s =
     (case canonicalize m s of
        Some c \<Rightarrow> Inr c
      | None \<Rightarrow>
          (case (path_parent s, path_file_name s) of
             (Some parent, Some name) \<Rightarrow>
               if parent = [] then Inl (CannotResolve s)
               else (case canonicalize m parent of
                       None \<Rightarrow> Inl (ParentInaccessible s)
                     | Some cp \<Rightarrow> Inr (cp @ [name]))
           | _ \<Rightarrow> Inl (CannotResolve s)))"

text \<open>The grants in order; one that does not resolve covers nothing.\<close>

fun scan_grants :: "machine \<Rightarrow> bool \<Rightarrow> string list \<Rightarrow> bool \<Rightarrow> dir_grant list \<Rightarrow> bool + bool" where
  "scan_grants m need_write canon read_only [] = Inl read_only"
| "scan_grants m need_write canon read_only (g # gs) =
     (case canonicalize m (dg_path g) of
        None \<Rightarrow> scan_grants m need_write canon read_only gs
      | Some base \<Rightarrow>
          if prefix base canon then
            (if \<not> need_write \<or> can_write (dg_mode g) then Inr True else scan_grants m need_write canon True gs)
          else scan_grants m need_write canon read_only gs)"

definition scoped_path :: "agent \<Rightarrow> machine \<Rightarrow> string \<Rightarrow> bool \<Rightarrow> agent_error + string list" where
  "scoped_path a m requested need_write =
     (case canonicalize_lenient m requested of
        Inl e \<Rightarrow> Inl e
      | Inr canon \<Rightarrow>
          (case scan_grants m need_write canon False (all_grants a) of
             Inr _ \<Rightarrow> Inr canon
           | Inl read_only \<Rightarrow> Inl (if read_only then ReadOnlyDirectory requested else NotServed requested)))"

definition scoped_dir :: "agent \<Rightarrow> machine \<Rightarrow> string \<Rightarrow> agent_error + string list" where
  "scoped_dir a m requested =
     (case scoped_path a m requested False of
        Inl e \<Rightarrow> Inl e
      | Inr p \<Rightarrow> if is_dir m p then Inr p else Inl (NotADirectory requested))"

definition scoped_cwd :: "agent \<Rightarrow> machine \<Rightarrow> string option \<Rightarrow> agent_error + string list option" where
  "scoped_cwd a m cwd =
     (case cwd of
        None \<Rightarrow> Inr None
      | Some p \<Rightarrow>
          if \<not> absolute p then Inl CwdNotAbsolute
          else (case scoped_dir a m p of Inl e \<Rightarrow> Inl e | Inr d \<Rightarrow> Inr (Some d)))"

definition resolve_input_path :: "agent \<Rightarrow> machine \<Rightarrow> string option \<Rightarrow> string \<Rightarrow> agent_error + string" where
  "resolve_input_path a m cwd requested =
     (case scoped_cwd a m cwd of
        Inl e \<Rightarrow> Inl e
      | Inr base \<Rightarrow>
          if absolute requested then Inr requested
          else (case base of Some b \<Rightarrow> Inr (path_join b requested) | None \<Rightarrow> Inl RelativeNeedsCwd))"

section \<open>Reading and writing\<close>

definition control_point :: "nat \<Rightarrow> bool" where
  "control_point c \<longleftrightarrow> c \<le> 31 \<or> (127 \<le> c \<and> c \<le> 159)"

definition decode_text_file :: "string \<Rightarrow> bool \<Rightarrow> agent_error + nat list" where
  "decode_text_file bytes truncated =
     (case from_utf8 (map code bytes) of (cps, e) \<Rightarrow>
        if e = None \<or> (truncated \<and> e = Some True) then
          (if list_ex (\<lambda>c. control_point c \<and> c \<notin> {9, 10, 13}) cps then Inl ControlBytes else Inr cps)
        else Inl BinaryFile)"

definition entry_kind :: "fs_node \<Rightarrow> string" where
  "entry_kind n = (case n of FDir \<Rightarrow> ''dir'' | FLink _ \<Rightarrow> ''symlink'' | FFile _ \<Rightarrow> ''file'')"

definition node_len :: "machine \<Rightarrow> fs_node \<Rightarrow> nat" where
  "node_len m n = (case n of FDir \<Rightarrow> m_dir_len m | FLink t \<Rightarrow> length t | FFile c \<Rightarrow> length c)"

definition list_dir :: "agent \<Rightarrow> machine \<Rightarrow> string \<Rightarrow> (agent_error + reply) \<times> access list" where
  "list_dir a m path =
     (case scoped_dir a m path of
        Inl e \<Rightarrow> (Inl e, [])
      | Inr dir \<Rightarrow>
          (case os_list m dir of
             None \<Rightarrow> (Inl Refused, [])
           | Some (q, cs) \<Rightarrow>
               (Inr (Entries (path_text dir)
                  (map (\<lambda>(c, n). (c, path_text (dir @ [c]), entry_kind n, node_len m n)) (take MAX_DIR_ENTRIES cs))
                  (MAX_DIR_ENTRIES < length cs)),
                [Listed q])))"

text \<open>An offset is passed on as a signed one. Media is refused after the read.\<close>

definition read_file ::
  "agent \<Rightarrow> machine \<Rightarrow> string \<Rightarrow> nat option \<Rightarrow> nat option \<Rightarrow> string option \<Rightarrow> (agent_error + reply) \<times> access list" where
  "read_file a m path offset limit media =
     (case scoped_path a m path False of
        Inl e \<Rightarrow> (Inl e, [])
      | Inr p \<Rightarrow>
          (case os_read m p of
             None \<Rightarrow> (Inl Refused, [])
           | Some (q, bytes) \<Rightarrow>
               let from_byte = (case offset of Some off \<Rightarrow> off | None \<Rightarrow> 0);
                   cap = (case limit of Some l \<Rightarrow> min l MAX_READ_BYTES | None \<Rightarrow> MAX_READ_BYTES);
                   buf = take cap (drop from_byte bytes);
                   truncated = from_byte + length buf < length bytes
               in if 2 ^ 63 \<le> from_byte then (Inl Refused, [ReadAt q])
                  else (case media of
                    Some content_type \<Rightarrow>
                      (if offset \<noteq> None \<or> limit \<noteq> None then Inl MediaWindow
                       else if truncated then Inl MediaTooLarge
                       else Inr (MediaContent (path_text p) buf content_type (length bytes)), [ReadAt q])
                  | None \<Rightarrow>
                      (case decode_text_file buf truncated of
                         Inl e \<Rightarrow> (Inl e, [ReadAt q])
                       | Inr content \<Rightarrow> (Inr (TextContent (path_text p) content (length bytes) truncated), [ReadAt q])))))"

definition write_file ::
  "agent \<Rightarrow> machine \<Rightarrow> string \<Rightarrow> string \<Rightarrow> write_mode \<Rightarrow> (agent_error + reply) \<times> machine \<times> access list" where
  "write_file a m path content mode =
     (case scoped_path a m path True of
        Inl e \<Rightarrow> (Inl e, m, [])
      | Inr p \<Rightarrow>
          (case os_write m p mode content of
             None \<Rightarrow> (Inl Refused, m, [])
           | Some (q, m') \<Rightarrow> (Inr (Written (path_text p) (length content)), m', [WroteAt q])))"

text \<open>The reply without the time of the last change, which the model's nodes do not have.\<close>

definition stat :: "agent \<Rightarrow> machine \<Rightarrow> string \<Rightarrow> (agent_error + reply) \<times> access list" where
  "stat a m path =
     (case scoped_path a m path False of
        Inl e \<Rightarrow> (Inl e, [])
      | Inr p \<Rightarrow>
          (case os_lstat m p of
             None \<Rightarrow> (Inr (Status (path_text p) None), [])
           | Some (q, n) \<Rightarrow> (Inr (Status (path_text p) (Some (entry_kind n, node_len m n))), [ProbedAt q])))"

section \<open>Search\<close>

definition is_hidden :: "string \<Rightarrow> bool" where
  "is_hidden name \<longleftrightarrow> starts_with ''.'' name"

text \<open>A parent root takes the place of those below it.\<close>

fun unique_roots :: "string list list \<Rightarrow> string list list \<Rightarrow> string list list" where
  "unique_roots acc [] = acc"
| "unique_roots acc (r # rs) =
     (if \<exists>e\<in>set acc. prefix e r then unique_roots acc rs
      else unique_roots (filter (\<lambda>e. \<not> prefix r e) acc @ [r]) rs)"

record search_state =
  ss_hits :: "hit list"
  ss_claimed :: nat
  ss_capped :: bool
  ss_timed_out :: bool
  ss_reads :: nat
  ss_trail :: "access list"

text \<open>\<open>started.elapsed() >= timeout\<close>.\<close>

definition expired :: "externals \<Rightarrow> nat \<Rightarrow> search_state \<Rightarrow> bool \<times> search_state" where
  "expired x timeout st = (timeout \<le> x_elapsed x (ss_reads st), st\<lparr>ss_reads := ss_reads st + 1\<rparr>)"

definition should_stop :: "externals \<Rightarrow> nat \<Rightarrow> nat \<Rightarrow> search_state \<Rightarrow> bool \<times> search_state" where
  "should_stop x timeout cap st =
     (if cap \<le> ss_claimed st then (True, st)
      else case expired x timeout st of
        (late, st') \<Rightarrow> if late then (True, st'\<lparr>ss_timed_out := True\<rparr>) else (False, st'))"

definition push_hit :: "nat \<Rightarrow> hit \<Rightarrow> search_state \<Rightarrow> bool \<times> search_state" where
  "push_hit cap h st =
     (let slot = ss_claimed st; st1 = st\<lparr>ss_claimed := slot + 1\<rparr>
      in if cap \<le> slot then (False, st1\<lparr>ss_capped := True\<rparr>)
         else (True, st1\<lparr>ss_capped := ss_capped st \<or> slot + 1 = cap, ss_hits := ss_hits st @ [h]\<rparr>))"

text \<open>\<open>BufRead::read_line\<close>: the lines with their ends.\<close>

fun lines_of :: "string \<Rightarrow> string \<Rightarrow> string list" where
  "lines_of acc [] = (if acc = [] then [] else [rev acc])"
| "lines_of acc (c # cs) = (if code c = 10 then rev (c # acc) # lines_of [] cs else lines_of (c # acc) cs)"

definition line_text :: "string \<Rightarrow> string" where
  "line_text l =
     (if l \<noteq> [] \<and> code (last l) = 10 then
        (let t = butlast l in if t \<noteq> [] \<and> code (last t) = 13 then butlast t else t)
      else l)"

fun search_lines ::
  "externals \<Rightarrow> nat \<Rightarrow> (string \<Rightarrow> bool) \<Rightarrow> nat \<Rightarrow> string list \<Rightarrow> nat \<Rightarrow> string list \<Rightarrow> search_state \<Rightarrow> search_state" where
  "search_lines x timeout is_match cap path line_number [] st = st"
| "search_lines x timeout is_match cap path line_number (l # ls) st =
     (if snd (from_utf8 (map code l)) \<noteq> None then st
      else case should_stop x timeout cap st of
        (stop, st1) \<Rightarrow>
          if stop then st1
          else if is_match (line_text l) then
            (case push_hit cap (ContentHit (path_text path) (line_number + 1)
                    (take 500 (fst (from_utf8 (map code (line_text l)))))) st1 of
               (going, st2) \<Rightarrow>
                 if going then search_lines x timeout is_match cap path (line_number + 1) ls st2 else st2)
          else search_lines x timeout is_match cap path (line_number + 1) ls st1)"

definition search_file_contents ::
  "externals \<Rightarrow> nat \<Rightarrow> machine \<Rightarrow> (string \<Rightarrow> bool) \<Rightarrow> nat \<Rightarrow> string list \<Rightarrow> search_state \<Rightarrow> search_state" where
  "search_file_contents x timeout m is_match cap path st =
     (case os_read m path of
        None \<Rightarrow> st
      | Some (q, bytes) \<Rightarrow>
          search_lines x timeout is_match cap path 0 (lines_of [] bytes) (st\<lparr>ss_trail := ss_trail st @ [ReadAt q]\<rparr>))"

text \<open>The entries of one walk. What an entry is, is what it is without following it.\<close>

fun search_entries ::
  "externals \<Rightarrow> nat \<Rightarrow> machine \<Rightarrow> (string \<Rightarrow> bool) \<Rightarrow> nat \<Rightarrow> string list list \<Rightarrow> search_state \<Rightarrow> search_state" where
  "search_entries x timeout m is_match cap [] st = st"
| "search_entries x timeout m is_match cap (p # ps) st =
     (case os_lstat m p of
        None \<Rightarrow> search_entries x timeout m is_match cap ps st
      | Some (q, n) \<Rightarrow>
          (case should_stop x timeout cap (st\<lparr>ss_trail := ss_trail st @ [ProbedAt q]\<rparr>) of
             (stop, st1) \<Rightarrow>
               if stop then st1
               else
                 (case (if is_match (last p) then push_hit cap (NameHit (path_text p)) st1 else (True, st1)) of
                    (going, st2) \<Rightarrow>
                      if \<not> going then st2
                      else search_entries x timeout m is_match cap ps
                        (case n of
                           FFile c \<Rightarrow>
                             if length c \<le> MAX_SEARCH_FILE_BYTES
                             then search_file_contents x timeout m is_match cap p st2 else st2
                         | _ \<Rightarrow> st2))))"

definition search_task ::
  "externals \<Rightarrow> nat \<Rightarrow> machine \<Rightarrow> bool \<Rightarrow> (string \<Rightarrow> bool) \<Rightarrow> nat \<Rightarrow> string list \<Rightarrow> search_state \<Rightarrow> search_state" where
  "search_task x timeout m include_hidden is_match cap task st =
     search_entries x timeout m is_match cap (x_walk x m (\<lambda>name. include_hidden \<or> \<not> is_hidden name) task) st"

text \<open>The first level of the roots: the tasks, and whether the time was over.\<close>

fun entry_tasks ::
  "externals \<Rightarrow> nat \<Rightarrow> bool \<Rightarrow> string list \<Rightarrow> (string \<times> fs_node) list \<Rightarrow> search_state \<Rightarrow> string list list \<times> bool \<times> search_state" where
  "entry_tasks x timeout include_hidden root [] st = ([], False, st)"
| "entry_tasks x timeout include_hidden root ((c, _) # cs) st =
     (case expired x timeout st of
        (late, st1) \<Rightarrow>
          if late then ([], True, st1)
          else case entry_tasks x timeout include_hidden root cs st1 of
            (ts, b, st2) \<Rightarrow> (if include_hidden \<or> \<not> is_hidden c then (root @ [c]) # ts else ts, b, st2))"

fun root_tasks ::
  "externals \<Rightarrow> nat \<Rightarrow> machine \<Rightarrow> bool \<Rightarrow> string list list \<Rightarrow> search_state \<Rightarrow> string list list \<times> search_state" where
  "root_tasks x timeout m include_hidden [] st = ([], st)"
| "root_tasks x timeout m include_hidden (r # rs) st =
     (case expired x timeout st of
        (late, st1) \<Rightarrow>
          if late then ([], st1)
          else case os_list m r of
            None \<Rightarrow> root_tasks x timeout m include_hidden rs st1
          | Some (q, cs) \<Rightarrow>
              (case entry_tasks x timeout include_hidden r cs (st1\<lparr>ss_trail := ss_trail st1 @ [Listed q]\<rparr>) of
                 (ts, over, st2) \<Rightarrow>
                   if over then (ts, st2)
                   else case root_tasks x timeout m include_hidden rs st2 of (us, st3) \<Rightarrow> (ts @ us, st3)))"

text \<open>The worker's loop over the tasks.\<close>

fun run_tasks ::
  "externals \<Rightarrow> nat \<Rightarrow> machine \<Rightarrow> bool \<Rightarrow> (string \<Rightarrow> bool) \<Rightarrow> nat \<Rightarrow> string list list \<Rightarrow> search_state \<Rightarrow> search_state" where
  "run_tasks x timeout m include_hidden is_match cap ts st =
     (case should_stop x timeout cap st of
        (stop, st1) \<Rightarrow>
          if stop then st1
          else case ts of
            [] \<Rightarrow> st1
          | t # us \<Rightarrow>
              run_tasks x timeout m include_hidden is_match cap us
                (search_task x timeout m include_hidden is_match cap t st1))"

definition search_roots :: "agent \<Rightarrow> machine \<Rightarrow> string option \<Rightarrow> string option \<Rightarrow> agent_error + string list list" where
  "search_roots a m cwd root =
     (case scoped_cwd a m cwd of
        Inl e \<Rightarrow> Inl e
      | Inr base \<Rightarrow>
          (case (root, base) of
             (Some r, Some b) \<Rightarrow>
               (case scoped_dir a m (if absolute r then r else path_join b r) of Inl e \<Rightarrow> Inl e | Inr d \<Rightarrow> Inr [d])
           | (Some r, None) \<Rightarrow>
               if absolute r then (case scoped_dir a m r of Inl e \<Rightarrow> Inl e | Inr d \<Rightarrow> Inr [d])
               else Inl RelativeNeedsCwd
           | (None, Some b) \<Rightarrow> Inr [b]
           | (None, None) \<Rightarrow> Inr (List.map_filter (\<lambda>g. canonicalize m (dg_path g)) (all_grants a))))"

definition search_cap :: "nat option \<Rightarrow> nat" where
  "search_cap max_results =
     max 1 (case max_results of Some n \<Rightarrow> min n MAX_SEARCH_MATCHES | None \<Rightarrow> DEFAULT_SEARCH_MATCHES)"

definition search ::
  "externals \<Rightarrow> agent \<Rightarrow> machine \<Rightarrow> string option \<Rightarrow> string option \<Rightarrow> string \<Rightarrow> bool \<Rightarrow> nat option \<Rightarrow> bool \<Rightarrow> nat
   \<Rightarrow> (agent_error + reply) \<times> access list" where
  "search x a m cwd root query regex max_results include_hidden timeout =
     (case search_roots a m cwd root of
        Inl e \<Rightarrow> (Inl e, [])
      | Inr roots \<Rightarrow>
          if roots = [] then (Inl NothingToSearch, [])
          else case x_pattern x query regex of
            None \<Rightarrow> (Inl InvalidRegex, [])
          | Some is_match \<Rightarrow>
              (case root_tasks x timeout m include_hidden (unique_roots [] roots)
                  \<lparr>ss_hits = [], ss_claimed = 0, ss_capped = False, ss_timed_out = False, ss_reads = 0, ss_trail = []\<rparr> of
                 (tasks, st1) \<Rightarrow>
                   (case expired x timeout st1 of
                      (late, st2) \<Rightarrow>
                        let st = run_tasks x timeout m include_hidden is_match (search_cap max_results) tasks
                              (st2\<lparr>ss_timed_out := late\<rparr>)
                        in (Inr (Hits (ss_hits st) (ss_timed_out st \<or> ss_capped st) (ss_timed_out st)), ss_trail st))))"

section \<open>Grants, commands and the desktop\<close>

definition grant_access :: "agent \<Rightarrow> machine \<Rightarrow> string \<Rightarrow> dir_mode \<Rightarrow> (agent_error + reply) \<times> agent" where
  "grant_access a m path mode =
     (case canonicalize_lenient m path of
        Inl e \<Rightarrow> (Inl e, a)
      | Inr canon \<Rightarrow>
          if list_ex (\<lambda>r. case canonicalize m r of Some base \<Rightarrow> prefix base canon | None \<Rightarrow> False)
               (ac_grantable_roots (ag_config a)) then
            (Inr (Granted (path_text canon) mode),
             a\<lparr>ag_runtime := filter (\<lambda>g. dg_path g \<noteq> path_text canon) (ag_runtime a)
                 @ [\<lparr>dg_path = path_text canon, dg_mode = mode\<rparr>]\<rparr>)
          else (Inl (NotGrantable path), a))"

definition cap_utf8 :: "string \<Rightarrow> nat list" where
  "cap_utf8 bytes = from_utf8_lossy (map code (take MAX_READ_BYTES bytes))"

definition exec ::
  "externals \<Rightarrow> agent \<Rightarrow> machine \<Rightarrow> string \<Rightarrow> string option \<Rightarrow> nat option \<Rightarrow> string option \<Rightarrow> (agent_error + reply) \<times> machine \<times> access list" where
  "exec x a m command cwd timeout_secs stdin =
     (case (case cwd of
              Some c \<Rightarrow> scoped_dir a m c
            | None \<Rightarrow>
                (case all_grants a of
                   [] \<Rightarrow> Inl NoDirectoryServed
                 | g # _ \<Rightarrow> (case canonicalize m (dg_path g) of Some d \<Rightarrow> Inr d | None \<Rightarrow> Inl NoDirectoryServed))) of
        Inl e \<Rightarrow> (Inl e, m, [])
      | Inr workdir \<Rightarrow>
          (case x_shell x command workdir (all_grants a) (ac_sandbox (ag_config a))
             (timeout_of DEFAULT_EXEC_TIMEOUT_SECS MAX_EXEC_TIMEOUT_SECS timeout_secs) stdin m of
             (Exited out err exit_code, m') \<Rightarrow>
               (Inr (Ran (cap_utf8 out) (cap_utf8 err) exit_code False), m', [RanIn workdir])
           | (TimedOut, m') \<Rightarrow> (Inr (Ran [] [] None True), m', [RanIn workdir])
           | (Failed, m') \<Rightarrow> (Inl ShellFailed, m', [RanIn workdir])))"

text \<open>A desktop tool is a program of the machine with the rights of the agent's user; what it does is
  the machine it leaves. These are the tools of Linux.\<close>

definition run_detached ::
  "externals \<Rightarrow> string \<times> string list \<Rightarrow> reply \<Rightarrow> machine \<Rightarrow> (agent_error + reply) \<times> machine \<times> access list" where
  "run_detached x cmd answer m =
     (case cmd of (program, args) \<Rightarrow>
        (case x_tool x program args m of
           (out, m') \<Rightarrow> (if out = Finished True then Inr answer else Inl DesktopFailed, m', [Started program args])))"

definition open_url_command :: "string \<Rightarrow> string \<times> string list" where
  "open_url_command url = (''xdg-open'', [url])"

definition notify_command :: "string \<Rightarrow> string \<Rightarrow> string \<times> string list" where
  "notify_command title body = (''notify-send'', [title, body])"

definition screenshot_commands :: "string \<Rightarrow> (string \<times> string list) list" where
  "screenshot_commands path =
     [(''grim'', [path]), (''scrot'', [''-o'', path]), (''import'', [''-window'', ''root'', path])]"

text \<open>The tools are tried until one succeeds and the picture exists.\<close>

fun attempt_screenshot ::
  "externals \<Rightarrow> string list \<Rightarrow> (string \<times> string list) list \<Rightarrow> machine \<Rightarrow> bool \<times> machine \<times> access list" where
  "attempt_screenshot x path [] m = (False, m, [])"
| "attempt_screenshot x path ((program, args) # rest) m =
     (case x_tool x program args m of
        (out, m1) \<Rightarrow>
          let probe = (if out = Finished True then located m1 path else None);
              trail = Started program args # (case probe of Some q \<Rightarrow> [ProbedAt q] | None \<Rightarrow> [])
          in if probe \<noteq> None then (True, m1, trail)
             else (case attempt_screenshot x path rest m1 of (captured, m2, t) \<Rightarrow> (captured, m2, trail @ t)))"

text \<open>The picture is read and its file removed, whether or not that works. The reply has it in base64.\<close>

definition screenshot_path :: "externals \<Rightarrow> string list" where
  "screenshot_path x = x_temp_dir x @ [''catalerum-agent-shot-'' @ show_nat (x_process x) @ ''.png'']"

definition screenshot :: "externals \<Rightarrow> machine \<Rightarrow> (agent_error + reply) \<times> machine \<times> access list" where
  "screenshot x m =
     (let path = screenshot_path x in
      case attempt_screenshot x path (screenshot_commands (path_text path)) m of
        (captured, m1, t) \<Rightarrow>
          if \<not> captured then (Inl DesktopFailed, m1, t)
          else (case os_read m1 path of
                  None \<Rightarrow> (Inl Refused, m1, t)
                | Some (q, bytes) \<Rightarrow>
                    (case os_remove m1 path of
                       None \<Rightarrow> (Inr (Captured bytes), m1, t @ [ReadAt q])
                     | Some (q', m2) \<Rightarrow> (Inr (Captured bytes), m2, t @ [ReadAt q, RemovedAt q']))))"

fun desktop_do :: "externals \<Rightarrow> desktop_action \<Rightarrow> machine \<Rightarrow> (agent_error + reply) \<times> machine \<times> access list" where
  "desktop_do x (OpenUrl url) m = run_detached x (open_url_command url) (Opened url) m"
| "desktop_do x (Notify title body) m = run_detached x (notify_command title body) Notified m"
| "desktop_do x Screenshot m = screenshot x m"

definition desktop ::
  "externals \<Rightarrow> agent \<Rightarrow> desktop_action \<Rightarrow> machine \<Rightarrow> (agent_error + reply) \<times> machine \<times> access list" where
  "desktop x a action m =
     (if \<not> ac_desktop (ag_config a) then (Inl DesktopDisabled, m, []) else desktop_do x action m)"

section \<open>One operation\<close>

fun execute_op ::
  "externals \<Rightarrow> computer_op \<Rightarrow> agent \<Rightarrow> machine \<Rightarrow> (agent_error + reply) \<times> agent \<times> machine \<times> access list" where
  "execute_op x (ListDir cwd path) a m =
     (case resolve_input_path a m cwd path of
        Inl e \<Rightarrow> (Inl e, a, m, [])
      | Inr p \<Rightarrow> (case list_dir a m p of (r, t) \<Rightarrow> (r, a, m, t)))"
| "execute_op x (ReadFile cwd path offset limit media) a m =
     (case resolve_input_path a m cwd path of
        Inl e \<Rightarrow> (Inl e, a, m, [])
      | Inr p \<Rightarrow> (case read_file a m p offset limit media of (r, t) \<Rightarrow> (r, a, m, t)))"
| "execute_op x (WriteFile cwd path content mode) a m =
     (case resolve_input_path a m cwd path of
        Inl e \<Rightarrow> (Inl e, a, m, [])
      | Inr p \<Rightarrow> (case write_file a m p content mode of (r, m', t) \<Rightarrow> (r, a, m', t)))"
| "execute_op x (Search cwd root query regex max_results include_hidden timeout_secs) a m =
     (case search x a m cwd root query regex max_results include_hidden
         (timeout_of DEFAULT_SEARCH_TIMEOUT_SECS MAX_SEARCH_TIMEOUT_SECS timeout_secs) of (r, t) \<Rightarrow> (r, a, m, t))"
| "execute_op x (Stat cwd path) a m =
     (case resolve_input_path a m cwd path of
        Inl e \<Rightarrow> (Inl e, a, m, [])
      | Inr p \<Rightarrow> (case stat a m p of (r, t) \<Rightarrow> (r, a, m, t)))"
| "execute_op x (GrantAccess cwd path mode) a m =
     (case resolve_input_path a m cwd path of
        Inl e \<Rightarrow> (Inl e, a, m, [])
      | Inr p \<Rightarrow> (case grant_access a m p mode of (r, a') \<Rightarrow> (r, a', m, [])))"
| "execute_op x (Exec command cwd timeout_secs stdin) a m =
     (case exec x a m command cwd timeout_secs stdin of (r, m', t) \<Rightarrow> (r, a, m', t))"
| "execute_op x (Desktop action) a m = (case desktop x a action m of (r, m', t) \<Rightarrow> (r, a, m', t))"

end
