(* ===== verification/Agent_Safe.thy ===== *)
theory Agent_Safe
  imports Agent_Ops
begin

text \<open>
  The computer agent stays inside the directories it serves. A path that the agent resolved and that is no
  symbolic link is located where it says, so the check on the resolved path is a check on what is touched;
  a search stays below its roots because its walker enters directories only.
\<close>

section \<open>Well-formed file systems\<close>

definition is_link :: "machine \<Rightarrow> string list \<Rightarrow> bool" where
  "is_link m p \<longleftrightarrow> (case node_at m p of Some (FLink _) \<Rightarrow> True | _ \<Rightarrow> False)"

definition fs_wf :: "machine \<Rightarrow> bool" where
  "fs_wf m \<longleftrightarrow> node_at m [] = Some FDir
     \<and> node_at m (m_cwd m) = Some FDir
     \<and> list_all (\<lambda>(p, _). plain_names p \<and> (p \<noteq> [] \<longrightarrow> node_at m (butlast p) = Some FDir)) (m_nodes m)"

lemma node_plain: "fs_wf m \<Longrightarrow> node_at m p = Some n \<Longrightarrow> plain_names p"
  by (auto simp: fs_wf_def list_all_iff node_at_def dest!: map_of_SomeD)

lemma node_parent: "fs_wf m \<Longrightarrow> node_at m p = Some n \<Longrightarrow> p \<noteq> [] \<Longrightarrow> node_at m (butlast p) = Some FDir"
  by (auto simp: fs_wf_def list_all_iff node_at_def dest!: map_of_SomeD)

lemma node_above: "fs_wf m \<Longrightarrow> node_at m p = Some n \<Longrightarrow> strict_prefix q p \<Longrightarrow> node_at m q = Some FDir"
proof (induction p arbitrary: n rule: rev_induct)
  case (snoc c p)
  have up: "node_at m p = Some FDir" using node_parent[OF snoc(2,3)] by simp
  show ?case
  proof (cases "q = p")
    case False
    then have "strict_prefix q p" using snoc(4) by (auto simp: strict_prefix_snoc intro: prefix_order.le_neq_trans)
    then show ?thesis using snoc(1)[OF snoc(2) up] by simp
  qed (use up in simp)
qed simp

lemma node_canonical: "fs_wf m \<Longrightarrow> node_at m p = Some n \<Longrightarrow> \<not> is_link m p \<Longrightarrow> canonical m p"
  using node_plain node_above by (auto simp: canonical_def is_link_def)

lemma children_node: "fs_wf m \<Longrightarrow> (c, n) \<in> set (children m p) \<Longrightarrow> node_at m (p @ [c]) \<noteq> None"
  by (auto simp: children_def node_at_def map_of_eq_None_iff image_iff) force

section \<open>Where a resolved path lies\<close>

lemma follow_along:
  assumes "canonical m (cur @ ps)"
  shows "follow_names creating m k cur (ps @ rest) = follow_names creating m k (cur @ ps) rest"
  using assms
proof (induction ps arbitrary: cur)
  case (Cons c ps)
  have "strict_prefix cur (cur @ c # ps)" by (simp add: strict_prefix_def)
  then have dir: "node_at m cur = Some FDir" using Cons(2) by (simp add: canonical_def)
  have plain: "c \<noteq> ''.''" "c \<noteq> ''..''" using Cons(2) by (auto simp: canonical_def plain_names_def)
  have "strict_prefix (cur @ [c]) (cur @ c # ps)" if "ps \<noteq> []" using that by (simp add: strict_prefix_def)
  then have "ps \<noteq> [] \<Longrightarrow> node_at m (cur @ [c]) = Some FDir" using Cons(2) by (simp add: canonical_def)
  moreover have "ps = [] \<Longrightarrow> node_at m (cur @ [c]) \<noteq> None \<and> (\<forall>t. node_at m (cur @ [c]) \<noteq> Some (FLink t))"
    using Cons(2) by (simp add: canonical_def)
  ultimately have "\<exists>n. node_at m (cur @ [c]) = Some n \<and> (\<forall>t. n \<noteq> FLink t)"
    by (cases "ps = []") auto
  then obtain n where n: "node_at m (cur @ [c]) = Some n" "\<forall>t. n \<noteq> FLink t" by blast
  show ?case using Cons(1)[of "cur @ [c]"] Cons(2) dir plain n
    by (cases n) (simp_all add: follow_names.simps(2))
qed simp

lemma follow_self: "canonical m p \<Longrightarrow> follow_names creating m k [] p = Some p"
  using follow_along[of m "[]" p creating k "[]"] by simp

text \<open>A canonical path, or a plain name in a place that has one.\<close>

definition resolved :: "machine \<Rightarrow> string list \<Rightarrow> bool" where
  "resolved m p \<longleftrightarrow> canonical m p \<or>
     (p \<noteq> [] \<and> canonical m (butlast p) \<and> last p \<noteq> ''.'' \<and> last p \<noteq> ''..'')"

lemma canonicalize_canonical:
  assumes "fs_wf m" "canonicalize m s = Some p"
  shows "canonical m p"
proof -
  have "node_at m (m_cwd m) = Some FDir" using assms(1) by (simp add: fs_wf_def)
  then have "canonical m (if absolute s then [] else m_cwd m)"
    using node_canonical[OF assms(1)] by (simp add: is_link_def)
  moreover have "follow_names False m MAX_LINKS (if absolute s then [] else m_cwd m) (components s) = Some p"
    using assms(2) by (auto simp: canonicalize_def follow_text_def split: option.splits if_splits)
  ultimately show ?thesis by (rule follow_canonical[rotated])
qed

lemma lenient_resolved: "fs_wf m \<Longrightarrow> canonicalize_lenient m s = Inr p \<Longrightarrow> resolved m p"
  by (auto simp: canonicalize_lenient_def resolved_def path_file_name_def Let_def
      split: option.splits if_splits dest: canonicalize_canonical)

lemma follow_resolved:
  assumes "resolved m p" "\<not> is_link m p" "follow_names creating m k [] p = Some q"
  shows "q = p"
proof (cases "canonical m p")
  case True
  then show ?thesis using follow_self assms(3) by simp
next
  case False
  then obtain cp c where p: "p = cp @ [c]" "canonical m cp" "c \<noteq> ''.''" "c \<noteq> ''..''"
    using assms(1) by (cases p rule: rev_cases) (auto simp: resolved_def)
  have "follow_names creating m k cp [c] = Some q"
    using follow_along[of m "[]" cp creating k "[c]"] p(1,2) assms(3) by simp
  then show ?thesis using p assms(2)
    by (simp add: follow_names.simps(2) is_link_def split: if_splits option.splits fs_node.splits)
qed

lemma resolved_parent: "resolved m p \<Longrightarrow> canonical m (butlast p)"
  by (auto simp: resolved_def canonical_butlast)

lemma read_located: "resolved m p \<Longrightarrow> \<not> is_link m p \<Longrightarrow> os_read m p = Some (q, c) \<Longrightarrow> q = p"
  using follow_resolved by (auto simp: os_read_def located_def split: option.splits fs_node.splits)

lemma list_located: "resolved m p \<Longrightarrow> \<not> is_link m p \<Longrightarrow> os_list m p = Some (q, cs) \<Longrightarrow> q = p"
  using follow_resolved by (auto simp: os_list_def located_def split: option.splits if_splits)

lemma lstat_located: "canonical m (butlast p) \<Longrightarrow> os_lstat m p = Some (q, n) \<Longrightarrow> q = p \<and> node_at m p = Some n"
  by (auto simp: os_lstat_def located_def follow_self split: if_splits)

lemma write_located:
  assumes "resolved m p" "\<not> is_link m p" "os_write m p mode content = Some (q, m')"
  shows "q = p \<and> (\<forall>r. r \<noteq> p \<longrightarrow> node_at m' r = node_at m r)"
proof (cases mode)
  case CreateNew
  then show ?thesis using assms follow_self[OF resolved_parent[OF assms(1)]]
    by (auto simp: located_def split: if_splits)
qed (use assms follow_resolved[OF assms(1,2), of True] in
    \<open>auto split: option.splits fs_node.splits\<close>)

section \<open>What the grants cover\<close>

definition under_grant :: "agent \<Rightarrow> machine \<Rightarrow> bool \<Rightarrow> string list \<Rightarrow> bool" where
  "under_grant a m need_write p \<longleftrightarrow>
     (\<exists>g\<in>set (all_grants a). (need_write \<longrightarrow> can_write (dg_mode g))
        \<and> (case canonicalize m (dg_path g) of Some base \<Rightarrow> prefix base p | None \<Rightarrow> False))"

fun access_ok :: "agent \<Rightarrow> machine \<Rightarrow> access \<Rightarrow> bool" where
  "access_ok a m (WroteAt p) = under_grant a m True p"
| "access_ok a m (Listed p) = under_grant a m False p"
| "access_ok a m (ReadAt p) = under_grant a m False p"
| "access_ok a m (ProbedAt p) = under_grant a m False p"
| "access_ok a m (RanIn p) = under_grant a m False p"
| "access_ok a m (RemovedAt p) = under_grant a m True p"
| "access_ok a m (Started program args) = False"

lemma covered_below: "under_grant a m w p \<Longrightarrow> prefix p q \<Longrightarrow> under_grant a m w q"
  by (fastforce simp: under_grant_def split: option.splits intro: prefix_order.trans)

lemma scan_covers:
  "scan_grants m w p read_only gs = Inr b \<Longrightarrow>
   \<exists>g\<in>set gs. (w \<longrightarrow> can_write (dg_mode g))
     \<and> (case canonicalize m (dg_path g) of Some base \<Rightarrow> prefix base p | None \<Rightarrow> False)"
proof (induction gs arbitrary: read_only)
  case (Cons g gs)
  then show ?case by (cases "canonicalize m (dg_path g)") (fastforce split: if_splits)+
qed simp

lemma scoped_path_covers: "fs_wf m \<Longrightarrow> scoped_path a m s w = Inr p \<Longrightarrow> under_grant a m w p \<and> resolved m p"
  by (auto simp: scoped_path_def under_grant_def lenient_resolved split: sum.splits dest: scan_covers)

lemma scoped_dir_covers: "fs_wf m \<Longrightarrow> scoped_dir a m s = Inr p \<Longrightarrow> under_grant a m False p \<and> resolved m p"
  by (auto simp: scoped_dir_def split: sum.splits if_splits dest: scoped_path_covers)

lemma scoped_cwd_covers: "fs_wf m \<Longrightarrow> scoped_cwd a m cwd = Inr (Some p) \<Longrightarrow> under_grant a m False p \<and> resolved m p"
  by (auto simp: scoped_cwd_def split: option.splits if_splits sum.splits dest: scoped_dir_covers)

lemma grant_covers: "g \<in> set (all_grants a) \<Longrightarrow> canonicalize m (dg_path g) = Some p \<Longrightarrow> under_grant a m False p"
  by (force simp: under_grant_def)

lemma canonical_resolved: "canonical m p \<Longrightarrow> resolved m p"
  by (simp add: resolved_def)

section \<open>Searching\<close>

text \<open>What the walker documents: a walk whose root is no link stays below it and enters directories only.\<close>

definition walker_law :: "externals \<Rightarrow> bool" where
  "walker_law x \<longleftrightarrow>
     (\<forall>m keep root. fs_wf m \<longrightarrow> node_at m root \<noteq> None \<longrightarrow> \<not> is_link m root \<longrightarrow>
        (\<forall>p\<in>set (x_walk x m keep root). prefix root p \<and> node_at m p \<noteq> None))"

lemma push_trail [simp]: "push_hit cap h st = (b, st') \<Longrightarrow> ss_trail st' = ss_trail st"
  by (auto simp: push_hit_def Let_def split: if_splits)

lemma expired_trail [simp]: "expired x timeout st = (b, st') \<Longrightarrow> ss_trail st' = ss_trail st"
  by (auto simp: expired_def)

lemma stop_trail [simp]: "should_stop x timeout cap st = (b, st') \<Longrightarrow> ss_trail st' = ss_trail st"
  by (auto simp: should_stop_def split: if_splits prod.splits)

lemma lines_trail [simp]: "ss_trail (search_lines x timeout is_match cap path k ls st) = ss_trail st"
  by (induction x timeout is_match cap path k ls st rule: search_lines.induct) (auto split: prod.splits)

lemma contents_trail:
  assumes "canonical m p" "under_grant a m False p" "list_all (access_ok a m) (ss_trail st)"
  shows "list_all (access_ok a m) (ss_trail (search_file_contents x timeout m is_match cap p st))"
  using assms follow_self[OF assms(1)]
  by (auto simp: search_file_contents_def os_read_def located_def split: option.splits fs_node.splits)

lemma entries_trail:
  assumes "fs_wf m" "\<forall>p\<in>set ps. node_at m p \<noteq> None \<and> under_grant a m False p" "list_all (access_ok a m) (ss_trail st)"
  shows "list_all (access_ok a m) (ss_trail (search_entries x timeout m is_match cap ps st))"
  using assms(2,3)
proof (induction ps arbitrary: st)
  case (Cons p ps)
  show ?case
  proof (cases "os_lstat m p")
    case None
    then show ?thesis using Cons by auto
  next
    case (Some qn)
    obtain q n where at: "os_lstat m p = Some (q, n)" using Some by (cases qn) auto
    obtain n' where node: "node_at m p = Some n'" using Cons(2) by auto
    have "canonical m (butlast p)"
    proof (cases "p = []")
      case False
      then have "node_at m (butlast p) = Some FDir" using node_parent[OF assms(1) node] by simp
      then show ?thesis using node_canonical[OF assms(1)] by (simp add: is_link_def)
    qed simp
    then have q: "q = p" "node_at m p = Some n" using lstat_located at by auto
    define st0 where "st0 = st\<lparr>ss_trail := ss_trail st @ [ProbedAt p]\<rparr>"
    obtain stop st1 where stop: "should_stop x timeout cap st0 = (stop, st1)" by (rule prod.exhaust)
    obtain going st2 where push:
      "(if is_match (last p) then push_hit cap (NameHit (path_text p)) st1 else (True, st1)) = (going, st2)"
      by (rule prod.exhaust)
    have st1: "list_all (access_ok a m) (ss_trail st1)" using Cons(2,3) stop by (simp add: st0_def)
    then have st2: "list_all (access_ok a m) (ss_trail st2)" using push by (auto split: if_splits)
    have "n = FFile c \<Longrightarrow> canonical m p" for c using node_canonical[OF assms(1) q(2)] q(2) by (simp add: is_link_def)
    then have "list_all (access_ok a m) (ss_trail
        (case n of FFile c \<Rightarrow> if length c \<le> MAX_SEARCH_FILE_BYTES
            then search_file_contents x timeout m is_match cap p st2 else st2 | _ \<Rightarrow> st2))"
      using st2 Cons(2) contents_trail by (auto split: fs_node.splits)
    then show ?thesis using Cons(1,2) st1 st2 at stop push q by (simp add: st0_def[symmetric])
  qed
qed simp

lemma task_trail:
  assumes "fs_wf m" "walker_law x" "node_at m task \<noteq> None" "\<not> is_link m task" "under_grant a m False task"
    and "list_all (access_ok a m) (ss_trail st)"
  shows "list_all (access_ok a m) (ss_trail (search_task x timeout m h is_match cap task st))"
  unfolding search_task_def using assms
  by (intro entries_trail) (auto simp: walker_law_def intro: covered_below)

lemma run_tasks_trail:
  assumes "fs_wf m" "walker_law x"
    and "\<forall>t\<in>set ts. under_grant a m False t \<and> node_at m t \<noteq> None \<and> \<not> is_link m t" "list_all (access_ok a m) (ss_trail st)"
  shows "list_all (access_ok a m) (ss_trail (run_tasks x timeout m h is_match cap ts st))"
  using assms(3,4)
proof (induction ts arbitrary: st)
  case (Cons t ts)
  obtain stop st1 where "should_stop x timeout cap st = (stop, st1)" by (rule prod.exhaust)
  then show ?case using Cons task_trail[OF assms(1,2), of t a st1 timeout h is_match cap] by simp
qed (simp split: prod.splits)

lemma unique_roots_subset: "set (unique_roots acc rs) \<subseteq> set acc \<union> set rs"
  by (induction acc rs rule: unique_roots.induct) auto

lemma search_roots_covered:
  assumes "fs_wf m" "search_roots a m cwd root = Inr roots" "r \<in> set roots"
  shows "under_grant a m False r \<and> resolved m r"
proof -
  have granted: "under_grant a m False r \<and> resolved m r"
    if "g \<in> set (all_grants a)" "canonicalize m (dg_path g) = Some r" for g
    using that grant_covers canonical_resolved canonicalize_canonical[OF assms(1)] by blast
  show ?thesis using assms scoped_cwd_covers[OF assms(1)] scoped_dir_covers[OF assms(1)]
    by (auto simp: search_roots_def List.map_filter_def granted split: option.splits sum.splits if_splits)
qed

text \<open>The links that take an operation elsewhere: the path it was given resolves to one, a search root is
  one, or an entry of a search root is one.\<close>

definition link_at :: "machine \<Rightarrow> string \<Rightarrow> bool" where
  "link_at m s = (case canonicalize_lenient m s of Inr p \<Rightarrow> is_link m p | Inl _ \<Rightarrow> False)"

fun given_path :: "computer_op \<Rightarrow> (string option \<times> string) option" where
  "given_path (ListDir cwd path) = Some (cwd, path)"
| "given_path (ReadFile cwd path _ _ _) = Some (cwd, path)"
| "given_path (WriteFile cwd path _ _) = Some (cwd, path)"
| "given_path (Stat cwd path) = Some (cwd, path)"
| "given_path _ = None"

definition link_free :: "computer_op \<Rightarrow> agent \<Rightarrow> machine \<Rightarrow> bool" where
  "link_free op a m =
     ((case given_path op of
         Some (cwd, path) \<Rightarrow> (case resolve_input_path a m cwd path of Inr s \<Rightarrow> \<not> link_at m s | Inl _ \<Rightarrow> True)
       | None \<Rightarrow> True)
      \<and> (case op of
           Search cwd root _ _ _ include_hidden _ \<Rightarrow>
             (case search_roots a m cwd root of
                Inr roots \<Rightarrow>
                  list_all (\<lambda>r. \<not> is_link m r
                    \<and> list_all (\<lambda>(c, _). (\<not> include_hidden \<and> is_hidden c) \<or> \<not> is_link m (r @ [c])) (children m r)) roots
              | Inl _ \<Rightarrow> True)
         | _ \<Rightarrow> True))"

definition task_ok :: "agent \<Rightarrow> machine \<Rightarrow> string list \<Rightarrow> bool" where
  "task_ok a m t \<longleftrightarrow> under_grant a m False t \<and> node_at m t \<noteq> None \<and> \<not> is_link m t"

lemma entry_tasks_ok:
  assumes "fs_wf m" "under_grant a m False r" "set cs \<subseteq> set (children m r)"
    and "\<forall>(c, n)\<in>set cs. (\<not> h \<and> is_hidden c) \<or> \<not> is_link m (r @ [c])"
    and "entry_tasks x timeout h r cs st = (ts, over, st')"
  shows "(\<forall>t\<in>set ts. task_ok a m t) \<and> ss_trail st' = ss_trail st"
  using assms(2-)
proof (induction x timeout h r cs st arbitrary: ts over st' rule: entry_tasks.induct)
  case (2 x timeout h r c n cs st)
  have "under_grant a m False (r @ [c])" by (rule covered_below[OF 2(2)]) simp
  then have "task_ok a m (r @ [c])" if "h \<or> \<not> is_hidden c"
    using that 2(3,4) children_node[OF assms(1), of c n r] by (auto simp: task_ok_def)
  moreover obtain late st1 where late: "expired x timeout st = (late, st1)" by (rule prod.exhaust)
  moreover obtain us over1 st2 where rest: "entry_tasks x timeout h r cs st1 = (us, over1, st2)" by (rule prod_cases3)
  moreover have "(\<forall>t\<in>set us. task_ok a m t) \<and> ss_trail st2 = ss_trail st1" if "\<not> late"
    by (rule 2(1)[OF late[symmetric] that 2(2) _ _ rest]) (use 2(3,4) in simp_all)
  ultimately show ?case using 2(5) by (cases late) (auto split: if_splits)
qed simp

lemma root_tasks_ok:
  assumes "fs_wf m"
    and "\<forall>r\<in>set rs. under_grant a m False r \<and> resolved m r \<and> \<not> is_link m r
      \<and> (\<forall>(c, n)\<in>set (children m r). (\<not> h \<and> is_hidden c) \<or> \<not> is_link m (r @ [c]))"
    and "list_all (access_ok a m) (ss_trail st)" "root_tasks x timeout m h rs st = (ts, st')"
  shows "(\<forall>t\<in>set ts. task_ok a m t) \<and> list_all (access_ok a m) (ss_trail st')"
  using assms
proof (induction x timeout m h rs st arbitrary: ts st' rule: root_tasks.induct)
  case (2 x timeout m h r rs st)
  note wf = 2(3) and rs = 2(4) and trail = 2(5) and run = 2(6)
  obtain late st1 where late: "expired x timeout st = (late, st1)" by (rule prod.exhaust)
  show ?case
  proof (cases late)
    case True
    then show ?thesis using run trail late by auto
  next
    case now: False
    show ?thesis
    proof (cases "os_list m r")
      case None
      then show ?thesis using 2(1)[OF late[symmetric]] now run wf rs trail late by auto
    next
      case (Some qc)
      then obtain cs where list: "os_list m r = Some (r, cs)" "cs = children m r"
        using list_located[of m r "fst qc" "snd qc"] rs
        by (cases qc) (auto simp: os_list_def split: option.splits if_splits)
      obtain us over st2 where entries:
        "entry_tasks x timeout h r cs (st1\<lparr>ss_trail := ss_trail st1 @ [Listed r]\<rparr>) = (us, over, st2)"
        by (rule prod_cases3)
      have "(\<forall>t\<in>set us. task_ok a m t) \<and> ss_trail st2 = ss_trail (st1\<lparr>ss_trail := ss_trail st1 @ [Listed r]\<rparr>)"
        by (rule entry_tasks_ok[OF wf _ _ _ entries]) (use rs list(2) in simp_all)
      moreover have "under_grant a m False r" using rs by simp
      ultimately have us: "\<forall>t\<in>set us. task_ok a m t" "list_all (access_ok a m) (ss_trail st2)"
        using trail expired_trail[OF late] by simp_all
      obtain vs st3 where rest: "root_tasks x timeout m h rs st2 = (vs, st3)" by (rule prod.exhaust)
      show ?thesis
      proof (cases over)
        case True
        then show ?thesis using run late now list(1) entries us by simp
      next
        case False
        then have "(\<forall>t\<in>set vs. task_ok a m t) \<and> list_all (access_ok a m) (ss_trail st3)"
          using 2(2)[OF late[symmetric] now list(1) _ entries[symmetric]] us wf rs rest by auto
        then show ?thesis using run late now list(1) entries us rest False by auto
      qed
    qed
  qed
qed simp

lemma search_trail:
  assumes "fs_wf m" "walker_law x" "link_free (Search cwd root q rx mx h secs) a m"
    and "search x a m cwd root q rx mx h timeout = (r, t)"
  shows "list_all (access_ok a m) t"
proof (cases "search_roots a m cwd root")
  case (Inr roots)
  define rs where "rs = unique_roots [] roots"
  have "set rs \<subseteq> set roots" using unique_roots_subset[of "[]" roots] by (simp add: rs_def)
  then have "\<forall>r\<in>set rs. under_grant a m False r \<and> resolved m r \<and> \<not> is_link m r
      \<and> (\<forall>(c, n)\<in>set (children m r). (\<not> h \<and> is_hidden c) \<or> \<not> is_link m (r @ [c]))"
    using assms(3) Inr search_roots_covered[OF assms(1) Inr] by (fastforce simp: link_free_def list_all_iff)
  note tasks = root_tasks_ok[OF assms(1) this]
  show ?thesis
  proof (cases "roots = [] \<or> x_pattern x q rx = None")
    case False
    then obtain f where f: "roots \<noteq> []" "x_pattern x q rx = Some f" by auto
    obtain ts st1 where ts: "root_tasks x timeout m h rs
        \<lparr>ss_hits = [], ss_claimed = 0, ss_capped = False, ss_timed_out = False, ss_reads = 0, ss_trail = []\<rparr> = (ts, st1)"
      by (rule prod.exhaust)
    obtain late st2 where late: "expired x timeout st1 = (late, st2)" by (rule prod.exhaust)
    have "list_all (access_ok a m) (ss_trail (run_tasks x timeout m h f (search_cap mx) ts (st2\<lparr>ss_timed_out := late\<rparr>)))"
      using run_tasks_trail[OF assms(1,2), of ts a] tasks[OF _ ts] late by (simp add: task_ok_def)
    then show ?thesis using assms(4) Inr f ts late by (auto simp: search_def rs_def Let_def)
  qed (use assms(4) Inr in \<open>auto simp: search_def split: if_splits\<close>)
qed (use assms(4) in \<open>simp add: search_def\<close>)

lemma scoped_free:
  assumes "fs_wf m" "\<not> link_at m s" "scoped_path a m s w = Inr p"
  shows "under_grant a m w p \<and> resolved m p \<and> \<not> is_link m p"
  using scoped_path_covers[OF assms(1,3)] assms(2,3)
  by (auto simp: scoped_path_def link_at_def split: sum.splits)

lemma list_trail:
  assumes "fs_wf m" "\<not> link_at m s" "list_dir a m s = (r, t)"
  shows "list_all (access_ok a m) t"
  using scoped_free[OF assms(1,2)] list_located assms(3)
  by (fastforce simp: list_dir_def scoped_dir_def split: sum.splits option.splits if_splits)

lemma read_trail:
  assumes "fs_wf m" "\<not> link_at m s" "read_file a m s offset limit media = (r, t)"
  shows "list_all (access_ok a m) t"
  using scoped_free[OF assms(1,2)] read_located assms(3)
  by (fastforce simp: read_file_def Let_def split: sum.splits option.splits if_splits)

lemma stat_trail:
  assumes "fs_wf m" "\<not> link_at m s" "stat a m s = (r, t)"
  shows "list_all (access_ok a m) t"
  using scoped_free[OF assms(1,2)] lstat_located resolved_parent assms(3)
  by (fastforce simp: stat_def split: sum.splits option.splits)

lemma write_trail:
  assumes "fs_wf m" "\<not> link_at m s" "write_file a m s content mode = (r, m', t)"
  shows "list_all (access_ok a m) t" "node_at m' p \<noteq> node_at m p \<Longrightarrow> under_grant a m True p"
proof -
  have "list_all (access_ok a m) t \<and> (node_at m' p \<noteq> node_at m p \<longrightarrow> under_grant a m True p)"
  proof (cases "scoped_path a m s True")
    case (Inr d)
    note at = scoped_free[OF assms(1,2) Inr]
    show ?thesis
    proof (cases "os_write m d mode content")
      case (Some w)
      then show ?thesis using at assms(3) Inr write_located[of m d mode content "fst w" "snd w"]
        by (cases w) (auto simp: write_file_def)
    qed (use assms(3) Inr in \<open>auto simp: write_file_def\<close>)
  qed (use assms(3) in \<open>auto simp: write_file_def\<close>)
  then show "list_all (access_ok a m) t" "node_at m' p \<noteq> node_at m p \<Longrightarrow> under_grant a m True p" by auto
qed

lemma exec_trail:
  assumes "fs_wf m" "exec x a m command cwd secs stdin = (r, m', t)"
  shows "list_all (access_ok a m) t"
proof -
  have "under_grant a m False d"
    if "(case cwd of Some c \<Rightarrow> scoped_dir a m c
       | None \<Rightarrow> (case all_grants a of [] \<Rightarrow> Inl NoDirectoryServed
           | g # _ \<Rightarrow> (case canonicalize m (dg_path g) of Some d \<Rightarrow> Inr d | None \<Rightarrow> Inl NoDirectoryServed))) = Inr d" for d
    using that scoped_dir_covers[OF assms(1)]
    by (auto split: option.splits list.splits intro: grant_covers[of "hd (all_grants a)"])
  then show ?thesis using assms(2)
    unfolding exec_def by (auto split: sum.splits prod.splits shell_outcome.splits)
qed

text \<open>
  C10: An operation of the computer agent other than a desktop action, none of whose paths ends at a symbolic
  link and, for a search, none of whose roots' own visible entries is one, lists, reads, looks at and runs in only what
  lies under the canonical location of a granted directory, writes only under one granted for writing, and
  without running a command changes nothing else. A desktop action does nothing where the desktop is
  disabled; where it is enabled, it starts tools, which the grants do not bind.
\<close>

theorem agent_ops_confined:
  assumes "fs_wf m" "walker_law x" "link_free op a m" "execute_op x op a m = (r, a', m', trail)"
  shows "case op of
      Desktop _ \<Rightarrow> ac_desktop (ag_config a) \<or> (trail = [] \<and> m' = m)
    | Exec _ _ _ _ \<Rightarrow> list_all (access_ok a m) trail
    | _ \<Rightarrow> list_all (access_ok a m) trail \<and> (\<forall>p. node_at m' p \<noteq> node_at m p \<longrightarrow> under_grant a m True p)"
proof (cases op)
  case (Search cwd root q rx mx h secs)
  then show ?thesis using search_trail[OF assms(1,2), of cwd root q rx mx h secs a] assms(3,4) by (auto split: prod.splits)
next
  case (Exec c cwd secs i)
  then show ?thesis using exec_trail[OF assms(1)] assms(4) by (auto split: prod.splits)
next
  case (WriteFile cwd path content mode)
  then show ?thesis using write_trail[OF assms(1)] assms(3,4)
    by (auto simp: link_free_def split: prod.splits sum.splits)
next
  case (ListDir cwd path)
  then show ?thesis using list_trail[OF assms(1)] assms(3,4)
    by (auto simp: link_free_def split: prod.splits sum.splits)
next
  case (ReadFile cwd path offset limit media)
  then show ?thesis using read_trail[OF assms(1)] assms(3,4)
    by (auto simp: link_free_def split: prod.splits sum.splits)
next
  case (Stat cwd path)
  then show ?thesis using stat_trail[OF assms(1)] assms(3,4)
    by (auto simp: link_free_def split: prod.splits sum.splits)
next
  case (Desktop action)
  then show ?thesis using assms(4) by (auto simp: desktop_def split: prod.splits)
qed (use assms(4) in \<open>auto split: prod.splits sum.splits\<close>)

text \<open>A machine that serves \<open>/srv\<close>, for writing, and has a file next to it.\<close>

definition sample_machine :: "(string \<times> string) list \<Rightarrow> machine" where
  "sample_machine links =
     \<lparr>m_nodes = map (\<lambda>(name, target). ([''srv'', name], FLink target)) links @
        [([], FDir), ([''srv''], FDir), ([''srv'', ''a''], FFile ''hi''), ([''etc''], FDir), ([''etc'', ''key''], FFile ''k'')],
      m_cwd = [], m_dir_len = 0\<rparr>"

definition sample_agent :: agent where
  "sample_agent =
     \<lparr>ag_config = \<lparr>ac_server_url = ''https://x'', ac_token = ''t'', ac_name = ''m'',
        ac_dirs = [\<lparr>dc_path = ''/srv'', dc_mode = ReadWrite\<rparr>], ac_grantable_roots = [],
        ac_exec_policy = PolicyDeny, ac_desktop = False, ac_sandbox = True\<rparr>,
      ag_runtime = []\<rparr>"

definition sample_externals :: externals where
  "sample_externals =
     \<lparr>x_walk = (\<lambda>m keep root. [root]), x_pattern = (\<lambda>q regex. Some (\<lambda>s. s = q)),
      x_shell = (\<lambda>command workdir dirs sandbox secs stdin m. (Exited ''done'' [] (Some 0), m)),
      x_tool = (\<lambda>program args m. (NotStarted, m)), x_temp_dir = [''tmp''], x_process = 1, x_elapsed = (\<lambda>k. 0)\<rparr>"

theorem agent_ops_confined_witness:
  "case execute_op sample_externals (WriteFile None ''/srv/b'' ''x'' Overwrite) sample_agent (sample_machine []) of
     (r, a', m', trail) \<Rightarrow>
       trail = [WroteAt [''srv'', ''b'']] \<and> list_all (access_ok sample_agent (sample_machine [])) trail"
proof -
  have "walker_law sample_externals" by (simp add: walker_law_def sample_externals_def)
  moreover have "fs_wf (sample_machine [])" by code_simp
  moreover have "link_free (WriteFile None ''/srv/b'' ''x'' Overwrite) sample_agent (sample_machine [])" by code_simp
  moreover have trail:
    "snd (snd (snd (execute_op sample_externals (WriteFile None ''/srv/b'' ''x'' Overwrite) sample_agent (sample_machine []))))
       = [WroteAt [''srv'', ''b'']]"
    by code_simp
  moreover obtain r a' m' t where run:
    "execute_op sample_externals (WriteFile None ''/srv/b'' ''x'' Overwrite) sample_agent (sample_machine []) = (r, a', m', t)"
    by (rule prod_cases4)
  ultimately show ?thesis using agent_ops_confined[OF _ _ _ run] by simp
qed

section \<open>What a connection is granted\<close>

text \<open>The operations of a connection, each with the file system it finds.\<close>

fun agent_run :: "externals \<Rightarrow> (computer_op \<times> machine) list \<Rightarrow> agent \<Rightarrow> agent" where
  "agent_run x [] a = a"
| "agent_run x ((op, m) # ops) a = agent_run x ops (fst (snd (execute_op x op a m)))"

fun agent_trace :: "externals \<Rightarrow> (computer_op \<times> machine) list \<Rightarrow> agent \<Rightarrow> (agent \<times> computer_op \<times> machine) list" where
  "agent_trace x [] a = []"
| "agent_trace x ((op, m) # ops) a = (a, op, m) # agent_trace x ops (fst (snd (execute_op x op a m)))"

text \<open>The grant an operation gives: it asks for access to a path that lies, at that moment, under the canonical
  location of a grantable root of the configuration.\<close>

fun gives :: "computer_config \<Rightarrow> agent \<times> computer_op \<times> machine \<Rightarrow> dir_grant option" where
  "gives c (a, GrantAccess cwd path mode, m) =
     (case resolve_input_path a m cwd path of
        Inl _ \<Rightarrow> None
      | Inr s \<Rightarrow>
          (case canonicalize_lenient m s of
             Inl _ \<Rightarrow> None
           | Inr p \<Rightarrow>
               if list_ex (\<lambda>r. case canonicalize m r of Some base \<Rightarrow> prefix base p | None \<Rightarrow> False) (ac_grantable_roots c)
               then Some \<lparr>dg_path = path_text p, dg_mode = mode\<rparr> else None))"
| "gives c _ = None"

definition spares :: "computer_config \<Rightarrow> dir_grant \<Rightarrow> agent \<times> computer_op \<times> machine \<Rightarrow> bool" where
  "spares c g s \<longleftrightarrow> (case gives c s of Some h \<Rightarrow> dg_path h \<noteq> dg_path g | None \<Rightarrow> True)"

text \<open>A grant some operation gave, and none gave for its path after it.\<close>

fun last_given :: "computer_config \<Rightarrow> (agent \<times> computer_op \<times> machine) list \<Rightarrow> dir_grant \<Rightarrow> bool" where
  "last_given c [] g \<longleftrightarrow> False"
| "last_given c (s # ss) g \<longleftrightarrow> last_given c ss g \<or> (gives c s = Some g \<and> list_all (spares c g) ss)"

lemma distinct_map_filter_other: "distinct (map f xs) \<Longrightarrow> distinct (map f (filter P xs))"
  by (induction xs) auto

definition one_each :: "computer_config \<Rightarrow> agent \<Rightarrow> bool" where
  "one_each c a \<longleftrightarrow> ag_config a = c \<and> distinct (map dg_path (ag_runtime a))"

lemma grant_access_gives:
  assumes "one_each c a" "resolve_input_path a m cwd path = Inr s" "grant_access a m s mode = (r, a')"
  shows "one_each c a' \<and> (g \<in> set (ag_runtime a') \<longleftrightarrow> gives c (a, GrantAccess cwd path mode, m) = Some g
     \<or> (g \<in> set (ag_runtime a) \<and> spares c g (a, GrantAccess cwd path mode, m)))"
  using assms
  by (auto simp: one_each_def grant_access_def spares_def distinct_map_filter_other split: sum.splits if_splits)

lemma execute_gives:
  assumes "one_each c a" "execute_op x op a m = (r, a', m', t)"
  shows "one_each c a' \<and> (g \<in> set (ag_runtime a') \<longleftrightarrow> gives c (a, op, m) = Some g
     \<or> (g \<in> set (ag_runtime a) \<and> spares c g (a, op, m)))"
proof (cases op)
  case (GrantAccess cwd path mode)
  show ?thesis
  proof (cases "resolve_input_path a m cwd path")
    case (Inr s)
    then show ?thesis using grant_access_gives[OF assms(1) Inr] assms(2) GrantAccess by (auto split: prod.splits)
  qed (use assms GrantAccess in \<open>auto simp: spares_def\<close>)
qed (use assms in \<open>auto simp: spares_def split: prod.splits sum.splits\<close>)

lemma run_gives:
  "one_each c a \<Longrightarrow> one_each c (agent_run x ops a) \<and>
     (g \<in> set (ag_runtime (agent_run x ops a)) \<longleftrightarrow> last_given c (agent_trace x ops a) g
        \<or> (g \<in> set (ag_runtime a) \<and> list_all (spares c g) (agent_trace x ops a)))"
proof (induction x ops a rule: agent_run.induct)
  case (2 x op m ops a)
  obtain r a' m' t where run: "execute_op x op a m = (r, a', m', t)" by (rule prod_cases4)
  note step = execute_gives[OF 2(2) run, of g]
  then show ?case using 2(1) run by auto
qed simp

text \<open>
  C21: Whatever operations a server sends in whatever order and however the file system changes between them,
  the configuration stays as it was, the run-time grants are one per path, and they are exactly those given by
  an operation that asked for the path in that mode when it lay under a grantable root of the configuration,
  and by none for the same path after it.
\<close>

theorem agent_grants_rooted:
  "ag_config (agent_run x ops (agent_new c)) = c \<and> distinct (map dg_path (ag_runtime (agent_run x ops (agent_new c))))
     \<and> (g \<in> set (ag_runtime (agent_run x ops (agent_new c))) \<longleftrightarrow> last_given c (agent_trace x ops (agent_new c)) g)"
  using run_gives[of c "agent_new c" x ops g] by (simp add: one_each_def agent_new_def)

section \<open>What links can do\<close>

text \<open>
  Where a path ends at a link, the operations leave the granted directories: a slash behind a link to a file
  makes \<open>canonicalize\<close> fail, the fallback names the link itself, and opening it follows it; a link to a file
  that does not exist is written through; a link to a directory that stands in a searched directory is
  a root of its own, which the walker follows.
\<close>

lemma read_through_link:
  "read_file sample_agent (sample_machine [(''l'', ''/etc/key'')]) ''/srv/l/'' None None None
     = (Inr (TextContent ''/srv/l'' [107] 1 False), [ReadAt [''etc'', ''key'']])"
proof -
  have "scoped_path sample_agent (sample_machine [(''l'', ''/etc/key'')]) ''/srv/l/'' False = Inr [''srv'', ''l'']"
    by code_simp
  moreover have "os_read (sample_machine [(''l'', ''/etc/key'')]) [''srv'', ''l''] = Some ([''etc'', ''key''], ''k'')"
    by code_simp
  moreover have "decode_text_file ''k'' False = Inr [107]" by code_simp
  moreover have "path_text [''srv'', ''l''] = ''/srv/l''" by code_simp
  ultimately show ?thesis by (simp add: read_file_def MAX_READ_BYTES_def Let_def)
qed

lemma write_through_link:
  "snd (snd (write_file sample_agent (sample_machine [(''l'', ''/etc/new'')]) ''/srv/l'' ''x'' Append))
     = [WroteAt [''etc'', ''new'']]"
  by code_simp

lemma command_in_spite_of_policy:
  "fst (execute_op sample_externals (Exec ''id'' None None None) sample_agent (sample_machine []))
     = Inr (Ran (cap_utf8 ''done'') [] (Some 0) False)"
proof -
  have "canonicalize (sample_machine []) ''/srv'' = Some [''srv'']" by code_simp
  then show ?thesis by (simp add: exec_def all_grants_def dir_grants_def as_grant_def sample_agent_def sample_externals_def cap_utf8_def)
qed

end
