(* ===== verification/Spec2Isabelle.thy ===== *)
theory Spec2Isabelle
  imports Logic_Results Cap_Attenuate Iam_Roles Iam_Token Iam_Memory Auto_Run Fetch_Safe Bus_Turn Chat_History
    Job_Safe Tool_Gate Collect_Safe Md_Safe Md_Stream Md_Events
    Agent_Safe
begin

text \<open>
  Catalerum is a workspace server: it keeps notes, mail, calendars and files, projects them
  into a graph that is queried with a small Datalog, runs automations over them, and gives
  users, agents and automations only the authority their role or grant confers. This
  development models the parts that carry its own logic.

  \<^bold>\<open>Query language\<close> (\<open>crates/catalerum-logic/src\<close>). \<open>Logic_Ast\<close> has the syntax trees and the graph
  schema (\<open>ast.rs\<close>, \<open>schema.rs\<close>, \<open>error.rs\<close>), \<open>Logic_Lex\<close> the scanner, \<open>Logic_Parse\<close> the recursive
  descent parser with its label and edge sugar, \<open>Logic_Validate\<close> the authoring-time check and
  \<open>Logic_Eval\<close> the fact base and the semi-naive evaluator with its caps and deadline. The
  specification is the least model of the rules (\<open>Logic_Fixpoint\<close>); \<open>Logic_Join\<close> relates the join
  loops to valuations, \<open>Logic_Rounds\<close> the rounds to rule applications, \<open>Logic_Total\<close> bounds the
  derivable tuples and \<open>Logic_Correct\<close> puts them together. \<open>Logic_Print\<close> prints programs and is
  the other half of the round trips. \<open>Logic_Results\<close> states the properties. The fixpoint loop
  terminates because every round that continues adds a derived tuple and the derived-tuple
  cap bounds them; \<open>eval_returns\<close> gives limits under which no cap is hit.

  \<^bold>\<open>Capabilities\<close> (\<open>crates/catalerum-core/src/capability.rs\<close>). \<open>Cap_Glob\<close> has the segment matcher,
  \<open>Capability\<close> the resources, constraints, grants and attenuation, \<open>Cap_Attenuate\<close> the soundness of
  attenuation on the selectors for which it is sound, with the two counterexamples outside
  them. \<open>Rust_Num\<close> and \<open>Json\<close> have the numbers and JSON values constraints compare.

  \<^bold>\<open>Identity\<close> (\<open>crates/catalerum-iam/src\<close>). \<open>Iam_Roles\<close> maps roles to capabilities, \<open>Iam_Token\<close>
  encodes tokens (the random source and SHA-256 are parameters), \<open>Iam_Store\<close> has the rows, the
  \<open>IamStore\<close> trait as a record of state-passing operations (\<open>Effects\<close>) and the in-memory store,
  \<open>Iam_Service\<close> the service over any store. \<open>Iam_Contract\<close> states what the service relies on as
  locales (\<open>session_store\<close>, \<open>login_store\<close>, \<open>directory_store\<close>) and proves its guarantees there;
  \<open>Iam_Memory\<close> interprets them on the in-memory store and states the properties.

  \<^bold>\<open>Automations\<close> (\<open>crates/catalerum-automation/src\<close>). \<open>Auto_Model\<close> has the triggers, actions, graph
  nodes and run rows, \<open>Auto_Trigger\<close> the matching of events and the schedule windows (the cron and
  time zone libraries are parameters), \<open>Auto_Graph\<close> the topological order, reachability, loop
  regions, validation and warnings of a graph. \<open>Auto_Topo\<close> proves Kahn's algorithm and the
  reachability search correct, \<open>Auto_Valid\<close> that validation decides well-formedness and what it
  guarantees of the loop regions. \<open>Auto_Spec\<close> reads a stored automation; \<open>Auto_Exec\<close> and
  \<open>Auto_Engine\<close> are the engine (\<open>executor.rs\<close>, \<open>engine.rs\<close>): the record \<open>ports\<close> has the durable
  journal, the action and code runners and the clock as state-passing operations, and a node, a
  loop, the graph walk, the linear list and the entry point are programs over it.

  What the engine relies on is the locale \<open>run_journal\<close> of \<open>Auto_Journal\<close>, stated over a view of
  the journal (the run rows, and the steps of a run by ordinal). It is interpreted on the Postgres
  adapter (\<open>postgres.rs\<close>) over the statements of \<open>AutomationRunRepo\<close>
  (\<open>crates/catalerum-store/src/repo.rs\<close>), read as operations on lists of rows with their unique
  keys. \<open>Auto_Walk\<close>, \<open>Auto_Completes\<close>, \<open>Auto_Finish\<close> and \<open>Auto_Linear\<close> follow a run through such a
  journal, node by node: the ordinals of outer nodes and of the loop bodies never meet up to a
  million nodes, so no insert conflicts, and the run ends with every owed step on record.
  \<open>Auto_Calls\<close> and \<open>Auto_Gate\<close> record the calls on the runners instead, over any journal, and
  bound which calls an execution makes. \<open>Auto_Run\<close> states the properties of a whole execution.
  The walk is structural recursion on the topological order, the loop bodies and the items, so no
  fuel is needed. The adapter's calls are taken to succeed or fail as the statements do: a lost
  connection, which the code reports as an error to the caller, ends the attempt as a crash does.

  \<^bold>\<open>Agent loop\<close> (\<open>crates/catalerum-llm/src\<close>, \<open>crates/catalerum-core/src\<close>). \<open>Llm_Sse\<close> is the decoder of the
  event stream (\<open>sse.rs\<close>), \<open>Llm_Chat\<close> the chat data (\<open>llm.rs\<close>, \<open>model.rs\<close>, \<open>stream.rs\<close>) and the assembly
  of a streamed turn (\<open>client.rs\<close>), \<open>Llm_Compact\<close> the compaction of a long history (\<open>compact.rs\<close>, with
  the \<open>f64\<close> arithmetic of \<open>Rust_Float\<close>), \<open>Llm_Tools\<close> the tool registry and its guarded dispatch
  (\<open>tool.rs\<close>), \<open>Llm_Agent\<close> the loop (\<open>agent.rs\<close>). The model stream, the observer, the stop button and
  the tools are a record of operations on a world. \<open>Llm_Confined\<close> shows that the loop runs no tool
  outside the caller's capabilities, sends no request but well-formed ones, and ends. \<open>Chat_History\<close>
  is the history a chat turn starts from (\<open>catalerum-api/src/chat_context.rs\<close>, \<open>routes/ws.rs\<close>), which
  is well-formed in the sense the loop relies on. The rounds are bounded by the configuration, so
  the loop is structural recursion; a stream is a finite list of what it yields.

  \<^bold>\<open>Message bus\<close> (\<open>crates/catalerum-bus/src\<close>). The in-process backends: \<open>Bus_Lock\<close> (\<open>lock.rs\<close>),
  \<open>Bus_Registry\<close> (\<open>registry.rs\<close>), \<open>Bus_Queue\<close> (\<open>queue.rs\<close>) and \<open>Bus_Turn\<close> (\<open>turnbuf.rs\<close>). Each
  operation holds the backend's mutex and is a step; the properties are about histories of steps. An append
  to a turn takes its locks in turn, so there the steps are its parts, which appends to other turns, reads,
  resets and sweeps interleave with. \<open>Bus_Registry\<close> also has the dispatch claim of the channel listener
  (\<open>catalerum-api/src/channel_listener.rs\<close>), proved over the locale \<open>lease_lock\<close>, which the in-process
  lock interprets and which Valkey's lock keeps, over the command \<open>SET NX PX\<close> as it is documented.

  \<^bold>\<open>Web fetch\<close> (\<open>crates/catalerum-fetch/src\<close>). \<open>Fetch_Policy\<close> has the refused addresses, the guard and
  the redirect loop (\<open>policy.rs\<close>, \<open>http.rs\<close>); \<open>Fetch_Safe\<close> shows what is refused and that every
  request of a fetch passed the guard. Ten redirects at most, so the loop counts down.

  \<^bold>\<open>Tool guard\<close> (\<open>crates/catalerum-api/src/tool_gate.rs\<close>). \<open>Approvals\<close> has the pending approvals
  (\<open>PendingApprovalRepo\<close>) and the protocol by which a held call waits for the user's ruling and uses
  it up, \<open>Object_Labels\<close> the labels of stored files (\<open>ObjectLabelRepo\<close>), \<open>Tool_Gate\<close> the guard of a
  profile: label policy, classifier, lenient reading of its ruling, and its place in the dispatch of
  \<open>Llm_Tools\<close>. Scripts and models are functions on the world.

  \<^bold>\<open>Job queue\<close> (\<open>crates/catalerum-store/src/repo.rs\<close>, \<open>crates/catalerum-ingest/src/worker.rs\<close>).
  \<open>Job_Queue\<close> has the statements and the worker's claim, run and report; \<open>Job_Safe\<close> follows histories
  of statements of many workers, crashes included.

  \<^bold>\<open>Collecting\<close> (\<open>crates/catalerum-ingest/src/collect.rs\<close>). \<open>Collect\<close> is the poll of a mailbox or a
  calendar: the drain of its pages from the cursor on record, the runs of the automation, the ledger
  of what committed and the move of the cursor. \<open>Collect_Safe\<close> watches repeated polls and shows,
  over the locale \<open>ledger_poll\<close> that both polls interpret, that what is behind the cursor is settled.
  A drain ends by the page cap. The Google token resealing before an email poll is left out.

  \<^bold>\<open>Markdown\<close> (\<open>crates/catalerum-markdown/src\<close>). \<open>Md_Text\<close> has the byte sets with their vector and
  scalar scans (\<open>scan.rs\<close>), escaping and the URL policy (\<open>escape.rs\<close>); \<open>Md_Inline\<close> and \<open>Md_Block\<close> are the
  parsers (\<open>parser/inline.rs\<close>, \<open>parser/block.rs\<close>, \<open>ast.rs\<close>), \<open>Md_Events\<close> the event stream (\<open>event.rs\<close>,
  \<open>parser/mod.rs\<close>), \<open>Md_Html\<close> the HTML and MathML renderers (\<open>render/html.rs\<close>, \<open>math.rs\<close>), \<open>Md_Stream\<close> the
  incremental renderer (\<open>stream.rs\<close>). The parsers end because every step consumes text or lines, and the
  resolution of emphasis because it uses up delimiters. \<open>Md_Markup\<close> is a reader of HTML of its own: the
  elements that are open, the tags and attributes it admits, the scheme a browser sees of a target.
  \<open>Md_Safe\<close> shows that all output is balanced markup for this reader. The LaTeX parser and the diagram
  renderers are arguments; of the SVG of the document's own diagrams, if it has any, it is assumed that it is such
  markup, whose vocabulary has the elements and attributes the diagram renderers write.

  \<^bold>\<open>Computer agent\<close> (\<open>crates/catalerum-agent/src/ops.rs\<close>, \<open>config.rs\<close>, the protocol of
  \<open>catalerum-core/src/computer.rs\<close>). \<open>Agent_Fs\<close> is a Unix file system with links: resolution by names as
  \<open>realpath\<close> and \<open>open\<close> do it (at most forty links), and the calls the agent makes; it refuses nothing for
  permissions and keeps no times. \<open>Agent_Ops\<close> has the operations with their scoping, each with the places
  it touched. \<open>Agent_Safe\<close> shows that these lie under the granted directories as long as no path ends at a
  link, except for desktop actions, shows with concrete links that they do not otherwise, and that the runtime
  grants are those last given for each path, which then lay under a grantable root. The walker, regular
  expressions, shell, desktop tools and clock are arguments; the sandbox, the configuration file and the
  connection are left out.

  \<^bold>\<open>Conventions.\<close> A \<open>Result\<close> is a sum with the error on the left, an error message a constructor of
  an error type, a hash map an association list or a map, an id a natural number, an instant an
  integer. Characters are those below code point 256, except in the texts of a chat, which are lists
  of code points. Names of the source are kept; a prefix
  separates constructors two enums share.

  \<^bold>\<open>Not modelled.\<close> The web interface, most HTTP routes, the other SQL repositories, the other
  Valkey backends of the bus, the provider clients and the container and terminal backends move data between services that are not part of the
  source and carry no logic of their own that could be stated without them. serde's derived
  decoders and encoders, sqlx, croner, chrono-tz and the OIDC libraries are parameters where
  the modelled code calls them.
\<close>

end
